(* ===== verification/PHP_Prelude.thy ===== *)
theory PHP_Prelude
  imports Main "HOL-Library.Word" "HOL-Library.Signed_Division" "HOL-Library.Monad_Syntax"
begin

text \<open>
  Shared vocabulary of the development: the C types of the platform the model fixes (LP64:
  32-bit \<open>int\<close> and \<open>uint\<close>, 64-bit \<open>long\<close> and \<open>ulong\<close>, signed \<open>char\<close>), the status codes of
  \<open>php.h\<close>, C strings, decimal numbers as \<open>strtol\<close> reads them, and the generic lemmas on lists
  and on linked blocks that several components use.
\<close>

unbundle bit_operations_syntax

subsection \<open>C types and status codes\<close>

type_synonym ulong = "64 word"
type_synonym addr = nat

text \<open>\<open>SUCCESS\<close> and \<open>FAILURE\<close> of \<open>php.h\<close> (0 and -1).\<close>

datatype status = SUCCESS | FAILURE

definition LONG_MAX :: int where
  "LONG_MAX = 9223372036854775807"

definition LONG_MIN :: int where
  "LONG_MIN = - 9223372036854775808"

text \<open>The value of a plain (signed) \<open>char\<close> in an integer expression, and of an \<open>unsigned char\<close>.\<close>

definition uchar :: "char \<Rightarrow> nat" where
  "uchar c = of_char c"

definition schar :: "char \<Rightarrow> int" where
  "schar c = (if uchar c < 128 then int (uchar c) else int (uchar c) - 256)"

definition NUL :: char where
  "NUL = CHR 0x00"

text \<open>The C string that starts a buffer: everything before the first NUL byte.\<close>

definition c_str :: "string \<Rightarrow> string" where
  "c_str s = takeWhile (\<lambda>c. c \<noteq> NUL) s"

definition isdigit :: "char \<Rightarrow> bool" where
  "isdigit c \<longleftrightarrow> 48 \<le> uchar c \<and> uchar c \<le> 57"

definition isspace :: "char \<Rightarrow> bool" where
  "isspace c \<longleftrightarrow> uchar c = 32 \<or> (9 \<le> uchar c \<and> uchar c \<le> 13)"

definition tolower :: "char \<Rightarrow> char" where
  "tolower c = (if 65 \<le> uchar c \<and> uchar c \<le> 90 then char_of (uchar c + 32) else c)"

definition toupper :: "char \<Rightarrow> char" where
  "toupper c = (if 97 \<le> uchar c \<and> uchar c \<le> 122 then char_of (uchar c - 32) else c)"

text \<open>\<open>long\<close> to \<open>int\<close>.\<close>

definition int_of_long :: "int \<Rightarrow> int" where
  "int_of_long n = (let r = n mod 4294967296 in if r < 2147483648 then r else r - 4294967296)"

text \<open>The value of a run of decimal digits, most significant first.\<close>

fun dec_value :: "nat \<Rightarrow> string \<Rightarrow> nat" where
  "dec_value acc [] = acc"
| "dec_value acc (c # cs) = dec_value (10 * acc + (uchar c - 48)) cs"

text \<open>
  \<open>strtol(s, NULL, 10)\<close>: leading white space, an optional sign, the longest run of digits, the
  value saturated at the ends of \<open>long\<close>.
\<close>

definition strtol10 :: "string \<Rightarrow> int" where
  "strtol10 s =
     (let t = dropWhile isspace s;
          neg = (t \<noteq> [] \<and> hd t = CHR ''-'');
          u = (if t \<noteq> [] \<and> (hd t = CHR ''-'' \<or> hd t = CHR ''+'') then tl t else t);
          n = int (dec_value 0 (takeWhile isdigit u))
      in if neg then max LONG_MIN (- n) else min LONG_MAX n)"

subsection \<open>Arrays with checked access\<close>

text \<open>Reading or writing outside an array is undefined in C: the model answers \<open>None\<close>.\<close>

definition arr_get :: "'a list \<Rightarrow> nat \<Rightarrow> 'a option" where
  "arr_get xs i = (if i < length xs then Some (xs ! i) else None)"

definition arr_set :: "'a list \<Rightarrow> nat \<Rightarrow> 'a \<Rightarrow> 'a list option" where
  "arr_set xs i v = (if i < length xs then Some (xs[i := v]) else None)"

lemma arr_get_in [simp]: "i < length xs \<Longrightarrow> arr_get xs i = Some (xs ! i)"
  by (simp add: arr_get_def)

lemma arr_set_in [simp]: "i < length xs \<Longrightarrow> arr_set xs i v = Some (xs[i := v])"
  by (simp add: arr_set_def)

subsection \<open>Linked blocks\<close>

text \<open>
  The first pointer of a list of addresses (0 is \<open>NULL\<close>), and the last one.  A block list is
  described by a function from addresses to link fields: \<open>chain\<close> follows one link to \<open>NULL\<close>,
  \<open>dseg\<close> is a doubly linked segment with the pointers into it from both ends.
\<close>

definition hd0 :: "addr list \<Rightarrow> addr" where
  "hd0 xs = (case xs of [] \<Rightarrow> 0 | x # _ \<Rightarrow> x)"

definition last0 :: "addr list \<Rightarrow> addr" where
  "last0 xs = (if xs = [] then 0 else last xs)"

lemma hd0_simps [simp]: "hd0 [] = 0" "hd0 (x # xs) = x"
  by (simp_all add: hd0_def)

lemma last0_simps [simp]:
  "last0 [] = 0" "last0 (xs @ [x]) = x" "last0 (x # xs) = (if xs = [] then x else last0 xs)"
  by (simp_all add: last0_def)

lemma hd0_append: "hd0 (xs @ ys) = (if xs = [] then hd0 ys else hd0 xs)"
  by (cases xs) simp_all

lemma hd0_in_set: "xs \<noteq> [] \<Longrightarrow> hd0 xs \<in> set xs"
  by (cases xs) simp_all

lemma last0_in_set: "xs \<noteq> [] \<Longrightarrow> last0 xs \<in> set xs"
  by (simp add: last0_def)

lemma hd0_eq_0: "0 \<notin> set xs \<Longrightarrow> hd0 xs = 0 \<longleftrightarrow> xs = []"
  by (cases xs) auto

lemma last0_eq_0: "0 \<notin> set xs \<Longrightarrow> last0 xs = 0 \<longleftrightarrow> xs = []"
  by (metis last0_def last_in_set)

fun chain :: "(addr \<Rightarrow> addr option) \<Rightarrow> addr \<Rightarrow> addr list \<Rightarrow> bool" where
  "chain N p [] \<longleftrightarrow> p = 0"
| "chain N p (x # xs) \<longleftrightarrow> p = x \<and> x \<noteq> 0 \<and> (\<exists>q. N x = Some q \<and> chain N q xs)"

fun dseg :: "(addr \<Rightarrow> (addr \<times> addr) option) \<Rightarrow> addr \<Rightarrow> addr list \<Rightarrow> addr \<Rightarrow> bool" where
  "dseg L prev [] nxt \<longleftrightarrow> True"
| "dseg L prev (x # xs) nxt \<longleftrightarrow>
     x \<noteq> 0 \<and> L x = Some (prev, hd0 (xs @ [nxt])) \<and> dseg L x xs nxt"

lemma chain_hd0: "chain N p xs \<Longrightarrow> p = hd0 xs"
  by (cases xs) auto

lemma chain_0 [simp]: "chain N 0 xs \<longleftrightarrow> xs = []"
  by (cases xs) auto

lemma chain_nonzero: "chain N p xs \<Longrightarrow> 0 \<notin> set xs"
  by (induction xs arbitrary: p) auto

lemma chain_upd_other: "q \<notin> set xs \<Longrightarrow> chain (N(q := v)) p xs = chain N p xs"
  by (induction xs arbitrary: p) auto

lemma chain_cong: "(\<And>x. x \<in> set xs \<Longrightarrow> N x = N' x) \<Longrightarrow> chain N p xs = chain N' p xs"
  by (induction xs arbitrary: p) auto

lemma chain_unique: "chain N p xs \<Longrightarrow> chain N p ys \<Longrightarrow> xs = ys"
proof (induction xs arbitrary: p ys)
  case Nil
  then show ?case by simp
next
  case (Cons x xs)
  then show ?case by (cases ys) auto
qed

lemma chain_append: "chain N p (xs @ ys) \<Longrightarrow> \<exists>q. chain N q ys"
  by (induction xs arbitrary: p) auto

lemma chain_distinct: "chain N p xs \<Longrightarrow> distinct xs"
proof (induction xs arbitrary: p)
  case Nil
  then show ?case by simp
next
  case (Cons x xs)
  from Cons.prems obtain q where q: "N x = Some q" "chain N q xs" by auto
  have "x \<notin> set xs"
  proof
    assume "x \<in> set xs"
    then obtain as bs where xs: "xs = as @ x # bs" by (meson split_list)
    with q(2) obtain r where "chain N r (x # bs)" using chain_append by blast
    with q(1) have "chain N q bs" by auto
    with q(2) have "xs = bs" by (rule chain_unique)
    with xs show False by simp
  qed
  with q Cons.IH show ?case by auto
qed

lemma dseg_nonzero: "dseg L prev xs nxt \<Longrightarrow> 0 \<notin> set xs"
  by (induction xs arbitrary: prev) auto

lemma dseg_upd_other: "q \<notin> set xs \<Longrightarrow> dseg (L(q := v)) prev xs nxt = dseg L prev xs nxt"
  by (induction xs arbitrary: prev) auto

lemma dseg_cong: "(\<And>x. x \<in> set xs \<Longrightarrow> L x = L' x) \<Longrightarrow> dseg L prev xs nxt = dseg L' prev xs nxt"
  by (induction xs arbitrary: prev) auto

lemma dseg_append:
  "dseg L prev (xs @ ys) nxt \<longleftrightarrow>
     dseg L prev xs (hd0 (ys @ [nxt])) \<and> dseg L (if xs = [] then prev else last xs) ys nxt"
proof (induction xs arbitrary: prev)
  case Nil
  then show ?case by simp
next
  case (Cons x xs)
  have "hd0 ((xs @ ys) @ [nxt]) = hd0 (xs @ [hd0 (ys @ [nxt])])"
    by (simp add: hd0_append)
  then show ?case by (auto simp: Cons.IH)
qed

lemma dseg_in_dom: "dseg L prev xs nxt \<Longrightarrow> x \<in> set xs \<Longrightarrow> \<exists>l. L x = Some l"
  by (induction xs arbitrary: prev) auto

text \<open>Changing one end of a segment, taking one block out, putting one in front.\<close>

lemma dseg_change_next:
  "dseg L prev (zs @ [t]) n \<Longrightarrow> t \<notin> set zs \<Longrightarrow> L t = Some (l, x) \<Longrightarrow>
     dseg (L(t \<mapsto> (l, n'))) prev (zs @ [t]) n'"
  by (auto simp: dseg_append dseg_upd_other)

lemma dseg_change_prev:
  "dseg L prev (y # ys) nxt \<Longrightarrow> y \<notin> set ys \<Longrightarrow> L y = Some (l, x) \<Longrightarrow>
     dseg (L(y \<mapsto> (prev', x))) prev' (y # ys) nxt"
  by (auto simp: dseg_upd_other)

lemma dseg_mid: "dseg L 0 (xs @ p # ys) 0 \<Longrightarrow> L p = Some (last0 xs, hd0 ys)"
  by (auto simp: dseg_append hd0_append last0_def)

lemma dseg_remove:
  assumes d: "dseg L 0 (xs @ p # ys) 0" and di: "distinct (xs @ p # ys)"
    and L1: "L1 = (if xs = [] then L else L(last0 xs \<mapsto> (fst (the (L (last0 xs))), hd0 ys)))"
    and L2: "L2 = (if ys = [] then L1 else L1(hd0 ys \<mapsto> (last0 xs, snd (the (L1 (hd0 ys))))))"
  shows "dseg L2 0 (xs @ ys) 0"
proof -
  have px: "dseg L 0 xs p" and py: "dseg L p ys 0" using d by (simp_all add: dseg_append)
  have dx1: "dseg L1 0 xs (hd0 ys)"
  proof (cases xs rule: rev_cases)
    case (snoc zs t)
    obtain l where "L t = Some l" using px snoc dseg_in_dom [of L 0 xs p t] by auto
    then have "L t = Some (fst (the (L t)), snd l)" by simp
    then show ?thesis using px snoc di L1 dseg_change_next [of L 0 zs t p] by simp
  qed simp
  have dy1: "dseg L1 p ys 0"
  proof -
    have "xs \<noteq> [] \<Longrightarrow> last0 xs \<notin> set ys" using di last0_in_set [of xs] by auto
    then show ?thesis using py L1 by (simp add: dseg_upd_other)
  qed
  have dx2: "dseg L2 0 xs (hd0 ys)"
  proof -
    have "ys \<noteq> [] \<Longrightarrow> hd0 ys \<notin> set xs" using di hd0_in_set [of ys] by auto
    then show ?thesis using dx1 L2 by (cases "ys = []") (simp_all add: dseg_upd_other)
  qed
  have dy2: "dseg L2 (last0 xs) ys 0"
  proof (cases ys)
    case (Cons y zs)
    obtain l where "L1 y = Some l" using dy1 Cons by auto
    then have "L1 y = Some (fst l, snd (the (L1 y)))" by simp
    then show ?thesis using dy1 Cons di L2 dseg_change_prev [of L1 p y zs 0] by simp
  qed simp
  show ?thesis using dx2 dy2 by (auto simp: dseg_append hd0_append last0_def)
qed

lemma dseg_push:
  assumes d: "dseg L 0 bs 0" and p: "p \<noteq> 0" "p \<notin> set bs" and di: "distinct bs"
    and L1: "L1 = (if bs = [] then L else L(hd0 bs \<mapsto> (p, snd (the (L (hd0 bs))))))"
  shows "dseg (L1(p \<mapsto> (0, hd0 bs))) 0 (p # bs) 0"
proof (cases bs)
  case Nil
  then show ?thesis using p by simp
next
  case (Cons b cs)
  then obtain l where l: "L b = Some l" using d by auto
  then have "L b = Some (fst l, snd (the (L b)))" by simp
  then have "dseg L1 p bs 0" using d di Cons L1 dseg_change_prev [of L 0 b cs 0] by simp
  then show ?thesis using p Cons by (simp add: dseg_upd_other hd0_append del: fun_upd_apply) simp
qed

subsection \<open>Narrowing\<close>

lemma int_exact: "- 2147483648 \<le> n \<Longrightarrow> n < 2147483648 \<Longrightarrow> int_of_long n = n"
proof (cases "0 \<le> n")
  case False
  assume "- 2147483648 \<le> n"
  have "n mod 4294967296 = (n + 4294967296) mod 4294967296" by simp
  also have "\<dots> = n + 4294967296" using False \<open>- 2147483648 \<le> n\<close> by (intro mod_pos_pos_trivial) linarith+
  finally show ?thesis using False \<open>- 2147483648 \<le> n\<close> by (simp add: int_of_long_def)
qed (simp add: int_of_long_def)

lemma int_of_long_range: "- 2147483648 \<le> int_of_long n" "int_of_long n < 2147483648"
proof -
  have "0 \<le> n mod 4294967296" "n mod 4294967296 < 4294967296" by simp_all
  then show "- 2147483648 \<le> int_of_long n" "int_of_long n < 2147483648" unfolding int_of_long_def Let_def by (simp_all only: split: if_split) linarith+
qed

lemma int_of_long_wraps: "2147483648 \<le> n \<Longrightarrow> int_of_long n \<le> n - 4294967296"
proof -
  assume n: "2147483648 \<le> n"
  define r k where "r = n mod 4294967296" and "k = n div 4294967296"
  have e: "n = 4294967296 * k + r" and r: "0 \<le> r" by (simp_all add: r_def k_def)
  have "int_of_long n = (if r < 2147483648 then r else r - 4294967296)" by (simp add: int_of_long_def r_def Let_def)
  moreover have "0 \<le> k" using n by (simp add: k_def)
  moreover have "r < 2147483648 \<Longrightarrow> 1 \<le> k" using n e by linarith
  ultimately show ?thesis using e r by (cases "r < 2147483648") simp_all
qed

text \<open>Division as in C, of a number that is not negative.\<close>

lemma sdiv_pos: "0 \<le> (a :: int) \<Longrightarrow> 0 < b \<Longrightarrow> a sdiv b = a div b" "0 \<le> (a :: int) \<Longrightarrow> 0 < b \<Longrightarrow> a smod b = a mod b"
  by (auto simp: signed_divide_int_def signed_modulo_int_def sgn_if mod_div_mult_eq minus_div_mult_eq_mod)

end
