(* ===== verification/Hash_Model.thy ===== *)
theory Hash_Model
  imports PHP_Prelude "HOL-Library.Code_Target_Nat"
begin

text \<open>
  The ordered hash table of \<open>php3_hash.c\<close>, operation by operation, on an explicit heap of
  buckets and data cells.  Every bucket is on two structures at once: the collision chain of its
  slot (\<open>pNext\<close>) and the doubly linked list in insertion order (\<open>pListNext\<close>, \<open>pListLast\<close>).

  An operation answers \<open>None\<close> when the C code would do something undefined (follow a pointer to
  a block that is not allocated, index outside an array, free a block twice, free \<open>NULL\<close> with
  \<open>efree\<close>) or would loop for ever; \<open>Some\<close> carries the status code, the table and the heap.

  Memory: \<open>mem_supply\<close> lists the addresses the allocator returns, in order; \<open>0\<close>, an address that is
  in use, or the end of the list is a failed allocation.  For tables that are not persistent the
  blocks come from \<open>emalloc\<close>, which exits the process instead of returning \<open>NULL\<close>; the model
  keeps the tests for \<open>NULL\<close> that the code makes for both kinds.  The copies of keys and the slot array
  are values in the model: allocating one uses up one entry of \<open>mem_supply\<close>, which decides
  whether it succeeds.  Counters of type \<open>uint\<close> count allocated blocks and are naturals;
  hashes and indices keep their 64 bits.
\<close>

subsection \<open>Buckets, tables, the heap\<close>

record bucket =
  bk_h :: ulong
  arKey :: "string option"
  nKeyLength :: nat
  pData :: addr
  bIsPointer :: bool
  pListNext :: addr
  pListLast :: addr
  pNext :: addr

record hashtable =
  nTableSize :: nat
  nHashSizeIndex :: nat
  nNumOfElements :: nat
  nNextFreeElement :: ulong
  pHashFunction :: "string \<Rightarrow> ulong"
  pInternalPointer :: addr
  pListHead :: addr
  pListTail :: addr
  arBuckets :: "addr list"
  pDestructor :: bool
  persistent :: bool

record 'v heap =
  bkt :: "addr \<Rightarrow> bucket option"
  dat :: "addr \<Rightarrow> 'v option"
  mem_supply :: "addr list"
  dlog :: "addr list"

datatype update_flag = HASH_UPDATE | HASH_ADD | HASH_NEXT_INSERT
datatype del_flag = HASH_DEL_KEY | HASH_DEL_INDEX
datatype key_kind = HASH_KEY_IS_STRING string | HASH_KEY_IS_LONG ulong | HASH_KEY_NON_EXISTANT

type_synonym 'v hres = "(status \<times> addr \<times> hashtable \<times> 'v heap) option"

definition PrimeNumbers :: "nat list" where
  "PrimeNumbers = [5, 11, 19, 53, 107, 223, 463, 983, 1979, 3907, 7963, 16229, 32531, 65407,
     130987, 262237, 524521, 1048793, 2097397, 4194103, 8388857, 16777447, 33554201, 67108961,
     134217487, 268435697, 536870683, 1073741621, 2147483399]"

text \<open>\<open>sizeof(PrimeNumbers) / sizeof(ulong)\<close>: the array holds 4-byte \<open>uint\<close>s, \<open>ulong\<close> has 8.\<close>

definition nNumPrimeNumbers :: nat where
  "nNumPrimeNumbers = (length PrimeNumbers * 4) div 8"

subsection \<open>Allocation\<close>

definition pemalloc :: "'v heap \<Rightarrow> addr \<times> 'v heap" where
  "pemalloc m = (case mem_supply m of [] \<Rightarrow> (0, m)
     | a # as \<Rightarrow> (if bkt m a = None \<and> dat m a = None then a else 0, m\<lparr>mem_supply := as\<rparr>))"

definition set_bkt :: "'v heap \<Rightarrow> addr \<Rightarrow> bucket \<Rightarrow> 'v heap" where
  "set_bkt m p b = m\<lparr>bkt := (bkt m)(p \<mapsto> b)\<rparr>"

definition set_dat :: "'v heap \<Rightarrow> addr \<Rightarrow> 'v \<Rightarrow> 'v heap" where
  "set_dat m a v = m\<lparr>dat := (dat m)(a \<mapsto> v)\<rparr>"

definition free_bkt :: "'v heap \<Rightarrow> addr \<Rightarrow> 'v heap option" where
  "free_bkt m p = (if bkt m p = None then None else Some (m\<lparr>bkt := (bkt m)(p := None)\<rparr>))"

definition free_dat :: "'v heap \<Rightarrow> addr \<Rightarrow> 'v heap option" where
  "free_dat m a = (if dat m a = None then None else Some (m\<lparr>dat := (dat m)(a := None)\<rparr>))"

text \<open>A fresh \<open>Bucket\<close> before its fields are assigned.\<close>

definition blank_bucket :: bucket where
  "blank_bucket = \<lparr>bk_h = 0, arKey = None, nKeyLength = 0, pData = 0, bIsPointer = False,
     pListNext = 0, pListLast = 0, pNext = 0\<rparr>"

text \<open>\<open>if (ht->pDestructor) ht->pDestructor(p->pData)\<close>: the calls are recorded in order.\<close>

definition call_destructor :: "hashtable \<Rightarrow> 'v heap \<Rightarrow> addr \<Rightarrow> 'v heap" where
  "call_destructor ht m a = (if pDestructor ht then m\<lparr>dlog := dlog m @ [a]\<rparr> else m)"

subsection \<open>Keys\<close>

text \<open>
  \<open>HANDLE_NUMERIC\<close>: a key of the form digits and a final NUL, without a leading zero (but "0"
  itself), whose value \<open>strtol\<close> does not saturate, is an integer index.
\<close>

definition handle_numeric :: "string \<Rightarrow> ulong option" where
  "handle_numeric key =
     (if key \<noteq> [] \<and> isdigit (hd key) then
        if hd key = CHR ''0'' \<and> length key > 2 then None
        else if 2 \<le> length key \<and> list_all isdigit (butlast (tl key)) \<and> last key = NUL then
          let idx = strtol10 (c_str key) in if idx \<noteq> LONG_MAX then Some (word_of_int idx) else None
        else None
      else None)"

definition hashpjw_step :: "ulong \<Rightarrow> char \<Rightarrow> ulong" where
  "hashpjw_step h0 c =
     (let h = push_bit 4 h0 + word_of_int (schar c); g = h AND 0xF0000000
      in if g \<noteq> 0 then (h XOR drop_bit 24 g) XOR g else h)"

definition hashpjw :: "string \<Rightarrow> ulong" where
  "hashpjw key = foldl hashpjw_step 0 key"

subsection \<open>Start-up\<close>

fun prime_index_from :: "nat \<Rightarrow> nat \<Rightarrow> nat \<Rightarrow> nat" where
  "prime_index_from 0 i nSize = i"
| "prime_index_from (Suc k) i nSize =
     (if nSize \<le> PrimeNumbers ! i then i else prime_index_from k (Suc i) nSize)"

definition php3_hash_init ::
  "'v heap \<Rightarrow> nat \<Rightarrow> (string \<Rightarrow> ulong) option \<Rightarrow> bool \<Rightarrow> bool \<Rightarrow> hashtable option \<times> 'v heap" where
  "php3_hash_init m nSize hf destr pers =
     (let i = prime_index_from nNumPrimeNumbers 0 nSize;
          ix = (if i = nNumPrimeNumbers then i - 1 else i);
          sz = PrimeNumbers ! ix;
          (a, m') = pemalloc m
      in if a = 0 then (None, m')
         else (Some \<lparr>nTableSize = sz, nHashSizeIndex = ix, nNumOfElements = 0,
                 nNextFreeElement = 0,
                 pHashFunction = (case hf of None \<Rightarrow> hashpjw | Some f \<Rightarrow> f),
                 pInternalPointer = 0, pListHead = 0, pListTail = 0,
                 arBuckets = replicate sz 0, pDestructor = destr, persistent = pers\<rparr>, m'))"

subsection \<open>Walking a collision chain\<close>

definition slot :: "hashtable \<Rightarrow> ulong \<Rightarrow> nat" where
  "slot ht h = unat h mod nTableSize ht"

partial_function (option) find_in_chain ::
  "'v heap \<Rightarrow> (bucket \<Rightarrow> bool) \<Rightarrow> addr \<Rightarrow> addr option" where
  "find_in_chain m P p =
     (if p = 0 then Some 0
      else case bkt m p of None \<Rightarrow> None
           | Some b \<Rightarrow> if P b then Some p else find_in_chain m P (pNext b))"

declare find_in_chain.simps [code]

text \<open>The same walk for deletion, which also remembers the bucket before (\<open>t\<close>).\<close>

partial_function (option) find_with_prev ::
  "'v heap \<Rightarrow> (bucket \<Rightarrow> bool) \<Rightarrow> addr \<Rightarrow> addr \<Rightarrow> (addr \<times> addr) option" where
  "find_with_prev m P t p =
     (if p = 0 then Some (t, 0)
      else case bkt m p of None \<Rightarrow> None
           | Some b \<Rightarrow> if P b then Some (t, p) else find_with_prev m P p (pNext b))"

declare find_with_prev.simps [code]

definition match_key :: "ulong \<Rightarrow> string \<Rightarrow> bucket \<Rightarrow> bool" where
  "match_key h key b \<longleftrightarrow>
     (case arKey b of None \<Rightarrow> False
      | Some k \<Rightarrow> bk_h b = h \<and> nKeyLength b = length key \<and> k = key)"

definition match_index :: "ulong \<Rightarrow> bucket \<Rightarrow> bool" where
  "match_index h b \<longleftrightarrow> arKey b = None \<and> bk_h b = h"

text \<open>The test of \<open>_php3_hash_del_key_or_index\<close>: a bucket without a key matches on its hash alone.\<close>

definition match_del :: "ulong \<Rightarrow> string \<Rightarrow> bucket \<Rightarrow> bool" where
  "match_del h key b \<longleftrightarrow>
     bk_h b = h \<and>
     (case arKey b of None \<Rightarrow> True | Some k \<Rightarrow> nKeyLength b = length key \<and> k = key)"

subsection \<open>Growing the table\<close>

partial_function (option) rehash_loop ::
  "nat \<Rightarrow> 'v heap \<Rightarrow> addr list \<Rightarrow> addr \<Rightarrow> (addr list \<times> 'v heap) option" where
  "rehash_loop sz m arr p =
     (if p = 0 then Some (arr, m)
      else case bkt m p of None \<Rightarrow> None
           | Some b \<Rightarrow>
               (let nIndex = unat (bk_h b) mod sz in
                if nIndex < length arr then
                  rehash_loop sz (set_bkt m p (b\<lparr>pNext := arr ! nIndex\<rparr>))
                    (arr[nIndex := p]) (pListNext b)
                else None))"

declare rehash_loop.simps [code]

definition php3_hash_rehash :: "hashtable \<Rightarrow> 'v heap \<Rightarrow> (hashtable \<times> 'v heap) option" where
  "php3_hash_rehash ht m =
     (case rehash_loop (nTableSize ht) m (replicate (PrimeNumbers ! nHashSizeIndex ht) 0)
             (pListHead ht) of
        None \<Rightarrow> None
      | Some (arr, m') \<Rightarrow> Some (ht\<lparr>arBuckets := arr\<rparr>, m'))"

definition if_full_do_resize :: "hashtable \<Rightarrow> 'v heap \<Rightarrow> (status \<times> hashtable \<times> 'v heap) option" where
  "if_full_do_resize ht m =
     (if nNumOfElements ht > nTableSize ht \<and> nHashSizeIndex ht < nNumPrimeNumbers - 1 then
        let (t, m1) = pemalloc m in
        if t \<noteq> 0 then
          let ht1 = ht\<lparr>nTableSize := PrimeNumbers ! (nHashSizeIndex ht + 1),
                       nHashSizeIndex := nHashSizeIndex ht + 1\<rparr>
          in (case php3_hash_rehash ht1 m1 of None \<Rightarrow> None
              | Some (ht2, m2) \<Rightarrow> Some (SUCCESS, ht2, m2))
        else Some (FAILURE, ht, m1)
      else Some (SUCCESS, ht, m))"

subsection \<open>Insertion\<close>

text \<open>
  The end of every insertion: the new bucket becomes the first of its chain and the last of the
  list, the internal pointer moves to it when it was \<open>NULL\<close>, and the table grows when it is full.
\<close>

definition hash_link ::
  "hashtable \<Rightarrow> 'v heap \<Rightarrow> addr \<Rightarrow> bucket \<Rightarrow> nat \<Rightarrow> (hashtable \<times> 'v heap) option" where
  "hash_link ht m p b nIndex = do {
     front \<leftarrow> arr_get (arBuckets ht) nIndex;
     let b' = b\<lparr>pNext := front, pListLast := pListTail ht, pListNext := 0\<rparr>;
     let m1 = set_bkt m p b';
     m2 \<leftarrow> (if pListTail ht = 0 then Some m1
            else case bkt m1 (pListTail ht) of None \<Rightarrow> None
                 | Some l \<Rightarrow> Some (set_bkt m1 (pListTail ht) (l\<lparr>pListNext := p\<rparr>)));
     Some (ht\<lparr>pInternalPointer := (if pInternalPointer ht = 0 then p else pInternalPointer ht),
              arBuckets := (arBuckets ht)[nIndex := p],
              pListTail := p,
              pListHead := (if pListHead ht = 0 then p else pListHead ht),
              nNumOfElements := nNumOfElements ht + 1\<rparr>, m2)
   }"

definition bump_next_free :: "hashtable \<Rightarrow> ulong \<Rightarrow> hashtable" where
  "bump_next_free ht h =
     (if h \<ge> nNextFreeElement ht then ht\<lparr>nNextFreeElement := h + 1\<rparr> else ht)"

text \<open>\<open>memcpy\<close> over the data of a bucket that exists already, after its destructor.\<close>

definition overwrite_data ::
  "hashtable \<Rightarrow> 'v heap \<Rightarrow> addr \<Rightarrow> 'v \<Rightarrow> (addr \<times> 'v heap) option" where
  "overwrite_data ht m p v = do {
     b \<leftarrow> bkt m p;
     _ \<leftarrow> dat m (pData b);
     Some (pData b, set_dat (call_destructor ht m (pData b)) (pData b) v)
   }"

definition php3_hash_index_update_or_next_insert ::
  "hashtable \<Rightarrow> 'v heap \<Rightarrow> ulong \<Rightarrow> 'v \<Rightarrow> update_flag \<Rightarrow> 'v hres" where
  "php3_hash_index_update_or_next_insert ht m h0 v flag =
     (let h = (if flag = HASH_NEXT_INSERT then nNextFreeElement ht else h0);
          nIndex = slot ht h
      in do {
        front \<leftarrow> arr_get (arBuckets ht) nIndex;
        p \<leftarrow> find_in_chain m (match_index h) front;
        if p \<noteq> 0 then
          if flag = HASH_NEXT_INSERT \<or> flag = HASH_ADD then Some (FAILURE, 0, ht, m)
          else do {
            (d, m1) \<leftarrow> overwrite_data ht m p v;
            Some (SUCCESS, d, bump_next_free ht h, m1)
          }
        else
          let (q, m1) = pemalloc m in
          if q = 0 then Some (FAILURE, 0, ht, m1)
          else
            let m2 = set_bkt m1 q blank_bucket; (d, m3) = pemalloc m2 in
            if d = 0 then do { m4 \<leftarrow> free_bkt m3 q; Some (FAILURE, 0, ht, m4) }
            else do {
              let b = blank_bucket\<lparr>arKey := None, nKeyLength := 0, bk_h := h, pData := d,
                        bIsPointer := False\<rparr>;
              (ht1, m4) \<leftarrow> hash_link ht (set_dat m3 d v) q b nIndex;
              (_, ht2, m5) \<leftarrow> if_full_do_resize (bump_next_free ht1 h) m4;
              Some (SUCCESS, d, ht2, m5)
            }
      })"

definition php3_hash_add_or_update ::
  "hashtable \<Rightarrow> 'v heap \<Rightarrow> string \<Rightarrow> 'v \<Rightarrow> update_flag \<Rightarrow> 'v hres" where
  "php3_hash_add_or_update ht m key v flag =
     (if key = [] then Some (FAILURE, 0, ht, m)
      else case handle_numeric key of
        Some idx \<Rightarrow> php3_hash_index_update_or_next_insert ht m idx v flag
      | None \<Rightarrow>
        (let h = pHashFunction ht key; nIndex = slot ht h in do {
          front \<leftarrow> arr_get (arBuckets ht) nIndex;
          p \<leftarrow> find_in_chain m (match_key h key) front;
          if p \<noteq> 0 then
            if flag = HASH_ADD then Some (FAILURE, 0, ht, m)
            else do {
              (d, m1) \<leftarrow> overwrite_data ht m p v;
              Some (SUCCESS, d, ht, m1)
            }
          else
            let (q, m1) = pemalloc m in
            if q = 0 then Some (FAILURE, 0, ht, m1)
            else
              let m2 = set_bkt m1 q blank_bucket; (k, m3) = pemalloc m2 in
              if k = 0 then do { m4 \<leftarrow> free_bkt m3 q; Some (FAILURE, 0, ht, m4) }
              else
                let (d, m4) = pemalloc m3 in
                if d = 0 then do {
                  m5 \<leftarrow> free_bkt m4 q;
                  \<comment> \<open>\<open>pefree(p->arKey)\<close>: reads the bucket that was freed on the line before\<close>
                  _ \<leftarrow> bkt m5 q;
                  Some (FAILURE, 0, ht, m5)
                }
                else do {
                  let b = blank_bucket\<lparr>arKey := Some key, nKeyLength := length key, bk_h := h,
                            pData := d, bIsPointer := False\<rparr>;
                  (ht1, m5) \<leftarrow> hash_link ht (set_dat m4 d v) q b nIndex;
                  (_, ht2, m6) \<leftarrow> if_full_do_resize ht1 m5;
                  Some (SUCCESS, d, ht2, m6)
                }
        }))"

end
