(* ===== verification/Hash_Ops.thy ===== *)
theory Hash_Ops
  imports Hash_Model
begin

text \<open>
  The remaining operations of \<open>php3_hash.c\<close>: pointer entries, lookup, deletion, destruction,
  application of a callback, copying and merging, traversal, sorting.
\<close>

subsection \<open>Entries that hold a pointer of the caller\<close>

text \<open>
  \<open>_php3_hash_pointer_update\<close> and its index form store the caller's address \<open>a\<close> itself.  An
  owned cell that is replaced is destroyed and freed.
\<close>

definition replace_pointer ::
  "hashtable \<Rightarrow> 'v heap \<Rightarrow> addr \<Rightarrow> addr \<Rightarrow> 'v heap option" where
  "replace_pointer ht m p a = do {
     b \<leftarrow> bkt m p;
     m1 \<leftarrow> (if \<not> bIsPointer b \<and> pDestructor ht then free_dat (call_destructor ht m (pData b)) (pData b)
            else Some m);
     Some (set_bkt m1 p (b\<lparr>pData := a, bIsPointer := True\<rparr>))
   }"

definition php3_hash_pointer_index_update_or_next_insert ::
  "hashtable \<Rightarrow> 'v heap \<Rightarrow> ulong \<Rightarrow> addr \<Rightarrow> update_flag \<Rightarrow> (status \<times> hashtable \<times> 'v heap) option" where
  "php3_hash_pointer_index_update_or_next_insert ht m h0 a flag =
     (let h = (if flag = HASH_NEXT_INSERT then nNextFreeElement ht else h0);
          nIndex = slot ht h
      in do {
        front \<leftarrow> arr_get (arBuckets ht) nIndex;
        p \<leftarrow> find_in_chain m (match_index h) front;
        if p \<noteq> 0 then
          if flag = HASH_NEXT_INSERT then Some (FAILURE, ht, m)
          else do {
            m1 \<leftarrow> replace_pointer ht m p a;
            Some (SUCCESS, bump_next_free ht h, m1)
          }
        else
          let (q, m1) = pemalloc m in
          if q = 0 then Some (FAILURE, ht, m1)
          else do {
            let b = blank_bucket\<lparr>arKey := None, nKeyLength := 0, bk_h := h, pData := a,
                      bIsPointer := True\<rparr>;
            (ht1, m2) \<leftarrow> hash_link ht m1 q b nIndex;
            (_, ht2, m3) \<leftarrow> if_full_do_resize (bump_next_free ht1 h) m2;
            Some (SUCCESS, ht2, m3)
          }
      })"

definition php3_hash_pointer_update ::
  "hashtable \<Rightarrow> 'v heap \<Rightarrow> string \<Rightarrow> addr \<Rightarrow> (status \<times> hashtable \<times> 'v heap) option" where
  "php3_hash_pointer_update ht m key a =
     (if key = [] then Some (FAILURE, ht, m)
      else case handle_numeric key of
        Some idx \<Rightarrow> php3_hash_pointer_index_update_or_next_insert ht m idx a HASH_UPDATE
      | None \<Rightarrow>
        (let h = pHashFunction ht key; nIndex = slot ht h in do {
          front \<leftarrow> arr_get (arBuckets ht) nIndex;
          p \<leftarrow> find_in_chain m (match_key h key) front;
          if p \<noteq> 0 then do {
            m1 \<leftarrow> replace_pointer ht m p a;
            Some (SUCCESS, ht, m1)
          }
          else
            let (q, m1) = pemalloc m in
            if q = 0 then Some (FAILURE, ht, m1)
            else
              let m2 = set_bkt m1 q blank_bucket; (k, m3) = pemalloc m2 in
              if k = 0 then do { m4 \<leftarrow> free_bkt m3 q; Some (FAILURE, ht, m4) }
              else do {
                let b = blank_bucket\<lparr>arKey := Some key, nKeyLength := length key, bk_h := h,
                          pData := a, bIsPointer := True\<rparr>;
                (ht1, m4) \<leftarrow> hash_link ht m3 q b nIndex;
                (_, ht2, m5) \<leftarrow> if_full_do_resize ht1 m4;
                Some (SUCCESS, ht2, m5)
              }
        }))"

subsection \<open>Lookup\<close>

definition lookup_index :: "hashtable \<Rightarrow> 'v heap \<Rightarrow> ulong \<Rightarrow> addr option" where
  "lookup_index ht m h = do {
     front \<leftarrow> arr_get (arBuckets ht) (slot ht h);
     find_in_chain m (match_index h) front
   }"

definition lookup_key :: "hashtable \<Rightarrow> 'v heap \<Rightarrow> string \<Rightarrow> addr option" where
  "lookup_key ht m key = do {
     let h = pHashFunction ht key;
     front \<leftarrow> arr_get (arBuckets ht) (slot ht h);
     find_in_chain m (match_key h key) front
   }"

definition data_of :: "'v heap \<Rightarrow> addr \<Rightarrow> (status \<times> addr) option" where
  "data_of m p =
     (if p = 0 then Some (FAILURE, 0) else do { b \<leftarrow> bkt m p; Some (SUCCESS, pData b) })"

definition php3_hash_index_find :: "hashtable \<Rightarrow> 'v heap \<Rightarrow> ulong \<Rightarrow> (status \<times> addr) option" where
  "php3_hash_index_find ht m h = do { p \<leftarrow> lookup_index ht m h; data_of m p }"

definition php3_hash_find :: "hashtable \<Rightarrow> 'v heap \<Rightarrow> string \<Rightarrow> (status \<times> addr) option" where
  "php3_hash_find ht m key =
     (case handle_numeric key of
        Some idx \<Rightarrow> php3_hash_index_find ht m idx
      | None \<Rightarrow> do { p \<leftarrow> lookup_key ht m key; data_of m p })"

definition php3_hash_index_exists :: "hashtable \<Rightarrow> 'v heap \<Rightarrow> ulong \<Rightarrow> bool option" where
  "php3_hash_index_exists ht m h = do { p \<leftarrow> lookup_index ht m h; Some (p \<noteq> 0) }"

definition php3_hash_exists :: "hashtable \<Rightarrow> 'v heap \<Rightarrow> string \<Rightarrow> bool option" where
  "php3_hash_exists ht m key =
     (case handle_numeric key of
        Some idx \<Rightarrow> php3_hash_index_exists ht m idx
      | None \<Rightarrow> do { p \<leftarrow> lookup_key ht m key; Some (p \<noteq> 0) })"

text \<open>\<open>is_pointer\<close> answers \<open>-1\<close> (\<open>FAILURE\<close>) for an empty key.\<close>

definition php3_hash_index_is_pointer :: "hashtable \<Rightarrow> 'v heap \<Rightarrow> ulong \<Rightarrow> int option" where
  "php3_hash_index_is_pointer ht m h = do {
     p \<leftarrow> lookup_index ht m h;
     if p = 0 then Some 0 else do { b \<leftarrow> bkt m p; Some (if bIsPointer b then 1 else 0) }
   }"

definition php3_hash_is_pointer :: "hashtable \<Rightarrow> 'v heap \<Rightarrow> string \<Rightarrow> int option" where
  "php3_hash_is_pointer ht m key =
     (if key = [] then Some (- 1)
      else case handle_numeric key of
        Some idx \<Rightarrow> php3_hash_index_is_pointer ht m idx
      | None \<Rightarrow> do {
          p \<leftarrow> lookup_key ht m key;
          if p = 0 then Some 0 else do { b \<leftarrow> bkt m p; Some (if bIsPointer b then 1 else 0) }
        })"

definition php3_hash_num_elements :: "hashtable \<Rightarrow> nat" where
  "php3_hash_num_elements ht = nNumOfElements ht"

definition php3_hash_next_free_element :: "hashtable \<Rightarrow> ulong" where
  "php3_hash_next_free_element ht = nNextFreeElement ht"

subsection \<open>Deletion\<close>

text \<open>Takes bucket \<open>p\<close> (after \<open>t\<close> in its chain) out of the chain of slot \<open>nIndex\<close> and of the list.\<close>

definition unlink_chain ::
  "hashtable \<Rightarrow> 'v heap \<Rightarrow> addr \<Rightarrow> addr \<Rightarrow> nat \<Rightarrow> (hashtable \<times> 'v heap) option" where
  "unlink_chain ht m t p nIndex = do {
     b \<leftarrow> bkt m p;
     front \<leftarrow> arr_get (arBuckets ht) nIndex;
     if p = front then Some (ht\<lparr>arBuckets := (arBuckets ht)[nIndex := pNext b]\<rparr>, m)
     else do { tb \<leftarrow> bkt m t; Some (ht, set_bkt m t (tb\<lparr>pNext := pNext b\<rparr>)) }
   }"

definition unlink_list :: "hashtable \<Rightarrow> 'v heap \<Rightarrow> addr \<Rightarrow> (hashtable \<times> 'v heap) option" where
  "unlink_list ht m p = do {
     b \<leftarrow> bkt m p;
     (ht1, m1) \<leftarrow> (if pListLast b \<noteq> 0
        then do { l \<leftarrow> bkt m (pListLast b);
                  Some (ht, set_bkt m (pListLast b) (l\<lparr>pListNext := pListNext b\<rparr>)) }
        else Some (ht\<lparr>pListHead := pListNext b\<rparr>, m));
     (ht2, m2) \<leftarrow> (if pListNext b \<noteq> 0
        then do { n \<leftarrow> bkt m1 (pListNext b);
                  Some (ht1, set_bkt m1 (pListNext b) (n\<lparr>pListLast := pListLast b\<rparr>)) }
        else Some (ht1\<lparr>pListTail := pListLast b\<rparr>, m1));
     Some (ht2, m2)
   }"

text \<open>
  Releases the unlinked bucket.  With \<open>HASH_DEL_KEY\<close> its key is freed; \<open>efree\<close> reads the block
  header in front of the address it is given, so \<open>efree(NULL)\<close> is undefined, \<open>free(NULL)\<close> is not.
\<close>

definition release_bucket ::
  "hashtable \<Rightarrow> 'v heap \<Rightarrow> addr \<Rightarrow> del_flag \<Rightarrow> (hashtable \<times> 'v heap) option" where
  "release_bucket ht m p flag = do {
     b \<leftarrow> bkt m p;
     if flag = HASH_DEL_KEY \<and> arKey b = None \<and> \<not> persistent ht then None
     else do {
       m1 \<leftarrow> (if bIsPointer b then Some m else free_dat (call_destructor ht m (pData b)) (pData b));
       let ht1 = (if pInternalPointer ht = p then ht\<lparr>pInternalPointer := pListNext b\<rparr> else ht);
       m2 \<leftarrow> free_bkt m1 p;
       Some (ht1\<lparr>nNumOfElements := nNumOfElements ht1 - 1\<rparr>, m2)
     }
   }"

definition hash_del_slot ::
  "hashtable \<Rightarrow> 'v heap \<Rightarrow> string \<Rightarrow> ulong \<Rightarrow> del_flag \<Rightarrow> (status \<times> hashtable \<times> 'v heap) option" where
  "hash_del_slot ht m key h flag =
     (let nIndex = slot ht h in do {
        front \<leftarrow> arr_get (arBuckets ht) nIndex;
        (t, p) \<leftarrow> find_with_prev m (match_del h key) 0 front;
        if p = 0 then Some (FAILURE, ht, m)
        else do {
          (ht1, m1) \<leftarrow> unlink_chain ht m t p nIndex;
          (ht2, m2) \<leftarrow> unlink_list ht1 m1 p;
          (ht3, m3) \<leftarrow> release_bucket ht2 m2 p flag;
          Some (SUCCESS, ht3, m3)
        }
      })"

definition php3_hash_del_key_or_index ::
  "hashtable \<Rightarrow> 'v heap \<Rightarrow> string \<Rightarrow> ulong \<Rightarrow> del_flag \<Rightarrow> (status \<times> hashtable \<times> 'v heap) option" where
  "php3_hash_del_key_or_index ht m key h flag =
     (case flag of
        HASH_DEL_INDEX \<Rightarrow> hash_del_slot ht m key h HASH_DEL_INDEX
      | HASH_DEL_KEY \<Rightarrow>
          (case handle_numeric key of
             Some idx \<Rightarrow> hash_del_slot ht m key idx HASH_DEL_INDEX
           | None \<Rightarrow> hash_del_slot ht m key (pHashFunction ht key) HASH_DEL_KEY))"

definition php3_hash_del :: "hashtable \<Rightarrow> 'v heap \<Rightarrow> string \<Rightarrow> (status \<times> hashtable \<times> 'v heap) option" where
  "php3_hash_del ht m key = php3_hash_del_key_or_index ht m key 0 HASH_DEL_KEY"

definition php3_hash_index_del :: "hashtable \<Rightarrow> 'v heap \<Rightarrow> ulong \<Rightarrow> (status \<times> hashtable \<times> 'v heap) option" where
  "php3_hash_index_del ht m h = php3_hash_del_key_or_index ht m [] h HASH_DEL_INDEX"

subsection \<open>Destruction, application of a callback\<close>

partial_function (option) destroy_loop :: "hashtable \<Rightarrow> 'v heap \<Rightarrow> addr \<Rightarrow> 'v heap option" where
  "destroy_loop ht m p =
     (if p = 0 then Some m
      else do {
        b \<leftarrow> bkt m p;
        m1 \<leftarrow> (if bIsPointer b then Some m
               else if pData b = 0 then Some (call_destructor ht m (pData b))
               else free_dat (call_destructor ht m (pData b)) (pData b));
        m2 \<leftarrow> free_bkt m1 p;
        destroy_loop ht m2 (pListNext b)
      })"

declare destroy_loop.simps [code]

definition php3_hash_destroy :: "hashtable \<Rightarrow> 'v heap \<Rightarrow> 'v heap option" where
  "php3_hash_destroy ht m = destroy_loop ht m (pListHead ht)"

text \<open>
  \<open>_php3_hash_apply\<close>; \<open>destruct\<close> is the caller's callback, a function of the data it is given.
  \<open>_php3_hash_apply_with_argument\<close> is the same loop with a second argument for the callback.
\<close>

partial_function (option) apply_loop ::
  "('v option \<Rightarrow> bool) \<Rightarrow> hashtable \<Rightarrow> 'v heap \<Rightarrow> addr \<Rightarrow> (hashtable \<times> 'v heap) option" where
  "apply_loop destruct ht m p =
     (if p = 0 then Some (ht, m)
      else do {
        b \<leftarrow> bkt m p;
        (ht', m') \<leftarrow> (if destruct (dat m (pData b)) then
            do { (_, ht1, m1) \<leftarrow> (case arKey b of None \<Rightarrow> php3_hash_index_del ht m (bk_h b)
                                   | Some k \<Rightarrow> php3_hash_del ht m k);
                 Some (ht1, m1) }
          else Some (ht, m));
        apply_loop destruct ht' m' (pListNext b)
      })"

declare apply_loop.simps [code]

definition php3_hash_apply ::
  "hashtable \<Rightarrow> 'v heap \<Rightarrow> ('v option \<Rightarrow> bool) \<Rightarrow> (hashtable \<times> 'v heap) option" where
  "php3_hash_apply ht m destruct = apply_loop destruct ht m (pListHead ht)"

definition php3_hash_apply_with_argument ::
  "hashtable \<Rightarrow> 'v heap \<Rightarrow> ('v option \<Rightarrow> 'a \<Rightarrow> bool) \<Rightarrow> 'a \<Rightarrow> (hashtable \<times> 'v heap) option" where
  "php3_hash_apply_with_argument ht m destruct arg =
     apply_loop (\<lambda>d. destruct d arg) ht m (pListHead ht)"

subsection \<open>Copying and merging\<close>

text \<open>
  \<open>cc\<close> is the caller's copy constructor, a function on data; \<open>memcpy(tmp, p->pData, size)\<close> reads
  the source cell.  The new \<open>HashTable\<close> block is one allocation.
\<close>

partial_function (option) copy_loop ::
  "('v \<Rightarrow> 'v) \<Rightarrow> hashtable \<Rightarrow> 'v heap \<Rightarrow> addr \<Rightarrow> (hashtable \<times> 'v heap) option" where
  "copy_loop cc t m p =
     (if p = 0 then Some (t, m)
      else do {
        b \<leftarrow> bkt m p;
        v \<leftarrow> dat m (pData b);
        (_, _, t1, m1) \<leftarrow> (case arKey b of
             Some k \<Rightarrow> php3_hash_add_or_update t m k (cc v) HASH_UPDATE
           | None \<Rightarrow> php3_hash_index_update_or_next_insert t m (bk_h b) (cc v) HASH_UPDATE);
        b' \<leftarrow> bkt m1 p;
        copy_loop cc t1 m1 (pListNext b')
      })"

declare copy_loop.simps [code]

definition php3_hash_copy ::
  "'v heap \<Rightarrow> hashtable \<Rightarrow> ('v \<Rightarrow> 'v) \<Rightarrow> (hashtable option \<times> 'v heap) option" where
  "php3_hash_copy m source cc =
     (let (a, m1) = pemalloc m in
      if a = 0 then Some (None, m1)
      else case php3_hash_init m1 (nTableSize source) (Some (pHashFunction source))
                  (pDestructor source) False of
        (None, m2) \<Rightarrow> Some (None, m2)
      | (Some t, m2) \<Rightarrow> do {
          (t1, m3) \<leftarrow> copy_loop cc t m2 (pListHead source);
          Some (Some (t1\<lparr>pInternalPointer := pListHead t1\<rparr>), m3)
        })"

definition construct_at :: "('v \<Rightarrow> 'v) option \<Rightarrow> status \<Rightarrow> 'v heap \<Rightarrow> addr \<Rightarrow> 'v heap option" where
  "construct_at cc st m d =
     (case cc of Some f \<Rightarrow> (if st = SUCCESS then do { v \<leftarrow> dat m d; Some (set_dat m d (f v)) } else Some m)
      | None \<Rightarrow> Some m)"

partial_function (option) merge_loop ::
  "('v \<Rightarrow> 'v) option \<Rightarrow> hashtable \<Rightarrow> 'v heap \<Rightarrow> addr \<Rightarrow> (hashtable \<times> 'v heap) option" where
  "merge_loop cc t m p =
     (if p = 0 then Some (t, m)
      else do {
        b \<leftarrow> bkt m p;
        v \<leftarrow> dat m (pData b);
        (t1, m1) \<leftarrow> (case arKey b of
             Some k \<Rightarrow> do {
               (st, d, t', m') \<leftarrow> php3_hash_add_or_update t m k v HASH_ADD;
               m'' \<leftarrow> construct_at cc st m' d;
               Some (t', m'')
             }
           | None \<Rightarrow> do {
               ex \<leftarrow> php3_hash_index_exists t m (bk_h b);
               if ex then Some (t, m)
               else do {
                 (st, d, t', m') \<leftarrow> php3_hash_index_update_or_next_insert t m (bk_h b) v HASH_UPDATE;
                 m'' \<leftarrow> construct_at cc st m' d;
                 Some (t', m'')
               }
             });
        b' \<leftarrow> bkt m1 p;
        merge_loop cc t1 m1 (pListNext b')
      })"

declare merge_loop.simps [code]

definition php3_hash_merge ::
  "hashtable \<Rightarrow> hashtable \<Rightarrow> 'v heap \<Rightarrow> ('v \<Rightarrow> 'v) option \<Rightarrow> (hashtable \<times> 'v heap) option" where
  "php3_hash_merge target source m cc = do {
     (t, m1) \<leftarrow> merge_loop cc target m (pListHead source);
     Some (t\<lparr>pInternalPointer := pListHead t\<rparr>, m1)
   }"

subsection \<open>Traversal\<close>

definition php3_hash_internal_pointer_reset :: "hashtable \<Rightarrow> hashtable" where
  "php3_hash_internal_pointer_reset ht = ht\<lparr>pInternalPointer := pListHead ht\<rparr>"

definition php3_hash_internal_pointer_end :: "hashtable \<Rightarrow> hashtable" where
  "php3_hash_internal_pointer_end ht = ht\<lparr>pInternalPointer := pListTail ht\<rparr>"

definition php3_hash_move_forward :: "hashtable \<Rightarrow> 'v heap \<Rightarrow> hashtable option" where
  "php3_hash_move_forward ht m =
     (if pInternalPointer ht \<noteq> 0 then do {
        b \<leftarrow> bkt m (pInternalPointer ht); Some (ht\<lparr>pInternalPointer := pListNext b\<rparr>) }
      else Some ht)"

definition php3_hash_move_backwards :: "hashtable \<Rightarrow> 'v heap \<Rightarrow> hashtable option" where
  "php3_hash_move_backwards ht m =
     (if pInternalPointer ht \<noteq> 0 then do {
        b \<leftarrow> bkt m (pInternalPointer ht); Some (ht\<lparr>pInternalPointer := pListLast b\<rparr>) }
      else Some ht)"

text \<open>The key is copied into a new block; the result of its allocation is not tested.\<close>

definition php3_hash_get_current_key :: "hashtable \<Rightarrow> 'v heap \<Rightarrow> (key_kind \<times> 'v heap) option" where
  "php3_hash_get_current_key ht m =
     (if pInternalPointer ht \<noteq> 0 then do {
        b \<leftarrow> bkt m (pInternalPointer ht);
        case arKey b of
          Some k \<Rightarrow> (let (a, m1) = pemalloc m in
                     if a = 0 then None else Some (HASH_KEY_IS_STRING k, m1))
        | None \<Rightarrow> Some (HASH_KEY_IS_LONG (bk_h b), m)
      }
      else Some (HASH_KEY_NON_EXISTANT, m))"

definition php3_hash_get_current_data :: "hashtable \<Rightarrow> 'v heap \<Rightarrow> (status \<times> addr) option" where
  "php3_hash_get_current_data ht m = data_of m (pInternalPointer ht)"

subsection \<open>Sorting, minimum and maximum\<close>

text \<open>
  \<open>qs\<close> stands for the C library's \<open>qsort\<close> (which order it gives to elements that compare equal
  is not specified); \<open>compar\<close> is the caller's comparison of two buckets.
\<close>

partial_function (option) collect_list :: "'v heap \<Rightarrow> addr \<Rightarrow> addr list option" where
  "collect_list m p =
     (if p = 0 then Some []
      else do { b \<leftarrow> bkt m p; ps \<leftarrow> collect_list m (pListNext b); Some (p # ps) })"

declare collect_list.simps [code]

fun relink_sorted :: "'v heap \<Rightarrow> addr \<Rightarrow> addr list \<Rightarrow> (addr \<times> 'v heap) option" where
  "relink_sorted m tail [] = Some (tail, m)"
| "relink_sorted m tail (p # ps) = do {
     m1 \<leftarrow> (if tail \<noteq> 0 then do { t \<leftarrow> bkt m tail; Some (set_bkt m tail (t\<lparr>pListNext := p\<rparr>)) } else Some m);
     b \<leftarrow> bkt m1 p;
     relink_sorted (set_bkt m1 p (b\<lparr>pListLast := tail, pListNext := 0\<rparr>)) p ps
   }"

partial_function (option) renumber_loop :: "'v heap \<Rightarrow> addr \<Rightarrow> nat \<Rightarrow> (nat \<times> 'v heap) option" where
  "renumber_loop m p i =
     (if p = 0 then Some (i, m)
      else do {
        b \<leftarrow> bkt m p;
        renumber_loop (set_bkt m p (b\<lparr>arKey := None, nKeyLength := 0, bk_h := of_nat i\<rparr>))
          (pListNext b) (Suc i)
      })"

declare renumber_loop.simps [code]

definition php3_hash_sort ::
  "((addr \<Rightarrow> addr \<Rightarrow> int) \<Rightarrow> addr list \<Rightarrow> addr list) \<Rightarrow> (bucket option \<Rightarrow> bucket option \<Rightarrow> int) \<Rightarrow>
   bool \<Rightarrow> hashtable \<Rightarrow> 'v heap \<Rightarrow> (status \<times> hashtable \<times> 'v heap) option" where
  "php3_hash_sort qs compar renumber ht m =
     (if nNumOfElements ht \<le> 1 then Some (SUCCESS, ht, m)
      else let (a, m0) = pemalloc m in
      if a = 0 then Some (FAILURE, ht, m0)
      else do {
        arTmp \<leftarrow> collect_list m0 (pListHead ht);
        if length arTmp > nNumOfElements ht then None
        else do {
          let srt = qs (\<lambda>p q. compar (bkt m0 p) (bkt m0 q)) arTmp;
          (tail, m1) \<leftarrow> relink_sorted m0 0 srt;
          let ht1 = ht\<lparr>pListHead := hd0 srt, pInternalPointer := hd0 srt, pListTail := tail\<rparr>;
          if renumber then do {
            (i, m2) \<leftarrow> renumber_loop m1 (pListHead ht1) 0;
            (ht2, m3) \<leftarrow> php3_hash_rehash (ht1\<lparr>nNextFreeElement := of_nat i\<rparr>) m2;
            Some (SUCCESS, ht2, m3)
          }
          else Some (SUCCESS, ht1, m1)
        }
      })"

partial_function (option) minmax_loop ::
  "(bucket \<Rightarrow> bucket \<Rightarrow> int) \<Rightarrow> bool \<Rightarrow> 'v heap \<Rightarrow> addr \<Rightarrow> addr \<Rightarrow> addr option" where
  "minmax_loop compar flag m res p =
     (if p = 0 then Some res
      else do {
        b \<leftarrow> bkt m p;
        rb \<leftarrow> bkt m res;
        minmax_loop compar flag m
          (if flag then (if compar rb b < 0 then p else res)
           else (if compar rb b > 0 then p else res)) (pListNext b)
      })"

declare minmax_loop.simps [code]

definition php3_hash_minmax ::
  "hashtable \<Rightarrow> 'v heap \<Rightarrow> (bucket \<Rightarrow> bucket \<Rightarrow> int) \<Rightarrow> bool \<Rightarrow> (status \<times> addr) option" where
  "php3_hash_minmax ht m compar flag =
     (if nNumOfElements ht = 0 then Some (FAILURE, 0)
      else do {
        hb \<leftarrow> bkt m (pListHead ht);
        res \<leftarrow> minmax_loop compar flag m (pListHead ht) (pListNext hb);
        data_of m res
      })"

end
