(* ===== verification/Hash_Inv.thy ===== *)
theory Hash_Inv
  imports Hash_Ops
begin

text \<open>
  The representation invariant of the hash table: which list of addresses \<open>ls\<close> a table and a
  heap hold, with the doubly linked list, the collision chains, the keys and the data cells in
  step.  The lemmas say what each pointer-level building block (chain walk, linking, rehashing,
  unlinking) does to it.
\<close>

named_theorems heap_simps
named_theorems hash_frame

subsection \<open>Views of the bucket heap\<close>

definition Nf :: "(addr \<Rightarrow> bucket option) \<Rightarrow> addr \<Rightarrow> addr option" where
  "Nf B p = map_option pNext (B p)"

definition Lf :: "(addr \<Rightarrow> bucket option) \<Rightarrow> addr \<Rightarrow> (addr \<times> addr) option" where
  "Lf B p = map_option (\<lambda>b. (pListLast b, pListNext b)) (B p)"

text \<open>The key of an entry as the caller sees it: a string, or an integer index.\<close>

datatype hkey = KStr string | KIdx ulong

definition hkey_of :: "bucket \<Rightarrow> hkey" where
  "hkey_of b = (case arKey b of None \<Rightarrow> KIdx (bk_h b) | Some k \<Rightarrow> KStr k)"

text \<open>An entry: its key, the address of its data, and whether the data belong to the caller.\<close>

type_synonym entry = "hkey \<times> addr \<times> bool"

definition ent :: "bucket \<Rightarrow> entry" where
  "ent b = (hkey_of b, pData b, bIsPointer b)"

definition ents :: "'v heap \<Rightarrow> addr list \<Rightarrow> entry list" where
  "ents m ls = map (\<lambda>p. ent (the (bkt m p))) ls"

definition bucket_ok :: "hashtable \<Rightarrow> bucket \<Rightarrow> bool" where
  "bucket_ok ht b \<longleftrightarrow>
     (case arKey b of
        None \<Rightarrow> nKeyLength b = 0
      | Some k \<Rightarrow> k \<noteq> [] \<and> handle_numeric k = None \<and> nKeyLength b = length k \<and>
                  bk_h b = pHashFunction ht k)"

definition in_slot :: "(addr \<Rightarrow> bucket option) \<Rightarrow> nat \<Rightarrow> addr \<Rightarrow> nat" where
  "in_slot B sz p = unat (bk_h (the (B p))) mod sz"

definition chains_ok :: "(addr \<Rightarrow> bucket option) \<Rightarrow> nat \<Rightarrow> addr list \<Rightarrow> addr set \<Rightarrow> bool" where
  "chains_ok B sz arr A \<longleftrightarrow>
     length arr = sz \<and>
     (\<forall>i < sz. \<exists>c. chain (Nf B) (arr ! i) c \<and> set c = {p \<in> A. in_slot B sz p = i})"

definition keys_ok :: "hashtable \<Rightarrow> (addr \<Rightarrow> bucket option) \<Rightarrow> addr set \<Rightarrow> bool" where
  "keys_ok ht B A \<longleftrightarrow>
     (\<forall>p \<in> A. bucket_ok ht (the (B p))) \<and> inj_on (\<lambda>p. hkey_of (the (B p))) A"

text \<open>Owned data cells are allocated, and no two entries own the same cell.\<close>

definition data_ok :: "'v heap \<Rightarrow> addr set \<Rightarrow> bool" where
  "data_ok m A \<longleftrightarrow>
     (\<forall>p \<in> A. \<not> bIsPointer (the (bkt m p)) \<longrightarrow>
        pData (the (bkt m p)) \<noteq> 0 \<and> dat m (pData (the (bkt m p))) \<noteq> None \<and>
        (\<forall>q \<in> A. \<not> bIsPointer (the (bkt m q)) \<and>
           pData (the (bkt m q)) = pData (the (bkt m p)) \<longrightarrow> q = p))"

definition list_ok :: "hashtable \<Rightarrow> (addr \<Rightarrow> bucket option) \<Rightarrow> addr list \<Rightarrow> bool" where
  "list_ok ht B ls \<longleftrightarrow>
     distinct ls \<and> dseg (Lf B) 0 ls 0 \<and> pListHead ht = hd0 ls \<and> pListTail ht = last0 ls \<and>
     nNumOfElements ht = length ls \<and> (pInternalPointer ht = 0 \<or> pInternalPointer ht \<in> set ls)"

definition size_ok :: "hashtable \<Rightarrow> bool" where
  "size_ok ht \<longleftrightarrow>
     nHashSizeIndex ht < nNumPrimeNumbers \<and> nTableSize ht = PrimeNumbers ! nHashSizeIndex ht"

definition hash_inv :: "hashtable \<Rightarrow> 'v heap \<Rightarrow> addr list \<Rightarrow> bool" where
  "hash_inv ht m ls \<longleftrightarrow>
     list_ok ht (bkt m) ls \<and> size_ok ht \<and>
     chains_ok (bkt m) (nTableSize ht) (arBuckets ht) (set ls) \<and>
     keys_ok ht (bkt m) (set ls) \<and> data_ok m (set ls)"

subsection \<open>Heap updates\<close>

lemma set_bkt_simps [simp, heap_simps]:
  "bkt (set_bkt m p b) = (bkt m)(p \<mapsto> b)" "dat (set_bkt m p b) = dat m"
  "mem_supply (set_bkt m p b) = mem_supply m" "dlog (set_bkt m p b) = dlog m"
  by (simp_all add: set_bkt_def)

lemma set_dat_simps [simp, heap_simps]:
  "bkt (set_dat m a v) = bkt m" "dat (set_dat m a v) = (dat m)(a \<mapsto> v)"
  "mem_supply (set_dat m a v) = mem_supply m" "dlog (set_dat m a v) = dlog m"
  by (simp_all add: set_dat_def)

lemma call_destructor_simps [simp, heap_simps]:
  "bkt (call_destructor ht m a) = bkt m" "dat (call_destructor ht m a) = dat m"
  "mem_supply (call_destructor ht m a) = mem_supply m"
  "dlog (call_destructor ht m a) = dlog m @ (if pDestructor ht then [a] else [])"
  by (simp_all add: call_destructor_def)

lemma pemalloc_heap [simp, heap_simps]:
  "bkt (snd (pemalloc m)) = bkt m" "dat (snd (pemalloc m)) = dat m"
  "dlog (snd (pemalloc m)) = dlog m"
  by (simp_all add: pemalloc_def split: list.splits)

lemma pemalloc_fresh: "pemalloc m = (a, m') \<Longrightarrow> a \<noteq> 0 \<Longrightarrow> bkt m a = None \<and> dat m a = None"
  by (auto simp: pemalloc_def split: list.splits if_splits)

lemma pemalloc_eqD:
  "pemalloc m = (a, m') \<Longrightarrow> bkt m' = bkt m \<and> dat m' = dat m \<and> dlog m' = dlog m"
  by (metis pemalloc_heap snd_conv)

lemma Nf_upd [simp]: "Nf (B(p \<mapsto> b)) = (Nf B)(p \<mapsto> pNext b)"
  by (auto simp: Nf_def fun_eq_iff)

lemma Lf_upd [simp]: "Lf (B(p \<mapsto> b)) = (Lf B)(p \<mapsto> (pListLast b, pListNext b))"
  by (auto simp: Lf_def fun_eq_iff)

lemma Lf_SomeD: "Lf B p = Some (l, n) \<Longrightarrow> \<exists>b. B p = Some b \<and> pListLast b = l \<and> pListNext b = n"
  by (auto simp: Lf_def)

lemma Nf_SomeD: "Nf B p = Some q \<Longrightarrow> \<exists>b. B p = Some b \<and> pNext b = q"
  by (auto simp: Nf_def)

lemma dseg_bkt: "dseg (Lf B) prev xs nxt \<Longrightarrow> x \<in> set xs \<Longrightarrow> \<exists>b. B x = Some b"
  using dseg_in_dom Lf_SomeD by fastforce

lemma bkt_of_ls: "hash_inv ht m ls \<Longrightarrow> p \<in> set ls \<Longrightarrow> \<exists>b. bkt m p = Some b"
  unfolding hash_inv_def list_ok_def using dseg_bkt by blast

lemma nonzero_ls: "hash_inv ht m ls \<Longrightarrow> 0 \<notin> set ls"
  unfolding hash_inv_def list_ok_def using dseg_nonzero by blast

lemma num_primes: "nNumPrimeNumbers = 14"
  by (simp add: nNumPrimeNumbers_def PrimeNumbers_def)

lemma prime_pos: "i < nNumPrimeNumbers \<Longrightarrow> PrimeNumbers ! i > 0"
proof -
  assume "i < nNumPrimeNumbers"
  then have "i < length PrimeNumbers" by (simp add: num_primes PrimeNumbers_def)
  moreover have "\<forall>x \<in> set PrimeNumbers. x > 0" by (simp add: PrimeNumbers_def)
  ultimately show ?thesis by auto
qed

lemma table_size_pos: "size_ok ht \<Longrightarrow> nTableSize ht > 0"
  by (simp add: size_ok_def prime_pos)

subsection \<open>Walking a chain\<close>

lemma find_in_chain_eq:
  "chain (Nf (bkt m)) p c \<Longrightarrow>
     find_in_chain m P p = Some (hd0 (filter (\<lambda>x. P (the (bkt m x))) c))"
proof (induction c arbitrary: p)
  case Nil
  then show ?case by (simp add: find_in_chain.simps)
next
  case (Cons x c)
  then obtain b where b: "bkt m x = Some b" "p = x" "x \<noteq> 0" "chain (Nf (bkt m)) (pNext b) c"
    using Nf_SomeD by fastforce
  then show ?case
    by (subst find_in_chain.simps) (simp add: Cons.IH)
qed

lemma filter_unique:
  "distinct xs \<Longrightarrow> q \<in> set xs \<Longrightarrow> (\<And>x. x \<in> set xs \<Longrightarrow> P x \<longleftrightarrow> x = q) \<Longrightarrow> filter P xs = [q]"
proof (induction xs)
  case Nil
  then show ?case by simp
next
  case (Cons x xs)
  show ?case
  proof (cases "x = q")
    case True
    with Cons.prems have "filter P xs = []" by (auto simp: filter_empty_conv)
    with True Cons.prems show ?thesis by simp
  next
    case False
    with Cons.prems have "filter P xs = [q]" by (intro Cons.IH) auto
    with False Cons.prems show ?thesis by simp
  qed
qed

lemma find_in_slot_found:
  assumes inv: "hash_inv ht m ls" and q: "q \<in> set ls" and i: "i = in_slot (bkt m) (nTableSize ht) q"
    and P: "\<And>p. p \<in> set ls \<Longrightarrow> P (the (bkt m p)) \<longleftrightarrow> p = q"
  shows "find_in_chain m P (arBuckets ht ! i) = Some q"
proof -
  have "i < nTableSize ht"
    using inv table_size_pos unfolding hash_inv_def i in_slot_def by simp
  then obtain c where c: "chain (Nf (bkt m)) (arBuckets ht ! i) c"
      "set c = {p \<in> set ls. in_slot (bkt m) (nTableSize ht) p = i}"
    using inv unfolding hash_inv_def chains_ok_def by blast
  have "filter (\<lambda>x. P (the (bkt m x))) c = [q]"
    using chain_distinct [OF c(1)] c(2) q i P by (intro filter_unique) auto
  with c(1) show ?thesis by (simp add: find_in_chain_eq)
qed

lemma find_in_slot_missing:
  assumes inv: "hash_inv ht m ls" and i: "i < nTableSize ht"
    and P: "\<And>p. p \<in> set ls \<Longrightarrow> in_slot (bkt m) (nTableSize ht) p = i \<Longrightarrow> \<not> P (the (bkt m p))"
  shows "find_in_chain m P (arBuckets ht ! i) = Some 0"
proof -
  obtain c where c: "chain (Nf (bkt m)) (arBuckets ht ! i) c"
      "set c = {p \<in> set ls. in_slot (bkt m) (nTableSize ht) p = i}"
    using inv i unfolding hash_inv_def chains_ok_def by blast
  then have "filter (\<lambda>x. P (the (bkt m x))) c = []"
    using P by (auto simp: filter_empty_conv)
  with c(1) show ?thesis by (simp add: find_in_chain_eq)
qed

end
