(* ===== verification/Hash_Link.thy ===== *)
theory Hash_Link
  imports Hash_Inv
begin

text \<open>
  Rehashing, growing and linking: the pointer surgery of an insertion keeps the representation.
\<close>

subsection \<open>Heaps that differ in collision links only\<close>

definition eqN :: "(addr \<Rightarrow> bucket option) \<Rightarrow> (addr \<Rightarrow> bucket option) \<Rightarrow> bool" where
  "eqN B B' \<longleftrightarrow> (\<forall>p. map_option (\<lambda>b. b\<lparr>pNext := 0\<rparr>) (B p) = map_option (\<lambda>b. b\<lparr>pNext := 0\<rparr>) (B' p))"

lemma eqN_refl [simp]: "eqN B B"
  by (simp add: eqN_def)

lemma eqN_trans: "eqN B B' \<Longrightarrow> eqN B' B'' \<Longrightarrow> eqN B B''"
  by (simp add: eqN_def)

lemma eqN_upd: "B p = Some b \<Longrightarrow> eqN B (B(p \<mapsto> b\<lparr>pNext := n\<rparr>))"
  by (simp add: eqN_def)

lemma bucket_eqN:
  "(b :: bucket)\<lparr>pNext := 0\<rparr> = b'\<lparr>pNext := 0\<rparr> \<longleftrightarrow>
     bk_h b = bk_h b' \<and> arKey b = arKey b' \<and> nKeyLength b = nKeyLength b' \<and> pData b = pData b' \<and>
     bIsPointer b = bIsPointer b' \<and> pListNext b = pListNext b' \<and> pListLast b = pListLast b'"
  by (cases b; cases b') auto

lemma eqN_cases:
  assumes "eqN B B'"
  obtains "B p = None" "B' p = None"
  | b b' where "B p = Some b" "B' p = Some b'" "b\<lparr>pNext := 0\<rparr> = b'\<lparr>pNext := 0\<rparr>"
proof (cases "B p")
  case None
  with assms have "B' p = None" unfolding eqN_def by (metis map_option_is_None)
  with None that(1) show ?thesis by blast
next
  case (Some b)
  have "map_option (\<lambda>b. b\<lparr>pNext := 0\<rparr>) (B p) = map_option (\<lambda>b. b\<lparr>pNext := 0\<rparr>) (B' p)"
    using assms by (simp add: eqN_def)
  with Some obtain b' where "B' p = Some b'" "b\<lparr>pNext := 0\<rparr> = b'\<lparr>pNext := 0\<rparr>"
    by (cases "B' p") auto
  with Some that(2) show ?thesis by blast
qed

lemma eqN_Lf: "eqN B B' \<Longrightarrow> Lf B' = Lf B"
proof
  fix p
  assume "eqN B B'"
  then show "Lf B' p = Lf B p"
    by (cases rule: eqN_cases [where p = p]) (auto simp: Lf_def bucket_eqN)
qed

lemma eqN_ent: "eqN B B' \<Longrightarrow> ent (the (B' p)) = ent (the (B p))"
  by (cases rule: eqN_cases [of B B' p]) (auto simp: ent_def hkey_of_def bucket_eqN split: option.splits)

lemma eqN_hkey: "eqN B B' \<Longrightarrow> hkey_of (the (B' p)) = hkey_of (the (B p))"
  using eqN_ent [of B B' p] by (simp add: ent_def)

lemma eqN_data:
  "eqN B B' \<Longrightarrow> pData (the (B' p)) = pData (the (B p)) \<and> bIsPointer (the (B' p)) = bIsPointer (the (B p))"
  using eqN_ent [of B B' p] by (simp add: ent_def)

lemma eqN_slot: "eqN B B' \<Longrightarrow> in_slot B' sz p = in_slot B sz p"
  by (cases rule: eqN_cases [of B B' p]) (auto simp: in_slot_def bucket_eqN)

lemma eqN_bucket_ok: "eqN B B' \<Longrightarrow> bucket_ok ht (the (B' p)) = bucket_ok ht (the (B p))"
  by (cases rule: eqN_cases [of B B' p]) (auto simp: bucket_ok_def bucket_eqN split: option.splits)

lemma eqN_dom: "eqN B B' \<Longrightarrow> B' p = None \<longleftrightarrow> B p = None"
  by (cases rule: eqN_cases [of B B' p]) auto

lemma eqN_keys_ok: "eqN B B' \<Longrightarrow> keys_ok ht B' A = keys_ok ht B A"
  unfolding keys_ok_def by (simp add: eqN_bucket_ok eqN_hkey inj_on_def)

lemma eqN_data_ok: "eqN (bkt m) (bkt m') \<Longrightarrow> dat m' = dat m \<Longrightarrow> data_ok m' A = data_ok m A"
  unfolding data_ok_def by (simp add: eqN_data)

subsection \<open>Rehashing\<close>

lemma chains_ok_insert:
  assumes ch: "chains_ok B sz arr A" and q: "q \<noteq> 0" "q \<notin> A"
    and i: "i = unat (bk_h b) mod sz" and sz: "sz > 0" and n: "pNext b = arr ! i"
  shows "chains_ok (B(q \<mapsto> b)) sz (arr[i := q]) (insert q A)"
  unfolding chains_ok_def
proof (intro conjI allI impI)
  show "length (arr[i := q]) = sz" using ch by (simp add: chains_ok_def)
next
  fix j assume j: "j < sz"
  then obtain c where c: "chain (Nf B) (arr ! j) c" "set c = {p \<in> A. in_slot B sz p = j}"
    using ch unfolding chains_ok_def by blast
  have qc: "q \<notin> set c" using c q by auto
  have c': "chain (Nf (B(q \<mapsto> b))) (arr ! j) c"
    using c qc by (simp add: chain_upd_other)
  have other: "p \<in> A \<Longrightarrow> in_slot (B(q \<mapsto> b)) sz p = in_slot B sz p" for p
    using q by (auto simp: in_slot_def)
  have new: "in_slot (B(q \<mapsto> b)) sz q = i" by (simp add: in_slot_def i)
  have len: "i < length arr" using ch sz i by (simp add: chains_ok_def)
  show "\<exists>c. chain (Nf (B(q \<mapsto> b))) (arr[i := q] ! j) c \<and>
            set c = {p \<in> insert q A. in_slot (B(q \<mapsto> b)) sz p = j}"
  proof (cases "j = i")
    case True
    have "chain (Nf (B(q \<mapsto> b))) (arr[i := q] ! j) (q # c)"
      using True c' q len n by (simp add: chain_upd_other qc)
    moreover have "set (q # c) = {p \<in> insert q A. in_slot (B(q \<mapsto> b)) sz p = j}"
      using True c(2) new other by auto
    ultimately show ?thesis by blast
  next
    case False
    with c' have "chain (Nf (B(q \<mapsto> b))) (arr[i := q] ! j) c" by simp
    moreover have "set c = {p \<in> insert q A. in_slot (B(q \<mapsto> b)) sz p = j}"
      using False c(2) new other by auto
    ultimately show ?thesis by blast
  qed
qed

lemma chains_ok_empty: "chains_ok B sz (replicate sz 0) {}"
  by (simp add: chains_ok_def)

lemma rehash_loop_ok:
  assumes "dseg (Lf (bkt m)) prev rest 0" and "distinct rest" and "set rest \<inter> A = {}"
    and "chains_ok (bkt m) sz arr A" and "sz > 0"
  shows "\<exists>arr' m'. rehash_loop sz m arr (hd0 rest) = Some (arr', m') \<and>
     chains_ok (bkt m') sz arr' (A \<union> set rest) \<and> eqN (bkt m) (bkt m') \<and>
     (\<forall>p. p \<notin> set rest \<longrightarrow> bkt m' p = bkt m p) \<and>
     dat m' = dat m \<and> mem_supply m' = mem_supply m \<and> dlog m' = dlog m"
  using assms
proof (induction rest arbitrary: m prev arr A)
  case Nil
  then show ?case by (simp add: rehash_loop.simps)
next
  case (Cons p rest)
  from Cons.prems(1) obtain b where b: "bkt m p = Some b" "pListNext b = hd0 (rest @ [0])" "p \<noteq> 0"
    and tail: "dseg (Lf (bkt m)) p rest 0"
    using Lf_SomeD by fastforce
  let ?i = "unat (bk_h b) mod sz"
  let ?b = "b\<lparr>pNext := arr ! ?i\<rparr>"
  let ?m = "set_bkt m p ?b"
  have nx: "pListNext b = hd0 rest" using b(2) by (simp add: hd0_append)
  have i: "?i < length arr" using Cons.prems(4,5) by (simp add: chains_ok_def)
  have e: "eqN (bkt m) (bkt ?m)" using b(1) by (simp add: eqN_upd)
  have d: "dseg (Lf (bkt ?m)) p rest 0" using tail eqN_Lf [OF e] by simp
  have ch: "chains_ok (bkt ?m) sz (arr[?i := p]) (insert p A)"
    using chains_ok_insert [OF Cons.prems(4) b(3), of ?i ?b] Cons.prems(3,5) by simp
  have disj: "set rest \<inter> insert p A = {}" using Cons.prems(2,3) by auto
  from Cons.IH [OF d _ disj ch Cons.prems(5)] Cons.prems(2)
  obtain arr' m' where r: "rehash_loop sz ?m (arr[?i := p]) (hd0 rest) = Some (arr', m')"
    "chains_ok (bkt m') sz arr' (insert p A \<union> set rest)" "eqN (bkt ?m) (bkt m')"
    "\<forall>q. q \<notin> set rest \<longrightarrow> bkt m' q = bkt ?m q"
    "dat m' = dat m" "mem_supply m' = mem_supply m" "dlog m' = dlog m"
    by (auto simp del: fun_upd_apply)
  have step: "rehash_loop sz m arr (hd0 (p # rest)) = rehash_loop sz ?m (arr[?i := p]) (hd0 rest)"
    using b nx i by (subst rehash_loop.simps) (simp add: Let_def)
  have "eqN (bkt m) (bkt m')" using eqN_trans [OF e r(3)] .
  with r step show ?case by (auto simp: insert_commute Un_insert_left)
qed

text \<open>What every table operation leaves alone on the heap, outside the blocks \<open>A\<close>.\<close>

definition same_table :: "hashtable \<Rightarrow> hashtable \<Rightarrow> bool" where
  "same_table ht ht' \<longleftrightarrow>
     nNumOfElements ht' = nNumOfElements ht \<and> nNextFreeElement ht' = nNextFreeElement ht \<and>
     pHashFunction ht' = pHashFunction ht \<and> pInternalPointer ht' = pInternalPointer ht \<and>
     pListHead ht' = pListHead ht \<and> pListTail ht' = pListTail ht \<and>
     pDestructor ht' = pDestructor ht \<and> persistent ht' = persistent ht"

lemma bucket_ok_hash: "pHashFunction ht' = pHashFunction ht \<Longrightarrow> bucket_ok ht' b = bucket_ok ht b"
  by (simp add: bucket_ok_def split: option.splits)

lemma keys_ok_hash: "pHashFunction ht' = pHashFunction ht \<Longrightarrow> keys_ok ht' B A = keys_ok ht B A"
  using bucket_ok_hash [of ht' ht] by (simp add: keys_ok_def)

lemma list_ok_same: "same_table ht ht' \<Longrightarrow> Lf B' = Lf B \<Longrightarrow> list_ok ht' B' ls = list_ok ht B ls"
  by (simp add: list_ok_def same_table_def)

text \<open>Rehashing a table whose size fields are right rebuilds its chains, whatever they were.\<close>

lemma php3_hash_rehash_ok:
  assumes l: "list_ok ht (bkt m) ls" and s: "size_ok ht"
    and k: "keys_ok ht (bkt m) (set ls)" and d: "data_ok m (set ls)"
  shows "\<exists>ht' m'. php3_hash_rehash ht m = Some (ht', m') \<and> hash_inv ht' m' ls \<and>
     same_table ht ht' \<and> nTableSize ht' = nTableSize ht \<and> nHashSizeIndex ht' = nHashSizeIndex ht \<and>
     eqN (bkt m) (bkt m') \<and> (\<forall>p. p \<notin> set ls \<longrightarrow> bkt m' p = bkt m p) \<and>
     dat m' = dat m \<and> mem_supply m' = mem_supply m \<and> dlog m' = dlog m"
proof -
  let ?sz = "nTableSize ht"
  have pos: "?sz > 0" using s by (rule table_size_pos)
  from l have ds: "dseg (Lf (bkt m)) 0 ls 0" and di: "distinct ls" and hd: "pListHead ht = hd0 ls"
    by (simp_all add: list_ok_def)
  from rehash_loop_ok [OF ds di, of "{}" ?sz "replicate ?sz 0"] pos
  obtain arr m' where r: "rehash_loop ?sz m (replicate ?sz 0) (hd0 ls) = Some (arr, m')"
    "chains_ok (bkt m') ?sz arr (set ls)" "eqN (bkt m) (bkt m')"
    "\<forall>p. p \<notin> set ls \<longrightarrow> bkt m' p = bkt m p"
    "dat m' = dat m" "mem_supply m' = mem_supply m" "dlog m' = dlog m"
    by (auto simp: chains_ok_empty)
  let ?ht = "ht\<lparr>arBuckets := arr\<rparr>"
  have "php3_hash_rehash ht m = Some (?ht, m')"
    using r(1) s hd by (simp add: php3_hash_rehash_def size_ok_def)
  moreover have st: "same_table ht ?ht" by (simp add: same_table_def)
  moreover have "hash_inv ?ht m' ls"
    unfolding hash_inv_def
  proof (intro conjI)
    show "list_ok ?ht (bkt m') ls" using l list_ok_same [OF st eqN_Lf [OF r(3)]] by simp
    show "size_ok ?ht" using s by (simp add: size_ok_def)
    show "chains_ok (bkt m') (nTableSize ?ht) (arBuckets ?ht) (set ls)" using r(2) by simp
    show "keys_ok ?ht (bkt m') (set ls)"
      using k eqN_keys_ok [OF r(3)] keys_ok_hash [of ?ht ht] by simp
    show "data_ok m' (set ls)" using d eqN_data_ok [OF r(3) r(5)] by simp
  qed
  ultimately show ?thesis using r by auto
qed

end
