(* ===== verification/Hash_Insert.thy ===== *)
theory Hash_Insert
  imports Hash_Link
begin

text \<open>
  Insertion: \<open>hash_link\<close>, growth, and the two insertion functions, against the list of entries.
\<close>

subsection \<open>Heaps that differ in list links only\<close>

definition eqL :: "(addr \<Rightarrow> bucket option) \<Rightarrow> (addr \<Rightarrow> bucket option) \<Rightarrow> bool" where
  "eqL B B' \<longleftrightarrow> (\<forall>p. map_option (\<lambda>b. b\<lparr>pListNext := 0, pListLast := 0\<rparr>) (B p) =
                     map_option (\<lambda>b. b\<lparr>pListNext := 0, pListLast := 0\<rparr>) (B' p))"

lemma eqL_refl [simp]: "eqL B B"
  by (simp add: eqL_def)

lemma eqL_trans: "eqL B B' \<Longrightarrow> eqL B' B'' \<Longrightarrow> eqL B B''"
  by (simp add: eqL_def)

lemma eqL_upd:
  "B p = Some b \<Longrightarrow> eqL B (B(p \<mapsto> b\<lparr>pListNext := n\<rparr>))"
  "B p = Some b \<Longrightarrow> eqL B (B(p \<mapsto> b\<lparr>pListLast := l\<rparr>))"
  "B p = Some b \<Longrightarrow> eqL B (B(p \<mapsto> b\<lparr>pListLast := l, pListNext := n\<rparr>))"
  by (simp_all add: eqL_def)

lemma bucket_eqL:
  "(b :: bucket)\<lparr>pListNext := 0, pListLast := 0\<rparr> = b'\<lparr>pListNext := 0, pListLast := 0\<rparr> \<longleftrightarrow>
     bk_h b = bk_h b' \<and> arKey b = arKey b' \<and> nKeyLength b = nKeyLength b' \<and> pData b = pData b' \<and>
     bIsPointer b = bIsPointer b' \<and> pNext b = pNext b'"
  by (cases b; cases b') auto

lemma eqL_cases:
  assumes "eqL B B'"
  obtains "B p = None" "B' p = None"
  | b b' where "B p = Some b" "B' p = Some b'"
      "b\<lparr>pListNext := 0, pListLast := 0\<rparr> = b'\<lparr>pListNext := 0, pListLast := 0\<rparr>"
proof -
  have e: "map_option (\<lambda>b. b\<lparr>pListNext := 0, pListLast := 0\<rparr>) (B p) =
           map_option (\<lambda>b. b\<lparr>pListNext := 0, pListLast := 0\<rparr>) (B' p)"
    using assms by (simp add: eqL_def)
  show ?thesis
    using e that by (cases "B p"; cases "B' p") auto
qed

lemma eqL_Nf: "eqL B B' \<Longrightarrow> Nf B' = Nf B"
proof
  fix p
  assume "eqL B B'"
  then show "Nf B' p = Nf B p"
    by (cases rule: eqL_cases [where p = p]) (auto simp: Nf_def bucket_eqL)
qed

lemma eqL_ent: "eqL B B' \<Longrightarrow> ent (the (B' p)) = ent (the (B p))"
  by (cases rule: eqL_cases [of B B' p]) (auto simp: ent_def hkey_of_def bucket_eqL split: option.splits)

lemma eqL_hkey: "eqL B B' \<Longrightarrow> hkey_of (the (B' p)) = hkey_of (the (B p))"
  using eqL_ent [of B B' p] by (simp add: ent_def)

lemma eqL_data:
  "eqL B B' \<Longrightarrow> pData (the (B' p)) = pData (the (B p)) \<and> bIsPointer (the (B' p)) = bIsPointer (the (B p))"
  using eqL_ent [of B B' p] by (simp add: ent_def)

lemma eqL_slot: "eqL B B' \<Longrightarrow> in_slot B' sz p = in_slot B sz p"
  by (cases rule: eqL_cases [of B B' p]) (auto simp: in_slot_def bucket_eqL)

lemma eqL_bucket_ok: "eqL B B' \<Longrightarrow> bucket_ok ht (the (B' p)) = bucket_ok ht (the (B p))"
  by (cases rule: eqL_cases [of B B' p]) (auto simp: bucket_ok_def bucket_eqL split: option.splits)

lemma eqL_dom: "eqL B B' \<Longrightarrow> B' p = None \<longleftrightarrow> B p = None"
  by (cases rule: eqL_cases [of B B' p]) auto

lemma eqL_chains_ok: "eqL B B' \<Longrightarrow> chains_ok B' sz arr A = chains_ok B sz arr A"
  unfolding chains_ok_def by (simp add: eqL_Nf eqL_slot)

lemma eqL_keys_ok: "eqL B B' \<Longrightarrow> keys_ok ht B' A = keys_ok ht B A"
  unfolding keys_ok_def by (simp add: eqL_bucket_ok eqL_hkey inj_on_def)

lemma eqL_data_ok: "eqL (bkt m) (bkt m') \<Longrightarrow> dat m' = dat m \<Longrightarrow> data_ok m' A = data_ok m A"
  unfolding data_ok_def by (simp add: eqL_data)

lemma eqL_ents: "eqL (bkt m) (bkt m') \<Longrightarrow> ents m' ls = ents m ls"
  by (simp add: ents_def eqL_ent)

lemma eqN_ents: "eqN (bkt m) (bkt m') \<Longrightarrow> ents m' ls = ents m ls"
  by (simp add: ents_def eqN_ent)

lemma ents_append [simp]: "ents m (xs @ ys) = ents m xs @ ents m ys"
  by (simp add: ents_def)

lemma ents_Nil [simp]: "ents m [] = []"
  by (simp add: ents_def)

lemma ents_Cons [simp]: "ents m (p # ps) = ent (the (bkt m p)) # ents m ps"
  by (simp add: ents_def)

lemma ents_cong: "(\<And>p. p \<in> set ls \<Longrightarrow> bkt m' p = bkt m p) \<Longrightarrow> ents m' ls = ents m ls"
  by (simp add: ents_def)

lemma length_ents [simp]: "length (ents m ls) = length ls"
  by (simp add: ents_def)

subsection \<open>Linking a new bucket\<close>

text \<open>What the data of a new bucket must satisfy next to the entries of \<open>A\<close>.\<close>

definition data_new :: "'v heap \<Rightarrow> addr set \<Rightarrow> bucket \<Rightarrow> bool" where
  "data_new m A b \<longleftrightarrow>
     (\<not> bIsPointer b \<longrightarrow> pData b \<noteq> 0 \<and> dat m (pData b) \<noteq> None \<and>
        (\<forall>p \<in> A. pData (the (bkt m p)) = pData b \<longrightarrow> bIsPointer (the (bkt m p))))"

lemma append_tail:
  assumes ds: "dseg (Lf B) 0 ls 0" and di: "distinct ls" and q: "q \<noteq> 0" "q \<notin> set ls"
    and bq: "b = b0\<lparr>pListLast := last0 ls, pListNext := 0\<rparr>"
    and B2: "B2 = (if ls = [] then B(q \<mapsto> b)
                   else B(q \<mapsto> b, last0 ls \<mapsto> (the (B (last0 ls)))\<lparr>pListNext := q\<rparr>))"
  shows "dseg (Lf B2) 0 (ls @ [q]) 0"
proof (cases ls rule: rev_cases)
  case Nil
  then show ?thesis using q bq B2 by simp
next
  case (snoc xs t)
  obtain bt where bt: "B t = Some bt" using dseg_bkt [OF ds, of t] snoc by auto
  have t: "t \<noteq> 0" using dseg_nonzero [OF ds] snoc by auto
  have tx: "t \<notin> set xs" using di snoc by simp
  have qx: "q \<notin> set xs" "q \<noteq> t" using q snoc by auto
  have B2': "Lf B2 = (Lf B)(q \<mapsto> (t, 0), t \<mapsto> (pListLast bt, q))"
    using B2 bq snoc bt by simp
  have 1: "dseg (Lf B) 0 xs t" "pListLast bt = (if xs = [] then 0 else last xs)"
    using ds snoc bt by (auto simp: dseg_append Lf_def)
  have "dseg (Lf B2) 0 xs t"
    using 1(1) tx qx unfolding B2' by (simp add: dseg_upd_other)
  moreover have "dseg (Lf B2) (if xs = [] then 0 else last xs) [t, q] 0"
    using 1(2) t q qx unfolding B2' by simp
  ultimately have "dseg (Lf B2) 0 (xs @ [t, q]) 0"
    by (simp add: dseg_append)
  then show ?thesis using snoc by simp
qed

lemma hash_link_ok:
  assumes inv: "hash_inv ht m ls" and q: "q \<noteq> 0" "q \<notin> set ls"
    and i: "i = slot ht (bk_h b)" and ok: "bucket_ok ht b"
    and new: "hkey_of b \<notin> (\<lambda>p. hkey_of (the (bkt m p))) ` set ls"
    and dn: "data_new m (set ls) b"
  shows "\<exists>ht' m'. hash_link ht m q b i = Some (ht', m') \<and> hash_inv ht' m' (ls @ [q]) \<and>
     ents m' (ls @ [q]) = ents m ls @ [ent b] \<and>
     (\<forall>p. p \<notin> insert q (set ls) \<longrightarrow> bkt m' p = bkt m p) \<and>
     dat m' = dat m \<and> mem_supply m' = mem_supply m \<and> dlog m' = dlog m \<and>
     pHashFunction ht' = pHashFunction ht \<and> nNextFreeElement ht' = nNextFreeElement ht \<and>
     pDestructor ht' = pDestructor ht \<and> persistent ht' = persistent ht \<and>
     pInternalPointer ht' = (if pInternalPointer ht = 0 then q else pInternalPointer ht)"
proof -
  let ?A = "set ls" and ?sz = "nTableSize ht"
  from inv have l: "list_ok ht (bkt m) ls" and s: "size_ok ht"
    and ch: "chains_ok (bkt m) ?sz (arBuckets ht) ?A" and k: "keys_ok ht (bkt m) ?A"
    and d: "data_ok m ?A"
    by (simp_all add: hash_inv_def)
  from l have ds: "dseg (Lf (bkt m)) 0 ls 0" and di: "distinct ls" and hd: "pListHead ht = hd0 ls"
    and tl: "pListTail ht = last0 ls" by (simp_all add: list_ok_def)
  have pos: "?sz > 0" using s by (rule table_size_pos)
  have ii: "i < length (arBuckets ht)" using ch pos i by (simp add: chains_ok_def slot_def)
  have z: "0 \<notin> ?A" using nonzero_ls [OF inv] .
  define b1 where "b1 = b\<lparr>pNext := arBuckets ht ! i, pListLast := last0 ls, pListNext := 0\<rparr>"
  define m1 where "m1 = set_bkt m q b1"
  define m2 where "m2 = (if ls = [] then m1
     else set_bkt m1 (last0 ls) ((the (bkt m (last0 ls)))\<lparr>pListNext := q\<rparr>))"
  define ht' where "ht' = ht\<lparr>pInternalPointer := (if pInternalPointer ht = 0 then q else pInternalPointer ht),
     arBuckets := (arBuckets ht)[i := q], pListTail := q,
     pListHead := (if pListHead ht = 0 then q else pListHead ht),
     nNumOfElements := nNumOfElements ht + 1\<rparr>"
  have tail: "ls \<noteq> [] \<Longrightarrow> bkt m1 (last0 ls) = Some (the (bkt m (last0 ls))) \<and> last0 ls \<noteq> 0"
    using dseg_bkt [OF ds, of "last0 ls"] last0_in_set [of ls] last0_eq_0 [OF z] q
    by (auto simp: m1_def)
  have run: "hash_link ht m q b i = Some (ht', m2)"
  proof (cases "ls = []")
    case True
    then show ?thesis
      using ii tl by (simp add: hash_link_def Let_def m2_def m1_def b1_def ht'_def)
  next
    case False
    with tail have t: "bkt m1 (last0 ls) = Some (the (bkt m (last0 ls)))" "last0 ls \<noteq> 0" by auto
    from t(1) have t': "((bkt m)(q \<mapsto> b1)) (last0 ls) = Some (the (bkt m (last0 ls)))"
      by (simp add: m1_def)
    show ?thesis
      using False ii tl t t' unfolding hash_link_def Let_def ht'_def
      by (simp add: m2_def m1_def b1_def del: fun_upd_apply)
  qed
  have e12: "eqL (bkt m1) (bkt m2)"
    using tail by (cases "ls = []") (simp_all add: m2_def eqL_upd del: fun_upd_apply)
  have dat: "dat m2 = dat m" "mem_supply m2 = mem_supply m" "dlog m2 = dlog m"
    by (simp_all add: m2_def m1_def)
  have m1old: "p \<in> ?A \<Longrightarrow> bkt m1 p = bkt m p" for p using q by (auto simp: m1_def)
  have m1q: "the (bkt m1 q) = b1" by (simp add: m1_def)
  have b1: "bucket_ok ht b1" "hkey_of b1 = hkey_of b" "ent b1 = ent b" "pData b1 = pData b"
    "bIsPointer b1 = bIsPointer b" "bk_h b1 = bk_h b"
    using ok by (simp_all add: b1_def bucket_ok_def hkey_of_def ent_def split: option.splits)
  have L: "list_ok ht' (bkt m2) (ls @ [q])"
  proof -
    have "dseg (Lf (bkt m2)) 0 (ls @ [q]) 0"
      by (rule append_tail [OF ds di q, of b1 "b1\<lparr>pListNext := 0\<rparr>"])
         (simp_all add: b1_def m2_def m1_def)
    then show ?thesis
      using l q z hd0_eq_0 [OF z] by (auto simp: list_ok_def ht'_def hd0_append)
  qed
  have C: "chains_ok (bkt m2) ?sz ((arBuckets ht)[i := q]) (set (ls @ [q]))"
    using chains_ok_insert [OF ch q, of i b1] i pos b1(6) eqL_chains_ok [OF e12]
    by (simp add: m1_def b1_def slot_def)
  have K: "keys_ok ht (bkt m2) (set (ls @ [q]))"
  proof -
    have "inj_on (\<lambda>p. hkey_of (the (bkt m1 p))) (insert q ?A)"
      using k new b1(2) q m1old m1q unfolding keys_ok_def inj_on_def
      by (auto simp: image_iff)
    moreover have "\<forall>p \<in> insert q ?A. bucket_ok ht (the (bkt m1 p))"
      using k b1(1) m1old m1q unfolding keys_ok_def by auto
    ultimately have "keys_ok ht (bkt m1) (insert q ?A)" by (simp add: keys_ok_def)
    then show ?thesis by (simp add: eqL_keys_ok [OF e12])
  qed
  have D: "data_ok m2 (set (ls @ [q]))"
  proof -
    have "data_ok m1 (insert q ?A)"
      using d dn m1old m1q b1(4,5) q unfolding data_ok_def data_new_def
      by (auto simp: m1_def)
    then show ?thesis using eqL_data_ok [OF e12] by (simp add: m1_def m2_def)
  qed
  have "hash_inv ht' m2 (ls @ [q])"
    unfolding hash_inv_def
    using L s C K D keys_ok_hash [of ht' ht] by (simp add: ht'_def size_ok_def)
  moreover have "ents m2 (ls @ [q]) = ents m ls @ [ent b]"
    using eqL_ents [OF e12, of "ls @ [q]"] ents_cong [of ls m1 m] m1old m1q b1(3) by simp
  moreover have "\<forall>p. p \<notin> insert q ?A \<longrightarrow> bkt m2 p = bkt m p"
    using last0_in_set [of ls] by (auto simp: m2_def m1_def)
  ultimately show ?thesis using run dat by (auto simp: ht'_def)
qed

subsection \<open>Growth\<close>

lemma hash_inv_next_free [simp]: "hash_inv (ht\<lparr>nNextFreeElement := n\<rparr>) m ls = hash_inv ht m ls"
  using keys_ok_hash [of "ht\<lparr>nNextFreeElement := n\<rparr>" ht]
  by (simp add: hash_inv_def list_ok_def size_ok_def)

lemma hash_inv_bump [simp]: "hash_inv (bump_next_free ht h) m ls = hash_inv ht m ls"
  by (simp add: bump_next_free_def)

lemma bump_simps [simp]:
  "pHashFunction (bump_next_free ht h) = pHashFunction ht"
  "pDestructor (bump_next_free ht h) = pDestructor ht"
  "persistent (bump_next_free ht h) = persistent ht"
  "pInternalPointer (bump_next_free ht h) = pInternalPointer ht"
  "nNextFreeElement (bump_next_free ht h) =
     (if h \<ge> nNextFreeElement ht then h + 1 else nNextFreeElement ht)"
  by (simp_all add: bump_next_free_def)

lemma hash_inv_heap:
  "bkt m' = bkt m \<Longrightarrow> dat m' = dat m \<Longrightarrow> hash_inv ht m' ls = hash_inv ht m ls"
  by (simp add: hash_inv_def data_ok_def)

lemma if_full_do_resize_ok:
  assumes inv: "hash_inv ht m ls"
  shows "\<exists>st ht' m'. if_full_do_resize ht m = Some (st, ht', m') \<and> hash_inv ht' m' ls \<and>
     ents m' ls = ents m ls \<and> same_table ht ht' \<and>
     (\<forall>p. p \<notin> set ls \<longrightarrow> bkt m' p = bkt m p) \<and> dat m' = dat m \<and> dlog m' = dlog m"
proof -
  obtain t m1 where pm: "pemalloc m = (t, m1)" by (cases "pemalloc m")
  have h1: "bkt m1 = bkt m" "dat m1 = dat m" "dlog m1 = dlog m" using pemalloc_eqD [OF pm] by auto
  have inv1: "hash_inv ht m1 ls" using inv hash_inv_heap [OF h1(1,2)] by simp
  show ?thesis
  proof (cases "nNumOfElements ht > nTableSize ht \<and> nHashSizeIndex ht < nNumPrimeNumbers - 1 \<and> t \<noteq> 0")
    case False
    then show ?thesis
      using inv inv1 h1 pm by (auto simp: if_full_do_resize_def same_table_def ents_def)
  next
    case True
    let ?ht = "ht\<lparr>nTableSize := PrimeNumbers ! (nHashSizeIndex ht + 1),
                   nHashSizeIndex := nHashSizeIndex ht + 1\<rparr>"
    have s: "size_ok ?ht" using True by (auto simp: size_ok_def)
    have l: "list_ok ?ht (bkt m1) ls" and k: "keys_ok ?ht (bkt m1) (set ls)" and d: "data_ok m1 (set ls)"
      using inv1 keys_ok_hash [of ?ht ht] by (simp_all add: hash_inv_def list_ok_def)
    from php3_hash_rehash_ok [OF l s k d] obtain ht' m' where r:
      "php3_hash_rehash ?ht m1 = Some (ht', m')" "hash_inv ht' m' ls" "same_table ?ht ht'"
      "eqN (bkt m1) (bkt m')" "\<forall>p. p \<notin> set ls \<longrightarrow> bkt m' p = bkt m1 p" "dat m' = dat m1"
      "dlog m' = dlog m1" by blast
    have "if_full_do_resize ht m = Some (SUCCESS, ht', m')"
      using True pm r(1) by (simp add: if_full_do_resize_def Let_def)
    moreover have "same_table ht ht'" using r(3) by (simp add: same_table_def)
    ultimately show ?thesis using r h1 eqN_ents [OF r(4)] by (auto simp: ents_def)
  qed
qed

subsection \<open>The common end of the insertion functions\<close>

text \<open>Linking a bucket, then growing: what every insertion of a new key does.  The index forms
  also move \<open>nNextFreeElement\<close> past the new index \<open>x\<close>.\<close>

definition bump_opt :: "ulong option \<Rightarrow> hashtable \<Rightarrow> hashtable" where
  "bump_opt x ht = (case x of None \<Rightarrow> ht | Some h \<Rightarrow> bump_next_free ht h)"

lemma bump_opt_simps [simp]:
  "hash_inv (bump_opt x ht) m ls = hash_inv ht m ls"
  "pHashFunction (bump_opt x ht) = pHashFunction ht"
  "pDestructor (bump_opt x ht) = pDestructor ht"
  "persistent (bump_opt x ht) = persistent ht"
  "pInternalPointer (bump_opt x ht) = pInternalPointer ht"
  "bump_opt None ht = ht" "bump_opt (Some h) ht = bump_next_free ht h"
  by (simp_all add: bump_opt_def split: option.splits)

lemma bump_opt_next:
  "nNextFreeElement ht' = nNextFreeElement ht \<Longrightarrow>
     nNextFreeElement (bump_opt x ht') = nNextFreeElement (bump_opt x ht)"
  by (simp add: bump_opt_def split: option.splits)

lemma link_and_grow:
  assumes inv: "hash_inv ht m ls" and q: "q \<noteq> 0" "q \<notin> set ls"
    and i: "i = slot ht (bk_h b)" and ok: "bucket_ok ht b"
    and new: "hkey_of b \<notin> (\<lambda>p. hkey_of (the (bkt m p))) ` set ls"
    and dn: "data_new m (set ls) b"
  shows "\<exists>ht1 m1 st ht2 m2. hash_link ht m q b i = Some (ht1, m1) \<and>
     if_full_do_resize (bump_opt x ht1) m1 = Some (st, ht2, m2) \<and> hash_inv ht2 m2 (ls @ [q]) \<and>
     ents m2 (ls @ [q]) = ents m ls @ [ent b] \<and>
     (\<forall>p. p \<notin> insert q (set ls) \<longrightarrow> bkt m2 p = bkt m p) \<and> dat m2 = dat m \<and> dlog m2 = dlog m \<and>
     pHashFunction ht2 = pHashFunction ht \<and> nNextFreeElement ht2 = nNextFreeElement (bump_opt x ht) \<and>
     pDestructor ht2 = pDestructor ht \<and> persistent ht2 = persistent ht \<and>
     pInternalPointer ht2 = (if pInternalPointer ht = 0 then q else pInternalPointer ht)"
proof -
  from hash_link_ok [OF inv q i ok new dn] obtain ht1 m1 where l:
    "hash_link ht m q b i = Some (ht1, m1)" "hash_inv ht1 m1 (ls @ [q])"
    "ents m1 (ls @ [q]) = ents m ls @ [ent b]"
    "\<forall>p. p \<notin> insert q (set ls) \<longrightarrow> bkt m1 p = bkt m p" "dat m1 = dat m" "dlog m1 = dlog m"
    "pHashFunction ht1 = pHashFunction ht" "nNextFreeElement ht1 = nNextFreeElement ht"
    "pDestructor ht1 = pDestructor ht" "persistent ht1 = persistent ht"
    "pInternalPointer ht1 = (if pInternalPointer ht = 0 then q else pInternalPointer ht)"
    by blast
  have fi: "hash_inv (bump_opt x ht1) m1 (ls @ [q])" using l(2) by simp
  from if_full_do_resize_ok [OF fi] obtain st ht2 m2 where r:
    "if_full_do_resize (bump_opt x ht1) m1 = Some (st, ht2, m2)" "hash_inv ht2 m2 (ls @ [q])"
    "ents m2 (ls @ [q]) = ents m1 (ls @ [q])" "same_table (bump_opt x ht1) ht2"
    "\<forall>p. p \<notin> set (ls @ [q]) \<longrightarrow> bkt m2 p = bkt m1 p" "dat m2 = dat m1" "dlog m2 = dlog m1"
    by blast
  show ?thesis
    using l r bump_opt_next [OF l(8), of x]
    by (intro exI [of _ ht1] exI [of _ m1] exI [of _ st] exI [of _ ht2] exI [of _ m2])
       (simp add: same_table_def)
qed

end
