(* ===== verification/Hash_Update.thy ===== *)
theory Hash_Update
  imports Hash_Insert
begin

text \<open>
  The functional behaviour of the insertion functions on every branch: what happens to the list
  of entries, to the data cells and to the status code, for any behaviour of the allocator.
\<close>

subsection \<open>Looking an entry up\<close>

lemma map_of_ents_None:
  "map_of (ents m ls) k = None \<longleftrightarrow> (\<forall>p \<in> set ls. hkey_of (the (bkt m p)) \<noteq> k)"
  by (auto simp: map_of_eq_None_iff ents_def ent_def image_iff)

lemma map_of_ents_Some:
  assumes "inj_on (\<lambda>p. hkey_of (the (bkt m p))) (set ls)" and "p \<in> set ls"
  shows "map_of (ents m ls) (hkey_of (the (bkt m p))) =
           Some (pData (the (bkt m p)), bIsPointer (the (bkt m p)))"
  using assms
proof (induction ls)
  case Nil
  then show ?case by simp
next
  case (Cons q ls)
  show ?case
  proof (cases "p = q")
    case True
    then show ?thesis by (simp add: ent_def)
  next
    case False
    with Cons.prems have "p \<in> set ls" "hkey_of (the (bkt m p)) \<noteq> hkey_of (the (bkt m q))"
      by (auto simp: inj_on_def)
    with Cons show ?thesis by (simp add: ent_def)
  qed
qed

lemma map_of_ents_obtain:
  assumes "map_of (ents m ls) k = Some (a, o')"
  obtains p where "p \<in> set ls" "hkey_of (the (bkt m p)) = k" "pData (the (bkt m p)) = a"
    "bIsPointer (the (bkt m p)) = o'"
proof -
  from assms have "(k, a, o') \<in> set (ents m ls)" by (rule map_of_SomeD)
  then show ?thesis using that by (auto simp: ents_def ent_def)
qed

text \<open>How the three tests of the chain walks select by key.\<close>

lemma match_index_hkey: "match_index h b \<longleftrightarrow> hkey_of b = KIdx h"
  by (auto simp: match_index_def hkey_of_def split: option.splits)

lemma match_key_hkey:
  "bucket_ok ht b \<Longrightarrow> match_key (pHashFunction ht k) k b \<longleftrightarrow> hkey_of b = KStr k"
  by (auto simp: match_key_def hkey_of_def bucket_ok_def split: option.splits)

lemma bucket_ok_ls: "hash_inv ht m ls \<Longrightarrow> p \<in> set ls \<Longrightarrow> bucket_ok ht (the (bkt m p))"
  by (simp add: hash_inv_def keys_ok_def)

lemma inj_ls: "hash_inv ht m ls \<Longrightarrow> inj_on (\<lambda>p. hkey_of (the (bkt m p))) (set ls)"
  by (simp add: hash_inv_def keys_ok_def)

lemma slot_lt: "hash_inv ht m ls \<Longrightarrow> slot ht h < nTableSize ht"
  by (simp add: hash_inv_def slot_def table_size_pos)

lemma slot_arr: "hash_inv ht m ls \<Longrightarrow> slot ht h < length (arBuckets ht)"
  using slot_lt [of ht m ls h] by (simp add: hash_inv_def chains_ok_def)

text \<open>The walk for an index, or for a key, ends at the bucket with that key, or at \<open>NULL\<close>.\<close>

lemma walk_index:
  assumes inv: "hash_inv ht m ls"
  shows "find_in_chain m (match_index h) (arBuckets ht ! slot ht h) =
           Some (case filter (\<lambda>p. hkey_of (the (bkt m p)) = KIdx h) ls of [] \<Rightarrow> 0 | p # _ \<Rightarrow> p)"
proof (cases "\<exists>p \<in> set ls. hkey_of (the (bkt m p)) = KIdx h")
  case True
  then obtain p where p: "p \<in> set ls" "hkey_of (the (bkt m p)) = KIdx h" by blast
  have u: "q \<in> set ls \<Longrightarrow> hkey_of (the (bkt m q)) = KIdx h \<longleftrightarrow> q = p" for q
    using inj_ls [OF inv] p by (auto simp: inj_on_def)
  have "bk_h (the (bkt m p)) = h"
    using p(2) by (auto simp: hkey_of_def split: option.splits)
  then have s: "slot ht h = in_slot (bkt m) (nTableSize ht) p"
    by (simp add: in_slot_def slot_def)
  have "distinct ls" using inv by (simp add: hash_inv_def list_ok_def)
  then have "filter (\<lambda>p. hkey_of (the (bkt m p)) = KIdx h) ls = [p]"
    using p u by (intro filter_unique) auto
  moreover have "find_in_chain m (match_index h) (arBuckets ht ! slot ht h) = Some p"
    by (rule find_in_slot_found [OF inv p(1) s]) (simp add: match_index_hkey u)
  ultimately show ?thesis by simp
next
  case False
  then have "find_in_chain m (match_index h) (arBuckets ht ! slot ht h) = Some 0"
    by (intro find_in_slot_missing [OF inv slot_lt [OF inv]]) (simp add: match_index_hkey)
  moreover have "filter (\<lambda>p. hkey_of (the (bkt m p)) = KIdx h) ls = []"
    using False by (simp add: filter_empty_conv)
  ultimately show ?thesis by simp
qed

lemma walk_key:
  assumes inv: "hash_inv ht m ls" and h: "h = pHashFunction ht k"
  shows "find_in_chain m (match_key h k) (arBuckets ht ! slot ht h) =
           Some (case filter (\<lambda>p. hkey_of (the (bkt m p)) = KStr k) ls of [] \<Rightarrow> 0 | p # _ \<Rightarrow> p)"
proof (cases "\<exists>p \<in> set ls. hkey_of (the (bkt m p)) = KStr k")
  case True
  then obtain p where p: "p \<in> set ls" "hkey_of (the (bkt m p)) = KStr k" by blast
  have u: "q \<in> set ls \<Longrightarrow> hkey_of (the (bkt m q)) = KStr k \<longleftrightarrow> q = p" for q
    using inj_ls [OF inv] p by (auto simp: inj_on_def)
  have "bk_h (the (bkt m p)) = h"
    using p bucket_ok_ls [OF inv p(1)] h by (auto simp: hkey_of_def bucket_ok_def split: option.splits)
  then have s: "slot ht h = in_slot (bkt m) (nTableSize ht) p"
    by (simp add: in_slot_def slot_def)
  have "distinct ls" using inv by (simp add: hash_inv_def list_ok_def)
  then have "filter (\<lambda>p. hkey_of (the (bkt m p)) = KStr k) ls = [p]"
    using p u by (intro filter_unique) auto
  moreover have "find_in_chain m (match_key h k) (arBuckets ht ! slot ht h) = Some p"
    by (rule find_in_slot_found [OF inv p(1) s])
       (simp add: h match_key_hkey bucket_ok_ls [OF inv] u)
  ultimately show ?thesis by simp
next
  case False
  then have "find_in_chain m (match_key h k) (arBuckets ht ! slot ht h) = Some 0"
    by (intro find_in_slot_missing [OF inv slot_lt [OF inv]])
       (simp add: h match_key_hkey bucket_ok_ls [OF inv])
  moreover have "filter (\<lambda>p. hkey_of (the (bkt m p)) = KStr k) ls = []"
    using False by (simp add: filter_empty_conv)
  ultimately show ?thesis by simp
qed

text \<open>The bucket of a key, \<open>0\<close> when there is none.\<close>

definition bucket_of :: "'v heap \<Rightarrow> addr list \<Rightarrow> hkey \<Rightarrow> addr" where
  "bucket_of m ls k = (case filter (\<lambda>p. hkey_of (the (bkt m p)) = k) ls of [] \<Rightarrow> 0 | p # _ \<Rightarrow> p)"

lemma bucket_of_cases:
  assumes inv: "hash_inv ht m ls"
  obtains "bucket_of m ls k = 0" "map_of (ents m ls) k = None"
  | p b where "bucket_of m ls k = p" "p \<noteq> 0" "p \<in> set ls" "bkt m p = Some b" "hkey_of b = k"
      "map_of (ents m ls) k = Some (pData b, bIsPointer b)"
proof (cases "filter (\<lambda>p. hkey_of (the (bkt m p)) = k) ls")
  case Nil
  then have "map_of (ents m ls) k = None" by (auto simp: map_of_ents_None filter_empty_conv)
  with Nil show ?thesis using that(1) by (simp add: bucket_of_def)
next
  case (Cons p ps)
  then have "p \<in> set (filter (\<lambda>p. hkey_of (the (bkt m p)) = k) ls)" by simp
  then have p: "p \<in> set ls" "hkey_of (the (bkt m p)) = k" by auto
  obtain b where b: "bkt m p = Some b" using bkt_of_ls [OF inv p(1)] by blast
  have "p \<noteq> 0" using p(1) nonzero_ls [OF inv] by metis
  moreover have "map_of (ents m ls) k = Some (pData b, bIsPointer b)"
    using map_of_ents_Some [OF inj_ls [OF inv] p(1)] p(2) b by simp
  ultimately show ?thesis using that(2) [of p b] p b Cons by (simp add: bucket_of_def)
qed

subsection \<open>The representation and changes elsewhere on the heap\<close>

lemma hash_inv_cong:
  assumes inv: "hash_inv ht m ls" and b: "\<And>p. p \<in> set ls \<Longrightarrow> bkt m' p = bkt m p"
    and d: "\<And>p. p \<in> set ls \<Longrightarrow> \<not> bIsPointer (the (bkt m p)) \<Longrightarrow>
              dat m (pData (the (bkt m p))) \<noteq> None \<Longrightarrow> dat m' (pData (the (bkt m p))) \<noteq> None"
  shows "hash_inv ht m' ls"
proof -
  have L: "dseg (Lf (bkt m')) 0 ls 0 = dseg (Lf (bkt m)) 0 ls 0"
    by (rule dseg_cong) (simp add: Lf_def b)
  have S: "p \<in> set ls \<Longrightarrow> in_slot (bkt m') sz p = in_slot (bkt m) sz p" for p sz
    by (simp add: in_slot_def b)
  have C: "chains_ok (bkt m') (nTableSize ht) (arBuckets ht) (set ls)"
    unfolding chains_ok_def
  proof (intro conjI allI impI)
    show "length (arBuckets ht) = nTableSize ht" using inv by (simp add: hash_inv_def chains_ok_def)
  next
    fix i assume "i < nTableSize ht"
    then obtain c where c: "chain (Nf (bkt m)) (arBuckets ht ! i) c"
      "set c = {p \<in> set ls. in_slot (bkt m) (nTableSize ht) p = i}"
      using inv unfolding hash_inv_def chains_ok_def by blast
    have "chain (Nf (bkt m')) (arBuckets ht ! i) c"
      using c by (subst chain_cong [where N' = "Nf (bkt m)"]) (auto simp: Nf_def b)
    then show "\<exists>c. chain (Nf (bkt m')) (arBuckets ht ! i) c \<and>
                  set c = {p \<in> set ls. in_slot (bkt m') (nTableSize ht) p = i}"
      using c(2) S by auto
  qed
  have K: "keys_ok ht (bkt m') (set ls) = keys_ok ht (bkt m) (set ls)"
    unfolding keys_ok_def inj_on_def by (simp add: b)
  have D: "data_ok m' (set ls)"
    using inv d unfolding hash_inv_def data_ok_def by (auto simp: b)
  show ?thesis using inv L C K D by (simp add: hash_inv_def list_ok_def)
qed

lemma fresh_not_ls: "hash_inv ht m ls \<Longrightarrow> bkt m q = None \<Longrightarrow> q \<notin> set ls"
  using bkt_of_ls by fastforce

lemma fresh_not_owned:
  "hash_inv ht m ls \<Longrightarrow> dat m d = None \<Longrightarrow> p \<in> set ls \<Longrightarrow> pData (the (bkt m p)) = d \<Longrightarrow>
     bIsPointer (the (bkt m p))"
  by (auto simp: hash_inv_def data_ok_def)

text \<open>A bucket that was allocated and given back leaves the bucket heap as it was.\<close>

lemma free_after_alloc: "B q = None \<Longrightarrow> B(q := None) = B"
  by (simp add: fun_eq_iff)

subsection \<open>Overwriting data\<close>

lemma overwrite_data_ok:
  assumes inv: "hash_inv ht m ls" and p: "p \<in> set ls" "bkt m p = Some b"
    and r: "dat m (pData b) \<noteq> None"
  shows "\<exists>m'. overwrite_data ht m p v = Some (pData b, m') \<and> hash_inv ht m' ls \<and>
     bkt m' = bkt m \<and> dat m' = (dat m)(pData b \<mapsto> v) \<and> mem_supply m' = mem_supply m \<and>
     dlog m' = dlog m @ (if pDestructor ht then [pData b] else [])"
proof -
  let ?m = "set_dat (call_destructor ht m (pData b)) (pData b) v"
  have "overwrite_data ht m p v = Some (pData b, ?m)"
    using p r by (auto simp: overwrite_data_def)
  moreover have "hash_inv ht ?m ls" by (rule hash_inv_cong [OF inv]) auto
  ultimately show ?thesis by auto
qed

subsection \<open>The specification of an insertion\<close>

text \<open>
  \<open>insert_spec\<close>: the entries, cells and status after storing \<open>v\<close> under \<open>k\<close>.  An existing entry
  keeps its place and its cell, which is overwritten, unless the flag forbids it; a new entry
  goes to the end with a cell of its own; when memory runs out nothing changes.
\<close>

definition insert_spec ::
  "bool \<Rightarrow> hkey \<Rightarrow> 'v \<Rightarrow> 'v heap \<Rightarrow> addr list \<Rightarrow> status \<Rightarrow> addr \<Rightarrow> 'v heap \<Rightarrow> addr list \<Rightarrow> bool" where
  "insert_spec overwrite k v m ls st d m' ls' \<longleftrightarrow>
     (case map_of (ents m ls) k of
        Some (a, _) \<Rightarrow>
          ls' = ls \<and> bkt m' = bkt m \<and>
          (if overwrite then st = SUCCESS \<and> d = a \<and> dat m' = (dat m)(a \<mapsto> v)
           else st = FAILURE \<and> m' = m)
      | None \<Rightarrow>
          st = SUCCESS \<and> d \<noteq> 0 \<and> dat m d = None \<and> dat m' = (dat m)(d \<mapsto> v) \<and>
            (\<exists>q. q \<notin> set ls \<and> bkt m q = None \<and> ls' = ls @ [q] \<and>
                 ents m' ls' = ents m ls @ [(k, d, False)] \<and>
                 (\<forall>p. p \<notin> set ls' \<longrightarrow> bkt m' p = bkt m p))
          \<or> st = FAILURE \<and> ls' = ls \<and> bkt m' = bkt m \<and> dat m' = dat m)"

text \<open>The first \<open>n\<close> allocations succeed.\<close>

definition allocs_ok :: "'v heap \<Rightarrow> nat \<Rightarrow> bool" where
  "allocs_ok m n \<longleftrightarrow>
     n \<le> length (mem_supply m) \<and> distinct (take n (mem_supply m)) \<and>
     (\<forall>a \<in> set (take n (mem_supply m)). a \<noteq> 0 \<and> bkt m a = None \<and> dat m a = None)"

lemma allocs_ok_pemalloc:
  assumes "allocs_ok m (Suc n)"
  shows "\<exists>a m'. pemalloc m = (a, m') \<and> a \<noteq> 0 \<and> bkt m a = None \<and> dat m a = None \<and>
           m' = m\<lparr>mem_supply := tl (mem_supply m)\<rparr> \<and> allocs_ok m' n \<and>
           a \<notin> set (take n (mem_supply m'))"
proof (cases "mem_supply m")
  case Nil
  then show ?thesis using assms by (simp add: allocs_ok_def)
next
  case (Cons a as)
  then show ?thesis using assms by (auto simp: allocs_ok_def pemalloc_def)
qed

lemma allocs_ok_set_bkt: "allocs_ok m n \<Longrightarrow> a \<notin> set (take n (mem_supply m)) \<Longrightarrow> allocs_ok (set_bkt m a b) n"
  by (auto simp: allocs_ok_def)

end
