(* ===== verification/Hash_Store.thy ===== *)
theory Hash_Store
  imports Hash_Update
begin

text \<open>
  \<open>_php3_hash_index_update_or_next_insert\<close> and \<open>_php3_hash_add_or_update\<close> against
  \<open>insert_spec\<close>, and the lookup functions against the list of entries.
\<close>

subsection \<open>A new entry with a cell of its own\<close>

lemma insert_new:
  assumes inv: "hash_inv ht m ls" and none: "map_of (ents m ls) (hkey_of b) = None"
    and q: "q \<noteq> 0" "bkt m q = None" and d: "d \<noteq> 0" "dat m3 d = None"
    and m3: "bkt m3 = (bkt m)(q \<mapsto> blank_bucket)" "dat m3 = dat m" "dlog m3 = dlog m"
    and b: "bucket_ok ht b" "pData b = d" "\<not> bIsPointer b"
  shows "\<exists>ht1 m1 st ht2 m2. hash_link ht (set_dat m3 d v) q b (slot ht (bk_h b)) = Some (ht1, m1) \<and>
     if_full_do_resize (bump_opt x ht1) m1 = Some (st, ht2, m2) \<and>
     hash_inv ht2 m2 (ls @ [q]) \<and> insert_spec ow (hkey_of b) v m ls SUCCESS d m2 (ls @ [q]) \<and>
     dlog m2 = dlog m \<and> pHashFunction ht2 = pHashFunction ht \<and>
     nNextFreeElement ht2 = nNextFreeElement (bump_opt x ht) \<and>
     pDestructor ht2 = pDestructor ht \<and> persistent ht2 = persistent ht \<and>
     pInternalPointer ht2 = (if pInternalPointer ht = 0 then q else pInternalPointer ht)"
proof -
  let ?m = "set_dat m3 d v"
  have ql: "q \<notin> set ls" using fresh_not_ls [OF inv q(2)] .
  have old: "p \<in> set ls \<Longrightarrow> bkt m3 p = bkt m p" for p using ql by (auto simp: m3)
  have inv': "hash_inv ht ?m ls" by (rule hash_inv_cong [OF inv]) (auto simp: m3 ql)
  have e: "ents ?m ls = ents m ls" by (rule ents_cong) (simp add: old)
  have new: "hkey_of b \<notin> (\<lambda>p. hkey_of (the (bkt ?m p))) ` set ls"
    using none unfolding map_of_ents_None by (auto simp: old)
  have dn: "data_new ?m (set ls) b"
    using d fresh_not_owned [OF inv] m3(2) b by (auto simp: data_new_def old)
  have en: "ent b = (hkey_of b, d, False)" using b by (simp add: ent_def)
  from link_and_grow [OF inv' q(1) ql refl b(1) new dn, of x] obtain ht1 m1 st ht2 m2 where r:
    "hash_link ht ?m q b (slot ht (bk_h b)) = Some (ht1, m1)"
    "if_full_do_resize (bump_opt x ht1) m1 = Some (st, ht2, m2)"
    "hash_inv ht2 m2 (ls @ [q])" "ents m2 (ls @ [q]) = ents m ls @ [(hkey_of b, d, False)]"
    "\<forall>p. p \<notin> insert q (set ls) \<longrightarrow> bkt m2 p = bkt ?m p" "dat m2 = dat ?m" "dlog m2 = dlog ?m"
    "pHashFunction ht2 = pHashFunction ht" "nNextFreeElement ht2 = nNextFreeElement (bump_opt x ht)"
    "pDestructor ht2 = pDestructor ht" "persistent ht2 = persistent ht"
    "pInternalPointer ht2 = (if pInternalPointer ht = 0 then q else pInternalPointer ht)"
    unfolding e en by blast
  have "insert_spec ow (hkey_of b) v m ls SUCCESS d m2 (ls @ [q])"
    using none d q ql r(4,5,6) by (simp add: insert_spec_def m3)
  then show ?thesis
    using r m3(3)
    by (intro exI [of _ ht1] exI [of _ m1] exI [of _ st] exI [of _ ht2] exI [of _ m2]) simp
qed

subsection \<open>Storing under an index\<close>

text \<open>Whatever the allocator does, storing under an index returns, keeps the representation and
  meets its specification; a new entry is stored exactly when the allocator has its first two blocks, the
  bucket and the cell of the data or the copy of the key.\<close>

definition entry_alloc_ok :: "'v heap \<Rightarrow> bool" where
  "entry_alloc_ok m = (let (q, m1) = pemalloc m in q \<noteq> 0 \<and> fst (pemalloc (set_bkt m1 q blank_bucket)) \<noteq> 0)"

definition store_result ::
  "bool \<Rightarrow> hkey \<Rightarrow> 'v \<Rightarrow> hashtable \<Rightarrow> 'v heap \<Rightarrow> addr list \<Rightarrow>
   (status \<times> addr \<times> hashtable \<times> 'v heap) option \<Rightarrow> bool" where
  "store_result ow k v ht m ls r \<longleftrightarrow>
     (\<exists>st d ht' m' ls'. r = Some (st, d, ht', m') \<and> hash_inv ht' m' ls' \<and>
        insert_spec ow k v m ls st d m' ls' \<and>
        (map_of (ents m ls) k = None \<longrightarrow> (st = SUCCESS \<longleftrightarrow> entry_alloc_ok m)) \<and>
        pHashFunction ht' = pHashFunction ht \<and> pDestructor ht' = pDestructor ht \<and>
        persistent ht' = persistent ht \<and>
        nNextFreeElement ht' =
          (case k of KIdx h \<Rightarrow> if st = SUCCESS then nNextFreeElement (bump_next_free ht h)
                              else nNextFreeElement ht
           | KStr _ \<Rightarrow> nNextFreeElement ht))"

lemma index_store_result:
  fixes v :: 'v
  assumes inv: "hash_inv ht m ls"
    and h: "h = (if flag = HASH_NEXT_INSERT then nNextFreeElement ht else h0)"
    and r: "\<And>a o'. map_of (ents m ls) (KIdx h) = Some (a, o') \<Longrightarrow> flag = HASH_UPDATE \<Longrightarrow> dat m a \<noteq> None"
  shows "store_result (flag = HASH_UPDATE) (KIdx h) v ht m ls
           (php3_hash_index_update_or_next_insert ht m h0 v flag)"
proof -
  let ?op = "php3_hash_index_update_or_next_insert ht m h0 v flag"
  have front: "arr_get (arBuckets ht) (slot ht h) = Some (arBuckets ht ! slot ht h)"
    using slot_arr [OF inv] by simp
  have walk: "find_in_chain m (match_index h) (arBuckets ht ! slot ht h) = Some (bucket_of m ls (KIdx h))"
    using walk_index [OF inv] by (simp add: bucket_of_def)
  note op = php3_hash_index_update_or_next_insert_def [of ht m h0 v flag, folded h, unfolded Let_def front]
  show ?thesis
  proof (cases rule: bucket_of_cases [OF inv, of "KIdx h"])
    case (2 p b)
    note [simp] = 2(6)
    show ?thesis
    proof (cases "flag = HASH_UPDATE")
      case False
      then have "flag = HASH_NEXT_INSERT \<or> flag = HASH_ADD" by (cases flag) auto
      then have "?op = Some (FAILURE, 0, ht, m)" using op walk 2 by simp
      then show ?thesis using inv False by (simp add: store_result_def insert_spec_def)
    next
      case True
      from r [OF 2(6) True] overwrite_data_ok [OF inv 2(3,4)] obtain m' where m':
        "overwrite_data ht m p v = Some (pData b, m')" "hash_inv ht m' ls" "bkt m' = bkt m"
        "dat m' = (dat m)(pData b \<mapsto> v)" by metis
      have "?op = Some (SUCCESS, pData b, bump_next_free ht h, m')"
        using op walk 2 True m'(1) by simp
      then show ?thesis using m' True by (simp add: store_result_def insert_spec_def)
    qed
  next
    case 1
    obtain q m1 where q: "pemalloc m = (q, m1)" by (cases "pemalloc m")
    note m1 = pemalloc_eqD [OF q]
    obtain d m3 where d: "pemalloc (set_bkt m1 q blank_bucket) = (d, m3)"
      by (cases "pemalloc (set_bkt m1 q blank_bucket)")
    note m3 = pemalloc_eqD [OF d]
    have ok: "entry_alloc_ok m \<longleftrightarrow> q \<noteq> 0 \<and> d \<noteq> 0" by (simp add: entry_alloc_ok_def q d)
    consider "q = 0" | "q \<noteq> 0" "d = 0" | "q \<noteq> 0" "d \<noteq> 0" by blast
    then show ?thesis
    proof cases
      case 1
      then have "?op = Some (FAILURE, 0, ht, m1)"
        using op walk \<open>bucket_of m ls (KIdx h) = 0\<close> q by simp
      moreover have "hash_inv ht m1 ls" using inv m1 hash_inv_heap [of m1 m] by simp
      ultimately show ?thesis
        using \<open>map_of (ents m ls) (KIdx h) = None\<close> m1 1 by (simp add: store_result_def insert_spec_def ok)
    next
      case 2
      have fq: "bkt m q = None" using pemalloc_fresh [OF q] 2 by simp
      define m4 where "m4 = m3\<lparr>bkt := (bkt m3)(q := None)\<rparr>"
      have m4: "free_bkt m3 q = Some m4" "bkt m4 = bkt m" "dat m4 = dat m"
        using m1 m3 fq by (simp_all add: m4_def free_bkt_def free_after_alloc)
      have "?op = Some (FAILURE, 0, ht, m4)"
        using op walk \<open>bucket_of m ls (KIdx h) = 0\<close> q d 2 m4(1) by simp
      moreover have "hash_inv ht m4 ls" using inv m4 hash_inv_heap [of m4 m] by simp
      ultimately show ?thesis
        using \<open>map_of (ents m ls) (KIdx h) = None\<close> m4 2 by (simp add: store_result_def insert_spec_def ok)
    next
      case 3
      have fq: "bkt m q = None" using pemalloc_fresh [OF q] 3 by simp
      have fd: "dat m3 d = None" using pemalloc_fresh [OF d] 3 m3 by simp
      have hp: "bkt m3 = (bkt m)(q \<mapsto> blank_bucket)" "dat m3 = dat m" "dlog m3 = dlog m"
        using m1 m3 by auto
      let ?b = "blank_bucket\<lparr>arKey := None, nKeyLength := 0, bk_h := h, pData := d, bIsPointer := False\<rparr>"
      have b: "hkey_of ?b = KIdx h" "bk_h ?b = h" "bucket_ok ht ?b" "pData ?b = d" "\<not> bIsPointer ?b"
        by (simp_all add: hkey_of_def bucket_ok_def)
      have none: "map_of (ents m ls) (hkey_of ?b) = None"
        using \<open>map_of (ents m ls) (KIdx h) = None\<close> by (simp only: b(1))
      from insert_new [OF inv none 3(1) fq 3(2) fd hp b(3-5), of v "Some h" "flag = HASH_UPDATE"]
      obtain ht1 m4 st ht2 m5 where n:
        "hash_link ht (set_dat m3 d v) q ?b (slot ht h) = Some (ht1, m4)"
        "if_full_do_resize (bump_next_free ht1 h) m4 = Some (st, ht2, m5)"
        "hash_inv ht2 m5 (ls @ [q])"
        "insert_spec (flag = HASH_UPDATE) (KIdx h) v m ls SUCCESS d m5 (ls @ [q])"
        "pHashFunction ht2 = pHashFunction ht"
        "nNextFreeElement ht2 = nNextFreeElement (bump_next_free ht h)"
        "pDestructor ht2 = pDestructor ht" "persistent ht2 = persistent ht"
        unfolding b(1,2) bump_opt_simps by blast
      have "?op = Some (SUCCESS, d, ht2, m5)"
        using op walk \<open>bucket_of m ls (KIdx h) = 0\<close> q d 3 n(1,2) by simp
      then show ?thesis using n 3 by (auto simp: store_result_def ok)
    qed
  qed
qed

subsection \<open>Storing under a string key\<close>

text \<open>The key an operation on strings works with: numeric strings are indices.\<close>

definition ckey :: "string \<Rightarrow> hkey" where
  "ckey key = (case handle_numeric key of Some idx \<Rightarrow> KIdx idx | None \<Rightarrow> KStr key)"

text \<open>
  When bucket and key copy of a new entry are allocated, its data cell is too.  This is what the
  error path of the code needs: there it reads the bucket that it has just freed.
\<close>

definition data_alloc_ok :: "'v heap \<Rightarrow> bool" where
  "data_alloc_ok m =
     (let (q, m1) = pemalloc m; (k, m3) = pemalloc (set_bkt m1 q blank_bucket)
      in q \<noteq> 0 \<and> k \<noteq> 0 \<longrightarrow> fst (pemalloc m3) \<noteq> 0)"

lemma key_store_result:
  fixes v :: 'v
  assumes inv: "hash_inv ht m ls" and ne: "key \<noteq> []" and nn: "handle_numeric key = None"
    and r: "\<And>a o'. map_of (ents m ls) (KStr key) = Some (a, o') \<Longrightarrow> flag \<noteq> HASH_ADD \<Longrightarrow> dat m a \<noteq> None"
    and da: "map_of (ents m ls) (KStr key) = None \<Longrightarrow> data_alloc_ok m"
  shows "store_result (flag \<noteq> HASH_ADD) (KStr key) v ht m ls (php3_hash_add_or_update ht m key v flag)"
proof -
  let ?op = "php3_hash_add_or_update ht m key v flag"
  define h where "h = pHashFunction ht key"
  have front: "arr_get (arBuckets ht) (slot ht h) = Some (arBuckets ht ! slot ht h)"
    using slot_arr [OF inv] by simp
  have walk: "find_in_chain m (match_key h key) (arBuckets ht ! slot ht h) = Some (bucket_of m ls (KStr key))"
    using walk_key [OF inv h_def] by (simp add: bucket_of_def)
  note op = php3_hash_add_or_update_def [of ht m key v flag, folded h_def, unfolded Let_def front nn]
  show ?thesis
  proof (cases rule: bucket_of_cases [OF inv, of "KStr key"])
    case (2 p b)
    note [simp] = 2(6)
    show ?thesis
    proof (cases "flag = HASH_ADD")
      case True
      then have "?op = Some (FAILURE, 0, ht, m)" using op walk 2 ne by simp
      then show ?thesis using inv True by (simp add: store_result_def insert_spec_def)
    next
      case False
      from r [OF 2(6) False] overwrite_data_ok [OF inv 2(3,4)] obtain m' where m':
        "overwrite_data ht m p v = Some (pData b, m')" "hash_inv ht m' ls" "bkt m' = bkt m"
        "dat m' = (dat m)(pData b \<mapsto> v)" by metis
      have "?op = Some (SUCCESS, pData b, ht, m')"
        using op walk 2 False m'(1) ne by simp
      then show ?thesis using m' False by (simp add: store_result_def insert_spec_def)
    qed
  next
    case 1
    note none = \<open>bucket_of m ls (KStr key) = 0\<close> \<open>map_of (ents m ls) (KStr key) = None\<close>
    obtain q m1 where q: "pemalloc m = (q, m1)" by (cases "pemalloc m")
    note m1 = pemalloc_eqD [OF q]
    obtain k m3 where k: "pemalloc (set_bkt m1 q blank_bucket) = (k, m3)"
      by (cases "pemalloc (set_bkt m1 q blank_bucket)")
    note m3 = pemalloc_eqD [OF k]
    obtain d m4 where d: "pemalloc m3 = (d, m4)" by (cases "pemalloc m3")
    note m4 = pemalloc_eqD [OF d]
    have ok: "entry_alloc_ok m \<longleftrightarrow> q \<noteq> 0 \<and> k \<noteq> 0" by (simp add: entry_alloc_ok_def q k)
    have dok: "q \<noteq> 0 \<Longrightarrow> k \<noteq> 0 \<Longrightarrow> d \<noteq> 0"
      using da [OF none(2)] by (simp add: data_alloc_ok_def q k d)
    consider "q = 0" | "q \<noteq> 0" "k = 0" | "q \<noteq> 0" "k \<noteq> 0" "d \<noteq> 0" using dok by blast
    then show ?thesis
    proof cases
      case 1
      then have "?op = Some (FAILURE, 0, ht, m1)" using op walk none q ne by simp
      moreover have "hash_inv ht m1 ls" using inv m1 hash_inv_heap [of m1 m] by simp
      ultimately show ?thesis using none m1 1 by (simp add: store_result_def insert_spec_def ok)
    next
      case 2
      have fq: "bkt m q = None" using pemalloc_fresh [OF q] 2 by simp
      define m5 where "m5 = m3\<lparr>bkt := (bkt m3)(q := None)\<rparr>"
      have m5: "free_bkt m3 q = Some m5" "bkt m5 = bkt m" "dat m5 = dat m"
        using m1 m3 fq by (simp_all add: m5_def free_bkt_def free_after_alloc)
      have "?op = Some (FAILURE, 0, ht, m5)" using op walk none q k 2 m5(1) ne by simp
      moreover have "hash_inv ht m5 ls" using inv m5 hash_inv_heap [of m5 m] by simp
      ultimately show ?thesis using none m5 2 by (simp add: store_result_def insert_spec_def ok)
    next
      case 3
      have fq: "bkt m q = None" using pemalloc_fresh [OF q] 3 by simp
      have fd: "dat m4 d = None" using pemalloc_fresh [OF d] 3 m4 by simp
      have hp: "bkt m4 = (bkt m)(q \<mapsto> blank_bucket)" "dat m4 = dat m" "dlog m4 = dlog m"
        using m1 m3 m4 by auto
      let ?b = "blank_bucket\<lparr>arKey := Some key, nKeyLength := length key, bk_h := h, pData := d,
                  bIsPointer := False\<rparr>"
      have b: "hkey_of ?b = KStr key" "bk_h ?b = h" "bucket_ok ht ?b" "pData ?b = d" "\<not> bIsPointer ?b"
        using ne nn by (simp_all add: hkey_of_def bucket_ok_def h_def)
      have none': "map_of (ents m ls) (hkey_of ?b) = None" using none(2) by (simp only: b(1))
      from insert_new [OF inv none' 3(1) fq 3(3) fd hp b(3-5), of v None "flag \<noteq> HASH_ADD"]
      obtain ht1 m5 st ht2 m6 where n:
        "hash_link ht (set_dat m4 d v) q ?b (slot ht h) = Some (ht1, m5)"
        "if_full_do_resize ht1 m5 = Some (st, ht2, m6)"
        "hash_inv ht2 m6 (ls @ [q])"
        "insert_spec (flag \<noteq> HASH_ADD) (KStr key) v m ls SUCCESS d m6 (ls @ [q])"
        "pHashFunction ht2 = pHashFunction ht" "nNextFreeElement ht2 = nNextFreeElement ht"
        "pDestructor ht2 = pDestructor ht" "persistent ht2 = persistent ht"
        unfolding b(1,2) bump_opt_simps by blast
      have "?op = Some (SUCCESS, d, ht2, m6)" using op walk none q k d 3 n(1,2) ne by simp
      then show ?thesis using n 3 by (auto simp: store_result_def ok)
    qed
  qed
qed

text \<open>
  The error path: with bucket and key copy allocated and no memory for the data, the code frees
  the bucket and then reads the key pointer out of it.
\<close>

lemma key_store_use_after_free:
  assumes inv: "hash_inv ht m ls" and ne: "key \<noteq> []" and nn: "handle_numeric key = None"
    and none: "map_of (ents m ls) (KStr key) = None" and da: "\<not> data_alloc_ok m"
  shows "php3_hash_add_or_update ht m key v flag = None"
proof -
  define h where "h = pHashFunction ht key"
  have front: "arr_get (arBuckets ht) (slot ht h) = Some (arBuckets ht ! slot ht h)"
    using slot_arr [OF inv] by simp
  have "bucket_of m ls (KStr key) = 0"
    using none by (cases rule: bucket_of_cases [OF inv, of "KStr key"]) auto
  then have walk: "find_in_chain m (match_key h key) (arBuckets ht ! slot ht h) = Some 0"
    using walk_key [OF inv h_def] by (simp add: bucket_of_def)
  obtain q m1 where q: "pemalloc m = (q, m1)" by (cases "pemalloc m")
  obtain k m3 where k: "pemalloc (set_bkt m1 q blank_bucket) = (k, m3)"
    by (cases "pemalloc (set_bkt m1 q blank_bucket)")
  obtain d m4 where d: "pemalloc m3 = (d, m4)" by (cases "pemalloc m3")
  have z: "q \<noteq> 0" "k \<noteq> 0" "d = 0" using da by (auto simp: data_alloc_ok_def q k d)
  have "free_bkt m4 q = None \<or> (\<exists>m5. free_bkt m4 q = Some m5 \<and> bkt m5 q = None)"
    by (auto simp: free_bkt_def)
  then show ?thesis
    using php3_hash_add_or_update_def [of ht m key v flag, folded h_def] ne nn front walk q k d z
    by (auto simp: Let_def)
qed

subsection \<open>Lookup\<close>

definition find_spec :: "entry list \<Rightarrow> hkey \<Rightarrow> status \<times> addr" where
  "find_spec es k = (case map_of es k of None \<Rightarrow> (FAILURE, 0) | Some (a, _) \<Rightarrow> (SUCCESS, a))"

lemma lookup_index_eq: "hash_inv ht m ls \<Longrightarrow> lookup_index ht m h = Some (bucket_of m ls (KIdx h))"
  using walk_index [of ht m ls h] slot_arr [of ht m ls h] by (simp add: lookup_index_def bucket_of_def)

lemma lookup_key_eq: "hash_inv ht m ls \<Longrightarrow> lookup_key ht m key = Some (bucket_of m ls (KStr key))"
  using walk_key [of ht m ls "pHashFunction ht key" key] slot_arr [of ht m ls "pHashFunction ht key"]
  by (simp add: lookup_key_def bucket_of_def)

lemma data_of_bucket:
  assumes inv: "hash_inv ht m ls"
  shows "data_of m (bucket_of m ls k) = Some (find_spec (ents m ls) k)"
  by (cases rule: bucket_of_cases [OF inv, of k]) (simp_all add: data_of_def find_spec_def)

lemma find_correct:
  assumes inv: "hash_inv ht m ls"
  shows "php3_hash_index_find ht m h = Some (find_spec (ents m ls) (KIdx h))"
    and "php3_hash_find ht m key = Some (find_spec (ents m ls) (ckey key))"
  using data_of_bucket [OF inv]
  by (simp_all add: php3_hash_index_find_def php3_hash_find_def ckey_def lookup_index_eq [OF inv]
        lookup_key_eq [OF inv] split: option.splits)

lemma bucket_of_zero: "hash_inv ht m ls \<Longrightarrow> (bucket_of m ls k \<noteq> 0) = (map_of (ents m ls) k \<noteq> None)"
  by (rule bucket_of_cases [of ht m ls k]) auto

lemma exists_correct:
  assumes inv: "hash_inv ht m ls"
  shows "php3_hash_index_exists ht m h = Some (map_of (ents m ls) (KIdx h) \<noteq> None)"
    and "php3_hash_exists ht m key = Some (map_of (ents m ls) (ckey key) \<noteq> None)"
  using bucket_of_zero [OF inv]
  by (simp_all add: php3_hash_index_exists_def php3_hash_exists_def ckey_def
        lookup_index_eq [OF inv] lookup_key_eq [OF inv] split: option.splits)

end
