(* ===== verification/Hash_Delete.thy ===== *)
theory Hash_Delete
  imports Hash_Store
begin

text \<open>
  Deletion: taking a bucket out of its chain and out of the list, releasing it, and what the
  deletion functions do to the list of entries.
\<close>

subsection \<open>Cutting an element out of a linked list\<close>

lemma chain_cut:
  assumes "chain N x (pre @ p # post)" and "pre \<noteq> []" and "N p = Some n"
  shows "chain (N(last pre \<mapsto> n)) x (pre @ post)"
  using assms
proof (induction pre arbitrary: x)
  case Nil
  then show ?case by simp
next
  case (Cons y pre)
  have di: "distinct ((y # pre) @ p # post)" by (rule chain_distinct [OF Cons.prems(1)])
  from Cons.prems(1) obtain r where y: "x = y" "y \<noteq> 0" "N y = Some r" "chain N r (pre @ p # post)"
    by auto
  show ?case
  proof (cases "pre = []")
    case True
    with y(4) Cons.prems(3) have "chain N n post" by auto
    then have "chain (N(y \<mapsto> n)) n post" using di by (subst chain_upd_other) auto
    then show ?thesis using True y by (simp add: fun_upd_same del: fun_upd_apply)
  next
    case False
    have "chain (N(last pre \<mapsto> n)) r (pre @ post)" by (rule Cons.IH [OF y(4) False Cons.prems(3)])
    moreover have "last pre \<noteq> y" using di False last_in_set [of pre] by auto
    moreover from this have "(N(last pre \<mapsto> n)) y = Some r" using y(3) by simp
    ultimately show ?thesis using y False by (simp del: fun_upd_apply)
  qed
qed

subsection \<open>Out of the chain\<close>

lemma unlink_chain_ok:
  assumes ch: "chains_ok (bkt m) sz (arBuckets ht) A" and i: "i < sz"
    and c: "chain (Nf (bkt m)) (arBuckets ht ! i) (pre @ p # post)"
    and sc: "set (pre @ p # post) = {x \<in> A. in_slot (bkt m) sz x = i}" and b: "bkt m p = Some b"
  shows "\<exists>arr1 m1. unlink_chain ht m (last0 pre) p i = Some (ht\<lparr>arBuckets := arr1\<rparr>, m1) \<and>
     chains_ok (bkt m1) sz arr1 (A - {p}) \<and> eqN (bkt m) (bkt m1) \<and>
     (\<forall>x. x \<notin> set pre \<longrightarrow> bkt m1 x = bkt m x) \<and>
     dat m1 = dat m \<and> mem_supply m1 = mem_supply m \<and> dlog m1 = dlog m"
proof (cases "pre = []")
  case True
  let ?arr = "(arBuckets ht)[i := pNext b]"
  have il: "i < length (arBuckets ht)" using ch i by (simp add: chains_ok_def)
  have di: "distinct (p # post)" using chain_distinct [OF c] True by simp
  have "unlink_chain ht m (last0 pre) p i = Some (ht\<lparr>arBuckets := ?arr\<rparr>, m)"
    using True c b il by (auto simp: unlink_chain_def)
  moreover have "chains_ok (bkt m) sz ?arr (A - {p})"
    unfolding chains_ok_def
  proof (intro conjI allI impI)
    show "length ?arr = sz" using ch by (simp add: chains_ok_def)
  next
    fix j assume j: "j < sz"
    show "\<exists>c. chain (Nf (bkt m)) (?arr ! j) c \<and> set c = {x \<in> A - {p}. in_slot (bkt m) sz x = j}"
    proof (cases "j = i")
      case True
      have "chain (Nf (bkt m)) (?arr ! j) post"
        using True c b il \<open>pre = []\<close> by (auto simp: Nf_def)
      moreover have "set post = {x \<in> A - {p}. in_slot (bkt m) sz x = j}"
        using True sc di \<open>pre = []\<close> by auto
      ultimately show ?thesis by blast
    next
      case False
      obtain c' where "chain (Nf (bkt m)) (arBuckets ht ! j) c'"
        "set c' = {x \<in> A. in_slot (bkt m) sz x = j}"
        using ch j unfolding chains_ok_def by blast
      moreover have "in_slot (bkt m) sz p = i" using sc by auto
      ultimately show ?thesis using False by (intro exI [of _ c']) auto
    qed
  qed
  ultimately show ?thesis by auto
next
  case False
  let ?t = "last0 pre"
  have tp: "?t \<in> set pre" using False by (rule last0_in_set)
  have di: "distinct (pre @ p # post)" by (rule chain_distinct [OF c])
  have il: "i < length (arBuckets ht)" using ch i by (simp add: chains_ok_def)
  have "\<exists>tb. bkt m ?t = Some tb"
  proof -
    have "\<exists>q. Nf (bkt m) ?t = Some q"
    proof -
      have "\<forall>y. chain (Nf (bkt m)) y (pre @ p # post) \<longrightarrow> (\<exists>q. Nf (bkt m) ?t = Some q)"
        using tp by (induction pre) auto
      with c show ?thesis by blast
    qed
    then show ?thesis using Nf_SomeD by blast
  qed
  then obtain tb where tb: "bkt m ?t = Some tb" by blast
  let ?m = "set_bkt m ?t (tb\<lparr>pNext := pNext b\<rparr>)"
  have pf: "p \<noteq> arBuckets ht ! i"
    using c di False by (cases pre) auto
  have run: "unlink_chain ht m ?t p i = Some (ht\<lparr>arBuckets := arBuckets ht\<rparr>, ?m)"
    using b il pf tb by (simp add: unlink_chain_def)
  have e: "eqN (bkt m) (bkt ?m)" using tb by (simp add: eqN_upd)
  have cut: "chain (Nf (bkt ?m)) (arBuckets ht ! i) (pre @ post)"
    using chain_cut [OF c False] b False by (simp add: Nf_def last0_def)
  have ti: "in_slot (bkt m) sz ?t = i" using tp sc by auto
  have "chains_ok (bkt ?m) sz (arBuckets ht) (A - {p})"
    unfolding chains_ok_def
  proof (intro conjI allI impI)
    show "length (arBuckets ht) = sz" using ch by (simp add: chains_ok_def)
  next
    fix j assume j: "j < sz"
    show "\<exists>c. chain (Nf (bkt ?m)) (arBuckets ht ! j) c \<and> set c = {x \<in> A - {p}. in_slot (bkt ?m) sz x = j}"
    proof (cases "j = i")
      case True
      have "set (pre @ post) = {x \<in> A - {p}. in_slot (bkt ?m) sz x = j}"
        using True sc di eqN_slot [OF e] by auto
      then show ?thesis using cut True by blast
    next
      case False
      obtain c' where c': "chain (Nf (bkt m)) (arBuckets ht ! j) c'"
        "set c' = {x \<in> A. in_slot (bkt m) sz x = j}"
        using ch j unfolding chains_ok_def by blast
      have "?t \<notin> set c'" using c'(2) ti False by auto
      then have "chain (Nf (bkt ?m)) (arBuckets ht ! j) c'" using c'(1) by (simp add: chain_upd_other)
      moreover have "in_slot (bkt m) sz p = i" using sc by auto
      ultimately show ?thesis using False c'(2) eqN_slot [OF e] by (intro exI [of _ c']) auto
    qed
  qed
  then show ?thesis using run e tp by (intro exI [of _ "arBuckets ht"] exI [of _ ?m]) auto
qed

subsection \<open>Out of the list\<close>

lemma unlink_list_ok:
  assumes ds: "dseg (Lf (bkt m)) 0 (xs @ p # ys) 0" and di: "distinct (xs @ p # ys)"
    and hd: "pListHead ht = hd0 (xs @ p # ys)" and tl: "pListTail ht = last0 (xs @ p # ys)"
  shows "\<exists>m2. unlink_list ht m p =
       Some (ht\<lparr>pListHead := hd0 (xs @ ys), pListTail := last0 (xs @ ys)\<rparr>, m2) \<and>
     dseg (Lf (bkt m2)) 0 (xs @ ys) 0 \<and> eqL (bkt m) (bkt m2) \<and> bkt m2 p = bkt m p \<and>
     (\<forall>x. x \<notin> set (xs @ ys) \<longrightarrow> bkt m2 x = bkt m x) \<and>
     (\<exists>b. bkt m p = Some b \<and> pListNext b = hd0 ys) \<and>
     dat m2 = dat m \<and> mem_supply m2 = mem_supply m \<and> dlog m2 = dlog m"
proof -
  have z: "0 \<notin> set (xs @ p # ys)" using dseg_nonzero [OF ds] .
  have "dseg (Lf (bkt m)) 0 xs p" and pL: "Lf (bkt m) p = Some (last0 xs, hd0 ys)"
    and "dseg (Lf (bkt m)) p ys 0"
    using ds by (auto simp: dseg_append last0_def hd0_append)
  note parts = this
  obtain b where b: "bkt m p = Some b" "pListLast b = last0 xs" "pListNext b = hd0 ys"
    using Lf_SomeD [OF pL] by blast
  define m1 where "m1 = (if xs = [] then m
     else set_bkt m (last0 xs) ((the (bkt m (last0 xs)))\<lparr>pListNext := hd0 ys\<rparr>))"
  define m2 where "m2 = (if ys = [] then m1
     else set_bkt m1 (hd0 ys) ((the (bkt m1 (hd0 ys)))\<lparr>pListLast := last0 xs\<rparr>))"
  have lx: "xs \<noteq> [] \<Longrightarrow> bkt m (last0 xs) = Some (the (bkt m (last0 xs)))"
    using dseg_bkt [OF parts(1) last0_in_set] by fastforce
  have hy: "ys \<noteq> [] \<Longrightarrow> bkt m (hd0 ys) = Some (the (bkt m (hd0 ys)))"
    using dseg_bkt [OF parts(3) hd0_in_set] by fastforce
  have ne: "xs \<noteq> [] \<Longrightarrow> ys \<noteq> [] \<Longrightarrow> hd0 ys \<noteq> last0 xs"
    using di last0_in_set [of xs] hd0_in_set [of ys] by auto
  have m1hy: "ys \<noteq> [] \<Longrightarrow> bkt m1 (hd0 ys) = bkt m (hd0 ys)"
    using ne by (auto simp: m1_def)
  have hd': "hd0 (xs @ ys) = (if xs = [] then hd0 ys else pListHead ht)"
    and tl': "last0 (xs @ ys) = (if ys = [] then last0 xs else pListTail ht)"
    by (simp_all add: hd tl hd0_append last0_def)
  have zx: "(last0 xs = 0) = (xs = [])" and zy: "(hd0 ys = 0) = (ys = [])"
    using z last0_eq_0 [of xs] hd0_eq_0 [of ys] by auto
  have e1: "eqL (bkt m) (bkt m1)"
    using lx by (auto simp: m1_def eqL_upd simp del: fun_upd_apply)
  have e2: "eqL (bkt m1) (bkt m2)"
    using hy m1hy by (auto simp: m2_def eqL_upd simp del: fun_upd_apply)
  have run: "unlink_list ht m p =
     Some (ht\<lparr>pListHead := hd0 (xs @ ys), pListTail := last0 (xs @ ys)\<rparr>, m2)"
  proof -
    have step1: "(if last0 xs \<noteq> 0
        then do { l \<leftarrow> bkt m (last0 xs);
                  Some (ht, set_bkt m (last0 xs) (l\<lparr>pListNext := hd0 ys\<rparr>)) }
        else Some (ht\<lparr>pListHead := hd0 ys\<rparr>, m)) = Some (ht\<lparr>pListHead := hd0 (xs @ ys)\<rparr>, m1)"
    proof (cases "xs = []")
      case False
      obtain l where l: "bkt m (last0 xs) = Some l" using lx [OF False] by blast
      show ?thesis using False l zx hd' by (simp add: m1_def)
    qed (simp add: m1_def)
    have step2: "(if hd0 ys \<noteq> 0
        then do { n \<leftarrow> bkt m1 (hd0 ys);
                  Some (g, set_bkt m1 (hd0 ys) (n\<lparr>pListLast := last0 xs\<rparr>)) }
        else Some (g\<lparr>pListTail := last0 xs\<rparr>, m1)) = Some (if ys = [] then g\<lparr>pListTail := last0 xs\<rparr> else g, m2)" for g
    proof (cases "ys = []")
      case False
      obtain l where l: "bkt m1 (hd0 ys) = Some l" using hy [OF False] m1hy [OF False] by metis
      show ?thesis using False l zy by (simp add: m2_def)
    qed (simp add: m2_def)
    show ?thesis
      unfolding unlink_list_def b(1) Option.bind.simps b(2,3) step1 prod.case step2
      using tl' by simp
  qed
  have L2: "Lf (bkt m2) = (if ys = [] then Lf (bkt m1)
      else (Lf (bkt m1))(hd0 ys \<mapsto> (last0 xs, pListNext (the (bkt m1 (hd0 ys))))))"
    by (simp add: m2_def)
  have L1: "Lf (bkt m1) = (if xs = [] then Lf (bkt m)
      else (Lf (bkt m))(last0 xs \<mapsto> (pListLast (the (bkt m (last0 xs))), hd0 ys)))"
    by (simp add: m1_def)
  have dx1: "dseg (Lf (bkt m1)) 0 xs (hd0 ys)"
  proof (cases xs rule: rev_cases)
    case (snoc zs t)
    have "Lf (bkt m) t = Some (pListLast (the (bkt m t)), pListNext (the (bkt m t)))"
      using lx snoc by (auto simp: Lf_def)
    then show ?thesis
      using parts(1) snoc di L1 dseg_change_next [of "Lf (bkt m)" 0 zs t p] by simp
  qed simp
  have dy1: "dseg (Lf (bkt m1)) p ys 0"
  proof -
    have "xs \<noteq> [] \<Longrightarrow> last0 xs \<notin> set ys" using di last0_in_set [of xs] by auto
    then show ?thesis using parts(3) L1 by (simp add: dseg_upd_other)
  qed
  have dx2: "dseg (Lf (bkt m2)) 0 xs (hd0 ys)"
  proof -
    have "ys \<noteq> [] \<Longrightarrow> hd0 ys \<notin> set xs" using di hd0_in_set [of ys] by auto
    then show ?thesis using dx1 L2 by (cases "ys = []") (simp_all add: dseg_upd_other)
  qed
  have dy2: "dseg (Lf (bkt m2)) (last0 xs) ys 0"
  proof (cases ys)
    case (Cons y zs)
    have "Lf (bkt m1) y = Some (pListLast (the (bkt m1 y)), pListNext (the (bkt m1 y)))"
      using hy m1hy Cons by (auto simp: Lf_def)
    then show ?thesis
      using dy1 Cons di L2 dseg_change_prev [of "Lf (bkt m1)" p y zs 0] by simp
  qed simp
  have "dseg (Lf (bkt m2)) 0 (xs @ ys) 0"
    using dx2 dy2 by (auto simp: dseg_append hd0_append last0_def)
  moreover have "bkt m2 p = bkt m p" "\<forall>x. x \<notin> set (xs @ ys) \<longrightarrow> bkt m2 x = bkt m x"
    using di last0_in_set [of xs] hd0_in_set [of ys] by (auto simp: m2_def m1_def)
  moreover have "dat m2 = dat m" "mem_supply m2 = mem_supply m" "dlog m2 = dlog m"
    by (simp_all add: m2_def m1_def)
  ultimately show ?thesis using run b eqL_trans [OF e1 e2] by blast
qed

subsection \<open>The walk with the bucket before\<close>

lemma find_with_prev_found:
  "chain (Nf (bkt m)) p (pre @ x # post) \<Longrightarrow> (\<And>y. y \<in> set pre \<Longrightarrow> \<not> P (the (bkt m y))) \<Longrightarrow>
     P (the (bkt m x)) \<Longrightarrow>
     find_with_prev m P t p = Some (if pre = [] then t else last pre, x)"
proof (induction pre arbitrary: p t)
  case Nil
  then obtain b where "bkt m x = Some b" "p = x" "x \<noteq> 0" using Nf_SomeD by fastforce
  with Nil(3) show ?case by (simp add: find_with_prev.simps)
next
  case (Cons y pre)
  then obtain b where b: "bkt m y = Some b" "p = y" "y \<noteq> 0" "chain (Nf (bkt m)) (pNext b) (pre @ x # post)"
    using Nf_SomeD by fastforce
  have "find_with_prev m P y (pNext b) = Some (if pre = [] then y else last pre, x)"
    by (rule Cons.IH [OF b(4)]) (use Cons.prems in auto)
  moreover have "\<not> P b" using Cons.prems(2) [of y] b(1) by simp
  ultimately show ?case using b by (subst find_with_prev.simps) simp
qed

lemma find_with_prev_missing:
  "chain (Nf (bkt m)) p c \<Longrightarrow> (\<And>y. y \<in> set c \<Longrightarrow> \<not> P (the (bkt m y))) \<Longrightarrow>
     \<exists>t'. find_with_prev m P t p = Some (t', 0)"
proof (induction c arbitrary: p t)
  case Nil
  then show ?case by (simp add: find_with_prev.simps)
next
  case (Cons y c)
  then obtain b where b: "bkt m y = Some b" "p = y" "y \<noteq> 0" "chain (Nf (bkt m)) (pNext b) c"
    using Nf_SomeD by fastforce
  have "\<exists>t'. find_with_prev m P y (pNext b) = Some (t', 0)"
    by (rule Cons.IH [OF b(4)]) (use Cons.prems in auto)
  moreover have "\<not> P b" using Cons.prems(2) [of y] b(1) by simp
  ultimately show ?case using b by (subst find_with_prev.simps) simp
qed

subsection \<open>Deleting one bucket\<close>

text \<open>
  \<open>deleted\<close>: the table and heap after bucket \<open>p\<close> of \<open>ls\<close> is gone.  Its entry alone leaves the
  list; a cell it owns is destroyed and freed; the internal pointer moves on when it was there.
\<close>

definition deleted ::
  "hashtable \<Rightarrow> 'v heap \<Rightarrow> addr list \<Rightarrow> addr \<Rightarrow> hashtable \<Rightarrow> 'v heap \<Rightarrow> bool" where
  "deleted ht m ls p ht' m' \<longleftrightarrow>
     hash_inv ht' m' (remove1 p ls) \<and>
     ents m' (remove1 p ls) = filter (\<lambda>e. fst e \<noteq> hkey_of (the (bkt m p))) (ents m ls) \<and>
     dat m' = (if bIsPointer (the (bkt m p)) then dat m else (dat m)(pData (the (bkt m p)) := None)) \<and>
     dlog m' = dlog m @ (if \<not> bIsPointer (the (bkt m p)) \<and> pDestructor ht
                         then [pData (the (bkt m p))] else []) \<and>
     bkt m' p = None \<and> (\<forall>x. x \<notin> set ls \<longrightarrow> bkt m' x = bkt m x) \<and>
     pHashFunction ht' = pHashFunction ht \<and> nNextFreeElement ht' = nNextFreeElement ht \<and>
     pDestructor ht' = pDestructor ht \<and> persistent ht' = persistent ht \<and>
     pInternalPointer ht' = (if pInternalPointer ht = p then pListNext (the (bkt m p))
                             else pInternalPointer ht)"

lemma filter_keys_remove1:
  assumes "inj_on (\<lambda>p. hkey_of (the (bkt m p))) (set ls)" and "distinct ls" and "p \<in> set ls"
  shows "filter (\<lambda>e. fst e \<noteq> hkey_of (the (bkt m p))) (ents m ls) = ents m (remove1 p ls)"
proof -
  have "filter (\<lambda>e. fst e \<noteq> hkey_of (the (bkt m p))) (ents m ls) =
        map (\<lambda>q. ent (the (bkt m q))) (filter (\<lambda>q. hkey_of (the (bkt m q)) \<noteq> hkey_of (the (bkt m p))) ls)"
    by (simp add: ents_def filter_map o_def ent_def)
  also have "filter (\<lambda>q. hkey_of (the (bkt m q)) \<noteq> hkey_of (the (bkt m p))) ls = filter (\<lambda>q. q \<noteq> p) ls"
    using assms(1,3) by (intro filter_cong refl) (auto simp: inj_on_def)
  also have "\<dots> = remove1 p ls" using assms(2) by (simp add: distinct_remove1_removeAll removeAll_filter_not_eq eq_commute)
  finally show ?thesis by (simp add: ents_def)
qed

lemma release_bucket_ok:
  assumes l: "distinct ls" "p \<in> set ls" "dseg (Lf (bkt m)) 0 (remove1 p ls) 0"
    and hd: "pListHead ht = hd0 (remove1 p ls)" "pListTail ht = last0 (remove1 p ls)"
      "nNumOfElements ht = length ls" "pInternalPointer ht = 0 \<or> pInternalPointer ht \<in> set ls"
    and s: "size_ok ht" and ch: "chains_ok (bkt m) (nTableSize ht) (arBuckets ht) (set ls - {p})"
    and k: "keys_ok ht (bkt m) (set ls)" and d: "data_ok m (set ls)"
    and b: "bkt m p = Some b" "pListNext b = 0 \<or> pListNext b \<in> set ls - {p}"
    and e: "\<not> (flag = HASH_DEL_KEY \<and> arKey b = None \<and> \<not> persistent ht)"
  shows "\<exists>ht' m'. release_bucket ht m p flag = Some (ht', m') \<and> deleted ht m ls p ht' m'"
proof -
  let ?ls = "remove1 p ls"
  define m1 where "m1 = (if bIsPointer b then m
     else m\<lparr>dat := (dat m)(pData b := None), dlog := dlog m @ (if pDestructor ht then [pData b] else [])\<rparr>)"
  define ht1 where "ht1 = (if pInternalPointer ht = p then ht\<lparr>pInternalPointer := pListNext b\<rparr> else ht)"
  define m2 where "m2 = m1\<lparr>bkt := (bkt m1)(p := None)\<rparr>"
  define ht2 where "ht2 = ht1\<lparr>nNumOfElements := nNumOfElements ht1 - 1\<rparr>"
  have sl: "set ?ls = set ls - {p}" using l(1) by simp
  have "\<not> bIsPointer b \<Longrightarrow> dat m (pData b) \<noteq> None"
    using bspec [OF d [unfolded data_ok_def] l(2)] b(1) by simp
  then have fr: "(if bIsPointer b then Some m
      else free_dat (call_destructor ht m (pData b)) (pData b)) = Some m1"
    by (cases "bIsPointer b") (auto simp: m1_def free_dat_def call_destructor_def)
  have bm1: "bkt m1 = bkt m" by (simp add: m1_def)
  have run: "release_bucket ht m p flag = Some (ht2, m2)"
    unfolding release_bucket_def b(1) Option.bind.simps Let_def fr using e b(1) bm1
    by (auto simp: free_bkt_def m2_def ht2_def ht1_def)
  have bo: "x \<in> set ?ls \<Longrightarrow> bkt m2 x = bkt m x" for x
    using sl by (auto simp: m2_def bm1)
  have base: "hash_inv ht2 m ?ls"
    unfolding hash_inv_def
  proof (intro conjI)
    have "pInternalPointer ht2 = 0 \<or> pInternalPointer ht2 \<in> set ?ls"
      using hd(4) b(2) sl by (auto simp: ht2_def ht1_def)
    then show "list_ok ht2 (bkt m) ?ls"
      using l hd by (simp add: list_ok_def ht2_def ht1_def length_remove1)
    show "size_ok ht2" using s by (simp add: size_ok_def ht2_def ht1_def)
    show "chains_ok (bkt m) (nTableSize ht2) (arBuckets ht2) (set ?ls)"
      using ch sl by (simp add: ht2_def ht1_def)
    have "keys_ok ht2 (bkt m) (set ls)"
      using k keys_ok_hash [of ht2 ht] by (simp add: ht2_def ht1_def)
    then show "keys_ok ht2 (bkt m) (set ?ls)"
      unfolding keys_ok_def sl by (auto intro: inj_on_subset)
    show "data_ok m (set ?ls)" using d unfolding data_ok_def sl by blast
  qed
  have inv: "hash_inv ht2 m2 ?ls"
  proof (rule hash_inv_cong [OF base bo])
    fix x assume x: "x \<in> set ?ls" "\<not> bIsPointer (the (bkt m x))" "dat m (pData (the (bkt m x))) \<noteq> None"
    have "\<not> bIsPointer b \<Longrightarrow> pData (the (bkt m x)) \<noteq> pData b"
      using x sl d l(2) b(1) unfolding data_ok_def by (metis DiffD1 DiffD2 option.sel singletonI)
    then show "dat m2 (pData (the (bkt m x))) \<noteq> None" using x by (auto simp: m2_def m1_def)
  qed
  have en: "ents m2 ?ls = filter (\<lambda>e. fst e \<noteq> hkey_of (the (bkt m p))) (ents m ls)"
  proof -
    have "ents m2 ?ls = ents m ?ls" by (rule ents_cong [OF bo])
    then show ?thesis using filter_keys_remove1 [of m ls p] k l(1,2) by (simp add: keys_ok_def)
  qed
  have "deleted ht m ls p ht2 m2"
    unfolding deleted_def using inv en b(1) l(2)
    by (auto simp: m2_def m1_def ht2_def ht1_def)
  with run show ?thesis by blast
qed

text \<open>Unlinking and releasing together, for the first match of a chain.\<close>

lemma delete_in_chain:
  assumes inv: "hash_inv ht m ls" and p: "p \<in> set ls" "bkt m p = Some b"
    and c: "chain (Nf (bkt m)) (arBuckets ht ! i) (pre @ p # post)" and i: "i < nTableSize ht"
    and sc: "set (pre @ p # post) = {x \<in> set ls. in_slot (bkt m) (nTableSize ht) x = i}"
    and e: "\<not> (flag = HASH_DEL_KEY \<and> arKey b = None \<and> \<not> persistent ht)"
  shows "\<exists>ht1 m1 ht2 m2 ht3 m3. unlink_chain ht m (last0 pre) p i = Some (ht1, m1) \<and>
     unlink_list ht1 m1 p = Some (ht2, m2) \<and> release_bucket ht2 m2 p flag = Some (ht3, m3) \<and>
     deleted ht m ls p ht3 m3"
proof -
  from inv have l: "list_ok ht (bkt m) ls" and s: "size_ok ht"
    and ch: "chains_ok (bkt m) (nTableSize ht) (arBuckets ht) (set ls)"
    and k: "keys_ok ht (bkt m) (set ls)" and d: "data_ok m (set ls)"
    by (simp_all add: hash_inv_def)
  from p(1) obtain xs ys where ls: "ls = xs @ p # ys" by (meson split_list)
  have di: "distinct (xs @ p # ys)" and ds: "dseg (Lf (bkt m)) 0 (xs @ p # ys) 0"
    using l ls by (simp_all add: list_ok_def)
  have rm: "remove1 p ls = xs @ ys" using di ls by (simp add: remove1_append)
  from unlink_chain_ok [OF ch i c sc p(2)] obtain arr1 m1 where u1:
    "unlink_chain ht m (last0 pre) p i = Some (ht\<lparr>arBuckets := arr1\<rparr>, m1)"
    "chains_ok (bkt m1) (nTableSize ht) arr1 (set ls - {p})" "eqN (bkt m) (bkt m1)"
    "\<forall>x. x \<notin> set pre \<longrightarrow> bkt m1 x = bkt m x"
    "dat m1 = dat m" "mem_supply m1 = mem_supply m" "dlog m1 = dlog m" by blast
  let ?ht1 = "ht\<lparr>arBuckets := arr1\<rparr>"
  have ds1: "dseg (Lf (bkt m1)) 0 (xs @ p # ys) 0" using ds eqN_Lf [OF u1(3)] by simp
  have hd: "pListHead ?ht1 = hd0 (xs @ p # ys)" "pListTail ?ht1 = last0 (xs @ p # ys)"
    using l ls by (simp_all add: list_ok_def)
  from unlink_list_ok [OF ds1 di hd] obtain m2 where u2:
    "unlink_list ?ht1 m1 p = Some (?ht1\<lparr>pListHead := hd0 (xs @ ys), pListTail := last0 (xs @ ys)\<rparr>, m2)"
    "dseg (Lf (bkt m2)) 0 (xs @ ys) 0" "eqL (bkt m1) (bkt m2)" "bkt m2 p = bkt m1 p"
    "\<forall>x. x \<notin> set (xs @ ys) \<longrightarrow> bkt m2 x = bkt m1 x" "\<exists>b. bkt m1 p = Some b \<and> pListNext b = hd0 ys"
    "dat m2 = dat m1" "mem_supply m2 = mem_supply m1" "dlog m2 = dlog m1" by blast
  let ?ht2 = "?ht1\<lparr>pListHead := hd0 (xs @ ys), pListTail := last0 (xs @ ys)\<rparr>"
  have pp: "p \<notin> set pre" using chain_distinct [OF c] by simp
  have m2p: "bkt m2 p = Some b" using u2(4) u1(4) pp p(2) by simp
  have nb: "pListNext b = hd0 ys" using u2(4,6) m2p by auto
  have k2: "keys_ok ?ht2 (bkt m2) (set ls)"
    using k eqN_keys_ok [OF u1(3)] eqL_keys_ok [OF u2(3)] keys_ok_hash [of ?ht2 ht] by simp
  have d2: "data_ok m2 (set ls)"
    using d eqN_data_ok [OF u1(3) u1(5)] eqL_data_ok [OF u2(3) u2(7)] by simp
  have c2: "chains_ok (bkt m2) (nTableSize ?ht2) (arBuckets ?ht2) (set ls - {p})"
    using u1(2) eqL_chains_ok [OF u2(3)] by simp
  have n2: "pListNext b = 0 \<or> pListNext b \<in> set ls - {p}"
    using nb di ls hd0_in_set [of ys] by (cases "ys = []") auto
  have "\<exists>ht3 m3. release_bucket ?ht2 m2 p flag = Some (ht3, m3) \<and> deleted ?ht2 m2 ls p ht3 m3"
  proof (rule release_bucket_ok [OF _ p(1) _ _ _ _ _ _ c2 k2 d2 m2p n2])
    show "distinct ls" using di ls by simp
    show "dseg (Lf (bkt m2)) 0 (remove1 p ls) 0" using u2(2) rm by simp
    show "pListHead ?ht2 = hd0 (remove1 p ls)" "pListTail ?ht2 = last0 (remove1 p ls)"
      using rm by simp_all
    show "nNumOfElements ?ht2 = length ls"
      "pInternalPointer ?ht2 = 0 \<or> pInternalPointer ?ht2 \<in> set ls"
      using l by (simp_all add: list_ok_def)
    show "size_ok ?ht2" using s by (simp add: size_ok_def)
    show "\<not> (flag = HASH_DEL_KEY \<and> arKey b = None \<and> \<not> persistent ?ht2)" using e by simp
  qed
  then obtain ht3 m3 where r: "release_bucket ?ht2 m2 p flag = Some (ht3, m3)"
    "deleted ?ht2 m2 ls p ht3 m3" by blast
  have "deleted ht m ls p ht3 m3"
  proof -
    have e2: "ents m2 ls = ents m ls" using eqN_ents [OF u1(3)] eqL_ents [OF u2(3)] by simp
    have out: "\<forall>x. x \<notin> set ls \<longrightarrow> bkt m2 x = bkt m x"
      using u2(5) u1(4) ls sc by auto
    show ?thesis
      using r(2) e2 out m2p p(2) u1(5,7) u2(7,9) unfolding deleted_def by simp
  qed
  then show ?thesis using u1(1) u2(1) r(1) by blast
qed

end
