(* ===== verification/Hash_Remove.thy ===== *)
theory Hash_Remove
  imports Hash_Delete
begin

text \<open>
  What \<open>_php3_hash_del_key_or_index\<close> does to the list of entries: for an index, and for a string
  key, with the case in which the two meet in one bucket.
\<close>

subsection \<open>Which bucket is deleted\<close>

lemma match_del_hkey:
  "bucket_ok ht b \<Longrightarrow>
     match_del h key b \<longleftrightarrow> hkey_of b = KIdx h \<or> hkey_of b = KStr key \<and> h = pHashFunction ht key"
  by (auto simp: match_del_def hkey_of_def bucket_ok_def split: option.splits)

lemma match_del_slot: "match_del h key b \<Longrightarrow> bk_h b = h"
  by (simp add: match_del_def)

lemma hash_del_slot_missing:
  assumes inv: "hash_inv ht m ls" and no: "\<And>p. p \<in> set ls \<Longrightarrow> \<not> match_del h key (the (bkt m p))"
  shows "hash_del_slot ht m key h flag = Some (FAILURE, ht, m)"
proof -
  obtain c where c: "chain (Nf (bkt m)) (arBuckets ht ! slot ht h) c"
      "set c = {p \<in> set ls. in_slot (bkt m) (nTableSize ht) p = slot ht h}"
    using inv slot_lt [OF inv, of h] unfolding hash_inv_def chains_ok_def by blast
  from find_with_prev_missing [OF c(1), of "match_del h key" 0] obtain t where
    "find_with_prev m (match_del h key) 0 (arBuckets ht ! slot ht h) = Some (t, 0)"
    using no c(2) by auto
  then show ?thesis using slot_arr [OF inv, of h] by (simp add: hash_del_slot_def)
qed

lemma unlink_chain_keeps:
  "unlink_chain ht m t p i = Some (ht1, m1) \<Longrightarrow>
     persistent ht1 = persistent ht \<and> map_option arKey (bkt m1 p) = map_option arKey (bkt m p)"
  by (auto simp: unlink_chain_def split: if_splits option.splits bind_splits)

lemma unlink_list_keeps:
  "unlink_list ht m p = Some (ht1, m1) \<Longrightarrow>
     persistent ht1 = persistent ht \<and> map_option arKey (bkt m1 p) = map_option arKey (bkt m p)"
  by (auto simp: unlink_list_def split: if_splits option.splits bind_splits)

lemma hash_del_slot_found:
  assumes inv: "hash_inv ht m ls" and ex: "\<exists>p \<in> set ls. match_del h key (the (bkt m p))"
  shows "\<exists>p b. p \<in> set ls \<and> bkt m p = Some b \<and> match_del h key b \<and>
     (if flag = HASH_DEL_KEY \<and> arKey b = None \<and> \<not> persistent ht
      then hash_del_slot ht m key h flag = None
      else \<exists>ht' m'. hash_del_slot ht m key h flag = Some (SUCCESS, ht', m') \<and> deleted ht m ls p ht' m')"
proof -
  let ?P = "\<lambda>x. match_del h key (the (bkt m x))" and ?i = "slot ht h"
  obtain c where c: "chain (Nf (bkt m)) (arBuckets ht ! ?i) c"
      "set c = {p \<in> set ls. in_slot (bkt m) (nTableSize ht) p = ?i}"
    using inv slot_lt [OF inv, of h] unfolding hash_inv_def chains_ok_def by blast
  have "\<exists>x \<in> set c. ?P x"
    using ex c(2) by (auto simp: in_slot_def slot_def dest: match_del_slot)
  then obtain pre p post where s: "c = pre @ p # post" "?P p" "\<forall>y \<in> set pre. \<not> ?P y"
    using split_list_first_prop [of c ?P] by blast
  have pl: "p \<in> set ls" using s(1) c(2) by auto
  then obtain b where b: "bkt m p = Some b" using bkt_of_ls [OF inv] by blast
  have p0: "p \<noteq> 0" using nonzero_ls [OF inv] pl by metis
  have f: "find_with_prev m (match_del h key) 0 (arBuckets ht ! ?i) = Some (last0 pre, p)"
    using find_with_prev_found [of m _ pre p post "match_del h key" 0] c(1) s by (simp add: last0_def)
  have un: "hash_del_slot ht m key h flag = do {
       (ht1, m1) \<leftarrow> unlink_chain ht m (last0 pre) p ?i;
       (ht2, m2) \<leftarrow> unlink_list ht1 m1 p;
       (ht3, m3) \<leftarrow> release_bucket ht2 m2 p flag;
       Some (SUCCESS, ht3, m3) }"
    using f slot_arr [OF inv, of h] p0 by (simp add: hash_del_slot_def)
  show ?thesis
  proof (cases "flag = HASH_DEL_KEY \<and> arKey b = None \<and> \<not> persistent ht")
    case True
    have "hash_del_slot ht m key h flag = None"
    proof (cases "unlink_chain ht m (last0 pre) p ?i")
      case (Some r)
      obtain ht1 m1 where r: "r = (ht1, m1)" by (cases r)
      note k1 = unlink_chain_keeps [OF Some [unfolded r]]
      show ?thesis
      proof (cases "unlink_list ht1 m1 p")
        case (Some r2)
        obtain ht2 m2 where r2: "r2 = (ht2, m2)" by (cases r2)
        note k2 = unlink_list_keeps [OF Some [unfolded r2]]
        have "release_bucket ht2 m2 p flag = None"
          using k1 k2 True b by (auto simp: release_bucket_def)
        then show ?thesis
          using un \<open>unlink_chain ht m (last0 pre) p ?i = Some r\<close> Some r r2 by simp
      qed (use un \<open>unlink_chain ht m (last0 pre) p ?i = Some r\<close> r in simp)
    qed (simp add: un)
    then show ?thesis using pl b s(2) True by (intro exI [of _ p] exI [of _ b]) simp
  next
    case False
    from delete_in_chain [OF inv pl b _ slot_lt [OF inv, of h] _ False] c s(1)
    obtain ht1 m1 ht2 m2 ht3 m3 where "unlink_chain ht m (last0 pre) p ?i = Some (ht1, m1)"
      "unlink_list ht1 m1 p = Some (ht2, m2)" "release_bucket ht2 m2 p flag = Some (ht3, m3)"
      "deleted ht m ls p ht3 m3" by blast
    then show ?thesis
      using un pl b s(2) False by (intro exI [of _ p] exI [of _ b]) auto
  qed
qed

subsection \<open>Deletion as the caller sees it\<close>

text \<open>
  \<open>delete_spec\<close>: without an entry for the key nothing changes and the answer is \<open>FAILURE\<close>; with
  one, exactly that entry leaves the list, and a cell of its own is destroyed and freed.
\<close>

definition delete_spec ::
  "hkey \<Rightarrow> hashtable \<Rightarrow> 'v heap \<Rightarrow> addr list \<Rightarrow> (status \<times> hashtable \<times> 'v heap) option \<Rightarrow> bool" where
  "delete_spec k ht m ls r \<longleftrightarrow>
     (case map_of (ents m ls) k of
        None \<Rightarrow> r = Some (FAILURE, ht, m)
      | Some (a, ptr) \<Rightarrow>
          (\<exists>ht' m' ls'. r = Some (SUCCESS, ht', m') \<and> hash_inv ht' m' ls' \<and>
             ents m' ls' = filter (\<lambda>e. fst e \<noteq> k) (ents m ls) \<and>
             dat m' = (if ptr then dat m else (dat m)(a := None)) \<and>
             dlog m' = dlog m @ (if \<not> ptr \<and> pDestructor ht then [a] else []) \<and>
             (\<forall>x. x \<notin> set ls \<longrightarrow> bkt m' x = bkt m x) \<and>
             pHashFunction ht' = pHashFunction ht \<and> nNextFreeElement ht' = nNextFreeElement ht \<and>
             pDestructor ht' = pDestructor ht \<and> persistent ht' = persistent ht))"

lemma delete_spec_found:
  assumes inv: "hash_inv ht m ls" and p: "p \<in> set ls" "bkt m p = Some b" "hkey_of b = k"
    and r: "r = Some (SUCCESS, ht', m')" "deleted ht m ls p ht' m'"
  shows "delete_spec k ht m ls r"
proof -
  have "map_of (ents m ls) k = Some (pData b, bIsPointer b)"
    using map_of_ents_Some [OF inj_ls [OF inv] p(1)] p by simp
  then show ?thesis using r p(2,3) by (auto simp: delete_spec_def deleted_def)
qed

lemma hash_del_slot_spec:
  assumes inv: "hash_inv ht m ls"
    and k: "\<And>p. p \<in> set ls \<Longrightarrow> match_del h key (the (bkt m p)) \<longleftrightarrow> hkey_of (the (bkt m p)) = k"
    and f: "flag = HASH_DEL_INDEX \<or> (\<exists>s. k = KStr s)"
  shows "delete_spec k ht m ls (hash_del_slot ht m key h flag)"
proof (cases "\<exists>p \<in> set ls. match_del h key (the (bkt m p))")
  case False
  then have "map_of (ents m ls) k = None" unfolding map_of_ents_None using k by blast
  then show ?thesis using hash_del_slot_missing [OF inv] False by (simp add: delete_spec_def)
next
  case True
  from hash_del_slot_found [OF inv True, of flag] obtain p b where p: "p \<in> set ls" "bkt m p = Some b"
    "match_del h key b" and c: "if flag = HASH_DEL_KEY \<and> arKey b = None \<and> \<not> persistent ht
      then hash_del_slot ht m key h flag = None
      else \<exists>ht' m'. hash_del_slot ht m key h flag = Some (SUCCESS, ht', m') \<and> deleted ht m ls p ht' m'"
    by blast
  have kb: "hkey_of b = k" using k [OF p(1)] p by simp
  have "\<not> (flag = HASH_DEL_KEY \<and> arKey b = None \<and> \<not> persistent ht)"
    using f kb by (auto simp: hkey_of_def split: option.splits)
  then show ?thesis using delete_spec_found [OF inv p(1,2) kb] c by auto
qed

text \<open>No entry has a numeric string or the empty string as its string key.\<close>

lemma no_numeric_key:
  "hash_inv ht m ls \<Longrightarrow> p \<in> set ls \<Longrightarrow> key = [] \<or> handle_numeric key \<noteq> None \<Longrightarrow>
     hkey_of (the (bkt m p)) \<noteq> KStr key"
  using bucket_ok_ls [of ht m ls p] by (auto simp: hkey_of_def bucket_ok_def split: option.splits)

lemma index_del_spec:
  assumes inv: "hash_inv ht m ls"
  shows "delete_spec (KIdx h) ht m ls (php3_hash_index_del ht m h)"
  unfolding php3_hash_index_del_def php3_hash_del_key_or_index_def del_flag.case
  by (rule hash_del_slot_spec [OF inv])
    (simp_all add: match_del_hkey [OF bucket_ok_ls [OF inv]] no_numeric_key [OF inv])

text \<open>
  A string key is deleted on its own account as long as no entry has the hash of the key as its
  integer index.
\<close>

lemma key_del_spec:
  assumes inv: "hash_inv ht m ls"
    and c: "handle_numeric key = None \<Longrightarrow> map_of (ents m ls) (KIdx (pHashFunction ht key)) = None"
  shows "delete_spec (ckey key) ht m ls (php3_hash_del ht m key)"
proof (cases "handle_numeric key")
  case (Some idx)
  have "delete_spec (KIdx idx) ht m ls (hash_del_slot ht m key idx HASH_DEL_INDEX)"
    by (rule hash_del_slot_spec [OF inv])
      (simp_all add: match_del_hkey [OF bucket_ok_ls [OF inv]] no_numeric_key [OF inv] Some)
  then show ?thesis using Some by (simp add: php3_hash_del_def php3_hash_del_key_or_index_def ckey_def)
next
  case None
  have "delete_spec (KStr key) ht m ls (hash_del_slot ht m key (pHashFunction ht key) HASH_DEL_KEY)"
    using c [OF None] unfolding map_of_ents_None
    by (intro hash_del_slot_spec [OF inv]) (auto simp: match_del_hkey [OF bucket_ok_ls [OF inv]])
  then show ?thesis using None by (simp add: php3_hash_del_def php3_hash_del_key_or_index_def ckey_def)
qed

text \<open>
  With an entry whose integer index is the hash of the key, and no entry for the key itself, the
  deletion takes that other entry, or (for a request's table) passes \<open>NULL\<close> to \<open>efree\<close>.
\<close>

lemma key_del_wrong_entry:
  assumes inv: "hash_inv ht m ls" and nn: "handle_numeric key = None"
    and no: "map_of (ents m ls) (KStr key) = None"
    and c: "map_of (ents m ls) (KIdx (pHashFunction ht key)) \<noteq> None"
  shows "if persistent ht then delete_spec (KIdx (pHashFunction ht key)) ht m ls (php3_hash_del ht m key)
         else php3_hash_del ht m key = None"
proof -
  let ?h = "pHashFunction ht key"
  note md = match_del_hkey [OF bucket_ok_ls [OF inv]]
  have op: "php3_hash_del ht m key = hash_del_slot ht m key ?h HASH_DEL_KEY"
    using nn by (simp add: php3_hash_del_def php3_hash_del_key_or_index_def)
  have "\<exists>p \<in> set ls. match_del ?h key (the (bkt m p))"
    using c unfolding map_of_ents_None using md by blast
  from hash_del_slot_found [OF inv this, of HASH_DEL_KEY] obtain p b where p: "p \<in> set ls"
    "bkt m p = Some b" "match_del ?h key b" and r: "if arKey b = None \<and> \<not> persistent ht
      then hash_del_slot ht m key ?h HASH_DEL_KEY = None
      else \<exists>ht' m'. hash_del_slot ht m key ?h HASH_DEL_KEY = Some (SUCCESS, ht', m') \<and>
        deleted ht m ls p ht' m'" by auto
  have "hkey_of b \<noteq> KStr key" using no p(1,2) unfolding map_of_ents_None by force
  then have k: "hkey_of b = KIdx ?h" using md [OF p(1)] p(2,3) by auto
  then have "arKey b = None" by (auto simp: hkey_of_def split: option.splits)
  then show ?thesis using r delete_spec_found [OF inv p(1,2) k] op by auto
qed

end
