(* ===== verification/Hash_Walk.thy ===== *)
theory Hash_Walk
  imports Hash_Remove
begin

text \<open>
  The life of a table: its start-up, the traversal with the internal pointer, the insertion at the
  next free index, and its destruction.
\<close>

subsection \<open>Start-up\<close>

lemma prime_index_from_le: "prime_index_from k i n \<le> i + k"
proof (induction k arbitrary: i)
  case (Suc k)
  show ?case using Suc.IH [of "Suc i"] by simp
qed simp

lemma prime_index_from_fits:
  "prime_index_from k i n < i + k \<Longrightarrow> n \<le> PrimeNumbers ! prime_index_from k i n"
proof (induction k arbitrary: i)
  case (Suc k)
  show ?case using Suc.IH [of "Suc i"] Suc.prems by (cases "n \<le> PrimeNumbers ! i") auto
qed simp

lemma prime_index_from_first:
  "i \<le> j \<Longrightarrow> j < prime_index_from k i n \<Longrightarrow> PrimeNumbers ! j < n"
proof (induction k arbitrary: i)
  case (Suc k)
  show ?case using Suc.IH [of "Suc i"] Suc.prems
    by (cases "n \<le> PrimeNumbers ! i") (auto simp: not_le dest: le_neq_implies_less)
qed simp

lemma init_inv:
  assumes "php3_hash_init m n hf destr pers = (Some ht, m')"
  shows "hash_inv ht m' [] \<and> ents m' [] = [] \<and> bkt m' = bkt m \<and> dat m' = dat m"
proof -
  define ix where "ix = (let i = prime_index_from nNumPrimeNumbers 0 n in if i = nNumPrimeNumbers then i - 1 else i)"
  obtain a m1 where a: "pemalloc m = (a, m1)" by (cases "pemalloc m")
  have ix: "ix < nNumPrimeNumbers"
    using prime_index_from_le [of nNumPrimeNumbers 0 n] by (auto simp: ix_def Let_def num_primes)
  have f: "m' = m1" "nTableSize ht = PrimeNumbers ! ix" "nHashSizeIndex ht = ix"
    "nNumOfElements ht = 0" "pInternalPointer ht = 0" "pListHead ht = 0" "pListTail ht = 0"
    "arBuckets ht = replicate (PrimeNumbers ! ix) 0"
    using assms by (auto simp: php3_hash_init_def ix_def a Let_def split: if_splits)
  have "hash_inv ht m' []"
    unfolding hash_inv_def list_ok_def size_ok_def chains_ok_def keys_ok_def data_ok_def
    using ix f by simp
  then show ?thesis using f(1) pemalloc_eqD [OF a] by (simp add: ents_def)
qed

lemma init_size:
  assumes "php3_hash_init m n hf destr pers = (Some ht, m')"
  shows "nHashSizeIndex ht < nNumPrimeNumbers \<and>
    (n \<le> nTableSize ht \<or> nHashSizeIndex ht = nNumPrimeNumbers - 1) \<and>
    (\<forall>j < nHashSizeIndex ht. PrimeNumbers ! j < n)"
proof -
  let ?i = "prime_index_from nNumPrimeNumbers 0 n"
  obtain a m1 where a: "pemalloc m = (a, m1)" by (cases "pemalloc m")
  have f: "nTableSize ht = PrimeNumbers ! nHashSizeIndex ht"
    "nHashSizeIndex ht = (if ?i = nNumPrimeNumbers then ?i - 1 else ?i)"
    using assms by (auto simp: php3_hash_init_def a Let_def split: if_splits)
  have "?i \<le> nNumPrimeNumbers" using prime_index_from_le [of nNumPrimeNumbers 0 n] by simp
  moreover have "?i < nNumPrimeNumbers \<Longrightarrow> n \<le> PrimeNumbers ! ?i"
    using prime_index_from_fits [of nNumPrimeNumbers 0 n] by simp
  moreover have "\<And>j. j < ?i \<Longrightarrow> PrimeNumbers ! j < n"
    using prime_index_from_first [of 0 _ nNumPrimeNumbers n] by simp
  ultimately show ?thesis using f by (auto simp: num_primes)
qed

subsection \<open>Traversal with the internal pointer\<close>

text \<open>
  The loop every user of the table writes: reset, then read key and data and move forward until
  there is no current element.  \<open>n\<close> bounds the number of steps; \<open>ents_data\<close> is what it collects.
\<close>

fun walk_forward :: "nat \<Rightarrow> hashtable \<Rightarrow> 'v heap \<Rightarrow> addr list option" where
  "walk_forward 0 ht m = None"
| "walk_forward (Suc n) ht m = do {
     (st, d) \<leftarrow> php3_hash_get_current_data ht m;
     if st = FAILURE then Some []
     else do { ht' \<leftarrow> php3_hash_move_forward ht m; ds \<leftarrow> walk_forward n ht' m; Some (d # ds) }
   }"

fun walk_backwards :: "nat \<Rightarrow> hashtable \<Rightarrow> 'v heap \<Rightarrow> addr list option" where
  "walk_backwards 0 ht m = None"
| "walk_backwards (Suc n) ht m = do {
     (st, d) \<leftarrow> php3_hash_get_current_data ht m;
     if st = FAILURE then Some []
     else do { ht' \<leftarrow> php3_hash_move_backwards ht m; ds \<leftarrow> walk_backwards n ht' m; Some (d # ds) }
   }"

lemma walk_forward_from:
  assumes "dseg (Lf (bkt m)) prev xs 0" and "pInternalPointer ht = hd0 xs" and "length xs < n"
  shows "walk_forward n ht m = Some (map (\<lambda>e. fst (snd e)) (ents m xs))"
  using assms
proof (induction n arbitrary: xs prev ht)
  case (Suc n)
  show ?case
  proof (cases xs)
    case Nil
    then show ?thesis using Suc.prems by (simp add: php3_hash_get_current_data_def data_of_def ents_def)
  next
    case (Cons x ys)
    then obtain b where b: "bkt m x = Some b" "x \<noteq> 0" "pListNext b = hd0 (ys @ [0])"
      "dseg (Lf (bkt m)) x ys 0" using Suc.prems(1) Lf_SomeD by fastforce
    have n: "hd0 (ys @ [0]) = hd0 ys" by (simp add: hd0_append)
    have "walk_forward n (ht\<lparr>pInternalPointer := hd0 ys\<rparr>) m = Some (map (\<lambda>e. fst (snd e)) (ents m ys))"
      by (rule Suc.IH [OF b(4)]) (use Suc.prems(3) Cons in auto)
    then show ?thesis using Suc.prems(2) Cons b n
      by (simp add: php3_hash_get_current_data_def data_of_def php3_hash_move_forward_def ents_def ent_def)
  qed
qed simp

lemma walk_backwards_from:
  assumes "dseg (Lf (bkt m)) 0 xs nxt" and "pInternalPointer ht = last0 xs" and "length xs < n"
  shows "walk_backwards n ht m = Some (rev (map (\<lambda>e. fst (snd e)) (ents m xs)))"
  using assms
proof (induction n arbitrary: xs nxt ht)
  case (Suc n)
  show ?case
  proof (cases xs rule: rev_cases)
    case Nil
    then show ?thesis using Suc.prems by (simp add: php3_hash_get_current_data_def data_of_def ents_def)
  next
    case (snoc ys x)
    have d: "dseg (Lf (bkt m)) 0 ys x" "x \<noteq> 0"
      "Lf (bkt m) x = Some (if ys = [] then 0 else last ys, nxt)"
      using Suc.prems(1) snoc by (auto simp: dseg_append)
    from Lf_SomeD [OF d(3)] obtain b where b: "bkt m x = Some b" "pListLast b = last0 ys"
      by (auto simp: last0_def)
    have "walk_backwards n (ht\<lparr>pInternalPointer := last0 ys\<rparr>) m =
            Some (rev (map (\<lambda>e. fst (snd e)) (ents m ys)))"
      by (rule Suc.IH [OF d(1)]) (use Suc.prems(3) snoc in auto)
    then show ?thesis using Suc.prems(2) snoc b d(2)
      by (simp add: php3_hash_get_current_data_def data_of_def php3_hash_move_backwards_def ents_def ent_def)
  qed
qed simp

lemma hash_inv_cursor:
  "hash_inv ht m ls \<Longrightarrow> p = 0 \<or> p \<in> set ls \<Longrightarrow> hash_inv (ht\<lparr>pInternalPointer := p\<rparr>) m ls"
  using keys_ok_hash [of "ht\<lparr>pInternalPointer := p\<rparr>" ht]
  by (simp add: hash_inv_def list_ok_def size_ok_def del: fun_upd_apply) auto

lemma walk_forward_all:
  "hash_inv ht m ls \<Longrightarrow> length ls < n \<Longrightarrow>
     walk_forward n (php3_hash_internal_pointer_reset ht) m = Some (map (\<lambda>e. fst (snd e)) (ents m ls))"
  by (rule walk_forward_from [of m 0])
    (simp_all add: hash_inv_def list_ok_def php3_hash_internal_pointer_reset_def)

lemma walk_backwards_all:
  "hash_inv ht m ls \<Longrightarrow> length ls < n \<Longrightarrow>
     walk_backwards n (php3_hash_internal_pointer_end ht) m =
       Some (rev (map (\<lambda>e. fst (snd e)) (ents m ls)))"
  by (rule walk_backwards_from [of m ls 0])
    (simp_all add: hash_inv_def list_ok_def php3_hash_internal_pointer_end_def)

text \<open>The cursor operations keep the invariant; they never leave the list.\<close>

lemma move_inv:
  assumes inv: "hash_inv ht m ls"
  shows "\<exists>ht'. php3_hash_move_forward ht m = Some ht' \<and> hash_inv ht' m ls"
    and "\<exists>ht'. php3_hash_move_backwards ht m = Some ht' \<and> hash_inv ht' m ls"
proof -
  have l: "dseg (Lf (bkt m)) 0 ls 0" "pInternalPointer ht = 0 \<or> pInternalPointer ht \<in> set ls"
    using inv by (simp_all add: hash_inv_def list_ok_def)
  have s: "\<exists>b. bkt m p = Some b \<and> (pListNext b = 0 \<or> pListNext b \<in> set ls) \<and>
      (pListLast b = 0 \<or> pListLast b \<in> set ls)" if p: "p \<in> set ls" for p
  proof -
    obtain xs ys where ls: "ls = xs @ p # ys" using p by (meson split_list)
    have "Lf (bkt m) p = Some (if xs = [] then 0 else last xs, hd0 (ys @ [0]))"
      using l(1) ls by (auto simp: dseg_append)
    from Lf_SomeD [OF this] show ?thesis using ls hd0_in_set [of ys] by (auto simp: hd0_append)
  qed
  show "\<exists>ht'. php3_hash_move_forward ht m = Some ht' \<and> hash_inv ht' m ls"
    using l(2) s [of "pInternalPointer ht"] hash_inv_cursor [OF inv] inv
    by (auto simp: php3_hash_move_forward_def)
  show "\<exists>ht'. php3_hash_move_backwards ht m = Some ht' \<and> hash_inv ht' m ls"
    using l(2) s [of "pInternalPointer ht"] hash_inv_cursor [OF inv] inv
    by (auto simp: php3_hash_move_backwards_def)
qed

subsection \<open>Destruction\<close>

definition owned :: "'v heap \<Rightarrow> addr list \<Rightarrow> addr list" where
  "owned m ls = map (\<lambda>p. pData (the (bkt m p))) (filter (\<lambda>p. \<not> bIsPointer (the (bkt m p))) ls)"

lemma owned_Cons:
  "owned m (p # ps) = (if bIsPointer (the (bkt m p)) then [] else [pData (the (bkt m p))]) @ owned m ps"
  by (simp add: owned_def)

lemma owned_cong: "(\<And>p. p \<in> set ls \<Longrightarrow> bkt m' p = bkt m p) \<Longrightarrow> owned m' ls = owned m ls"
  by (auto simp: owned_def intro!: map_cong filter_cong)

lemma destroy_loop_ok:
  assumes "dseg (Lf (bkt m)) prev ls 0" and "distinct ls" and "data_ok m (set ls)"
  shows "\<exists>m'. destroy_loop ht m (hd0 ls) = Some m' \<and>
     bkt m' = (\<lambda>x. if x \<in> set ls then None else bkt m x) \<and>
     dat m' = (\<lambda>a. if a \<in> set (owned m ls) then None else dat m a) \<and>
     mem_supply m' = mem_supply m \<and>
     dlog m' = dlog m @ (if pDestructor ht then owned m ls else [])"
  using assms
proof (induction ls arbitrary: m prev)
  case Nil
  then show ?case by (simp add: destroy_loop.simps owned_def)
next
  case (Cons p ls)
  from Cons.prems(1) obtain b where b: "bkt m p = Some b" "p \<noteq> 0" "pListNext b = hd0 (ls @ [0])"
    "dseg (Lf (bkt m)) p ls 0" using Lf_SomeD by fastforce
  have nx: "hd0 (ls @ [0]) = hd0 ls" by (simp add: hd0_append)
  let ?a = "pData b"
  have own: "\<not> bIsPointer b \<Longrightarrow> ?a \<noteq> 0 \<and> dat m ?a \<noteq> None"
    using Cons.prems(3) b(1) by (simp add: data_ok_def)
  define m1 where "m1 = (if bIsPointer b then m
     else m\<lparr>dat := (dat m)(?a := None), dlog := dlog m @ (if pDestructor ht then [?a] else [])\<rparr>)"
  define m2 where "m2 = m1\<lparr>bkt := (bkt m1)(p := None)\<rparr>"
  have s1: "(if bIsPointer b then Some m
       else if ?a = 0 then Some (call_destructor ht m ?a)
       else free_dat (call_destructor ht m ?a) ?a) = Some m1"
    using own by (cases "bIsPointer b") (auto simp: m1_def free_dat_def call_destructor_def)
  have b1: "bkt m1 = bkt m" by (simp add: m1_def)
  then have s2: "free_bkt m1 p = Some m2" using b(1) by (simp add: free_bkt_def m2_def)
  have old: "x \<in> set ls \<Longrightarrow> bkt m2 x = bkt m x" for x using Cons.prems(2) b1 by (auto simp: m2_def)
  have d2: "dat m2 = (if bIsPointer b then dat m else (dat m)(?a := None))"
    by (simp add: m2_def m1_def)
  have "dseg (Lf (bkt m2)) p ls 0" using b(4) old by (subst dseg_cong [of _ _ "Lf (bkt m)"]) (auto simp: Lf_def)
  moreover have "data_ok m2 (set ls)"
    unfolding data_ok_def
  proof (intro ballI impI)
    fix x assume x: "x \<in> set ls" "\<not> bIsPointer (the (bkt m2 x))"
    then have ox: "\<not> bIsPointer (the (bkt m x))" using old by simp
    have "\<not> bIsPointer b \<Longrightarrow> pData (the (bkt m x)) \<noteq> ?a"
      using Cons.prems(2,3) x(1) ox b(1) unfolding data_ok_def
      by (metis distinct.simps(2) list.set_intros(1,2) option.sel)
    then show "pData (the (bkt m2 x)) \<noteq> 0 \<and> dat m2 (pData (the (bkt m2 x))) \<noteq> None \<and>
        (\<forall>q\<in>set ls. \<not> bIsPointer (the (bkt m2 q)) \<and> pData (the (bkt m2 q)) = pData (the (bkt m2 x)) \<longrightarrow> q = x)"
      using Cons.prems(3) x(1) ox old d2 by (auto simp: data_ok_def)
  qed
  moreover have "distinct ls" using Cons.prems(2) by simp
  ultimately obtain m' where m': "destroy_loop ht m2 (hd0 ls) = Some m'"
    "bkt m' = (\<lambda>x. if x \<in> set ls then None else bkt m2 x)"
    "dat m' = (\<lambda>a. if a \<in> set (owned m2 ls) then None else dat m2 a)" "mem_supply m' = mem_supply m2"
    "dlog m' = dlog m2 @ (if pDestructor ht then owned m2 ls else [])"
    using Cons.IH [of m2 p] by blast
  have "destroy_loop ht m (hd0 (p # ls)) = Some m'"
    using b s1 s2 m'(1) nx by (subst destroy_loop.simps) simp
  moreover have "owned m2 ls = owned m ls" by (rule owned_cong) (rule old)
  ultimately show ?case
    using m' b(1) d2 by (auto simp: owned_Cons m2_def m1_def fun_eq_iff)
qed

lemma destroy_ok:
  assumes inv: "hash_inv ht m ls"
  shows "\<exists>m'. php3_hash_destroy ht m = Some m' \<and>
     bkt m' = (\<lambda>x. if x \<in> set ls then None else bkt m x) \<and>
     dat m' = (\<lambda>a. if a \<in> set (owned m ls) then None else dat m a) \<and>
     mem_supply m' = mem_supply m \<and>
     dlog m' = dlog m @ (if pDestructor ht then owned m ls else [])"
proof -
  have "pListHead ht = hd0 ls" using inv by (simp add: hash_inv_def list_ok_def)
  then show ?thesis
    using destroy_loop_ok [of m 0 ls ht] inv by (simp add: hash_inv_def list_ok_def php3_hash_destroy_def)
qed

lemma distinct_owned: "hash_inv ht m ls \<Longrightarrow> distinct (owned m ls)"
  unfolding hash_inv_def data_ok_def list_ok_def owned_def
  by (auto simp: distinct_map inj_on_def)

end
