(* ===== verification/Hash_Table.thy ===== *)
theory Hash_Table
  imports Hash_Walk
begin

text \<open>
  The hash table as its clients see it: values under keys.  \<open>int_table\<close> states the contract of the
  operations on integer indices; the table of \<open>php3_hash.c\<close> is shown to meet it.
\<close>

subsection \<open>The value under a key\<close>

definition val_at :: "'v heap \<Rightarrow> addr list \<Rightarrow> hkey \<Rightarrow> 'v option" where
  "val_at m ls k = (case map_of (ents m ls) k of None \<Rightarrow> None | Some (a, _) \<Rightarrow> dat m a)"

definition all_owned :: "'v heap \<Rightarrow> addr list \<Rightarrow> bool" where
  "all_owned m ls \<longleftrightarrow> (\<forall>e \<in> set (ents m ls). \<not> snd (snd e))"

lemma all_owned_map: "all_owned m ls \<Longrightarrow> map_of (ents m ls) k = Some (a, o') \<Longrightarrow> \<not> o'"
  unfolding all_owned_def by (metis map_of_SomeD snd_conv)

lemma owned_cell:
  assumes inv: "hash_inv ht m ls" and al: "all_owned m ls" and k: "map_of (ents m ls) k = Some (a, o')"
  shows "dat m a \<noteq> None"
  using map_of_ents_obtain [OF k] all_owned_map [OF al k] inv unfolding hash_inv_def data_ok_def by metis

lemma cells_differ:
  assumes inv: "hash_inv ht m ls" and al: "all_owned m ls" and ne: "j \<noteq> k"
    and k: "map_of (ents m ls) k = Some (a, o')" and j: "map_of (ents m ls) j = Some (c, o2)"
  shows "a \<noteq> c"
proof -
  obtain p where p: "p \<in> set ls" "hkey_of (the (bkt m p)) = k" "pData (the (bkt m p)) = a"
    "bIsPointer (the (bkt m p)) = o'" by (rule map_of_ents_obtain [OF k])
  obtain q where q: "q \<in> set ls" "hkey_of (the (bkt m q)) = j" "pData (the (bkt m q)) = c"
    "bIsPointer (the (bkt m q)) = o2" by (rule map_of_ents_obtain [OF j])
  have "\<not> o'" "\<not> o2" using all_owned_map [OF al] k j by blast+
  then show ?thesis using inv p q ne unfolding hash_inv_def data_ok_def by metis
qed

lemma map_of_append_single:
  "map_of es k = None \<Longrightarrow> map_of (es @ [(k, x)]) j = (if j = k then Some x else map_of es j)"
  by (auto simp: map_add_def split: option.splits)

lemma val_store:
  assumes inv: "hash_inv ht m ls" and al: "all_owned m ls"
    and sp: "insert_spec True k v m ls st d m' ls'"
  shows "val_at m' ls' = (if st = SUCCESS then (val_at m ls)(k \<mapsto> v) else val_at m ls)" "all_owned m' ls'"
proof -
  show "val_at m' ls' = (if st = SUCCESS then (val_at m ls)(k \<mapsto> v) else val_at m ls)"
  proof (cases "map_of (ents m ls) k")
    case None
    show ?thesis
    proof (cases "st = SUCCESS")
      case True
      with sp None have d: "dat m d = None" "dat m' = (dat m)(d \<mapsto> v)"
        "ents m' ls' = ents m ls @ [(k, d, False)]" by (auto simp: insert_spec_def)
      show ?thesis
      proof
        fix j
        have "map_of (ents m' ls') j = (if j = k then Some (d, False) else map_of (ents m ls) j)"
          unfolding d(3) by (rule map_of_append_single [OF None])
        moreover have "map_of (ents m ls) j = Some (c, o2) \<Longrightarrow> c \<noteq> d" for c o2
          using owned_cell [OF inv al] d(1) by metis
        ultimately show "val_at m' ls' j = (if st = SUCCESS then (val_at m ls)(k \<mapsto> v) else val_at m ls) j"
          using True d(2) by (auto simp: val_at_def split: option.splits)
      qed
    next
      case False
      with sp None have "ls' = ls" "bkt m' = bkt m" "dat m' = dat m" by (auto simp: insert_spec_def)
      then have z: "ents m' ls' = ents m ls" "dat m' = dat m" by (simp_all add: ents_def)
      show ?thesis using False by (intro ext) (simp add: val_at_def z split: option.split)
    qed
  next
    case (Some e)
    obtain a o' where e: "e = (a, o')" by (cases e)
    with sp Some have r: "ls' = ls" "bkt m' = bkt m" "st = SUCCESS" "dat m' = (dat m)(a \<mapsto> v)"
      by (auto simp: insert_spec_def)
    have en: "ents m' ls' = ents m ls" using r by (simp add: ents_def)
    show ?thesis
    proof
      fix j
      show "val_at m' ls' j = (if st = SUCCESS then (val_at m ls)(k \<mapsto> v) else val_at m ls) j"
        using cells_differ [OF inv al, of j k] Some e r(3,4)
        by (auto simp: val_at_def en split: option.splits)
    qed
  qed
  show "all_owned m' ls'"
  proof (cases "map_of (ents m ls) k")
    case None
    then show ?thesis using sp al by (auto simp: insert_spec_def all_owned_def ents_def)
  next
    case (Some e)
    then show ?thesis using sp al by (auto simp: insert_spec_def all_owned_def ents_def split: prod.splits)
  qed
qed

lemma map_of_filter_other: "map_of (filter (\<lambda>e. fst e \<noteq> k) es) j = (if j = k then None else map_of es j)"
  by (induction es) auto

lemma val_delete:
  assumes inv: "hash_inv ht m ls" and al: "all_owned m ls"
    and sp: "delete_spec k ht m ls r"
  shows "\<exists>st ht' m' ls'. r = Some (st, ht', m') \<and> hash_inv ht' m' ls' \<and> all_owned m' ls' \<and>
     val_at m' ls' = (val_at m ls)(k := None) \<and> (st = SUCCESS \<longleftrightarrow> val_at m ls k \<noteq> None) \<and>
     ents m' ls' = filter (\<lambda>e. fst e \<noteq> k) (ents m ls) \<and>
     nNextFreeElement ht' = nNextFreeElement ht"
proof (cases "map_of (ents m ls) k")
  case None
  then have r: "r = Some (FAILURE, ht, m)" using sp by (simp add: delete_spec_def)
  have "k \<notin> fst ` set (ents m ls)" using None by (simp add: map_of_eq_None_iff)
  then have "filter (\<lambda>e. fst e \<noteq> k) (ents m ls) = ents m ls" by (auto simp: filter_id_conv)
  moreover have "val_at m ls k = None" using None by (simp add: val_at_def)
  moreover from this have "(val_at m ls)(k := None) = val_at m ls" by (simp add: fun_eq_iff)
  ultimately show ?thesis using r inv al by auto
next
  case (Some e)
  obtain a o' where e: "e = (a, o')" by (cases e)
  have no: "\<not> o'" using all_owned_map [OF al] Some e by blast
  obtain ht' m' ls' where r: "r = Some (SUCCESS, ht', m')" "hash_inv ht' m' ls'"
    "ents m' ls' = filter (\<lambda>e. fst e \<noteq> k) (ents m ls)" "dat m' = (dat m)(a := None)"
    "nNextFreeElement ht' = nNextFreeElement ht"
    using sp Some e no by (auto simp: delete_spec_def)
  have "val_at m' ls' j = ((val_at m ls)(k := None)) j" for j
    using cells_differ [OF inv al, of j k] Some e r(4)
    by (auto simp: val_at_def r(3) map_of_filter_other split: option.splits)
  moreover have "val_at m ls k \<noteq> None" using owned_cell [OF inv al] Some e by (auto simp: val_at_def)
  moreover have "all_owned m' ls'" using al r(3) by (auto simp: all_owned_def)
  ultimately show ?thesis
    by (intro exI [of _ SUCCESS] exI [of _ ht'] exI [of _ m'] exI [of _ ls']) (simp add: r fun_eq_iff)
qed

subsection \<open>The contract of the integer operations\<close>

text \<open>
  \<open>find s i\<close> is \<open>None\<close> when the call is undefined, \<open>Some None\<close> when there is no such entry.
  Indices at and above \<open>nf s\<close> are free; \<open>fits s\<close> is whether there is memory for another entry.
\<close>

locale int_table =
  fixes inv :: "'s \<Rightarrow> bool" and nf :: "'s \<Rightarrow> ulong" and find :: "'s \<Rightarrow> ulong \<Rightarrow> 'v option option"
    and upd :: "'s \<Rightarrow> ulong \<Rightarrow> 'v \<Rightarrow> (status \<times> 's) option" and del :: "'s \<Rightarrow> ulong \<Rightarrow> (status \<times> 's) option"
    and fits :: "'s \<Rightarrow> bool"
  assumes find_law: "inv s \<Longrightarrow> \<exists>r. find s i = Some r"
    and free_law: "inv s \<Longrightarrow> nf s \<le> i \<Longrightarrow> find s i = Some None"
    and upd_law: "inv s \<Longrightarrow> i \<noteq> - 1 \<Longrightarrow> \<exists>st s'. upd s i v = Some (st, s') \<and> inv s' \<and>
      (st = SUCCESS \<longleftrightarrow> find s i \<noteq> Some None \<or> fits s) \<and>
      (\<forall>j. find s' j = (if j = i \<and> st = SUCCESS then Some (Some v) else find s j)) \<and>
      nf s' = (if st = SUCCESS \<and> nf s \<le> i then i + 1 else nf s)"
    and del_law: "inv s \<Longrightarrow> \<exists>st s'. del s i = Some (st, s') \<and> inv s' \<and>
      (st = SUCCESS \<longleftrightarrow> find s i \<noteq> Some None) \<and>
      (\<forall>j. find s' j = (if j = i then Some None else find s j)) \<and> nf s' = nf s"

subsection \<open>The table of the program meets the contract\<close>

lemma word_less_succ:
  fixes i :: ulong
  assumes "i \<noteq> - 1"
  shows "i < i + 1"
proof -
  have "1 + i \<noteq> 0" using assms by (metis add.commute add.right_neutral add_minus_cancel minus_add_cancel)
  then have "unat (1 + i) = Suc (unat i)" by (rule unatSuc)
  then show ?thesis by (simp add: word_less_nat_alt add.commute)
qed

definition table_inv :: "hashtable \<times> 'v heap \<Rightarrow> bool" where
  "table_inv s \<longleftrightarrow> (\<exists>ls. hash_inv (fst s) (snd s) ls \<and> all_owned (snd s) ls \<and>
     (\<forall>h e. (KIdx h, e) \<in> set (ents (snd s) ls) \<longrightarrow> h < nNextFreeElement (fst s)))"

definition table_next_free :: "hashtable \<times> 'v heap \<Rightarrow> ulong" where
  "table_next_free s = php3_hash_next_free_element (fst s)"

text \<open>Finding an entry and reading the cell its address points to.\<close>

definition table_find :: "hashtable \<times> 'v heap \<Rightarrow> ulong \<Rightarrow> 'v option option" where
  "table_find s i = do {
     (st, a) \<leftarrow> php3_hash_index_find (fst s) (snd s) i;
     if st = SUCCESS then do { v \<leftarrow> dat (snd s) a; Some (Some v) } else Some None
   }"

definition table_update :: "hashtable \<times> 'v heap \<Rightarrow> ulong \<Rightarrow> 'v \<Rightarrow> (status \<times> hashtable \<times> 'v heap) option" where
  "table_update s i v = do {
     (st, _, ht, m) \<leftarrow> php3_hash_index_update_or_next_insert (fst s) (snd s) i v HASH_UPDATE;
     Some (st, ht, m)
   }"

definition table_del :: "hashtable \<times> 'v heap \<Rightarrow> ulong \<Rightarrow> (status \<times> hashtable \<times> 'v heap) option" where
  "table_del s i = php3_hash_index_del (fst s) (snd s) i"

definition table_fits :: "hashtable \<times> 'v heap \<Rightarrow> bool" where
  "table_fits s = entry_alloc_ok (snd s)"

lemma table_find_eq:
  assumes inv: "hash_inv ht m ls" and al: "all_owned m ls"
  shows "table_find (ht, m) i = Some (val_at m ls (KIdx i))"
proof (cases "map_of (ents m ls) (KIdx i)")
  case None
  then show ?thesis by (simp add: table_find_def find_correct(1) [OF inv] find_spec_def val_at_def)
next
  case (Some e)
  obtain a o' where e: "e = (a, o')" by (cases e)
  obtain v where "dat m a = Some v" using owned_cell [OF inv al] Some e by blast
  then show ?thesis using Some e by (simp add: table_find_def find_correct(1) [OF inv] find_spec_def val_at_def)
qed

lemma table_inv_init:
  "php3_hash_init m n hf destr pers = (Some ht, m') \<Longrightarrow> table_inv (ht, m')"
  using init_inv by (force simp: table_inv_def all_owned_def ents_def)

lemma table_update_law:
  assumes "table_inv s" and i: "i \<noteq> - 1"
  shows "\<exists>st s'. table_update s i v = Some (st, s') \<and> table_inv s' \<and>
      (st = SUCCESS \<longleftrightarrow> table_find s i \<noteq> Some None \<or> table_fits s) \<and>
      (\<forall>j. table_find s' j = (if j = i \<and> st = SUCCESS then Some (Some v) else table_find s j)) \<and>
      table_next_free s' = (if st = SUCCESS \<and> table_next_free s \<le> i then i + 1 else table_next_free s)"
proof -
  obtain ht m where s: "s = (ht, m)" by (cases s)
  from assms(1) s obtain ls where inv: "hash_inv ht m ls" and al: "all_owned m ls"
    and nf: "\<And>h e. (KIdx h, e) \<in> set (ents m ls) \<Longrightarrow> h < nNextFreeElement ht" by (auto simp: table_inv_def)
  have "store_result True (KIdx i) v ht m ls (php3_hash_index_update_or_next_insert ht m i v HASH_UPDATE)"
    using index_store_result [OF inv, of i HASH_UPDATE i v] owned_cell [OF inv al] by simp
  then obtain st d ht' m' ls' where r: "php3_hash_index_update_or_next_insert ht m i v HASH_UPDATE = Some (st, d, ht', m')"
    "hash_inv ht' m' ls'" "insert_spec True (KIdx i) v m ls st d m' ls'"
    "nNextFreeElement ht' = (if st = SUCCESS then nNextFreeElement (bump_next_free ht i) else nNextFreeElement ht)"
    "map_of (ents m ls) (KIdx i) = None \<longrightarrow> (st = SUCCESS \<longleftrightarrow> entry_alloc_ok m)"
    by (auto simp: store_result_def)
  have succ: "st = SUCCESS \<longleftrightarrow> table_find s i \<noteq> Some None \<or> table_fits s"
  proof (cases "map_of (ents m ls) (KIdx i)")
    case None
    then show ?thesis using r(5) s table_find_eq [OF inv al, of i] by (simp add: val_at_def table_fits_def)
  next
    case (Some x)
    obtain a o' where x: "x = (a, o')" by (cases x)
    then have "dat m a \<noteq> None" using owned_cell [OF inv al] Some by blast
    moreover have "st = SUCCESS" using r(3) Some x by (simp add: insert_spec_def)
    ultimately show ?thesis using s Some x table_find_eq [OF inv al, of i] by (auto simp: val_at_def)
  qed
  note v = val_store [OF inv al r(3)]
  have nf': "nNextFreeElement ht' = (if st = SUCCESS \<and> nNextFreeElement ht \<le> i then i + 1 else nNextFreeElement ht)"
    using r(4) by (simp add: bump_next_free_def)
  have "h < nNextFreeElement ht'" if e: "(KIdx h, e) \<in> set (ents m' ls')" for h e
  proof -
    have "(KIdx h, e) \<in> set (ents m ls) \<or> h = i \<and> st = SUCCESS"
    proof (cases "map_of (ents m ls) (KIdx i)")
      case None
      then show ?thesis using r(3) e by (auto simp: insert_spec_def ents_def)
    next
      case (Some x)
      then show ?thesis using r(3) e by (auto simp: insert_spec_def ents_def split: prod.splits)
    qed
    moreover have "i < i + 1" by (rule word_less_succ [OF i])
    moreover have "nNextFreeElement ht \<le> nNextFreeElement ht'" using nf' \<open>i < i + 1\<close> by auto
    moreover have "st = SUCCESS \<Longrightarrow> i < nNextFreeElement ht'" using nf' \<open>i < i + 1\<close> by auto
    ultimately show ?thesis using nf [of h e] by (auto intro: less_le_trans)
  qed
  then have "table_inv (ht', m')" using r(2) v(2) by (auto simp: table_inv_def)
  then show ?thesis
    using s r succ nf' v(1) table_find_eq [OF inv al] table_find_eq [OF r(2) v(2)]
    by (auto simp: table_update_def table_next_free_def php3_hash_next_free_element_def)
qed

interpretation ht: int_table table_inv table_next_free table_find table_update table_del table_fits
proof
  fix s :: "hashtable \<times> 'a heap" and i v
  obtain ht m where s: "s = (ht, m)" by (cases s)
  show "table_inv s \<Longrightarrow> \<exists>r. table_find s i = Some r"
    using table_find_eq s by (fastforce simp: table_inv_def)
  show "table_find s i = Some None" if "table_inv s" "table_next_free s \<le> i"
  proof -
    from that(1) s obtain ls where inv: "hash_inv ht m ls" "all_owned m ls"
      "\<And>h e. (KIdx h, e) \<in> set (ents m ls) \<Longrightarrow> h < nNextFreeElement ht" by (auto simp: table_inv_def)
    have "map_of (ents m ls) (KIdx i) = None"
    proof (cases "map_of (ents m ls) (KIdx i)")
      case (Some e)
      from inv(3) [OF map_of_SomeD [OF this]] that(2) s show ?thesis
        by (simp add: table_next_free_def php3_hash_next_free_element_def)
    qed
    then show ?thesis using table_find_eq [OF inv(1,2), of i] s by (simp add: val_at_def)
  qed
  show "table_inv s \<Longrightarrow> i \<noteq> - 1 \<Longrightarrow> \<exists>st s'. table_update s i v = Some (st, s') \<and> table_inv s' \<and>
      (st = SUCCESS \<longleftrightarrow> table_find s i \<noteq> Some None \<or> table_fits s) \<and>
      (\<forall>j. table_find s' j = (if j = i \<and> st = SUCCESS then Some (Some v) else table_find s j)) \<and>
      table_next_free s' = (if st = SUCCESS \<and> table_next_free s \<le> i then i + 1 else table_next_free s)"
    by (rule table_update_law)
  show "\<exists>st s'. table_del s i = Some (st, s') \<and> table_inv s' \<and>
      (st = SUCCESS \<longleftrightarrow> table_find s i \<noteq> Some None) \<and>
      (\<forall>j. table_find s' j = (if j = i then Some None else table_find s j)) \<and>
      table_next_free s' = table_next_free s" if "table_inv s"
  proof -
    from that s obtain ls where inv: "hash_inv ht m ls" "all_owned m ls"
      "\<And>h e. (KIdx h, e) \<in> set (ents m ls) \<Longrightarrow> h < nNextFreeElement ht" by (auto simp: table_inv_def)
    from val_delete [OF inv(1,2) index_del_spec [OF inv(1), of i]] obtain st ht' m' ls' where
      r: "php3_hash_index_del ht m i = Some (st, ht', m')" "hash_inv ht' m' ls'" "all_owned m' ls'"
      "val_at m' ls' = (val_at m ls)(KIdx i := None)" "(st = SUCCESS) = (val_at m ls (KIdx i) \<noteq> None)"
      "ents m' ls' = filter (\<lambda>e. fst e \<noteq> KIdx i) (ents m ls)" "nNextFreeElement ht' = nNextFreeElement ht" by blast
    have "(KIdx h, e) \<in> set (ents m' ls') \<Longrightarrow> h < nNextFreeElement ht'" for h e
      using r(6,7) inv(3) [of h e] by auto
    then have "table_inv (ht', m')" using r(2,3) by (auto simp: table_inv_def)
    then show ?thesis
      using s r table_find_eq [OF inv(1,2)] table_find_eq [OF r(2,3)]
      by (auto simp: table_del_def table_next_free_def php3_hash_next_free_element_def)
  qed
qed

end
