(* ===== verification/Hash_Spec.thy ===== *)
theory Hash_Spec
  imports Hash_Table
begin

text \<open>
  The abstract table: an ordered list of keys with values, and the next free index.  Every
  operation of the program's table is a step of the abstract one, so that any sequence of
  operations on a fresh table behaves as it does on the list.
\<close>

subsection \<open>The abstract table\<close>

type_synonym 'v odict = "(hkey \<times> 'v) list \<times> ulong"

definition od_store :: "hkey \<Rightarrow> 'v \<Rightarrow> (hkey \<times> 'v) list \<Rightarrow> (hkey \<times> 'v) list" where
  "od_store k v d =
     (if k \<in> fst ` set d then map (\<lambda>(j, w). (j, if j = k then v else w)) d else d @ [(k, v)])"

definition od_delete :: "hkey \<Rightarrow> (hkey \<times> 'v) list \<Rightarrow> (hkey \<times> 'v) list" where
  "od_delete k d = filter (\<lambda>e. fst e \<noteq> k) d"

definition od_bump :: "hkey \<Rightarrow> ulong \<Rightarrow> ulong" where
  "od_bump k n = (case k of KIdx h \<Rightarrow> if n \<le> h then h + 1 else n | KStr _ \<Rightarrow> n)"

datatype 'v hop =
  Add string 'v | Update string 'v | IndexUpdate ulong 'v | NextInsert 'v | Delete string | IndexDelete ulong

definition hop_key :: "'v hop \<Rightarrow> ulong \<Rightarrow> hkey" where
  "hop_key opn n =
     (case opn of Add k _ \<Rightarrow> ckey k | Update k _ \<Rightarrow> ckey k | IndexUpdate h _ \<Rightarrow> KIdx h
      | NextInsert _ \<Rightarrow> KIdx n | Delete k \<Rightarrow> ckey k | IndexDelete h \<Rightarrow> KIdx h)"

definition od_step :: "'v hop \<Rightarrow> status \<Rightarrow> 'v odict \<Rightarrow> 'v odict" where
  "od_step opn st a =
     (let k = hop_key opn (snd a) in
      if st = FAILURE then a
      else case opn of
        Delete _ \<Rightarrow> (od_delete k (fst a), snd a)
      | IndexDelete _ \<Rightarrow> (od_delete k (fst a), snd a)
      | Add _ v \<Rightarrow> (od_store k v (fst a), od_bump k (snd a))
      | Update _ v \<Rightarrow> (od_store k v (fst a), od_bump k (snd a))
      | IndexUpdate _ v \<Rightarrow> (od_store k v (fst a), od_bump k (snd a))
      | NextInsert v \<Rightarrow> (od_store k v (fst a), od_bump k (snd a)))"

text \<open>
  The answer, which depends on whether there is memory for another entry: a deletion succeeds exactly when
  there is the entry, \<open>Add\<close> and \<open>NextInsert\<close> exactly when there is none but memory for it, and the others
  when there is one or memory for it.
\<close>

definition od_status :: "'v hop \<Rightarrow> bool \<Rightarrow> 'v odict \<Rightarrow> status" where
  "od_status opn mem a =
     (let present = hop_key opn (snd a) \<in> fst ` set (fst a) in
      if (case opn of
            Add _ _ \<Rightarrow> \<not> present \<and> mem
          | NextInsert _ \<Rightarrow> \<not> present \<and> mem
          | Update _ _ \<Rightarrow> present \<or> mem
          | IndexUpdate _ _ \<Rightarrow> present \<or> mem
          | Delete _ \<Rightarrow> present
          | IndexDelete _ \<Rightarrow> present)
      then SUCCESS else FAILURE)"

text \<open>A sequence of operations, given where there is memory.\<close>

fun od_run :: "'v hop list \<Rightarrow> bool list \<Rightarrow> 'v odict \<Rightarrow> status list \<times> 'v odict" where
  "od_run (opn # ops) (mem # mems) a =
     (let st = od_status opn mem a; (sts, a') = od_run ops mems (od_step opn st a) in (st # sts, a'))"
| "od_run _ _ a = ([], a)"

subsection \<open>The program's operations as steps\<close>

type_synonym 'v table = "hashtable \<times> 'v heap"

fun hop_exec :: "'v hop \<Rightarrow> 'v table \<Rightarrow> (status \<times> 'v table) option" where
  "hop_exec (Add k v) (ht, m) =
     do { (st, _, ht', m') \<leftarrow> php3_hash_add_or_update ht m k v HASH_ADD; Some (st, ht', m') }"
| "hop_exec (Update k v) (ht, m) =
     do { (st, _, ht', m') \<leftarrow> php3_hash_add_or_update ht m k v HASH_UPDATE; Some (st, ht', m') }"
| "hop_exec (IndexUpdate h v) (ht, m) =
     do { (st, _, ht', m') \<leftarrow> php3_hash_index_update_or_next_insert ht m h v HASH_UPDATE; Some (st, ht', m') }"
| "hop_exec (NextInsert v) (ht, m) =
     do { (st, _, ht', m') \<leftarrow> php3_hash_index_update_or_next_insert ht m 0 v HASH_NEXT_INSERT; Some (st, ht', m') }"
| "hop_exec (Delete k) (ht, m) = php3_hash_del ht m k"
| "hop_exec (IndexDelete h) (ht, m) = php3_hash_index_del ht m h"

fun hops_exec :: "'v hop list \<Rightarrow> 'v table \<Rightarrow> (status list \<times> 'v table) option" where
  "hops_exec [] s = Some ([], s)"
| "hops_exec (opn # ops) s = do {
     (st, s') \<leftarrow> hop_exec opn s; (sts, s'') \<leftarrow> hops_exec ops s'; Some (st # sts, s'') }"

text \<open>Whether there is memory for another entry, before each operation.\<close>

fun hops_memory :: "'v hop list \<Rightarrow> 'v table \<Rightarrow> bool list" where
  "hops_memory [] s = []"
| "hops_memory (opn # ops) s =
     entry_alloc_ok (snd s) # (case hop_exec opn s of None \<Rightarrow> [] | Some (_, s') \<Rightarrow> hops_memory ops s')"

text \<open>
  Where the code is correct: a key is not empty, the allocation of a data cell does not fail after
  those of bucket and key, and no entry has the hash of a string key to be deleted as its index.
\<close>

definition hop_ok :: "'v hop \<Rightarrow> 'v table \<Rightarrow> bool" where
  "hop_ok opn s =
     (case opn of
        Add k _ \<Rightarrow> k \<noteq> [] \<and> (handle_numeric k = None \<longrightarrow> data_alloc_ok (snd s))
      | Update k _ \<Rightarrow> k \<noteq> [] \<and> (handle_numeric k = None \<longrightarrow> data_alloc_ok (snd s))
      | Delete k \<Rightarrow> handle_numeric k = None \<longrightarrow>
          php3_hash_index_exists (fst s) (snd s) (pHashFunction (fst s) k) = Some False
      | _ \<Rightarrow> True)"

fun hops_ok :: "'v hop list \<Rightarrow> 'v table \<Rightarrow> bool" where
  "hops_ok [] s = True"
| "hops_ok (opn # ops) s =
     (hop_ok opn s \<and> (case hop_exec opn s of None \<Rightarrow> True | Some (_, s') \<Rightarrow> hops_ok ops s'))"

subsection \<open>The abstraction\<close>

definition hview :: "'v heap \<Rightarrow> addr list \<Rightarrow> (hkey \<times> 'v) list" where
  "hview m ls = map (\<lambda>(k, a, _). (k, the (dat m a))) (ents m ls)"

definition table_rel :: "'v table \<Rightarrow> 'v odict \<Rightarrow> bool" where
  "table_rel s a \<longleftrightarrow>
     (\<exists>ls. hash_inv (fst s) (snd s) ls \<and> all_owned (snd s) ls \<and> fst a = hview (snd s) ls \<and>
           snd a = nNextFreeElement (fst s))"

lemma hview_keys: "fst ` set (hview m ls) = fst ` set (ents m ls)"
  unfolding hview_def by force

lemma hview_present: "k \<in> fst ` set (hview m ls) \<longleftrightarrow> map_of (ents m ls) k \<noteq> None"
  unfolding hview_keys by (simp add: map_of_eq_None_iff)

lemma hview_lookup:
  assumes inv: "hash_inv ht m ls" and al: "all_owned m ls"
  shows "map_of (hview m ls) k = val_at m ls k"
proof -
  have "map_of (map (\<lambda>(k, a, _). (k, the (dat m a))) es) k = map_option (\<lambda>(a, _). the (dat m a)) (map_of es k)"
    for es :: "entry list" by (induction es) auto
  then have "map_of (hview m ls) k = map_option (\<lambda>(a, _). the (dat m a)) (map_of (ents m ls) k)"
    unfolding hview_def .
  moreover have "map_of (ents m ls) k = Some (a, o') \<Longrightarrow> dat m a \<noteq> None" for a o'
    by (rule owned_cell [OF inv al])
  ultimately show ?thesis unfolding val_at_def by (fastforce split: option.splits)
qed

lemma distinct_keys: "hash_inv ht m ls \<Longrightarrow> distinct (map fst (ents m ls))"
  unfolding hash_inv_def keys_ok_def list_ok_def ents_def
  by (simp add: distinct_map comp_def ent_def inj_on_def)

text \<open>One cell is overwritten: the value of its key changes, the others stay.\<close>

lemma hview_overwrite:
  assumes inv: "hash_inv ht m ls" and al: "all_owned m ls" and k: "map_of (ents m ls) k = Some (a, o')"
    and b: "bkt m' = bkt m" and d: "dat m' = (dat m)(a \<mapsto> v)"
  shows "hview m' ls = od_store k v (hview m ls)"
proof -
  have e: "ents m' ls = ents m ls" using b by (simp add: ents_def)
  have p: "k \<in> fst ` set (hview m ls)" unfolding hview_present using k by simp
  have "(\<lambda>(j, c, _). (j, the (dat m' c))) x = (\<lambda>(j, w). (j, if j = k then v else w)) ((\<lambda>(j, c, _). (j, the (dat m c))) x)"
    if x: "x \<in> set (ents m ls)" for x
  proof -
    obtain j c o2 where xe: "x = (j, c, o2)" by (cases x)
    have j: "map_of (ents m ls) j = Some (c, o2)" using map_of_is_SomeI [OF distinct_keys [OF inv]] x xe by simp
    then show ?thesis using cells_differ [OF inv al _ k j] k d xe by auto
  qed
  then show ?thesis unfolding od_store_def hview_def e using p by (simp add: hview_def)
qed

lemma store_rel:
  assumes inv: "hash_inv ht m ls" and al: "all_owned m ls" and inv': "hash_inv ht' m' ls'"
    and sp: "insert_spec ow k v m ls st d m' ls'"
    and nf: "nNextFreeElement ht' = (if st = SUCCESS then od_bump k n else n)"
  shows "table_rel (ht', m') (if st = FAILURE then (hview m ls, n) else (od_store k v (hview m ls), od_bump k n))"
    and "k \<in> fst ` set (hview m ls) \<Longrightarrow> st = (if ow then SUCCESS else FAILURE)"
proof -
  have st2: "st = SUCCESS \<or> st = FAILURE" by (cases st) auto
  have "all_owned m' ls' \<and> hview m' ls' = (if st = FAILURE then hview m ls else od_store k v (hview m ls))"
  proof (cases "map_of (ents m ls) k")
    case None
    show ?thesis
    proof (cases "st = SUCCESS")
      case True
      with sp None have d: "dat m d = None" "dat m' = (dat m)(d \<mapsto> v)"
        "ents m' ls' = ents m ls @ [(k, d, False)]" by (auto simp: insert_spec_def)
      have "c \<noteq> d" if "(j, c, o2) \<in> set (ents m ls)" for j c o2
      proof -
        have "map_of (ents m ls) j = Some (c, o2)"
          using map_of_is_SomeI [OF distinct_keys [OF inv]] that by simp
        then show ?thesis using owned_cell [OF inv al] d(1) by metis
      qed
      then have "hview m' ls' = hview m ls @ [(k, v)]" unfolding hview_def d(2,3) by auto
      moreover have "k \<notin> fst ` set (hview m ls)" unfolding hview_present using None by simp
      ultimately show ?thesis using True al d(3) by (simp add: od_store_def all_owned_def)
    next
      case False
      with sp None have "ls' = ls" "bkt m' = bkt m" "dat m' = dat m" "st = FAILURE"
        by (auto simp: insert_spec_def)
      then show ?thesis using al by (simp add: hview_def ents_def all_owned_def)
    qed
  next
    case (Some e)
    obtain a o' where e: "e = (a, o')" by (cases e)
    with sp Some have r: "ls' = ls" "bkt m' = bkt m"
      "if ow then st = SUCCESS \<and> dat m' = (dat m)(a \<mapsto> v) else st = FAILURE \<and> m' = m"
      by (auto simp: insert_spec_def)
    have "all_owned m' ls'" using r(1,2) al by (simp add: all_owned_def ents_def)
    then show ?thesis
      using r hview_overwrite [OF inv al _ r(2)] Some e by (cases ow) auto
  qed
  then show "table_rel (ht', m') (if st = FAILURE then (hview m ls, n) else (od_store k v (hview m ls), od_bump k n))"
    unfolding table_rel_def using inv' nf st2 by auto
  show "st = (if ow then SUCCESS else FAILURE)" if "k \<in> fst ` set (hview m ls)"
    using that sp unfolding hview_present insert_spec_def by (auto split: prod.splits if_splits)
qed

subsection \<open>Each operation is a step\<close>

lemma store_result_rel:
  assumes inv: "hash_inv ht m ls" and al: "all_owned m ls"
    and r: "store_result ow k v ht m ls r"
  shows "\<exists>st d s'. r = Some (st, d, s') \<and>
    table_rel s' (if st = FAILURE then (hview m ls, nNextFreeElement ht)
      else (od_store k v (hview m ls), od_bump k (nNextFreeElement ht))) \<and>
    st = (if (if k \<in> fst ` set (hview m ls) then ow else entry_alloc_ok m) then SUCCESS else FAILURE)"
proof -
  obtain st d ht' m' ls' where x: "r = Some (st, d, ht', m')" "hash_inv ht' m' ls'"
    "insert_spec ow k v m ls st d m' ls'"
    "map_of (ents m ls) k = None \<longrightarrow> (st = SUCCESS \<longleftrightarrow> entry_alloc_ok m)"
    "nNextFreeElement ht' = (case k of KIdx h \<Rightarrow> if st = SUCCESS then nNextFreeElement (bump_next_free ht h)
                              else nNextFreeElement ht | KStr _ \<Rightarrow> nNextFreeElement ht)"
    using r unfolding store_result_def by (elim exE conjE) (rule that; assumption)
  have nf: "nNextFreeElement ht' = (if st = SUCCESS then od_bump k (nNextFreeElement ht) else nNextFreeElement ht)"
    using x(5) by (cases k) (auto simp: od_bump_def bump_next_free_def)
  have "st = (if (if k \<in> fst ` set (hview m ls) then ow else entry_alloc_ok m) then SUCCESS else FAILURE)"
  proof (cases "k \<in> fst ` set (hview m ls)")
    case True
    then show ?thesis using store_rel(2) [OF inv al x(2,3) nf True] by (simp only: if_True)
  next
    case False
    then have "st = SUCCESS \<longleftrightarrow> entry_alloc_ok m" using x(4) hview_present [of k m ls] by blast
    then show ?thesis using False by (cases st) simp_all
  qed
  then show ?thesis using x(1) store_rel(1) [OF inv al x(2,3) nf] by blast
qed

lemma key_store_any:
  assumes inv: "hash_inv ht m ls" and al: "all_owned m ls" and ne: "key \<noteq> []"
    and da: "handle_numeric key = None \<longrightarrow> data_alloc_ok m" and f: "flag \<noteq> HASH_NEXT_INSERT"
  shows "store_result (flag \<noteq> HASH_ADD) (ckey key) v ht m ls (php3_hash_add_or_update ht m key v flag)"
proof (cases "handle_numeric key")
  case None
  show ?thesis
    using key_store_result [OF inv ne None, of flag v] owned_cell [OF inv al] da None by (simp add: ckey_def)
next
  case (Some idx)
  have "(flag = HASH_UPDATE) = (flag \<noteq> HASH_ADD)" using f by (cases flag) auto
  then show ?thesis
    using index_store_result [OF inv, of idx flag idx v] owned_cell [OF inv al] f Some ne
    by (simp add: ckey_def php3_hash_add_or_update_def)
qed

lemma delete_spec_rel:
  assumes inv: "hash_inv ht m ls" and al: "all_owned m ls" and sp: "delete_spec k ht m ls r"
  shows "\<exists>st s'. r = Some (st, s') \<and>
    table_rel s' (if st = FAILURE then (hview m ls, nNextFreeElement ht)
      else (od_delete k (hview m ls), nNextFreeElement ht)) \<and>
    (st = SUCCESS \<longleftrightarrow> k \<in> fst ` set (hview m ls))"
proof (cases "map_of (ents m ls) k")
  case None
  then show ?thesis
    using sp inv al hview_present [of k m ls] by (auto simp: delete_spec_def table_rel_def)
next
  case (Some e)
  obtain a o' where e: "e = (a, o')" by (cases e)
  have "\<not> o'" using all_owned_map [OF al] Some e by blast
  then obtain ht' m' ls' where r: "r = Some (SUCCESS, ht', m')" "hash_inv ht' m' ls'"
    "ents m' ls' = filter (\<lambda>e. fst e \<noteq> k) (ents m ls)" "dat m' = (dat m)(a := None)"
    "nNextFreeElement ht' = nNextFreeElement ht"
    using sp Some e by (auto simp: delete_spec_def)
  have al': "all_owned m' ls'" using al r(3) by (auto simp: all_owned_def)
  have "map (\<lambda>(j, c, _). (j, the (dat m' c))) (filter (\<lambda>e. fst e \<noteq> k) (ents m ls))
      = map (\<lambda>(j, c, _). (j, the (dat m c))) (filter (\<lambda>e. fst e \<noteq> k) (ents m ls))"
  proof (rule map_cong [OF refl], clarsimp)
    fix j c o2 assume x: "(j, c, o2) \<in> set (ents m ls)" "j \<noteq> k"
    then have "map_of (ents m ls) j = Some (c, o2)"
      using map_of_is_SomeI [OF distinct_keys [OF inv]] by simp
    then show "the (dat m' c) = the (dat m c)" using cells_differ [OF inv al x(2)] Some e r(4) by auto
  qed
  moreover have "filter (\<lambda>e. fst e \<noteq> k) (map (\<lambda>(j, c, _). (j, the (dat m c))) es)
      = map (\<lambda>(j, c, _). (j, the (dat m c))) (filter (\<lambda>e. fst e \<noteq> k) es)" for es :: "entry list"
    by (induction es) auto
  ultimately have "hview m' ls' = od_delete k (hview m ls)"
    unfolding hview_def od_delete_def r(3) by simp
  then show ?thesis
    using r(1,2,5) al' hview_present [of k m ls] Some
    by (intro exI [of _ SUCCESS] exI [of _ "(ht', m')"]) (auto simp: table_rel_def)
qed

lemma od_step_simps [simp]:
  "od_step (Add k v) st (d, n) = (if st = FAILURE then (d, n) else (od_store (ckey k) v d, od_bump (ckey k) n))"
  "od_step (Update k v) st (d, n) = (if st = FAILURE then (d, n) else (od_store (ckey k) v d, od_bump (ckey k) n))"
  "od_step (IndexUpdate h v) st (d, n) = (if st = FAILURE then (d, n) else (od_store (KIdx h) v d, od_bump (KIdx h) n))"
  "od_step (NextInsert v) st (d, n) = (if st = FAILURE then (d, n) else (od_store (KIdx n) v d, od_bump (KIdx n) n))"
  "od_step (Delete k) st (d, n) = (if st = FAILURE then (d, n) else (od_delete (ckey k) d, n))"
  "od_step (IndexDelete h) st (d, n) = (if st = FAILURE then (d, n) else (od_delete (KIdx h) d, n))"
  by (simp_all add: od_step_def hop_key_def Let_def)

lemma od_status_simps [simp]:
  "od_status (Add k v) mem (d, n) = (if ckey k \<notin> fst ` set d \<and> mem then SUCCESS else FAILURE)"
  "od_status (Update k v) mem (d, n) = (if ckey k \<in> fst ` set d \<or> mem then SUCCESS else FAILURE)"
  "od_status (IndexUpdate h v) mem (d, n) = (if KIdx h \<in> fst ` set d \<or> mem then SUCCESS else FAILURE)"
  "od_status (NextInsert v) mem (d, n) = (if KIdx n \<notin> fst ` set d \<and> mem then SUCCESS else FAILURE)"
  "od_status (Delete k) mem (d, n) = (if ckey k \<in> fst ` set d then SUCCESS else FAILURE)"
  "od_status (IndexDelete h) mem (d, n) = (if KIdx h \<in> fst ` set d then SUCCESS else FAILURE)"
  by (simp_all add: od_status_def hop_key_def)

lemma step_result:
  assumes "\<exists>st d s'. r = Some (st, d, s') \<and> table_rel s' (A st) \<and> st = st0"
  shows "\<exists>d s'. r = Some (st0, d, s') \<and> table_rel s' (A st0)"
  using assms by blast

lemma hop_step:
  assumes rel: "table_rel s a" and ok: "hop_ok opn s"
  shows "\<exists>s'. hop_exec opn s = Some (od_status opn (entry_alloc_ok (snd s)) a, s') \<and>
    table_rel s' (od_step opn (od_status opn (entry_alloc_ok (snd s)) a) a)"
proof -
  obtain ht m where s: "s = (ht, m)" by (cases s)
  obtain ls where inv: "hash_inv ht m ls" and al: "all_owned m ls"
    and a: "a = (hview m ls, nNextFreeElement ht)" using rel s by (auto simp: table_rel_def prod_eq_iff)
  note st = step_result [OF store_result_rel [OF inv al]]
  have ix: "store_result (flag = HASH_UPDATE) (KIdx h) v ht m ls (php3_hash_index_update_or_next_insert ht m h0 v flag)"
    if "h = (if flag = HASH_NEXT_INSERT then nNextFreeElement ht else h0)" for h h0 flag and v :: 'a
    using index_store_result [OF inv that] owned_cell [OF inv al] by blast
  show ?thesis
  proof (cases opn)
    case (Add k v)
    have "store_result False (ckey k) v ht m ls (php3_hash_add_or_update ht m k v HASH_ADD)"
      using key_store_any [OF inv al, of k HASH_ADD v] ok s Add by (simp add: hop_ok_def)
    from st [OF this] show ?thesis using Add s a by (auto split: if_splits)
  next
    case (Update k v)
    have "store_result True (ckey k) v ht m ls (php3_hash_add_or_update ht m k v HASH_UPDATE)"
      using key_store_any [OF inv al, of k HASH_UPDATE v] ok s Update by (simp add: hop_ok_def)
    from st [OF this] show ?thesis using Update s a by (auto split: if_splits)
  next
    case (IndexUpdate h v)
    have "store_result True (KIdx h) v ht m ls (php3_hash_index_update_or_next_insert ht m h v HASH_UPDATE)"
      using ix [of h HASH_UPDATE h v] by simp
    from st [OF this] show ?thesis using IndexUpdate s a by (auto split: if_splits)
  next
    case (NextInsert v)
    have "store_result False (KIdx (nNextFreeElement ht)) v ht m ls (php3_hash_index_update_or_next_insert ht m 0 v HASH_NEXT_INSERT)"
      using ix [of "nNextFreeElement ht" HASH_NEXT_INSERT 0 v] by simp
    from st [OF this] show ?thesis using NextInsert s a by (auto split: if_splits)
  next
    case (Delete k)
    have c: "handle_numeric k = None \<Longrightarrow> map_of (ents m ls) (KIdx (pHashFunction ht k)) = None"
      using ok Delete s exists_correct(1) [OF inv] by (simp add: hop_ok_def del: not_None_eq)
    have "delete_spec (ckey k) ht m ls (php3_hash_del ht m k)" by (rule key_del_spec [OF inv]) (rule c)
    from delete_spec_rel [OF inv al this] obtain st' s' where "php3_hash_del ht m k = Some (st', s')"
      "table_rel s' (if st' = FAILURE then (hview m ls, nNextFreeElement ht)
        else (od_delete (ckey k) (hview m ls), nNextFreeElement ht))"
      "st' = SUCCESS \<longleftrightarrow> ckey k \<in> fst ` set (hview m ls)" by blast
    then show ?thesis using Delete s a by (cases st') simp_all
  next
    case (IndexDelete h)
    from delete_spec_rel [OF inv al index_del_spec [OF inv, of h]] obtain st' s' where
      "php3_hash_index_del ht m h = Some (st', s')"
      "table_rel s' (if st' = FAILURE then (hview m ls, nNextFreeElement ht)
        else (od_delete (KIdx h) (hview m ls), nNextFreeElement ht))"
      "st' = SUCCESS \<longleftrightarrow> KIdx h \<in> fst ` set (hview m ls)" by blast
    then show ?thesis using IndexDelete s a by (cases st') simp_all
  qed
qed

subsection \<open>Sequences of operations\<close>

lemma hops_steps:
  assumes "table_rel s a" and "hops_ok ops s"
  shows "\<exists>s'. hops_exec ops s = Some (fst (od_run ops (hops_memory ops s) a), s') \<and>
    table_rel s' (snd (od_run ops (hops_memory ops s) a))"
  using assms
proof (induction ops arbitrary: s a)
  case (Cons opn ops)
  define st where "st = od_status opn (entry_alloc_ok (snd s)) a"
  from hop_step [OF Cons.prems(1), of opn] Cons.prems(2) obtain s1 where
    1: "hop_exec opn s = Some (st, s1)" "table_rel s1 (od_step opn st a)" by (auto simp: st_def)
  then have "hops_ok ops s1" using Cons.prems(2) by simp
  from Cons.IH [OF 1(2) this] obtain s' where
    "hops_exec ops s1 = Some (fst (od_run ops (hops_memory ops s1) (od_step opn st a)), s')"
    "table_rel s' (snd (od_run ops (hops_memory ops s1) (od_step opn st a)))" by blast
  then show ?case using 1(1) by (simp add: Let_def case_prod_beta flip: st_def)
qed simp

lemma table_rel_init: "php3_hash_init m n hf destr pers = (Some ht, m') \<Longrightarrow> table_rel (ht, m') ([], 0)"
  using init_inv [of m n hf destr pers ht m']
  by (auto simp: table_rel_def all_owned_def hview_def php3_hash_init_def Let_def split: if_splits prod.splits)

end
