(* ===== verification/List_Res.thy ===== *)
theory List_Res
  imports Hash_Table
begin

text \<open>
  The resource lists of \<open>list.c\<close>: resources (files, database links) live in a hash table under
  integer ids.  The operations are written over the integer interface of a table, and instantiated
  with the table of \<open>php3_hash.c\<close>.
\<close>

record list_entry =
  le_ptr :: addr
  le_type :: int

record list_destructors_entry =
  list_destructor :: "addr option"
  plist_destructor :: "addr option"
  module_number :: int
  resource_id :: int

subsection \<open>Ids\<close>

text \<open>An id is an \<open>int\<close>; the table takes an \<open>ulong\<close>: cutting to 32 bits, and sign extension.\<close>

definition to_id :: "ulong \<Rightarrow> int" where
  "to_id w = signed_take_bit 31 (uint w)"

definition of_id :: "int \<Rightarrow> ulong" where
  "of_id i = word_of_int i"

subsection \<open>The operations\<close>

text \<open>The id is returned even when the entry could not be stored.\<close>

definition list_do_insert ::
  "('s \<Rightarrow> ulong) \<Rightarrow> ('s \<Rightarrow> ulong \<Rightarrow> list_entry \<Rightarrow> (status \<times> 's) option) \<Rightarrow> 's \<Rightarrow> addr \<Rightarrow> int \<Rightarrow>
   (int \<times> 's) option" where
  "list_do_insert nf upd s ptr ty =
     (let index0 = to_id (nf s); index = (if index0 = 0 then index0 + 1 else index0);
          le = \<lparr>le_ptr = ptr, le_type = ty\<rparr>
      in do { (_, s') \<leftarrow> upd s (of_id index) le; Some (index, s') })"

definition list_do_delete :: "('s \<Rightarrow> ulong \<Rightarrow> (status \<times> 's) option) \<Rightarrow> 's \<Rightarrow> int \<Rightarrow> (status \<times> 's) option" where
  "list_do_delete del s id' = del s (of_id id')"

text \<open>The pointer (\<open>NULL\<close> when there is no entry) and the type (-1).\<close>

definition list_do_find :: "('s \<Rightarrow> ulong \<Rightarrow> list_entry option option) \<Rightarrow> 's \<Rightarrow> int \<Rightarrow> (addr \<times> int) option" where
  "list_do_find fnd s id' = do {
     r \<leftarrow> fnd s (of_id id');
     Some (case r of Some le \<Rightarrow> (le_ptr le, le_type le) | None \<Rightarrow> (0, - 1))
   }"

type_synonym reslist = "hashtable \<times> list_entry heap"
type_synonym destructors = "hashtable \<times> list_destructors_entry heap"

definition php3_list_do_insert :: "reslist \<Rightarrow> addr \<Rightarrow> int \<Rightarrow> (int \<times> reslist) option" where
  "php3_list_do_insert l ptr ty = list_do_insert table_next_free table_update l ptr ty"

definition php3_list_do_delete :: "reslist \<Rightarrow> int \<Rightarrow> (status \<times> reslist) option" where
  "php3_list_do_delete l id' = list_do_delete table_del l id'"

definition php3_list_do_find :: "reslist \<Rightarrow> int \<Rightarrow> (addr \<times> int) option" where
  "php3_list_do_find l id' = list_do_find table_find l id'"

text \<open>
  What destroying an entry does: a call of the destructor registered for its type (given by the
  address of the function), nothing, or a warning.
\<close>

datatype action = Call addr addr | Nothing | Warn int

definition list_entry_destructor :: "destructors \<Rightarrow> list_entry \<Rightarrow> action option" where
  "list_entry_destructor ds le = do {
     r \<leftarrow> table_find ds (of_id (le_type le));
     Some (case r of
        Some ld \<Rightarrow> (case list_destructor ld of Some f \<Rightarrow> Call f (le_ptr le) | None \<Rightarrow> Nothing)
      | None \<Rightarrow> Warn (le_type le))
   }"

definition plist_entry_destructor :: "destructors \<Rightarrow> list_entry \<Rightarrow> action option" where
  "plist_entry_destructor ds le = do {
     r \<leftarrow> table_find ds (of_id (le_type le));
     Some (case r of
        Some ld \<Rightarrow> (case plist_destructor ld of Some f \<Rightarrow> Call f (le_ptr le) | None \<Rightarrow> Nothing)
      | None \<Rightarrow> Warn (le_type le))
   }"

text \<open>\<open>_register_list_destructors\<close> of \<open>internal_functions.c\<close>; \<open>FAILURE\<close> is -1.\<close>

definition register_list_destructors ::
  "destructors \<Rightarrow> addr option \<Rightarrow> addr option \<Rightarrow> int \<Rightarrow> (int \<times> destructors) option" where
  "register_list_destructors ds ld pld md =
     (let e = \<lparr>list_destructor = ld, plist_destructor = pld, module_number = md,
               resource_id = to_id (nNextFreeElement (fst ds))\<rparr>
      in do {
        (st, _, ht, m) \<leftarrow> php3_hash_index_update_or_next_insert (fst ds) (snd ds) 0 e HASH_NEXT_INSERT;
        if st = FAILURE then Some (- 1, ht, m)
        else Some (to_id (nNextFreeElement ht - 1), ht, m)
      })"

subsection \<open>Correctness over any table\<close>

lemma to_id_small: "w < 2147483648 \<Longrightarrow> to_id w = uint w"
proof -
  assume "w < 2147483648"
  then have "uint w < 2147483648" by (simp add: word_less_def)
  moreover have "- 2147483648 \<le> uint w" using uint_ge_0 [of w] by linarith
  ultimately show ?thesis unfolding to_id_def by (intro signed_take_bit_int_eq_self) simp_all
qed

lemma of_to_id: "w < 2147483648 \<Longrightarrow> of_id (to_id w) = w"
  by (simp add: to_id_small of_id_def)

lemma of_id_1 [simp]: "of_id 1 = 1"
  by (simp add: of_id_def)

locale res_table = int_table inv nf find upd del fits
  for inv :: "'s \<Rightarrow> bool" and nf :: "'s \<Rightarrow> ulong" and find :: "'s \<Rightarrow> ulong \<Rightarrow> list_entry option option"
    and upd :: "'s \<Rightarrow> ulong \<Rightarrow> list_entry \<Rightarrow> (status \<times> 's) option"
    and del :: "'s \<Rightarrow> ulong \<Rightarrow> (status \<times> 's) option" and fits :: "'s \<Rightarrow> bool"
begin

text \<open>The id of the next resource.\<close>

definition next_id :: "'s \<Rightarrow> ulong" where
  "next_id s = (if nf s = 0 then 1 else nf s)"

lemma next_id_free: "inv s \<Longrightarrow> find s (next_id s) = Some None"
  using free_law [of s "next_id s"] by (simp add: next_id_def)

lemma next_id_of_id:
  assumes "nf s < 2147483648"
  shows "of_id (if to_id (nf s) = 0 then to_id (nf s) + 1 else to_id (nf s)) = next_id s"
proof -
  have "to_id (nf s) = 0 \<longleftrightarrow> nf s = 0" using to_id_small [OF assms] by (simp add: uint_0_iff)
  moreover have "to_id 0 = 0" by (simp add: to_id_def)
  ultimately show ?thesis using of_to_id [OF assms] by (auto simp: next_id_def)
qed

text \<open>
  With ids left, a resource gets an id that was free and not 0; it is found under it, if there was memory
  for it, and the other resources stay.
\<close>

lemma insert_ok:
  assumes inv: "inv s" and b: "nf s < 2147483648"
  shows "\<exists>i s'. list_do_insert nf upd s ptr ty = Some (i, s') \<and> inv s' \<and> 0 < i \<and> of_id i = next_id s \<and>
    list_do_find find s i = Some (0, - 1) \<and>
    (\<forall>j. list_do_find find s' j = (if of_id j = of_id i \<and> fits s then Some (ptr, ty) else list_do_find find s j)) \<and>
    nf s' = (if fits s then next_id s + 1 else nf s)"
proof -
  let ?i = "if to_id (nf s) = 0 then to_id (nf s) + 1 else to_id (nf s)" and ?le = "\<lparr>le_ptr = ptr, le_type = ty\<rparr>"
  have of: "of_id ?i = next_id s" by (rule next_id_of_id [OF b])
  have u: "uint (nf s) < 2147483648" using b by (simp add: word_less_def)
  have pos: "0 < ?i" using to_id_small [OF b] uint_ge_0 [of "nf s"] by (simp add: order_less_le)
  have "next_id s < 2147483648" using b by (simp add: next_id_def)
  then have "next_id s \<noteq> - 1" by auto
  from upd_law [OF inv this, of ?le] obtain st s' where r: "upd s (next_id s) ?le = Some (st, s')" "inv s'"
    "st = SUCCESS \<longleftrightarrow> find s (next_id s) \<noteq> Some None \<or> fits s"
    "\<forall>j. find s' j = (if j = next_id s \<and> st = SUCCESS then Some (Some ?le) else find s j)"
    "nf s' = (if st = SUCCESS \<and> nf s \<le> next_id s then next_id s + 1 else nf s)" by blast
  have "nf s \<le> next_id s" by (simp add: next_id_def)
  moreover have st: "st = SUCCESS \<longleftrightarrow> fits s" using r(3) next_id_free [OF inv] by simp
  ultimately have nf': "nf s' = (if fits s then next_id s + 1 else nf s)" using r(5) by simp
  have "list_do_insert nf upd s ptr ty = Some (?i, s')"
    using r(1) of by (simp add: list_do_insert_def Let_def)
  moreover have "list_do_find find s ?i = Some (0, - 1)"
    using next_id_free [OF inv] of by (simp add: list_do_find_def)
  moreover have "list_do_find find s' j = (if of_id j = of_id ?i \<and> fits s then Some (ptr, ty) else list_do_find find s j)" for j
    using r(4) st of by (simp add: list_do_find_def)
  ultimately show ?thesis using r(2) pos of nf' by (intro exI [of _ ?i] exI [of _ s']) blast
qed

lemma delete_ok:
  assumes inv: "inv s"
  shows "\<exists>st s'. list_do_delete del s i = Some (st, s') \<and> inv s' \<and>
    (\<forall>j. list_do_find find s' j = (if of_id j = of_id i then Some (0, - 1) else list_do_find find s j)) \<and>
    nf s' = nf s"
proof -
  from del_law [OF inv, of "of_id i"] obtain st s' where r: "del s (of_id i) = Some (st, s')" "inv s'"
    "\<forall>j. find s' j = (if j = of_id i then Some None else find s j)" "nf s' = nf s" by blast
  then show ?thesis by (intro exI [of _ st] exI [of _ s']) (simp add: list_do_delete_def list_do_find_def)
qed

end

interpretation lr: res_table table_inv table_next_free table_find table_update table_del table_fits
  by unfold_locales

end
