(* ===== verification/Hash_Props.thy ===== *)
theory Hash_Props
  imports Hash_Spec List_Res
begin

text \<open>
  The properties of the hash table and of the resource lists that live in one.
\<close>

subsection \<open>A table for the examples\<close>

definition heap0 :: "nat heap" where
  "heap0 = \<lparr>bkt = Map.empty, dat = Map.empty, mem_supply = [1, 2, 3, 4, 5, 6, 7, 8, 9], dlog = []\<rparr>"

lemma init0:
  "\<exists>ht m. php3_hash_init heap0 8 (Some hf) True pers = (Some ht, m) \<and> pHashFunction ht = hf \<and> persistent ht = pers \<and>
     bkt m = Map.empty \<and> dat m = Map.empty \<and> mem_supply m = [2, 3, 4, 5, 6, 7, 8, 9]"
  by (simp add: php3_hash_init_def pemalloc_def heap0_def Let_def)

lemma data_alloc0:
  "bkt m = Map.empty \<Longrightarrow> dat m = Map.empty \<Longrightarrow> mem_supply m = [2, 3, 4, 5, 6, 7, 8, 9] \<Longrightarrow> data_alloc_ok m"
  by (simp add: data_alloc_ok_def pemalloc_def set_bkt_def Let_def)

lemma prime0: "prime_index_from 14 0 8 = 1"
proof -
  have "prime_index_from (Suc (Suc k)) 0 8 = 1" for k by (simp add: PrimeNumbers_def)
  from this [of 12] show ?thesis by simp
qed

text \<open>A table with one entry: the value 20 under the index 0.\<close>

lemma table1_with:
  "\<exists>ht m. table_rel (ht, m) ([(KIdx 0, 20 :: nat)], 1) \<and> pHashFunction ht = hf \<and> persistent ht = pers"
proof -
  obtain ht m where i: "php3_hash_init heap0 8 (Some hf) True pers = (Some ht, m)"
    using init0 [of hf pers] by blast
  have "\<exists>ht' m'. hop_exec (NextInsert 20) (ht, m) = Some (SUCCESS, ht', m') \<and> pHashFunction ht' = hf \<and> persistent ht' = pers"
    using i
    by (auto simp: php3_hash_init_def pemalloc_def heap0_def Let_def num_primes prime0
        php3_hash_index_update_or_next_insert_def slot_def find_in_chain.simps hash_link_def
        if_full_do_resize_def bump_next_free_def set_bkt_def set_dat_def PrimeNumbers_def arr_get_def)
  then obtain ht' m' where s: "hop_exec (NextInsert 20) (ht, m) = Some (SUCCESS, ht', m')"
    "pHashFunction ht' = hf" "persistent ht' = pers" by blast
  have "hop_ok (NextInsert 20) (ht, m)" by (simp add: hop_ok_def)
  from hop_step [OF table_rel_init [OF i] this] obtain st s' where
    "hop_exec (NextInsert 20) (ht, m) = Some (st, s')" "table_rel s' (od_step (NextInsert 20) st ([], 0))" by blast
  then have "table_rel (ht', m') ([(KIdx 0, 20)], 1)" using s by (simp add: od_store_def od_bump_def)
  then show ?thesis using s by blast
qed

lemma table1: "\<exists>ht m. table_rel (ht, m) ([(KIdx 0, 20 :: nat)], 1)"
  using table1_with by blast

subsection \<open>The table is an ordered map\<close>

text \<open>C1: a fresh table, under any sequence of insertions, updates, appends and deletions by string and
  by index, behaves as an ordered list of keys with values: every operation returns, with the answer of the
  list, which is determined by the list and by whether there is memory for another entry; new keys go to the
  end, existing keys keep their place, and at the end table and list agree.  The sequence is one where keys
  are not empty, no string key is deleted while the hash of it is the index of an entry, and the data of a
  new string key can be allocated when its bucket and the copy of the key can (\<open>hops_ok\<close>); what the code does
  otherwise is the subject of \<open>hash_delete_wrong_entry\<close> and \<open>hash_add_use_after_free\<close>.\<close>

theorem hash_refines_ordered_map:
  assumes "php3_hash_init m n hf destr pers = (Some ht, m')" and "hops_ok ops (ht, m')"
  shows "\<exists>s'. hops_exec ops (ht, m') = Some (fst (od_run ops (hops_memory ops (ht, m')) ([], 0)), s') \<and>
    table_rel s' (snd (od_run ops (hops_memory ops (ht, m')) ([], 0)))"
  by (rule hops_steps [OF table_rel_init [OF assms(1)] assms(2)])

theorem hash_refines_ordered_map_witness:
  "\<exists>ht m s'. php3_hash_init heap0 8 (Some hashpjw) True False = (Some ht, m) \<and>
     hops_exec [Add (''key'' @ [NUL]) 10, IndexDelete 7] (ht, m) = Some ([SUCCESS, FAILURE], s') \<and>
     table_rel s' ([(KStr (''key'' @ [NUL]), 10)], 0)"
proof -
  let ?ops = "[Add (''key'' @ [NUL]) (10 :: nat), IndexDelete 7]"
  obtain ht m where i: "php3_hash_init heap0 8 (Some hashpjw) True False = (Some ht, m)"
    "bkt m = Map.empty" "dat m = Map.empty" "mem_supply m = [2, 3, 4, 5, 6, 7, 8, 9]"
    using init0 [of hashpjw False] by blast
  have ok: "hops_ok ?ops (ht, m)" using data_alloc0 [OF i(2-4)] by (simp add: hop_ok_def split: option.split)
  have "entry_alloc_ok m" using i(2-4) by (simp add: entry_alloc_ok_def pemalloc_def set_bkt_def)
  then have mem: "hops_memory ?ops (ht, m) = [True] \<or> (\<exists>b. hops_memory ?ops (ht, m) = [True, b])"
    by (simp split: option.split)
  have k: "ckey (''key'' @ [NUL]) = KStr (''key'' @ [NUL])" by (simp add: ckey_def handle_numeric_def isdigit_def uchar_def)
  obtain s' where s: "hops_exec ?ops (ht, m) = Some (fst (od_run ?ops (hops_memory ?ops (ht, m)) ([], 0)), s')"
    "table_rel s' (snd (od_run ?ops (hops_memory ?ops (ht, m)) ([], 0)))"
    using hash_refines_ordered_map [OF i(1) ok] by blast
  have "length (fst (od_run ?ops (hops_memory ?ops (ht, m)) ([], 0))) = 2"
    using s(1) by (auto simp: numeral_2_eq_2 split: bind_splits)
  then have "od_run ?ops (hops_memory ?ops (ht, m)) ([], 0) = ([SUCCESS, FAILURE], [(KStr (''key'' @ [NUL]), 10)], 0)"
    using mem k by (auto simp: od_store_def od_bump_def)
  note s [unfolded this fst_conv snd_conv]
  then show ?thesis using i(1) by blast
qed

text \<open>C5: on a table that stands for the ordered list \<open>d\<close>, lookup by string and by index finds exactly
  the value \<open>d\<close> has under the key, \<open>exists\<close> answers whether there is one, and the element count is
  the length of \<open>d\<close>.\<close>

theorem hash_lookup:
  assumes "table_rel (ht, m) (d, n)"
  shows "(\<exists>st a. php3_hash_find ht m key = Some (st, a) \<and>
      (if st = SUCCESS then dat m a \<noteq> None \<and> dat m a = map_of d (ckey key) else map_of d (ckey key) = None)) \<and>
    (\<exists>st a. php3_hash_index_find ht m h = Some (st, a) \<and>
      (if st = SUCCESS then dat m a \<noteq> None \<and> dat m a = map_of d (KIdx h) else map_of d (KIdx h) = None)) \<and>
    php3_hash_exists ht m key = Some (map_of d (ckey key) \<noteq> None) \<and>
    php3_hash_index_exists ht m h = Some (map_of d (KIdx h) \<noteq> None) \<and>
    php3_hash_num_elements ht = length d"
proof -
  obtain ls where inv: "hash_inv ht m ls" and al: "all_owned m ls" and d: "d = hview m ls"
    using assms by (auto simp: table_rel_def)
  have v: "map_of d k = val_at m ls k" for k unfolding d by (rule hview_lookup [OF inv al])
  have ex: "map_of (ents m ls) k \<noteq> None \<longleftrightarrow> val_at m ls k \<noteq> None" for k
    using owned_cell [OF inv al, of k] by (auto simp: val_at_def split: option.splits)
  let ?fs = "\<lambda>k. find_spec (ents m ls) k"
  have f: "if fst (find_spec (ents m ls) k) = SUCCESS
      then dat m (snd (find_spec (ents m ls) k)) \<noteq> None \<and> dat m (snd (find_spec (ents m ls) k)) = val_at m ls k
      else val_at m ls k = None" for k
    using owned_cell [OF inv al, of k] by (auto simp: find_spec_def val_at_def split: option.splits)
  have "php3_hash_num_elements ht = length d"
    using inv by (simp add: php3_hash_num_elements_def hash_inv_def list_ok_def d hview_def)
  moreover have "\<exists>st a. php3_hash_find ht m key = Some (st, a) \<and>
      (if st = SUCCESS then dat m a \<noteq> None \<and> dat m a = map_of d (ckey key) else map_of d (ckey key) = None)"
    unfolding find_correct(2) [OF inv] v using f [of "ckey key"]
    by (intro exI [of _ "fst (?fs (ckey key))"] exI [of _ "snd (?fs (ckey key))"] conjI) simp_all
  moreover have "\<exists>st a. php3_hash_index_find ht m h = Some (st, a) \<and>
      (if st = SUCCESS then dat m a \<noteq> None \<and> dat m a = map_of d (KIdx h) else map_of d (KIdx h) = None)"
    unfolding find_correct(1) [OF inv] v using f [of "KIdx h"]
    by (intro exI [of _ "fst (?fs (KIdx h))"] exI [of _ "snd (?fs (KIdx h))"] conjI) simp_all
  ultimately show ?thesis unfolding exists_correct [OF inv] v ex by blast
qed

theorem hash_lookup_witness:
  "\<exists>ht m a. php3_hash_index_find ht m 0 = Some (SUCCESS, a) \<and> dat m a = Some (20 :: nat) \<and>
     php3_hash_index_exists ht m 1 = Some False \<and> php3_hash_num_elements ht = 1"
proof -
  obtain ht m where t: "table_rel (ht, m) ([(KIdx 0, 20 :: nat)], 1)" using table1 by blast
  obtain st a where "php3_hash_index_find ht m 0 = Some (st, a)"
    "st = SUCCESS \<and> dat m a = Some 20" "php3_hash_num_elements ht = 1"
    using hash_lookup [OF t, of "[]" 0] by (auto split: if_splits)
  moreover have "php3_hash_index_exists ht m 1 = Some False" using hash_lookup [OF t, of "[]" 1] by simp
  ultimately show ?thesis by blast
qed

text \<open>C21: resetting the internal pointer and moving forward until there is no current element visits the
  values of the list in order, each once; from the end backwards, in reverse.\<close>

theorem hash_traversal:
  assumes "table_rel (ht, m) (d, n)" and "length d < fuel"
  shows "\<exists>ds. walk_forward fuel (php3_hash_internal_pointer_reset ht) m = Some ds \<and>
    walk_backwards fuel (php3_hash_internal_pointer_end ht) m = Some (rev ds) \<and>
    map (dat m) ds = map (\<lambda>e. Some (snd e)) d"
proof -
  obtain ls where inv: "hash_inv ht m ls" and al: "all_owned m ls" and d: "d = hview m ls"
    using assms(1) by (auto simp: table_rel_def)
  have l: "length ls < fuel" using assms(2) by (simp add: d hview_def)
  have "dat m a = Some (the (dat m a))" if "(k, a, o') \<in> set (ents m ls)" for k a o'
    using owned_cell [OF inv al map_of_is_SomeI [OF distinct_keys [OF inv] that]] by simp
  then have "map (dat m) (map (\<lambda>e. fst (snd e)) (ents m ls)) = map (\<lambda>e. Some (snd e)) d"
    unfolding d hview_def by auto
  then show ?thesis using walk_forward_all [OF inv l] walk_backwards_all [OF inv l] by blast
qed

theorem hash_traversal_witness:
  "\<exists>ht m a. walk_forward 2 (php3_hash_internal_pointer_reset ht) m = Some [a] \<and> dat m a = Some (20 :: nat)"
proof -
  obtain ht m where t: "table_rel (ht, m) ([(KIdx 0, 20 :: nat)], 1)" using table1 by blast
  from hash_traversal [OF t, of 2] obtain ds where
    "walk_forward 2 (php3_hash_internal_pointer_reset ht) m = Some ds" "map (dat m) ds = [Some 20]" by auto
  then show ?thesis by (cases ds) auto
qed

text \<open>C22: destroying a table frees exactly its buckets and the data cells it owns, and hands every owned
  cell to the destructor once, in the order of the list; cells of the caller stay.\<close>

theorem hash_destroy_once:
  assumes "hash_inv ht m ls"
  shows "distinct (owned m ls) \<and>
    (\<exists>m'. php3_hash_destroy ht m = Some m' \<and>
      (\<forall>p. bkt m' p = (if p \<in> set ls then None else bkt m p)) \<and>
      (\<forall>a. dat m' a = (if a \<in> set (owned m ls) then None else dat m a)) \<and>
      dlog m' = dlog m @ (if pDestructor ht then owned m ls else []))"
proof -
  from destroy_ok [OF assms] obtain m' where "php3_hash_destroy ht m = Some m'"
    "bkt m' = (\<lambda>x. if x \<in> set ls then None else bkt m x)"
    "dat m' = (\<lambda>a. if a \<in> set (owned m ls) then None else dat m a)"
    "dlog m' = dlog m @ (if pDestructor ht then owned m ls else [])" by blast
  then show ?thesis using distinct_owned [OF assms] by simp
qed

theorem hash_destroy_once_witness:
  "\<exists>ht m ls m'. hash_inv ht (m :: nat heap) ls \<and> length ls = 1 \<and> php3_hash_destroy ht m = Some m' \<and> bkt m' (hd ls) = None"
proof -
  obtain ht m where "table_rel (ht, m) ([(KIdx 0, 20 :: nat)], 1)" using table1 by blast
  then obtain ls where "hash_inv ht m ls" "hview m ls = [(KIdx 0, 20)]" by (auto simp: table_rel_def)
  moreover from this(2) have "length ls = 1" by (auto simp: hview_def dest: arg_cong [where f = length])
  moreover from this have "hd ls \<in> set ls" by (cases ls) simp_all
  ultimately show ?thesis using hash_destroy_once by metis
qed

text \<open>The table is created with the first prime of the list that is not below the size asked for; but
  \<open>nNumPrimeNumbers\<close> is 14, as the array has 29 numbers of 4 bytes and a \<open>ulong\<close> has 8: no table
  starts with, or grows to, more than 65407 slots.\<close>

theorem hash_size:
  fixes m :: "'v heap"
  assumes "php3_hash_init m n hf destr pers = (Some ht, m')"
  shows "nHashSizeIndex ht < 14 \<and> nTableSize ht = PrimeNumbers ! nHashSizeIndex ht \<and>
    (n \<le> nTableSize ht \<or> nTableSize ht = 65407) \<and> (\<forall>j < nHashSizeIndex ht. PrimeNumbers ! j < n) \<and>
    (\<forall>ht1 (m1 :: 'v heap) ls st ht2 m2. hash_inv ht1 m1 ls \<longrightarrow> if_full_do_resize ht1 m1 = Some (st, ht2, m2) \<longrightarrow>
       nHashSizeIndex ht2 < 14)"
proof -
  have "hash_inv ht1 m1 ls \<Longrightarrow> if_full_do_resize ht1 m1 = Some (st, ht2, m2) \<Longrightarrow> nHashSizeIndex ht2 < 14"
    for ht1 ls st ht2 and m1 m2 :: "'v heap"
    by (auto simp: if_full_do_resize_def php3_hash_rehash_def hash_inv_def size_ok_def num_primes Let_def
        split: if_splits option.splits prod.splits)
  moreover have "PrimeNumbers ! 13 = 65407" by (simp add: PrimeNumbers_def)
  moreover have "size_ok ht" using init_inv [OF assms] by (simp add: hash_inv_def)
  ultimately show ?thesis using init_size [OF assms] by (auto simp: num_primes size_ok_def)
qed

theorem hash_size_witness:
  "\<exists>ht m. php3_hash_init heap0 8 None True False = (Some ht, m) \<and> nHashSizeIndex ht < 14 \<and> 8 \<le> nTableSize ht"
proof -
  have "\<exists>ht m. php3_hash_init heap0 8 None True False = (Some ht, m)"
    by (simp add: php3_hash_init_def pemalloc_def heap0_def Let_def)
  then obtain ht m where i: "php3_hash_init heap0 8 None True False = (Some ht, m)" by blast
  have "nTableSize ht = 11" using i
    by (auto simp: php3_hash_init_def pemalloc_def heap0_def Let_def num_primes prime0 PrimeNumbers_def)
  with hash_size [OF i] i show ?thesis by (intro exI [of _ ht] exI [of _ m]) simp
qed

text \<open>C39: when memory for the data of a new string key runs out after its bucket and key were
  allocated, \<open>_php3_hash_add_or_update\<close> reads the bucket it has just freed.\<close>

theorem hash_add_use_after_free:
  assumes "hash_inv ht m ls" and "key \<noteq> []" and "handle_numeric key = None"
    and "map_of (ents m ls) (KStr key) = None" and "\<not> data_alloc_ok m"
  shows "php3_hash_add_or_update ht m key v flag = None"
  by (rule key_store_use_after_free [OF assms])

theorem hash_add_use_after_free_witness:
  "\<exists>ht (m :: nat heap). php3_hash_add_or_update ht m ''key'' 10 HASH_UPDATE = None"
proof -
  define m0 :: "nat heap" where "m0 = heap0\<lparr>mem_supply := [1, 2, 3]\<rparr>"
  have "\<exists>ht m. php3_hash_init m0 8 None True True = (Some ht, m) \<and> mem_supply m = [2, 3]"
    by (simp add: php3_hash_init_def pemalloc_def heap0_def m0_def Let_def)
  then obtain ht m where i: "php3_hash_init m0 8 None True True = (Some ht, m)" "mem_supply m = [2, 3]" by blast
  have inv: "hash_inv ht m []" and e: "bkt m = Map.empty" "dat m = Map.empty"
    using init_inv [OF i(1)] by (simp_all add: m0_def heap0_def)
  have "\<not> data_alloc_ok m" using e i(2) by (simp add: data_alloc_ok_def pemalloc_def set_bkt_def Let_def)
  then have "php3_hash_add_or_update ht m ''key'' 10 HASH_UPDATE = None"
    by (intro hash_add_use_after_free [OF inv])
      (simp_all add: handle_numeric_def isdigit_def uchar_def)
  then show ?thesis by blast
qed

text \<open>C38: deleting a string key that is not in the table removes the entry whose integer index is the
  hash of the key, when there is one; in a table that is not persistent it then frees \<open>NULL\<close> with
  \<open>efree\<close>, which is undefined.\<close>

theorem hash_delete_wrong_entry:
  assumes "table_rel (ht, m) (d, n)" and nn: "handle_numeric key = None"
    and "KStr key \<notin> fst ` set d" and "KIdx (pHashFunction ht key) \<in> fst ` set d"
  shows "if persistent ht
    then \<exists>s. php3_hash_del ht m key = Some (SUCCESS, s) \<and> table_rel s (od_delete (KIdx (pHashFunction ht key)) d, n)
    else php3_hash_del ht m key = None"
proof -
  obtain ls where inv: "hash_inv ht m ls" and al: "all_owned m ls" and d: "d = hview m ls"
    "n = nNextFreeElement ht" using assms(1) by (auto simp: table_rel_def)
  have "map_of (ents m ls) (KStr key) = None" "map_of (ents m ls) (KIdx (pHashFunction ht key)) \<noteq> None"
    using assms(3,4) hview_present [of "KStr key" m ls] hview_present [of "KIdx (pHashFunction ht key)" m ls]
    unfolding d by blast+
  from key_del_wrong_entry [OF inv nn this] show ?thesis
  proof (cases "persistent ht")
    case True
    with key_del_wrong_entry [OF inv nn \<open>map_of (ents m ls) (KStr key) = None\<close>
        \<open>map_of (ents m ls) (KIdx (pHashFunction ht key)) \<noteq> None\<close>]
    have "delete_spec (KIdx (pHashFunction ht key)) ht m ls (php3_hash_del ht m key)" by simp
    from delete_spec_rel [OF inv al this] assms(4) show ?thesis unfolding d using True by auto
  qed simp
qed

theorem hash_delete_wrong_entry_witness:
  "\<exists>ht m s. table_rel (ht, m) ([(KIdx 0, 20 :: nat)], 1) \<and> php3_hash_del ht m ''a'' = Some (SUCCESS, s) \<and>
     table_rel s ([], 1)"
proof -
  obtain ht m where t: "table_rel (ht, m) ([(KIdx 0, 20 :: nat)], 1)" "pHashFunction ht = (\<lambda>_. 0)" "persistent ht"
    using table1_with [of "\<lambda>_. 0" True] by auto
  have "handle_numeric ''a'' = None" by (simp add: handle_numeric_def isdigit_def uchar_def)
  from hash_delete_wrong_entry [OF t(1) this] t obtain s where
    "php3_hash_del ht m ''a'' = Some (SUCCESS, s)" "table_rel s (od_delete (KIdx 0) [(KIdx 0, 20)], 1)" by auto
  moreover have "od_delete (KIdx 0) [(KIdx 0, 20 :: nat)] = []" by (simp add: od_delete_def)
  ultimately show ?thesis using t(1) by metis
qed

subsection \<open>Resource lists\<close>

text \<open>On the ids of type \<open>int\<close> the conversion to an index is injective.\<close>

definition is_int :: "int \<Rightarrow> bool" where
  "is_int i \<longleftrightarrow> - 2147483648 \<le> i \<and> i \<le> 2147483647"

lemma of_id_inject: "is_int i \<Longrightarrow> is_int j \<Longrightarrow> of_id i = of_id j \<longleftrightarrow> i = j"
proof -
  assume ij: "is_int i" "is_int j"
  have "sint (of_id k) = k" if "is_int k" for k
    using that by (simp add: of_id_def is_int_def sint_sbintrunc' signed_take_bit_int_eq_self)
  then show ?thesis using ij by metis
qed

lemma to_id_int: "is_int (to_id w)"
  using signed_take_bit_int_greater_eq_minus_exp [of 31 "uint w"] signed_take_bit_int_less_exp [of 31 "uint w"]
  by (simp add: is_int_def to_id_def)

text \<open>C24: inserting a resource, below \<open>2^31\<close> of them, gives a positive id that was not in use; afterwards
  the id finds exactly this pointer and type, and every other id finds what it found before.  The id is given
  even when there is no memory for the entry: then, and only then, it finds nothing.\<close>

theorem resource_insert:
  assumes "table_inv l" and "table_next_free l < 2147483648"
  shows "\<exists>i l'. php3_list_do_insert l ptr ty = Some (i, l') \<and> table_inv l' \<and> 0 < i \<and>
    php3_list_do_find l i = Some (0, - 1) \<and>
    (\<forall>j. is_int j \<longrightarrow> php3_list_do_find l' j = (if j = i \<and> table_fits l then Some (ptr, ty) else php3_list_do_find l j))"
proof -
  have "is_int 1" by (simp add: is_int_def)
  then have i: "list_do_insert nf upd l ptr ty = Some (i, l') \<Longrightarrow> is_int i" for nf upd i and l l' :: "'s"
    using to_id_int by (auto simp: list_do_insert_def Let_def split: bind_splits if_splits prod.splits)
  from lr.insert_ok [OF assms, of ptr ty] obtain i l' where
    r: "list_do_insert table_next_free table_update l ptr ty = Some (i, l')" "table_inv l'" "0 < i"
      "list_do_find table_find l i = Some (0, - 1)"
      "\<forall>j. list_do_find table_find l' j = (if of_id j = of_id i \<and> table_fits l then Some (ptr, ty) else list_do_find table_find l j)"
    by blast
  show ?thesis
    unfolding php3_list_do_insert_def php3_list_do_find_def
    using r of_id_inject [OF _ i [OF r(1)]] by (intro exI [of _ i] exI [of _ l']) auto
qed

lemma list0: "\<exists>l :: reslist. table_inv l \<and> table_next_free l = 0 \<and> table_fits l"
proof -
  define m0 :: "list_entry heap" where "m0 = \<lparr>bkt = Map.empty, dat = Map.empty, mem_supply = [1, 2, 3, 4], dlog = []\<rparr>"
  have "\<exists>ht m. php3_hash_init m0 8 None True True = (Some ht, m) \<and> nNextFreeElement ht = 0 \<and> entry_alloc_ok m"
    by (simp add: php3_hash_init_def pemalloc_def m0_def Let_def entry_alloc_ok_def set_bkt_def)
  then obtain ht m where "php3_hash_init m0 8 None True True = (Some ht, m)" "nNextFreeElement ht = 0" "entry_alloc_ok m" by blast
  then show ?thesis
    using table_inv_init by (intro exI [of _ "(ht, m)"]) (auto simp: table_next_free_def php3_hash_next_free_element_def table_fits_def)
qed

theorem resource_insert_witness:
  "\<exists>l i l'. php3_list_do_insert l 77 5 = Some (i, l') \<and> 0 < i \<and> php3_list_do_find l i = Some (0, - 1) \<and>
     php3_list_do_find l' i = Some (77, 5)"
proof -
  obtain l :: reslist where l: "table_inv l" "table_next_free l = 0" "table_fits l" using list0 by blast
  then have "table_next_free l < 2147483648" by simp
  from resource_insert [OF l(1) this, of 77 5] obtain i l' where r: "php3_list_do_insert l 77 5 = Some (i, l')" "0 < i"
    "php3_list_do_find l i = Some (0, - 1)" "\<forall>j. is_int j \<longrightarrow> php3_list_do_find l' j = (if j = i \<and> table_fits l then Some (77, 5) else php3_list_do_find l j)"
    by blast
  have "is_int i" using r(1) to_id_int by (auto simp: php3_list_do_insert_def list_do_insert_def Let_def is_int_def split: bind_splits if_splits prod.splits)
  then show ?thesis using r l(3) by metis
qed

text \<open>Deleting a resource makes its id find nothing, and leaves the other ids alone.\<close>

theorem resource_delete:
  assumes "table_inv l" and "is_int i"
  shows "\<exists>st l'. php3_list_do_delete l i = Some (st, l') \<and> table_inv l' \<and>
    (\<forall>j. is_int j \<longrightarrow> php3_list_do_find l' j = (if j = i then Some (0, - 1) else php3_list_do_find l j))"
proof -
  from lr.delete_ok [OF assms(1), of i] obtain st l' where
    "list_do_delete table_del l i = Some (st, l')" "table_inv l'"
    "\<forall>j. list_do_find table_find l' j = (if of_id j = of_id i then Some (0, - 1) else list_do_find table_find l j)" by blast
  then show ?thesis
    unfolding php3_list_do_delete_def php3_list_do_find_def
    using of_id_inject [OF _ assms(2)] by (intro exI [of _ st] exI [of _ l']) simp
qed

theorem resource_delete_witness:
  "\<exists>l st l'. php3_list_do_delete l 3 = Some (st, l') \<and> php3_list_do_find l' 3 = Some (0, - 1)"
proof -
  obtain l :: reslist where "table_inv l" using list0 by blast
  moreover have "is_int 3" by (simp add: is_int_def)
  ultimately show ?thesis using resource_delete [of l 3] by metis
qed

lemma next_insert_as_update:
  "lookup_index ht m (nNextFreeElement ht) = Some 0 \<Longrightarrow>
   php3_hash_index_update_or_next_insert ht m h v HASH_NEXT_INSERT =
   php3_hash_index_update_or_next_insert ht m (nNextFreeElement ht) v HASH_UPDATE"
  unfolding php3_hash_index_update_or_next_insert_def lookup_index_def Let_def
  by (auto split: bind_splits)

lemma free_lookup:
  assumes "table_inv s"
  shows "lookup_index (fst s) (snd s) (nNextFreeElement (fst s)) = Some 0"
proof -
  obtain ls where inv: "hash_inv (fst s) (snd s) ls" and al: "all_owned (snd s) ls"
    using assms by (auto simp: table_inv_def)
  have "table_find s (nNextFreeElement (fst s)) = Some None"
    using ht.free_law [OF assms] by (simp add: table_next_free_def php3_hash_next_free_element_def)
  then have "val_at (snd s) ls (KIdx (nNextFreeElement (fst s))) = None"
    using table_find_eq [OF inv al] by simp
  then have "map_of (ents (snd s) ls) (KIdx (nNextFreeElement (fst s))) = None"
    using owned_cell [OF inv al] by (fastforce simp: val_at_def split: option.splits)
  then have "bucket_of (snd s) ls (KIdx (nNextFreeElement (fst s))) = 0" using bucket_of_zero [OF inv] by blast
  then show ?thesis using lookup_index_eq [OF inv] by simp
qed

text \<open>A destructor registered by \<open>_register_list_destructors\<close> is the one that is called, with the
  pointer of the entry, when an entry of the type it was registered under is destroyed; the other types keep theirs.\<close>

theorem registered_destructor:
  assumes "table_inv ds" and nf: "table_next_free ds < 2147483648"
    and r: "register_list_destructors ds ld pld md = Some (i, ds')" and ne: "i \<noteq> - 1"
  shows "table_inv ds' \<and>
    list_entry_destructor ds' \<lparr>le_ptr = p, le_type = i\<rparr> = Some (case ld of Some f \<Rightarrow> Call f p | None \<Rightarrow> Nothing) \<and>
    plist_entry_destructor ds' \<lparr>le_ptr = p, le_type = i\<rparr> = Some (case pld of Some f \<Rightarrow> Call f p | None \<Rightarrow> Nothing) \<and>
    (\<forall>j. is_int j \<and> j \<noteq> i \<longrightarrow> list_entry_destructor ds' \<lparr>le_ptr = p, le_type = j\<rparr> =
       list_entry_destructor ds \<lparr>le_ptr = p, le_type = j\<rparr>)"
proof -
  define n where "n = table_next_free ds"
  define e where "e = \<lparr>list_destructor = ld, plist_destructor = pld, module_number = md, resource_id = to_id n\<rparr>"
  have n: "nNextFreeElement (fst ds) = n" by (simp add: n_def table_next_free_def php3_hash_next_free_element_def)
  have "n \<noteq> - 1" using nf n_def by auto
  from ht.upd_law [OF assms(1) this, of e] obtain st s where
    u: "table_update ds n e = Some (st, s)" "table_inv s"
      "\<forall>j. table_find s j = (if j = n \<and> st = SUCCESS then Some (Some e) else table_find ds j)"
      "table_next_free s = (if st = SUCCESS \<and> n \<le> n then n + 1 else n)" unfolding n_def by blast
  obtain d where "php3_hash_index_update_or_next_insert (fst ds) (snd ds) n e HASH_UPDATE = Some (st, d, s)"
    using u(1) by (auto simp: table_update_def split: bind_splits prod.splits)
  then have "php3_hash_index_update_or_next_insert (fst ds) (snd ds) 0 e HASH_NEXT_INSERT = Some (st, d, s)"
    using next_insert_as_update [OF free_lookup [OF assms(1)]] n by simp
  then have "if st = FAILURE then i = - 1 else i = to_id (nNextFreeElement (fst s) - 1) \<and> ds' = s"
    using r n unfolding register_list_destructors_def Let_def e_def by (cases s) (auto split: if_splits)
  then have st: "st = SUCCESS" "ds' = s" "i = to_id (nNextFreeElement (fst s) - 1)"
    using ne by (cases st; simp)+
  have "nNextFreeElement (fst s) = n + 1" using u(4) st(1) by (simp add: table_next_free_def php3_hash_next_free_element_def)
  then have i: "i = to_id n" using st(3) by simp
  have ofi: "of_id i = n" unfolding i by (rule of_to_id) (use nf n_def in simp)
  have other: "of_id j \<noteq> n" if "is_int j" "j \<noteq> i" for j using of_id_inject [OF that(1) to_id_int, of n] that ofi i by simp
  have "table_find ds' n = Some (Some e)" "\<And>j. j \<noteq> n \<Longrightarrow> table_find ds' j = table_find ds j"
    using u(3) st by simp_all
  then show ?thesis
    using u(2) st(2) ofi other
    by (simp add: list_entry_destructor_def plist_entry_destructor_def e_def split: option.split)
qed

lemma destructors0: "\<exists>(ds :: destructors) i ds'. table_inv ds \<and> table_next_free ds = 0 \<and>
    register_list_destructors ds (Some 500) None 1 = Some (i, ds') \<and> i \<noteq> - 1"
proof -
  define m0 :: "list_destructors_entry heap" where
    "m0 = \<lparr>bkt = Map.empty, dat = Map.empty, mem_supply = [1, 2, 3, 4], dlog = []\<rparr>"
  have "\<exists>ht m. php3_hash_init m0 8 None True True = (Some ht, m)"
    by (simp add: php3_hash_init_def pemalloc_def m0_def Let_def)
  then obtain ht m where i: "php3_hash_init m0 8 None True True = (Some ht, m)" by blast
  then have "\<exists>i ds'. register_list_destructors (ht, m) (Some 500) None 1 = Some (i, ds') \<and> i \<noteq> - 1 \<and> nNextFreeElement ht = 0"
    by (auto simp: php3_hash_init_def pemalloc_def m0_def Let_def num_primes prime0 register_list_destructors_def
        php3_hash_index_update_or_next_insert_def slot_def find_in_chain.simps hash_link_def
        if_full_do_resize_def bump_next_free_def set_bkt_def set_dat_def PrimeNumbers_def arr_get_def to_id_def)
  then show ?thesis using table_inv_init [OF i]
    by (intro exI [of _ "(ht, m)"]) (auto simp: table_next_free_def php3_hash_next_free_element_def)
qed

theorem registered_destructor_witness:
  "\<exists>ds i ds'. register_list_destructors ds (Some 500) None 1 = Some (i, ds') \<and>
     list_entry_destructor ds' \<lparr>le_ptr = 77, le_type = i\<rparr> = Some (Call 500 77)"
proof -
  obtain ds :: destructors and i ds' where d: "table_inv ds" "table_next_free ds = 0"
    "register_list_destructors ds (Some 500) None 1 = Some (i, ds')" "i \<noteq> - 1" using destructors0 by blast
  then have "table_next_free ds < 2147483648" by simp
  from registered_destructor [OF d(1) this d(3,4), of 77] d(3) show ?thesis by (metis option.simps(5))
qed

end
