(* ===== verification/Alloc.thy ===== *)
theory Alloc
  imports PHP_Prelude
begin

text \<open>
  The request memory manager of \<open>alloc.c\<close>, as compiled without \<open>DEBUG\<close> and \<open>MEMORY_LIMIT\<close>:
  every block carries a header (links and size), all headers are on one doubly linked list, and
  small blocks that are freed stay on it and wait in a cache of their size.

  A block is named by the address of its header; the pointer the caller holds is that address
  plus a constant, so the model identifies the two (0 is \<open>NULL\<close>).  \<open>addresses\<close> lists what the C
  library's \<open>malloc\<close> and \<open>realloc\<close> return; an address in use, 0 or the end of the list is a failure.
  Contents that were never written are \<open>None\<close>.
\<close>

subsection \<open>State\<close>

record mem_header =
  h_pNext :: addr
  h_pLast :: addr
  h_size :: int

record mm =
  hdr :: "addr \<Rightarrow> mem_header option"
  mem :: "addr \<Rightarrow> char option list"
  addresses :: "addr list"
  head :: addr
  cache :: "nat \<Rightarrow> nat \<Rightarrow> addr"
  cache_count :: "nat \<Rightarrow> nat"
  initialized :: bool

text \<open>A call returns, exits the process (\<open>exit(1)\<close>), or does something undefined.\<close>

datatype 'a outcome = Ret 'a | Exit | Undef

definition MAX_CACHED_MEMORY :: nat where "MAX_CACHED_MEMORY = 64"
definition MAX_CACHED_ENTRIES :: nat where "MAX_CACHED_ENTRIES = 16"

text \<open>The value of a \<open>size_t\<close> stored in an \<open>int\<close>.\<close>

definition to_int :: "nat \<Rightarrow> int" where
  "to_int n = (let r = int n mod 4294967296 in if r < 2147483648 then r else r - 4294967296)"

text \<open>An \<open>int\<close> converted to \<open>size_t\<close>.\<close>

definition to_size_t :: "int \<Rightarrow> nat" where
  "to_size_t i = nat (i mod 18446744073709551616)"

subsection \<open>The C library's allocator\<close>

definition blank_header :: mem_header where
  "blank_header = \<lparr>h_pNext = 0, h_pLast = 0, h_size = 0\<rparr>"

definition malloc :: "nat \<Rightarrow> mm \<Rightarrow> addr \<times> mm" where
  "malloc n m = (case addresses m of [] \<Rightarrow> (0, m)
     | a # as \<Rightarrow>
         if a \<noteq> 0 \<and> hdr m a = None then
           (a, m\<lparr>addresses := as, hdr := (hdr m)(a \<mapsto> blank_header), mem := (mem m)(a := replicate n None)\<rparr>)
         else (0, m\<lparr>addresses := as\<rparr>))"

text \<open>\<open>realloc\<close> keeps the first bytes; the block stays in place or moves to a free address.\<close>

definition resize_block :: "nat \<Rightarrow> char option list \<Rightarrow> char option list" where
  "resize_block n c = take n c @ replicate (n - length c) None"

definition realloc :: "addr \<Rightarrow> nat \<Rightarrow> mm \<Rightarrow> addr \<times> mm" where
  "realloc p n m = (case addresses m of [] \<Rightarrow> (0, m)
     | a # as \<Rightarrow>
         if a \<noteq> 0 \<and> (hdr m a = None \<or> a = p) then
           (a, m\<lparr>addresses := as, hdr := (hdr m)(p := None, a := hdr m p),
                 mem := (mem m)(a := resize_block n (mem m p))\<rparr>)
         else (0, m\<lparr>addresses := as\<rparr>))"

definition free_block :: "addr \<Rightarrow> mm \<Rightarrow> mm option" where
  "free_block p m = (if hdr m p = None then None else Some (m\<lparr>hdr := (hdr m)(p := None)\<rparr>))"

subsection \<open>The list of blocks\<close>

definition set_hdr :: "addr \<Rightarrow> mem_header \<Rightarrow> mm \<Rightarrow> mm" where
  "set_hdr p h m = m\<lparr>hdr := (hdr m)(p \<mapsto> h)\<rparr>"

text \<open>\<open>REMOVE_POINTER_FROM_LIST\<close>.\<close>

definition remove_pointer_from_list :: "addr \<Rightarrow> mm \<Rightarrow> mm option" where
  "remove_pointer_from_list p m = do {
     h \<leftarrow> hdr m p;
     m1 \<leftarrow> (if p = head m then Some (m\<lparr>head := h_pNext h\<rparr>)
            else do { l \<leftarrow> hdr m (h_pLast h); Some (set_hdr (h_pLast h) (l\<lparr>h_pNext := h_pNext h\<rparr>) m) });
     if h_pNext h \<noteq> 0
     then do { n \<leftarrow> hdr m1 (h_pNext h); Some (set_hdr (h_pNext h) (n\<lparr>h_pLast := h_pLast h\<rparr>) m1) }
     else Some m1
   }"

text \<open>The block becomes the first of the list.\<close>

definition push_front :: "addr \<Rightarrow> mm \<Rightarrow> mm option" where
  "push_front p m = do {
     h \<leftarrow> hdr m p;
     m1 \<leftarrow> (if head m \<noteq> 0 then do { l \<leftarrow> hdr m (head m); Some (set_hdr (head m) (l\<lparr>h_pLast := p\<rparr>) m) }
            else Some m);
     Some ((set_hdr p (h\<lparr>h_pNext := head m, h_pLast := 0\<rparr>) m1)\<lparr>head := p\<rparr>)
   }"

definition set_size :: "addr \<Rightarrow> int \<Rightarrow> mm \<Rightarrow> mm option" where
  "set_size p n m = do { h \<leftarrow> hdr m p; Some (set_hdr p (h\<lparr>h_size := n\<rparr>) m) }"

subsection \<open>The operations\<close>

definition or_undef :: "'a option \<Rightarrow> 'a outcome" where
  "or_undef x = (case x of None \<Rightarrow> Undef | Some y \<Rightarrow> Ret y)"

definition emalloc :: "nat \<Rightarrow> mm \<Rightarrow> (addr \<times> mm) outcome" where
  "emalloc size_arg m =
     (if size_arg < MAX_CACHED_MEMORY \<and> cache_count m size_arg > 0 then
        let c = cache_count m size_arg - 1
        in Ret (cache m size_arg c, m\<lparr>cache_count := (cache_count m)(size_arg := c)\<rparr>)
      else
        let (p, m1) = malloc size_arg m in
        if p = 0 then Exit
        else or_undef (do {
          m2 \<leftarrow> push_front p m1;
          m3 \<leftarrow> set_size p (to_int size_arg) m2;
          Some (p, m3)
        }))"

text \<open>
  \<open>p->size\<close> is an \<open>int\<close>: the test against the bound is signed, and a negative size would index in
  front of \<open>cache_count\<close>.
\<close>

definition efree :: "addr \<Rightarrow> mm \<Rightarrow> mm outcome" where
  "efree p m =
     (case hdr m p of None \<Rightarrow> Undef
      | Some h \<Rightarrow>
          if h_size h < int MAX_CACHED_MEMORY \<and> h_size h < 0 then Undef
          else
            let s = nat (h_size h) in
            if h_size h < int MAX_CACHED_MEMORY \<and> cache_count m s < MAX_CACHED_ENTRIES then
              Ret (m\<lparr>cache := (cache m)(s := (cache m s)(cache_count m s := p)),
                     cache_count := (cache_count m)(s := cache_count m s + 1)\<rparr>)
            else or_undef (do { m1 \<leftarrow> remove_pointer_from_list p m; free_block p m1 }))"

definition write_block :: "addr \<Rightarrow> char option list \<Rightarrow> mm \<Rightarrow> mm option" where
  "write_block p c m =
     (if hdr m p \<noteq> None \<and> length c \<le> length (mem m p)
      then Some (m\<lparr>mem := (mem m)(p := c @ drop (length c) (mem m p))\<rparr>) else None)"

definition ecalloc :: "nat \<Rightarrow> nat \<Rightarrow> mm \<Rightarrow> (addr \<times> mm) outcome" where
  "ecalloc nmemb size_arg m =
     (let final_size = to_int (size_arg * nmemb) in
      case emalloc (to_size_t final_size) m of
        Ret (p, m1) \<Rightarrow>
          (case write_block p (replicate (to_size_t final_size) (Some NUL)) m1 of
             Some m2 \<Rightarrow> Ret (p, m2) | None \<Rightarrow> Undef)
      | Exit \<Rightarrow> Exit | Undef \<Rightarrow> Undef)"

definition erealloc :: "addr \<Rightarrow> nat \<Rightarrow> mm \<Rightarrow> (addr \<times> mm) outcome" where
  "erealloc ptr size_arg m =
     (if ptr = 0 then emalloc size_arg m
      else case remove_pointer_from_list ptr m of None \<Rightarrow> Undef
      | Some m1 \<Rightarrow>
          (let (p, m2) = realloc ptr size_arg m1 in
           if p = 0 then Exit
           else or_undef (do {
             m3 \<leftarrow> push_front p m2;
             m4 \<leftarrow> set_size p (to_int size_arg) m3;
             Some (p, m4)
           })))"

definition estrndup :: "string \<Rightarrow> nat \<Rightarrow> mm \<Rightarrow> (addr \<times> mm) outcome" where
  "estrndup s n m =
     (case emalloc ((n + 1) mod 4294967296) m of
        Ret (p, m1) \<Rightarrow>
          if n \<le> length s then
            (case write_block p (map Some (take n s) @ [Some NUL]) m1 of
               Some m2 \<Rightarrow> Ret (p, m2) | None \<Rightarrow> Undef)
          else Undef
      | Exit \<Rightarrow> Exit | Undef \<Rightarrow> Undef)"

text \<open>\<open>s\<close> is the C string without its NUL byte; \<open>length\<close> is an \<open>int\<close>.\<close>

definition estrdup :: "string \<Rightarrow> mm \<Rightarrow> (addr \<times> mm) outcome" where
  "estrdup s m =
     (let n = to_size_t (to_int (length s + 1)) in
      case emalloc n m of
        Ret (p, m1) \<Rightarrow>
          if n \<le> length s + 1 then
            (case write_block p (map Some (take n (s @ [NUL]))) m1 of
               Some m2 \<Rightarrow> Ret (p, m2) | None \<Rightarrow> Undef)
          else Undef
      | Exit \<Rightarrow> Exit | Undef \<Rightarrow> Undef)"

definition start_memory_manager :: "mm \<Rightarrow> mm" where
  "start_memory_manager m =
     m\<lparr>head := 0, cache_count := (\<lambda>i. if i < MAX_CACHED_MEMORY then 0 else cache_count m i),
       initialized := True\<rparr>"

text \<open>Shutting down: first the cached blocks, by size and then in order, then the rest of the list.\<close>

fun free_cached :: "addr list \<Rightarrow> mm \<Rightarrow> mm option" where
  "free_cached [] m = Some m"
| "free_cached (p # ps) m = do {
     m1 \<leftarrow> remove_pointer_from_list p m; m2 \<leftarrow> free_block p m1; free_cached ps m2 }"

definition cached :: "mm \<Rightarrow> addr list" where
  "cached m = concat (map (\<lambda>i. map (cache m i) [0..<cache_count m i]) [0..<MAX_CACHED_MEMORY])"

partial_function (option) free_list :: "addr \<Rightarrow> mm \<Rightarrow> mm option" where
  "free_list t m =
     (if t = 0 then Some m
      else do { h \<leftarrow> hdr m t; m1 \<leftarrow> free_block t m; free_list (h_pNext h) m1 })"

declare free_list.simps [code]

definition shutdown_memory_manager :: "mm \<Rightarrow> mm option" where
  "shutdown_memory_manager m = do {
     m1 \<leftarrow> free_cached (cached m) m;
     m2 \<leftarrow> free_list (head m1) m1;
     Some (m2\<lparr>initialized := False\<rparr>)
   }"

end
