(* ===== verification/Alloc_Inv.thy ===== *)
theory Alloc_Inv
  imports Alloc "HOL-Library.Multiset"
begin

text \<open>
  The invariant of the memory manager, and what each operation does to the blocks in use: a block
  that is handed out is not in use, the other blocks in use keep their contents, and shutting down
  frees every block once.
\<close>

subsection \<open>The invariant\<close>

definition HL :: "(addr \<Rightarrow> mem_header option) \<Rightarrow> addr \<Rightarrow> (addr \<times> addr) option" where
  "HL H p = map_option (\<lambda>h. (h_pLast h, h_pNext h)) (H p)"

text \<open>\<open>block_ok\<close>: a block has a header with its size, which is the length of its contents.\<close>

definition block_ok :: "mm \<Rightarrow> addr \<Rightarrow> bool" where
  "block_ok m p \<longleftrightarrow> (\<exists>h. hdr m p = Some h \<and> h_size h = int (length (mem m p)) \<and> length (mem m p) < 2147483648)"

definition list_inv :: "mm \<Rightarrow> addr list \<Rightarrow> bool" where
  "list_inv m bs \<longleftrightarrow> distinct bs \<and> dseg (HL (hdr m)) 0 bs 0 \<and> head m = hd0 bs"

definition cache_inv :: "mm \<Rightarrow> bool" where
  "cache_inv m \<longleftrightarrow>
     (\<forall>n < MAX_CACHED_MEMORY. cache_count m n \<le> MAX_CACHED_ENTRIES \<and>
        (\<forall>i < cache_count m n. \<exists>h. hdr m (cache m n i) = Some h \<and> h_size h = int n))"

text \<open>\<open>live\<close> lists the blocks the program holds; the others on the list are cached.\<close>

definition mm_inv :: "mm \<Rightarrow> addr list \<Rightarrow> addr list \<Rightarrow> bool" where
  "mm_inv m bs live \<longleftrightarrow>
     list_inv m bs \<and> cache_inv m \<and> mset (cached m @ live) = mset bs \<and>
     (\<forall>p \<in> set bs. block_ok m p)"

lemma HL_upd [simp]: "HL (H(p \<mapsto> h)) = (HL H)(p \<mapsto> (h_pLast h, h_pNext h))"
  by (auto simp: HL_def fun_eq_iff)

lemma HL_SomeD: "HL H p = Some (l, n) \<Longrightarrow> \<exists>h. H p = Some h \<and> h_pLast h = l \<and> h_pNext h = n"
  by (auto simp: HL_def)

lemma set_hdr_simps [simp]:
  "hdr (set_hdr p h m) = (hdr m)(p \<mapsto> h)" "mem (set_hdr p h m) = mem m"
  "addresses (set_hdr p h m) = addresses m" "head (set_hdr p h m) = head m"
  "cache (set_hdr p h m) = cache m" "cache_count (set_hdr p h m) = cache_count m"
  "initialized (set_hdr p h m) = initialized m"
  by (simp_all add: set_hdr_def)

lemma to_int_small: "n < 2147483648 \<Longrightarrow> to_int n = int n"
  by (simp add: to_int_def)

text \<open>\<open>same_sizes\<close>: only the links of some headers differ.\<close>

definition same_sizes :: "(addr \<Rightarrow> mem_header option) \<Rightarrow> (addr \<Rightarrow> mem_header option) \<Rightarrow> bool" where
  "same_sizes H H' \<longleftrightarrow> (\<forall>p. map_option h_size (H p) = map_option h_size (H' p))"

lemma same_sizes_refl [simp]: "same_sizes H H"
  by (simp add: same_sizes_def)

lemma same_sizes_trans: "same_sizes H H' \<Longrightarrow> same_sizes H' H'' \<Longrightarrow> same_sizes H H''"
  by (simp add: same_sizes_def)

lemma same_sizes_upd: "H p = Some h \<Longrightarrow> h_size h' = h_size h \<Longrightarrow> same_sizes H (H(p \<mapsto> h'))"
  by (simp add: same_sizes_def)

lemma same_sizes_dom: "same_sizes H H' \<Longrightarrow> (H' p = None) = (H p = None)"
  unfolding same_sizes_def by (metis map_option_is_None)

lemma same_sizes_Some: "same_sizes H H' \<Longrightarrow> H p = Some h \<Longrightarrow> \<exists>h'. H' p = Some h' \<and> h_size h' = h_size h"
  unfolding same_sizes_def by (metis map_option_eq_Some)

subsection \<open>The list primitives\<close>

lemma remove_pointer_ok:
  assumes d: "dseg (HL (hdr m)) 0 (xs @ p # ys) 0" and di: "distinct (xs @ p # ys)"
    and hd: "head m = hd0 (xs @ p # ys)"
  shows "\<exists>m'. remove_pointer_from_list p m = Some m' \<and> dseg (HL (hdr m')) 0 (xs @ ys) 0 \<and>
     head m' = hd0 (xs @ ys) \<and> same_sizes (hdr m) (hdr m') \<and>
     (\<forall>x. x \<notin> set (xs @ ys) \<longrightarrow> hdr m' x = hdr m x) \<and> mem m' = mem m \<and> addresses m' = addresses m \<and> cache m' = cache m \<and>
     cache_count m' = cache_count m \<and> initialized m' = initialized m"
proof -
  from HL_SomeD [OF dseg_mid [OF d]] obtain h where h: "hdr m p = Some h" "h_pLast h = last0 xs"
    "h_pNext h = hd0 ys" by blast
  have nz: "0 \<notin> set (xs @ p # ys)" by (rule dseg_nonzero [OF d])
  have inh: "x \<in> set (xs @ p # ys) \<Longrightarrow> \<exists>k. hdr m x = Some k" for x
    using dseg_in_dom [OF d] HL_SomeD by fastforce
  define m1 where "m1 = (if xs = [] then m\<lparr>head := hd0 ys\<rparr>
     else set_hdr (last0 xs) ((the (hdr m (last0 xs)))\<lparr>h_pNext := hd0 ys\<rparr>) m)"
  define m2 where "m2 = (if ys = [] then m1
     else set_hdr (hd0 ys) ((the (hdr m1 (hd0 ys)))\<lparr>h_pLast := last0 xs\<rparr>) m1)"
  have lx: "xs \<noteq> [] \<Longrightarrow> \<exists>k. hdr m (last0 xs) = Some k" using inh [of "last0 xs"] last0_in_set [of xs] by simp
  have hy: "ys \<noteq> [] \<Longrightarrow> \<exists>k. hdr m1 (hd0 ys) = Some k"
    using inh [of "hd0 ys"] hd0_in_set [of ys] by (auto simp: m1_def)
  have ph: "p = head m \<longleftrightarrow> xs = []"
    using hd di hd0_in_set [of xs] by (auto simp: hd0_append)
  have zy: "(hd0 ys \<noteq> 0) = (ys \<noteq> [])" using hd0_eq_0 [of ys] nz by simp
  have s1: "(if p = head m then Some (m\<lparr>head := hd0 ys\<rparr>)
      else do { l \<leftarrow> hdr m (last0 xs); Some (set_hdr (last0 xs) (l\<lparr>h_pNext := hd0 ys\<rparr>) m) }) = Some m1"
    using lx ph by (auto simp: m1_def)
  have run: "remove_pointer_from_list p m = Some m2"
    unfolding remove_pointer_from_list_def h(1) Option.bind.simps h(2,3) s1 zy
    using hy by (auto simp: m2_def)
  have L1: "HL (hdr m1) = (if xs = [] then HL (hdr m)
      else (HL (hdr m))(last0 xs \<mapsto> (fst (the (HL (hdr m) (last0 xs))), hd0 ys)))"
    using lx by (auto simp: m1_def HL_def)
  have L2: "HL (hdr m2) = (if ys = [] then HL (hdr m1)
      else (HL (hdr m1))(hd0 ys \<mapsto> (last0 xs, snd (the (HL (hdr m1) (hd0 ys))))))"
    using hy by (auto simp: m2_def HL_def)
  have d2: "dseg (HL (hdr m2)) 0 (xs @ ys) 0" by (rule dseg_remove [OF d di L1 L2])
  have s: "same_sizes (hdr m) (hdr m1)" "same_sizes (hdr m1) (hdr m2)"
    using lx apply (auto simp: m1_def same_sizes_def)[1]
    using hy by (auto simp: m2_def same_sizes_def)
  have "head m2 = hd0 (xs @ ys)" using hd by (simp add: m2_def m1_def hd0_append)
  moreover have "\<forall>x. x \<notin> set (xs @ ys) \<longrightarrow> hdr m2 x = hdr m x"
    using last0_in_set [of xs] hd0_in_set [of ys] by (auto simp: m1_def m2_def)
  ultimately show ?thesis using run d2 same_sizes_trans [OF s] by (intro exI [of _ m2]) (simp add: m1_def m2_def)
qed

lemma push_front_ok:
  assumes d: "dseg (HL (hdr m)) 0 bs 0" and di: "distinct bs" and hd: "head m = hd0 bs"
    and p: "p \<noteq> 0" "p \<notin> set bs" "hdr m p = Some h"
  shows "\<exists>m'. push_front p m = Some m' \<and> list_inv m' (p # bs) \<and> same_sizes (hdr m) (hdr m') \<and>
     mem m' = mem m \<and> addresses m' = addresses m \<and> cache m' = cache m \<and>
     cache_count m' = cache_count m \<and> initialized m' = initialized m"
proof -
  define m1 where "m1 = (if bs = [] then m else set_hdr (hd0 bs) ((the (hdr m (hd0 bs)))\<lparr>h_pLast := p\<rparr>) m)"
  define m2 where "m2 = (set_hdr p (h\<lparr>h_pNext := head m, h_pLast := 0\<rparr>) m1)\<lparr>head := p\<rparr>"
  have hb: "bs \<noteq> [] \<Longrightarrow> \<exists>k. hdr m (hd0 bs) = Some k"
    using dseg_in_dom [OF d, of "hd0 bs"] hd0_in_set [of bs] HL_SomeD by fastforce
  have zb: "(hd0 bs \<noteq> 0) = (bs \<noteq> [])" using hd0_eq_0 [of bs] dseg_nonzero [OF d] by simp
  have run: "push_front p m = Some m2"
    unfolding push_front_def p(3) Option.bind.simps hd zb using hb hd by (auto simp: m2_def m1_def)
  have L1: "HL (hdr m1) = (if bs = [] then HL (hdr m)
      else (HL (hdr m))(hd0 bs \<mapsto> (p, snd (the (HL (hdr m) (hd0 bs))))))"
    using hb by (auto simp: m1_def HL_def)
  have "HL (hdr m2) = (HL (hdr m1))(p \<mapsto> (0, hd0 bs))" using hd by (simp add: m2_def)
  then have "dseg (HL (hdr m2)) 0 (p # bs) 0"
    using dseg_push [OF d p(1,2) di L1] by (simp only:)
  moreover have "head m2 = p" by (simp add: m2_def)
  ultimately have li: "list_inv m2 (p # bs)" using p(2) di by (simp add: list_inv_def del: dseg.simps)
  have s1: "same_sizes (hdr m) (hdr m1)" using hb by (auto simp: m1_def same_sizes_def)
  have "hdr m1 p = Some h" using p hd0_in_set [of bs] by (auto simp: m1_def)
  then have s2: "same_sizes (hdr m1) (hdr m2)" by (simp add: m2_def same_sizes_upd)
  show ?thesis
    by (rule exI [of _ m2]) (use run li same_sizes_trans [OF s1 s2] in \<open>simp add: m2_def m1_def\<close>)
qed

subsection \<open>The cache\<close>

lemma mset_concat_remove1:
  "x \<in> set xs \<Longrightarrow> mset (concat (map f xs)) = mset (f x) + mset (concat (map f (remove1 x xs)))"
  by (induction xs) auto

lemma cached_other:
  "cache m' = (cache m)(n := c) \<Longrightarrow> cache_count m' = (cache_count m)(n := k) \<Longrightarrow>
     map (\<lambda>i. map (cache m' i) [0..<cache_count m' i]) (remove1 n [0..<N]) =
     map (\<lambda>i. map (cache m i) [0..<cache_count m i]) (remove1 n [0..<N])"
  by (auto simp: set_remove1_eq)

lemma cached_split:
  assumes "n < MAX_CACHED_MEMORY" and "cache m' = (cache m)(n := c)"
    and "cache_count m' = (cache_count m)(n := k)"
  shows "mset (cached m') + mset (map (cache m n) [0..<cache_count m n]) =
         mset (cached m) + mset (map c [0..<k])"
proof -
  let ?f = "\<lambda>m i. map (cache m i) [0..<cache_count m i]" and ?r = "remove1 n [0..<MAX_CACHED_MEMORY]"
  have n: "n \<in> set [0..<MAX_CACHED_MEMORY]" using assms(1) by simp
  have "mset (cached m') = mset (?f m' n) + mset (concat (map (?f m') ?r))"
    unfolding cached_def by (rule mset_concat_remove1 [OF n])
  moreover have "mset (cached m) = mset (?f m n) + mset (concat (map (?f m) ?r))"
    unfolding cached_def by (rule mset_concat_remove1 [OF n])
  moreover have "?f m' n = map c [0..<k]" using assms by simp
  ultimately show ?thesis using cached_other [OF assms(2,3)] by simp
qed

lemma cached_pop:
  assumes "n < MAX_CACHED_MEMORY" and "cache_count m n = Suc c"
  shows "mset (cached m) =
    add_mset (cache m n c) (mset (cached (m\<lparr>cache_count := (cache_count m)(n := c)\<rparr>)))"
  using cached_split [OF assms(1), of "m\<lparr>cache_count := (cache_count m)(n := c)\<rparr>" m "cache m n" c] assms(2)
  by simp

lemma cached_push:
  assumes "n < MAX_CACHED_MEMORY"
  shows "mset (cached (m\<lparr>cache := (cache m)(n := (cache m n)(cache_count m n := p)),
      cache_count := (cache_count m)(n := cache_count m n + 1)\<rparr>)) = add_mset p (mset (cached m))"
  using cached_split [OF assms, of "m\<lparr>cache := (cache m)(n := (cache m n)(cache_count m n := p)),
      cache_count := (cache_count m)(n := cache_count m n + 1)\<rparr>" m
      "(cache m n)(cache_count m n := p)" "cache_count m n + 1"]
  by simp

lemma cached_cong: "cache m' = cache m \<Longrightarrow> cache_count m' = cache_count m \<Longrightarrow> cached m' = cached m"
  by (simp add: cached_def)

lemma cache_inv_cong:
  "cache m' = cache m \<Longrightarrow> cache_count m' = cache_count m \<Longrightarrow>
     (\<And>p h. p \<in> set (cached m) \<Longrightarrow> hdr m p = Some h \<Longrightarrow> \<exists>h'. hdr m' p = Some h' \<and> h_size h' = h_size h) \<Longrightarrow>
     cache_inv m \<Longrightarrow> cache_inv m'"
proof -
  assume a: "cache m' = cache m" "cache_count m' = cache_count m"
    "\<And>p h. p \<in> set (cached m) \<Longrightarrow> hdr m p = Some h \<Longrightarrow> \<exists>h'. hdr m' p = Some h' \<and> h_size h' = h_size h"
    "cache_inv m"
  show "cache_inv m'"
    unfolding cache_inv_def a(1,2)
  proof (intro allI impI conjI)
    fix n assume n: "n < MAX_CACHED_MEMORY"
    then show "cache_count m n \<le> MAX_CACHED_ENTRIES" using a(4) by (simp add: cache_inv_def)
    fix i assume i: "i < cache_count m n"
    have "cache m n i \<in> set (cached m)" using n i by (auto simp: cached_def intro!: bexI [of _ n])
    moreover obtain h where "hdr m (cache m n i) = Some h" "h_size h = int n"
      using a(4) n i by (auto simp: cache_inv_def)
    ultimately show "\<exists>h. hdr m' (cache m n i) = Some h \<and> h_size h = int n" using a(3) by metis
  qed
qed

subsection \<open>Allocating\<close>

lemma mm_inv_parts:
  assumes "mm_inv m bs live"
  shows "distinct bs" "dseg (HL (hdr m)) 0 bs 0" "head m = hd0 bs" "cache_inv m"
    "mset (cached m) + mset live = mset bs" "\<And>p. p \<in> set bs \<Longrightarrow> block_ok m p" "0 \<notin> set bs"
  using assms dseg_nonzero by (auto simp: mm_inv_def list_inv_def)

lemma mm_inv_set: "mm_inv m bs live \<Longrightarrow> set (cached m) \<union> set live = set bs"
  unfolding mm_inv_def by (metis mset_eq_setD set_append)

lemma mm_inv_distinct: "mm_inv m bs live \<Longrightarrow> distinct (cached m @ live)"
  unfolding mm_inv_def list_inv_def by (metis mset_eq_imp_distinct_iff)

lemma block_ok_cong:
  "same_sizes (hdr m) (hdr m') \<Longrightarrow> mem m' p = mem m p \<Longrightarrow> block_ok m p \<Longrightarrow> block_ok m' p"
  unfolding block_ok_def using same_sizes_Some by metis

text \<open>A new block, linked in front of the list and given its size.\<close>

lemma link_block:
  assumes inv: "list_inv m bs" and p: "p \<noteq> 0" "p \<notin> set bs" "hdr m p = Some h"
  shows "\<exists>m2 m3. push_front p m = Some m2 \<and> set_size p n m2 = Some m3 \<and> list_inv m3 (p # bs) \<and>
     (\<exists>h'. hdr m3 p = Some h' \<and> h_size h' = n) \<and>
     (\<forall>q k. q \<noteq> p \<longrightarrow> hdr m q = Some k \<longrightarrow> (\<exists>k'. hdr m3 q = Some k' \<and> h_size k' = h_size k)) \<and>
     mem m3 = mem m \<and> addresses m3 = addresses m \<and> cache m3 = cache m \<and>
     cache_count m3 = cache_count m \<and> initialized m3 = initialized m"
proof -
  from push_front_ok [of m bs p h] inv p obtain m2 where m2: "push_front p m = Some m2"
    "list_inv m2 (p # bs)" "same_sizes (hdr m) (hdr m2)" "mem m2 = mem m" "addresses m2 = addresses m"
    "cache m2 = cache m" "cache_count m2 = cache_count m" "initialized m2 = initialized m"
    by (auto simp: list_inv_def)
  from same_sizes_Some [OF m2(3) p(3)] obtain h2 where h2: "hdr m2 p = Some h2" by blast
  let ?m3 = "set_hdr p (h2\<lparr>h_size := n\<rparr>) m2"
  have "HL (hdr ?m3) = HL (hdr m2)" using h2 by (auto simp: HL_def fun_eq_iff)
  then have "list_inv ?m3 (p # bs)" using m2(2) by (simp add: list_inv_def del: HL_upd)
  moreover have "set_size p n m2 = Some ?m3" using h2 by (simp add: set_size_def)
  moreover have "\<forall>q k. q \<noteq> p \<longrightarrow> hdr m q = Some k \<longrightarrow> (\<exists>k'. hdr ?m3 q = Some k' \<and> h_size k' = h_size k)"
    using same_sizes_Some [OF m2(3)] by simp
  ultimately show ?thesis using m2 by (intro exI [of _ m2] exI [of _ ?m3]) simp
qed

definition alloc_result :: "mm \<Rightarrow> addr list \<Rightarrow> nat \<Rightarrow> addr \<Rightarrow> mm \<Rightarrow> bool" where
  "alloc_result m live n p m' \<longleftrightarrow>
     p \<noteq> 0 \<and> p \<notin> set live \<and> length (mem m' p) = n \<and>
     (\<exists>bs'. mm_inv m' bs' (p # live)) \<and> (\<forall>q. q \<noteq> p \<longrightarrow> mem m' q = mem m q)"

lemma emalloc_cached:
  assumes inv: "mm_inv m bs live" and n: "n < MAX_CACHED_MEMORY" "cache_count m n = Suc c"
  shows "emalloc n m = Ret (cache m n c, m\<lparr>cache_count := (cache_count m)(n := c)\<rparr>) \<and>
     alloc_result m live n (cache m n c) (m\<lparr>cache_count := (cache_count m)(n := c)\<rparr>)"
proof -
  let ?m = "m\<lparr>cache_count := (cache_count m)(n := c)\<rparr>" and ?p = "cache m n c"
  note v = mm_inv_parts [OF inv]
  have pop: "mset (cached m) = add_mset ?p (mset (cached ?m))" by (rule cached_pop [OF n])
  then have pin: "?p \<in> set bs"
    using v(5) by (metis add_mset_add_single mset_eq_setD set_mset_mset union_iff union_single_eq_member)
  have di: "distinct (cached m @ live)" by (rule mm_inv_distinct [OF inv])
  have pc: "?p \<in> set (cached m)" using pop by (metis set_mset_mset union_single_eq_member)
  obtain h where h: "hdr m ?p = Some h" "h_size h = int n" using v(4) n lessI [of c] unfolding cache_inv_def by metis
  then have "length (mem m ?p) = n" using v(6) [OF pin] by (auto simp: block_ok_def)
  moreover have "mm_inv ?m bs (?p # live)"
    unfolding mm_inv_def
  proof (intro conjI)
    show "list_inv ?m bs" using inv by (simp add: mm_inv_def list_inv_def)
    show "cache_inv ?m" using v(4) n by (auto simp: cache_inv_def)
    show "mset (cached ?m @ ?p # live) = mset bs" using v(5) pop by simp
    show "\<forall>p\<in>set bs. block_ok ?m p" using v(6) by (simp add: block_ok_def)
  qed
  moreover have "?p \<noteq> 0" using pin v(7) by metis
  ultimately show ?thesis using n di pc by (auto simp: emalloc_def alloc_result_def)
qed

lemma emalloc_fresh:
  assumes inv: "mm_inv m bs live" and n: "\<not> (n < MAX_CACHED_MEMORY \<and> cache_count m n > 0)"
    and sz: "n < 2147483648"
  shows "emalloc n m = Exit \<or> (\<exists>p m'. emalloc n m = Ret (p, m') \<and> alloc_result m live n p m' \<and>
     mem m' p = replicate n None)"
proof -
  note v = mm_inv_parts [OF inv]
  obtain p m1 where p: "malloc n m = (p, m1)" by (cases "malloc n m")
  show ?thesis
  proof (cases "p = 0")
    case True
    then have "emalloc n m = Exit" using n p by (auto simp: emalloc_def)
    then show ?thesis ..
  next
    case False
    then have f: "hdr m p = None" "hdr m1 = (hdr m)(p \<mapsto> blank_header)" "mem m1 = (mem m)(p := replicate n None)"
      "head m1 = head m" "cache m1 = cache m" "cache_count m1 = cache_count m"
      using p by (auto simp: malloc_def split: list.splits if_splits)
    have np: "p \<notin> set bs" using dseg_in_dom [OF v(2), of p] f(1) by (auto simp: HL_def)
    have li: "list_inv m1 bs" using v(1-3) np f by (simp add: list_inv_def dseg_upd_other)
    have "hdr m1 p = Some blank_header" using f by simp
    from link_block [OF li False np this, of "to_int n"] obtain m2 m3 where r:
      "push_front p m1 = Some m2" "set_size p (to_int n) m2 = Some m3" "list_inv m3 (p # bs)"
      "\<exists>h'. hdr m3 p = Some h' \<and> h_size h' = to_int n"
      "\<forall>q k. q \<noteq> p \<longrightarrow> hdr m1 q = Some k \<longrightarrow> (\<exists>k'. hdr m3 q = Some k' \<and> h_size k' = h_size k)"
      "mem m3 = mem m1" "cache m3 = cache m1" "cache_count m3 = cache_count m1" by blast
    have npc: "p \<notin> set (cached m)" "p \<notin> set live" using np mm_inv_set [OF inv] by auto
    have c: "cached m3 = cached m" using r f by (intro cached_cong) auto
    have old: "\<exists>k'. hdr m3 q = Some k' \<and> h_size k' = h_size k" if "q \<noteq> p" "hdr m q = Some k" for q k
      using r(5) that f(2) by simp
    have "mm_inv m3 (p # bs) (p # live)"
      unfolding mm_inv_def
    proof (intro conjI)
      show "list_inv m3 (p # bs)" by (rule r(3))
      show "cache_inv m3" using old npc(1) r f by (intro cache_inv_cong [OF _ _ _ v(4)]) auto
      show "mset (cached m3 @ p # live) = mset (p # bs)" using c v(5) by simp
      have "block_ok m3 p" using r(4,6) f(3) sz by (auto simp: block_ok_def to_int_small)
      moreover have "block_ok m3 q" if q: "q \<in> set bs" for q
      proof -
        have "q \<noteq> p" using q np by blast
        then show ?thesis using v(6) [OF q] old [of q] r(6) f(3) by (auto simp: block_ok_def)
      qed
      ultimately show "\<forall>q\<in>set (p # bs). block_ok m3 q" by simp
    qed
    then have "alloc_result m live n p m3" "mem m3 p = replicate n None"
      using False npc r(6) f(3) by (auto simp: alloc_result_def)
    moreover have "emalloc n m = Ret (p, m3)" using n p False r(1,2) by (auto simp: emalloc_def or_undef_def)
    ultimately show ?thesis by blast
  qed
qed

lemma emalloc_ok:
  assumes inv: "mm_inv m bs live" and sz: "n < 2147483648"
  shows "emalloc n m = Exit \<or> (\<exists>p m'. emalloc n m = Ret (p, m') \<and> alloc_result m live n p m')"
proof (cases "n < MAX_CACHED_MEMORY \<and> cache_count m n > 0")
  case True
  then obtain c where "cache_count m n = Suc c" using gr0_conv_Suc by blast
  then show ?thesis using emalloc_cached [OF inv] True by blast
next
  case False
  then show ?thesis using emalloc_fresh [OF inv False sz] by blast
qed

subsection \<open>Freeing\<close>

lemma mset_live_remove1:
  "mset c + mset live = mset bs \<Longrightarrow> p \<in> set live \<Longrightarrow>
     mset c + mset (remove1 p live) = mset bs - {#p#}"
  by (metis diff_union_single_conv mset_remove1 set_mset_mset)

lemma efree_ok:
  assumes inv: "mm_inv m bs live" and p: "p \<in> set live"
  shows "\<exists>m' bs'. efree p m = Ret m' \<and> mm_inv m' bs' (remove1 p live) \<and> mem m' = mem m \<and>
     (if length (mem m p) < MAX_CACHED_MEMORY \<and> cache_count m (length (mem m p)) < MAX_CACHED_ENTRIES
      then cache_count m' (length (mem m p)) = cache_count m (length (mem m p)) + 1 \<and>
           cache m' (length (mem m p)) (cache_count m (length (mem m p))) = p
      else hdr m' p = None)"
proof -
  let ?n = "length (mem m p)"
  note v = mm_inv_parts [OF inv]
  have pb: "p \<in> set bs" using p mm_inv_set [OF inv] by blast
  obtain h where h: "hdr m p = Some h" "h_size h = int ?n"
    using v(6) [OF pb] by (auto simp: block_ok_def)
  show ?thesis
  proof (cases "?n < MAX_CACHED_MEMORY \<and> cache_count m ?n < MAX_CACHED_ENTRIES")
    case True
    let ?m = "m\<lparr>cache := (cache m)(?n := (cache m ?n)(cache_count m ?n := p)),
                cache_count := (cache_count m)(?n := cache_count m ?n + 1)\<rparr>"
    have r: "efree p m = Ret ?m" using h True by (simp add: efree_def Let_def)
    have push: "mset (cached ?m) = add_mset p (mset (cached m))" using True by (intro cached_push) simp
    have "mm_inv ?m bs (remove1 p live)"
      unfolding mm_inv_def
    proof (intro conjI)
      show "list_inv ?m bs" using v(1-3) by (simp add: list_inv_def)
      show "cache_inv ?m" using v(4) h True by (auto simp: cache_inv_def less_Suc_eq)
      show "mset (cached ?m @ remove1 p live) = mset bs"
        using push mset_live_remove1 [OF v(5) p] pb by simp
      show "\<forall>q\<in>set bs. block_ok ?m q" using v(6) by (simp add: block_ok_def)
    qed
    then show ?thesis using r True by (intro exI [of _ ?m] exI [of _ bs]) simp
  next
    case False
    obtain xs ys where bs: "bs = xs @ p # ys" using pb by (meson split_list)
    from remove_pointer_ok [of m xs p ys] v(1-3) bs obtain m1 where m1:
      "remove_pointer_from_list p m = Some m1" "dseg (HL (hdr m1)) 0 (xs @ ys) 0"
      "head m1 = hd0 (xs @ ys)" "same_sizes (hdr m) (hdr m1)" "mem m1 = mem m" "cache m1 = cache m"
      "cache_count m1 = cache_count m" by auto
    let ?m = "m1\<lparr>hdr := (hdr m1)(p := None)\<rparr>"
    have "hdr m1 p \<noteq> None" using same_sizes_Some [OF m1(4) h(1)] by auto
    then have fr: "free_block p m1 = Some ?m" by (auto simp: free_block_def)
    have r: "efree p m = Ret ?m" using h False m1(1) fr by (auto simp: efree_def or_undef_def)
    have npc: "p \<notin> set (cached m)" using mm_inv_distinct [OF inv] p by auto
    have di: "p \<notin> set (xs @ ys)" "distinct (xs @ ys)" using v(1) bs by auto
    have "mm_inv ?m (xs @ ys) (remove1 p live)"
      unfolding mm_inv_def
    proof (intro conjI)
      have "dseg (HL (hdr ?m)) 0 (xs @ ys) 0"
        using m1(2) di(1) by (subst dseg_cong [of _ _ "HL (hdr m1)"]) (auto simp: HL_def)
      then show "list_inv ?m (xs @ ys)" using di m1(3) by (simp add: list_inv_def)
      show "cache_inv ?m"
        using npc same_sizes_Some [OF m1(4)] m1 by (intro cache_inv_cong [OF _ _ _ v(4)]) auto
      have "cached ?m = cached m" using m1 by (intro cached_cong) auto
      then show "mset (cached ?m @ remove1 p live) = mset (xs @ ys)"
        using mset_live_remove1 [OF v(5) p] bs by simp
      show "\<forall>q\<in>set (xs @ ys). block_ok ?m q"
      proof
        fix q assume q: "q \<in> set (xs @ ys)"
        then have "block_ok m1 q" using v(6) [of q] bs m1(4,5) by (auto intro: block_ok_cong)
        then show "block_ok ?m q" using q di(1) by (auto simp: block_ok_def)
      qed
    qed
    then show ?thesis using r m1 False by (intro exI [of _ ?m] exI [of _ "xs @ ys"]) auto
  qed
qed

text \<open>
  A block whose size does not fit an \<open>int\<close> gets a negative size in its header: giving it back
  reads in front of \<open>cache_count\<close>.
\<close>

lemma emalloc_big_free:
  assumes inv: "mm_inv m bs live" and n: "2147483648 \<le> n" "n < 4294967296"
    and r: "emalloc n m = Ret (p, m')"
  shows "efree p m' = Undef"
proof -
  obtain q m1 where q: "malloc n m = (q, m1)" by (cases "malloc n m")
  have "\<not> n < MAX_CACHED_MEMORY" using n by (simp add: MAX_CACHED_MEMORY_def)
  then obtain m2 h where "push_front p m1 = Some m2" "hdr m2 p = Some h" "m' = set_hdr p (h\<lparr>h_size := to_int n\<rparr>) m2"
    using r q by (auto simp: emalloc_def or_undef_def set_size_def split: if_splits option.splits bind_splits)
  moreover have "to_int n < 0" using n by (simp add: to_int_def)
  ultimately show ?thesis by (simp add: efree_def MAX_CACHED_MEMORY_def)
qed

subsection \<open>Resizing\<close>

lemma list_inv_remove:
  assumes li: "list_inv m bs" and p: "p \<in> set bs"
  shows "\<exists>m' bs'. remove_pointer_from_list p m = Some m' \<and> list_inv m' bs' \<and> bs' = remove1 p bs \<and>
     p \<notin> set bs' \<and> same_sizes (hdr m) (hdr m') \<and>
     (\<forall>x. x \<notin> set bs' \<longrightarrow> hdr m' x = hdr m x) \<and> mem m' = mem m \<and> addresses m' = addresses m \<and>
     cache m' = cache m \<and> cache_count m' = cache_count m \<and> initialized m' = initialized m"
proof -
  obtain xs ys where bs: "bs = xs @ p # ys" using p by (meson split_list)
  have di: "distinct (xs @ p # ys)" using li bs by (simp add: list_inv_def)
  then have "remove1 p bs = xs @ ys" using bs by (simp add: remove1_append)
  moreover from remove_pointer_ok [of m xs p ys] li bs obtain m1 where
    "remove_pointer_from_list p m = Some m1" "dseg (HL (hdr m1)) 0 (xs @ ys) 0"
    "head m1 = hd0 (xs @ ys)" "same_sizes (hdr m) (hdr m1)"
    "\<forall>x. x \<notin> set (xs @ ys) \<longrightarrow> hdr m1 x = hdr m x" "mem m1 = mem m" "addresses m1 = addresses m"
    "cache m1 = cache m" "cache_count m1 = cache_count m" "initialized m1 = initialized m"
    by (auto simp: list_inv_def)
  ultimately show ?thesis using di by (intro exI [of _ m1] exI [of _ "xs @ ys"]) (simp add: list_inv_def)
qed

lemma length_resize [simp]: "length (resize_block n c) = n"
  by (simp add: resize_block_def)

lemma erealloc_ok:
  assumes inv: "mm_inv m bs live" and p: "p \<in> set live" and sz: "n < 2147483648"
  shows "erealloc p n m = Exit \<or> (\<exists>q m' bs'. erealloc p n m = Ret (q, m') \<and> q \<noteq> 0 \<and>
     q \<notin> set (remove1 p live) \<and> mem m' q = resize_block n (mem m p) \<and>
     mm_inv m' bs' (q # remove1 p live) \<and> (\<forall>x. x \<noteq> q \<longrightarrow> mem m' x = mem m x))"
proof -
  note v = mm_inv_parts [OF inv]
  have pb: "p \<in> set bs" using p mm_inv_set [OF inv] by blast
  then have p0: "p \<noteq> 0" using v(7) by metis
  have "list_inv m bs" using v(1-3) by (simp add: list_inv_def)
  from list_inv_remove [OF this pb] obtain m1 where m1: "remove_pointer_from_list p m = Some m1"
    "list_inv m1 (remove1 p bs)" "p \<notin> set (remove1 p bs)" "same_sizes (hdr m) (hdr m1)" "mem m1 = mem m"
    "cache m1 = cache m" "cache_count m1 = cache_count m" by blast
  obtain h where h: "hdr m1 p = Some h" using v(6) [OF pb] same_sizes_Some [OF m1(4)] by (auto simp: block_ok_def)
  obtain q m2 where q: "realloc p n m1 = (q, m2)" by (cases "realloc p n m1")
  show ?thesis
  proof (cases "q = 0")
    case True
    then show ?thesis using p0 m1(1) q by (simp add: erealloc_def)
  next
    case False
    then have f: "hdr m1 q = None \<or> q = p" "hdr m2 = (hdr m1)(p := None, q := hdr m1 p)"
      "mem m2 = (mem m1)(q := resize_block n (mem m1 p))" "head m2 = head m1" "cache m2 = cache m1"
      "cache_count m2 = cache_count m1"
      using q by (auto simp: realloc_def split: list.splits if_splits)
    have nq: "q \<notin> set (remove1 p bs)"
      using f(1) m1(2,3) dseg_in_dom [of "HL (hdr m1)" 0 "remove1 p bs" 0 q] by (auto simp: list_inv_def HL_def)
    have "dseg (HL (hdr m2)) 0 (remove1 p bs) 0 = dseg (HL (hdr m1)) 0 (remove1 p bs) 0"
      using m1(3) nq f(2) by (intro dseg_cong) (auto simp: HL_def)
    then have li: "list_inv m2 (remove1 p bs)" using m1(2) f(4) by (simp add: list_inv_def)
    have "hdr m2 q = Some h" using f(2) h by simp
    from link_block [OF li False nq this, of "to_int n"] obtain m3 m4 where r:
      "push_front q m2 = Some m3" "set_size q (to_int n) m3 = Some m4" "list_inv m4 (q # remove1 p bs)"
      "\<exists>h'. hdr m4 q = Some h' \<and> h_size h' = to_int n"
      "\<forall>x k. x \<noteq> q \<longrightarrow> hdr m2 x = Some k \<longrightarrow> (\<exists>k'. hdr m4 x = Some k' \<and> h_size k' = h_size k)"
      "mem m4 = mem m2" "cache m4 = cache m2" "cache_count m4 = cache_count m2" by blast
    have di: "distinct (cached m @ live)" by (rule mm_inv_distinct [OF inv])
    have sb: "set (cached m) \<union> set live = set bs" by (rule mm_inv_set [OF inv])
    have qc: "q \<notin> set (cached m)" "p \<notin> set (cached m)" "q \<notin> set (remove1 p live)"
      using di sb nq p v(1) by auto
    have old: "\<exists>k'. hdr m4 x = Some k' \<and> h_size k' = h_size k" if "x \<noteq> q" "x \<noteq> p" "hdr m x = Some k" for x k
    proof -
      from same_sizes_Some [OF m1(4) that(3)] obtain k1 where "hdr m1 x = Some k1" "h_size k1 = h_size k" by blast
      then show ?thesis using r(5) f(2) that by (metis fun_upd_other)
    qed
    have c: "cached m4 = cached m" using r f m1 by (intro cached_cong) auto
    have "mm_inv m4 (q # remove1 p bs) (q # remove1 p live)"
      unfolding mm_inv_def
    proof (intro conjI)
      show "list_inv m4 (q # remove1 p bs)" by (rule r(3))
      have "\<exists>k'. hdr m4 x = Some k' \<and> h_size k' = h_size k"
        if "x \<in> set (cached m)" "hdr m x = Some k" for x k
        using that old [of x k] qc by blast
      then show "cache_inv m4" using r f m1 by (intro cache_inv_cong [OF _ _ _ v(4)]) simp_all
      have "mset (cached m) + mset (remove1 p live) = mset (remove1 p bs)"
        using mset_live_remove1 [OF v(5) p] by simp
      then show "mset (cached m4 @ q # remove1 p live) = mset (q # remove1 p bs)" using c by simp
      have "block_ok m4 q" using r(4,6) f(3) sz by (auto simp: block_ok_def to_int_small)
      moreover have "block_ok m4 x" if x: "x \<in> set (remove1 p bs)" for x
      proof -
        have "x \<noteq> q" "x \<noteq> p" "x \<in> set bs" using x nq m1(3) notin_set_remove1 by fastforce+
        then show ?thesis using v(6) [of x] old [of x] r(6) f(3) m1(5) by (auto simp: block_ok_def)
      qed
      ultimately show "\<forall>x\<in>set (q # remove1 p bs). block_ok m4 x" by simp
    qed
    moreover have "erealloc p n m = Ret (q, m4)"
      using p0 m1(1) q False r(1,2) by (simp add: erealloc_def or_undef_def)
    ultimately show ?thesis using False qc(3) r(6) f(3) m1(5) by auto
  qed
qed

subsection \<open>Copies and cleared blocks\<close>

lemma write_block_ok:
  assumes inv: "mm_inv m bs live" and p: "p \<in> set live" and n: "length c \<le> length (mem m p)"
  shows "\<exists>m'. write_block p c m = Some m' \<and> mm_inv m' bs live \<and> take (length c) (mem m' p) = c \<and>
     (\<forall>q. q \<noteq> p \<longrightarrow> mem m' q = mem m q)"
proof -
  let ?m = "m\<lparr>mem := (mem m)(p := c @ drop (length c) (mem m p))\<rparr>"
  have "p \<in> set bs" using p mm_inv_set [OF inv] by blast
  then have "hdr m p \<noteq> None" using mm_inv_parts(6) [OF inv] by (auto simp: block_ok_def)
  then have "write_block p c m = Some ?m" using n by (simp add: write_block_def)
  moreover have "mm_inv ?m bs live"
    using inv n by (auto simp: mm_inv_def list_inv_def cache_inv_def cached_def block_ok_def)
  ultimately show ?thesis by auto
qed

text \<open>\<open>filled\<close>: a new block that starts with the given bytes.\<close>

definition filled :: "mm \<Rightarrow> addr list \<Rightarrow> string \<Rightarrow> addr \<Rightarrow> mm \<Rightarrow> bool" where
  "filled m live s p m' \<longleftrightarrow>
     p \<noteq> 0 \<and> p \<notin> set live \<and> take (length s) (mem m' p) = map Some s \<and>
     (\<exists>bs'. mm_inv m' bs' (p # live)) \<and> (\<forall>q. q \<noteq> p \<longrightarrow> mem m' q = mem m q)"

lemma filled_alloc:
  assumes "alloc_result m live n p m1" and "length s \<le> n"
  shows "\<exists>m2. write_block p (map Some s) m1 = Some m2 \<and> filled m live s p m2"
proof -
  from assms(1) obtain bs' where a: "p \<noteq> 0" "p \<notin> set live" "length (mem m1 p) = n"
    "mm_inv m1 bs' (p # live)" "\<forall>q. q \<noteq> p \<longrightarrow> mem m1 q = mem m q" by (auto simp: alloc_result_def)
  from write_block_ok [OF a(4), of p "map Some s"] a(3) assms(2) obtain m2 where
    "write_block p (map Some s) m1 = Some m2" "mm_inv m2 bs' (p # live)"
    "take (length s) (mem m2 p) = map Some s" "\<forall>q. q \<noteq> p \<longrightarrow> mem m2 q = mem m1 q" by auto
  then show ?thesis using a by (auto simp: filled_def)
qed

lemma estrndup_ok:
  assumes inv: "mm_inv m bs live" and n: "n \<le> length s" "n < 2147483647"
  shows "estrndup s n m = Exit \<or>
    (\<exists>p m'. estrndup s n m = Ret (p, m') \<and> filled m live (take n s @ [NUL]) p m')"
proof -
  have k: "(n + 1) mod 4294967296 = n + 1" using n by simp
  have "n + 1 < 2147483648" using n by simp
  from emalloc_ok [OF inv this] show ?thesis
  proof (elim disjE exE conjE)
    fix p m1 assume a: "emalloc (n + 1) m = Ret (p, m1)" "alloc_result m live (n + 1) p m1"
    from filled_alloc [OF a(2), of "take n s @ [NUL]"] n obtain m2 where
      "write_block p (map Some (take n s @ [NUL])) m1 = Some m2" "filled m live (take n s @ [NUL]) p m2" by auto
    then show ?thesis using a(1) n k by (auto simp: estrndup_def)
  qed (use k in \<open>simp add: estrndup_def\<close>)
qed

lemma estrdup_ok:
  assumes inv: "mm_inv m bs live" and n: "length s < 2147483647"
  shows "estrdup s m = Exit \<or> (\<exists>p m'. estrdup s m = Ret (p, m') \<and> filled m live (s @ [NUL]) p m')"
proof -
  have k: "to_size_t (to_int (length s + 1)) = length s + 1"
    using n by (subst to_int_small) (simp_all add: to_size_t_def)
  have "length s + 1 < 2147483648" using n by simp
  from emalloc_ok [OF inv this] show ?thesis
  proof (elim disjE exE conjE)
    fix p m1 assume a: "emalloc (length s + 1) m = Ret (p, m1)" "alloc_result m live (length s + 1) p m1"
    from filled_alloc [OF a(2), of "s @ [NUL]"] obtain m2 where
      "write_block p (map Some (s @ [NUL])) m1 = Some m2" "filled m live (s @ [NUL]) p m2" by auto
    then show ?thesis using a(1) k by (auto simp: estrdup_def Let_def)
  qed (use k in \<open>simp add: estrdup_def Let_def\<close>)
qed

lemma ecalloc_ok:
  assumes inv: "mm_inv m bs live" and n: "k * n < 2147483648"
  shows "ecalloc k n m = Exit \<or>
    (\<exists>p m'. ecalloc k n m = Ret (p, m') \<and> filled m live (replicate (k * n) NUL) p m')"
proof -
  have z: "to_size_t (to_int (n * k)) = k * n"
    using n by (simp add: to_int_small to_size_t_def mult.commute [of n] flip: of_nat_mult)
  from emalloc_ok [OF inv n] show ?thesis
  proof (elim disjE exE conjE)
    fix p m1 assume a: "emalloc (k * n) m = Ret (p, m1)" "alloc_result m live (k * n) p m1"
    from filled_alloc [OF a(2), of "replicate (k * n) NUL"] obtain m2 where
      "write_block p (replicate (k * n) (Some NUL)) m1 = Some m2" "filled m live (replicate (k * n) NUL) p m2" by auto
    then show ?thesis using a(1) z by (auto simp: ecalloc_def Let_def)
  qed (use z in \<open>simp add: ecalloc_def Let_def\<close>)
qed

subsection \<open>Shutting down\<close>

lemma free_cached_ok:
  "list_inv m bs \<Longrightarrow> distinct ps \<Longrightarrow> set ps \<subseteq> set bs \<Longrightarrow>
     \<exists>m' bs'. free_cached ps m = Some m' \<and> list_inv m' bs' \<and> set bs' = set bs - set ps \<and>
       (\<forall>x. x \<notin> set bs' \<longrightarrow> hdr m' x = (if x \<in> set ps then None else hdr m x))"
proof (induction ps arbitrary: m bs)
  case Nil
  then show ?case by auto
next
  case (Cons p ps)
  then have pb: "p \<in> set bs" and db: "distinct bs" by (simp_all add: list_inv_def)
  from list_inv_remove [OF Cons.prems(1) pb] obtain m1 where m1: "remove_pointer_from_list p m = Some m1"
    "list_inv m1 (remove1 p bs)" "same_sizes (hdr m) (hdr m1)"
    "\<forall>x. x \<notin> set (remove1 p bs) \<longrightarrow> hdr m1 x = hdr m x" by blast
  have sr: "set (remove1 p bs) = set bs - {p}" using db by simp
  let ?m = "m1\<lparr>hdr := (hdr m1)(p := None)\<rparr>"
  obtain k where "hdr m p = Some k"
    using Cons.prems(1) pb dseg_in_dom [of "HL (hdr m)" 0 bs 0 p] HL_SomeD by (fastforce simp: list_inv_def)
  then have f: "free_block p m1 = Some ?m" using same_sizes_Some [OF m1(3)] by (fastforce simp: free_block_def)
  have "dseg (HL (hdr ?m)) 0 (remove1 p bs) 0 = dseg (HL (hdr m1)) 0 (remove1 p bs) 0"
    using sr by (intro dseg_cong) (auto simp: HL_def)
  then have "list_inv ?m (remove1 p bs)" using m1(2) by (simp add: list_inv_def)
  moreover have "distinct ps" "set ps \<subseteq> set (remove1 p bs)" using Cons.prems(2,3) sr by auto
  ultimately obtain m' bs' where r: "free_cached ps ?m = Some m'"
    "list_inv m' bs'" "set bs' = set (remove1 p bs) - set ps"
    "\<forall>x. x \<notin> set bs' \<longrightarrow> hdr m' x = (if x \<in> set ps then None else hdr ?m x)" using Cons.IH [of ?m "remove1 p bs"] by blast
  show ?case
  proof (intro exI conjI)
    show "free_cached (p # ps) m = Some m'" using m1(1) f r(1) by simp
    show "list_inv m' bs'" by (rule r(2))
    show sb: "set bs' = set bs - set (p # ps)" using r(3) sr by auto
    show "\<forall>x. x \<notin> set bs' \<longrightarrow> hdr m' x = (if x \<in> set (p # ps) then None else hdr m x)"
    proof (intro allI impI)
      fix x assume x: "x \<notin> set bs'"
      then have "x \<in> set (p # ps) \<or> x \<notin> set bs" using sb by blast
      then show "hdr m' x = (if x \<in> set (p # ps) then None else hdr m x)"
        using r(4) x m1(4) sr by auto
    qed
  qed
qed

lemma free_list_ok:
  "dseg (HL (hdr m)) prev bs 0 \<Longrightarrow> distinct bs \<Longrightarrow>
     \<exists>m'. free_list (hd0 bs) m = Some m' \<and> hdr m' = (\<lambda>x. if x \<in> set bs then None else hdr m x)"
proof (induction bs arbitrary: m prev)
  case Nil
  then show ?case by (simp add: free_list.simps)
next
  case (Cons p bs)
  from Cons.prems obtain h where h: "hdr m p = Some h" "p \<noteq> 0" "h_pNext h = hd0 (bs @ [0])"
    "dseg (HL (hdr m)) p bs 0" using HL_SomeD by fastforce
  let ?m = "m\<lparr>hdr := (hdr m)(p := None)\<rparr>"
  have "dseg (HL (hdr ?m)) p bs 0 = dseg (HL (hdr m)) p bs 0"
    using Cons.prems(2) by (intro dseg_cong) (auto simp: HL_def)
  then obtain m' where m': "free_list (hd0 bs) ?m = Some m'"
    "hdr m' = (\<lambda>x. if x \<in> set bs then None else hdr ?m x)"
    using Cons.IH [of ?m p] h(4) Cons.prems(2) by (metis distinct.simps(2))
  have "free_list p m = Some m'"
    using h m'(1) by (subst free_list.simps) (cases bs; simp add: free_block_def)
  then show ?case using m'(2) by (auto simp: fun_eq_iff)
qed

lemma shutdown_ok:
  assumes inv: "mm_inv m bs live"
  shows "\<exists>m'. shutdown_memory_manager m = Some m' \<and> \<not> initialized m' \<and>
     hdr m' = (\<lambda>x. if x \<in> set bs then None else hdr m x)"
proof -
  have li: "list_inv m bs" using inv by (simp add: mm_inv_def)
  have "distinct (cached m)" "set (cached m) \<subseteq> set bs"
    using mm_inv_distinct [OF inv] mm_inv_set [OF inv] by auto
  from free_cached_ok [OF li this] obtain m1 bs1 where r: "free_cached (cached m) m = Some m1"
    "list_inv m1 bs1" "set bs1 = set bs - set (cached m)"
    "\<forall>x. x \<notin> set bs1 \<longrightarrow> hdr m1 x = (if x \<in> set (cached m) then None else hdr m x)" by blast
  from free_list_ok [of m1 0 bs1] r(2) obtain m2 where m2: "free_list (head m1) m1 = Some m2"
    "hdr m2 = (\<lambda>x. if x \<in> set bs1 then None else hdr m1 x)" by (auto simp: list_inv_def)
  have "hdr m2 = (\<lambda>x. if x \<in> set bs then None else hdr m x)"
    using m2(2) r(3,4) \<open>set (cached m) \<subseteq> set bs\<close> by (auto simp: fun_eq_iff)
  then show ?thesis using r(1) m2(1) by (simp add: shutdown_memory_manager_def)
qed

lemma start_ok: "mm_inv (start_memory_manager m) [] []"
  by (auto simp: mm_inv_def list_inv_def cache_inv_def cached_def start_memory_manager_def)

subsection \<open>The interface of the allocator\<close>

text \<open>
  What the other components rely on: \<open>inv s live\<close> says that exactly the blocks \<open>live\<close> are in use,
  \<open>cont s p\<close> is the contents of block \<open>p\<close>.
\<close>

locale allocator =
  fixes inv :: "'s \<Rightarrow> addr list \<Rightarrow> bool" and cont :: "'s \<Rightarrow> addr \<Rightarrow> char option list"
    and alloc :: "nat \<Rightarrow> 's \<Rightarrow> (addr \<times> 's) outcome" and release :: "addr \<Rightarrow> 's \<Rightarrow> 's outcome"
    and resize :: "addr \<Rightarrow> nat \<Rightarrow> 's \<Rightarrow> (addr \<times> 's) outcome"
    and wr :: "addr \<Rightarrow> char option list \<Rightarrow> 's \<Rightarrow> 's option"
  assumes inv_distinct: "inv s live \<Longrightarrow> distinct live \<and> 0 \<notin> set live"
    and inv_perm: "inv s live \<Longrightarrow> mset live = mset live' \<Longrightarrow> inv s live'"
    and alloc_law: "inv s live \<Longrightarrow> n < 2147483648 \<Longrightarrow> alloc n s = Exit \<or>
      (\<exists>p s'. alloc n s = Ret (p, s') \<and> inv s' (p # live) \<and> length (cont s' p) = n \<and>
         (\<forall>q. q \<noteq> p \<longrightarrow> cont s' q = cont s q))"
    and release_law: "inv s live \<Longrightarrow> p \<in> set live \<Longrightarrow>
      \<exists>s'. release p s = Ret s' \<and> inv s' (remove1 p live) \<and> cont s' = cont s"
    and resize_law: "inv s live \<Longrightarrow> p \<in> set live \<Longrightarrow> n < 2147483648 \<Longrightarrow> resize p n s = Exit \<or>
      (\<exists>q s'. resize p n s = Ret (q, s') \<and> inv s' (q # remove1 p live) \<and>
         cont s' q = resize_block n (cont s p) \<and> (\<forall>x. x \<noteq> q \<longrightarrow> cont s' x = cont s x))"
    and wr_law: "inv s live \<Longrightarrow> p \<in> set live \<Longrightarrow> length c = length (cont s p) \<Longrightarrow>
      \<exists>s'. wr p c s = Some s' \<and> inv s' live \<and> cont s' = (cont s)(p := c)"

definition mm_live :: "mm \<Rightarrow> addr list \<Rightarrow> bool" where
  "mm_live m live \<longleftrightarrow> (\<exists>bs. mm_inv m bs live)"

lemma mm_live_perm: "mm_live m live \<Longrightarrow> mset live = mset live' \<Longrightarrow> mm_live m live'"
  by (auto simp: mm_live_def mm_inv_def)

lemma mm_live_distinct: "mm_live m live \<Longrightarrow> distinct live \<and> 0 \<notin> set live"
  unfolding mm_live_def using mm_inv_distinct mm_inv_parts(7) mm_inv_set by fastforce

lemma mm_write: "mm_live m live \<Longrightarrow> p \<in> set live \<Longrightarrow> length c = length (mem m p) \<Longrightarrow>
    \<exists>m'. write_block p c m = Some m' \<and> mm_live m' live \<and> mem m' = (mem m)(p := c)"
  unfolding mm_live_def
proof (elim exE)
  fix bs assume a: "mm_inv m bs live" "p \<in> set live" "length c = length (mem m p)"
  from write_block_ok [OF a(1,2), of c] a(3) obtain m' where m': "write_block p c m = Some m'"
    "mm_inv m' bs live" by auto
  moreover from this have "mem m' = (mem m)(p := c)" using a(3) by (auto simp: write_block_def split: if_splits)
  ultimately show "\<exists>m'. write_block p c m = Some m' \<and> (\<exists>bs. mm_inv m' bs live) \<and> mem m' = (mem m)(p := c)"
    by blast
qed

interpretation mm: allocator mm_live mem emalloc efree erealloc write_block
proof
  show "mm_live s live \<Longrightarrow> distinct live \<and> 0 \<notin> set live" for s live by (rule mm_live_distinct)
  show "mm_live s live \<Longrightarrow> mset live = mset live' \<Longrightarrow> mm_live s live'" for s live live' by (rule mm_live_perm)
  show "mm_live s live \<Longrightarrow> n < 2147483648 \<Longrightarrow> emalloc n s = Exit \<or>
      (\<exists>p s'. emalloc n s = Ret (p, s') \<and> mm_live s' (p # live) \<and> length (mem s' p) = n \<and>
         (\<forall>q. q \<noteq> p \<longrightarrow> mem s' q = mem s q))" for s live n
    unfolding mm_live_def alloc_result_def using emalloc_ok [of s _ live n] by (fastforce simp: alloc_result_def)
  show "mm_live s live \<Longrightarrow> p \<in> set live \<Longrightarrow>
      \<exists>s'. efree p s = Ret s' \<and> mm_live s' (remove1 p live) \<and> mem s' = mem s" for s live p
    unfolding mm_live_def using efree_ok [of s _ live p] by fast
  show "mm_live s live \<Longrightarrow> p \<in> set live \<Longrightarrow> n < 2147483648 \<Longrightarrow> erealloc p n s = Exit \<or>
      (\<exists>q s'. erealloc p n s = Ret (q, s') \<and> mm_live s' (q # remove1 p live) \<and>
         mem s' q = resize_block n (mem s p) \<and> (\<forall>x. x \<noteq> q \<longrightarrow> mem s' x = mem s x))" for s live p n
    unfolding mm_live_def using erealloc_ok [of s _ live p n] by fast
  show "mm_live s live \<Longrightarrow> p \<in> set live \<Longrightarrow> length c = length (mem s p) \<Longrightarrow>
      \<exists>s'. write_block p c s = Some s' \<and> mm_live s' live \<and> mem s' = (mem s)(p := c)" for s live p c
    by (rule mm_write)
qed

end
