(* ===== verification/Stack.thy ===== *)
theory Stack
  imports Alloc_Inv
begin

text \<open>
  The stack of \<open>stack.c\<close>: an array of pointers to copies of the elements, which grows by blocks of
  64.  The operations take the allocator they call as arguments; the program's stack is the
  instance with the memory manager of \<open>Alloc\<close>.  \<open>slots\<close> is the array of pointers in the block at
  \<open>elements\<close>; a pointer has 8 bytes.
\<close>

record stack =
  s_top :: nat
  smax :: nat
  elements :: addr
  slots :: "addr option list"

definition STACK_BLOCK_SIZE :: nat where "STACK_BLOCK_SIZE = 64"

definition stack_init :: "(nat \<Rightarrow> 's \<Rightarrow> (addr \<times> 's) outcome) \<Rightarrow> 's \<Rightarrow> (status \<times> stack \<times> 's) outcome" where
  "stack_init alloc s =
     (case alloc (8 * STACK_BLOCK_SIZE) s of
        Ret (p, s1) \<Rightarrow>
          if p = 0 then Ret (FAILURE, \<lparr>s_top = 0, smax = 0, elements = 0, slots = []\<rparr>, s1)
          else Ret (SUCCESS, \<lparr>s_top = 0, smax = STACK_BLOCK_SIZE, elements = p,
                              slots = replicate STACK_BLOCK_SIZE None\<rparr>, s1)
      | Exit \<Rightarrow> Exit | Undef \<Rightarrow> Undef)"

text \<open>More room, when the array is full.\<close>

definition stack_grow ::
  "(addr \<Rightarrow> nat \<Rightarrow> 's \<Rightarrow> (addr \<times> 's) outcome) \<Rightarrow> stack \<Rightarrow> 's \<Rightarrow> (stack \<times> 's) outcome" where
  "stack_grow resize st s =
     (if s_top st \<ge> smax st then
        (case resize (elements st) (8 * (smax st + STACK_BLOCK_SIZE)) s of
           Ret (p, s1) \<Rightarrow> Ret (st\<lparr>elements := p, smax := smax st + STACK_BLOCK_SIZE,
                                  slots := slots st @ replicate STACK_BLOCK_SIZE None\<rparr>, s1)
         | Exit \<Rightarrow> Exit | Undef \<Rightarrow> Undef)
      else Ret (st, s))"

text \<open>The result is \<open>FAILURE\<close> (-1) or the index of the element.\<close>

definition stack_push ::
  "(nat \<Rightarrow> 's \<Rightarrow> (addr \<times> 's) outcome) \<Rightarrow> (addr \<Rightarrow> nat \<Rightarrow> 's \<Rightarrow> (addr \<times> 's) outcome) \<Rightarrow>
   (addr \<Rightarrow> char option list \<Rightarrow> 's \<Rightarrow> 's option) \<Rightarrow> stack \<Rightarrow> char option list \<Rightarrow> 's \<Rightarrow>
   (int \<times> stack \<times> 's) outcome" where
  "stack_push alloc resize wr st element s =
     (case stack_grow resize st s of
        Ret (st1, s1) \<Rightarrow>
          if elements st1 = 0 then Ret (- 1, st1, s1)
          else (case alloc (length element) s1 of
             Ret (p, s2) \<Rightarrow>
               (case wr p element s2 of None \<Rightarrow> Undef
                | Some s3 \<Rightarrow>
                    if s_top st1 < length (slots st1) then
                      Ret (int (s_top st1), st1\<lparr>slots := (slots st1)[s_top st1 := Some p], s_top := s_top st1 + 1\<rparr>, s3)
                    else Undef)
           | Exit \<Rightarrow> Exit | Undef \<Rightarrow> Undef)
      | Exit \<Rightarrow> Exit | Undef \<Rightarrow> Undef)"

definition php3i_stack_top :: "stack \<Rightarrow> (status \<times> addr) option" where
  "php3i_stack_top st =
     (if s_top st > 0 then do { r \<leftarrow> arr_get (slots st) (s_top st - 1); p \<leftarrow> r; Some (SUCCESS, p) }
      else Some (FAILURE, 0))"

definition stack_del_top :: "(addr \<Rightarrow> 's \<Rightarrow> 's outcome) \<Rightarrow> stack \<Rightarrow> 's \<Rightarrow> (status \<times> stack \<times> 's) outcome" where
  "stack_del_top release st s =
     (if s_top st > 0 then
        let st1 = st\<lparr>s_top := s_top st - 1\<rparr> in
        (case do { r \<leftarrow> arr_get (slots st1) (s_top st1); r } of
           None \<Rightarrow> Undef
         | Some p \<Rightarrow> (case release p s of Ret s1 \<Rightarrow> Ret (SUCCESS, st1, s1) | Exit \<Rightarrow> Exit | Undef \<Rightarrow> Undef))
      else Ret (SUCCESS, st, s))"

text \<open>\<open>read_int\<close> reads the \<open>int\<close> at the start of a block.\<close>

definition php3i_stack_int_top :: "('s \<Rightarrow> addr \<Rightarrow> int option) \<Rightarrow> stack \<Rightarrow> 's \<Rightarrow> int option" where
  "php3i_stack_int_top read_int st s = do {
     (r, e) \<leftarrow> php3i_stack_top st;
     if r = FAILURE then Some (- 1) else read_int s e
   }"

definition php3i_stack_is_empty :: "stack \<Rightarrow> int" where
  "php3i_stack_is_empty st = (if s_top st = 0 then 1 else 0)"

fun release_all :: "(addr \<Rightarrow> 's \<Rightarrow> 's outcome) \<Rightarrow> addr option list \<Rightarrow> 's \<Rightarrow> 's outcome" where
  "release_all release [] s = Ret s"
| "release_all release (r # rs) s =
     (case r of None \<Rightarrow> Undef
      | Some p \<Rightarrow> (case release p s of Ret s1 \<Rightarrow> release_all release rs s1 | Exit \<Rightarrow> Exit | Undef \<Rightarrow> Undef))"

definition stack_destroy :: "(addr \<Rightarrow> 's \<Rightarrow> 's outcome) \<Rightarrow> stack \<Rightarrow> 's \<Rightarrow> (status \<times> 's) outcome" where
  "stack_destroy release st s =
     (case release_all release (take (s_top st) (slots st)) s of
        Ret s1 \<Rightarrow>
          if elements st \<noteq> 0 then
            (case release (elements st) s1 of Ret s2 \<Rightarrow> Ret (SUCCESS, s2) | Exit \<Rightarrow> Exit | Undef \<Rightarrow> Undef)
          else Ret (SUCCESS, s1)
      | Exit \<Rightarrow> Exit | Undef \<Rightarrow> Undef)"

subsection \<open>The program's stack\<close>

definition php3i_stack_init :: "mm \<Rightarrow> (status \<times> stack \<times> mm) outcome" where
  "php3i_stack_init m = stack_init emalloc m"

definition php3i_stack_push :: "stack \<Rightarrow> char option list \<Rightarrow> mm \<Rightarrow> (int \<times> stack \<times> mm) outcome" where
  "php3i_stack_push st element m = stack_push emalloc erealloc write_block st element m"

definition php3i_stack_del_top :: "stack \<Rightarrow> mm \<Rightarrow> (status \<times> stack \<times> mm) outcome" where
  "php3i_stack_del_top st m = stack_del_top efree st m"

definition php3i_stack_destroy :: "stack \<Rightarrow> mm \<Rightarrow> (status \<times> mm) outcome" where
  "php3i_stack_destroy st m = stack_destroy efree st m"

subsection \<open>Correctness over any allocator\<close>

definition tops :: "stack \<Rightarrow> addr list" where
  "tops st = map the (take (s_top st) (slots st))"

definition stack_shape :: "stack \<Rightarrow> bool" where
  "stack_shape st \<longleftrightarrow>
     elements st \<noteq> 0 \<and> s_top st \<le> smax st \<and> length (slots st) = smax st \<and>
     (\<forall>i < s_top st. slots st ! i \<noteq> None)"

lemma tops_Some: "stack_shape st \<Longrightarrow> take (s_top st) (slots st) = map Some (tops st)"
  by (rule nth_equalityI) (auto simp: stack_shape_def tops_def)

lemma length_tops: "stack_shape st \<Longrightarrow> length (tops st) = s_top st"
  by (simp add: stack_shape_def tops_def)

context allocator
begin

text \<open>The stack owns the block of its array and one block per element; \<open>others\<close> are in use elsewhere.\<close>

definition stack_inv :: "stack \<Rightarrow> 's \<Rightarrow> addr list \<Rightarrow> bool" where
  "stack_inv st s others \<longleftrightarrow> stack_shape st \<and> inv s (elements st # tops st @ others)"

definition items :: "stack \<Rightarrow> 's \<Rightarrow> char option list list" where
  "items st s = map (cont s) (tops st)"

lemma stack_init_ok:
  assumes "inv s others"
  shows "stack_init alloc s = Exit \<or>
    (\<exists>st s'. stack_init alloc s = Ret (SUCCESS, st, s') \<and> stack_inv st s' others \<and> items st s' = [])"
proof -
  have "8 * STACK_BLOCK_SIZE < 2147483648" by (simp add: STACK_BLOCK_SIZE_def)
  from alloc_law [OF assms this] show ?thesis
  proof (elim disjE exE conjE)
    fix p s' assume r: "alloc (8 * STACK_BLOCK_SIZE) s = Ret (p, s')" "inv s' (p # others)"
    have "p \<noteq> 0" using inv_distinct [OF r(2)] by auto
    then show ?thesis
      using r by (auto simp: stack_init_def stack_inv_def stack_shape_def items_def tops_def STACK_BLOCK_SIZE_def)
  qed (simp add: stack_init_def)
qed

lemma stack_grow_ok:
  assumes st: "stack_inv st s others" and sz: "8 * (smax st + STACK_BLOCK_SIZE) < 2147483648"
  shows "stack_grow resize st s = Exit \<or>
    (\<exists>st' s'. stack_grow resize st s = Ret (st', s') \<and> stack_inv st' s' others \<and>
       items st' s' = items st s \<and> s_top st' = s_top st \<and> s_top st' < smax st')"
proof (cases "s_top st \<ge> smax st")
  case False
  then show ?thesis using st by (auto simp: stack_grow_def)
next
  case True
  have i: "inv s (elements st # tops st @ others)" and sh: "stack_shape st"
    using st by (simp_all add: stack_inv_def)
  have t: "s_top st = smax st" using True sh by (simp add: stack_shape_def)
  have "elements st \<in> set (elements st # tops st @ others)" by simp
  from resize_law [OF i this sz] show ?thesis
  proof (elim disjE exE conjE)
    fix q s' assume r: "resize (elements st) (8 * (smax st + STACK_BLOCK_SIZE)) s = Ret (q, s')"
      "inv s' (q # remove1 (elements st) (elements st # tops st @ others))" "\<forall>x. x \<noteq> q \<longrightarrow> cont s' x = cont s x"
    let ?st = "st\<lparr>elements := q, smax := smax st + STACK_BLOCK_SIZE,
                   slots := slots st @ replicate STACK_BLOCK_SIZE None\<rparr>"
    have g: "stack_grow resize st s = Ret (?st, s')" using True r(1) by (simp add: stack_grow_def)
    have tp: "tops ?st = tops st" using sh t by (simp add: tops_def stack_shape_def)
    have "q \<noteq> 0" "q \<notin> set (tops st)" using inv_distinct [OF r(2)] by auto
    moreover have "stack_shape ?st"
      using sh t \<open>q \<noteq> 0\<close> by (auto simp: stack_shape_def nth_append)
    ultimately have "stack_inv ?st s' others" "items ?st s' = items st s"
      using r(2,3) tp by (auto simp: stack_inv_def items_def)
    then show ?thesis using g t by (auto simp: STACK_BLOCK_SIZE_def)
  qed (use True in \<open>simp_all add: stack_grow_def\<close>)
qed

lemma stack_push_ok:
  assumes st: "stack_inv st s others" and sz: "8 * (smax st + STACK_BLOCK_SIZE) < 2147483648"
    and e: "length e < 2147483648"
  shows "stack_push alloc resize wr st e s = Exit \<or>
    (\<exists>st' s'. stack_push alloc resize wr st e s = Ret (int (s_top st), st', s') \<and>
       stack_inv st' s' others \<and> items st' s' = items st s @ [e])"
  using stack_grow_ok [OF st sz]
proof (elim disjE exE conjE)
  fix st1 s1 assume g: "stack_grow resize st s = Ret (st1, s1)" "stack_inv st1 s1 others"
    "items st1 s1 = items st s" "s_top st1 = s_top st" "s_top st1 < smax st1"
  have sh: "stack_shape st1" and i: "inv s1 (elements st1 # tops st1 @ others)"
    using g(2) by (simp_all add: stack_inv_def)
  from alloc_law [OF i e] show ?thesis
  proof (elim disjE exE conjE)
    fix p s2 assume a: "alloc (length e) s1 = Ret (p, s2)" "inv s2 (p # elements st1 # tops st1 @ others)"
      "length (cont s2 p) = length e" "\<forall>q. q \<noteq> p \<longrightarrow> cont s2 q = cont s1 q"
    from wr_law [OF a(2), of p e] a(3) obtain s3 where w: "wr p e s2 = Some s3"
      "inv s3 (p # elements st1 # tops st1 @ others)" "cont s3 = (cont s2)(p := e)" by auto
    let ?st = "st1\<lparr>slots := (slots st1)[s_top st1 := Some p], s_top := s_top st1 + 1\<rparr>"
    have l: "s_top st1 < length (slots st1)" using g(5) sh by (simp add: stack_shape_def)
    have tp: "tops ?st = tops st1 @ [p]"
      using l by (simp add: tops_def take_Suc_conv_app_nth take_update_cancel)
    have "stack_shape ?st"
      using sh g(5) by (auto simp: stack_shape_def nth_list_update less_Suc_eq)
    moreover have "inv s3 (elements ?st # tops ?st @ others)"
      using w(2) by (rule inv_perm) (unfold tp, simp)
    moreover have "p \<notin> set (tops st1)" using inv_distinct [OF a(2)] by auto
    then have "items ?st s3 = items st1 s1 @ [e]" using w(3) a(4) tp by (auto simp: items_def)
    moreover have "stack_push alloc resize wr st e s = Ret (int (s_top st), ?st, s3)"
      using g(1,4) a(1) w(1) l sh by (simp add: stack_push_def stack_shape_def)
    ultimately show ?thesis using g(3) by (simp add: stack_inv_def)
  qed (use g sh in \<open>simp add: stack_push_def stack_shape_def\<close>)
qed (simp add: stack_push_def)

lemma stack_top_ok:
  assumes "stack_inv st s others"
  shows "php3i_stack_top st = (if tops st = [] then Some (FAILURE, 0) else Some (SUCCESS, last (tops st)))"
proof -
  have sh: "stack_shape st" using assms by (simp add: stack_inv_def)
  show ?thesis
  proof (cases "s_top st")
    case 0
    then show ?thesis by (simp add: php3i_stack_top_def tops_def)
  next
    case (Suc n)
    then have "n < length (slots st)" "slots st ! n \<noteq> None" using sh by (simp_all add: stack_shape_def)
    then show ?thesis using Suc by (auto simp: php3i_stack_top_def tops_def take_Suc_conv_app_nth)
  qed
qed

lemma stack_del_top_ok:
  assumes st: "stack_inv st s others"
  shows "\<exists>st' s'. stack_del_top release st s = Ret (SUCCESS, st', s') \<and> stack_inv st' s' others \<and>
    items st' s' = butlast (items st s)"
proof (cases "s_top st")
  case 0
  then show ?thesis using st by (simp add: stack_del_top_def items_def tops_def)
next
  case (Suc n)
  have sh: "stack_shape st" and i: "inv s (elements st # tops st @ others)" using st by (simp_all add: stack_inv_def)
  have n: "n < length (slots st)" "slots st ! n \<noteq> None" using sh Suc by (simp_all add: stack_shape_def)
  let ?st = "st\<lparr>s_top := n\<rparr>"
  obtain p where p: "slots st ! n = Some p" using n by blast
  have tp: "tops st = tops ?st @ [p]" using Suc n p by (simp add: tops_def take_Suc_conv_app_nth)
  from release_law [OF i, of p] tp obtain s' where s': "release p s = Ret s'"
    "inv s' (remove1 p (elements st # tops st @ others))" "cont s' = cont s" by auto
  have "mset (remove1 p (elements st # tops st @ others)) = mset (elements ?st # tops ?st @ others)"
    by (simp add: tp)
  from inv_perm [OF s'(2) this] have "stack_inv ?st s' others"
    using sh Suc by (simp add: stack_inv_def stack_shape_def)
  moreover have "stack_del_top release st s = Ret (SUCCESS, ?st, s')"
    using Suc n p s'(1) by (simp add: stack_del_top_def)
  ultimately show ?thesis using s'(3) tp by (simp add: items_def)
qed

lemma release_all_ok:
  "inv s (ps @ others) \<Longrightarrow> \<exists>s'. release_all release (map Some ps) s = Ret s' \<and> inv s' others"
proof (induction ps arbitrary: s)
  case (Cons p ps)
  from release_law [OF Cons.prems, of p] obtain s1 where "release p s = Ret s1" "inv s1 (ps @ others)" by auto
  then show ?case using Cons.IH [of s1] by auto
qed simp

lemma stack_destroy_ok:
  assumes st: "stack_inv st s others"
  shows "\<exists>s'. stack_destroy release st s = Ret (SUCCESS, s') \<and> inv s' others"
proof -
  have sh: "stack_shape st" and i: "inv s (elements st # tops st @ others)" using st by (simp_all add: stack_inv_def)
  have "inv s (tops st @ elements st # others)" using i by (rule inv_perm) simp
  from release_all_ok [OF this] obtain s1 where s1: "release_all release (map Some (tops st)) s = Ret s1"
    "inv s1 (elements st # others)" by blast
  from release_law [OF s1(2), of "elements st"] obtain s2 where "release (elements st) s1 = Ret s2" "inv s2 others"
    by auto
  then show ?thesis using s1(1) sh tops_Some [OF sh] by (simp add: stack_destroy_def stack_shape_def)
qed

end

end
