(* ===== verification/Token_Cache.thy ===== *)
theory Token_Cache
  imports PHP_Prelude
begin

text \<open>
  The token cache of \<open>token_cache.c\<close>: the scanner's tokens are kept in growing arrays, one per
  piece of source, so that the parser can go back to an earlier token.  A token is named by an
  \<open>int\<close>: the number of its cache in the high 12 bits, its place in the cache in the low 20.

  The generated scanner is a parameter \<open>lex_scan\<close> on its own state.  Array cells that were allocated
  and not written are \<open>None\<close>; \<open>None\<close> as a result is undefined behaviour (an index outside an
  array).  \<open>emalloc\<close> and \<open>erealloc\<close> return memory or exit, so the tests for \<open>NULL\<close> never fire.
\<close>

subsection \<open>Tokens and caches\<close>

datatype tval = TLong int | TDouble "64 word" | TString string

record token =
  token_type :: int
  tk_value :: tval
  tk_offset :: "32 word"
  tk_switched :: bool
  tk_included :: bool
  tk_lineno :: nat

record tcache =
  tokens :: "token option list"
  tk_count :: nat
  tk_pos :: nat
  max_tokens :: nat
  block_size :: nat

text \<open>\<open>tc\<close> is the global pointer to the active cache, as an index into the array of caches.\<close>

record tcm =
  token_caches :: "tcache option list"
  active :: nat
  tcm_max :: nat
  tcm_initialized :: nat
  tc :: nat
  last_token_type :: int

definition TOKEN_BITS :: nat where "TOKEN_BITS = 20"
definition TC_BITS :: nat where "TC_BITS = 4 * 8 - TOKEN_BITS"
definition TOKEN_CACHE_BLOCK_SIZE :: nat where "TOKEN_CACHE_BLOCK_SIZE = 8192"
definition TOKEN_CACHES_BLOCK_SIZE :: nat where "TOKEN_CACHES_BLOCK_SIZE = 4"

text \<open>\<open>>>\<close> on a negative \<open>int\<close> keeps the sign.\<close>

definition TC_OFFSET :: "32 word \<Rightarrow> int" where
  "TC_OFFSET w = sint w div 2 ^ TOKEN_BITS"

definition TOKEN_OFFSET :: "32 word \<Rightarrow> nat" where
  "TOKEN_OFFSET w = unat (w AND (push_bit TOKEN_BITS 1 - 1))"

definition mk_offset :: "nat \<Rightarrow> nat \<Rightarrow> 32 word" where
  "mk_offset a n = push_bit TOKEN_BITS (of_nat a) + of_nat n"

subsection \<open>Caches\<close>

definition tc_init :: "nat \<Rightarrow> tcache" where
  "tc_init bs = \<lparr>tokens = replicate bs None, tk_count = 0, tk_pos = 0, max_tokens = bs, block_size = bs\<rparr>"

definition tcm_init :: "tcm \<Rightarrow> tcm" where
  "tcm_init m = m\<lparr>active := 0,
     token_caches := (replicate TOKEN_CACHES_BLOCK_SIZE None)[0 := Some (tc_init TOKEN_CACHE_BLOCK_SIZE)],
     tcm_max := TOKEN_CACHES_BLOCK_SIZE, tcm_initialized := 1, tc := 0, last_token_type := - 1\<rparr>"

definition tcm_new :: "tcm \<Rightarrow> nat \<Rightarrow> (status \<times> tcm) option" where
  "tcm_new m bs =
     (if tcm_initialized m \<ge> 2 ^ TC_BITS then Some (FAILURE, m)
      else
        let m1 = m\<lparr>tcm_initialized := tcm_initialized m + 1\<rparr>;
            m2 = (if tcm_initialized m1 \<ge> tcm_max m1 then
                    m1\<lparr>token_caches := token_caches m1 @ replicate TOKEN_CACHES_BLOCK_SIZE None,
                       tcm_max := tcm_max m1 + TOKEN_CACHES_BLOCK_SIZE\<rparr>
                  else m1);
            m3 = m2\<lparr>active := tcm_initialized m2 - 1\<rparr>
        in do {
          tcs \<leftarrow> arr_set (token_caches m3) (active m3) (Some (tc_init bs));
          Some (SUCCESS, m3\<lparr>token_caches := tcs, tc := active m3\<rparr>)
        })"

definition get_tc :: "tcm \<Rightarrow> int \<Rightarrow> tcache option" where
  "get_tc m i = (if i < 0 then None else do { c \<leftarrow> arr_get (token_caches m) (nat i); c })"

definition put_tc :: "tcm \<Rightarrow> nat \<Rightarrow> tcache \<Rightarrow> tcm" where
  "put_tc m i c = m\<lparr>token_caches := (token_caches m)[i := Some c]\<rparr>"

subsection \<open>Reading\<close>

definition reserved_words :: "int list" where
  "reserved_words = [257, 259, 258, 260, 301, 288, 289, 290, 291, 292, 302, 303, 304, 305, 306, 307,
     308, 309, 310, 311, 312, 316, 319, 317, 320, 321, 322, 323, 324, 325, 326, 327, 328, 329, 330,
     331, 334, 335, 287, 336, 337, 339, 340]"

definition is_reserved_word :: "int \<Rightarrow> bool" where
  "is_reserved_word t \<longleftrightarrow> t \<in> set reserved_words"

definition PHP_CLASS_OPERATOR :: int where "PHP_CLASS_OPERATOR = 332"
definition DONE_EVAL :: int where "DONE_EVAL = 338"
definition T_STRING :: int where "T_STRING = 295"

definition last_token_suggests_variable_reference :: "tcm \<Rightarrow> bool" where
  "last_token_suggests_variable_reference m \<longleftrightarrow>
     last_token_type m = 36 \<or> last_token_type m = PHP_CLASS_OPERATOR"

text \<open>What the scanner leaves: the type it returns, the value in \<open>phplval\<close>, the line, \<open>phptext\<close>.\<close>

record lexed =
  lx_type :: int
  lx_value :: tval
  lx_included :: bool
  lx_lineno :: nat
  lx_text :: string

text \<open>Growing the array, and the token made of what the scanner left.\<close>

definition grow_tc :: "tcache \<Rightarrow> tcache" where
  "grow_tc c =
     (if tk_count c \<ge> max_tokens c then
        c\<lparr>tokens := tokens c @ replicate (block_size c) None, max_tokens := max_tokens c + block_size c\<rparr>
      else c)"

definition make_token :: "tcm \<Rightarrow> nat \<Rightarrow> lexed \<Rightarrow> token" where
  "make_token m n l =
     (let t = \<lparr>token_type = lx_type l, tk_value = lx_value l, tk_offset = mk_offset (active m) n,
               tk_switched = False, tk_included = lx_included l, tk_lineno = lx_lineno l\<rparr>
      in if last_token_suggests_variable_reference m \<and> is_reserved_word (token_type t)
         then t\<lparr>tk_value := TString (lx_text l), token_type := T_STRING\<rparr> else t)"

text \<open>
  The result: the token type, the token (unless the end of an \<open>eval\<close> was read), the manager, the
  scanner's state.  With \<open>display\<close> (\<open>php3_display_source\<close>) the token is not stored.
\<close>

definition read_next_token ::
  "('s \<Rightarrow> lexed \<times> 's) \<Rightarrow> bool \<Rightarrow> tcm \<Rightarrow> 's \<Rightarrow> (int \<times> token option \<times> tcm \<times> 's) option" where
  "read_next_token lex_scan display m s = do {
     c \<leftarrow> get_tc m (int (tc m));
     if tk_count c = tk_pos c \<or> display then
       let (l, s') = lex_scan s in
       if lx_type l = DONE_EVAL then Some (DONE_EVAL, None, m, s')
       else
         let c1 = grow_tc c; t = make_token m (tk_count c) l;
             m1 = (put_tc m (tc m) c1)\<lparr>last_token_type := token_type t\<rparr>
         in if display then Some (token_type t, Some t, m1, s')
            else do {
              ts \<leftarrow> arr_set (tokens c1) (tk_count c1) (Some t);
              let c2 = c1\<lparr>tokens := ts, tk_count := tk_count c1 + 1\<rparr>;
              r \<leftarrow> arr_get (tokens c2) (tk_pos c2);
              r' \<leftarrow> r;
              Some (token_type r', Some r', put_tc m1 (tc m) (c2\<lparr>tk_pos := tk_pos c2 + 1\<rparr>), s')
            }
     else do {
       r \<leftarrow> arr_get (tokens c) (tk_pos c);
       r' \<leftarrow> r;
       Some (token_type r', Some r', put_tc m (tc m) (c\<lparr>tk_pos := tk_pos c + 1\<rparr>), s)
     }
   }"

subsection \<open>Going back, and changing tokens in place\<close>

definition YYEMPTY :: int where "YYEMPTY = - 2"

definition clear_lookahead :: "int option \<Rightarrow> int option" where
  "clear_lookahead yychar = map_option (\<lambda>_. YYEMPTY) yychar"

definition seek_token :: "tcm \<Rightarrow> 32 word \<Rightarrow> int option \<Rightarrow> (status \<times> tcm \<times> int option) option" where
  "seek_token m n yychar =
     (let y = clear_lookahead yychar; tc_offset = TC_OFFSET n in
      if tc_offset \<ge> int (tcm_initialized m) then Some (FAILURE, m, y)
      else do {
        let t_offset = TOKEN_OFFSET n;
        c \<leftarrow> get_tc m tc_offset;
        if t_offset > tk_count c then Some (FAILURE, m, y)
        else Some (SUCCESS,
               (put_tc m (nat tc_offset) (c\<lparr>tk_pos := t_offset\<rparr>))\<lparr>active := nat tc_offset, tc := nat tc_offset\<rparr>, y)
      })"

definition tc_change :: "(token \<Rightarrow> token) \<Rightarrow> tcm \<Rightarrow> 32 word \<Rightarrow> (status \<times> tcm) option" where
  "tc_change f m off = do {
     c \<leftarrow> get_tc m (TC_OFFSET off);
     let o' = TOKEN_OFFSET off;
     if o' \<ge> tk_count c then Some (FAILURE, m)
     else do {
       t \<leftarrow> arr_get (tokens c) o';
       t' \<leftarrow> t;
       ts \<leftarrow> arr_set (tokens c) o' (Some (f t'));
       Some (SUCCESS, put_tc m (nat (TC_OFFSET off)) (c\<lparr>tokens := ts\<rparr>))
     }
   }"

definition tc_set_token :: "tcm \<Rightarrow> 32 word \<Rightarrow> int \<Rightarrow> (status \<times> tcm) option" where
  "tc_set_token m off ty = tc_change (\<lambda>t. t\<lparr>token_type := ty\<rparr>) m off"

definition tc_set_switched :: "tcm \<Rightarrow> 32 word \<Rightarrow> (status \<times> tcm) option" where
  "tc_set_switched m off = tc_change (\<lambda>t. t\<lparr>tk_switched := True\<rparr>) m off"

definition tc_set_included :: "tcm \<Rightarrow> 32 word \<Rightarrow> (status \<times> tcm) option" where
  "tc_set_included m off = tc_change (\<lambda>t. t\<lparr>tk_included := True\<rparr>) m off"

text \<open>\<open>FAILURE\<close> is \<open>-1\<close>.\<close>

definition tc_get_token :: "tcm \<Rightarrow> 32 word \<Rightarrow> int option" where
  "tc_get_token m off = do {
     c \<leftarrow> get_tc m (TC_OFFSET off);
     let o' = TOKEN_OFFSET off;
     if o' \<ge> tk_count c then Some (- 1)
     else do { t \<leftarrow> arr_get (tokens c) o'; t' \<leftarrow> t; Some (token_type t') }
   }"

definition tc_get_current_offset :: "tcm \<Rightarrow> 32 word option" where
  "tc_get_current_offset m = do { c \<leftarrow> get_tc m (int (tc m)); Some (mk_offset (active m) (tk_pos c)) }"

subsection \<open>Exchanging two runs of tokens\<close>

text \<open>\<open>memcpy(dst + d, src + s, n)\<close> between two arrays, with their bounds.\<close>

definition copy_cells :: "'a list \<Rightarrow> nat \<Rightarrow> 'a list \<Rightarrow> nat \<Rightarrow> nat \<Rightarrow> 'a list option" where
  "copy_cells dst d src s n =
     (if d + n \<le> length dst \<and> s + n \<le> length src
      then Some (take d dst @ take n (drop s src) @ drop (d + n) dst) else None)"

definition renumber :: "nat \<Rightarrow> nat \<Rightarrow> nat \<Rightarrow> token option list \<Rightarrow> token option list" where
  "renumber a from to ts =
     map (\<lambda>(i, t). if from \<le> i \<and> i \<le> to then map_option (\<lambda>t. t\<lparr>tk_offset := mk_offset a i\<rparr>) t else t)
       (zip [0..<length ts] ts)"

definition tc_switch :: "tcm \<Rightarrow> 32 word \<Rightarrow> 32 word \<Rightarrow> 32 word \<Rightarrow> (status \<times> tcm) option" where
  "tc_switch m start0 end0 middle0 = do {
     let act = TC_OFFSET start0;
     c \<leftarrow> get_tc m act;
     let a = TOKEN_OFFSET start0;
     let e = TOKEN_OFFSET end0;
     let i = TOKEN_OFFSET middle0;
     if e \<ge> tk_count c \<or> i < a \<or> i > e then Some (FAILURE, m)
     else
       let fc = i - a; sc = e - i in
       if fc = 0 \<and> sc = 0 then Some (SUCCESS, m)
       else do {
         middle_token \<leftarrow> arr_get (tokens c) i;
         let temp = replicate (max fc sc) None;
         ts \<leftarrow> (if fc < sc then do {
                  tmp \<leftarrow> copy_cells temp 0 (tokens c) (i + 1) sc;
                  t1 \<leftarrow> copy_cells (tokens c) (e - fc + 1) (tokens c) a fc;
                  copy_cells t1 a tmp 0 sc
                }
                else do {
                  tmp \<leftarrow> copy_cells temp 0 (tokens c) a fc;
                  t1 \<leftarrow> copy_cells (tokens c) a (tokens c) (i + 1) sc;
                  copy_cells t1 (e - fc + 1) tmp 0 fc
                });
         ts' \<leftarrow> arr_set ts (a + sc) middle_token;
         Some (SUCCESS, put_tc m (nat act) (c\<lparr>tokens := renumber (nat act) a e ts'\<rparr>))
       }
   }"

subsection \<open>Destruction\<close>

text \<open>\<open>dtor\<close> is \<open>pval_destructor\<close>, on the state \<open>h\<close> of the memory it frees.\<close>

definition tc_destroy :: "('h \<Rightarrow> tval \<Rightarrow> 'h) \<Rightarrow> tcache \<Rightarrow> 'h \<Rightarrow> 'h option" where
  "tc_destroy dtor c h =
     fold (\<lambda>t r. do { h \<leftarrow> r; t' \<leftarrow> t; Some (dtor h (tk_value t')) }) (take (tk_count c) (tokens c)) (Some h)"

definition tcm_destroy :: "('h \<Rightarrow> tval \<Rightarrow> 'h) \<Rightarrow> tcm \<Rightarrow> 'h \<Rightarrow> 'h option" where
  "tcm_destroy dtor m h =
     fold (\<lambda>c r. do { h \<leftarrow> r; c' \<leftarrow> c; tc_destroy dtor c' h })
       (take (tcm_initialized m) (token_caches m)) (Some h)"

end
