(* ===== verification/Token_Cache_Inv.thy ===== *)
theory Token_Cache_Inv
  imports Token_Cache
begin

text \<open>
  The invariant of the token caches, the encoding of token numbers, replaying tokens after going
  back, and the exchange of two runs of tokens.
\<close>

subsection \<open>Token numbers\<close>

lemma unat_mk_offset:
  assumes "a < 4096" and "n < 2 ^ TOKEN_BITS"
  shows "unat (mk_offset a n) = a * 2 ^ TOKEN_BITS + n"
proof -
  have n: "n < 1048576" using assms(2) by (simp add: TOKEN_BITS_def)
  have "push_bit TOKEN_BITS (of_nat a :: 32 word) = of_nat (a * 1048576)"
    by (simp add: TOKEN_BITS_def push_bit_eq_mult)
  then have e: "mk_offset a n = of_nat (a * 1048576 + n)" by (simp add: mk_offset_def)
  have "unat (of_nat k :: 32 word) = k mod 4294967296" for k by (simp add: unat_of_nat)
  then have "unat (mk_offset a n) = (a * 1048576 + n) mod 4294967296" unfolding e .
  then show ?thesis using assms(1) n by (simp add: TOKEN_BITS_def)
qed

lemma token_mask: "(push_bit TOKEN_BITS 1 - 1 :: 32 word) = mask TOKEN_BITS"
  by (simp add: mask_eq_exp_minus_1)

lemma TOKEN_OFFSET_unat: "TOKEN_OFFSET w = unat w mod 2 ^ TOKEN_BITS"
  unfolding TOKEN_OFFSET_def token_mask by (simp add: unsigned_take_bit_eq flip: take_bit_eq_mask) (simp add: take_bit_eq_mod)

lemma sint_unat: "sint (w :: 32 word) = (if unat w < 2147483648 then int (unat w) else int (unat w) - 4294967296)"
proof -
  have "sint w = signed_take_bit 31 (uint w)" by (simp add: sint_uint)
  also have "\<dots> = (if uint w < 2147483648 then uint w else uint w - 4294967296)"
  proof -
    define u where "u = uint w"
    have r: "0 \<le> u" "u < 4294967296" using uint_lt2p [of w] by (simp_all add: u_def)
    have a: "signed_take_bit 31 u = (u + 2147483648) mod 4294967296 - 2147483648"
      by (simp add: signed_take_bit_eq_take_bit_shift take_bit_eq_mod)
    have b: "(u + 2147483648) mod 4294967296 = (if u < 2147483648 then u + 2147483648 else u - 2147483648)"
    proof (cases "u < 2147483648")
      case True
      then show ?thesis using r by (simp add: mod_pos_pos_trivial)
    next
      case False
      have "(u + 2147483648) mod 4294967296 = ((u - 2147483648) + 4294967296) mod 4294967296"
        by (rule arg_cong [of _ _ "\<lambda>x. x mod 4294967296"]) simp
      also have "\<dots> = (u - 2147483648) mod 4294967296" by (rule mod_add_self2)
      also have "\<dots> = u - 2147483648" using r False by (intro mod_pos_pos_trivial) simp_all
      finally show ?thesis using False by simp
    qed
    show ?thesis unfolding u_def [symmetric] a b by simp
  qed
  finally have s: "sint w = (if uint w < 2147483648 then uint w else uint w - 4294967296)" .
  have i: "int (unat w) = uint w" by simp
  have "(unat w < 2147483648) = (int (unat w) < int 2147483648)" by (rule of_nat_less_iff [symmetric])
  then show ?thesis unfolding s i by (simp only: of_nat_numeral)
qed

lemma TOKEN_OFFSET_mk: "a < 4096 \<Longrightarrow> n < 2 ^ TOKEN_BITS \<Longrightarrow> TOKEN_OFFSET (mk_offset a n) = n"
  by (simp add: TOKEN_OFFSET_unat unat_mk_offset)

lemma TC_OFFSET_mk:
  assumes "a < 4096" and "n < 2 ^ TOKEN_BITS"
  shows "TC_OFFSET (mk_offset a n) = (if a < 2048 then int a else int a - 4096)"
proof -
  have n: "n < 1048576" using assms(2) by (simp add: TOKEN_BITS_def)
  have s: "sint (mk_offset a n) = (if a < 2048 then int a * 1048576 + int n else (int a - 4096) * 1048576 + int n)"
    using unat_mk_offset [OF assms] n by (auto simp: sint_unat TOKEN_BITS_def)
  have d: "(x * 1048576 + int n) div 1048576 = x" for x :: int using n by simp
  have "sint (mk_offset a n) div 1048576 = (if a < 2048 then int a else int a - 4096)"
    unfolding s by (simp only: d split: if_split) simp
  then show ?thesis by (simp add: TC_OFFSET_def TOKEN_BITS_def)
qed

subsection \<open>The invariant\<close>

definition cache_ok :: "nat \<Rightarrow> tcache \<Rightarrow> bool" where
  "cache_ok i c \<longleftrightarrow>
     length (tokens c) = max_tokens c \<and> tk_count c \<le> max_tokens c \<and> tk_pos c \<le> tk_count c \<and>
     0 < block_size c \<and>
     (\<forall>j < tk_count c. \<exists>t. tokens c ! j = Some t \<and> tk_offset t = mk_offset i j)"

definition tcm_ok :: "tcm \<Rightarrow> bool" where
  "tcm_ok m \<longleftrightarrow>
     length (token_caches m) = tcm_max m \<and> tcm_initialized m < tcm_max m \<and>
     tcm_initialized m \<le> 2 ^ TC_BITS \<and> active m < tcm_initialized m \<and> tc m = active m \<and>
     (\<forall>i < tcm_initialized m. \<exists>c. token_caches m ! i = Some c \<and> cache_ok i c)"

text \<open>The tokens of a cache, as the parser sees them.\<close>

definition toks :: "tcache \<Rightarrow> token list" where
  "toks c = map the (take (tk_count c) (tokens c))"

definition cache_at :: "tcm \<Rightarrow> nat \<Rightarrow> tcache" where
  "cache_at m i = the (token_caches m ! i)"

lemma length_toks: "cache_ok i c \<Longrightarrow> length (toks c) = tk_count c"
  by (simp add: toks_def cache_ok_def)

lemma toks_nth: "cache_ok i c \<Longrightarrow> j < tk_count c \<Longrightarrow> tokens c ! j = Some (toks c ! j)"
  by (fastforce simp: toks_def cache_ok_def)

lemma tcm_ok_get:
  "tcm_ok m \<Longrightarrow> i < tcm_initialized m \<Longrightarrow> get_tc m (int i) = Some (cache_at m i) \<and> cache_ok i (cache_at m i)"
  unfolding tcm_ok_def get_tc_def cache_at_def by fastforce

lemma tcm_ok_put:
  "tcm_ok m \<Longrightarrow> i < tcm_initialized m \<Longrightarrow> cache_ok i c \<Longrightarrow> tcm_ok (put_tc m i c)"
  by (auto simp: tcm_ok_def put_tc_def nth_list_update)

lemma put_tc_simps [simp]:
  "active (put_tc m i c) = active m" "tc (put_tc m i c) = tc m"
  "tcm_initialized (put_tc m i c) = tcm_initialized m" "tcm_max (put_tc m i c) = tcm_max m"
  "last_token_type (put_tc m i c) = last_token_type m"
  by (simp_all add: put_tc_def)

lemma cache_at_put:
  "tcm_ok m \<Longrightarrow> i < tcm_initialized m \<Longrightarrow> cache_at (put_tc m i c) j = (if j = i then c else cache_at m j)"
  by (simp add: cache_at_def put_tc_def tcm_ok_def nth_list_update)

subsection \<open>Start-up and new caches\<close>

lemma tc_init_ok: "0 < bs \<Longrightarrow> cache_ok i (tc_init bs)"
  by (simp add: cache_ok_def tc_init_def)

lemma toks_init [simp]: "toks (tc_init bs) = []"
  by (simp add: toks_def tc_init_def)

lemma tcm_init_ok: "tcm_ok (tcm_init m)"
  using tc_init_ok [of TOKEN_CACHE_BLOCK_SIZE 0]
  by (simp add: tcm_ok_def tcm_init_def TOKEN_CACHES_BLOCK_SIZE_def TOKEN_CACHE_BLOCK_SIZE_def TC_BITS_def TOKEN_BITS_def)

lemma tcm_new_ok:
  assumes ok: "tcm_ok m" and bs: "0 < bs"
  shows "if tcm_initialized m = 4096 then tcm_new m bs = Some (FAILURE, m)
    else \<exists>m'. tcm_new m bs = Some (SUCCESS, m') \<and> tcm_ok m' \<and>
      tcm_initialized m' = tcm_initialized m + 1 \<and> active m' = tcm_initialized m \<and>
      cache_at m' (active m') = tc_init bs \<and>
      (\<forall>i < tcm_initialized m. cache_at m' i = cache_at m i)"
proof -
  have bits: "(2::nat) ^ TC_BITS = 4096" by (simp add: TC_BITS_def TOKEN_BITS_def)
  let ?n = "tcm_initialized m"
  have le: "?n \<le> 4096" "length (token_caches m) = tcm_max m" "?n < tcm_max m" "active m < ?n"
    using ok bits by (simp_all add: tcm_ok_def)
  show ?thesis
  proof (cases "?n = 4096")
    case True
    then show ?thesis by (simp add: tcm_new_def bits)
  next
    case False
    define ext where "ext = (if ?n + 1 \<ge> tcm_max m then replicate TOKEN_CACHES_BLOCK_SIZE None else [] :: tcache option list)"
    define m' where "m' = m\<lparr>tcm_initialized := ?n + 1, token_caches := (token_caches m @ ext)[?n := Some (tc_init bs)],
      tcm_max := tcm_max m + length ext, active := ?n, tc := ?n\<rparr>"
    have r: "tcm_new m bs = Some (SUCCESS, m')"
      using le False bits by (auto simp: tcm_new_def m'_def ext_def Let_def)
    have x: "?n + 1 < tcm_max m + length ext" using le by (simp add: ext_def TOKEN_CACHES_BLOCK_SIZE_def)
    have old: "i < ?n \<Longrightarrow> token_caches m' ! i = token_caches m ! i" for i
      using le by (simp add: m'_def nth_append)
    have new: "token_caches m' ! ?n = Some (tc_init bs)" using le by (simp add: m'_def)
    have "tcm_ok m'"
      unfolding tcm_ok_def
    proof (intro conjI allI impI)
      fix i assume "i < tcm_initialized m'"
      then have "i < ?n \<or> i = ?n" by (auto simp: m'_def)
      then show "\<exists>c. token_caches m' ! i = Some c \<and> cache_ok i c"
        using old new tc_init_ok [OF bs] ok by (auto simp: tcm_ok_def)
    qed (use le x False bits in \<open>simp_all add: m'_def\<close>)
    then show ?thesis
      using False r old new by (auto simp: cache_at_def m'_def intro!: exI [of _ m'])
  qed
qed

subsection \<open>Reading\<close>

lemma grow_tc_ok:
  assumes "cache_ok i c"
  shows "cache_ok i (grow_tc c)" "tk_count (grow_tc c) < max_tokens (grow_tc c)"
    "toks (grow_tc c) = toks c" "tk_count (grow_tc c) = tk_count c" "tk_pos (grow_tc c) = tk_pos c"
  using assms by (auto simp: cache_ok_def grow_tc_def toks_def nth_append)

lemma tk_offset_make [simp]: "tk_offset (make_token m n l) = mk_offset (active m) n"
  by (simp add: make_token_def Let_def)

text \<open>A token that is in the cache is returned from there; the scanner is not called.\<close>

lemma read_cached:
  assumes ok: "tcm_ok m" and p: "tk_pos (cache_at m (active m)) < tk_count (cache_at m (active m))"
  shows "read_next_token lex_scan False m s =
     Some (token_type (toks (cache_at m (active m)) ! tk_pos (cache_at m (active m))),
           Some (toks (cache_at m (active m)) ! tk_pos (cache_at m (active m))),
           put_tc m (active m) ((cache_at m (active m))\<lparr>tk_pos := tk_pos (cache_at m (active m)) + 1\<rparr>), s)"
proof -
  let ?c = "cache_at m (active m)"
  have a: "active m < tcm_initialized m" "tc m = active m" using ok by (simp_all add: tcm_ok_def)
  have g: "get_tc m (int (tc m)) = Some ?c" "cache_ok (active m) ?c" using tcm_ok_get [OF ok a(1)] a(2) by auto
  have "tk_pos ?c < length (tokens ?c)" using g(2) p by (simp add: cache_ok_def)
  then show ?thesis
    using g toks_nth [OF g(2) p] p a(2) by (simp add: read_next_token_def)
qed

lemma cache_ok_pos: "cache_ok i c \<Longrightarrow> n \<le> tk_count c \<Longrightarrow> cache_ok i (c\<lparr>tk_pos := n\<rparr>)"
  by (simp add: cache_ok_def)

lemma toks_pos [simp]: "toks (c\<lparr>tk_pos := n\<rparr>) = toks c"
  by (simp add: toks_def)

lemma read_cached_ok:
  assumes ok: "tcm_ok m" and p: "tk_pos (cache_at m (active m)) < tk_count (cache_at m (active m))"
  shows "tcm_ok (put_tc m (active m) ((cache_at m (active m))\<lparr>tk_pos := tk_pos (cache_at m (active m)) + 1\<rparr>))"
proof -
  have a: "active m < tcm_initialized m" using ok by (simp add: tcm_ok_def)
  show ?thesis using tcm_ok_get [OF ok a] p by (intro tcm_ok_put [OF ok a] cache_ok_pos) auto
qed

text \<open>At the end of the cache the scanner is called once, and its token is added.\<close>

lemma read_scanned:
  assumes ok: "tcm_ok m" and p: "tk_pos (cache_at m (active m)) = tk_count (cache_at m (active m))"
    and l: "lex_scan s = (l, s')" "lx_type l \<noteq> DONE_EVAL"
  shows "\<exists>m'. read_next_token lex_scan False m s =
       Some (token_type (make_token m (tk_count (cache_at m (active m))) l),
             Some (make_token m (tk_count (cache_at m (active m))) l), m', s') \<and>
     tcm_ok m' \<and> active m' = active m \<and> tcm_initialized m' = tcm_initialized m \<and>
     toks (cache_at m' (active m)) = toks (cache_at m (active m)) @ [make_token m (tk_count (cache_at m (active m))) l] \<and>
     tk_pos (cache_at m' (active m)) = tk_count (cache_at m' (active m)) \<and>
     (\<forall>i. i \<noteq> active m \<longrightarrow> cache_at m' i = cache_at m i) \<and>
     last_token_type m' = token_type (make_token m (tk_count (cache_at m (active m))) l)"
proof -
  let ?c = "cache_at m (active m)"
  let ?t = "make_token m (tk_count ?c) l" and ?g = "grow_tc ?c"
  have a: "active m < tcm_initialized m" "tc m = active m" using ok by (simp_all add: tcm_ok_def)
  have g: "get_tc m (int (tc m)) = Some ?c" "cache_ok (active m) ?c" using tcm_ok_get [OF ok a(1)] a(2) by auto
  note w = grow_tc_ok [OF g(2)]
  have len: "tk_count ?c < length (tokens ?g)" using w(1,2,4) by (simp add: cache_ok_def)
  let ?c' = "?g\<lparr>tokens := (tokens ?g)[tk_count ?c := Some ?t], tk_count := tk_count ?c + 1, tk_pos := tk_count ?c + 1\<rparr>"
  let ?m1 = "(put_tc m (active m) ?g)\<lparr>last_token_type := token_type ?t\<rparr>"
  have r: "read_next_token lex_scan False m s =
      Some (token_type ?t, Some ?t, put_tc ?m1 (active m) ?c', s')"
    using g(1) p l len a(2) w(4,5) by (simp add: read_next_token_def Let_def)
  have c': "cache_ok (active m) ?c'"
    using w len by (auto simp: cache_ok_def nth_list_update less_Suc_eq)
  have ok1: "tcm_ok ?m1" using tcm_ok_put [OF ok a(1) w(1)] by (simp add: tcm_ok_def)
  have "toks ?c' = toks ?g @ [?t]"
    using len w(4) by (simp add: toks_def take_Suc_conv_app_nth take_update_cancel)
  then show ?thesis
    using r tcm_ok_put [OF ok1 _ c'] a(1) w(3) cache_at_put [OF ok1, of "active m"] cache_at_put [OF ok a(1)]
    by (intro exI [of _ "put_tc ?m1 (active m) ?c'"]) (simp add: cache_at_def)
qed

subsection \<open>Going back and reading again\<close>

lemma seek_ok:
  assumes ok: "tcm_ok m" and i: "i < tcm_initialized m" "i < 2048"
    and j: "j \<le> tk_count (cache_at m i)" "tk_count (cache_at m i) < 2 ^ TOKEN_BITS"
  shows "\<exists>m'. seek_token m (mk_offset i j) y = Some (SUCCESS, m', clear_lookahead y) \<and> tcm_ok m' \<and>
     active m' = i \<and> cache_at m' i = (cache_at m i)\<lparr>tk_pos := j\<rparr> \<and>
     (\<forall>k. k \<noteq> i \<longrightarrow> cache_at m' k = cache_at m k) \<and> tcm_initialized m' = tcm_initialized m"
proof -
  let ?c = "(cache_at m i)\<lparr>tk_pos := j\<rparr>"
  have g: "get_tc m (int i) = Some (cache_at m i)" "cache_ok i (cache_at m i)" using tcm_ok_get [OF ok i(1)] by auto
  have o: "TC_OFFSET (mk_offset i j) = int i" "TOKEN_OFFSET (mk_offset i j) = j"
    using i(2) j TC_OFFSET_mk [of i j] TOKEN_OFFSET_mk [of i j] by simp_all
  have c: "cache_ok i ?c" using cache_ok_pos [OF g(2) j(1)] .
  have "tcm_ok ((put_tc m i ?c)\<lparr>active := i, tc := i\<rparr>)"
    using tcm_ok_put [OF ok i(1) c] i(1) by (simp add: tcm_ok_def)
  then show ?thesis
    using g(1) o i(1) j(1) cache_at_put [OF ok i(1), of ?c] by (simp add: seek_token_def cache_at_def)
qed

text \<open>Reading \<open>n\<close> tokens one after the other.\<close>

fun read_tokens ::
  "nat \<Rightarrow> ('s \<Rightarrow> lexed \<times> 's) \<Rightarrow> tcm \<Rightarrow> 's \<Rightarrow> (token list \<times> tcm \<times> 's) option" where
  "read_tokens 0 lex_scan m s = Some ([], m, s)"
| "read_tokens (Suc n) lex_scan m s = do {
     (_, t, m1, s1) \<leftarrow> read_next_token lex_scan False m s;
     t' \<leftarrow> t;
     (ts, m2, s2) \<leftarrow> read_tokens n lex_scan m1 s1;
     Some (t' # ts, m2, s2)
   }"

lemma read_tokens_cached:
  "tcm_ok m \<Longrightarrow> tk_pos (cache_at m (active m)) + n \<le> tk_count (cache_at m (active m)) \<Longrightarrow>
   \<exists>m'. read_tokens n lex_scan m s =
     Some (take n (drop (tk_pos (cache_at m (active m))) (toks (cache_at m (active m)))), m', s)"
proof (induction n arbitrary: m)
  case 0
  then show ?case by simp
next
  case (Suc n)
  let ?c = "cache_at m (active m)" and ?m = "put_tc m (active m) ((cache_at m (active m))\<lparr>tk_pos := tk_pos (cache_at m (active m)) + 1\<rparr>)"
  have p: "tk_pos ?c < tk_count ?c" using Suc.prems(2) by simp
  have a: "active m < tcm_initialized m" using Suc.prems(1) by (simp add: tcm_ok_def)
  note r = read_cached [OF Suc.prems(1) p, of lex_scan s]
  have c: "cache_at ?m (active ?m) = ?c\<lparr>tk_pos := tk_pos ?c + 1\<rparr>"
    using cache_at_put [OF Suc.prems(1) a] by simp
  from Suc.IH [OF read_cached_ok [OF Suc.prems(1) p]] Suc.prems(2) c obtain m' where
    "read_tokens n lex_scan ?m s = Some (take n (drop (tk_pos ?c + 1) (toks ?c)), m', s)" by auto
  moreover have "tk_pos ?c < length (toks ?c)"
    using p length_toks tcm_ok_get [OF Suc.prems(1) a] by metis
  then have "take (Suc n) (drop (tk_pos ?c) (toks ?c)) = toks ?c ! tk_pos ?c # take n (drop (tk_pos ?c + 1) (toks ?c))"
    by (simp add: Cons_nth_drop_Suc [symmetric])
  ultimately show ?case using r by simp
qed

subsection \<open>Exchanging two runs\<close>

definition switch_list :: "nat \<Rightarrow> nat \<Rightarrow> nat \<Rightarrow> 'a list \<Rightarrow> 'a list" where
  "switch_list a i e xs =
     take a xs @ take (e - i) (drop (i + 1) xs) @ [xs ! i] @ take (i - a) (drop a xs) @ drop (e + 1) xs"

lemma split_runs:
  assumes "a \<le> i" and "i \<le> e" and "e < length xs"
  shows "xs = take a xs @ take (i - a) (drop a xs) @ [xs ! i] @ take (e - i) (drop (i + 1) xs) @ drop (e + 1) xs"
proof -
  have d1: "drop (i - a) (drop a xs) = drop i xs" "drop (e - i) (drop (i + 1) xs) = drop (e + 1) xs"
    using assms by simp_all
  have "drop a xs = take (i - a) (drop a xs) @ drop i xs"
    using append_take_drop_id [of "i - a" "drop a xs"] unfolding d1 by (rule sym)
  moreover have "drop i xs = [xs ! i] @ drop (i + 1) xs" using assms by (simp add: Cons_nth_drop_Suc)
  moreover have "drop (i + 1) xs = take (e - i) (drop (i + 1) xs) @ drop (e + 1) xs"
    using append_take_drop_id [of "e - i" "drop (i + 1) xs"] unfolding d1 by (rule sym)
  ultimately show ?thesis using append_take_drop_id [of a xs] by metis
qed

lemma copy_cells_app:
  "d = length P \<Longrightarrow> n = length M \<Longrightarrow> s + n \<le> length src \<Longrightarrow>
     copy_cells (P @ M @ S) d src s n = Some (P @ take n (drop s src) @ S)"
  by (simp add: copy_cells_def)

text \<open>The two ways of copying, through a buffer for the longer run.\<close>

lemma exchange_short_first:
  assumes "length B < length C" and t: "t = A @ B @ [x] @ C @ D"
  shows "copy_cells (replicate (length C) y) 0 t (length A + length B + 1) (length C) = Some C"
    and "\<exists>z. copy_cells t (length A + length C + 1) t (length A) (length B) =
           Some (A @ take (length C) (B @ [x] @ C) @ [z] @ B @ D) \<and>
         copy_cells (A @ take (length C) (B @ [x] @ C) @ [z] @ B @ D) (length A) C 0 (length C) =
           Some (A @ C @ [z] @ B @ D)"
proof -
  show "copy_cells (replicate (length C) y) 0 t (length A + length B + 1) (length C) = Some C"
    by (simp add: t copy_cells_def)
  let ?r = "B @ [x] @ C" and ?c = "length C"
  have l: "?c < length ?r" by simp
  define M where "M = drop (?c + 1) ?r"
  have r: "?r = take ?c ?r @ [?r ! ?c] @ M"
    using l id_take_nth_drop [of ?c ?r] by (simp only: M_def append_Cons append_Nil Suc_eq_plus1)
  have lm: "length M = length B" by (simp add: M_def)
  have t': "t = (A @ take ?c ?r @ [?r ! ?c]) @ M @ D" using r unfolding t by (metis append.assoc)
  have lr: "length (take ?c ?r) = ?c" using l by simp
  have "copy_cells ((A @ take ?c ?r @ [?r ! ?c]) @ M @ D) (length A + ?c + 1) t (length A) (length B) =
      Some ((A @ take ?c ?r @ [?r ! ?c]) @ take (length B) (drop (length A) t) @ D)"
    using lr by (intro copy_cells_app) (simp_all add: lm t)
  moreover have "take (length B) (drop (length A) t) = B" by (simp add: t)
  ultimately have "copy_cells t (length A + ?c + 1) t (length A) (length B) =
      Some (A @ take ?c ?r @ [?r ! ?c] @ B @ D)" using t' by simp
  moreover have "copy_cells (A @ take ?c ?r @ [?r ! ?c] @ B @ D) (length A) C 0 ?c =
      Some (A @ take ?c (drop 0 C) @ [?r ! ?c] @ B @ D)"
    using lr by (intro copy_cells_app) simp_all
  ultimately show "\<exists>z. copy_cells t (length A + length C + 1) t (length A) (length B) =
           Some (A @ take (length C) (B @ [x] @ C) @ [z] @ B @ D) \<and>
         copy_cells (A @ take (length C) (B @ [x] @ C) @ [z] @ B @ D) (length A) C 0 (length C) =
           Some (A @ C @ [z] @ B @ D)" by simp
qed

lemma exchange_long_first:
  assumes "length C \<le> length B" and t: "t = A @ B @ [x] @ C @ D"
  shows "copy_cells (replicate (length B) y) 0 t (length A) (length B) = Some B"
    and "\<exists>z. copy_cells t (length A) t (length A + length B + 1) (length C) =
           Some (A @ C @ drop (length C) (B @ [x] @ C) @ D) \<and>
         copy_cells (A @ C @ drop (length C) (B @ [x] @ C) @ D) (length A + length C + 1) B 0 (length B) =
           Some (A @ C @ [z] @ B @ D)"
proof -
  show "copy_cells (replicate (length B) y) 0 t (length A) (length B) = Some B"
    by (simp add: t copy_cells_def)
  let ?r = "B @ [x] @ C" and ?c = "length C"
  have lr: "length (take ?c ?r) = ?c" by simp
  have t': "t = A @ take ?c ?r @ drop ?c ?r @ D" unfolding t by (metis append.assoc append_take_drop_id)
  have "copy_cells (A @ take ?c ?r @ drop ?c ?r @ D) (length A) t (length A + length B + 1) ?c =
      Some (A @ take ?c (drop (length A + length B + 1) t) @ drop ?c ?r @ D)"
    using lr by (intro copy_cells_app) (simp_all add: t)
  moreover have "take ?c (drop (length A + length B + 1) t) = C" by (simp add: t)
  ultimately have c1: "copy_cells t (length A) t (length A + length B + 1) ?c =
      Some (A @ C @ drop ?c ?r @ D)" using t' by metis
  have ld: "length (drop ?c ?r) = length B + 1" by simp
  then obtain z M where z: "drop ?c ?r = z # M" "length M = length B"
    by (metis Suc_eq_plus1 length_Suc_conv)
  have "copy_cells ((A @ C @ [z]) @ M @ D) (length A + ?c + 1) B 0 (length B) =
      Some ((A @ C @ [z]) @ take (length B) (drop 0 B) @ D)"
    using z by (intro copy_cells_app) simp_all
  then show "\<exists>z. copy_cells t (length A) t (length A + length B + 1) (length C) =
           Some (A @ C @ drop (length C) (B @ [x] @ C) @ D) \<and>
         copy_cells (A @ C @ drop (length C) (B @ [x] @ C) @ D) (length A + length C + 1) B 0 (length B) =
           Some (A @ C @ [z] @ B @ D)"
    using c1 z by (intro exI [of _ z]) (simp only: append_assoc append_Cons append_Nil drop_0 take_all order_refl simp_thms)
qed

text \<open>\<open>untag\<close>: a token without its number.\<close>

definition untag :: "token \<Rightarrow> token" where
  "untag t = t\<lparr>tk_offset := 0\<rparr>"

lemma switch_cells:
  assumes b: "a \<le> i" "i \<le> e" "e < length t" and ne: "\<not> (i - a = 0 \<and> e - i = 0)"
  shows "\<exists>ts. (if i - a < e - i then do {
             tmp \<leftarrow> copy_cells (replicate (max (i - a) (e - i)) y) 0 t (i + 1) (e - i);
             t1 \<leftarrow> copy_cells t (e - (i - a) + 1) t a (i - a);
             copy_cells t1 a tmp 0 (e - i) }
           else do {
             tmp \<leftarrow> copy_cells (replicate (max (i - a) (e - i)) y) 0 t a (i - a);
             t1 \<leftarrow> copy_cells t a t (i + 1) (e - i);
             copy_cells t1 (e - (i - a) + 1) tmp 0 (i - a) }) = Some ts \<and>
         a + (e - i) < length ts \<and> ts[a + (e - i) := t ! i] = switch_list a i e t"
proof -
  define A B C D where "A = take a t" and "B = take (i - a) (drop a t)"
    and "C = take (e - i) (drop (i + 1) t)" and "D = drop (e + 1) t"
  have t: "t = A @ B @ [t ! i] @ C @ D" unfolding A_def B_def C_def D_def by (rule split_runs [OF b])
  have l: "length A = a" "length B = i - a" "length C = e - i" using b by (simp_all add: A_def B_def C_def)
  have n: "length A + length B + 1 = i + 1" "length A + length C + 1 = e - (i - a) + 1" using b l by simp_all
  have sw: "switch_list a i e t = A @ C @ [t ! i] @ B @ D" by (simp add: switch_list_def A_def B_def C_def D_def)
  have fin: "a + (e - i) < length (A @ C @ [z] @ B @ D) \<and>
      (A @ C @ [z] @ B @ D)[a + (e - i) := t ! i] = switch_list a i e t" for z
    using l by (simp add: sw list_update_append)
  show ?thesis
  proof (cases "i - a < e - i")
    case True
    then have lt: "length B < length C" using l by simp
    from exchange_short_first(1) [OF lt t, of y] have m1:
      "copy_cells (replicate (max (i - a) (e - i)) y) 0 t (i + 1) (e - i) = Some C"
      using True n(1) l by (simp add: max_def)
    from exchange_short_first(2) [OF lt t] n l obtain z t1 where
      "copy_cells t (e - (i - a) + 1) t a (i - a) = Some t1"
      "copy_cells t1 a C 0 (e - i) = Some (A @ C @ [z] @ B @ D)" by metis
    then show ?thesis using True m1 fin [of z] by simp
  next
    case False
    then have le: "length C \<le> length B" using l by simp
    from exchange_long_first(1) [OF le t, of y] have m1:
      "copy_cells (replicate (max (i - a) (e - i)) y) 0 t a (i - a) = Some B"
      using False l by (simp add: max_def)
    from exchange_long_first(2) [OF le t] n l obtain z t1 where
      "copy_cells t a t (i + 1) (e - i) = Some t1"
      "copy_cells t1 (e - (i - a) + 1) B 0 (i - a) = Some (A @ C @ [z] @ B @ D)" by metis
    then show ?thesis using False m1 fin [of z] by simp
  qed
qed

lemma length_switch_list: "a \<le> i \<Longrightarrow> i \<le> e \<Longrightarrow> e < length t \<Longrightarrow> length (switch_list a i e t) = length t"
  by (simp add: switch_list_def)

lemma nth_renumber:
  "j < length ts \<Longrightarrow> renumber k a e ts ! j =
     (if a \<le> j \<and> j \<le> e then map_option (\<lambda>t. t\<lparr>tk_offset := mk_offset k j\<rparr>) (ts ! j) else ts ! j)"
  by (simp add: renumber_def)

lemma length_renumber [simp]: "length (renumber k a e ts) = length ts"
  by (simp add: renumber_def)

lemma map_switch_list:
  "a \<le> i \<Longrightarrow> i \<le> e \<Longrightarrow> e < length xs \<Longrightarrow> switch_list a i e (map f xs) = map f (switch_list a i e xs)"
  by (simp add: switch_list_def take_map drop_map)

lemma switch_list_append:
  "a \<le> i \<Longrightarrow> i \<le> e \<Longrightarrow> e < length ys \<Longrightarrow> switch_list a i e (ys @ zs) = switch_list a i e ys @ zs"
  by (simp add: switch_list_def nth_append)

lemma take_switch_list:
  assumes "a \<le> i" and "i \<le> e" and "e < n" and "n \<le> length xs"
  shows "take n (switch_list a i e xs) = switch_list a i e (take n xs)"
proof -
  have l: "e < length (take n xs)" "length (take n xs) = n" using assms by simp_all
  have "switch_list a i e xs = switch_list a i e (take n xs) @ drop n xs"
    using switch_list_append [OF assms(1,2) l(1), of "drop n xs"] by simp
  then show ?thesis using length_switch_list [OF assms(1,2) l(1)] l(2) by simp
qed

lemma switch_list_outside:
  assumes "a \<le> i" and "i \<le> e" and "e < length xs" and "j < a \<or> e < j" and "j < length xs"
  shows "switch_list a i e xs ! j = xs ! j"
proof -
  let ?m = "take (e - i) (drop (i + 1) xs) @ [xs ! i] @ take (i - a) (drop a xs)"
  have l: "length (take a xs) = a" "length ?m = e + 1 - a" using assms by simp_all
  have s: "switch_list a i e xs = take a xs @ ?m @ drop (e + 1) xs" by (simp add: switch_list_def)
  show ?thesis
  proof (cases "j < a")
    case True
    then show ?thesis using l(1) by (simp add: s nth_append)
  next
    case False
    then have "e < j" using assms(4) by simp
    then have "\<not> j - a < Suc e - a" using assms(1,2) by linarith
    then show ?thesis using assms l \<open>e < j\<close> unfolding s by (subst nth_append, subst nth_append) simp
  qed
qed

lemma tc_switch_ok:
  assumes ok: "tcm_ok m" and k: "k < tcm_initialized m" "k < 2048"
    and b: "a \<le> i" "i \<le> e" "e < tk_count (cache_at m k)" "tk_count (cache_at m k) \<le> 2 ^ TOKEN_BITS"
  shows "\<exists>m'. tc_switch m (mk_offset k a) (mk_offset k e) (mk_offset k i) = Some (SUCCESS, m') \<and> tcm_ok m' \<and>
     map untag (toks (cache_at m' k)) = switch_list a i e (map untag (toks (cache_at m k))) \<and>
     tk_pos (cache_at m' k) = tk_pos (cache_at m k) \<and> tk_count (cache_at m' k) = tk_count (cache_at m k) \<and>
     (\<forall>j. j \<noteq> k \<longrightarrow> cache_at m' j = cache_at m j) \<and> tcm_initialized m' = tcm_initialized m"
proof -
  let ?c = "cache_at m k"
  have g: "get_tc m (int k) = Some ?c" "cache_ok k ?c" using tcm_ok_get [OF ok k(1)] by auto
  have o: "TC_OFFSET (mk_offset k a) = int k" "TOKEN_OFFSET (mk_offset k a) = a"
    "TOKEN_OFFSET (mk_offset k i) = i" "TOKEN_OFFSET (mk_offset k e) = e"
    using k(2) b TC_OFFSET_mk [of k a] TOKEN_OFFSET_mk [of k] by simp_all
  have e: "e < length (tokens ?c)" using g(2) b by (simp add: cache_ok_def)
  have le: "e < tk_count ?c" "tk_count ?c \<le> length (tokens ?c)" using g(2) b by (simp_all add: cache_ok_def)
  show ?thesis
  proof (cases "i - a = 0 \<and> e - i = 0")
    case True
    then have "a = i" "e = i" using b by simp_all
    moreover have "switch_list i i i xs = xs" if "i < length xs" for xs :: "token list"
      using that by (simp add: switch_list_def id_take_nth_drop [symmetric])
    moreover have "i < length (toks ?c)" using length_toks [OF g(2)] le \<open>e = i\<close> by simp
    ultimately show ?thesis using ok g(1) o le by (simp add: tc_switch_def)
  next
    case False
    obtain ts where ts: "(if i - a < e - i then do {
             tmp \<leftarrow> copy_cells (replicate (max (i - a) (e - i)) None) 0 (tokens ?c) (i + 1) (e - i);
             t1 \<leftarrow> copy_cells (tokens ?c) (e - (i - a) + 1) (tokens ?c) a (i - a);
             copy_cells t1 a tmp 0 (e - i) }
           else do {
             tmp \<leftarrow> copy_cells (replicate (max (i - a) (e - i)) None) 0 (tokens ?c) a (i - a);
             t1 \<leftarrow> copy_cells (tokens ?c) a (tokens ?c) (i + 1) (e - i);
             copy_cells t1 (e - (i - a) + 1) tmp 0 (i - a) }) = Some ts"
      and tl: "a + (e - i) < length ts" "ts[a + (e - i) := tokens ?c ! i] = switch_list a i e (tokens ?c)"
      using switch_cells [OF b(1,2) e False, of None] by blast
    let ?t = "renumber k a e (switch_list a i e (tokens ?c))"
    let ?c' = "?c\<lparr>tokens := ?t\<rparr>"
    have "arr_get (tokens ?c) i = Some (tokens ?c ! i)" using e b by simp
    then have run: "tc_switch m (mk_offset k a) (mk_offset k e) (mk_offset k i) = Some (SUCCESS, put_tc m k ?c')"
      using g(1) o le b ts tl False by (simp add: tc_switch_def Let_def) auto
    have len: "length ?t = length (tokens ?c)" using length_switch_list [OF b(1,2) e] by simp
    have some: "take (tk_count ?c) (tokens ?c) = map Some (toks ?c)"
      using g(2) by (intro nth_equalityI) (auto simp: cache_ok_def toks_def)
    have sw: "take (tk_count ?c) (switch_list a i e (tokens ?c)) = map Some (switch_list a i e (toks ?c))"
      using take_switch_list [OF b(1,2) le] map_switch_list [OF b(1,2), of "toks ?c" Some] le(1) length_toks [OF g(2)]
      by (simp add: some)
    have cell: "\<exists>t. ?t ! j = Some t \<and> untag t = untag (switch_list a i e (toks ?c) ! j) \<and> tk_offset t = mk_offset k j"
      if j: "j < tk_count ?c" for j
    proof -
      have lt: "j < length (switch_list a i e (tokens ?c))" using j le length_switch_list [OF b(1,2) e] by simp
      have "switch_list a i e (tokens ?c) ! j = map Some (switch_list a i e (toks ?c)) ! j"
        using j sw by (metis nth_take)
      also have "\<dots> = Some (switch_list a i e (toks ?c) ! j)"
        using j length_switch_list [OF b(1,2), of "toks ?c"] le(1) length_toks [OF g(2)] by simp
      finally have s: "switch_list a i e (tokens ?c) ! j = Some (switch_list a i e (toks ?c) ! j)" .
      show ?thesis
      proof (cases "a \<le> j \<and> j \<le> e")
        case True
        then show ?thesis using s lt by (simp add: nth_renumber untag_def)
      next
        case out: False
        then have "switch_list a i e (tokens ?c) ! j = tokens ?c ! j"
          using j le by (intro switch_list_outside [OF b(1,2) e]) auto
        then show ?thesis using s lt out g(2) j by (auto simp: nth_renumber cache_ok_def)
      qed
    qed
    have c': "cache_ok k ?c'" using g(2) len cell by (fastforce simp: cache_ok_def)
    have "map untag (toks ?c') = map untag (switch_list a i e (toks ?c))"
    proof (rule nth_equalityI)
      show l2: "length (map untag (toks ?c')) = length (map untag (switch_list a i e (toks ?c)))"
        using length_toks [OF c'] length_toks [OF g(2)] length_switch_list [OF b(1,2), of "toks ?c"] le(1) by simp
      fix j assume "j < length (map untag (toks ?c'))"
      then have j: "j < tk_count ?c" using length_toks [OF c'] by simp
      obtain t where t: "?t ! j = Some t" "untag t = untag (switch_list a i e (toks ?c) ! j)"
        using cell [OF j] by blast
      have "t = toks ?c' ! j" using toks_nth [OF c', of j] j t(1) by simp
      moreover have "j < length (toks ?c')" "j < length (switch_list a i e (toks ?c))"
        using j length_toks [OF c'] l2 by simp_all
      ultimately show "map untag (toks ?c') ! j = map untag (switch_list a i e (toks ?c)) ! j"
        using t(2) by simp
    qed
    then have "map untag (toks ?c') = switch_list a i e (map untag (toks ?c))"
      using map_switch_list [OF b(1,2), of "toks ?c" untag] le(1) length_toks [OF g(2)] by simp
    then show ?thesis
      using run tcm_ok_put [OF ok k(1) c'] cache_at_put [OF ok k(1), of ?c'] by simp
  qed
qed

text \<open>Exchanging the same runs back gives the tokens in their old order.\<close>

lemma switch_list_twice:
  assumes "a \<le> i" and "i \<le> e" and "e < length xs"
  shows "switch_list a (a + (e - i)) e (switch_list a i e xs) = xs"
proof -
  define A B C D where "A = take a xs" and "B = take (i - a) (drop a xs)"
    and "C = take (e - i) (drop (i + 1) xs)" and "D = drop (e + 1) xs"
  have xs: "xs = A @ B @ [xs ! i] @ C @ D" unfolding A_def B_def C_def D_def by (rule split_runs [OF assms])
  have l: "length A = a" "length B = i - a" "length C = e - i" using assms by (simp_all add: A_def B_def C_def)
  have sw: "switch_list a i e xs = A @ C @ [xs ! i] @ B @ D"
    by (simp add: switch_list_def A_def B_def C_def D_def)
  have n: "e - (a + (e - i)) = length B" "a + (e - i) + 1 = length A + length C + 1"
    "e + 1 = length A + length C + 1 + length B" "a + (e - i) = length A + length C"
    using assms l by simp_all
  have "switch_list a (a + (e - i)) e (A @ C @ [xs ! i] @ B @ D) = A @ B @ [xs ! i] @ C @ D"
    unfolding switch_list_def n(1,2,3) unfolding n(4) using l by (simp add: nth_append)
  then show ?thesis using sw xs by simp
qed

end
