(* ===== verification/Memory_Props.thy ===== *)
theory Memory_Props
  imports Stack Token_Cache_Inv
begin

text \<open>
  The properties of the memory manager, of the stack built on it, and of the token cache.
  \<open>mm_reach\<close> is the set of states a program reaches that frees only blocks it holds and asks for
  less than 2 GB at a time.
\<close>

subsection \<open>The states of the memory manager\<close>

inductive mm_reach :: "mm \<Rightarrow> addr list \<Rightarrow> bool" where
  reach_start: "mm_reach (start_memory_manager m) []"
| reach_emalloc: "mm_reach m live \<Longrightarrow> n < 2147483648 \<Longrightarrow> emalloc n m = Ret (p, m') \<Longrightarrow> mm_reach m' (p # live)"
| reach_efree: "mm_reach m live \<Longrightarrow> p \<in> set live \<Longrightarrow> efree p m = Ret m' \<Longrightarrow> mm_reach m' (remove1 p live)"
| reach_erealloc: "mm_reach m live \<Longrightarrow> p \<in> set live \<Longrightarrow> n < 2147483648 \<Longrightarrow> erealloc p n m = Ret (q, m') \<Longrightarrow>
    mm_reach m' (q # remove1 p live)"
| reach_write: "mm_reach m live \<Longrightarrow> p \<in> set live \<Longrightarrow> length c = length (mem m p) \<Longrightarrow>
    write_block p c m = Some m' \<Longrightarrow> mm_reach m' live"

lemma mm_reach_live: "mm_reach m live \<Longrightarrow> mm_live m live"
proof (induction rule: mm_reach.induct)
  case (reach_start m)
  then show ?case using start_ok by (auto simp: mm_live_def)
next
  case (reach_emalloc m live n p m')
  then show ?case using mm.alloc_law [of m live n] by auto
next
  case (reach_efree m live p m')
  then show ?case using mm.release_law [of m live p] by auto
next
  case (reach_erealloc m live p n q m')
  then show ?case using mm.resize_law [of m live p n] by auto
next
  case (reach_write m live p c m')
  then show ?case using mm.wr_law [of m live p c] by auto
qed

lemma emalloc_mem: "mm_live m live \<Longrightarrow> n < 2147483648 \<Longrightarrow> emalloc n m = Ret (p, m') \<Longrightarrow>
    mm_live m' (p # live) \<and> length (mem m' p) = n \<and> (\<forall>q. q \<noteq> p \<longrightarrow> mem m' q = mem m q)"
  using mm.alloc_law [of m live n] by auto

text \<open>A memory manager that was just started, with the addresses 1, 2, \<dots>, for the examples.\<close>

definition mm_fresh :: mm where
  "mm_fresh = start_memory_manager \<lparr>hdr = Map.empty, mem = (\<lambda>_. []), addresses = [1, 2, 3, 4, 5, 6],
     head = 0, cache = (\<lambda>_ _. 0), cache_count = (\<lambda>_. 0), initialized = False\<rparr>"

lemmas mm_eval =
  mm_fresh_def start_memory_manager_def MAX_CACHED_MEMORY_def MAX_CACHED_ENTRIES_def emalloc_def efree_def
  malloc_def push_front_def set_size_def set_hdr_def or_undef_def to_int_def blank_header_def Let_def

lemma mm_fresh_reach: "mm_reach mm_fresh []"
  unfolding mm_fresh_def by (rule reach_start)

lemma mm_fresh_live: "mm_live mm_fresh []"
  by (rule mm_reach_live [OF mm_fresh_reach])

lemma mm_fresh_alloc: "\<exists>m1. emalloc 100 mm_fresh = Ret (1, m1)"
  by (simp add: mm_eval)

text \<open>C4: in every state the program can reach, the blocks it holds are distinct and not NULL, and no
  further call is undefined: allocating, freeing or resizing a block, and shutting down.\<close>

theorem memory_manager_safe:
  assumes "mm_reach m live"
  shows "distinct live \<and> 0 \<notin> set live \<and>
    (\<forall>n < 2147483648. emalloc n m \<noteq> Undef) \<and>
    (\<forall>p \<in> set live. efree p m \<noteq> Undef \<and> (\<forall>n < 2147483648. erealloc p n m \<noteq> Undef)) \<and>
    shutdown_memory_manager m \<noteq> None"
proof -
  have l: "mm_live m live" by (rule mm_reach_live [OF assms])
  then have "shutdown_memory_manager m \<noteq> None" using shutdown_ok by (fastforce simp: mm_live_def)
  then show ?thesis
    using mm.inv_distinct [OF l] mm.alloc_law [OF l] mm.release_law [OF l] mm.resize_law [OF l]
    by (metis outcome.distinct(4,6))
qed

theorem memory_manager_safe_witness:
  "\<exists>m1. emalloc 100 mm_fresh = Ret (1, m1) \<and> efree 1 m1 \<noteq> Undef \<and> shutdown_memory_manager m1 \<noteq> None"
proof -
  obtain m1 where m1: "emalloc 100 mm_fresh = Ret (1, m1)" using mm_fresh_alloc by blast
  then have "mm_reach m1 [1]" using reach_emalloc [OF mm_fresh_reach, of 100 1 m1] by simp
  from memory_manager_safe [OF this] m1 show ?thesis by auto
qed

text \<open>C12: \<open>emalloc\<close> hands out a block of the size asked for that is not one of the blocks in use, and
  \<open>erealloc\<close> keeps the contents up to the new size; neither changes the contents of another block.\<close>

theorem memory_blocks_separate:
  assumes "mm_reach m live" and "n < 2147483648"
  shows "(\<forall>p m'. emalloc n m = Ret (p, m') \<longrightarrow>
      p \<notin> set live \<and> length (mem m' p) = n \<and> (\<forall>q. q \<noteq> p \<longrightarrow> mem m' q = mem m q)) \<and>
    (\<forall>p \<in> set live. \<forall>q m'. erealloc p n m = Ret (q, m') \<longrightarrow>
      q \<notin> set (remove1 p live) \<and> mem m' q = resize_block n (mem m p) \<and> (\<forall>x. x \<noteq> q \<longrightarrow> mem m' x = mem m x))"
proof -
  have l: "mm_live m live" by (rule mm_reach_live [OF assms(1)])
  have "p \<notin> set live \<and> length (mem m' p) = n \<and> (\<forall>q. q \<noteq> p \<longrightarrow> mem m' q = mem m q)"
    if "emalloc n m = Ret (p, m')" for p m'
    using emalloc_mem [OF l assms(2) that] mm.inv_distinct by fastforce
  moreover have "q \<notin> set (remove1 p live) \<and> mem m' q = resize_block n (mem m p) \<and> (\<forall>x. x \<noteq> q \<longrightarrow> mem m' x = mem m x)"
    if "p \<in> set live" "erealloc p n m = Ret (q, m')" for p q m'
    using mm.resize_law [OF l that(1) assms(2)] that(2) mm.inv_distinct [of m' "q # remove1 p live"] by auto
  ultimately show ?thesis by blast
qed

theorem memory_blocks_separate_witness:
  "\<exists>m1. emalloc 100 mm_fresh = Ret (1, m1) \<and> length (mem m1 1) = 100 \<and> mem m1 2 = mem mm_fresh 2"
proof -
  obtain m1 where m1: "emalloc 100 mm_fresh = Ret (1, m1)" using mm_fresh_alloc by blast
  then show ?thesis using memory_blocks_separate [OF mm_fresh_reach, of 100] by auto
qed

text \<open>The copies \<open>estrdup\<close> and \<open>estrndup\<close> make hold the bytes and a final NUL, in a block of their
  own; \<open>ecalloc\<close> gives zeros.\<close>

theorem memory_copies:
  assumes "mm_reach m live"
  shows "(length s < 2147483647 \<longrightarrow> estrdup s m = Exit \<or>
      (\<exists>p m'. estrdup s m = Ret (p, m') \<and> filled m live (s @ [NUL]) p m')) \<and>
    (n \<le> length s \<and> n < 2147483647 \<longrightarrow> estrndup s n m = Exit \<or>
      (\<exists>p m'. estrndup s n m = Ret (p, m') \<and> filled m live (take n s @ [NUL]) p m')) \<and>
    (k * n < 2147483648 \<longrightarrow> ecalloc k n m = Exit \<or>
      (\<exists>p m'. ecalloc k n m = Ret (p, m') \<and> filled m live (replicate (k * n) NUL) p m'))"
proof -
  obtain bs where "mm_inv m bs live" using mm_reach_live [OF assms] by (auto simp: mm_live_def)
  from estrdup_ok [OF this] estrndup_ok [OF this] ecalloc_ok [OF this] show ?thesis by blast
qed

theorem memory_copies_witness:
  "\<exists>p m'. estrdup ''php'' mm_fresh = Ret (p, m') \<and> filled mm_fresh [] (''php'' @ [NUL]) p m'"
proof -
  have "estrdup ''php'' mm_fresh \<noteq> Exit"
    by (simp add: estrdup_def to_size_t_def mm_eval split: option.split)
  then show ?thesis using memory_copies [OF mm_fresh_reach, of "''php''" 0 0] by auto
qed

text \<open>The size of a block is stored in an \<open>int\<close>: a block of 2 GB to 4 GB that \<open>emalloc\<close> has handed out
  cannot be freed, \<open>efree\<close> indexes the cache with a negative number.\<close>

theorem memory_big_block:
  assumes "mm_reach m live" and "2147483648 \<le> n" and "n < 4294967296" and "emalloc n m = Ret (p, m')"
  shows "efree p m' = Undef"
  using mm_reach_live [OF assms(1)] emalloc_big_free [OF _ assms(2-4)] by (auto simp: mm_live_def)

theorem memory_big_block_witness:
  "\<exists>m'. emalloc 2147483648 mm_fresh = Ret (1, m') \<and> efree 1 m' = Undef"
proof -
  have "\<exists>m'. emalloc 2147483648 mm_fresh = Ret (1, m')" by (simp add: mm_eval)
  then show ?thesis using memory_big_block [OF mm_fresh_reach, of 2147483648] by auto
qed

subsection \<open>The stack\<close>

text \<open>A sequence of pushes and pops, and what it should leave, oldest element first.\<close>

datatype stack_op = Push "char option list" | Pop

fun stack_run :: "stack_op list \<Rightarrow> stack \<Rightarrow> mm \<Rightarrow> (stack \<times> mm) outcome" where
  "stack_run [] st m = Ret (st, m)"
| "stack_run (Push e # ops) st m =
     (case php3i_stack_push st e m of Ret (_, st', m') \<Rightarrow> stack_run ops st' m' | Exit \<Rightarrow> Exit | Undef \<Rightarrow> Undef)"
| "stack_run (Pop # ops) st m =
     (case php3i_stack_del_top st m of Ret (_, st', m') \<Rightarrow> stack_run ops st' m' | Exit \<Rightarrow> Exit | Undef \<Rightarrow> Undef)"

fun stack_spec :: "stack_op list \<Rightarrow> char option list list \<Rightarrow> char option list list" where
  "stack_spec [] xs = xs"
| "stack_spec (Push e # ops) xs = stack_spec ops (xs @ [e])"
| "stack_spec (Pop # ops) xs = stack_spec ops (butlast xs)"

definition pushes_ok :: "stack_op list \<Rightarrow> bool" where
  "pushes_ok ops \<longleftrightarrow> (\<forall>opn \<in> set ops. case opn of Push e \<Rightarrow> length e < 2147483648 | Pop \<Rightarrow> True)"

definition stack_contents :: "stack \<Rightarrow> mm \<Rightarrow> char option list list" where
  "stack_contents st m = map (mem m) (tops st)"

lemma items_contents: "mm.items st m = stack_contents st m"
  by (simp add: mm.items_def stack_contents_def)

lemma stack_push_smax: "stack_push al rs w st e s = Ret (r, st', s') \<Longrightarrow> smax st' \<le> smax st + STACK_BLOCK_SIZE"
  unfolding stack_push_def stack_grow_def
  by (auto split: outcome.splits if_splits option.splits)

lemma stack_del_top_smax: "stack_del_top rl st s = Ret (r, st', s') \<Longrightarrow> smax st' = smax st"
  unfolding stack_del_top_def by (auto simp: Let_def split: outcome.splits if_splits option.splits)

lemma stack_run_ok:
  assumes "mm.stack_inv st m live" and "pushes_ok ops" and "8 * (smax st + 64 * length ops) < 2147483648"
  shows "stack_run ops st m = Exit \<or> (\<exists>st' m'. stack_run ops st m = Ret (st', m') \<and> mm.stack_inv st' m' live \<and>
    stack_contents st' m' = stack_spec ops (stack_contents st m))"
  using assms
proof (induction ops st m rule: stack_run.induct)
  case (2 e ops st m)
  have p: "8 * (smax st + STACK_BLOCK_SIZE) < 2147483648" "length e < 2147483648" "pushes_ok ops"
    using 2(3,4) by (simp_all add: STACK_BLOCK_SIZE_def pushes_ok_def)
  from mm.stack_push_ok [OF 2(2) p(1,2)] show ?case
  proof (elim disjE exE conjE)
    fix st' m'
    assume r: "stack_push emalloc erealloc write_block st e m = Ret (int (s_top st), st', m')"
      "mm.stack_inv st' m' live" "mm.items st' m' = mm.items st m @ [e]"
    have q: "php3i_stack_push st e m = Ret (int (s_top st), st', m')" using r(1) by (simp add: php3i_stack_push_def)
    have "8 * (smax st' + 64 * length ops) < 2147483648"
      using stack_push_smax [OF r(1)] 2(4) by (simp add: STACK_BLOCK_SIZE_def)
    from "2.IH" [OF q refl refl r(2) p(3) this] show ?thesis using q r(3) by (simp add: items_contents)
  qed (simp add: php3i_stack_push_def)
next
  case (3 ops st m)
  from mm.stack_del_top_ok [OF 3(2)] obtain st' m' where
    r: "stack_del_top efree st m = Ret (SUCCESS, st', m')" "mm.stack_inv st' m' live"
      "mm.items st' m' = butlast (mm.items st m)" by blast
  have q: "php3i_stack_del_top st m = Ret (SUCCESS, st', m')" using r(1) by (simp add: php3i_stack_del_top_def)
  have "8 * (smax st' + 64 * length ops) < 2147483648" "pushes_ok ops"
    using stack_del_top_smax [OF r(1)] 3(3,4) by (simp_all add: pushes_ok_def)
  from "3.IH" [OF q refl refl r(2) this(2,1)] show ?case using q r(3) by (simp add: items_contents)
qed simp

text \<open>C8: a stack holds what was pushed and not popped, in order, whatever the sequence of pushes and
  pops; \<open>php3i_stack_top\<close> points to the last element, and destroying the stack gives back all of its
  blocks and no other.  (The process may exit when memory runs out.)\<close>

theorem stack_lifo:
  assumes "mm_reach m live" and "php3i_stack_init m = Ret (SUCCESS, st, m1)"
    and "pushes_ok ops" and "length ops < 4000000"
  shows "stack_run ops st m1 = Exit \<or>
    (\<exists>st' m'. stack_run ops st m1 = Ret (st', m') \<and> stack_contents st' m' = stack_spec ops [] \<and>
       (case php3i_stack_top st' of
          Some (SUCCESS, p) \<Rightarrow> stack_spec ops [] \<noteq> [] \<and> mem m' p = last (stack_spec ops [])
        | Some (FAILURE, p) \<Rightarrow> stack_spec ops [] = [] \<and> p = 0
        | None \<Rightarrow> False) \<and>
       (\<exists>m2. php3i_stack_destroy st' m' = Ret (SUCCESS, m2) \<and> mm_live m2 live))"
proof -
  have l: "mm_live m live" by (rule mm_reach_live [OF assms(1)])
  have i: "mm.stack_inv st m1 live" "stack_contents st m1 = []"
    using mm.stack_init_ok [OF l] assms(2) by (auto simp: php3i_stack_init_def items_contents)
  have "smax st = 64"
    using assms(2) by (auto simp: php3i_stack_init_def stack_init_def STACK_BLOCK_SIZE_def split: outcome.splits if_splits)
  then have "8 * (smax st + 64 * length ops) < 2147483648" using assms(4) by simp
  from stack_run_ok [OF i(1) assms(3) this] show ?thesis
  proof (elim disjE exE conjE)
    fix st' m' assume r: "stack_run ops st m1 = Ret (st', m')" "mm.stack_inv st' m' live"
      "stack_contents st' m' = stack_spec ops (stack_contents st m1)"
    have "tops st' = [] \<longleftrightarrow> stack_contents st' m' = []"
      "tops st' \<noteq> [] \<Longrightarrow> mem m' (last (tops st')) = last (stack_contents st' m')"
      by (simp_all add: stack_contents_def last_map)
    then show ?thesis
      using r mm.stack_top_ok [OF r(2)] mm.stack_destroy_ok [OF r(2)] i(2)
      by (simp add: php3i_stack_destroy_def)
  qed simp
qed

lemma fresh_stack: "\<exists>st m1. php3i_stack_init mm_fresh = Ret (SUCCESS, st, m1)"
  by (simp add: php3i_stack_init_def stack_init_def STACK_BLOCK_SIZE_def mm_eval)

theorem stack_lifo_witness:
  "\<exists>st m1. php3i_stack_init mm_fresh = Ret (SUCCESS, st, m1) \<and>
    (stack_run [Push [Some CHR ''a''], Push [Some CHR ''b''], Pop] st m1 = Exit \<or>
     (\<exists>st' m'. stack_run [Push [Some CHR ''a''], Push [Some CHR ''b''], Pop] st m1 = Ret (st', m') \<and>
        stack_contents st' m' = [[Some CHR ''a'']]))"
proof -
  obtain st m1 where i: "php3i_stack_init mm_fresh = Ret (SUCCESS, st, m1)" using fresh_stack by blast
  show ?thesis
    using stack_lifo [OF mm_fresh_reach i, of "[Push [Some CHR ''a''], Push [Some CHR ''b''], Pop]"] i
    by (auto simp: pushes_ok_def)
qed

subsection \<open>The token cache\<close>

text \<open>The scanner does not end the evaluation within its next \<open>n\<close> calls.\<close>

fun scan_ok :: "nat \<Rightarrow> ('s \<Rightarrow> lexed \<times> 's) \<Rightarrow> 's \<Rightarrow> bool" where
  "scan_ok 0 lex_scan s = True"
| "scan_ok (Suc n) lex_scan s = (lx_type (fst (lex_scan s)) \<noteq> DONE_EVAL \<and> scan_ok n lex_scan (snd (lex_scan s)))"

lemma tcm_ok_cache: "tcm_ok m \<Longrightarrow> i < tcm_initialized m \<Longrightarrow> cache_ok i (cache_at m i)"
  unfolding tcm_ok_def cache_at_def by fastforce

lemma tcm_ok_active: "tcm_ok m \<Longrightarrow> active m < tcm_initialized m"
  by (simp add: tcm_ok_def)

lemma toks_offset: "cache_ok i c \<Longrightarrow> j < tk_count c \<Longrightarrow> tk_offset (toks c ! j) = mk_offset i j"
  unfolding cache_ok_def toks_def by fastforce

lemma read_tokens_scanned:
  "tcm_ok m \<Longrightarrow> tk_pos (cache_at m (active m)) = tk_count (cache_at m (active m)) \<Longrightarrow> scan_ok n lex_scan s \<Longrightarrow>
   \<exists>ts m' s'. read_tokens n lex_scan m s = Some (ts, m', s') \<and> tcm_ok m' \<and> active m' = active m \<and>
     tcm_initialized m' = tcm_initialized m \<and> length ts = n \<and>
     toks (cache_at m' (active m)) = toks (cache_at m (active m)) @ ts"
proof (induction n arbitrary: m s)
  case (Suc n)
  obtain l s1 where l: "lex_scan s = (l, s1)" by (cases "lex_scan s")
  then have ok: "lx_type l \<noteq> DONE_EVAL" "scan_ok n lex_scan s1" using Suc.prems(3) by simp_all
  define t where "t = make_token m (tk_count (cache_at m (active m))) l"
  from read_scanned [OF Suc.prems(1,2), of lex_scan s l s1] l ok(1) obtain m1 where
    1: "read_next_token lex_scan False m s = Some (token_type t, Some t, m1, s1)" "tcm_ok m1"
      "active m1 = active m" "tcm_initialized m1 = tcm_initialized m"
      "toks (cache_at m1 (active m)) = toks (cache_at m (active m)) @ [t]"
      "tk_pos (cache_at m1 (active m)) = tk_count (cache_at m1 (active m))" unfolding t_def by blast
  from Suc.IH [OF 1(2) _ ok(2)] 1(3,6) obtain ts m' s' where
    2: "read_tokens n lex_scan m1 s1 = Some (ts, m', s')" "tcm_ok m'" "active m' = active m1"
      "tcm_initialized m' = tcm_initialized m1" "length ts = n"
      "toks (cache_at m' (active m1)) = toks (cache_at m1 (active m1)) @ ts" by auto
  then show ?case using 1 by simp
qed simp

text \<open>C6: what was read once can be read again.  After \<open>n\<close> tokens came from the scanner, seeking to
  the offset of any of them and reading on gives the same tokens, without calling the scanner.\<close>

theorem token_replay:
  assumes ok: "tcm_ok m" and a: "active m < 2048"
    and p: "tk_pos (cache_at m (active m)) = tk_count (cache_at m (active m))"
    and n: "tk_count (cache_at m (active m)) + n < 2 ^ TOKEN_BITS" and sc: "scan_ok n lex_scan s"
  shows "\<exists>ts m1 s1. read_tokens n lex_scan m s = Some (ts, m1, s1) \<and> length ts = n \<and>
    (\<forall>j < n. \<exists>m2 m3. seek_token m1 (tk_offset (ts ! j)) y = Some (SUCCESS, m2, clear_lookahead y) \<and>
       read_tokens (n - j) lex_scan m2 s1 = Some (drop j ts, m3, s1))"
proof -
  define i where "i = active m"
  define c where "c = tk_count (cache_at m i)"
  have i: "i < tcm_initialized m" using tcm_ok_active [OF ok] i_def by simp
  from read_tokens_scanned [OF ok p sc] obtain ts m1 s1 where
    1: "read_tokens n lex_scan m s = Some (ts, m1, s1)" "tcm_ok m1" "active m1 = i"
      "tcm_initialized m1 = tcm_initialized m" "length ts = n"
      "toks (cache_at m1 i) = toks (cache_at m i) @ ts" unfolding i_def by blast
  have c0: "length (toks (cache_at m i)) = c" using length_toks [OF tcm_ok_cache [OF ok i]] c_def by simp
  have ok1: "cache_ok i (cache_at m1 i)" using tcm_ok_cache [OF 1(2)] i 1(4) by simp
  have c1: "tk_count (cache_at m1 i) = c + n" using length_toks [OF ok1] 1(5,6) c0 by simp
  have "\<exists>m2 m3. seek_token m1 (tk_offset (ts ! j)) y = Some (SUCCESS, m2, clear_lookahead y) \<and>
       read_tokens (n - j) lex_scan m2 s1 = Some (drop j ts, m3, s1)" if j: "j < n" for j
  proof -
    have "toks (cache_at m1 i) ! (c + j) = ts ! j" using 1(6) c0 by (simp add: nth_append)
    then have o: "tk_offset (ts ! j) = mk_offset i (c + j)" using toks_offset [OF ok1, of "c + j"] c1 j by simp
    have b: "c + j \<le> tk_count (cache_at m1 i)" "tk_count (cache_at m1 i) < 2 ^ TOKEN_BITS"
      using c1 j n c_def i_def by simp_all
    from seek_ok [OF 1(2) _ _ b] i 1(4) a i_def obtain m2 where
      2: "seek_token m1 (mk_offset i (c + j)) y = Some (SUCCESS, m2, clear_lookahead y)" "tcm_ok m2"
        "active m2 = i" "cache_at m2 i = (cache_at m1 i)\<lparr>tk_pos := c + j\<rparr>" by auto
    have "take (n - j) (drop (c + j) (toks (cache_at m1 i))) = drop j ts" using 1(5,6) c0 by simp
    moreover have "toks (cache_at m2 i) = toks (cache_at m1 i)" using 2(4) by (simp add: toks_def)
    moreover have "\<exists>m3. read_tokens (n - j) lex_scan m2 s1 =
        Some (take (n - j) (drop (tk_pos (cache_at m2 (active m2))) (toks (cache_at m2 (active m2)))), m3, s1)"
      by (rule read_tokens_cached [OF 2(2)]) (use 2(3,4) c1 j in simp)
    ultimately show ?thesis using 2 o by auto
  qed
  then show ?thesis using 1(1,5) by blast
qed

definition tcm_example :: tcm where
  "tcm_example = tcm_init \<lparr>token_caches = [], active = 0, tcm_max = 0, tcm_initialized = 0, tc = 0, last_token_type = 0\<rparr>"

lemma tcm_example_ok: "tcm_ok tcm_example"
  unfolding tcm_example_def by (rule tcm_init_ok)

lemma tcm_example_start: "active tcm_example = 0" "tcm_initialized tcm_example = 1"
    "cache_at tcm_example 0 = tc_init TOKEN_CACHE_BLOCK_SIZE"
  by (simp_all add: tcm_example_def tcm_init_def cache_at_def TOKEN_CACHES_BLOCK_SIZE_def)

lemma untag_inject: "untag t = untag u \<Longrightarrow> tk_offset t = tk_offset u \<Longrightarrow> t = u"
  by (cases t; cases u) (simp add: untag_def)

definition scan_example :: "nat \<Rightarrow> lexed \<times> nat" where
  "scan_example n = (\<lparr>lx_type = int n, lx_value = TLong 0, lx_included = False, lx_lineno = n, lx_text = []\<rparr>, n + 1)"

lemma scan_example_ok: "scan_ok 3 scan_example 60"
  by (simp add: scan_example_def numeral_3_eq_3 DONE_EVAL_def)

lemma tc_init_empty: "tk_pos (tc_init n) = 0" "tk_count (tc_init n) = 0" "toks (tc_init n) = []"
  by (simp_all add: tc_init_def toks_def)

theorem token_replay_witness:
  "\<exists>ts m1 s1. read_tokens 3 scan_example tcm_example 60 = Some (ts, m1, s1) \<and>
    (\<exists>m2 m3. seek_token m1 (tk_offset (ts ! 1)) (Some 5) = Some (SUCCESS, m2, Some YYEMPTY) \<and>
       read_tokens 2 scan_example m2 s1 = Some (drop 1 ts, m3, s1))"
proof -
  obtain ts m1 s1 where r: "read_tokens 3 scan_example tcm_example 60 = Some (ts, m1, s1)"
    "\<forall>j < 3. \<exists>m2 m3. seek_token m1 (tk_offset (ts ! j)) (Some 5) = Some (SUCCESS, m2, clear_lookahead (Some 5)) \<and>
       read_tokens (3 - j) scan_example m2 s1 = Some (drop j ts, m3, s1)"
    using token_replay [OF tcm_example_ok, of 3 scan_example 60 "Some 5"] tcm_example_start scan_example_ok
    by (auto simp: TOKEN_BITS_def tc_init_empty)
  have "1 < (3::nat)" "3 - 1 = (2::nat)" by simp_all
  then have "\<exists>m2 m3. seek_token m1 (tk_offset (ts ! 1)) (Some 5) = Some (SUCCESS, m2, clear_lookahead (Some 5)) \<and>
       read_tokens 2 scan_example m2 s1 = Some (drop 1 ts, m3, s1)" using r(2) by metis
  then show ?thesis using r(1) by (simp add: clear_lookahead_def)
qed

text \<open>C23: \<open>tc_switch\<close> exchanges the tokens before \<open>middle\<close> with those behind it and numbers them anew;
  doing it twice with the matching middle restores the cache.  Nothing else changes.\<close>

theorem token_switch:
  assumes "tcm_ok m" and "k < tcm_initialized m" and "k < 2048" and "a \<le> i" and "i \<le> e"
    and "e < tk_count (cache_at m k)" and "tk_count (cache_at m k) \<le> 2 ^ TOKEN_BITS"
  shows "\<exists>m' m''. tc_switch m (mk_offset k a) (mk_offset k e) (mk_offset k i) = Some (SUCCESS, m') \<and> tcm_ok m' \<and>
     map untag (toks (cache_at m' k)) = switch_list a i e (map untag (toks (cache_at m k))) \<and>
     (\<forall>j. j \<noteq> k \<longrightarrow> cache_at m' j = cache_at m j) \<and>
     tc_switch m' (mk_offset k a) (mk_offset k e) (mk_offset k (a + (e - i))) = Some (SUCCESS, m'') \<and>
     toks (cache_at m'' k) = toks (cache_at m k)"
proof -
  note ok = assms(1) and k = assms(2,3) and b = assms(4-7)
  from tc_switch_ok [OF ok k b] obtain m' where
    1: "tc_switch m (mk_offset k a) (mk_offset k e) (mk_offset k i) = Some (SUCCESS, m')" "tcm_ok m'"
      "map untag (toks (cache_at m' k)) = switch_list a i e (map untag (toks (cache_at m k)))"
      "tk_count (cache_at m' k) = tk_count (cache_at m k)" "tcm_initialized m' = tcm_initialized m"
      "\<forall>j. j \<noteq> k \<longrightarrow> cache_at m' j = cache_at m j" by blast
  have "k < tcm_initialized m'" "a \<le> a + (e - i)" "a + (e - i) \<le> e" using k b 1(5) by simp_all
  from tc_switch_ok [OF 1(2) this(1) k(2) this(2,3)] b 1(4) obtain m'' where
    2: "tc_switch m' (mk_offset k a) (mk_offset k e) (mk_offset k (a + (e - i))) = Some (SUCCESS, m'')" "tcm_ok m''"
      "map untag (toks (cache_at m'' k)) = switch_list a (a + (e - i)) e (map untag (toks (cache_at m' k)))"
      "tk_count (cache_at m'' k) = tk_count (cache_at m' k)" "tcm_initialized m'' = tcm_initialized m'" by auto
  have c: "cache_ok k (cache_at m k)" "cache_ok k (cache_at m'' k)"
    using tcm_ok_cache ok 2(2) k(1) 1(5) 2(5) by simp_all
  have l: "length (toks (cache_at m k)) = tk_count (cache_at m k)" by (rule length_toks [OF c(1)])
  have u: "map untag (toks (cache_at m'' k)) = map untag (toks (cache_at m k))"
    using 2(3) 1(3) switch_list_twice [OF b(1,2), of "map untag (toks (cache_at m k))"] b(3) l by simp
  have "toks (cache_at m'' k) = toks (cache_at m k)"
  proof (rule nth_equalityI)
    show ll: "length (toks (cache_at m'' k)) = length (toks (cache_at m k))" using u map_eq_imp_length_eq by blast
    fix j assume j: "j < length (toks (cache_at m'' k))"
    have "untag (toks (cache_at m'' k) ! j) = untag (toks (cache_at m k) ! j)" using u j ll by (metis nth_map)
    moreover have "tk_offset (toks (cache_at m'' k) ! j) = tk_offset (toks (cache_at m k) ! j)"
      using toks_offset [OF c(1), of j] toks_offset [OF c(2), of j] j ll l 1(4) 2(4) by simp
    ultimately show "toks (cache_at m'' k) ! j = toks (cache_at m k) ! j" by (rule untag_inject)
  qed
  then show ?thesis using 1 2(1) by blast
qed

theorem token_switch_witness:
  "\<exists>m m' m''. tcm_ok m \<and> tk_count (cache_at m 0) = 3 \<and>
     tc_switch m (mk_offset 0 0) (mk_offset 0 2) (mk_offset 0 1) = Some (SUCCESS, m') \<and>
     tc_switch m' (mk_offset 0 0) (mk_offset 0 2) (mk_offset 0 1) = Some (SUCCESS, m'') \<and>
     toks (cache_at m'' 0) = toks (cache_at m 0)"
proof -
  obtain ts m s where r: "tcm_ok m" "tcm_initialized m = 1" "length ts = 3" "toks (cache_at m 0) = ts"
    using read_tokens_scanned [OF tcm_example_ok, of 3 scan_example 60] tcm_example_start scan_example_ok
    by (auto simp: tc_init_empty)
  have c: "tk_count (cache_at m 0) = 3" using length_toks [OF tcm_ok_cache [OF r(1)], of 0] r(2-4) by simp
  show ?thesis
    using token_switch [OF r(1), of 0 0 1 2] r(1,2) c by (auto simp: TOKEN_BITS_def)
qed

text \<open>The number of a token is unique to its cache and position, and \<open>TOKEN_OFFSET\<close> gives back the
  position; but \<open>TC_OFFSET\<close> gives back the cache only below 2048: the caches 2048 to 4095, which
  \<open>tcm_new\<close> does hand out, come out negative, in front of the array.\<close>

theorem token_offsets:
  assumes "a < 4096" and "n < 2 ^ TOKEN_BITS"
  shows "TOKEN_OFFSET (mk_offset a n) = n \<and>
    TC_OFFSET (mk_offset a n) = (if a < 2048 then int a else int a - 4096) \<and>
    unat (mk_offset a n) = a * 2 ^ TOKEN_BITS + n"
  using TOKEN_OFFSET_mk [OF assms] TC_OFFSET_mk [OF assms] unat_mk_offset [OF assms] by simp

theorem token_offsets_witness: "TC_OFFSET (mk_offset 2048 7) = - 2048 \<and> TOKEN_OFFSET (mk_offset 2048 7) = 7"
  using token_offsets [of 2048 7] by (simp add: TOKEN_BITS_def)

end
