(* ===== verification/Codec.thy ===== *)
theory Codec
  imports PHP_Prelude
begin

text \<open>
  What an encoding promises: decoding gives the text back.  The locale is instantiated by the
  encodings of the string library (base64, the two URL encodings, slashes).  The rest of the theory
  is arithmetic on bytes, as the C code does it with shifts and masks.
\<close>

lemma c_str_no_nul: "NUL \<notin> set s \<Longrightarrow> c_str s = s"
  unfolding c_str_def takeWhile_eq_all_conv by auto

subsection \<open>The contract of an encoding\<close>

text \<open>\<open>ok s\<close>: the texts the encoding is meant for; \<open>dec\<close> answers \<open>None\<close> for an error.\<close>

locale codec =
  fixes ok :: "string \<Rightarrow> bool" and enc :: "string \<Rightarrow> string" and dec :: "string \<Rightarrow> string option"
    and bound :: "nat \<Rightarrow> nat"
  assumes dec_enc: "ok s \<Longrightarrow> dec (enc s) = Some s"
    and enc_length: "length (enc s) \<le> bound (length s)"
    and enc_no_nul: "ok s \<Longrightarrow> NUL \<notin> set (enc s)"
begin

lemma enc_inject: "ok s \<Longrightarrow> ok t \<Longrightarrow> enc s = enc t \<Longrightarrow> s = t"
  using dec_enc by (metis option.inject)

text \<open>The encoded text survives being handled as a C string.\<close>

lemma dec_enc_c_str: "ok s \<Longrightarrow> dec (c_str (enc s)) = Some s"
proof -
  assume "ok s"
  then have "c_str (enc s) = enc s" by (simp add: c_str_no_nul enc_no_nul)
  then show "dec (c_str (enc s)) = Some s" using dec_enc [OF \<open>ok s\<close>] by simp
qed

end

subsection \<open>Searching a character\<close>

text \<open>\<open>strchr\<close>, as an index.\<close>

fun index_of :: "char \<Rightarrow> string \<Rightarrow> nat option" where
  "index_of c [] = None"
| "index_of c (d # ds) = (if c = d then Some 0 else map_option Suc (index_of c ds))"

lemma index_of_None: "index_of c s = None \<longleftrightarrow> c \<notin> set s"
  by (induction s) auto

lemma index_of_Some: "index_of c s = Some i \<longleftrightarrow> i < length s \<and> s ! i = c \<and> c \<notin> set (take i s)"
proof (induction s arbitrary: i)
  case (Cons d ds)
  then show ?case by (cases i) auto
qed simp

subsection \<open>Bytes\<close>

lemma uchar_less [simp]: "uchar c < 256"
  unfolding uchar_def by (rule nat_of_char_less_256)

lemma char_of_uchar [simp]: "char_of (uchar c) = c"
  by (simp add: uchar_def)

lemma uchar_char_of: "n < 256 \<Longrightarrow> uchar (char_of n) = n"
  by (simp add: uchar_def of_char_of)

lemma uchar_inject: "uchar c = uchar d \<longleftrightarrow> c = d"
  by (simp add: uchar_def)

lemma or_add:
  fixes x y :: nat
  assumes y: "y < 2 ^ n"
  shows "(x * 2 ^ n) OR y = x * 2 ^ n + y"
proof -
  have "\<not> bit (push_bit n x) k \<or> \<not> bit y k" for k
  proof (cases "k < n")
    case False
    then have "(2::nat) ^ n \<le> 2 ^ k" by (simp add: power_increasing)
    with y have "y < 2 ^ k" by (rule less_le_trans)
    then have "y div 2 ^ k = 0" by simp
    then show ?thesis by (simp add: bit_iff_odd)
  qed (simp add: bit_push_bit_iff)
  from disjunctive_add [OF this] show ?thesis by (simp add: push_bit_eq_mult)
qed

lemma and_mask:
  "(x::nat) AND 3 = x mod 4" "x AND 15 = x mod 16" "x AND 63 = x mod 64"
proof -
  have "x AND mask n = x mod 2 ^ n" for n by (simp add: take_bit_eq_mod flip: take_bit_eq_mask)
  from this [of 2] this [of 4] this [of 6]
  show "x AND 3 = x mod 4" "x AND 15 = x mod 16" "x AND 63 = x mod 64"
    by (simp_all add: mask_eq_exp_minus_1)
qed

lemma shifts:
  "drop_bit 2 (x::nat) = x div 4" "drop_bit 4 x = x div 16" "drop_bit 6 x = x div 64"
  "push_bit 2 x = x * 4" "push_bit 4 x = x * 16" "push_bit 6 x = x * 64"
  by (simp_all add: drop_bit_eq_div push_bit_eq_mult)

lemma or_low:
  "y < 4 \<Longrightarrow> (x * 4) OR y = x * 4 + (y::nat)" "y < 16 \<Longrightarrow> (x * 16) OR y = x * 16 + y"
  "y < 64 \<Longrightarrow> (x * 64) OR y = x * 64 + y"
  using or_add [of y 2 x] or_add [of y 4 x] or_add [of y 6 x] by simp_all

end
