(* ===== verification/Base64.thy ===== *)
theory Base64
  imports Codec
begin

text \<open>
  \<open>functions/base64.c\<close>.  The output buffer of the decoder is a list of bytes with whatever
  \<open>emalloc\<close> left in it; writing or reading outside it is \<open>None\<close>.
\<close>

definition base64_table :: string where
  "base64_table = ''ABCDEFGHIJKLMNOPQRSTUVWXYZabcdefghijklmnopqrstuvwxyz0123456789+/''"

definition base64_pad :: char where "base64_pad = CHR ''=''"

definition b64 :: "nat \<Rightarrow> char" where
  "b64 n = base64_table ! n"

subsection \<open>Encoding\<close>

text \<open>The loop over three octets, and the tail.\<close>

fun base64_encode :: "string \<Rightarrow> string" where
  "base64_encode (a # b # c # s) =
     b64 (drop_bit 2 (uchar a)) #
     b64 (push_bit 4 (uchar a AND 3) + drop_bit 4 (uchar b)) #
     b64 (push_bit 2 (uchar b AND 15) + drop_bit 6 (uchar c)) #
     b64 (uchar c AND 63) # base64_encode s"
| "base64_encode [] = []"
| "base64_encode [a, b] =
     [b64 (drop_bit 2 (uchar a)), b64 (push_bit 4 (uchar a AND 3) + drop_bit 4 (uchar b)),
      b64 (push_bit 2 (uchar b AND 15)), base64_pad]"
| "base64_encode [a] =
     [b64 (drop_bit 2 (uchar a)), b64 (push_bit 4 (uchar a AND 3)), base64_pad, base64_pad]"

text \<open>
  The size of the block the encoder allocates, an \<open>int\<close> that wraps; no block has a negative size.  Writing
  behind the block is \<open>None\<close>.
\<close>

definition base64_encode_size :: "nat \<Rightarrow> int" where
  "base64_encode_size n = int_of_long ((int n + 3 - int n mod 3) * 4) sdiv 3 + 1"

definition php3_base64_encode :: "string \<Rightarrow> string option" where
  "php3_base64_encode s =
     (if int (length (base64_encode s)) < base64_encode_size (length s) then Some (base64_encode s) else None)"

subsection \<open>Decoding\<close>

definition or_byte :: "string \<Rightarrow> nat \<Rightarrow> nat \<Rightarrow> string option" where
  "or_byte r j x = do { c \<leftarrow> arr_get r j; arr_set r j (char_of (uchar c OR x)) }"

definition put_byte :: "string \<Rightarrow> nat \<Rightarrow> nat \<Rightarrow> string option" where
  "put_byte r j x = arr_set r j (char_of x)"

text \<open>The \<open>switch (i % 4)\<close>: the new \<open>j\<close> and the buffer.\<close>

definition b64_switch :: "nat \<Rightarrow> nat \<Rightarrow> nat \<Rightarrow> string \<Rightarrow> (nat \<times> string) option" where
  "b64_switch i ch j r =
     (if i mod 4 = 0 then do { r1 \<leftarrow> put_byte r j (push_bit 2 ch); Some (j, r1) }
      else if i mod 4 = 1 then do {
        r1 \<leftarrow> or_byte r j (drop_bit 4 ch);
        r2 \<leftarrow> put_byte r1 (j + 1) (push_bit 4 (ch AND 15)); Some (j + 1, r2) }
      else if i mod 4 = 2 then do {
        r1 \<leftarrow> or_byte r j (drop_bit 2 ch);
        r2 \<leftarrow> put_byte r1 (j + 1) (push_bit 6 (ch AND 3)); Some (j + 1, r2) }
      else do { r1 \<leftarrow> or_byte r j ch; Some (j + 1, r1) })"

text \<open>
  The loop: \<open>strchr(base64_table, ch)\<close> gives the value of a character (the NUL at the end of the
  table is never sought).  The result is whether it ended at
  a pad, \<open>i\<close>, \<open>j\<close>, the buffer.  The input ends at its NUL.
\<close>

fun b64_loop :: "string \<Rightarrow> nat \<Rightarrow> nat \<Rightarrow> string \<Rightarrow> (bool \<times> nat \<times> nat \<times> string) option" where
  "b64_loop [] i j r = Some (False, i, j, r)"
| "b64_loop (ch # cs) i j r =
     (if ch = NUL then Some (False, i, j, r)
      else if ch = base64_pad then Some (True, i, j, r)
      else case index_of (if ch = CHR '' '' then CHR ''+'' else ch) base64_table of
        None \<Rightarrow> b64_loop cs i j r
      | Some n \<Rightarrow> do { (j', r') \<leftarrow> b64_switch i n j r; b64_loop cs (i + 1) j' r' })"

text \<open>\<open>Some None\<close> is the answer \<open>NULL\<close> (\<open>false\<close> to the script).\<close>

definition php3_base64_decode :: "string \<Rightarrow> string \<Rightarrow> string option option" where
  "php3_base64_decode buf s = do {
     (pad, i, j, r) \<leftarrow> b64_loop s 0 0 (take (length s + 1) buf);
     if pad \<and> i mod 4 < 2 then Some None
     else do {
       let k = (if pad \<and> i mod 4 = 2 then j + 1 else j);
       (k', r1) \<leftarrow> (if pad then do { r1 \<leftarrow> put_byte r k 0; Some (k + 1, r1) } else Some (k, r));
       r2 \<leftarrow> put_byte r1 k' 0;
       Some (Some (take j r2))
     }
   }"

subsection \<open>The alphabet\<close>

lemma b64_index: "n < 64 \<Longrightarrow> index_of (b64 n) base64_table = Some n"
proof -
  have "\<forall>n \<in> set [0..<64]. index_of (b64 n) base64_table = Some n" by code_simp
  then show "n < 64 \<Longrightarrow> index_of (b64 n) base64_table = Some n" by simp
qed

lemma b64_plain: "n < 64 \<Longrightarrow> b64 n \<noteq> NUL \<and> b64 n \<noteq> base64_pad \<and> b64 n \<noteq> CHR '' ''"
proof -
  have "\<forall>n \<in> set [0..<64]. b64 n \<noteq> NUL \<and> b64 n \<noteq> base64_pad \<and> b64 n \<noteq> CHR '' ''" by code_simp
  then show "n < 64 \<Longrightarrow> b64 n \<noteq> NUL \<and> b64 n \<noteq> base64_pad \<and> b64 n \<noteq> CHR '' ''" by simp
qed

lemma b64_loop_char:
  "n < 64 \<Longrightarrow> b64_loop (b64 n # cs) i j r = do { (j', r') \<leftarrow> b64_switch i n j r; b64_loop cs (i + 1) j' r' }"
  using b64_index [of n] b64_plain [of n] by simp

subsection \<open>Round trip\<close>

lemma bytes_div [simp]: "uchar a div 4 < 64" "uchar a div 16 < 16" "uchar a div 64 < 4"
  using uchar_less [of a] by (simp_all add: less_mult_imp_div_less)

lemma digits_less: "x < 4 \<Longrightarrow> y < 16 \<Longrightarrow> x * 16 + y < (64::nat)" "x < 16 \<Longrightarrow> y < 4 \<Longrightarrow> x * 4 + y < (64::nat)"
  by simp_all

lemma sextets:
  "drop_bit 2 (uchar a) < 64" "push_bit 4 (uchar a AND 3) < 64" "push_bit 2 (uchar a AND 15) < 64"
  "uchar a AND 63 < 64"
  "push_bit 4 (uchar a AND 3) + drop_bit 4 (uchar b) < 64"
  "push_bit 2 (uchar a AND 15) + drop_bit 6 (uchar b) < 64"
  using digits_less [of "uchar a mod 4" "uchar b div 16"] digits_less [of "uchar a mod 16" "uchar b div 64"]
  by (simp_all add: shifts and_mask)

lemma octet1: "push_bit 2 (drop_bit 2 (uchar a)) OR drop_bit 4 (push_bit 4 (uchar a AND 3) + drop_bit 4 (uchar b)) = uchar a"
proof -
  have "((uchar a mod 4) * 16 + uchar b div 16) div 16 = uchar a mod 4" by simp
  then show ?thesis by (simp add: shifts and_mask or_low)
qed

lemma octet1': "push_bit 2 (drop_bit 2 (uchar a)) OR drop_bit 4 (push_bit 4 (uchar a AND 3)) = uchar a"
  by (simp add: shifts and_mask or_low)

lemma octet2:
  "push_bit 4 ((push_bit 4 (uchar a AND 3) + drop_bit 4 (uchar b)) AND 15) OR
     drop_bit 2 (push_bit 2 (uchar b AND 15) + drop_bit 6 (uchar c)) = uchar b"
proof -
  have "((uchar a mod 4) * 16 + uchar b div 16) mod 16 = uchar b div 16"
    by simp
  moreover have "((uchar b mod 16) * 4 + uchar c div 64) div 4 = uchar b mod 16" by simp
  ultimately show ?thesis by (simp add: shifts and_mask or_low)
qed

lemma octet2':
  "push_bit 4 ((push_bit 4 (uchar a AND 3) + drop_bit 4 (uchar b)) AND 15) OR
     drop_bit 2 (push_bit 2 (uchar b AND 15)) = uchar b"
proof -
  have "((uchar a mod 4) * 16 + uchar b div 16) mod 16 = uchar b div 16"
    by simp
  then show ?thesis by (simp add: shifts and_mask or_low)
qed

lemma octet3: "push_bit 6 ((push_bit 2 (uchar b AND 15) + drop_bit 6 (uchar c)) AND 3) OR (uchar c AND 63) = uchar c"
proof -
  have "((uchar b mod 16) * 4 + uchar c div 64) mod 4 = uchar c div 64" by simp
  then show ?thesis by (simp add: shifts and_mask or_low)
qed

lemma small_bytes:
  "push_bit 2 (drop_bit 2 (uchar a)) < 256" "push_bit 4 (x AND 15) < (256::nat)" "push_bit 6 (x AND 3) < (256::nat)"
  using bytes_div(1) [of a] mod_less_divisor [of 16 x] mod_less_divisor [of 4 x]
  by (simp_all add: shifts and_mask del: bytes_div)

lemma or_byte_ok:
  "j < length r \<Longrightarrow> r ! j = char_of x \<Longrightarrow> x < 256 \<Longrightarrow> x OR y = uchar c \<Longrightarrow> or_byte r j y = Some (r[j := c])"
  by (simp add: or_byte_def uchar_char_of)

lemma put_byte_ok: "j < length r \<Longrightarrow> put_byte r j x = Some (r[j := char_of x])"
  by (simp add: put_byte_def)

lemma mod4: "i mod 4 = (0::nat) \<Longrightarrow> (i + 1) mod 4 = 1 \<and> (i + 2) mod 4 = 2 \<and> (i + 3) mod 4 = 3 \<and> (i + 4) mod 4 = 0"
  by presburger

lemma add34: "n + 3 = Suc (Suc (Suc n))" "n + 4 = Suc (Suc (Suc (Suc n)))"
  by simp_all

text \<open>Four characters of the code put three octets into the buffer.\<close>

lemma b64_loop_group:
  assumes i: "i mod 4 = 0" and l: "j + 2 < length r"
  shows "b64_loop (base64_encode (a # b # c # s)) i j r =
    b64_loop (base64_encode s) (i + 4) (j + 3) (r[j := a, j + 1 := b, j + 2 := c])"
proof -
  let ?x0 = "drop_bit 2 (uchar a)" and ?x1 = "push_bit 4 (uchar a AND 3) + drop_bit 4 (uchar b)"
    and ?x2 = "push_bit 2 (uchar b AND 15) + drop_bit 6 (uchar c)" and ?x3 = "uchar c AND 63"
  define r1 where "r1 = r[j := char_of (push_bit 2 ?x0)]"
  define r2 where "r2 = r1[j := a, j + 1 := char_of (push_bit 4 (?x1 AND 15))]"
  define r3 where "r3 = r2[j + 1 := b, j + 2 := char_of (push_bit 6 (?x2 AND 3))]"
  note m = mod4 [OF i]
  have s0: "b64_switch i ?x0 j r = Some (j, r1)" using i l by (simp add: b64_switch_def put_byte_ok r1_def)
  have "or_byte r1 j (drop_bit 4 ?x1) = Some (r1[j := a])"
    by (rule or_byte_ok [of _ _ "push_bit 2 ?x0"]) (use l octet1 [of a b] small_bytes(1) [of a] in \<open>simp_all add: r1_def\<close>)
  then have s1: "b64_switch (i + 1) ?x1 j r1 = Some (j + 1, r2)"
    using m l by (simp add: b64_switch_def put_byte_ok r1_def r2_def)
  have "or_byte r2 (j + 1) (drop_bit 2 ?x2) = Some (r2[j + 1 := b])"
    by (rule or_byte_ok [of _ _ "push_bit 4 (?x1 AND 15)"])
      (use l octet2 [of a b c] small_bytes(2) [of ?x1] in \<open>simp_all add: r1_def r2_def\<close>)
  then have s2: "b64_switch (i + 2) ?x2 (j + 1) r2 = Some (j + 2, r3)"
    using m l by (simp add: b64_switch_def put_byte_ok r1_def r2_def r3_def)
  have "or_byte r3 (j + 2) ?x3 = Some (r3[j + 2 := c])"
    by (rule or_byte_ok [of _ _ "push_bit 6 (?x2 AND 3)"])
      (use l octet3 [of b c] small_bytes(3) [of ?x2] in \<open>simp_all add: r1_def r2_def r3_def\<close>)
  then have s3: "b64_switch (i + 3) ?x3 (j + 2) r3 = Some (j + 3, r3[j + 2 := c])"
    using m by (simp add: b64_switch_def)
  have "r3[j + 2 := c] = r[j := a, j + 1 := b, j + 2 := c]"
    by (simp add: r3_def r2_def r1_def list_update_swap)
  then show ?thesis
    using s0 s1 s2 s3 sextets(1) [of a] sextets(5) [of a b] sextets(6) [of b c] sextets(4) [of c]
    by (simp add: b64_loop_char add34 del: b64_loop.simps)
qed

lemma b64_loop_tail2:
  assumes i: "i mod 4 = 0" and l: "j + 2 < length r"
  shows "\<exists>r'. b64_loop (base64_encode [a, b]) i j r = Some (True, i + 3, j + 2, r') \<and> length r' = length r \<and>
    take (j + 2) r' = take j r @ [a, b]"
proof -
  let ?x0 = "drop_bit 2 (uchar a)" and ?x1 = "push_bit 4 (uchar a AND 3) + drop_bit 4 (uchar b)"
    and ?x2 = "push_bit 2 (uchar b AND 15)"
  define r1 where "r1 = r[j := char_of (push_bit 2 ?x0)]"
  define r2 where "r2 = r1[j := a, j + 1 := char_of (push_bit 4 (?x1 AND 15))]"
  define r3 where "r3 = r2[j + 1 := b, j + 2 := char_of (push_bit 6 (?x2 AND 3))]"
  note m = mod4 [OF i]
  have s0: "b64_switch i ?x0 j r = Some (j, r1)" using i l by (simp add: b64_switch_def put_byte_ok r1_def)
  have "or_byte r1 j (drop_bit 4 ?x1) = Some (r1[j := a])"
    by (rule or_byte_ok [of _ _ "push_bit 2 ?x0"]) (use l octet1 [of a b] small_bytes(1) [of a] in \<open>simp_all add: r1_def\<close>)
  then have s1: "b64_switch (i + 1) ?x1 j r1 = Some (j + 1, r2)"
    using m l by (simp add: b64_switch_def put_byte_ok r1_def r2_def)
  have "or_byte r2 (j + 1) (drop_bit 2 ?x2) = Some (r2[j + 1 := b])"
    by (rule or_byte_ok [of _ _ "push_bit 4 (?x1 AND 15)"])
      (use l octet2' [of a b] small_bytes(2) [of ?x1] in \<open>simp_all add: r1_def r2_def\<close>)
  then have s2: "b64_switch (i + 2) ?x2 (j + 1) r2 = Some (j + 2, r3)"
    using m l by (simp add: b64_switch_def put_byte_ok r1_def r2_def r3_def)
  have "take (j + 2) r3 = take j r @ [a, b]"
    using l by (intro nth_equalityI) (auto simp: r3_def r2_def r1_def nth_append nth_list_update less_Suc_eq)
  moreover have "b64_loop [base64_pad] (i + 3) (j + 2) r3 = Some (True, i + 3, j + 2, r3)"
    by (simp add: base64_pad_def NUL_def)
  ultimately show ?thesis
    using s0 s1 s2 sextets(1) [of a] sextets(5) [of a b] sextets(3) [of b]
    by (simp add: b64_loop_char r3_def r2_def r1_def add34 del: b64_loop.simps)
qed

lemma b64_loop_tail1:
  assumes i: "i mod 4 = 0" and l: "j + 1 < length r"
  shows "\<exists>r'. b64_loop (base64_encode [a]) i j r = Some (True, i + 2, j + 1, r') \<and> length r' = length r \<and>
    take (j + 1) r' = take j r @ [a]"
proof -
  let ?x0 = "drop_bit 2 (uchar a)" and ?x1 = "push_bit 4 (uchar a AND 3)"
  define r1 where "r1 = r[j := char_of (push_bit 2 ?x0)]"
  define r2 where "r2 = r1[j := a, j + 1 := char_of (push_bit 4 (?x1 AND 15))]"
  note m = mod4 [OF i]
  have s0: "b64_switch i ?x0 j r = Some (j, r1)" using i l by (simp add: b64_switch_def put_byte_ok r1_def)
  have "or_byte r1 j (drop_bit 4 ?x1) = Some (r1[j := a])"
    by (rule or_byte_ok [of _ _ "push_bit 2 ?x0"]) (use l octet1' [of a] small_bytes(1) [of a] in \<open>simp_all add: r1_def\<close>)
  then have s1: "b64_switch (i + 1) ?x1 j r1 = Some (j + 1, r2)"
    using m l by (simp add: b64_switch_def put_byte_ok r1_def r2_def)
  have "take (j + 1) r2 = take j r @ [a]"
    using l by (intro nth_equalityI) (auto simp: r2_def r1_def nth_append nth_list_update less_Suc_eq)
  moreover have "b64_loop [base64_pad, base64_pad] (i + 2) (j + 1) r2 = Some (True, i + 2, j + 1, r2)"
    by (simp add: base64_pad_def NUL_def)
  ultimately show ?thesis
    using s0 s1 sextets(1) [of a] sextets(2) [of a]
    by (simp add: b64_loop_char r2_def r1_def del: b64_loop.simps)
qed

lemma b64_loop_encode:
  "i mod 4 = 0 \<Longrightarrow> j + length s < length r \<Longrightarrow>
   \<exists>r' i'. b64_loop (base64_encode s) i j r = Some (length s mod 3 \<noteq> 0, i', j + length s, r') \<and>
     length r' = length r \<and> take (j + length s) r' = take j r @ s \<and>
     (length s mod 3 = 2 \<longrightarrow> i' mod 4 = 3) \<and> (length s mod 3 = 1 \<longrightarrow> i' mod 4 = 2)"
proof (induction s arbitrary: i j r rule: base64_encode.induct)
  case (1 a b c s)
  let ?r = "r[j := a, j + 1 := b, j + 2 := c]"
  have l: "j + 2 < length r" "(j + 3) + length s < length ?r" using "1.prems"(2) by simp_all
  have "(i + 4) mod 4 = 0" using "1.prems"(1) by simp
  from "1.IH" [OF this l(2)] obtain r' i' where r: "b64_loop (base64_encode s) (i + 4) (j + 3) ?r =
      Some (length s mod 3 \<noteq> 0, i', j + 3 + length s, r')" "length r' = length ?r"
    "take (j + 3 + length s) r' = take (j + 3) ?r @ s"
    "(length s mod 3 = 2 \<longrightarrow> i' mod 4 = 3)" "(length s mod 3 = 1 \<longrightarrow> i' mod 4 = 2)" by blast
  have t: "take (j + 3) ?r = take j r @ [a, b, c]"
    using l by (intro nth_equalityI) (auto simp: nth_append nth_list_update less_Suc_eq numeral_3_eq_3)
  have n: "length (a # b # c # s) mod 3 = length s mod 3" "j + length (a # b # c # s) = j + 3 + length s"
    by simp_all
  show ?case
    unfolding n b64_loop_group [OF "1.prems"(1) l(1)] using r t by (intro exI [of _ r'] exI [of _ i']) simp
next
  case 2
  then show ?case by simp
next
  case (3 a b)
  from b64_loop_tail2 [OF "3.prems"(1), of j r a b] "3.prems"(2) mod4 [OF "3.prems"(1)]
  show ?case by (auto simp del: base64_encode.simps)
next
  case (4 a)
  from b64_loop_tail1 [OF "4.prems"(1), of j r a] "4.prems"(2) mod4 [OF "4.prems"(1)]
  show ?case by (auto simp del: base64_encode.simps)
qed

lemma length_base64_encode: "length (base64_encode s) = 4 * ((length s + 2) div 3)"
  by (induction s rule: base64_encode.induct) (simp_all, presburger)

lemma b64_nul: "n < 64 \<Longrightarrow> NUL \<noteq> b64 n"
  using b64_plain [of n] by metis

lemma pad_nul: "NUL \<noteq> base64_pad"
  by (simp add: base64_pad_def NUL_def)

lemma base64_no_nul: "NUL \<notin> set (base64_encode s)"
proof (induction s rule: base64_encode.induct)
  case (1 a b c s)
  then show ?case
    using sextets(1) [of a] sextets(5) [of a b] sextets(6) [of b c] sextets(4) [of c] by (auto simp: b64_nul)
next
  case (3 a b)
  then show ?case
    using sextets(1) [of a] sextets(5) [of a b] sextets(3) [of b] by (auto simp: b64_nul pad_nul)
next
  case (4 a)
  then show ?case using sextets(1) [of a] sextets(2) [of a] by (auto simp: b64_nul pad_nul)
qed simp

lemma base64_round_trip:
  assumes "length (base64_encode s) < length buf"
  shows "php3_base64_decode buf (base64_encode s) = Some (Some s)"
proof -
  let ?e = "base64_encode s"
  let ?r = "take (length ?e + 1) buf"
  have lr: "length ?r = length ?e + 1" using assms by simp
  have le: "length s \<le> length ?e" "length s mod 3 \<noteq> 0 \<Longrightarrow> length s + 1 \<le> length ?e"
    "length s mod 3 = 1 \<Longrightarrow> length s + 2 \<le> length ?e"
    unfolding length_base64_encode by presburger+
  have "0 + length s < length ?r" using le(1) lr by linarith
  from b64_loop_encode [OF _ this, of 0] lr obtain r i where r: "b64_loop ?e 0 0 ?r = Some (length s mod 3 \<noteq> 0, i, length s, r)"
    "length r = length ?e + 1" "take (length s) r = s"
    "length s mod 3 = 2 \<longrightarrow> i mod 4 = 3" "length s mod 3 = 1 \<longrightarrow> i mod 4 = 2"
    by (metis add_0 append_Nil mod_0 take_0)
  consider "length s mod 3 = 0" | "length s mod 3 = 1" | "length s mod 3 = 2" by linarith
  then show ?thesis
  proof cases
    case 1
    then show ?thesis using r le(1) by (simp add: php3_base64_decode_def put_byte_ok)
  next
    case 2
    then show ?thesis using r le(3) by (simp add: php3_base64_decode_def put_byte_ok)
  next
    case 3
    then show ?thesis using r le(2) by (simp add: php3_base64_decode_def put_byte_ok)
  qed
qed

text \<open>The block of the encoder is large enough as long as its size is an \<open>int\<close>, and too small from there on.\<close>

lemma encode_size:
  "base64_encode_size n = int_of_long (12 * (int (n div 3) + 1)) sdiv 3 + 1" "n div 3 \<le> (n + 2) div 3" "(n + 2) div 3 \<le> n div 3 + 1"
proof -
  define q r where "q = int n div 3" and "r = int n mod 3"
  have "int n = 3 * q + r" by (simp add: q_def r_def)
  then have "(int n + 3 - int n mod 3) * 4 = 12 * (int n div 3 + 1)" unfolding q_def [symmetric] r_def [symmetric] by simp
  then show "base64_encode_size n = int_of_long (12 * (int (n div 3) + 1)) sdiv 3 + 1"
    by (simp only: base64_encode_size_def zdiv_int of_nat_numeral)
  show "n div 3 \<le> (n + 2) div 3" by (rule div_le_mono) simp
  show "(n + 2) div 3 \<le> n div 3 + 1" using div_le_mono [of "n + 2" "n + 3" 3] by simp
qed

lemma base64_encode_fits: "length s \<le> 536870909 \<Longrightarrow> php3_base64_encode s = Some (base64_encode s)"
proof -
  assume "length s \<le> 536870909"
  then have "length s div 3 \<le> 178956969" using div_le_mono [of "length s" 536870909 3] by simp
  then have "base64_encode_size (length s) = 4 * (int (length s div 3) + 1) + 1"
    by (simp add: encode_size int_exact sdiv_pos)
  then show ?thesis using encode_size(3) [of "length s"] by (simp add: php3_base64_encode_def length_base64_encode)
qed

lemma base64_encode_overrun: "536870909 < length s \<Longrightarrow> php3_base64_encode s = None"
proof -
  assume "536870909 < length s"
  then have "178956970 \<le> length s div 3" using div_le_mono [of 536870910 "length s" 3] by simp
  then have q: "178956970 \<le> int (length s div 3)" by simp
  define w where "w = int_of_long (12 * (int (length s div 3) + 1))"
  have "w \<le> 12 * (int (length s div 3) + 1) - 4294967296" unfolding w_def by (rule int_of_long_wraps) (use q in simp)
  then have "w sdiv 3 + 1 \<le> 4 * int (length s div 3)"
  proof (cases "0 \<le> w")
    case False
    then have "w sdiv 3 \<le> 0" by (simp add: signed_divide_int_def pos_imp_zdiv_nonneg_iff)
    then show ?thesis using q by linarith
  qed (simp add: sdiv_pos)
  moreover have "base64_encode_size (length s) = w sdiv 3 + 1" by (simp only: encode_size(1) w_def)
  moreover have "4 * int (length s div 3) \<le> int (length (base64_encode s))"
    using encode_size(2) [of "length s"] by (simp only: length_base64_encode of_nat_mult of_nat_numeral)
  ultimately show ?thesis by (simp add: php3_base64_encode_def)
qed

text \<open>With a buffer of the size the decoder asks for, filled with anything.\<close>

definition base64_decode0 :: "string \<Rightarrow> string option" where
  "base64_decode0 s = do { r \<leftarrow> php3_base64_decode (replicate (length s + 1) NUL) s; r }"

interpretation base64: codec "\<lambda>_. True" base64_encode base64_decode0 "\<lambda>n. 4 * ((n + 2) div 3)"
  by unfold_locales (simp_all add: base64_decode0_def base64_round_trip length_base64_encode base64_no_nul)

end
