(* ===== verification/Url.thy ===== *)
theory Url
  imports Codec
begin

text \<open>
  The URL encodings of \<open>functions/url.c\<close>, on the ASCII branch of the conditional compilation.
  \<open>None\<close> is a write outside the block the encoder allocated.
\<close>

definition hexchars :: string where
  "hexchars = ''0123456789ABCDEF''"

subsection \<open>Encoding\<close>

text \<open>The characters that are escaped: all but letters, digits and \<open>- . _\<close> (and the space, above).\<close>

definition url_special :: "char \<Rightarrow> bool" where
  "url_special c \<longleftrightarrow>
     (let u = uchar c in
      (u < 48 \<and> u \<noteq> 45 \<and> u \<noteq> 46) \<or> (u < 65 \<and> u > 57) \<or> (u > 90 \<and> u < 97 \<and> u \<noteq> 95) \<or> u > 122)"

definition url_escape :: "char \<Rightarrow> string" where
  "url_escape c = [CHR ''%'', hexchars ! drop_bit 4 (uchar c), hexchars ! (uchar c AND 15)]"

definition urlencode_char :: "char \<Rightarrow> string" where
  "urlencode_char c = (if c = CHR '' '' then ''+'' else if url_special c then url_escape c else [c])"

definition rawurlencode_char :: "char \<Rightarrow> string" where
  "rawurlencode_char c = (if url_special c then url_escape c else [c])"

definition urlencoded :: "string \<Rightarrow> string" where
  "urlencoded s = concat (map urlencode_char s)"

definition rawurlencoded :: "string \<Rightarrow> string" where
  "rawurlencoded s = concat (map rawurlencode_char s)"

text \<open>
  \<open>_php3_urlencode\<close> allocates \<open>3 * strlen(s) + 1\<close> bytes and writes the code of all \<open>len\<close> bytes of
  \<open>s\<close> and a NUL; \<open>_php3_rawurlencode\<close> allocates \<open>3 * len + 1\<close>, which is an \<open>int\<close>.  Without a block for the
  code the result is \<open>None\<close>.
\<close>

definition php3_urlencode :: "string \<Rightarrow> string option" where
  "php3_urlencode s =
     (if length (urlencoded s) + 1 \<le> 3 * length (c_str s) + 1 then Some (urlencoded s) else None)"

definition php3_rawurlencode :: "string \<Rightarrow> string option" where
  "php3_rawurlencode s =
     (if int (length (rawurlencoded s)) + 1 \<le> int_of_long (3 * int (length s) + 1) then Some (rawurlencoded s) else None)"

subsection \<open>Decoding\<close>

definition isxdigit :: "char \<Rightarrow> bool" where
  "isxdigit c \<longleftrightarrow> isdigit c \<or> (65 \<le> uchar c \<and> uchar c \<le> 70) \<or> (97 \<le> uchar c \<and> uchar c \<le> 102)"

definition hex_digit :: "char \<Rightarrow> nat" where
  "hex_digit c0 = (let c = tolower c0 in if isdigit c then uchar c - 48 else uchar c - 97 + 10)"

definition php3_htoi :: "char \<Rightarrow> char \<Rightarrow> nat" where
  "php3_htoi a b = hex_digit a * 16 + hex_digit b"

fun php3_rawurldecode :: "string \<Rightarrow> string" where
  "php3_rawurldecode [] = []"
| "php3_rawurldecode (c # cs) =
     (if c = CHR ''%'' \<and> 2 \<le> length cs \<and> isxdigit (cs ! 0) \<and> isxdigit (cs ! 1) then
        char_of (php3_htoi (cs ! 0) (cs ! 1)) # php3_rawurldecode (drop 2 cs)
      else c # php3_rawurldecode cs)"

fun php3_urldecode :: "string \<Rightarrow> string" where
  "php3_urldecode [] = []"
| "php3_urldecode (c # cs) =
     (if c = CHR ''+'' then CHR '' '' # php3_urldecode cs
      else if c = CHR ''%'' \<and> 2 \<le> length cs \<and> isxdigit (cs ! 0) \<and> isxdigit (cs ! 1) then
        char_of (php3_htoi (cs ! 0) (cs ! 1)) # php3_urldecode (drop 2 cs)
      else c # php3_urldecode cs)"

subsection \<open>Round trips\<close>

lemma hex_round: "n < 16 \<Longrightarrow> isxdigit (hexchars ! n) \<and> hex_digit (hexchars ! n) = n \<and> hexchars ! n \<noteq> NUL"
proof -
  have "\<forall>n \<in> set [0..<16]. isxdigit (hexchars ! n) \<and> hex_digit (hexchars ! n) = n \<and> hexchars ! n \<noteq> NUL"
    by code_simp
  then show "n < 16 \<Longrightarrow> isxdigit (hexchars ! n) \<and> hex_digit (hexchars ! n) = n \<and> hexchars ! n \<noteq> NUL" by simp
qed

lemma nibbles: "drop_bit 4 (uchar c) < 16" "uchar c AND 15 < 16"
  "drop_bit 4 (uchar c) * 16 + (uchar c AND 15) = uchar c"
  using uchar_less [of c] by (simp_all add: shifts and_mask less_mult_imp_div_less)

lemma htoi_escape: "char_of (php3_htoi (hexchars ! drop_bit 4 (uchar c)) (hexchars ! (uchar c AND 15))) = c"
  using hex_round [OF nibbles(1) [of c]] hex_round [OF nibbles(2) [of c]] nibbles(3) [of c]
  by (simp add: php3_htoi_def)

lemma decode_escape:
  "php3_urldecode (url_escape c @ cs) = c # php3_urldecode cs"
  "php3_rawurldecode (url_escape c @ cs) = c # php3_rawurldecode cs"
  using hex_round [OF nibbles(1) [of c]] hex_round [OF nibbles(2) [of c]] htoi_escape [of c]
  by (simp_all add: url_escape_def)

lemma not_special: "\<not> url_special c \<Longrightarrow> c \<noteq> CHR ''%'' \<and> c \<noteq> CHR ''+'' \<and> c \<noteq> NUL"
  by (auto simp: url_special_def uchar_def NUL_def Let_def)

lemma decode_plain:
  "\<not> url_special c \<Longrightarrow> php3_urldecode (c # cs) = c # php3_urldecode cs"
  "\<not> url_special c \<Longrightarrow> php3_rawurldecode (c # cs) = c # php3_rawurldecode cs"
  using not_special [of c] by simp_all

lemma urldecode_char: "php3_urldecode (urlencode_char c @ cs) = c # php3_urldecode cs"
  by (simp add: urlencode_char_def decode_escape decode_plain del: php3_urldecode.simps) simp

lemma rawurldecode_char: "php3_rawurldecode (rawurlencode_char c @ cs) = c # php3_rawurldecode cs"
  by (simp add: rawurlencode_char_def decode_escape decode_plain del: php3_rawurldecode.simps)

lemma url_round_trip: "php3_urldecode (urlencoded s) = s"
  by (induction s) (simp_all add: urlencoded_def urldecode_char del: php3_urldecode.simps(2))

lemma rawurl_round_trip: "php3_rawurldecode (rawurlencoded s) = s"
  by (induction s) (simp_all add: rawurlencoded_def rawurldecode_char del: php3_rawurldecode.simps(2))

lemma length_char: "length (urlencode_char c) \<le> 3" "length (rawurlencode_char c) \<le> 3"
  by (simp_all add: urlencode_char_def rawurlencode_char_def url_escape_def)

lemma length_concat_le: "(\<And>c. length (f c) \<le> 3) \<Longrightarrow> length (concat (map f s)) \<le> 3 * length s"
  by (induction s) (auto simp: add_le_mono)

lemma length_urlencoded: "length (urlencoded s) \<le> 3 * length s" "length (rawurlencoded s) \<le> 3 * length s"
  unfolding urlencoded_def rawurlencoded_def using length_char by (simp_all add: length_concat_le)

lemma escape_no_nul: "NUL \<notin> set (url_escape c)"
  using hex_round [OF nibbles(1) [of c]] hex_round [OF nibbles(2) [of c]]
  by (auto simp: url_escape_def NUL_def)

lemma char_no_nul: "NUL \<notin> set (urlencode_char c)" "NUL \<notin> set (rawurlencode_char c)"
  using escape_no_nul [of c] not_special [of c]
  by (auto simp: urlencode_char_def rawurlencode_char_def NUL_def)

lemma urlencoded_no_nul: "NUL \<notin> set (urlencoded s)" "NUL \<notin> set (rawurlencoded s)"
  using char_no_nul by (auto simp: urlencoded_def rawurlencoded_def)

lemma rawurlencode_fits: "length s \<le> 715827882 \<Longrightarrow> php3_rawurlencode s = Some (rawurlencoded s)"
  using length_urlencoded(2) [of s] by (simp add: php3_rawurlencode_def int_exact)

lemma urlencode_fits: "NUL \<notin> set s \<Longrightarrow> php3_urlencode s = Some (urlencoded s)"
  using length_urlencoded(1) [of s] by (simp add: php3_urlencode_def c_str_no_nul)

text \<open>A text that starts with a NUL byte overruns the one byte that is allocated for it.\<close>

lemma urlencode_overrun: "php3_urlencode (NUL # s) = None"
  by (simp add: php3_urlencode_def c_str_def urlencoded_def urlencode_char_def url_special_def
        url_escape_def uchar_def NUL_def Let_def)

interpretation url: codec "\<lambda>_. True" urlencoded "\<lambda>s. Some (php3_urldecode s)" "\<lambda>n. 3 * n"
  by unfold_locales (simp_all add: url_round_trip length_urlencoded urlencoded_no_nul)

interpretation rawurl: codec "\<lambda>_. True" rawurlencoded "\<lambda>s. Some (php3_rawurldecode s)" "\<lambda>n. 3 * n"
  by unfold_locales (simp_all add: rawurl_round_trip length_urlencoded urlencoded_no_nul)

end
