(* ===== verification/Str_Search.thy ===== *)
theory Str_Search
  imports Codec
begin

text \<open>
  Searching, splitting, joining and replacing in \<open>functions/string.c\<close>.  A PHP string is the list of
  its bytes; in memory a NUL byte follows it.  The argument checks and conversions of the functions
  the scripts call come before what is modelled here.
\<close>

subsection \<open>Searching\<close>

text \<open>
  \<open>_php3_memnstr\<close>: \<open>p\<close> runs over the haystack, \<open>memchr\<close> jumps to the next place where the first
  character of the needle can begin a match.  The result is the index of the match.
\<close>

fun memchr_from :: "char \<Rightarrow> nat \<Rightarrow> string \<Rightarrow> nat \<Rightarrow> nat option" where
  "memchr_from c 0 s p = None"
| "memchr_from c (Suc n) s p =
     (if p < length s \<and> s ! p = c then Some p else memchr_from c n s (p + 1))"

function memnstr_from :: "string \<Rightarrow> string \<Rightarrow> nat \<Rightarrow> nat option" where
  "memnstr_from hay needle p =
     (if p + length needle \<le> length hay \<and> needle \<noteq> [] then
        (case memchr_from (hd needle) (length hay - p - length needle + 1) hay p of
           None \<Rightarrow> None
         | Some s \<Rightarrow> if take (length needle) (drop s hay) = needle then Some s
                     else memnstr_from hay needle (s + 1))
      else None)"
  by pat_completeness auto

lemma memchr_from_Some:
  "memchr_from c n s p = Some q \<Longrightarrow>
     p \<le> q \<and> q < p + n \<and> q < length s \<and> s ! q = c \<and> (\<forall>j. p \<le> j \<and> j < q \<longrightarrow> s ! j \<noteq> c)"
proof (induction n arbitrary: p)
  case (Suc n)
  show ?case
  proof (cases "p < length s \<and> s ! p = c")
    case True
    then show ?thesis using Suc.prems by auto
  next
    case False
    with Suc.prems have r: "memchr_from c n s (p + 1) = Some q" by (simp del: One_nat_def split: if_splits)
    from Suc.IH [OF this] have i: "p + 1 \<le> q" "q < p + 1 + n" "q < length s" "s ! q = c"
      "\<forall>j. p + 1 \<le> j \<and> j < q \<longrightarrow> s ! j \<noteq> c" by auto
    have "s ! j \<noteq> c" if "p \<le> j" "j < q" for j
      using that i False by (cases "j = p") auto
    then show ?thesis using i by auto
  qed
qed simp

lemma memchr_from_None:
  "memchr_from c n s p = None \<Longrightarrow> p \<le> j \<Longrightarrow> j < p + n \<Longrightarrow> j < length s \<Longrightarrow> s ! j \<noteq> c"
proof (induction n arbitrary: p)
  case (Suc n)
  then have r: "memchr_from c n s (p + 1) = None" "\<not> (p < length s \<and> s ! p = c)"
    by (auto split: if_splits)
  show ?case
    using Suc.IH [OF r(1)] Suc.prems r(2) by (cases "j = p") auto
qed simp

termination memnstr_from
  by (relation "measure (\<lambda>(hay, needle, p). length hay + 1 - p)") (auto dest!: memchr_from_Some simp del: memchr_from.simps)

declare memnstr_from.simps [simp del]

definition php3_memnstr :: "string \<Rightarrow> string \<Rightarrow> nat \<Rightarrow> nat option" where
  "php3_memnstr hay needle p = memnstr_from hay needle p"

text \<open>\<open>occurs needle hay i\<close>: the needle stands at place \<open>i\<close>.\<close>

definition occurs :: "string \<Rightarrow> string \<Rightarrow> nat \<Rightarrow> bool" where
  "occurs needle hay i \<longleftrightarrow> i + length needle \<le> length hay \<and> take (length needle) (drop i hay) = needle"

lemma occurs_lt: "occurs needle hay i \<Longrightarrow> needle \<noteq> [] \<Longrightarrow> i < length hay"
  by (cases needle) (auto simp: occurs_def)

lemma occurs_hd: "occurs needle hay i \<Longrightarrow> needle \<noteq> [] \<Longrightarrow> hay ! i = hd needle"
proof -
  assume o: "occurs needle hay i" and ne: "needle \<noteq> []"
  then have l: "i < length hay" by (rule occurs_lt)
  have "hd needle = hd (take (length needle) (drop i hay))" using o by (simp add: occurs_def)
  also have "\<dots> = hay ! i" using l ne by (simp add: hd_drop_conv_nth)
  finally show ?thesis by simp
qed

lemma memnstr_correct:
  assumes ne: "needle \<noteq> []"
  shows "case memnstr_from hay needle p of
      Some i \<Rightarrow> p \<le> i \<and> occurs needle hay i \<and> (\<forall>j. p \<le> j \<and> j < i \<longrightarrow> \<not> occurs needle hay j)
    | None \<Rightarrow> \<forall>j. p \<le> j \<longrightarrow> \<not> occurs needle hay j"
  using ne
proof (induction hay needle p rule: memnstr_from.induct)
  case (1 hay needle p)
  show ?case
  proof (cases "p + length needle \<le> length hay")
    case False
    then show ?thesis using "1.prems" by (subst memnstr_from.simps) (auto simp: occurs_def)
  next
    case True
    let ?n = "length hay - p - length needle + 1"
    show ?thesis
    proof (cases "memchr_from (hd needle) ?n hay p")
      case None
      have "\<not> occurs needle hay j" if "p \<le> j" for j
      proof
        assume o: "occurs needle hay j"
        then have "j < p + ?n" "j < length hay"
          using True occurs_lt [OF o "1.prems"] by (auto simp: occurs_def)
        then show False using memchr_from_None [OF None that] occurs_hd [OF o "1.prems"] by blast
      qed
      then show ?thesis using True "1.prems" None by (subst memnstr_from.simps) simp
    next
      case (Some s)
      note m = memchr_from_Some [OF Some]
      have skip: "\<not> occurs needle hay j" if "p \<le> j" "j < s" for j
        using m that occurs_hd [of needle hay j] "1.prems" by blast
      show ?thesis
      proof (cases "take (length needle) (drop s hay) = needle")
        case t: True
        have "s + length needle \<le> length hay" using m True by arith
        then show ?thesis using True "1.prems" Some t m skip
          by (subst memnstr_from.simps) (auto simp: occurs_def)
      next
        case f: False
        then have ns: "\<not> occurs needle hay s" by (simp add: occurs_def)
        have all: "\<not> occurs needle hay j" if "p \<le> j" "j \<le> s" for j
          using that skip ns by (cases "j = s") auto
        have eq: "memnstr_from hay needle p = memnstr_from hay needle (s + 1)"
          using True "1.prems" Some f by (subst memnstr_from.simps) simp
        have "True \<and> p + length needle \<le> length hay \<and> needle \<noteq> []" using True "1.prems" by simp
        with "1.IH" [OF _ Some f "1.prems"] True "1.prems" have IH: "case memnstr_from hay needle (s + 1) of
            Some i \<Rightarrow> s + 1 \<le> i \<and> occurs needle hay i \<and> (\<forall>j. s + 1 \<le> j \<and> j < i \<longrightarrow> \<not> occurs needle hay j)
          | None \<Rightarrow> \<forall>j. s + 1 \<le> j \<longrightarrow> \<not> occurs needle hay j" by blast
        show ?thesis
        proof (cases "memnstr_from hay needle (s + 1)")
          case None
          have "\<not> occurs needle hay j" if "p \<le> j" for j
            using IH None all that by (cases "j \<le> s") auto
          then show ?thesis using eq None by simp
        next
          case (Some i)
          have "\<not> occurs needle hay j" if "p \<le> j" "j < i" for j
            using IH Some all that by (cases "j \<le> s") auto
          then show ?thesis using eq Some IH m by auto
        qed
      qed
    qed
  qed
qed

subsection \<open>What a function returns to the script\<close>

datatype 'a ret = RETVAL 'a | RETURN_FALSE | WARN_FALSE string

text \<open>A needle is a string, or a number that stands for a character.\<close>

datatype needle = NStr string | NLong int

definition char_of_long :: "int \<Rightarrow> char" where
  "char_of_long n = char_of (nat (n mod 256))"

subsection \<open>\<open>strpos\<close>, \<open>strstr\<close>, \<open>strrpos\<close>, \<open>strrchr\<close>, \<open>stristr\<close>\<close>

text \<open>
  \<open>php3_strpos\<close>: the test for a negative offset looks at the variable before the argument is
  assigned to it, so a negative offset makes the search read in front of the string (\<open>None\<close>).
\<close>

definition php3_strpos :: "string \<Rightarrow> needle \<Rightarrow> int option \<Rightarrow> nat ret option" where
  "php3_strpos hay ndl off =
     (let offset = (case off of None \<Rightarrow> 0 | Some n \<Rightarrow> int_of_long n) in
      if offset > int (length hay) then Some (WARN_FALSE ''offset not contained in string'')
      else
        let go = (\<lambda>n. if offset < 0 then
                        (if offset + int (length n) \<le> int (length hay) then None else Some RETURN_FALSE)
                      else Some (case php3_memnstr hay n (nat offset) of
                                   None \<Rightarrow> RETURN_FALSE | Some i \<Rightarrow> RETVAL i))
        in case ndl of
             NStr n \<Rightarrow> if n = [] then Some (WARN_FALSE ''Empty delimiter'') else go n
           | NLong l \<Rightarrow> go [char_of_long l])"

text \<open>\<open>strstr\<close> of the C library, on C strings.\<close>

fun is_prefix :: "string \<Rightarrow> string \<Rightarrow> bool" where
  "is_prefix [] s = True"
| "is_prefix (c # cs) [] = False"
| "is_prefix (c # cs) (d # ds) = (c = d \<and> is_prefix cs ds)"

fun strstr :: "string \<Rightarrow> string \<Rightarrow> nat option" where
  "strstr [] n = (if n = [] then Some 0 else None)"
| "strstr (c # s) n = (if is_prefix n (c # s) then Some 0 else map_option Suc (strstr s n))"

definition strchr :: "string \<Rightarrow> char \<Rightarrow> nat option" where
  "strchr s c = (if c = NUL then Some (length (c_str s)) else index_of c (c_str s))"

definition strrchr :: "string \<Rightarrow> char \<Rightarrow> nat option" where
  "strrchr s c =
     (if c = NUL then Some (length (c_str s))
      else map_option (\<lambda>i. length (c_str s) - 1 - i) (index_of c (rev (c_str s))))"

definition found_string :: "string \<Rightarrow> nat option \<Rightarrow> string ret" where
  "found_string s r = (case r of None \<Rightarrow> RETURN_FALSE | Some i \<Rightarrow> RETVAL (drop i (c_str s)))"

definition php3_strstr :: "string \<Rightarrow> needle \<Rightarrow> string ret" where
  "php3_strstr hay ndl =
     (case ndl of
        NStr n \<Rightarrow> if c_str n = [] then WARN_FALSE ''Empty delimiter''
                  else found_string hay (strstr (c_str hay) (c_str n))
      | NLong l \<Rightarrow> found_string hay (strchr hay (char_of_long l)))"

text \<open>The character a needle stands for: the first byte, which is the NUL of an empty string.\<close>

definition needle_char :: "needle \<Rightarrow> char" where
  "needle_char ndl = (case ndl of NStr n \<Rightarrow> hd (n @ [NUL]) | NLong l \<Rightarrow> char_of_long l)"

definition php3_strrpos :: "string \<Rightarrow> needle \<Rightarrow> nat ret" where
  "php3_strrpos hay ndl =
     (case strrchr hay (needle_char ndl) of
        None \<Rightarrow> RETURN_FALSE
      | Some i \<Rightarrow> RETVAL (length hay - (length (c_str hay) - i)))"

definition php3_strrchr :: "string \<Rightarrow> needle \<Rightarrow> string ret" where
  "php3_strrchr hay ndl = found_string hay (strrchr hay (needle_char ndl))"

fun match_nocase :: "string \<Rightarrow> string \<Rightarrow> bool" where
  "match_nocase s [] = True"
| "match_nocase [] (c # t) = False"
| "match_nocase (d # s) (c # t) = (tolower d = tolower c \<and> match_nocase s t)"

fun php3i_stristr :: "string \<Rightarrow> string \<Rightarrow> nat option" where
  "php3i_stristr [] t = None"
| "php3i_stristr (c # s) t = (if match_nocase (c # s) t then Some 0 else map_option Suc (php3i_stristr s t))"

definition php3_stristr :: "string \<Rightarrow> string \<Rightarrow> string ret" where
  "php3_stristr hay n =
     (if c_str n = [] then WARN_FALSE ''Empty delimiter''
      else found_string hay (php3i_stristr (c_str hay) (c_str n)))"

subsection \<open>Splitting and joining\<close>

function explode_from :: "string \<Rightarrow> string \<Rightarrow> nat \<Rightarrow> string list" where
  "explode_from delim str p1 =
     (case php3_memnstr str delim p1 of
        None \<Rightarrow> [drop p1 str]
      | Some p2 \<Rightarrow> take (p2 - p1) (drop p1 str) # explode_from delim str (p2 + length delim))"
  by pat_completeness auto

lemma memnstr_Some:
  assumes "php3_memnstr str delim p = Some q"
  shows "delim \<noteq> []" "p \<le> q" "occurs delim str q" "p \<le> j \<Longrightarrow> j < q \<Longrightarrow> \<not> occurs delim str j"
proof -
  show ne: "delim \<noteq> []"
    using assms by (subst (asm) php3_memnstr_def) (subst (asm) memnstr_from.simps, simp split: if_splits)
  show "p \<le> q" "occurs delim str q" "p \<le> j \<Longrightarrow> j < q \<Longrightarrow> \<not> occurs delim str j"
    using memnstr_correct [OF ne, where hay = str and p = p] assms by (simp_all add: php3_memnstr_def)
qed

termination explode_from
proof (relation "measure (\<lambda>(delim, str, p). length str + 1 - p)")
  fix delim str p q assume a: "php3_memnstr str delim p = Some q"
  have "0 < length delim" using memnstr_Some(1) [OF a] by simp
  moreover have "p \<le> q" "q + length delim \<le> length str"
    using memnstr_Some(2,3) [OF a] by (simp_all add: occurs_def)
  ultimately have "length str + 1 - (q + length delim) < length str + 1 - p" by linarith
  then show "((delim, str, q + length delim), delim, str, p) \<in> measure (\<lambda>(delim, str, p). length str + 1 - p)"
    by simp
qed simp

declare explode_from.simps [simp del]

definition php3_explode :: "string \<Rightarrow> string \<Rightarrow> string list ret" where
  "php3_explode delim str =
     (if delim = [] then WARN_FALSE ''Empty delimiter'' else RETVAL (explode_from delim str 0))"

text \<open>
  \<open>_php3_implode\<close> counts the lengths of the strings, but joins them with \<open>strcat\<close>: bytes of the
  result that are never written are \<open>None\<close>.
\<close>

fun join :: "string \<Rightarrow> string list \<Rightarrow> string" where
  "join g [] = []"
| "join g [s] = s"
| "join g (s # t # ss) = s @ g @ join g (t # ss)"

definition php3_implode :: "string \<Rightarrow> string list \<Rightarrow> char option list" where
  "php3_implode delim arr =
     (let len = length (join delim arr); text = join (c_str delim) (map c_str arr)
      in if length text < len then map Some text @ Some NUL # replicate (len - length text - 1) None
         else map Some text)"

subsection \<open>Replacing\<close>

text \<open>
  The lengths and sizes of blocks are \<open>int\<close>s here, those of \<open>php3_str_to_str\<close> differences of pointers; writing
  behind a block is \<open>None\<close>, and so is a text that is longer than an \<open>int\<close> can tell.
\<close>

definition php3_char_to_str :: "string \<Rightarrow> char \<Rightarrow> string \<Rightarrow> string option" where
  "php3_char_to_str str from to =
     (let char_count = length (filter (\<lambda>c. c = from) str) in
      if char_count = 0 then Some str
      else
        let newlen = int_of_long (int (length str) + int char_count * (int (length to) - 1));
            room = int_of_long (newlen + 1);
            out = concat (map (\<lambda>c. if c = from then to else [c]) str)
        in if int (length out) + 1 \<le> room then Some out else None)"

text \<open>\<open>memcpy\<close> behind what is written of a block of \<open>room\<close> bytes, and the loop over the occurrences.\<close>

definition copy_to :: "nat \<Rightarrow> string \<Rightarrow> string \<Rightarrow> string option" where
  "copy_to room written s = (if length written + length s \<le> room then Some (written @ s) else None)"

function str_to_str_loop :: "string \<Rightarrow> string \<Rightarrow> string \<Rightarrow> nat \<Rightarrow> nat \<Rightarrow> string \<Rightarrow> (nat \<times> nat \<times> string) option" where
  "str_to_str_loop hay needle str p room new =
     (case php3_memnstr hay needle p of
        None \<Rightarrow> Some (p, room, new)
      | Some r \<Rightarrow>
          (let room' = length new + (r - p) + length str + 1
           in case copy_to room' new (take (r - p) (drop p hay)) of None \<Rightarrow> None | Some new1 \<Rightarrow>
              case copy_to room' new1 str of None \<Rightarrow> None | Some new2 \<Rightarrow>
                str_to_str_loop hay needle str (r + length needle) room' new2))"
  by pat_completeness auto

termination str_to_str_loop
proof (relation "measure (\<lambda>(hay, needle, str, p, room, new). length hay + 1 - p)")
  fix hay needle str new :: string and p room q assume a: "php3_memnstr hay needle p = Some q"
  have "0 < length needle" using memnstr_Some(1) [OF a] by simp
  moreover have "p \<le> q" "q + length needle \<le> length hay"
    using memnstr_Some(2,3) [OF a] by (simp_all add: occurs_def)
  ultimately have "length hay + 1 - (q + length needle) < length hay + 1 - p" by linarith
  then show "((hay, needle, str, q + length needle, room', new'), hay, needle, str, p, room, new)
      \<in> measure (\<lambda>(hay, needle, str, p, room, new). length hay + 1 - p)" for room' new'
    by simp
qed simp

declare str_to_str_loop.simps [simp del]

definition php3_str_to_str :: "string \<Rightarrow> string \<Rightarrow> string \<Rightarrow> string option" where
  "php3_str_to_str hay needle str = do {
     (p, room, new) \<leftarrow> str_to_str_loop hay needle str 0 (length hay) [];
     (room, new) \<leftarrow>
       (if p < length hay
        then let room' = length new + (length hay - p) + 1 in do { new' \<leftarrow> copy_to room' new (drop p hay); Some (room', new') }
        else Some (room, new));
     if length new < room \<and> length new < 2147483648 then Some new else None }"

definition php3_str_replace :: "string \<Rightarrow> string \<Rightarrow> string \<Rightarrow> string ret option" where
  "php3_str_replace needle str hay =
     (if hay = [] then Some (RETVAL [])
      else if length needle = 1 then
        (case php3_char_to_str hay (hd needle) str of None \<Rightarrow> None | Some r \<Rightarrow> Some (RETVAL r))
      else if needle = [] then Some (WARN_FALSE ''The length of the needle must not be 0'')
      else case php3_str_to_str hay needle str of None \<Rightarrow> None | Some r \<Rightarrow> Some (RETVAL r))"

subsection \<open>\<open>strtok\<close>\<close>

text \<open>
  The static variable \<open>strtok_pos1\<close>, as the bytes from there to the end of the copied string.
  \<open>first_delim\<close> is the loop over the characters of the token string.
\<close>

fun first_delim :: "string \<Rightarrow> string \<Rightarrow> nat option \<Rightarrow> nat option" where
  "first_delim s [] first = first"
| "first_delim s (c # cs) first =
     (let p2 = index_of c s in
      first_delim s cs
        (case (first, p2) of (None, _) \<Rightarrow> p2 | (Some f, Some q) \<Rightarrow> if q < f then Some q else Some f
         | (Some f, None) \<Rightarrow> Some f))"

definition php3_strtok :: "string option \<Rightarrow> string option \<Rightarrow> string \<Rightarrow> string ret \<times> string option" where
  "php3_strtok st str tok =
     (let pos1 = (case str of Some s \<Rightarrow> Some s | None \<Rightarrow> st) in
      case pos1 of
        None \<Rightarrow> (RETURN_FALSE, None)
      | Some s \<Rightarrow>
          if c_str s = [] then (RETURN_FALSE, pos1)
          else (case first_delim (c_str s) (c_str tok) None of
                  None \<Rightarrow> (RETVAL (c_str s), None)
                | Some i \<Rightarrow> (RETVAL (take i s), Some (drop (i + 1) s))))"

subsection \<open>Splitting and joining, correctness\<close>

lemma explode_step:
  "explode_from delim str p = (case php3_memnstr str delim p of
        None \<Rightarrow> [drop p str]
      | Some q \<Rightarrow> take (q - p) (drop p str) # explode_from delim str (q + length delim))"
  by (rule explode_from.simps)

lemma explode_not_Nil [simp]: "explode_from delim str p \<noteq> []"
  by (subst explode_step) (simp split: option.split)

lemma join_Cons: "ss \<noteq> [] \<Longrightarrow> join g (s # ss) = s @ g @ join g ss"
  by (cases ss) simp_all

text \<open>The pieces joined with the delimiter are the string again; none contains the delimiter.\<close>

lemma join_explode: "join delim (explode_from delim str p) = drop p str"
proof (induction delim str p rule: explode_from.induct)
  case (1 delim str p)
  show ?case
  proof (cases "php3_memnstr str delim p")
    case None
    then show ?thesis by (subst explode_step) simp
  next
    case (Some q)
    note m = memnstr_Some [OF Some]
    have "drop p str = take (q - p) (drop p str) @ drop q str"
      using m(2) append_take_drop_id [of "q - p" "drop p str"] by simp
    also have "drop q str = delim @ drop (q + length delim) str"
      using m(3) append_take_drop_id [of "length delim" "drop q str"] by (simp add: occurs_def add.commute)
    finally show ?thesis
      using "1.IH" [OF Some] Some by (subst explode_step) (simp add: join_Cons)
  qed
qed

lemma occurs_take_drop:
  assumes o: "occurs d (take n (drop p s)) j" and p: "p \<le> length s"
  shows "occurs d s (p + j) \<and> p + j + length d \<le> p + n"
proof -
  have l: "j + length d \<le> n" "p + j + length d \<le> length s" using o p by (auto simp: occurs_def)
  have "take (length d) (drop j (take n (drop p s))) = take (length d) (take (n - j) (drop (p + j) s))"
    by (simp add: drop_take add.commute)
  also have "\<dots> = take (length d) (drop (p + j) s)" using l(1) by (simp add: min_def)
  finally show ?thesis using o l by (simp add: occurs_def)
qed

lemma explode_pieces:
  assumes "delim \<noteq> []"
  shows "piece \<in> set (explode_from delim str p) \<Longrightarrow> p \<le> length str \<Longrightarrow> \<not> occurs delim piece j"
  using assms
proof (induction delim str p rule: explode_from.induct)
  case (1 delim str p)
  show ?case
  proof (cases "php3_memnstr str delim p")
    case None
    then have "piece = drop p str" using "1.prems"(1) by (subst (asm) explode_step) simp
    moreover have "\<not> occurs delim str (p + j)"
      using memnstr_correct [OF "1.prems"(3), where hay = str and p = p] None by (simp add: php3_memnstr_def)
    ultimately show ?thesis using "1.prems"(2) by (auto simp: occurs_def add.commute)
  next
    case (Some q)
    note m = memnstr_Some [OF Some]
    have q: "q + length delim \<le> length str" using m(3) by (simp add: occurs_def)
    from "1.prems"(1) Some consider "piece = take (q - p) (drop p str)"
      | "piece \<in> set (explode_from delim str (q + length delim))"
      by (subst (asm) explode_step) auto
    then show ?thesis
    proof cases
      case 1
      show ?thesis
      proof
        assume "occurs delim piece j"
        from occurs_take_drop [OF this [unfolded 1] \<open>p \<le> length str\<close>]
        have o: "occurs delim str (p + j)" and l: "p + j + length delim \<le> p + (q - p)" by auto
        have "p + j < q" using l m(2) \<open>delim \<noteq> []\<close> by (cases delim) auto
        then show False using m(4) [of "p + j"] o by simp
      qed
    next
      case 2
      then show ?thesis using "1.IH" [OF Some] q "1.prems"(3) by blast
    qed
  qed
qed

text \<open>Replacing is splitting at the needle and joining with the replacement.\<close>

lemma str_to_str_loop_eq:
  "p \<le> length hay \<Longrightarrow> new = [] \<or> length new < room \<Longrightarrow>
   \<exists>p' room' new'. str_to_str_loop hay needle str p room new = Some (p', room', new') \<and> p' \<le> length hay \<and>
     new @ join str (explode_from needle hay p) = new' @ drop p' hay \<and>
     (p' = p \<and> room' = room \<and> new' = new \<or> length new' < room')"
proof (induction hay needle str p room new rule: str_to_str_loop.induct)
  case (1 hay needle str p room new)
  show ?case
  proof (cases "php3_memnstr hay needle p")
    case None
    then show ?thesis using 1(2) by (subst str_to_str_loop.simps, subst explode_step) auto
  next
    case (Some r)
    define room' where "room' = length new + (r - p) + length str + 1"
    define new1 where "new1 = new @ take (r - p) (drop p hay)"
    note m = memnstr_Some [OF Some]
    have r: "p \<le> r" "r + length needle \<le> length hay" using m(2,3) by (simp_all add: occurs_def)
    have c: "copy_to room' new (take (r - p) (drop p hay)) = Some new1" "copy_to room' new1 str = Some (new1 @ str)"
      "length (new1 @ str) < room'" using r by (simp_all add: copy_to_def new1_def room'_def)
    have l: "str_to_str_loop hay needle str p room new = str_to_str_loop hay needle str (r + length needle) room' (new1 @ str)"
      by (subst str_to_str_loop.simps) (simp only: Some Let_def room'_def [symmetric] c option.case)
    have e: "new @ join str (explode_from needle hay p) = (new1 @ str) @ join str (explode_from needle hay (r + length needle))"
      using Some by (subst explode_step) (simp add: join_Cons new1_def)
    from 1(1) [OF Some room'_def c(1,2) r(2)] c(3) obtain p' s' n' where
      i: "str_to_str_loop hay needle str (r + length needle) room' (new1 @ str) = Some (p', s', n')" "p' \<le> length hay"
      "(new1 @ str) @ join str (explode_from needle hay (r + length needle)) = n' @ drop p' hay"
      "p' = r + length needle \<and> s' = room' \<and> n' = new1 @ str \<or> length n' < s'" by blast
    then have "length n' < s'" using c(3) by auto
    then show ?thesis using i(1-3) unfolding l e by blast
  qed
qed

lemma str_to_str_ok:
  assumes "hay \<noteq> []" "length (join str (explode_from needle hay 0)) < 2147483648"
  shows "php3_str_to_str hay needle str = Some (join str (explode_from needle hay 0))"
proof -
  from str_to_str_loop_eq [of 0 hay "[]" "length hay" needle str] obtain p room new where
    l: "str_to_str_loop hay needle str 0 (length hay) [] = Some (p, room, new)" "p \<le> length hay"
    "join str (explode_from needle hay 0) = new @ drop p hay" "p = 0 \<and> new = [] \<or> length new < room" by auto
  show ?thesis
  proof (cases "p < length hay")
    case True
    then show ?thesis using assms(2) unfolding l(3) by (simp add: php3_str_to_str_def l(1) copy_to_def Let_def)
  next
    case False
    then have "length new < room" "drop p hay = []" using l(2,4) assms(1) by auto
    then show ?thesis using False assms(2) unfolding l(3) by (simp add: php3_str_to_str_def l(1))
  qed
qed

lemma join_map_c_str: "(\<And>s. s \<in> set ss \<Longrightarrow> c_str s = s) \<Longrightarrow> map c_str ss = ss"
  by (induction ss) auto

lemma c_str_id: "NUL \<notin> set s \<Longrightarrow> c_str s = s"
  unfolding c_str_def takeWhile_eq_all_conv by auto

lemma implode_clean:
  assumes "NUL \<notin> set delim" and "\<forall>s \<in> set arr. NUL \<notin> set s"
  shows "php3_implode delim arr = map Some (join delim arr)"
proof -
  have "map c_str arr = arr" using assms(2) c_str_id by (intro join_map_c_str) auto
  then show ?thesis using c_str_id [OF assms(1)] by (simp add: php3_implode_def Let_def)
qed

lemma set_explode: "piece \<in> set (explode_from delim str p) \<Longrightarrow> set piece \<subseteq> set str"
proof (induction delim str p rule: explode_from.induct)
  case (1 delim str p)
  show ?case
  proof (cases "php3_memnstr str delim p")
    case None
    then have "piece = drop p str" using "1.prems" by (subst (asm) explode_step) simp
    then show ?thesis by (simp add: set_drop_subset)
  next
    case (Some q)
    from "1.prems" Some consider "piece = take (q - p) (drop p str)"
      | "piece \<in> set (explode_from delim str (q + length delim))"
      by (subst (asm) explode_step) auto
    then show ?thesis
    proof cases
      case 1
      then show ?thesis by (meson order_trans set_drop_subset set_take_subset)
    next
      case 2
      then show ?thesis using "1.IH" [OF Some] by blast
    qed
  qed
qed

subsection \<open>One character\<close>

lemma char_to_str_ok:
  assumes "length (concat (map (\<lambda>c. if c = from then to else [c]) str)) < 2147483647"
  shows "php3_char_to_str str from to = Some (concat (map (\<lambda>c. if c = from then to else [c]) str))"
proof -
  let ?f = "\<lambda>c. if c = from then to else [c]"
  have len: "int (length (concat (map ?f s))) =
      int (length s) + int (length (filter (\<lambda>c. c = from) s)) * (int (length to) - 1)" for s
    by (induction s) (auto simp: algebra_simps)
  have id: "filter (\<lambda>c. c = from) s = [] \<Longrightarrow> concat (map ?f s) = s" for s
    by (induction s) (auto split: if_splits)
  show ?thesis
  proof (cases "filter (\<lambda>c. c = from) str = []")
    case True
    then show ?thesis using id by (simp add: php3_char_to_str_def)
  next
    case False
    define n where "n = int (length (concat (map ?f str)))"
    have "int_of_long n = n" "int_of_long (n + 1) = n + 1" using assms by (simp_all add: n_def int_exact)
    then show ?thesis using False len [of str] unfolding n_def [symmetric] by (simp add: php3_char_to_str_def Let_def flip: n_def)
  qed
qed

lemma occurs_single: "occurs [c] s i \<longleftrightarrow> i < length s \<and> s ! i = c"
proof
  assume o: "occurs [c] s i"
  then show "i < length s \<and> s ! i = c" using occurs_lt [OF o] occurs_hd [OF o] by simp
next
  assume "i < length s \<and> s ! i = c"
  then show "occurs [c] s i" by (simp add: occurs_def take_Suc_conv_app_nth [of 0, simplified] hd_drop_conv_nth take_Suc)
qed

lemma str_to_str_single:
  "p \<le> length s \<Longrightarrow>
     join t (explode_from [c] s p) = concat (map (\<lambda>x. if x = c then t else [x]) (drop p s))"
proof (induction "[c]" s p rule: explode_from.induct)
  case (1 s p)
  let ?f = "\<lambda>x. if x = c then t else [x]"
  have keep: "c \<notin> set xs \<Longrightarrow> concat (map ?f xs) = xs" for xs by (induction xs) auto
  show ?case
  proof (cases "php3_memnstr s [c] p")
    case None
    then have no: "\<forall>j. p \<le> j \<longrightarrow> \<not> occurs [c] s j"
      using memnstr_correct [of "[c]", where hay = s and p = p] by (simp add: php3_memnstr_def)
    have "c \<notin> set (drop p s)"
    proof
      assume "c \<in> set (drop p s)"
      then obtain k where "k < length s - p" "s ! (p + k) = c" by (auto simp: in_set_conv_nth)
      then show False using no occurs_single by simp
    qed
    then show ?thesis using None keep by (subst explode_step) simp
  next
    case (Some q)
    note m = memnstr_Some [OF Some]
    have q: "q < length s" "s ! q = c" using m(3) occurs_single by auto
    have d: "drop p s = take (q - p) (drop p s) @ c # drop (q + 1) s"
      using q m(2) append_take_drop_id [of "q - p" "drop p s", symmetric] Cons_nth_drop_Suc [OF q(1)] by simp
    have "c \<notin> set (take (q - p) (drop p s))"
    proof
      assume "c \<in> set (take (q - p) (drop p s))"
      then obtain k where "k < q - p" "s ! (p + k) = c" "p + k < length s" by (auto simp: in_set_conv_nth)
      moreover from this have "p + k < q" by arith
      ultimately show False using m(4) [of "p + k"] occurs_single by simp
    qed
    then have k: "concat (map ?f (take (q - p) (drop p s))) = take (q - p) (drop p s)" by (rule keep)
    have "concat (map ?f (drop p s)) =
        concat (map ?f (take (q - p) (drop p s))) @ t @ concat (map ?f (drop (q + 1) s))"
      by (subst d) simp
    then have "concat (map ?f (drop p s)) = take (q - p) (drop p s) @ t @ concat (map ?f (drop (q + 1) s))"
      unfolding k .
    then show ?thesis using Some "1.hyps" [OF Some] q(1)
      by (subst explode_step) (simp add: join_Cons)
  qed
qed

text \<open>Both branches of \<open>str_replace\<close> split at the needle and join with the replacement.\<close>

lemma str_replace_spec:
  assumes "needle \<noteq> []" "length (join str (explode_from needle hay 0)) < 2147483647"
  shows "php3_str_replace needle str hay = Some (RETVAL (join str (explode_from needle hay 0)))"
proof (cases "hay = []")
  case True
  then have "php3_memnstr hay needle 0 = None"
    using memnstr_Some(3) [of hay needle 0] assms(1) by (cases "php3_memnstr hay needle 0") (auto simp: occurs_def)
  then show ?thesis using True by (subst explode_step) (simp add: php3_str_replace_def)
next
  case hay: False
  show ?thesis
  proof (cases "length needle = 1")
    case True
    then obtain c where c: "needle = [c]" by (cases needle) auto
    have j: "join str (explode_from needle hay 0) = concat (map (\<lambda>x. if x = c then str else [x]) hay)"
      using str_to_str_single [of 0 hay str c] c by simp
    have "php3_char_to_str hay c str = Some (join str (explode_from needle hay 0))"
      using char_to_str_ok [of c str hay] assms(2) unfolding j by simp
    then show ?thesis using hay c by (simp add: php3_str_replace_def)
  next
    case False
    then show ?thesis using hay assms str_to_str_ok [OF hay, of str needle] by (auto simp: php3_str_replace_def)
  qed
qed

subsection \<open>Tokens\<close>

text \<open>\<open>first_delim\<close> finds the first character of \<open>s\<close> that is in \<open>t\<close>.\<close>

definition first_in :: "string \<Rightarrow> char set \<Rightarrow> nat option \<Rightarrow> bool" where
  "first_in s A r \<longleftrightarrow>
     (case r of None \<Rightarrow> \<forall>j < length s. s ! j \<notin> A
      | Some i \<Rightarrow> i < length s \<and> s ! i \<in> A \<and> (\<forall>j < i. s ! j \<notin> A))"

lemma index_of_first: "first_in s {c} (index_of c s)"
proof (cases "index_of c s")
  case None
  then have "c \<notin> set s" using index_of_None by simp
  then show ?thesis using None nth_mem by (fastforce simp: first_in_def)
next
  case (Some i)
  then have i: "i < length s" "s ! i = c" "c \<notin> set (take i s)" by (simp_all add: index_of_Some)
  have "s ! j \<noteq> c" if "j < i" for j
    using i(1,3) that by (metis in_set_conv_nth length_take min.absorb4 nth_take)
  then show ?thesis using i Some by (simp add: first_in_def)
qed

lemma first_in_union:
  assumes "first_in s A f" and "first_in s B g"
  shows "first_in s (A \<union> B)
    (case (f, g) of (None, _) \<Rightarrow> g | (Some x, Some y) \<Rightarrow> if y < x then Some y else Some x | (Some x, None) \<Rightarrow> f)"
proof (cases f)
  case None
  then show ?thesis using assms by (cases g) (auto simp: first_in_def)
next
  case (Some x)
  note f = this
  show ?thesis
  proof (cases g)
    case None
    then show ?thesis using assms f by (auto simp: first_in_def)
  next
    case (Some y)
    then show ?thesis using assms f by (auto simp: first_in_def)
  qed
qed

lemma first_delim_first: "first_in s A f \<Longrightarrow> first_in s (A \<union> set t) (first_delim s t f)"
proof (induction t arbitrary: A f)
  case (Cons c t)
  have "first_in s (A \<union> {c}) (case (f, index_of c s) of (None, _) \<Rightarrow> index_of c s
      | (Some x, Some y) \<Rightarrow> if y < x then Some y else Some x | (Some x, None) \<Rightarrow> f)"
    by (rule first_in_union [OF Cons.prems index_of_first])
  moreover have "(case (f, index_of c s) of (None, _) \<Rightarrow> index_of c s
      | (Some x, Some y) \<Rightarrow> if y < x then Some y else Some x | (Some x, None) \<Rightarrow> f) =
    (case (f, index_of c s) of (None, _) \<Rightarrow> index_of c s
      | (Some x, Some y) \<Rightarrow> if y < x then Some y else Some x | (Some x, None) \<Rightarrow> Some x)"
    by (simp split: option.split)
  ultimately show ?case using Cons.IH [of "A \<union> {c}"] by (simp add: Let_def)
qed simp

lemma first_delim_None: "first_in s (set t) (first_delim s t None)"
  using first_delim_first [of s "{}" None t] by (simp add: first_in_def)

text \<open>A call takes the text up to the first delimiter, and leaves what follows it.\<close>

lemma strtok_spec:
  assumes ne: "c_str s \<noteq> []"
  shows "php3_strtok (Some s) None tok =
    (let tk = takeWhile (\<lambda>c. c \<notin> set (c_str tok)) (c_str s)
     in (RETVAL tk, if tk = c_str s then None else Some (drop (length tk + 1) s)))"
proof -
  let ?s = "c_str s" and ?A = "set (c_str tok)"
  have f: "first_in ?s ?A (first_delim ?s (c_str tok) None)" by (rule first_delim_None)
  show ?thesis
  proof (cases "first_delim ?s (c_str tok) None")
    case None
    have "\<forall>c \<in> set ?s. c \<notin> ?A" using f None by (fastforce simp: first_in_def in_set_conv_nth [of _ ?s])
    then have tw: "takeWhile (\<lambda>c. c \<notin> ?A) ?s = ?s" unfolding takeWhile_eq_all_conv .
    show ?thesis using None ne unfolding tw by (simp add: php3_strtok_def)
  next
    case (Some i)
    then have i: "i < length ?s" "?s ! i \<in> ?A" "\<forall>j < i. ?s ! j \<notin> ?A" using f by (simp_all add: first_in_def)
    have "takeWhile (\<lambda>c. c \<notin> ?A) ?s = take i ?s" using i by (intro takeWhile_eq_take_P_nth) auto
    moreover have "take i ?s = take i s"
    proof -
      have "s = ?s @ dropWhile (\<lambda>c. c \<noteq> NUL) s" by (simp add: c_str_def)
      then have "take i s = take i (?s @ dropWhile (\<lambda>c. c \<noteq> NUL) s)" by (rule arg_cong)
      then show ?thesis using i(1) by simp
    qed
    moreover have "take i ?s \<noteq> ?s" using i(1) by (metis length_take min.absorb4 nat_neq_iff)
    moreover have "length (take i ?s) = i" using i(1) by simp
    ultimately show ?thesis using Some ne by (simp add: php3_strtok_def Let_def)
  qed
qed

end
