(* ===== verification/Str_Edit.thy ===== *)
theory Str_Edit
  imports Str_Search
begin

text \<open>
  Trimming, cutting, changing case, escaping and comparing in \<open>functions/string.c\<close>.  \<open>None\<close> is an
  access outside a block or an overflow of a signed integer.
\<close>

subsection \<open>Trimming\<close>

definition is_trim :: "char \<Rightarrow> bool" where
  "is_trim c \<longleftrightarrow> uchar c \<in> {32, 10, 13, 9, 11, 0}"

fun trim_count :: "string \<Rightarrow> nat" where
  "trim_count [] = 0"
| "trim_count (c # cs) = (if is_trim c then trim_count cs + 1 else 0)"

text \<open>The loop from the end: the length that is left of the first \<open>len\<close> bytes.\<close>

fun chop_len :: "string \<Rightarrow> nat \<Rightarrow> nat" where
  "chop_len s 0 = 0"
| "chop_len s (Suc n) = (if is_trim (s ! n) then chop_len s n else Suc n)"

definition php3_chop :: "string \<Rightarrow> string" where
  "php3_chop s = take (chop_len s (length s)) s"

definition php3_ltrim :: "string \<Rightarrow> string" where
  "php3_ltrim s = drop (trim_count s) s"

definition php3_trim :: "string \<Rightarrow> string" where
  "php3_trim s = (let c = drop (trim_count s) s in take (chop_len c (length s - trim_count s)) c)"

subsection \<open>Case\<close>

text \<open>\<open>_php3_strtoupper\<close> changes a C string in place.\<close>

definition php3_strtoupper :: "string \<Rightarrow> string" where
  "php3_strtoupper s = map toupper (c_str s)"

definition php3_strtolower :: "string \<Rightarrow> string" where
  "php3_strtolower s = map tolower (c_str s)"

definition php3_ucfirst :: "string \<Rightarrow> string ret" where
  "php3_ucfirst s =
     (case c_str s of [] \<Rightarrow> RETURN_FALSE | c # cs \<Rightarrow> RETVAL (toupper c # cs))"

function ucwords_loop :: "string \<Rightarrow> string" where
  "ucwords_loop [] = []"
| "ucwords_loop (c # s) =
     (if c = CHR '' '' then (case s of [] \<Rightarrow> [c] | d # t \<Rightarrow> c # ucwords_loop (toupper d # t))
      else c # ucwords_loop s)"
  by pat_completeness auto

termination ucwords_loop by (relation "measure length") auto

definition php3_ucwords :: "string \<Rightarrow> string ret" where
  "php3_ucwords s =
     (case c_str s of [] \<Rightarrow> RETURN_FALSE | c # cs \<Rightarrow> RETVAL (ucwords_loop (toupper c # cs)))"

subsection \<open>Path names\<close>

text \<open>
  The length left after the trailing slashes of a C string.  The loop has no lower bound: when
  every byte is a slash it reads in front of the block.
\<close>

fun strip_slashes :: "string \<Rightarrow> nat \<Rightarrow> nat option" where
  "strip_slashes s 0 = None"
| "strip_slashes s (Suc n) = (if s ! n = CHR ''/'' then strip_slashes s n else Some (Suc n))"

definition php3_basename :: "string \<Rightarrow> string option" where
  "php3_basename s =
     (if c_str s \<noteq> s then None
      else do {
        n \<leftarrow> strip_slashes s (length s);
        let t = take n s;
        Some (case strrchr t (CHR ''/'') of Some i \<Rightarrow> drop (i + 1) t | None \<Rightarrow> s)
      })"

definition php3_dirname :: "string \<Rightarrow> string ret option" where
  "php3_dirname s =
     (if c_str s \<noteq> s then None
      else do {
        n \<leftarrow> strip_slashes s (length s);
        let t = take n s;
        let r = (case strrchr t (CHR ''/'') of Some i \<Rightarrow> take i t | None \<Rightarrow> []);
        Some (if r = [] then RETURN_FALSE else RETVAL r)
      })"

subsection \<open>Cutting\<close>

text \<open>The chunks of a text: complete ones, and a rest when it is not empty.\<close>

function chunk_loop :: "string \<Rightarrow> string \<Rightarrow> nat \<Rightarrow> string" where
  "chunk_loop src ending n =
     (if n = 0 then []
      else if n \<le> length src then take n src @ ending @ chunk_loop (drop n src) ending n
      else if src = [] then [] else src @ ending)"
  by pat_completeness auto

termination chunk_loop by (relation "measure (\<lambda>(src, ending, n). length src)") auto

declare chunk_loop.simps [simp del]

definition chunk_split_size :: "string \<Rightarrow> string \<Rightarrow> nat \<Rightarrow> int" where
  "chunk_split_size src ending n = int_of_long (int (length src) + (int (length src div n) + 1) * int (length ending) + 1)"

definition php3_chunk_split :: "string \<Rightarrow> int option \<Rightarrow> string option \<Rightarrow> string ret option" where
  "php3_chunk_split src clen ending =
     (let n = (case clen of None \<Rightarrow> 76 | Some l \<Rightarrow> int_of_long l);
          e = (case ending of None \<Rightarrow> [CHR 0x0D, CHR 0x0A] | Some e \<Rightarrow> e)
      in if n = 0 then Some (WARN_FALSE ''chunk length is 0'')
         else if n < 0 then None
         else
           let out = chunk_loop src e (nat n)
           in if int (length out) + 1 \<le> chunk_split_size src e (nat n) then Some (RETVAL out) else None)"

definition php3_substr :: "string \<Rightarrow> int \<Rightarrow> int option \<Rightarrow> string ret option" where
  "php3_substr s from len_arg =
     (let len = int (length s);
          l0 = (case len_arg of None \<Rightarrow> len | Some n \<Rightarrow> int_of_long n);
          f0 = int_of_long from;
          f = (if f0 < 0 then (if len + f0 < 0 then 0 else len + f0) else f0);
          l = (if l0 < 0 then (if (len - f) + l0 < 0 then 0 else (len - f) + l0) else l0)
      in if f \<ge> len then Some RETURN_FALSE
         else if f + l > 2147483647 then None
         else let l' = (if f + l > len then len - f else l)
              in Some (RETVAL (take (nat l') (drop (nat f) s))))"

subsection \<open>Escaping\<close>

definition is_meta :: "char \<Rightarrow> bool" where
  "is_meta c \<longleftrightarrow> c \<in> set [CHR ''.'', CHR 0x5C, CHR ''+'', CHR ''*'', CHR ''?'', CHR ''['', CHR ''^'',
     CHR '']'', CHR ''$'', CHR ''('', CHR '')'']"

definition php3_quotemeta :: "string \<Rightarrow> string ret" where
  "php3_quotemeta s =
     (if c_str s = [] then RETURN_FALSE
      else RETVAL (concat (map (\<lambda>c. if is_meta c then [CHR 0x5C, c] else [c]) (c_str s))))"

text \<open>\<open>sybase\<close> is the setting \<open>magic_quotes_sybase\<close>.\<close>

definition slash_char :: "bool \<Rightarrow> char \<Rightarrow> string" where
  "slash_char sybase c =
     (if c = NUL then [CHR 0x5C, CHR ''0'']
      else if c = CHR 0x27 \<and> sybase then [CHR 0x27, CHR 0x27]
      else if c = CHR 0x27 \<or> c = CHR 0x22 \<or> c = CHR 0x5C then (if sybase then [c] else [CHR 0x5C, c])
      else [c])"

definition php3_addslashes :: "bool \<Rightarrow> string \<Rightarrow> string option" where
  "php3_addslashes sybase s =
     (let out = concat (map (slash_char sybase) s)
      in if length out + 1 \<le> length s * 2 + 1 then Some out else None)"

fun stripslashes :: "bool \<Rightarrow> string \<Rightarrow> string" where
  "stripslashes sybase [] = []"
| "stripslashes sybase (c # cs) =
     (if c = (if sybase then CHR 0x27 else CHR 0x5C) then
        (case cs of [] \<Rightarrow> [] | d # ds \<Rightarrow> (if d = CHR ''0'' then NUL else d) # stripslashes sybase ds)
      else c # stripslashes sybase cs)"

definition php3_stripslashes :: "bool \<Rightarrow> string \<Rightarrow> string" where
  "php3_stripslashes sybase s = stripslashes sybase (c_str s)"

definition hexconvtab :: string where
  "hexconvtab = ''0123456789abcdef''"

definition php_bin2hex :: "string \<Rightarrow> string" where
  "php_bin2hex s = concat (map (\<lambda>c. [hexconvtab ! drop_bit 4 (uchar c), hexconvtab ! (uchar c AND 15)]) s)"

definition php3_newline_to_br :: "string \<Rightarrow> string option" where
  "php3_newline_to_br s = php3_char_to_str s (CHR 0x0A) (''<br>'' @ [CHR 0x0A])"

subsection \<open>Translating and reversing\<close>

text \<open>The table of \<open>_php3_strtr\<close>: a later pair overrides an earlier one.\<close>

fun xlat :: "string \<Rightarrow> string \<Rightarrow> (char \<Rightarrow> char) \<Rightarrow> char \<Rightarrow> char" where
  "xlat (a # as) (b # bs) f = xlat as bs (f(a := b))"
| "xlat as bs f = f"

definition php3_strtr :: "string \<Rightarrow> string \<Rightarrow> string \<Rightarrow> string" where
  "php3_strtr s from to =
     (if from = [] \<or> to = [] \<or> s = [] then c_str s else c_str (map (xlat from to id) s))"

text \<open>\<open>php3_strrev\<close> swaps from both ends.\<close>

function strrev_loop :: "nat \<Rightarrow> string \<Rightarrow> string" where
  "strrev_loop i s =
     (if int i < int (length s) - 1 - int i then
        strrev_loop (i + 1) (s[i := s ! (length s - 1 - i), length s - 1 - i := s ! i])
      else s)"
  by pat_completeness auto

termination strrev_loop by (relation "measure (\<lambda>(i, s). length s - i)") auto

declare strrev_loop.simps [simp del]

definition php3_strrev :: "string \<Rightarrow> string" where
  "php3_strrev s = strrev_loop 0 s"

definition php3_ord :: "string \<Rightarrow> nat" where
  "php3_ord s = uchar (hd (s @ [NUL]))"

definition php3_chr :: "int \<Rightarrow> string" where
  "php3_chr n = [char_of_long n]"

subsection \<open>Similarity\<close>

fun common_prefix :: "string \<Rightarrow> string \<Rightarrow> nat" where
  "common_prefix (c # cs) (d # ds) = (if c = d then common_prefix cs ds + 1 else 0)"
| "common_prefix cs ds = 0"

text \<open>\<open>_php3_similar_str\<close>: the first longest common substring, its places and its length.\<close>

definition similar_str :: "string \<Rightarrow> string \<Rightarrow> nat \<times> nat \<times> nat" where
  "similar_str t1 t2 =
     fold (\<lambda>(p, q) (pos1, pos2, mx).
             let l = common_prefix (drop p t1) (drop q t2)
             in if l > mx then (p, q, l) else (pos1, pos2, mx))
       (concat (map (\<lambda>p. map (Pair p) [0..<length t2]) [0..<length t1])) (0, 0, 0)"

function similar_char :: "string \<Rightarrow> string \<Rightarrow> nat" where
  "similar_char t1 t2 =
     (let (pos1, pos2, mx) = similar_str t1 t2 in
      if mx = 0 then 0
      else mx
        + (if pos1 \<noteq> 0 \<and> pos2 \<noteq> 0 \<and> pos1 < length t1 then similar_char (take pos1 t1) (take pos2 t2) else 0)
        + (if pos1 + mx < length t1 \<and> pos2 + mx < length t2
           then similar_char (drop (pos1 + mx) t1) (drop (pos2 + mx) t2) else 0))"
  by pat_completeness auto

termination similar_char by (relation "measure (\<lambda>(t1, t2). length t1)") auto

declare similar_char.simps [simp del]

definition php3_similar_text :: "string \<Rightarrow> string \<Rightarrow> nat" where
  "php3_similar_text t1 t2 = (if length t1 + length t2 = 0 then 0 else similar_char t1 t2)"

end
