(* ===== verification/Str_Laws.thy ===== *)
theory Str_Laws
  imports Str_Edit Codec
begin

text \<open>
  What the operations of \<open>Str_Edit\<close> compute, against plain list functions.
\<close>

subsection \<open>Trimming\<close>

lemma trim_count_dropWhile: "drop (trim_count s) s = dropWhile is_trim s"
  by (induction s) auto

lemma trim_count_le: "trim_count s \<le> length s"
  by (induction s) auto

lemma chop_len_take:
  "n \<le> length s \<Longrightarrow> take (chop_len s n) s = rev (dropWhile is_trim (rev (take n s)))"
  by (induction n) (auto simp: take_Suc_conv_app_nth)

lemma chop_eq: "php3_chop s = rev (dropWhile is_trim (rev s))"
  by (simp add: php3_chop_def chop_len_take)

lemma ltrim_eq: "php3_ltrim s = dropWhile is_trim s"
  by (simp add: php3_ltrim_def trim_count_dropWhile)

lemma trim_eq: "php3_trim s = php3_chop (php3_ltrim s)"
proof -
  have "length s - trim_count s = length (drop (trim_count s) s)" by simp
  then show ?thesis unfolding php3_trim_def php3_chop_def php3_ltrim_def Let_def by simp
qed

lemma chop_split: "\<exists>b. s = php3_chop s @ b \<and> (\<forall>c\<in>set b. is_trim c)"
proof -
  have "rev s = takeWhile is_trim (rev s) @ dropWhile is_trim (rev s)" by simp
  then have "s = rev (dropWhile is_trim (rev s)) @ rev (takeWhile is_trim (rev s))"
    by (metis rev_append rev_rev_ident)
  then show ?thesis unfolding chop_eq using set_takeWhileD by fastforce
qed

lemma ltrim_split: "\<exists>a. s = a @ php3_ltrim s \<and> (\<forall>c\<in>set a. is_trim c)"
  unfolding ltrim_eq by (metis set_takeWhileD takeWhile_dropWhile_id)

lemma chop_last: "php3_chop s \<noteq> [] \<Longrightarrow> \<not> is_trim (last (php3_chop s))"
  unfolding chop_eq by (simp add: last_rev hd_dropWhile)

lemma ltrim_hd: "php3_ltrim s \<noteq> [] \<Longrightarrow> \<not> is_trim (hd (php3_ltrim s))"
  unfolding ltrim_eq by (simp add: hd_dropWhile)

lemma trim_split:
  "\<exists>a b. s = a @ php3_trim s @ b \<and> (\<forall>c\<in>set (a @ b). is_trim c) \<and>
     (php3_trim s \<noteq> [] \<longrightarrow> \<not> is_trim (hd (php3_trim s)) \<and> \<not> is_trim (last (php3_trim s)))"
proof -
  obtain a where a: "s = a @ php3_ltrim s" "\<forall>c\<in>set a. is_trim c" using ltrim_split by blast
  obtain b where b: "php3_ltrim s = php3_trim s @ b" "\<forall>c\<in>set b. is_trim c"
    using chop_split unfolding trim_eq by blast
  have "php3_trim s \<noteq> [] \<Longrightarrow> \<not> is_trim (hd (php3_trim s))"
    using ltrim_hd [of s] b(1) by (metis append_is_Nil_conv hd_append2)
  then show ?thesis using a b chop_last [of "php3_ltrim s"] unfolding trim_eq [symmetric]
    by (intro exI [of _ a] exI [of _ b]) auto
qed

lemma trim_fixed:
  "s \<noteq> [] \<longrightarrow> \<not> is_trim (hd s) \<and> \<not> is_trim (last s) \<Longrightarrow> php3_trim s = s"
  unfolding trim_eq ltrim_eq chop_eq
  by (metis dropWhile_eq_self_iff hd_rev rev_is_Nil_conv rev_rev_ident)

subsection \<open>Reversal\<close>

lemma strrev_swap:
  assumes "i < length s - 1 - i" "xs @ ys @ zs = s" "length xs = i" "length zs = i"
  shows "s[i := s ! (length s - 1 - i), length s - 1 - i := s ! i]
       = xs @ [last ys] @ butlast (tl ys) @ [hd ys] @ zs"
proof -
  have lys: "length ys \<ge> 2" using assms by auto
  then obtain y ms z where ys: "ys = y # ms @ [z]"
    by (metis One_nat_def Suc_1 append_butlast_last_id butlast.simps(2) length_Cons list.exhaust
        list.size(3) not_less_eq_eq le0)
  have l: "length s - 1 - i = length (xs @ y # ms)" using assms ys by auto
  have s: "s = xs @ y # ms @ z # zs" using assms ys by simp
  show ?thesis unfolding l using s assms(3) ys
    by (simp add: nth_append list_update_append)
qed

lemma strrev_loop_eq:
  "length xs = i \<Longrightarrow> length zs = i \<Longrightarrow> strrev_loop i (xs @ ys @ zs) = xs @ rev ys @ zs"
proof (induction "length ys" arbitrary: i xs ys zs rule: less_induct)
  case less
  let ?s = "xs @ ys @ zs"
  show ?case
  proof (cases "int i < int (length ?s) - 1 - int i")
    case False
    then have "length ys \<le> 1" using less.prems by simp
    then have "rev ys = ys" by (cases ys) auto
    then show ?thesis using False by (simp add: strrev_loop.simps)
  next
    case True
    then have lt: "i < length ?s - 1 - i" using less.prems by simp
    then have lys: "length ys \<ge> 2" using less.prems by simp
    then obtain y ms z where ys: "ys = y # ms @ [z]"
      by (metis One_nat_def Suc_1 append_butlast_last_id butlast.simps(2) length_Cons list.exhaust
          list.size(3) not_less_eq_eq le0)
    have "strrev_loop i ?s
        = strrev_loop (i + 1) (xs @ [last ys] @ butlast (tl ys) @ [hd ys] @ zs)"
      using True strrev_swap [OF lt refl less.prems] by (subst strrev_loop.simps) simp
    also have "\<dots> = strrev_loop (Suc i) ((xs @ [z]) @ ms @ (y # zs))" using ys by simp
    also have "\<dots> = (xs @ [z]) @ rev ms @ (y # zs)"
      using less.hyps [of ms "xs @ [z]" "Suc i" "y # zs"] less.prems ys by simp
    finally show ?thesis using ys by simp
  qed
qed

lemma strrev_eq: "php3_strrev s = rev s"
  unfolding php3_strrev_def using strrev_loop_eq [of "[]" 0 "[]" s] by simp

subsection \<open>Parts of a string\<close>

text \<open>The bounds \<open>substr\<close> works with, once negative numbers count from the end.\<close>

definition substr_from :: "int \<Rightarrow> int \<Rightarrow> int" where
  "substr_from n f = (if f < 0 then max 0 (n + f) else f)"

definition substr_to :: "int \<Rightarrow> int \<Rightarrow> int \<Rightarrow> int" where
  "substr_to n f l = (if l < 0 then max f (n + l) else min n (f + l))"

lemma substr_spec:
  fixes s :: string and f l :: int
  defines "n \<equiv> int (length s)"
  defines "a \<equiv> substr_from n f"
  assumes n: "n \<le> 2147483647"
    and f: "- 2147483648 \<le> f" "f \<le> 2147483647"
    and l: "- 2147483648 \<le> l" "a + l \<le> 2147483647"
  shows "php3_substr s f (Some l) =
    Some (if n \<le> a then RETURN_FALSE
          else RETVAL (take (nat (substr_to n a l - a)) (drop (nat a) s)))"
proof -
  have "0 \<le> a" unfolding a_def substr_from_def by simp
  then have "l \<le> 2147483647" using l by simp
  then have i: "int_of_long f = f" "int_of_long l = l" using f l by (simp_all add: int_exact)
  have a: "a = (if f < 0 then (if n + f < 0 then 0 else n + f) else f)"
    unfolding a_def substr_from_def by simp
  have g: "l < 0 \<Longrightarrow> nat ((n - a) + l) = nat (n + l - a)" by (simp add: algebra_simps)
  show ?thesis
    unfolding php3_substr_def Let_def i option.case n_def [symmetric] a [symmetric]
    using n l g by (auto simp: substr_to_def max_def min_def algebra_simps)
qed

subsection \<open>Chunks\<close>

text \<open>The pieces of a text, all of \<open>n\<close> bytes but the last one.\<close>

function chunks :: "nat \<Rightarrow> string \<Rightarrow> string list" where
  "chunks n s = (if s = [] \<or> n = 0 then [] else take n s # chunks n (drop n s))"
  by pat_completeness auto

termination chunks by (relation "measure (\<lambda>(n, s). length s)") auto

declare chunks.simps [simp del]

lemma chunk_loop_eq: "0 < n \<Longrightarrow> chunk_loop s e n = concat (map (\<lambda>c. c @ e) (chunks n s))"
proof (induction n s rule: chunks.induct)
  case (1 n s)
  consider "s = []" | "s \<noteq> []" "length s < n" | "n \<le> length s" by linarith
  then show ?case
  proof cases
    case 1
    then show ?thesis using \<open>0 < n\<close> by (simp add: chunk_loop.simps [of "[]"] chunks.simps [of n "[]"])
  next
    case 2
    then have "chunks n (drop n s) = []" by (simp add: chunks.simps)
    then show ?thesis using 2 by (simp add: chunk_loop.simps [of s] chunks.simps [of n s])
  next
    case 3
    then show ?thesis using "1" by (auto simp: chunk_loop.simps [of s] chunks.simps [of n s])
  qed
qed

lemma chunks_concat: "0 < n \<Longrightarrow> concat (chunks n s) = s"
  by (induction n s rule: chunks.induct) (auto simp: chunks.simps)

lemma chunks_size: "0 < n \<Longrightarrow> c \<in> set (butlast (chunks n s)) \<Longrightarrow> length c = n"
proof (induction n s rule: chunks.induct)
  case (1 n s)
  then show ?case
    by (subst (asm) (2) chunks.simps) (auto simp: chunks.simps [of n "drop n s"] split: if_splits)
qed

lemma chunks_bound: "0 < n \<Longrightarrow> c \<in> set (chunks n s) \<Longrightarrow> 0 < length c \<and> length c \<le> n"
proof (induction n s rule: chunks.induct)
  case (1 n s)
  then show ?case by (subst (asm) (2) chunks.simps) (auto split: if_splits)
qed

lemma chunks_count: "0 < n \<Longrightarrow> length (chunks n s) \<le> length s div n + 1"
proof (induction n s rule: chunks.induct)
  case (1 n s)
  show ?case
  proof (cases "n \<le> length s")
    case True
    then have "s \<noteq> []" using 1(2) by auto
    moreover have "length s div n = (length s - n) div n + 1" using True 1(2) by (simp add: le_div_geq)
    ultimately show ?thesis using 1 by (simp add: chunks.simps [of n s])
  next
    case False
    then have "chunks n (drop n s) = []" by (simp add: chunks.simps)
    then show ?thesis by (simp add: chunks.simps [of n s])
  qed
qed

lemma chunk_split_ok:
  assumes "0 < int_of_long n" "length s + (length s div nat (int_of_long n) + 1) * length e < 2147483647"
  shows "php3_chunk_split s (Some n) (Some e) =
    Some (RETVAL (concat (map (\<lambda>c. c @ e) (chunks (nat (int_of_long n)) s))))"
proof -
  let ?n = "nat (int_of_long n)" and ?l = "chunk_loop s e (nat (int_of_long n))"
  have n: "0 < ?n" using assms by simp
  have "length (concat (map (\<lambda>c. c @ e) cs)) = length (concat cs) + length cs * length e" for cs
    by (induction cs) simp_all
  then have l: "length ?l = length s + length (chunks ?n s) * length e"
    using n by (simp add: chunk_loop_eq chunks_concat)
  define k where "k = length s + (length s div ?n + 1) * length e + 1"
  have "int (length s) + (int (length s div ?n) + 1) * int (length e) + 1 = int k" by (simp add: k_def algebra_simps)
  moreover have "k < 2147483648" using assms(2) by (simp add: k_def)
  then have "int_of_long (int k) = int k" by (intro int_exact) simp_all
  ultimately have "chunk_split_size s e ?n = int k" by (simp add: chunk_split_size_def)
  then have "int (length ?l) + 1 \<le> chunk_split_size s e ?n"
  proof -
    have "length ?l + 1 \<le> k"
      using l mult_le_mono1 [OF chunks_count [OF n, of s], of "length e"] by (simp add: k_def)
    then show ?thesis using \<open>chunk_split_size s e ?n = int k\<close> by simp
  qed
  then show ?thesis
    unfolding php3_chunk_split_def Let_def option.case using assms(1) n chunk_loop_eq [of ?n s e] by simp
qed

subsection \<open>Hexadecimal digits\<close>

text \<open>Reading the digits back, two for a byte.\<close>

definition nibble_value :: "char \<Rightarrow> nat" where
  "nibble_value c = (case index_of c hexconvtab of None \<Rightarrow> 0 | Some i \<Rightarrow> i)"

fun unhex :: "string \<Rightarrow> string" where
  "unhex (a # b # s) = char_of (16 * nibble_value a + nibble_value b) # unhex s"
| "unhex s = []"

lemma nibble_value_nth: "i < 16 \<Longrightarrow> nibble_value (hexconvtab ! i) = i"
proof -
  assume i: "i < 16"
  have "length hexconvtab = 16" "distinct hexconvtab" unfolding hexconvtab_def by simp_all
  then have "index_of (hexconvtab ! i) hexconvtab = Some i"
    unfolding index_of_Some using i by (auto simp: in_set_conv_nth nth_eq_iff_index_eq)
  then show ?thesis by (simp add: nibble_value_def)
qed

lemma unhex_bin2hex: "unhex (php_bin2hex s) = s"
proof (induction s)
  case (Cons c s)
  have "uchar c div 16 < 16" using less_mult_imp_div_less [of "uchar c" 16 16] by simp
  then have "nibble_value (hexconvtab ! (uchar c div 16)) = uchar c div 16" by (rule nibble_value_nth)
  moreover have "nibble_value (hexconvtab ! (uchar c mod 16)) = uchar c mod 16"
    by (rule nibble_value_nth) simp
  ultimately show ?case using Cons unfolding php_bin2hex_def by (simp add: shifts and_mask)
qed (simp add: php_bin2hex_def)

lemma length_bin2hex: "length (php_bin2hex s) = 2 * length s"
  unfolding php_bin2hex_def by (induction s) simp_all

subsection \<open>Slashes\<close>

lemma slash_fits: "length (concat (map (slash_char b) s)) \<le> 2 * length s"
  by (induction s) (auto simp: slash_char_def)

lemma addslashes_eq: "php3_addslashes b s = Some (concat (map (slash_char b) s))"
  unfolding php3_addslashes_def Let_def using slash_fits [of b s] by simp

lemma slash_no_nul: "NUL \<notin> set (concat (map (slash_char b) s))"
  by (induction s) (auto simp: slash_char_def NUL_def)

lemma stripslashes_slash:
  "b \<longrightarrow> NUL \<notin> set s \<Longrightarrow> stripslashes b (concat (map (slash_char b) s)) = s"
  by (induction s) (auto simp: slash_char_def NUL_def)

lemma strip_add_slashes:
  "b \<longrightarrow> NUL \<notin> set s \<Longrightarrow> map_option (php3_stripslashes b) (php3_addslashes b s) = Some s"
  unfolding addslashes_eq php3_stripslashes_def
  using slash_no_nul [of b s] stripslashes_slash [of b s] by (simp add: c_str_no_nul)

interpretation slashes: codec "\<lambda>s. b \<longrightarrow> NUL \<notin> set s" "\<lambda>s. the (php3_addslashes b s)"
    "\<lambda>t. Some (php3_stripslashes b t)" "\<lambda>n. 2 * n" for b
proof
  fix s
  assume "b \<longrightarrow> NUL \<notin> set s"
  then show "Some (php3_stripslashes b (the (php3_addslashes b s))) = Some s"
    using strip_add_slashes [of b s] by (simp add: addslashes_eq)
qed (simp_all only: addslashes_eq option.sel slash_fits slash_no_nul not_False_eq_True)

subsection \<open>Words\<close>

lemma toupper_space: "toupper c = CHR '' '' \<longleftrightarrow> c = CHR '' ''"
proof
  assume h: "toupper c = CHR '' ''"
  show "c = CHR '' ''"
  proof (cases "97 \<le> uchar c \<and> uchar c \<le> 122")
    case True
    have "uchar c - 32 < 256" using True by linarith
    then have "uchar (toupper c) = uchar c - 32" using True uchar_char_of by (simp add: toupper_def)
    then have "uchar c - 32 = 32" using h by (simp add: uchar_def)
    with True have False by linarith
    then show ?thesis ..
  qed (use h in \<open>auto simp: toupper_def\<close>)
qed (simp add: toupper_def uchar_def)

text \<open>Every letter behind a space, and the first one when \<open>start\<close>, is changed.\<close>

fun capitalize :: "bool \<Rightarrow> string \<Rightarrow> string" where
  "capitalize start [] = []"
| "capitalize start (c # s) = (if start then toupper c else c) # capitalize (c = CHR '' '') s"

lemma ucwords_loop_eq: "ucwords_loop (c # s) = c # capitalize (c = CHR '' '') s"
proof (induction s arbitrary: c)
  case (Cons d t)
  show ?case using Cons [of "toupper d"] Cons [of d] by (simp add: toupper_space)
qed simp

lemma capitalize_nth:
  "i < length s \<Longrightarrow> capitalize start s ! i
     = (if (if i = 0 then start else s ! (i - 1) = CHR '' '') then toupper (s ! i) else s ! i)"
proof (induction s arbitrary: start i)
  case (Cons c s)
  then show ?case by (cases i) (auto simp: nth_Cons split: nat.splits)
qed simp

lemma length_capitalize [simp]: "length (capitalize start s) = length s"
  by (induction s arbitrary: start) simp_all

lemma ucwords_eq: "s \<noteq> [] \<Longrightarrow> NUL \<notin> set s \<Longrightarrow> php3_ucwords s = RETVAL (capitalize True s)"
  unfolding php3_ucwords_def
  by (cases s) (simp_all add: c_str_no_nul ucwords_loop_eq toupper_space del: ucwords_loop.simps)

subsection \<open>Paths\<close>

lemma strip_slashes_path:
  "b \<noteq> [] \<Longrightarrow> last b \<noteq> CHR ''/'' \<Longrightarrow>
     strip_slashes (b @ replicate k (CHR ''/'')) (length b + k) = Some (length b)"
proof (induction k)
  case 0
  then show ?case by (cases b rule: rev_cases) auto
next
  case (Suc k)
  have "strip_slashes (s @ [c]) n = strip_slashes s n" if "n \<le> length s" for s c n
    using that by (induction n) (auto simp: nth_append)
  then have "strip_slashes (b @ replicate (Suc k) (CHR ''/'')) (length b + k)
      = strip_slashes (b @ replicate k (CHR ''/'')) (length b + k)"
    by (simp add: replicate_append_same [symmetric] del: append_assoc add: append_assoc [symmetric])
  moreover have "(b @ replicate (Suc k) (CHR ''/'')) ! (length b + k) = CHR ''/''"
    by (simp add: nth_append del: replicate_Suc)
  ultimately show ?case using Suc by (simp del: replicate_Suc)
qed

lemma strip_slashes_all: "strip_slashes (replicate k (CHR ''/'')) k = None"
proof -
  have "n \<le> k \<Longrightarrow> strip_slashes (replicate k (CHR ''/'')) n = None" for n by (induction n) simp_all
  then show ?thesis by simp
qed

lemma index_of_notin: "c \<notin> set xs \<Longrightarrow> index_of c (xs @ c # ys) = Some (length xs)"
  by (induction xs) auto

lemma strrchr_path:
  "NUL \<notin> set (d @ b) \<Longrightarrow> CHR ''/'' \<notin> set b \<Longrightarrow> strrchr (d @ CHR ''/'' # b) (CHR ''/'') = Some (length d)"
proof -
  assume n: "NUL \<notin> set (d @ b)" and b: "CHR ''/'' \<notin> set b"
  have "c_str (d @ CHR ''/'' # b) = d @ CHR ''/'' # b" by (rule c_str_no_nul) (use n in \<open>auto simp: NUL_def\<close>)
  moreover have "index_of (CHR ''/'') (rev b @ CHR ''/'' # rev d) = Some (length (rev b))"
    by (rule index_of_notin) (use b in simp)
  ultimately show ?thesis unfolding strrchr_def by (simp add: NUL_def)
qed

lemma path_parts:
  fixes d b :: string and k :: nat
  assumes b: "b \<noteq> []" "CHR ''/'' \<notin> set b" and n: "NUL \<notin> set (d @ b)"
  defines "p \<equiv> d @ CHR ''/'' # b @ replicate k (CHR ''/'')"
  shows "php3_basename p = Some b"
    and "php3_dirname p = Some (if d = [] then RETURN_FALSE else RETVAL d)"
proof -
  have c: "c_str p = p"
    unfolding p_def by (rule c_str_no_nul) (use n in \<open>auto simp: NUL_def\<close>)
  have "last (d @ CHR ''/'' # b) \<noteq> CHR ''/''" using b by (auto dest: last_in_set)
  then have s: "strip_slashes p (length p) = Some (length d + 1 + length b)"
    unfolding p_def using strip_slashes_path [of "d @ CHR ''/'' # b" k] by (simp add: add.assoc del: strip_slashes.simps)
  have t: "take (length d + 1 + length b) p = d @ CHR ''/'' # b" unfolding p_def by simp
  show "php3_basename p = Some b" "php3_dirname p = Some (if d = [] then RETURN_FALSE else RETVAL d)"
    unfolding php3_basename_def php3_dirname_def c s Let_def bind.bind_lunit t strrchr_path [OF n b(2)]
    by simp_all
qed

lemma slashes_underrun:
  "php3_basename (replicate k (CHR ''/'')) = None" "php3_dirname (replicate k (CHR ''/'')) = None"
proof -
  have "c_str (replicate k (CHR ''/'')) = replicate k (CHR ''/'')"
    by (rule c_str_no_nul) (simp add: NUL_def)
  then show "php3_basename (replicate k (CHR ''/'')) = None" "php3_dirname (replicate k (CHR ''/'')) = None"
    unfolding php3_basename_def php3_dirname_def by (simp_all add: strip_slashes_all)
qed

subsection \<open>Similarity\<close>

lemma common_prefix_le: "common_prefix s t \<le> length s" "common_prefix s t \<le> length t"
  by (induction s t rule: common_prefix.induct) auto

lemma common_prefix_self: "common_prefix s s = length s"
  by (induction s) auto

lemma common_prefix_take: "take (common_prefix s t) s = take (common_prefix s t) t"
  by (induction s t rule: common_prefix.induct) auto

text \<open>The fold keeps the best pair seen: an upper bound for all, reached by the pair it keeps.\<close>

lemma best_pair:
  fixes l :: "nat \<Rightarrow> nat \<Rightarrow> nat"
  defines "g \<equiv> \<lambda>(p, q) (a, b, m). if l p q > m then (p, q, l p q) else (a, b, m)"
  assumes "fold g ps (a, b, m) = (a', b', m')"
  shows "m \<le> m' \<and> (\<forall>(p, q)\<in>set ps. l p q \<le> m') \<and>
    (m' = m \<and> a' = a \<and> b' = b \<or> (a', b') \<in> set ps \<and> m' = l a' b' \<and> m < m')"
  using assms(2)
proof (induction ps arbitrary: a b m)
  case (Cons x ps)
  obtain p q where x: "x = (p, q)" by fastforce
  show ?case
  proof (cases "l p q > m")
    case True
    then have "fold g ps (p, q, l p q) = (a', b', m')" using Cons.prems x by (simp add: g_def)
    from Cons.IH [OF this] show ?thesis using True x by auto
  next
    case False
    then have "fold g ps (a, b, m) = (a', b', m')" using Cons.prems x by (simp add: g_def)
    from Cons.IH [OF this] show ?thesis using False x by auto
  qed
qed simp

lemma similar_str_best:
  assumes "similar_str s t = (a, b, m)"
  shows "\<forall>p<length s. \<forall>q<length t. common_prefix (drop p s) (drop q t) \<le> m"
    and "m = 0 \<or> a < length s \<and> b < length t \<and> m = common_prefix (drop a s) (drop b t)"
proof -
  let ?ps = "concat (map (\<lambda>p. map (Pair p) [0..<length t]) [0..<length s])"
  have "fold (\<lambda>(p, q) (a, b, m). if common_prefix (drop p s) (drop q t) > m
          then (p, q, common_prefix (drop p s) (drop q t)) else (a, b, m)) ?ps (0, 0, 0) = (a, b, m)"
    using assms unfolding similar_str_def Let_def .
  from best_pair [OF this]
  show "\<forall>p<length s. \<forall>q<length t. common_prefix (drop p s) (drop q t) \<le> m"
    and "m = 0 \<or> a < length s \<and> b < length t \<and> m = common_prefix (drop a s) (drop b t)"
    by auto
qed

lemma similar_str_bounds: "similar_str s t = (a, b, m) \<Longrightarrow> m \<noteq> 0 \<Longrightarrow> a + m \<le> length s \<and> b + m \<le> length t"
  using similar_str_best(2) [of s t a b m] common_prefix_le [of "drop a s" "drop b t"] by auto

lemma similar_char_le: "similar_char s t \<le> length s \<and> similar_char s t \<le> length t"
proof (induction s t rule: similar_char.induct)
  case (1 s t)
  obtain a b m where r: "similar_str s t = (a, b, m)" by (cases "similar_str s t")
  show ?case
  proof (cases "m = 0")
    case False
    have l: "a + m \<le> length s" "b + m \<le> length t" using similar_str_bounds [OF r False] by auto
    let ?x = "if a \<noteq> 0 \<and> b \<noteq> 0 \<and> a < length s then similar_char (take a s) (take b t) else 0"
    let ?y = "if a + m < length s \<and> b + m < length t
      then similar_char (drop (a + m) s) (drop (b + m) t) else 0"
    have "?x \<le> a \<and> ?x \<le> b" using "1.IH"(1) [OF r [symmetric] refl refl False] by auto
    moreover have "?y \<le> length s - (a + m) \<and> ?y \<le> length t - (b + m)"
      using "1.IH"(2) [OF r [symmetric] refl refl False] by auto
    moreover have "similar_char s t = m + ?x + ?y"
      using r False by (subst similar_char.simps) simp
    ultimately show ?thesis using l by linarith
  qed (use r in \<open>simp add: similar_char.simps [of s t]\<close>)
qed

lemma similar_char_self: "similar_char s s = length s"
proof (cases "s = []")
  case True
  have "similar_char s s \<le> length s" using similar_char_le by blast
  then show ?thesis using True by simp
next
  case False
  obtain a b m where r: "similar_str s s = (a, b, m)" by (cases "similar_str s s")
  have m: "length s \<le> m"
    using similar_str_best(1) [OF r] False common_prefix_self [of s] by (metis drop0 length_greater_0_conv)
  moreover have "0 < length s" using False by simp
  ultimately have "m \<noteq> 0" by linarith
  then have "a = 0" "b = 0" "m = length s" using similar_str_bounds [OF r] m by auto
  then show ?thesis using r by (subst similar_char.simps) simp
qed

lemma similar_char_0: "similar_char s t = 0 \<longleftrightarrow> set s \<inter> set t = {}"
proof -
  obtain a b m where r: "similar_str s t = (a, b, m)" by (cases "similar_str s t")
  have "similar_char s t = 0 \<longleftrightarrow> m = 0"
    using r by (subst similar_char.simps) simp
  also have "\<dots> \<longleftrightarrow> set s \<inter> set t = {}"
  proof
    assume m: "m = 0"
    show "set s \<inter> set t = {}"
    proof (rule ccontr)
      assume "set s \<inter> set t \<noteq> {}"
      then obtain c where "c \<in> set s" "c \<in> set t" by auto
      then obtain p q where pq: "p < length s" "q < length t" "s ! p = t ! q"
        by (metis in_set_conv_nth)
      then have "common_prefix (drop p s) (drop q t) \<noteq> 0" by (simp add: Cons_nth_drop_Suc [symmetric])
      then show False using similar_str_best(1) [OF r] pq m by auto
    qed
  next
    assume d: "set s \<inter> set t = {}"
    show "m = 0"
    proof (rule ccontr)
      assume "m \<noteq> 0"
      then have ab: "a < length s" "b < length t" "common_prefix (drop a s) (drop b t) \<noteq> 0"
        using similar_str_best(2) [OF r] by auto
      then have "s ! a = t ! b" by (simp add: Cons_nth_drop_Suc [symmetric] split: if_splits)
      then show False using d ab nth_mem [of a s] nth_mem [of b t] by auto
    qed
  qed
  finally show ?thesis .
qed

subsection \<open>Translation\<close>

lemma xlat_not_in: "c \<notin> set a \<Longrightarrow> xlat a b f c = f c"
  by (induction a b f rule: xlat.induct) auto

lemma xlat_nth:
  "distinct a \<Longrightarrow> length a = length b \<Longrightarrow> i < length a \<Longrightarrow> xlat a b f (a ! i) = b ! i"
proof (induction a b f arbitrary: i rule: xlat.induct)
  case (1 a as b bs f)
  then show ?case by (cases i) (auto simp: xlat_not_in simp del: fun_upd_apply, simp)
qed auto

lemma xlat_inverse:
  assumes "distinct a" "distinct b" "length a = length b" "set a = set b"
  shows "xlat b a id (xlat a b id c) = c"
proof (cases "c \<in> set a")
  case True
  then obtain i where "i < length a" "c = a ! i" by (auto simp: in_set_conv_nth)
  then show ?thesis using assms by (simp add: xlat_nth)
next
  case False
  then show ?thesis using assms by (simp add: xlat_not_in)
qed

lemma strtr_inverse:
  assumes ab: "distinct a" "distinct b" "length a = length b" "set a = set b" "NUL \<notin> set a"
    and s: "NUL \<notin> set s"
  shows "php3_strtr (php3_strtr s a b) b a = s"
proof (cases "a = [] \<or> s = []")
  case False
  then have ne: "a \<noteq> []" "b \<noteq> []" "s \<noteq> []" using ab by auto
  have "xlat a b id c = NUL \<Longrightarrow> c = NUL" for c
    using xlat_inverse [OF ab(1-4), of c] xlat_not_in [of NUL b a id] ab by simp
  then have "NUL \<notin> set (map (xlat a b id) s)" using s by (metis imageE set_map)
  then have "php3_strtr s a b = map (xlat a b id) s"
    unfolding php3_strtr_def using ne by (simp add: c_str_no_nul)
  moreover have "map (xlat b a id) (map (xlat a b id) s) = s"
    using xlat_inverse [OF ab(1-4)] by (simp add: map_idI)
  ultimately show ?thesis using ne s by (simp add: php3_strtr_def c_str_no_nul)
qed (use ab s in \<open>auto simp: php3_strtr_def c_str_no_nul\<close>)

end
