(* ===== verification/String_Props.thy ===== *)
theory String_Props
  imports Base64 Url Str_Laws
begin

text \<open>
  The properties of the encodings and of the string functions.
\<close>

subsection \<open>Encodings\<close>





text \<open>\<open>_php3_urlencode\<close> sizes its block by \<open>strlen\<close>: it is large enough for a string without NUL
  bytes, and is overrun by every string that begins with one.\<close>

theorem urlencode_block:
  "(NUL \<notin> set s \<longrightarrow> php3_urlencode s = Some (urlencoded s)) \<and> php3_urlencode (NUL # s) = None"
  using urlencode_fits urlencode_overrun by blast

theorem urlencode_block_witness:
  "php3_urlencode ''a b'' = Some ''a+b'' \<and> php3_urlencode [NUL] = None"
proof -
  have "urlencoded ''a b'' = ''a+b''"
    by (simp add: urlencoded_def urlencode_char_def url_special_def uchar_def)
  then show ?thesis using urlencode_block [of "''a b''"] urlencode_block [of "[]"] by (simp add: NUL_def)
qed

text \<open>C37: escaping with slashes is undone by removing them, for every byte string, and for every string
  without NUL bytes in the mode of Sybase; the escaped text fits its block of \<open>2 n + 1\<close> bytes.\<close>

theorem slashes_invertible:
  "\<exists>t. php3_addslashes sybase s = Some t \<and> NUL \<notin> set t \<and> length t \<le> 2 * length s \<and>
     (\<not> sybase \<or> NUL \<notin> set s \<longrightarrow> php3_stripslashes sybase t = s)"
  using slashes.dec_enc [of sybase s] slashes.enc_no_nul [of sybase s] slashes.enc_length [of sybase s]
    addslashes_eq [of sybase s] slash_no_nul [of sybase s] by auto

theorem slashes_invertible_witness:
  "\<exists>t. php3_addslashes True ''it's'' = Some t \<and> php3_stripslashes True t = ''it's''"
  using slashes_invertible [of True "''it's''"] by (auto simp: NUL_def)

text \<open>\<open>bin2hex\<close> gives two digits for a byte, and reading the digits back gives the bytes.\<close>

theorem bin2hex_invertible:
  "length (php_bin2hex s) = 2 * length s \<and> unhex (php_bin2hex s) = s"
  using length_bin2hex unhex_bin2hex by blast

subsection \<open>Searching, splitting, joining, replacing\<close>

text \<open>\<open>strpos\<close> with a string and an offset inside the text gives the first place at or after the
  offset where the string stands, and \<open>false\<close> exactly when there is none.\<close>

theorem strpos_first:
  assumes "n \<noteq> []" and "off \<le> length hay" and "off < 2147483648"
  shows "case php3_strpos hay (NStr n) (Some (int off)) of
      Some (RETVAL i) \<Rightarrow> off \<le> i \<and> occurs n hay i \<and> (\<forall>j. off \<le> j \<and> j < i \<longrightarrow> \<not> occurs n hay j)
    | Some RETURN_FALSE \<Rightarrow> \<forall>j. off \<le> j \<longrightarrow> \<not> occurs n hay j
    | _ \<Rightarrow> False"
proof -
  have "int_of_long (int off) = int off" using assms(3) by (intro int_exact) simp_all
  then show ?thesis
    using memnstr_correct [OF assms(1), where hay = hay and p = off] assms(1,2)
    by (simp add: php3_strpos_def php3_memnstr_def Let_def split: option.splits)
qed

theorem strpos_first_witness:
  "case php3_strpos ''banana'' (NStr ''an'') (Some 2) of Some (RETVAL i) \<Rightarrow> 2 \<le> i \<and> occurs ''an'' ''banana'' i
    | Some RETURN_FALSE \<Rightarrow> \<not> occurs ''an'' ''banana'' 3 | _ \<Rightarrow> False"
  using strpos_first [of "''an''" 2 "''banana''"] by (auto split: option.splits ret.splits)

text \<open>A negative offset is not rejected: \<open>strpos\<close> reads in front of the string.\<close>

theorem strpos_negative:
  assumes "n \<noteq> []" and "- 2147483648 \<le> off" and "off < 0" and "length n \<le> length hay"
  shows "php3_strpos hay (NStr n) (Some off) = None"
proof -
  have "int_of_long off = off" using assms(2,3) by (intro int_exact) simp_all
  then show ?thesis using assms by (simp add: php3_strpos_def Let_def)
qed

theorem strpos_negative_witness: "php3_strpos ''banana'' (NStr ''an'') (Some (- 1)) = None"
  by (rule strpos_negative) simp_all

text \<open>C35: exploding a text gives pieces that do not contain the separator; joining them with it gives the
  text back, and \<open>implode\<close> does so for strings without NUL bytes.\<close>

theorem explode_implode:
  assumes "delim \<noteq> []"
  shows "\<exists>ps. php3_explode delim s = RETVAL ps \<and> join delim ps = s \<and> (\<forall>p \<in> set ps. \<forall>j. \<not> occurs delim p j) \<and>
    (NUL \<notin> set delim \<and> NUL \<notin> set s \<longrightarrow> php3_implode delim ps = map Some s)"
proof -
  have "set p \<subseteq> set s" if "p \<in> set (explode_from delim s 0)" for p using set_explode [OF that] .
  then have "NUL \<notin> set s \<Longrightarrow> \<forall>p \<in> set (explode_from delim s 0). NUL \<notin> set p" by blast
  then show ?thesis
    using assms join_explode [of delim s 0] explode_pieces [OF assms, of _ s 0] implode_clean [of delim "explode_from delim s 0"]
    by (auto simp: php3_explode_def)
qed

theorem explode_implode_witness:
  "\<exists>ps. php3_explode '','' ''a,b'' = RETVAL ps \<and> php3_implode '','' ps = map Some ''a,b''"
  using explode_implode [of "'',''" "''a,b''"] by (auto simp: NUL_def)

text \<open>C36: \<open>str_replace\<close> puts the new string in place of every occurrence of the needle found from left to
  right: it is the pieces between the occurrences, joined with the new string.  As long as the result is
  shorter than 2147483647 bytes, nothing is written behind the block, which grows at every occurrence (or is
  sized by the number of occurrences, for a needle of one byte).\<close>

theorem str_replace_joins:
  assumes "needle \<noteq> []"
  shows "\<exists>ps. php3_explode needle hay = RETVAL ps \<and> join needle ps = hay \<and>
    (length (join str ps) < 2147483647 \<longrightarrow> php3_str_replace needle str hay = Some (RETVAL (join str ps)))"
  using str_replace_spec [OF assms, of str hay] join_explode [of needle hay 0] assms
  by (auto simp: php3_explode_def)

theorem str_replace_joins_witness:
  "\<exists>ps. php3_explode ''ab'' ''xabyab'' = RETVAL ps \<and> php3_str_replace ''ab'' ''-'' ''xabyab'' = Some (RETVAL (join ''-'' ps)) \<and>
     join ''-'' ps = ''x-y-''"
proof -
  have e: "explode_from ''ab'' ''xabyab'' 0 = [''x'', ''y'', []]" by code_simp
  then have "php3_explode ''ab'' ''xabyab'' = RETVAL [''x'', ''y'', []]" by (simp add: php3_explode_def)
  then show ?thesis using str_replace_joins [of "''ab''" "''xabyab''" "''-''"] by auto
qed

text \<open>A call of \<open>strtok\<close> with a text gives the bytes up to the first one that is in the token string,
  and keeps what follows that byte for the next call.\<close>

theorem strtok_first:
  assumes "c_str s \<noteq> []"
  shows "\<exists>tk. php3_strtok (Some s) None tok =
      (RETVAL tk, if tk = c_str s then None else Some (drop (length tk + 1) s)) \<and>
    tk = takeWhile (\<lambda>c. c \<notin> set (c_str tok)) (c_str s)"
  using strtok_spec [OF assms, of tok] by (simp add: Let_def)

theorem strtok_first_witness:
  "php3_strtok (Some ''a b'') None '' '' = (RETVAL ''a'', Some ''b'')"
  using strtok_first [of "''a b''" "'' ''"] by (auto simp: c_str_def NUL_def)

subsection \<open>Editing\<close>

text \<open>\<open>trim\<close> removes blanks from both ends and nothing else: the text is the result between two runs
  of blanks, the result neither begins nor ends with one, and trimming it again changes nothing.\<close>

theorem trim_correct:
  "\<exists>a b. s = a @ php3_trim s @ b \<and> (\<forall>c \<in> set (a @ b). is_trim c) \<and>
     (php3_trim s = [] \<or> \<not> is_trim (hd (php3_trim s)) \<and> \<not> is_trim (last (php3_trim s))) \<and>
     php3_trim (php3_trim s) = php3_trim s"
  using trim_split [of s] trim_fixed [of "php3_trim s"] by blast

theorem trim_correct_witness: "php3_trim (php3_trim '' a b '') = php3_trim '' a b ''"
  using trim_correct [of "'' a b ''"] by blast

text \<open>\<open>substr\<close> gives the bytes between two bounds that are inside the text for every start and length:
  counted from the end when negative, and cut at the end of the text.\<close>

theorem substr_bounds:
  assumes "int (length s) \<le> 2147483647" and "- 2147483648 \<le> f" and "f \<le> 2147483647"
    and "- 2147483648 \<le> l" and "substr_from (int (length s)) f + l \<le> 2147483647"
  shows "php3_substr s f (Some l) =
    Some (if int (length s) \<le> substr_from (int (length s)) f then RETURN_FALSE
          else RETVAL (take (nat (substr_to (int (length s)) (substr_from (int (length s)) f) l - substr_from (int (length s)) f))
                 (drop (nat (substr_from (int (length s)) f)) s)))"
  by (rule substr_spec [OF assms])

theorem substr_bounds_witness: "php3_substr ''abcdef'' (- 3) (Some (- 1)) = Some (RETVAL ''de'')"
  using substr_bounds [of "''abcdef''" "- 3" "- 1"] by (simp add: substr_from_def substr_to_def)

text \<open>\<open>chunk_split\<close> cuts a text into pieces of the length asked for (the last one may be shorter),
  puts the ending behind each, and stays inside its block when the size of the block is an \<open>int\<close>.\<close>

theorem chunk_split_pieces:
  assumes "0 < int_of_long n" "length s + (length s div nat (int_of_long n) + 1) * length e < 2147483647"
  shows "\<exists>ps. php3_chunk_split s (Some n) (Some e) = Some (RETVAL (concat (map (\<lambda>p. p @ e) ps))) \<and> concat ps = s \<and>
    (\<forall>p \<in> set (butlast ps). int (length p) = int_of_long n) \<and>
    (\<forall>p \<in> set ps. p \<noteq> [] \<and> int (length p) \<le> int_of_long n)"
proof -
  have n: "0 < nat (int_of_long n)" using assms by simp
  show ?thesis
    using chunk_split_ok [OF assms] chunks_concat [OF n, of s] chunks_size [OF n, of _ s] chunks_bound [OF n, of _ s] assms(1)
    by (intro exI [of _ "chunks (nat (int_of_long n)) s"]) fastforce
qed

theorem chunk_split_pieces_witness:
  "\<exists>ps. php3_chunk_split ''abcde'' (Some 2) (Some ''-'') = Some (RETVAL (concat (map (\<lambda>p. p @ ''-'') ps))) \<and> concat ps = ''abcde''"
  using chunk_split_pieces [of 2 "''abcde''" "''-''"] by (auto simp: int_exact)

text \<open>The swapping loop of \<open>strrev\<close> reverses the string in place.\<close>

theorem strrev_reverses: "php3_strrev s = rev s \<and> php3_strrev (php3_strrev s) = s"
  by (simp add: strrev_eq)

text \<open>\<open>strtr\<close> with a table that permutes its characters is undone by the exchanged table.\<close>

theorem strtr_invertible:
  assumes "distinct a" and "distinct b" and "length a = length b" and "set a = set b" and "NUL \<notin> set a" and "NUL \<notin> set s"
  shows "php3_strtr (php3_strtr s a b) b a = s"
  by (rule strtr_inverse [OF assms])

theorem strtr_invertible_witness: "php3_strtr (php3_strtr ''abc'' ''ab'' ''ba'') ''ba'' ''ab'' = ''abc''"
  by (rule strtr_invertible) (auto simp: NUL_def)

text \<open>For a path of a directory, a slash, a name without slashes, and any number of slashes behind it,
  \<open>basename\<close> gives the name and \<open>dirname\<close> the directory (\<open>false\<close> when it is empty).\<close>

theorem path_split:
  assumes "b \<noteq> []" and "CHR ''/'' \<notin> set b" and "NUL \<notin> set (d @ b)"
  shows "php3_basename (d @ CHR ''/'' # b @ replicate k (CHR ''/'')) = Some b \<and>
    php3_dirname (d @ CHR ''/'' # b @ replicate k (CHR ''/'')) = Some (if d = [] then RETURN_FALSE else RETVAL d)"
  using path_parts [OF assms] by blast

theorem path_split_witness: "php3_basename ''usr/lib/'' = Some ''lib''"
  using path_split [of "''lib''" "''usr''" 1] by (simp add: NUL_def)

text \<open>For a path of slashes only, and for an empty one, \<open>basename\<close> and \<open>dirname\<close> read in front of
  their string.\<close>

theorem path_underrun:
  "php3_basename (replicate k (CHR ''/'')) = None \<and> php3_dirname (replicate k (CHR ''/'')) = None"
  using slashes_underrun by blast

text \<open>\<open>similar_text\<close> counts at most the length of the shorter text, all of a text compared with
  itself, and nothing exactly when the texts have no character in common.\<close>

theorem similar_text_bounds:
  "php3_similar_text s t \<le> min (length s) (length t) \<and> php3_similar_text s s = length s \<and>
   (php3_similar_text s t = 0 \<longleftrightarrow> set s \<inter> set t = {})"
proof -
  have "php3_similar_text s t = similar_char s t" for s t
    using similar_char_le [of s t] by (auto simp: php3_similar_text_def)
  then show ?thesis using similar_char_le [of s t] similar_char_self similar_char_0 by simp
qed

text \<open>\<open>ucwords\<close> changes the first character and those behind a space to upper case, and nothing else.\<close>

theorem ucwords_letters:
  assumes "s \<noteq> []" and "NUL \<notin> set s"
  shows "\<exists>r. php3_ucwords s = RETVAL r \<and> length r = length s \<and>
    (\<forall>i < length s. r ! i = (if i = 0 \<or> s ! (i - 1) = CHR '' '' then toupper (s ! i) else s ! i))"
  using ucwords_eq [OF assms] capitalize_nth [of _ s True] by auto

theorem ucwords_letters_witness: "\<exists>r. php3_ucwords ''ab cd'' = RETVAL r \<and> length r = 5 \<and> r ! 1 = CHR ''b''"
  using ucwords_letters [of "''ab cd''"] by (auto simp: NUL_def)

end
