(* ===== verification/Values.thy ===== *)
theory Values
  imports Hash_Spec
begin

text \<open>
  The values of the language (\<open>pval\<close> of php.h) and their conversions (operators.c).  The heap
  blocks behind strings and arrays are not modelled here: a value is a tree, and freeing the old
  payload of a converted value has no effect on it.  An array is the ordered list of entries, with
  the next free index, that its hash table stands for (\<open>odict\<close> of \<open>Hash_Spec\<close>).
  Floating point numbers are those of the C implementation: their type and operations are the
  parameter \<open>fp\<close>.
\<close>

subsection \<open>Values\<close>

text \<open>
  The types \<open>IS_LONG\<close> to \<open>IS_NULL\<close>.  A user function is the offset of its first token, an internal
  function the index of its handler.
\<close>

datatype 'd pval =
    PLong "64 word"
  | PDouble 'd
  | PString string
  | PArray "(hkey \<times> 'd pval) list \<times> ulong"
  | PObject "(hkey \<times> 'd pval) list \<times> ulong"
  | PUserFunction nat
  | PInternalFunction nat
  | PClass "(hkey \<times> 'd pval) list \<times> ulong"
  | PNull

text \<open>
  What the code uses of the C type \<open>double\<close>: conversion from and to \<open>long\<close>, arithmetic, comparison,
  \<open>strtod\<close> (the value, the number of characters read, whether \<open>errno\<close> is \<open>ERANGE\<close>) and printing
  with \<open>%.*G\<close> at the configured precision.
\<close>

record 'd fp =
  d_of_long :: "64 word \<Rightarrow> 'd"
  d_to_long :: "'d \<Rightarrow> 64 word"
  d_add :: "'d \<Rightarrow> 'd \<Rightarrow> 'd"
  d_sub :: "'d \<Rightarrow> 'd \<Rightarrow> 'd"
  d_mul :: "'d \<Rightarrow> 'd \<Rightarrow> 'd"
  d_div :: "'d \<Rightarrow> 'd \<Rightarrow> 'd"
  d_less :: "'d \<Rightarrow> 'd \<Rightarrow> bool"
  d_le :: "'d \<Rightarrow> 'd \<Rightarrow> bool"
  d_eq :: "'d \<Rightarrow> 'd \<Rightarrow> bool"
  d_strtod :: "string \<Rightarrow> 'd \<times> nat \<times> bool"
  d_print :: "'d \<Rightarrow> string"

definition d_zero :: "'d fp \<Rightarrow> 'd" where
  "d_zero F = d_of_long F 0"

text \<open>\<open>var_reset\<close> and \<open>var_uninit\<close> make an empty string (two different empty strings in memory).\<close>

definition var_reset :: "'d pval" where
  "var_reset = PString []"

definition var_uninit :: "'d pval" where
  "var_uninit = PString []"

definition num_elements :: "(hkey \<times> 'd pval) list \<times> ulong \<Rightarrow> nat" where
  "num_elements a = length (fst a)"

subsection \<open>\<open>strtol\<close> and \<open>%ld\<close>\<close>

text \<open>The value of a digit, letters counting from ten.\<close>

definition digit_value :: "char \<Rightarrow> nat option" where
  "digit_value c =
     (if isdigit c then Some (uchar c - 48)
      else if 97 \<le> uchar c \<and> uchar c \<le> 122 then Some (uchar c - 87)
      else if 65 \<le> uchar c \<and> uchar c \<le> 90 then Some (uchar c - 55)
      else None)"

definition is_digit_of :: "nat \<Rightarrow> char \<Rightarrow> bool" where
  "is_digit_of base c = (case digit_value c of None \<Rightarrow> False | Some d \<Rightarrow> d < base)"

definition digits_value :: "nat \<Rightarrow> string \<Rightarrow> nat" where
  "digits_value base ds = foldl (\<lambda>a c. base * a + the (digit_value c)) 0 ds"

text \<open>The prefix \<open>0x\<close> of base 16, when a digit follows.\<close>

definition hex_prefix :: "string \<Rightarrow> bool" where
  "hex_prefix s =
     (case s of a # x # c # _ \<Rightarrow> a = CHR ''0'' \<and> (x = CHR ''x'' \<or> x = CHR ''X'') \<and> is_digit_of 16 c
      | _ \<Rightarrow> False)"

text \<open>
  \<open>strtol\<close> on a C string: the value, the number of characters read (0 without digits) and whether
  the value was saturated (\<open>ERANGE\<close>).
\<close>

definition strtol :: "nat \<Rightarrow> string \<Rightarrow> int \<times> nat \<times> bool" where
  "strtol base s =
     (let t = dropWhile isspace s;
          neg = (t \<noteq> [] \<and> hd t = CHR ''-'');
          u = (if t \<noteq> [] \<and> (hd t = CHR ''-'' \<or> hd t = CHR ''+'') then tl t else t);
          hex = ((base = 0 \<or> base = 16) \<and> hex_prefix u);
          b = (if hex then 16 else if base \<noteq> 0 then base
               else if u \<noteq> [] \<and> hd u = CHR ''0'' then 8 else 10);
          v = (if hex then drop 2 u else u);
          ds = takeWhile (is_digit_of b) v;
          n = int (digits_value b ds)
      in if ds = [] then (0, 0, False)
         else (if neg then max LONG_MIN (- n) else min LONG_MAX n,
               length s - length v + length ds,
               if neg then - n < LONG_MIN else LONG_MAX < n))"

text \<open>The decimal digits of a number, and \<open>%ld\<close>.\<close>

fun dec_digits :: "nat \<Rightarrow> string" where
  "dec_digits n = (if n < 10 then [char_of (48 + n)] else dec_digits (n div 10) @ [char_of (48 + n mod 10)])"

declare dec_digits.simps [simp del]

definition print_ld :: "64 word \<Rightarrow> string" where
  "print_ld w = (if sint w < 0 then CHR ''-'' # dec_digits (nat (- sint w)) else dec_digits (nat (sint w)))"

subsection \<open>Conversions\<close>

datatype 'd numeric = Not_numeric | Numeric_long "64 word" | Numeric_double 'd

text \<open>
  \<open>is_numeric_string\<close>: the whole string (its length, not its first NUL) is a number in range.
\<close>

definition is_numeric_string :: "'d fp \<Rightarrow> string \<Rightarrow> 'd numeric" where
  "is_numeric_string F str =
     (if str = [] then Not_numeric
      else let (lval, lend, lrange) = strtol 10 (c_str str) in
        if \<not> lrange \<and> lend = length str then Numeric_long (word_of_int lval)
        else let (dval, dend, drange) = d_strtod F (c_str str) in
          if \<not> drange \<and> dend = length str then Numeric_double dval
          else Not_numeric)"

fun convert_double_to_long :: "'d fp \<Rightarrow> 'd pval \<Rightarrow> 'd pval" where
  "convert_double_to_long F (PDouble d) = PLong (d_to_long F d)"
| "convert_double_to_long F op1 = op1"

fun convert_string_to_number :: "'d fp \<Rightarrow> 'd pval \<Rightarrow> 'd pval" where
  "convert_string_to_number F (PString s) =
     (case is_numeric_string F s of
        Numeric_double d \<Rightarrow> PDouble d
      | Numeric_long l \<Rightarrow> PLong l
      | Not_numeric \<Rightarrow> PLong (word_of_int (fst (strtol 10 (c_str s)))))"
| "convert_string_to_number F op1 = op1"

fun convert_to_long_base :: "'d fp \<Rightarrow> nat \<Rightarrow> 'd pval \<Rightarrow> 'd pval" where
  "convert_to_long_base F base (PLong l) = PLong l"
| "convert_to_long_base F base (PDouble d) = PLong (d_to_long F d)"
| "convert_to_long_base F base (PString s) = PLong (word_of_int (fst (strtol base (c_str s))))"
| "convert_to_long_base F base (PArray a) = PLong (if num_elements a \<noteq> 0 then 1 else 0)"
| "convert_to_long_base F base (PObject a) = PLong (if num_elements a \<noteq> 0 then 1 else 0)"
| "convert_to_long_base F base _ = PLong 0"

definition convert_to_long :: "'d fp \<Rightarrow> 'd pval \<Rightarrow> 'd pval" where
  "convert_to_long F op1 = convert_to_long_base F 10 op1"

fun convert_to_double :: "'d fp \<Rightarrow> 'd pval \<Rightarrow> 'd pval" where
  "convert_to_double F (PLong l) = PDouble (d_of_long F l)"
| "convert_to_double F (PDouble d) = PDouble d"
| "convert_to_double F (PString s) = PDouble (fst (d_strtod F (c_str s)))"
| "convert_to_double F (PArray a) = PDouble (d_of_long F (if num_elements a \<noteq> 0 then 1 else 0))"
| "convert_to_double F (PObject a) = PDouble (d_of_long F (if num_elements a \<noteq> 0 then 1 else 0))"
| "convert_to_double F _ = PDouble (d_zero F)"

fun convert_to_boolean_long :: "'d fp \<Rightarrow> 'd pval \<Rightarrow> 'd pval" where
  "convert_to_boolean_long F (PLong l) = PLong l"
| "convert_to_boolean_long F (PDouble d) = PLong (if d_eq F d (d_zero F) then 0 else 1)"
| "convert_to_boolean_long F (PString s) = PLong (if s = [] \<or> s = ''0'' then 0 else 1)"
| "convert_to_boolean_long F (PArray a) = PLong (if num_elements a \<noteq> 0 then 1 else 0)"
| "convert_to_boolean_long F (PObject a) = PLong (if num_elements a \<noteq> 0 then 1 else 0)"
| "convert_to_boolean_long F _ = PLong 0"

text \<open>The number of characters \<open>convert_to_string\<close> allocates for a \<open>long\<close>, with the final NUL.\<close>

definition MAX_LENGTH_OF_LONG :: nat where
  "MAX_LENGTH_OF_LONG = 18"

definition long_string_fits :: "64 word \<Rightarrow> bool" where
  "long_string_fits l \<longleftrightarrow> length (print_ld l) + 1 \<le> MAX_LENGTH_OF_LONG + 1"

text \<open>Printing a \<open>long\<close> that does not fit its block writes behind it: \<open>None\<close>.\<close>

fun convert_to_string :: "'d fp \<Rightarrow> 'd pval \<Rightarrow> 'd pval option" where
  "convert_to_string F (PString s) = Some (PString s)"
| "convert_to_string F (PLong l) = (if long_string_fits l then Some (PString (print_ld l)) else None)"
| "convert_to_string F (PDouble d) = Some (PString (d_print F d))"
| "convert_to_string F (PArray a) = Some (PString ''Array'')"
| "convert_to_string F (PObject a) = Some (PString ''Object'')"
| "convert_to_string F _ = Some var_reset"

text \<open>A scalar becomes the only element: index 0 of an array, property \<open>scalar\<close> of an object.\<close>

definition scalar_array :: "'d pval \<Rightarrow> (hkey \<times> 'd pval) list \<times> ulong" where
  "scalar_array v = ([(KIdx 0, v)], 1)"

definition scalar_object :: "'d pval \<Rightarrow> (hkey \<times> 'd pval) list \<times> ulong" where
  "scalar_object v = ([(KStr (''scalar'' @ [NUL]), v)], 0)"

fun convert_to_array :: "'d pval \<Rightarrow> 'd pval" where
  "convert_to_array (PArray a) = PArray a"
| "convert_to_array (PObject a) = PArray a"
| "convert_to_array v = PArray (scalar_array v)"

fun convert_to_object :: "'d pval \<Rightarrow> 'd pval" where
  "convert_to_object (PArray a) = PObject a"
| "convert_to_object (PObject a) = PObject a"
| "convert_to_object v = PObject (scalar_object v)"

text \<open>The truth value of a value, as the control structures ask for it.\<close>

definition pval_is_true :: "'d fp \<Rightarrow> 'd pval \<Rightarrow> bool" where
  "pval_is_true F op1 = (case convert_to_boolean_long F op1 of PLong l \<Rightarrow> l \<noteq> 0 | _ \<Rightarrow> False)"

end
