(* ===== verification/Operators.thy ===== *)
theory Operators
  imports Values
begin

text \<open>
  The operators of the language (operators.c).  An operator answers a status and the result it
  leaves; the operands are passed by value.  What C leaves undefined (a quotient that does not fit,
  a shift by 64 or more) and what overruns a block is the answer \<open>None\<close>.
\<close>

subsection \<open>Arithmetic\<close>

definition od_add_new :: "hkey \<times> 'v \<Rightarrow> (hkey \<times> 'v) list \<times> ulong \<Rightarrow> (hkey \<times> 'v) list \<times> ulong" where
  "od_add_new e a = (if fst e \<in> fst ` set (fst a) then a else (fst a @ [e], od_bump (fst e) (snd a)))"

text \<open>\<open>_php3_hash_merge\<close> on the entries: those of the second array whose key is new.\<close>

definition od_merge :: "(hkey \<times> 'v) list \<times> ulong \<Rightarrow> (hkey \<times> 'v) list \<times> ulong \<Rightarrow> (hkey \<times> 'v) list \<times> ulong" where
  "od_merge a b = fold od_add_new (fst b) a"

text \<open>The cases add, subtract and multiply share: two longs, a long and a double, two doubles.\<close>

fun arith_doubles :: "'d fp \<Rightarrow> ('d \<Rightarrow> 'd \<Rightarrow> 'd) \<Rightarrow> 'd pval \<Rightarrow> 'd pval \<Rightarrow> status \<times> 'd pval" where
  "arith_doubles F f (PLong a) (PDouble b) = (SUCCESS, PDouble (f (d_of_long F a) b))"
| "arith_doubles F f (PDouble a) (PLong b) = (SUCCESS, PDouble (f a (d_of_long F b)))"
| "arith_doubles F f (PDouble a) (PDouble b) = (SUCCESS, PDouble (f a b))"
| "arith_doubles F f _ _ = (FAILURE, var_reset)"

definition add_longs :: "'d fp \<Rightarrow> 64 word \<Rightarrow> 64 word \<Rightarrow> 'd pval" where
  "add_longs F a b =
     (let dval = d_add F (d_of_long F a) (d_of_long F b) in
      if d_less F (d_of_long F (word_of_int LONG_MAX)) dval then PDouble dval else PLong (a + b))"

definition sub_longs :: "'d fp \<Rightarrow> 64 word \<Rightarrow> 64 word \<Rightarrow> 'd pval" where
  "sub_longs F a b =
     (let dval = d_sub F (d_of_long F a) (d_of_long F b) in
      if d_less F dval (d_of_long F (word_of_int LONG_MIN)) then PDouble dval else PLong (a - b))"

definition mul_longs :: "'d fp \<Rightarrow> 64 word \<Rightarrow> 64 word \<Rightarrow> 'd pval" where
  "mul_longs F a b =
     (let dval = d_mul F (d_of_long F a) (d_of_long F b) in
      if d_less F (d_of_long F (word_of_int LONG_MAX)) dval then PDouble dval else PLong (a * b))"

definition add_function :: "'d fp \<Rightarrow> 'd pval \<Rightarrow> 'd pval \<Rightarrow> status \<times> 'd pval" where
  "add_function F op1 op2 =
     (case (op1, op2) of
        (PArray a, PArray b) \<Rightarrow> (SUCCESS, PArray (od_merge a b))
      | _ \<Rightarrow>
        (case (convert_string_to_number F op1, convert_string_to_number F op2) of
           (PLong a, PLong b) \<Rightarrow> (SUCCESS, add_longs F a b)
         | (x, y) \<Rightarrow> arith_doubles F (d_add F) x y))"

definition sub_function :: "'d fp \<Rightarrow> 'd pval \<Rightarrow> 'd pval \<Rightarrow> status \<times> 'd pval" where
  "sub_function F op1 op2 =
     (case (convert_string_to_number F op1, convert_string_to_number F op2) of
        (PLong a, PLong b) \<Rightarrow> (SUCCESS, sub_longs F a b)
      | (x, y) \<Rightarrow> arith_doubles F (d_sub F) x y)"

definition mul_function :: "'d fp \<Rightarrow> 'd pval \<Rightarrow> 'd pval \<Rightarrow> status \<times> 'd pval" where
  "mul_function F op1 op2 =
     (case (convert_string_to_number F op1, convert_string_to_number F op2) of
        (PLong a, PLong b) \<Rightarrow> (SUCCESS, mul_longs F a b)
      | (x, y) \<Rightarrow> arith_doubles F (d_mul F) x y)"

text \<open>C division truncates toward zero; \<open>LONG_MIN / -1\<close> and \<open>LONG_MIN % -1\<close> are undefined.\<close>

definition c_div :: "int \<Rightarrow> int \<Rightarrow> int" where
  "c_div a b = sgn a * sgn b * (\<bar>a\<bar> div \<bar>b\<bar>)"

definition c_mod :: "int \<Rightarrow> int \<Rightarrow> int" where
  "c_mod a b = sgn a * (\<bar>a\<bar> mod \<bar>b\<bar>)"

definition div_undefined :: "64 word \<Rightarrow> 64 word \<Rightarrow> bool" where
  "div_undefined a b \<longleftrightarrow> sint a = LONG_MIN \<and> sint b = - 1"

definition div_longs :: "'d fp \<Rightarrow> 64 word \<Rightarrow> 64 word \<Rightarrow> 'd pval option" where
  "div_longs F a b =
     (if div_undefined a b then None
      else if c_mod (sint a) (sint b) = 0 then Some (PLong (word_of_int (c_div (sint a) (sint b))))
      else Some (PDouble (d_div F (d_of_long F a) (d_of_long F b))))"

definition is_zero :: "'d fp \<Rightarrow> 'd pval \<Rightarrow> bool" where
  "is_zero F v = (case v of PLong l \<Rightarrow> l = 0 | PDouble d \<Rightarrow> d_eq F d (d_zero F) | _ \<Rightarrow> False)"

definition div_function :: "'d fp \<Rightarrow> 'd pval \<Rightarrow> 'd pval \<Rightarrow> (status \<times> 'd pval) option" where
  "div_function F op1 op2 =
     (let x = convert_string_to_number F op1; y = convert_string_to_number F op2 in
      if is_zero F y then Some (FAILURE, var_reset)
      else (case (x, y) of
          (PLong a, PLong b) \<Rightarrow> map_option (\<lambda>r. (SUCCESS, r)) (div_longs F a b)
        | _ \<Rightarrow> Some (arith_doubles F (d_div F) x y)))"

text \<open>The long a converted value holds.\<close>

definition lval :: "'d pval \<Rightarrow> 64 word" where
  "lval v = (case v of PLong l \<Rightarrow> l | _ \<Rightarrow> 0)"

definition mod_function :: "'d fp \<Rightarrow> 'd pval \<Rightarrow> 'd pval \<Rightarrow> (status \<times> 'd pval) option" where
  "mod_function F op1 op2 =
     (let a = lval (convert_to_long F op1); b = lval (convert_to_long F op2) in
      if b = 0 then Some (FAILURE, var_reset)
      else if div_undefined a b then None
      else Some (SUCCESS, PLong (word_of_int (c_mod (sint a) (sint b)))))"

subsection \<open>Logic\<close>

definition boolean_or_function :: "'d fp \<Rightarrow> 'd pval \<Rightarrow> 'd pval \<Rightarrow> status \<times> 'd pval" where
  "boolean_or_function F op1 op2 =
     (if lval (convert_to_boolean_long F op1) \<noteq> 0 then (SUCCESS, PLong 1)
      else if lval (convert_to_boolean_long F op2) \<noteq> 0 then (SUCCESS, PLong 1)
      else (SUCCESS, PLong 0))"

definition boolean_and_function :: "'d fp \<Rightarrow> 'd pval \<Rightarrow> 'd pval \<Rightarrow> status \<times> 'd pval" where
  "boolean_and_function F op1 op2 =
     (if lval (convert_to_boolean_long F op1) = 0 then (SUCCESS, PLong 0)
      else if lval (convert_to_boolean_long F op2) = 0 then (SUCCESS, PLong 0)
      else (SUCCESS, PLong 1))"

definition boolean_xor_function :: "'d fp \<Rightarrow> 'd pval \<Rightarrow> 'd pval \<Rightarrow> status \<times> 'd pval" where
  "boolean_xor_function F op1 op2 =
     (SUCCESS, PLong (xor (lval (convert_to_boolean_long F op1)) (lval (convert_to_boolean_long F op2))))"

definition boolean_not_function :: "'d fp \<Rightarrow> 'd pval \<Rightarrow> status \<times> 'd pval" where
  "boolean_not_function F op1 = (SUCCESS, PLong (if lval (convert_to_boolean_long F op1) = 0 then 1 else 0))"

subsection \<open>Bits\<close>

definition byte_op :: "(nat \<Rightarrow> nat \<Rightarrow> nat) \<Rightarrow> char \<Rightarrow> char \<Rightarrow> char" where
  "byte_op f a b = char_of (f (uchar a) (uchar b))"

fun bitwise_not_function :: "'d fp \<Rightarrow> 'd pval \<Rightarrow> status \<times> 'd pval" where
  "bitwise_not_function F (PDouble d) = (SUCCESS, PLong (NOT (d_to_long F d)))"
| "bitwise_not_function F (PLong l) = (SUCCESS, PLong (NOT l))"
| "bitwise_not_function F (PString s) = (SUCCESS, PString (map (\<lambda>c. char_of (255 - uchar c)) s))"
| "bitwise_not_function F _ = (FAILURE, var_reset)"

text \<open>On two strings: \<open>or\<close> changes the longer one in place, \<open>and\<close> and \<open>xor\<close> the shorter one.\<close>

definition longer_shorter :: "string \<Rightarrow> string \<Rightarrow> string \<times> string" where
  "longer_shorter s t = (if length t \<le> length s then (s, t) else (t, s))"

definition bitwise_or_function :: "'d fp \<Rightarrow> 'd pval \<Rightarrow> 'd pval \<Rightarrow> status \<times> 'd pval" where
  "bitwise_or_function F op1 op2 =
     (case (op1, op2) of
        (PString s, PString t) \<Rightarrow>
          (let (longer, shorter) = longer_shorter s t in
           (SUCCESS, PString (map2 (byte_op or) longer shorter @ drop (length shorter) longer)))
      | _ \<Rightarrow> (SUCCESS, PLong (or (lval (convert_to_long F op1)) (lval (convert_to_long F op2)))))"

definition bitwise_and_function :: "'d fp \<Rightarrow> 'd pval \<Rightarrow> 'd pval \<Rightarrow> status \<times> 'd pval" where
  "bitwise_and_function F op1 op2 =
     (case (op1, op2) of
        (PString s, PString t) \<Rightarrow>
          (let (longer, shorter) = longer_shorter s t in
           (SUCCESS, PString (map2 (byte_op and) shorter longer)))
      | _ \<Rightarrow> (SUCCESS, PLong (and (lval (convert_to_long F op1)) (lval (convert_to_long F op2)))))"

definition bitwise_xor_function :: "'d fp \<Rightarrow> 'd pval \<Rightarrow> 'd pval \<Rightarrow> status \<times> 'd pval" where
  "bitwise_xor_function F op1 op2 =
     (case (op1, op2) of
        (PString s, PString t) \<Rightarrow>
          (let (longer, shorter) = longer_shorter s t in
           (SUCCESS, PString (map2 (byte_op xor) shorter longer)))
      | _ \<Rightarrow> (SUCCESS, PLong (xor (lval (convert_to_long F op1)) (lval (convert_to_long F op2)))))"

definition shift_count :: "64 word \<Rightarrow> nat option" where
  "shift_count b = (if 0 \<le> sint b \<and> sint b < 64 then Some (nat (sint b)) else None)"

definition shift_left_function :: "'d fp \<Rightarrow> 'd pval \<Rightarrow> 'd pval \<Rightarrow> (status \<times> 'd pval) option" where
  "shift_left_function F op1 op2 =
     map_option (\<lambda>n. (SUCCESS, PLong (push_bit n (lval (convert_to_long F op1)))))
       (shift_count (lval (convert_to_long F op2)))"

definition shift_right_function :: "'d fp \<Rightarrow> 'd pval \<Rightarrow> 'd pval \<Rightarrow> (status \<times> 'd pval) option" where
  "shift_right_function F op1 op2 =
     map_option (\<lambda>n. (SUCCESS, PLong (signed_drop_bit n (lval (convert_to_long F op1)))))
       (shift_count (lval (convert_to_long F op2)))"

end
