(* ===== verification/Compare.thy ===== *)
theory Compare
  imports Operators
begin

text \<open>
  Concatenation, comparison and increment of values, and the string comparisons under them
  (operators.c).  \<open>memcmp\<close> answers the difference of the first two bytes that differ.
\<close>

subsection \<open>Strings\<close>

text \<open>\<open>add_char_to_string\<close>, the scanner's way to build a string; the character is \<open>op2->value.chval\<close>.\<close>

definition add_char_to_string :: "'d pval \<Rightarrow> char \<Rightarrow> status \<times> 'd pval" where
  "add_char_to_string op1 c =
     (case op1 of PString s \<Rightarrow> (SUCCESS, PString (s @ [c])) | _ \<Rightarrow> (FAILURE, var_reset))"

definition concat_function :: "'d fp \<Rightarrow> 'd pval \<Rightarrow> 'd pval \<Rightarrow> (status \<times> 'd pval) option" where
  "concat_function F op1 op2 =
     (case (convert_to_string F op1, convert_to_string F op2) of
        (Some (PString s), Some (PString t)) \<Rightarrow> Some (SUCCESS, PString (s @ t))
      | (Some _, Some _) \<Rightarrow> Some (FAILURE, var_reset)
      | _ \<Rightarrow> None)"

fun memcmp :: "string \<Rightarrow> string \<Rightarrow> nat \<Rightarrow> int" where
  "memcmp (a # s) (b # t) (Suc n) = (if a = b then memcmp s t n else int (uchar a) - int (uchar b))"
| "memcmp _ _ _ = 0"

definition php3_binary_strcmp :: "string \<Rightarrow> string \<Rightarrow> int" where
  "php3_binary_strcmp s1 s2 =
     (let retval = memcmp s1 s2 (min (length s1) (length s2)) in
      if retval = 0 then int (length s1) - int (length s2) else retval)"

fun strcase_loop :: "nat \<Rightarrow> string \<Rightarrow> string \<Rightarrow> int option" where
  "strcase_loop (Suc len) (a # s) (b # t) =
     (let c1 = tolower a; c2 = tolower b in
      if c1 \<noteq> c2 then Some (int (uchar c1) - int (uchar c2)) else strcase_loop len s t)"
| "strcase_loop _ _ _ = None"

definition php3_binary_strcasecmp :: "string \<Rightarrow> string \<Rightarrow> int" where
  "php3_binary_strcasecmp s1 s2 =
     (case strcase_loop (min (length s1) (length s2)) s1 s2 of
        Some r \<Rightarrow> r
      | None \<Rightarrow> int (length s1) - int (length s2))"

definition php3_str_tolower :: "string \<Rightarrow> nat \<Rightarrow> string" where
  "php3_str_tolower str len = map tolower (take len str) @ drop len str"

text \<open>
  Two numeric strings are compared as numbers, any other two as strings.  When one is a double, the
  other is read again with \<open>strtod\<close>.
\<close>

definition php3_smart_strcmp :: "'d fp \<Rightarrow> string \<Rightarrow> string \<Rightarrow> 'd pval" where
  "php3_smart_strcmp F s1 s2 =
     (case (is_numeric_string F s1, is_numeric_string F s2) of
        (Numeric_long l1, Numeric_long l2) \<Rightarrow> PLong (l1 - l2)
      | (Numeric_double d1, Numeric_double d2) \<Rightarrow> PDouble (d_sub F d1 d2)
      | (Numeric_long l1, Numeric_double d2) \<Rightarrow> PDouble (d_sub F (fst (d_strtod F (c_str s1))) d2)
      | (Numeric_double d1, Numeric_long l2) \<Rightarrow> PDouble (d_sub F d1 (fst (d_strtod F (c_str s2))))
      | _ \<Rightarrow> PLong (word_of_int (php3_binary_strcmp s1 s2)))"

subsection \<open>Comparison\<close>

fun to_double :: "'d fp \<Rightarrow> 'd pval \<Rightarrow> 'd option" where
  "to_double F (PLong l) = Some (d_of_long F l)"
| "to_double F (PDouble d) = Some d"
| "to_double F _ = None"

definition compare_function :: "'d fp \<Rightarrow> 'd pval \<Rightarrow> 'd pval \<Rightarrow> status \<times> 'd pval" where
  "compare_function F op1 op2 =
     (case (op1, op2) of
        (PString s, PString t) \<Rightarrow> (SUCCESS, php3_smart_strcmp F s t)
      | _ \<Rightarrow>
        (case (convert_string_to_number F op1, convert_string_to_number F op2) of
           (PLong a, PLong b) \<Rightarrow> (SUCCESS, PLong (a - b))
         | (x, y) \<Rightarrow>
            (case (to_double F x, to_double F y) of
               (Some a, Some b) \<Rightarrow> (SUCCESS, PDouble (d_sub F a b))
             | _ \<Rightarrow> (FAILURE, var_reset))))"

definition truth :: "bool \<Rightarrow> 'd pval" where
  "truth b = PLong (if b then 1 else 0)"

definition is_equal_function :: "'d fp \<Rightarrow> 'd pval \<Rightarrow> 'd pval \<Rightarrow> status \<times> 'd pval" where
  "is_equal_function F op1 op2 =
     (case compare_function F op1 op2 of
        (FAILURE, r) \<Rightarrow> (FAILURE, r)
      | (SUCCESS, r) \<Rightarrow> (SUCCESS, truth (lval (convert_to_boolean_long F r) = 0)))"

definition is_not_equal_function :: "'d fp \<Rightarrow> 'd pval \<Rightarrow> 'd pval \<Rightarrow> status \<times> 'd pval" where
  "is_not_equal_function F op1 op2 =
     (case compare_function F op1 op2 of
        (FAILURE, r) \<Rightarrow> (FAILURE, r)
      | (SUCCESS, r) \<Rightarrow> (SUCCESS, truth (lval (convert_to_boolean_long F r) \<noteq> 0)))"

text \<open>What the four order operators share: a test of the difference, on a long or on a double.\<close>

definition order_test ::
  "'d fp \<Rightarrow> (int \<Rightarrow> bool) \<Rightarrow> ('d \<Rightarrow> bool) \<Rightarrow> 'd pval \<Rightarrow> 'd pval \<Rightarrow> status \<times> 'd pval" where
  "order_test F P Q op1 op2 =
     (case compare_function F op1 op2 of
        (FAILURE, r) \<Rightarrow> (FAILURE, r)
      | (SUCCESS, PLong l) \<Rightarrow> (SUCCESS, truth (P (sint l)))
      | (SUCCESS, PDouble d) \<Rightarrow> (SUCCESS, truth (Q d))
      | _ \<Rightarrow> (FAILURE, var_reset))"

definition is_smaller_function :: "'d fp \<Rightarrow> 'd pval \<Rightarrow> 'd pval \<Rightarrow> status \<times> 'd pval" where
  "is_smaller_function F = order_test F (\<lambda>l. l < 0) (\<lambda>d. d_less F d (d_zero F))"

definition is_smaller_or_equal_function :: "'d fp \<Rightarrow> 'd pval \<Rightarrow> 'd pval \<Rightarrow> status \<times> 'd pval" where
  "is_smaller_or_equal_function F = order_test F (\<lambda>l. l \<le> 0) (\<lambda>d. d_le F d (d_zero F))"

definition is_greater_function :: "'d fp \<Rightarrow> 'd pval \<Rightarrow> 'd pval \<Rightarrow> status \<times> 'd pval" where
  "is_greater_function F = order_test F (\<lambda>l. l > 0) (\<lambda>d. d_less F (d_zero F) d)"

definition is_greater_or_equal_function :: "'d fp \<Rightarrow> 'd pval \<Rightarrow> 'd pval \<Rightarrow> status \<times> 'd pval" where
  "is_greater_or_equal_function F = order_test F (\<lambda>l. l \<ge> 0) (\<lambda>d. d_le F (d_zero F) d)"

subsection \<open>Increment and decrement\<close>

datatype char_class = LOWER_CASE | UPPER_CASE | NUMERIC | OTHER_CHAR

definition class_of :: "char \<Rightarrow> char_class" where
  "class_of c =
     (if 97 \<le> uchar c \<and> uchar c \<le> 122 then LOWER_CASE
      else if 65 \<le> uchar c \<and> uchar c \<le> 90 then UPPER_CASE
      else if isdigit c then NUMERIC else OTHER_CHAR)"

definition last_of_class :: "char_class \<Rightarrow> nat" where
  "last_of_class k = (case k of LOWER_CASE \<Rightarrow> 122 | UPPER_CASE \<Rightarrow> 90 | _ \<Rightarrow> 57)"

definition first_of_class :: "char_class \<Rightarrow> nat" where
  "first_of_class k = (case k of LOWER_CASE \<Rightarrow> 97 | UPPER_CASE \<Rightarrow> 65 | _ \<Rightarrow> 48)"

definition carry_char :: "char_class \<Rightarrow> char" where
  "carry_char k = (case k of LOWER_CASE \<Rightarrow> CHR ''a'' | UPPER_CASE \<Rightarrow> CHR ''A'' | _ \<Rightarrow> CHR ''1'')"

text \<open>
  The loop of \<open>increment_string\<close> from position \<open>n - 1\<close> down: the last letter or digit of its class
  wraps around to the first and carries, any other character ends the loop.
\<close>

fun increment_loop :: "nat \<Rightarrow> string \<Rightarrow> bool \<Rightarrow> char_class \<Rightarrow> string \<times> bool \<times> char_class" where
  "increment_loop 0 s carry lst = (s, carry, lst)"
| "increment_loop (Suc pos) s carry lst =
     (let ch = s ! pos; k = class_of ch in
      if k = OTHER_CHAR then (s, False, lst)
      else if uchar ch = last_of_class k then
        increment_loop pos (s[pos := char_of (first_of_class k)]) True k
      else (s[pos := char_of (uchar ch + 1)], False, k))"

definition increment_string :: "string \<Rightarrow> string" where
  "increment_string s =
     (let (s', carry, lst) = increment_loop (length s) s False OTHER_CHAR in
      if carry then carry_char lst # s' else s')"

fun increment_function :: "'d fp \<Rightarrow> 'd pval \<Rightarrow> status \<times> 'd pval" where
  "increment_function F (PLong l) = (SUCCESS, PLong (l + 1))"
| "increment_function F (PDouble d) = (SUCCESS, PDouble (d_add F d (d_of_long F 1)))"
| "increment_function F (PString s) =
     (SUCCESS, if s = [] then PLong 1 else PString (increment_string s))"
| "increment_function F v = (FAILURE, v)"

fun decrement_function :: "'d fp \<Rightarrow> 'd pval \<Rightarrow> status \<times> 'd pval" where
  "decrement_function F (PLong l) = (SUCCESS, PLong (l - 1))"
| "decrement_function F (PDouble d) = (SUCCESS, PDouble (d_sub F d (d_of_long F 1)))"
| "decrement_function F (PString s) =
     (SUCCESS, if s = [] then PLong (- 1)
               else case is_numeric_string F s of Numeric_long l \<Rightarrow> PLong (l - 1) | _ \<Rightarrow> PString s)"
| "decrement_function F v = (FAILURE, v)"

end
