(* ===== verification/Control.thy ===== *)
theory Control
  imports Compare
begin

text \<open>
  The control structures (control_structures.h, control_structures_inline.h) and the order in which
  the actions of the grammar (language-parser.y) call them.

  The interpreter has no syntax tree: it executes while it parses.  Every construct pushes the flag
  \<open>ExecuteFlag\<close> on the stack \<open>css\<close>, sets the flag for the part that follows and restores it at the end;
  a part that is not to be executed is parsed with \<open>Execute = 0\<close>.  A loop goes back by seeking in the
  token cache to its first token, whose type was changed so that the grammar continues the loop.

  The stacks hold what \<open>stack_lifo\<close> shows the stacks of stack.c to hold: a list, top first.  Of the
  token cache the model keeps, for the offset of a loop token, its type and its \<open>switched\<close> mark, and
  the offset sought.  The parser and scanner are not modelled; a program is the derivation tree the
  grammar gives the tokens, with the offsets of its loop tokens.
\<close>

subsection \<open>The state\<close>

definition EXECUTE :: int where "EXECUTE = 0"
definition BEFORE_EXECUTE :: int where "BEFORE_EXECUTE = 1"
definition DONT_EXECUTE :: int where "DONT_EXECUTE = 2"

datatype loop_change = DO_NOTHING | DO_BREAK | DO_CONTINUE

text \<open>The token types the control structures give loop tokens.\<close>

datatype loop_token = WHILE | CONTINUED_WHILE | DO | CONTINUED_DOWHILE | FOR | CONTINUED_FOR

text \<open>The part of \<open>FunctionState\<close> that steers execution.\<close>

record function_state =
  loop_nest_level :: int
  loop_change_type :: loop_change
  loop_change_level :: int
  returned :: bool
  function_name :: "string option"

record 'd switch_expr =
  se_expr :: "'d pval"
  se_offset :: int
  se_Execute :: bool

record ('d, 's) engine =
  css :: "int list"
  ExecuteFlag :: int
  Execute :: bool
  fstate :: function_state
  for_stack :: "int list"
  switch_stack :: "'d switch_expr list"
  return_value :: "'d pval"
  loop_tokens :: "nat \<Rightarrow> loop_token"
  switched :: "nat \<Rightarrow> bool"
  sought :: "nat option"
  store :: 's

text \<open>\<open>php3i_stack_int_top\<close>: -1 (\<open>FAILURE\<close>) on the empty stack.\<close>

definition int_top :: "int list \<Rightarrow> int" where
  "int_top st = (case st of [] \<Rightarrow> - 1 | i # _ \<Rightarrow> i)"

definition SHOULD_EXECUTE :: "('d, 's) engine \<Rightarrow> bool" where
  "SHOULD_EXECUTE g \<longleftrightarrow>
     ExecuteFlag g = EXECUTE \<and> \<not> returned (fstate g) \<and> loop_change_type (fstate g) = DO_NOTHING"

text \<open>\<open>Execute = SHOULD_EXECUTE\<close>, after setting the flag.\<close>

definition set_flag :: "int \<Rightarrow> ('d, 's) engine \<Rightarrow> ('d, 's) engine" where
  "set_flag f g = (let g' = g\<lparr>ExecuteFlag := f\<rparr> in g'\<lparr>Execute := SHOULD_EXECUTE g'\<rparr>)"

definition push_css :: "('d, 's) engine \<Rightarrow> ('d, 's) engine" where
  "push_css g = g\<lparr>css := ExecuteFlag g # css g\<rparr>"

definition pop_css :: "('d, 's) engine \<Rightarrow> ('d, 's) engine" where
  "pop_css g = set_flag (int_top (css g)) (g\<lparr>css := tl (css g)\<rparr>)"

definition nest :: "int \<Rightarrow> ('d, 's) engine \<Rightarrow> ('d, 's) engine" where
  "nest k g = g\<lparr>fstate := (fstate g)\<lparr>loop_nest_level := loop_nest_level (fstate g) + k\<rparr>\<rparr>"

text \<open>\<open>tc_set_token\<close>, \<open>tc_set_switched\<close> and \<open>seek_token\<close> on the offset of a loop token.\<close>

definition set_token :: "nat \<Rightarrow> loop_token \<Rightarrow> ('d, 's) engine \<Rightarrow> ('d, 's) engine" where
  "set_token off t g = g\<lparr>loop_tokens := (loop_tokens g)(off := t)\<rparr>"

definition set_switched :: "nat \<Rightarrow> ('d, 's) engine \<Rightarrow> ('d, 's) engine" where
  "set_switched off g = g\<lparr>switched := (switched g)(off := True)\<rparr>"

definition seek :: "nat \<Rightarrow> ('d, 's) engine \<Rightarrow> ('d, 's) engine" where
  "seek off g = g\<lparr>sought := Some off\<rparr>"

text \<open>A break or continue is pending for the loop that is ending.\<close>

definition change_here :: "('d, 's) engine \<Rightarrow> bool" where
  "change_here g \<longleftrightarrow> loop_change_type (fstate g) \<noteq> DO_NOTHING \<and>
     loop_change_level (fstate g) = loop_nest_level (fstate g)"

definition clear_change :: "('d, 's) engine \<Rightarrow> ('d, 's) engine" where
  "clear_change g = g\<lparr>fstate := (fstate g)\<lparr>loop_change_type := DO_NOTHING, loop_change_level := 0\<rparr>\<rparr>"

subsection \<open>\<open>while\<close>\<close>

definition cs_start_while :: "'d fp \<Rightarrow> nat \<Rightarrow> 'd pval \<Rightarrow> ('d, 's) engine \<Rightarrow> ('d, 's) engine" where
  "cs_start_while F off v g =
     (let g1 = push_css (nest 1 g) in
      if Execute g1 then
        set_flag (if pval_is_true F v then EXECUTE else DONT_EXECUTE) (set_token off WHILE g1)
      else g1)"

definition cs_end_while :: "nat \<Rightarrow> ('d, 's) engine \<Rightarrow> ('d, 's) engine" where
  "cs_end_while off g =
     (let g1 =
        (if Execute g then seek off (set_token off CONTINUED_WHILE g)
         else if change_here g then
           clear_change (if loop_change_type (fstate g) = DO_CONTINUE
                         then seek off (set_token off CONTINUED_WHILE g) else g)
         else g)
      in nest (- 1) (pop_css g1))"

subsection \<open>\<open>do\<close> \<open>while\<close>\<close>

definition cs_start_do_while :: "nat \<Rightarrow> ('d, 's) engine \<Rightarrow> ('d, 's) engine" where
  "cs_start_do_while off g =
     (let g1 = push_css (nest 1 g) in if Execute g1 then set_token off DO g1 else g1)"

definition cs_force_eval_do_while :: "('d, 's) engine \<Rightarrow> ('d, 's) engine" where
  "cs_force_eval_do_while g =
     (if loop_change_level (fstate g) = loop_nest_level (fstate g) \<and> loop_change_type (fstate g) = DO_CONTINUE
      then set_flag EXECUTE (clear_change g) else g)"

definition cs_end_do_while :: "'d fp \<Rightarrow> nat \<Rightarrow> 'd pval \<Rightarrow> ('d, 's) engine \<Rightarrow> ('d, 's) engine" where
  "cs_end_do_while F off v g =
     (let g1 =
        (if Execute g \<and> pval_is_true F v then seek off (set_token off CONTINUED_DOWHILE g)
         else if change_here g then clear_change g else g)
      in nest (- 1) (pop_css g1))"

subsection \<open>\<open>if\<close>\<close>

definition cs_start_if :: "'d fp \<Rightarrow> 'd pval \<Rightarrow> ('d, 's) engine \<Rightarrow> ('d, 's) engine" where
  "cs_start_if F v g =
     (let g1 = push_css g in
      if Execute g1 then set_flag (if pval_is_true F v then EXECUTE else BEFORE_EXECUTE) g1
      else g1\<lparr>ExecuteFlag := DONT_EXECUTE\<rparr>)"

definition cs_end_if :: "('d, 's) engine \<Rightarrow> ('d, 's) engine" where
  "cs_end_if g = pop_css g"

definition cs_elseif_start_evaluate :: "('d, 's) engine \<Rightarrow> ('d, 's) engine" where
  "cs_elseif_start_evaluate g =
     (let g1 = (if ExecuteFlag g = EXECUTE then set_flag DONT_EXECUTE g else g);
          local_stack_top = int_top (css g1);
          g2 = push_css g1
      in if ExecuteFlag g2 = BEFORE_EXECUTE \<and> local_stack_top = EXECUTE then set_flag EXECUTE g2 else g2)"

definition cs_elseif_end_evaluate :: "('d, 's) engine \<Rightarrow> ('d, 's) engine" where
  "cs_elseif_end_evaluate g = pop_css g"

definition cs_start_elseif :: "'d fp \<Rightarrow> 'd pval \<Rightarrow> ('d, 's) engine \<Rightarrow> ('d, 's) engine" where
  "cs_start_elseif F v g =
     (let g1 = (if ExecuteFlag g = EXECUTE then set_flag DONT_EXECUTE g else g)
      in if ExecuteFlag g1 = BEFORE_EXECUTE \<and> pval_is_true F v then set_flag EXECUTE g1 else g1)"

definition cs_start_else :: "('d, 's) engine \<Rightarrow> ('d, 's) engine" where
  "cs_start_else g =
     (let g1 = (if ExecuteFlag g = EXECUTE then set_flag DONT_EXECUTE g else g)
      in if ExecuteFlag g1 = BEFORE_EXECUTE then set_flag EXECUTE g1 else g1)"

subsection \<open>\<open>break\<close> and \<open>continue\<close>\<close>

text \<open>The level to leave, an \<open>int\<close> computed from a \<open>long\<close>; \<open>None\<close> is the error.\<close>

definition change_level :: "'d fp \<Rightarrow> int \<Rightarrow> 'd pval option \<Rightarrow> int" where
  "change_level F level v =
     (case v of None \<Rightarrow> level | Some e \<Rightarrow> int_of_long (sint (word_of_int level - lval (convert_to_long F e) + 1)))"

definition cs_break_continue ::
  "'d fp \<Rightarrow> 'd pval option \<Rightarrow> loop_change \<Rightarrow> ('d, 's) engine \<Rightarrow> ('d, 's) engine option" where
  "cs_break_continue F v op_type g =
     (if Execute g then
        (let k = change_level F (loop_nest_level (fstate g)) v in
         if k \<le> 0 then None
         else if k > loop_nest_level (fstate g) then None
         else Some (g\<lparr>fstate := (fstate g)\<lparr>loop_change_level := k, loop_change_type := op_type\<rparr>, Execute := False\<rparr>))
      else Some g)"

subsection \<open>\<open>for\<close>\<close>

text \<open>
  The stack of running \<open>for\<close> loops is compared as \<open>long\<close> with the unsigned offset, but the offset is
  pushed as \<open>int\<close>.
\<close>

definition on_for_stack :: "nat \<Rightarrow> ('d, 's) engine \<Rightarrow> bool" where
  "on_for_stack off g \<longleftrightarrow> int_top (for_stack g) = int off"

definition for_pre_expr1 :: "nat \<Rightarrow> ('d, 's) engine \<Rightarrow> ('d, 's) engine" where
  "for_pre_expr1 off g =
     (let g1 = push_css (nest 1 g) in
      if Execute g1 then
        (let g2 = set_token off FOR g1 in if on_for_stack off g2 then set_flag DONT_EXECUTE g2 else g2)
      else g1)"

text \<open>\<open>sw\<close> is the mark \<open>switched\<close> of the loop token as it was read at the start of this iteration.\<close>

definition for_pre_expr2 :: "nat \<Rightarrow> bool \<Rightarrow> ('d, 's) engine \<Rightarrow> ('d, 's) engine" where
  "for_pre_expr2 off sw g =
     (let g1 = set_flag (int_top (css g)) g in
      if sw \<and> \<not> on_for_stack off g1 then set_flag DONT_EXECUTE g1 else g1)"

definition for_pre_expr3 :: "bool \<Rightarrow> ('d, 's) engine \<Rightarrow> ('d, 's) engine" where
  "for_pre_expr3 sw g =
     (let g1 = set_flag (int_top (css g)) g in
      if Execute g1 \<and> \<not> sw then set_flag DONT_EXECUTE g1 else g1)"

definition for_pre_statement :: "'d fp \<Rightarrow> bool \<Rightarrow> 'd pval \<Rightarrow> 'd pval \<Rightarrow> ('d, 's) engine \<Rightarrow> ('d, 's) engine" where
  "for_pre_statement F sw v2 v3 g =
     (let g1 = set_flag (int_top (css g)) g in
      if Execute g1 \<and> sw then set_flag (if pval_is_true F v3 then EXECUTE else DONT_EXECUTE) g1
      else if Execute g1 then set_flag (if pval_is_true F v2 then EXECUTE else DONT_EXECUTE) g1
      else g1)"

definition pop_for :: "nat \<Rightarrow> ('d, 's) engine \<Rightarrow> ('d, 's) engine" where
  "pop_for off g = (if on_for_stack off g then g\<lparr>for_stack := tl (for_stack g)\<rparr> else g)"

definition for_post_statement :: "nat \<Rightarrow> bool \<Rightarrow> ('d, 's) engine \<Rightarrow> ('d, 's) engine" where
  "for_post_statement off sw g =
     (let g1 = (if on_for_stack off g then g else g\<lparr>for_stack := int_of_long (int off) # for_stack g\<rparr>);
          g2 = (if sw then g1 else set_switched off g1);
          g3 = (if Execute g2 then seek off (set_token off CONTINUED_FOR g2)
                else if change_here g2 then
                  clear_change (if loop_change_type (fstate g2) = DO_CONTINUE
                                then seek off (set_token off CONTINUED_FOR g2) else pop_for off g2)
                else pop_for off g2)
      in nest (- 1) (pop_css g3))"

subsection \<open>\<open>switch\<close>\<close>

definition cs_switch_start :: "nat \<Rightarrow> 'd pval \<Rightarrow> ('d, 's) engine \<Rightarrow> ('d, 's) engine" where
  "cs_switch_start off v g =
     (let g1 = push_css (nest 1 g) in
      g1\<lparr>switch_stack := \<lparr>se_expr = v, se_offset = int_of_long (int off), se_Execute = Execute g1\<rparr> # switch_stack g1\<rparr>)"

text \<open>\<open>v = None\<close> is \<open>default\<close>; \<open>se_offset = -1\<close> says that a case has matched.\<close>

definition cs_switch_case_pre :: "'d fp \<Rightarrow> 'd pval option \<Rightarrow> ('d, 's) engine \<Rightarrow> ('d, 's) engine option" where
  "cs_switch_case_pre F v g =
     (if Execute g then
        (case switch_stack g of
           [] \<Rightarrow> None
         | se # ses \<Rightarrow>
           if se_offset se \<noteq> - 1 then
             (let is_equal = (case v of None \<Rightarrow> False
                                      | Some c \<Rightarrow> pval_is_true F (snd (is_equal_function F (se_expr se) c)))
              in if v = None \<or> is_equal
                 then Some (set_flag EXECUTE (g\<lparr>switch_stack := se\<lparr>se_offset := - 1\<rparr> # ses\<rparr>))
                 else Some (set_flag DONT_EXECUTE g))
           else Some g)
      else Some g)"

definition cs_switch_case_post :: "('d, 's) engine \<Rightarrow> ('d, 's) engine" where
  "cs_switch_case_post g = set_flag (int_top (css g)) g"

definition cs_switch_end :: "('d, 's) engine \<Rightarrow> ('d, 's) engine" where
  "cs_switch_end g =
     (let g1 = (if \<not> Execute g \<and> loop_change_level (fstate g) = loop_nest_level (fstate g)
                then g\<lparr>fstate := (fstate g)\<lparr>loop_change_type := DO_NOTHING\<rparr>\<rparr> else g);
          g2 = pop_css g1
      in nest (- 1) (g2\<lparr>switch_stack := tl (switch_stack g2)\<rparr>))"

subsection \<open>\<open>return\<close>\<close>

text \<open>In a function.  At the top level \<open>return\<close> ends the current file, which is not modelled (\<open>None\<close>).\<close>

definition cs_return :: "'d pval option \<Rightarrow> ('d, 's) engine \<Rightarrow> ('d, 's) engine option" where
  "cs_return v g =
     (if Execute g then
        (case function_name (fstate g) of
           None \<Rightarrow> None
         | Some _ \<Rightarrow>
             Some (set_flag DONT_EXECUTE
               (g\<lparr>return_value := (case v of None \<Rightarrow> var_reset | Some e \<Rightarrow> e),
                  fstate := (fstate g)\<lparr>returned := True\<rparr>\<rparr>)))
      else Some g)"

subsection \<open>Short-circuit operators\<close>

definition cs_pre_boolean_or :: "'d fp \<Rightarrow> 'd pval \<Rightarrow> ('d, 's) engine \<Rightarrow> ('d, 's) engine" where
  "cs_pre_boolean_or F l g =
     (let g1 = push_css g in if Execute g1 \<and> pval_is_true F l then set_flag DONT_EXECUTE g1 else g1)"

definition cs_pre_boolean_and :: "'d fp \<Rightarrow> 'd pval \<Rightarrow> ('d, 's) engine \<Rightarrow> ('d, 's) engine" where
  "cs_pre_boolean_and F l g =
     (let g1 = push_css g in if Execute g1 \<and> \<not> pval_is_true F l then set_flag DONT_EXECUTE g1 else g1)"

text \<open>The value of an expression that is not executed is whatever the parser's value stack holds: \<open>u\<close>.\<close>

definition cs_post_boolean_or ::
  "'d fp \<Rightarrow> 'd pval \<Rightarrow> 'd pval \<Rightarrow> 'd pval \<Rightarrow> ('d, 's) engine \<Rightarrow> 'd pval \<times> ('d, 's) engine" where
  "cs_post_boolean_or F u l r g =
     (let g1 = pop_css g in (if Execute g1 then snd (boolean_or_function F l r) else u, g1))"

definition cs_post_boolean_and ::
  "'d fp \<Rightarrow> 'd pval \<Rightarrow> 'd pval \<Rightarrow> 'd pval \<Rightarrow> ('d, 's) engine \<Rightarrow> 'd pval \<times> ('d, 's) engine" where
  "cs_post_boolean_and F u l r g =
     (let g1 = pop_css g in (if Execute g1 then snd (boolean_and_function F l r) else u, g1))"

definition cs_questionmark_op_pre_expr1 :: "'d fp \<Rightarrow> 'd pval \<Rightarrow> ('d, 's) engine \<Rightarrow> ('d, 's) engine" where
  "cs_questionmark_op_pre_expr1 F t g =
     (let g1 = push_css g in if Execute g1 \<and> \<not> pval_is_true F t then set_flag DONT_EXECUTE g1 else g1)"

definition cs_questionmark_op_pre_expr2 :: "'d fp \<Rightarrow> 'd pval \<Rightarrow> ('d, 's) engine \<Rightarrow> ('d, 's) engine" where
  "cs_questionmark_op_pre_expr2 F t g =
     (let g1 = set_flag (int_top (css g)) g in
      if Execute g1 \<and> pval_is_true F t then set_flag DONT_EXECUTE g1 else g1)"

definition cs_questionmark_op_post_expr2 ::
  "'d fp \<Rightarrow> 'd pval \<Rightarrow> 'd pval \<Rightarrow> 'd pval \<Rightarrow> 'd pval \<Rightarrow> ('d, 's) engine \<Rightarrow> 'd pval \<times> ('d, 's) engine" where
  "cs_questionmark_op_post_expr2 F u t e1 e2 g =
     (let g1 = pop_css g in (if Execute g1 then (if pval_is_true F t then e1 else e2) else u, g1))"

end
