(* ===== verification/Control_Exec.thy ===== *)
theory Control_Exec
  imports Control
begin

text \<open>
  Executing a program: the actions of language-parser.y in the order the grammar runs them.

  A program is the derivation tree of the statement rules.  An expression is a tree of operators:
  \<open>App p es\<close> stands for every expression rule whose action is guarded by \<open>Execute\<close> alone (constants,
  variables, assignments, the operators of operators.c), with meaning \<open>psem p\<close> on the values of its
  operands and on the variables; the rules that steer execution have constructors of their own.
\<close>

subsection \<open>Programs\<close>

datatype 'p expr =
    App 'p "'p expr list"
  | BoolOr "'p expr" "'p expr"
  | BoolAnd "'p expr" "'p expr"
  | Question "'p expr" "'p expr" "'p expr"

text \<open>
  Loops and \<open>switch\<close> carry the offset of their token.  \<open>rest\<close> is what follows the statement of an
  \<open>if\<close> (\<open>elseif_list\<close> and \<open>else_single\<close>), \<open>case_list\<close> the cases of a \<open>switch\<close>, \<open>default\<close> last as the
  grammar demands.
\<close>

datatype 'p stmt =
    Empty
  | Seq "'p stmt" "'p stmt"
  | Expr "'p expr"
  | If "'p expr" "'p stmt" "'p rest"
  | While nat "'p expr" "'p stmt"
  | DoWhile nat "'p stmt" "'p expr"
  | For nat "'p expr list" "'p expr list" "'p expr list" "'p stmt"
  | Switch nat "'p expr" "'p case_list"
  | Break "'p expr option"
  | Continue "'p expr option"
  | Return "'p expr option"
and 'p rest =
    ElseIf "'p expr" "'p stmt" "'p rest"
  | Else "'p stmt"
  | EndIf
and 'p case_list =
    Case "'p expr" "'p stmt" "'p case_list"
  | Default "'p stmt"
  | EndCases

text \<open>
  The meaning of the operators, and what the parser's value stack holds for an expression that is not
  executed (\<open>unset\<close>, which may depend on anything).
\<close>

record ('d, 'p, 's) lang =
  psem :: "'p \<Rightarrow> 'd pval list \<Rightarrow> 's \<Rightarrow> 'd pval \<times> 's"
  unset :: "'p expr \<Rightarrow> ('d, 's) engine \<Rightarrow> 'd pval"

subsection \<open>Expressions\<close>

fun eval_expr :: "'d fp \<Rightarrow> ('d, 'p, 's) lang \<Rightarrow> 'p expr \<Rightarrow> ('d, 's) engine \<Rightarrow> 'd pval \<times> ('d, 's) engine"
and eval_exprs :: "'d fp \<Rightarrow> ('d, 'p, 's) lang \<Rightarrow> 'p expr list \<Rightarrow> ('d, 's) engine \<Rightarrow> 'd pval list \<times> ('d, 's) engine"
where
  "eval_expr F G (App p es) g =
     (let (vs, g1) = eval_exprs F G es g in
      if Execute g1 then (let (v, s) = psem G p vs (store g1) in (v, g1\<lparr>store := s\<rparr>))
      else (unset G (App p es) g1, g1))"
| "eval_expr F G (BoolOr a b) g =
     (let (l, g1) = eval_expr F G a g;
          (r, g2) = eval_expr F G b (cs_pre_boolean_or F l g1)
      in cs_post_boolean_or F (unset G (BoolOr a b) g2) l r g2)"
| "eval_expr F G (BoolAnd a b) g =
     (let (l, g1) = eval_expr F G a g;
          (r, g2) = eval_expr F G b (cs_pre_boolean_and F l g1)
      in cs_post_boolean_and F (unset G (BoolAnd a b) g2) l r g2)"
| "eval_expr F G (Question c a b) g =
     (let (t, g1) = eval_expr F G c g;
          (v1, g2) = eval_expr F G a (cs_questionmark_op_pre_expr1 F t g1);
          (v2, g3) = eval_expr F G b (cs_questionmark_op_pre_expr2 F t g2)
      in cs_questionmark_op_post_expr2 F (unset G (Question c a b) g3) t v1 v2 g3)"
| "eval_exprs F G [] g = ([], g)"
| "eval_exprs F G (e # es) g =
     (let (v, g1) = eval_expr F G e g; (vs, g2) = eval_exprs F G es g1 in (v # vs, g2))"

text \<open>
  \<open>for_expr\<close>: a list of expressions with the value of the last one, 1 when it is empty.  A list that
  is not executed leaves what the value stack holds.
\<close>

definition eval_for_expr ::
  "'d fp \<Rightarrow> ('d, 'p, 's) lang \<Rightarrow> 'p expr list \<Rightarrow> ('d, 's) engine \<Rightarrow> 'd pval \<times> ('d, 's) engine" where
  "eval_for_expr F G es g =
     (let (vs, g1) = eval_exprs F G es g in (if vs = [] then PLong 1 else last vs, g1))"

text \<open>An optional expression, as in \<open>break expr;\<close>.\<close>

definition eval_opt ::
  "'d fp \<Rightarrow> ('d, 'p, 's) lang \<Rightarrow> 'p expr option \<Rightarrow> ('d, 's) engine \<Rightarrow> 'd pval option \<times> ('d, 's) engine" where
  "eval_opt F G e g = (case e of None \<Rightarrow> (None, g) | Some x \<Rightarrow> (let (v, g1) = eval_expr F G x g in (Some v, g1)))"

subsection \<open>Statements\<close>

text \<open>
  How a run ends: out of fuel, aborted by the error of a break or of a return outside a function, or
  at the end of the statement.
\<close>

datatype 'a run = Timeout | Aborted | Ran 'a

fun then_run :: "'a run \<Rightarrow> ('a \<Rightarrow> 'b run) \<Rightarrow> 'b run" where
  "then_run Timeout f = Timeout"
| "then_run Aborted f = Aborted"
| "then_run (Ran x) f = f x"

definition or_abort :: "'a option \<Rightarrow> 'a run" where
  "or_abort r = (case r of None \<Rightarrow> Aborted | Some x \<Rightarrow> Ran x)"

text \<open>
  After the end of a loop statement: the parser was sent back to the token of the loop, whose type
  now starts another iteration (\<open>while_iterations\<close>, \<open>do_while_iterations\<close>, \<open>for_iterations\<close>).
\<close>

definition goes_back :: "nat \<Rightarrow> loop_token \<Rightarrow> ('d, 's) engine \<Rightarrow> bool" where
  "goes_back off t g \<longleftrightarrow> sought g = Some off \<and> loop_tokens g off = t"

definition at_token :: "('d, 's) engine \<Rightarrow> ('d, 's) engine" where
  "at_token g = g\<lparr>sought := None\<rparr>"

text \<open>
  The three parts of a \<open>for\<close> in the order of the tokens: \<open>tc_switch\<close> has exchanged the second and the
  third one when the loop token is marked.
\<close>

definition for_parts :: "bool \<Rightarrow> 'e \<Rightarrow> 'e \<Rightarrow> 'e \<times> 'e" where
  "for_parts sw e2 e3 = (if sw then (e3, e2) else (e2, e3))"

definition for_header ::
  "'d fp \<Rightarrow> ('d, 'p, 's) lang \<Rightarrow> nat \<Rightarrow> 'p expr list \<Rightarrow> 'p expr list \<Rightarrow> 'p expr list \<Rightarrow>
   ('d, 's) engine \<Rightarrow> ('d, 's) engine" where
  "for_header F G off e1 e2 e3 g =
     (let sw = switched g off;
          (slot2, slot3) = for_parts sw e2 e3;
          (v1, g1) = eval_for_expr F G e1 (for_pre_expr1 off g);
          (v2, g2) = eval_for_expr F G slot2 (for_pre_expr2 off sw g1);
          (v3, g3) = eval_for_expr F G slot3 (for_pre_expr3 sw g2)
      in for_pre_statement F sw v2 v3 g3)"

text \<open>\<open>n\<close> bounds the number of times a loop goes back on each nesting level.\<close>

function exec_stmt :: "'d fp \<Rightarrow> ('d, 'p, 's) lang \<Rightarrow> nat \<Rightarrow> 'p stmt \<Rightarrow> ('d, 's) engine \<Rightarrow> ('d, 's) engine run"
and exec_rest :: "'d fp \<Rightarrow> ('d, 'p, 's) lang \<Rightarrow> nat \<Rightarrow> 'p rest \<Rightarrow> ('d, 's) engine \<Rightarrow> ('d, 's) engine run"
and exec_cases :: "'d fp \<Rightarrow> ('d, 'p, 's) lang \<Rightarrow> nat \<Rightarrow> 'p case_list \<Rightarrow> ('d, 's) engine \<Rightarrow> ('d, 's) engine run"
where
  "exec_stmt F G n Empty g = Ran g"
| "exec_stmt F G n (Seq a b) g = then_run (exec_stmt F G n a g) (exec_stmt F G n b)"
| "exec_stmt F G n (Expr e) g = Ran (snd (eval_expr F G e g))"
| "exec_stmt F G n (If c a r) g =
     (let (v, g1) = eval_expr F G c g in
      then_run (exec_stmt F G n a (cs_start_if F v g1)) (\<lambda>g2.
      then_run (exec_rest F G n r g2) (\<lambda>g3. Ran (cs_end_if g3))))"
| "exec_stmt F G n (While off c a) g =
     (let (v, g1) = eval_expr F G c g in
      then_run (exec_stmt F G n a (cs_start_while F off v g1)) (\<lambda>g2.
        let g3 = cs_end_while off g2 in
        if goes_back off CONTINUED_WHILE g3 then
          (case n of 0 \<Rightarrow> Timeout | Suc m \<Rightarrow> exec_stmt F G m (While off c a) (at_token g3))
        else Ran g3))"
| "exec_stmt F G n (DoWhile off a c) g =
     then_run (exec_stmt F G n a (cs_start_do_while off g)) (\<lambda>g1.
       let (v, g2) = eval_expr F G c (cs_force_eval_do_while g1); g3 = cs_end_do_while F off v g2 in
       if goes_back off CONTINUED_DOWHILE g3 then
         (case n of 0 \<Rightarrow> Timeout | Suc m \<Rightarrow> exec_stmt F G m (DoWhile off a c) (at_token g3))
       else Ran g3)"
| "exec_stmt F G n (For off e1 e2 e3 a) g =
     then_run (exec_stmt F G n a (for_header F G off e1 e2 e3 g)) (\<lambda>g1.
       let g2 = for_post_statement off (switched g off) g1 in
       if goes_back off CONTINUED_FOR g2 then
         (case n of 0 \<Rightarrow> Timeout | Suc m \<Rightarrow> exec_stmt F G m (For off e1 e2 e3 a) (at_token g2))
       else Ran g2)"
| "exec_stmt F G n (Switch off e cs) g =
     (let (v, g1) = eval_expr F G e g in
      then_run (exec_cases F G n cs (cs_switch_start off v g1)) (\<lambda>g2. Ran (cs_switch_end g2)))"
| "exec_stmt F G n (Break e) g =
     (let (v, g1) = eval_opt F G e g in or_abort (cs_break_continue F v DO_BREAK g1))"
| "exec_stmt F G n (Continue e) g =
     (let (v, g1) = eval_opt F G e g in or_abort (cs_break_continue F v DO_CONTINUE g1))"
| "exec_stmt F G n (Return e) g = (let (v, g1) = eval_opt F G e g in or_abort (cs_return v g1))"
| "exec_rest F G n (ElseIf c a r) g =
     (let (v, g1) = eval_expr F G c (cs_elseif_start_evaluate g) in
      then_run (exec_stmt F G n a (cs_start_elseif F v (cs_elseif_end_evaluate g1))) (exec_rest F G n r))"
| "exec_rest F G n (Else a) g = exec_stmt F G n a (cs_start_else g)"
| "exec_rest F G n EndIf g = Ran g"
| "exec_cases F G n (Case c a cs) g =
     (let (v, g1) = eval_expr F G c g in
      then_run (or_abort (cs_switch_case_pre F (Some v) g1)) (\<lambda>g2.
      then_run (exec_stmt F G n a g2) (\<lambda>g3. exec_cases F G n cs (cs_switch_case_post g3))))"
| "exec_cases F G n (Default a) g =
     then_run (or_abort (cs_switch_case_pre F None g)) (\<lambda>g1.
     then_run (exec_stmt F G n a g1) (\<lambda>g2. Ran (cs_switch_case_post g2)))"
| "exec_cases F G n EndCases g = Ran g"
  by pat_completeness auto

termination
  by (relation "measures [
       \<lambda>x. case x of Inl (F, G, n, s, g) \<Rightarrow> n | Inr (Inl (F, G, n, r, g)) \<Rightarrow> n | Inr (Inr (F, G, n, c, g)) \<Rightarrow> n,
       \<lambda>x. case x of Inl (F, G, n, s, g) \<Rightarrow> size s | Inr (Inl (F, G, n, r, g)) \<Rightarrow> size r | Inr (Inr (F, G, n, c, g)) \<Rightarrow> size c]")
    auto

end
