(* ===== verification/Control_Spec.thy ===== *)
theory Control_Spec
  imports Control_Exec
begin

text \<open>
  What programs mean: a structured semantics without flags, stacks, offsets or seeking.  A statement
  ends normally, with a break or continue for the loop on a given nesting level, or with a return.
  \<open>Control_Sim\<close> shows that the actions of the parser implement it.
\<close>

subsection \<open>Expressions\<close>

fun ev :: "'d fp \<Rightarrow> ('d, 'p, 's) lang \<Rightarrow> 'p expr \<Rightarrow> 's \<Rightarrow> 'd pval \<times> 's"
and evs :: "'d fp \<Rightarrow> ('d, 'p, 's) lang \<Rightarrow> 'p expr list \<Rightarrow> 's \<Rightarrow> 'd pval list \<times> 's"
where
  "ev F G (App p es) s = (let (vs, s1) = evs F G es s in psem G p vs s1)"
| "ev F G (BoolOr a b) s =
     (let (l, s1) = ev F G a s in
      if pval_is_true F l then (truth True, s1)
      else (let (r, s2) = ev F G b s1 in (truth (pval_is_true F r), s2)))"
| "ev F G (BoolAnd a b) s =
     (let (l, s1) = ev F G a s in
      if pval_is_true F l then (let (r, s2) = ev F G b s1 in (truth (pval_is_true F r), s2))
      else (truth False, s1))"
| "ev F G (Question c a b) s =
     (let (t, s1) = ev F G c s in if pval_is_true F t then ev F G a s1 else ev F G b s1)"
| "evs F G [] s = ([], s)"
| "evs F G (e # es) s = (let (v, s1) = ev F G e s; (vs, s2) = evs F G es s1 in (v # vs, s2))"

definition ev_list :: "'d fp \<Rightarrow> ('d, 'p, 's) lang \<Rightarrow> 'p expr list \<Rightarrow> 's \<Rightarrow> 'd pval \<times> 's" where
  "ev_list F G es s = (let (vs, s1) = evs F G es s in (if vs = [] then PLong 1 else last vs, s1))"

definition ev_opt :: "'d fp \<Rightarrow> ('d, 'p, 's) lang \<Rightarrow> 'p expr option \<Rightarrow> 's \<Rightarrow> 'd pval option \<times> 's" where
  "ev_opt F G e s = (case e of None \<Rightarrow> (None, s) | Some x \<Rightarrow> (let (v, s1) = ev F G x s in (Some v, s1)))"

subsection \<open>Statements\<close>

datatype 'd outcome = Normal | Brk int | Cnt int | Ret "'d pval"

text \<open>After the body of the loop on level \<open>k\<close>: go round again (\<open>None\<close>), or end with an outcome.\<close>

definition loop_next :: "int \<Rightarrow> 'd outcome \<Rightarrow> 'd outcome option" where
  "loop_next k r =
     (case r of
        Normal \<Rightarrow> None
      | Cnt j \<Rightarrow> if j = k then None else Some r
      | Brk j \<Rightarrow> if j = k then Some Normal else Some r
      | Ret v \<Rightarrow> Some r)"

definition switch_next :: "int \<Rightarrow> 'd outcome \<Rightarrow> 'd outcome" where
  "switch_next k r = (case r of Brk j \<Rightarrow> if j = k then Normal else r | Cnt j \<Rightarrow> if j = k then Normal else r | _ \<Rightarrow> r)"

definition change_outcome :: "'d fp \<Rightarrow> int \<Rightarrow> 'd pval option \<Rightarrow> (int \<Rightarrow> 'd outcome) \<Rightarrow> 's \<Rightarrow> ('d outcome \<times> 's) run" where
  "change_outcome F L v r s =
     (let k = change_level F L v in if 1 \<le> k \<and> k \<le> L then Ran (r k, s) else Aborted)"

text \<open>\<open>L\<close> is the number of loops and switches around the statement.\<close>

function run_stmt :: "'d fp \<Rightarrow> ('d, 'p, 's) lang \<Rightarrow> nat \<Rightarrow> int \<Rightarrow> 'p stmt \<Rightarrow> 's \<Rightarrow> ('d outcome \<times> 's) run"
and run_rest :: "'d fp \<Rightarrow> ('d, 'p, 's) lang \<Rightarrow> nat \<Rightarrow> int \<Rightarrow> 'p rest \<Rightarrow> 's \<Rightarrow> ('d outcome \<times> 's) run"
and run_cases :: "'d fp \<Rightarrow> ('d, 'p, 's) lang \<Rightarrow> nat \<Rightarrow> int \<Rightarrow> 'd pval \<Rightarrow> bool \<Rightarrow> 'p case_list \<Rightarrow> 's \<Rightarrow>
  ('d outcome \<times> 's) run"
and run_for :: "'d fp \<Rightarrow> ('d, 'p, 's) lang \<Rightarrow> nat \<Rightarrow> int \<Rightarrow> 'p expr list \<Rightarrow> 'p expr list \<Rightarrow> 'p stmt \<Rightarrow> 's \<Rightarrow>
  ('d outcome \<times> 's) run"
where
  "run_stmt F G n L Empty s = Ran (Normal, s)"
| "run_stmt F G n L (Seq a b) s =
     then_run (run_stmt F G n L a s)
       (\<lambda>(r, s1). if r = Normal then run_stmt F G n L b s1 else Ran (r, s1))"
| "run_stmt F G n L (Expr e) s = Ran (Normal, snd (ev F G e s))"
| "run_stmt F G n L (If c a r) s =
     (let (v, s1) = ev F G c s in
      if pval_is_true F v then run_stmt F G n L a s1 else run_rest F G n L r s1)"
| "run_stmt F G n L (While off c a) s =
     (let (v, s1) = ev F G c s in
      if pval_is_true F v then
        then_run (run_stmt F G n (L + 1) a s1) (\<lambda>(r, s2).
          case loop_next (L + 1) r of
            None \<Rightarrow> (case n of 0 \<Rightarrow> Timeout | Suc m \<Rightarrow> run_stmt F G m L (While off c a) s2)
          | Some r' \<Rightarrow> Ran (r', s2))
      else Ran (Normal, s1))"
| "run_stmt F G n L (DoWhile off a c) s =
     then_run (run_stmt F G n (L + 1) a s) (\<lambda>(r, s1).
       case loop_next (L + 1) r of
         None \<Rightarrow>
           (let (v, s2) = ev F G c s1 in
            if pval_is_true F v then
              (case n of 0 \<Rightarrow> Timeout | Suc m \<Rightarrow> run_stmt F G m L (DoWhile off a c) s2)
            else Ran (Normal, s2))
       | Some r' \<Rightarrow> Ran (r', s1))"
| "run_stmt F G n L (For off e1 e2 e3 a) s = run_for F G n L e2 e3 a (snd (ev_list F G e1 s))"
| "run_stmt F G n L (Switch off e cs) s =
     (let (v, s1) = ev F G e s in
      then_run (run_cases F G n (L + 1) v False cs s1) (\<lambda>(r, s2). Ran (switch_next (L + 1) r, s2)))"
| "run_stmt F G n L (Break e) s = (let (v, s1) = ev_opt F G e s in change_outcome F L v Brk s1)"
| "run_stmt F G n L (Continue e) s = (let (v, s1) = ev_opt F G e s in change_outcome F L v Cnt s1)"
| "run_stmt F G n L (Return e) s =
     (let (v, s1) = ev_opt F G e s in Ran (Ret (case v of None \<Rightarrow> var_reset | Some x \<Rightarrow> x), s1))"
| "run_rest F G n L (ElseIf c a r) s =
     (let (v, s1) = ev F G c s in
      if pval_is_true F v then run_stmt F G n L a s1 else run_rest F G n L r s1)"
| "run_rest F G n L (Else a) s = run_stmt F G n L a s"
| "run_rest F G n L EndIf s = Ran (Normal, s)"
| "run_cases F G n L v matched (Case c a cs) s =
     (let (w, s1) = ev F G c s in
      if matched \<or> pval_is_true F (snd (is_equal_function F v w)) then
        then_run (run_stmt F G n L a s1)
          (\<lambda>(r, s2). if r = Normal then run_cases F G n L v True cs s2 else Ran (r, s2))
      else run_cases F G n L v False cs s1)"
| "run_cases F G n L v matched (Default a) s = run_stmt F G n L a s"
| "run_cases F G n L v matched EndCases s = Ran (Normal, s)"
| "run_for F G n L e2 e3 a s =
     (let (v, s1) = ev_list F G e2 s in
      if pval_is_true F v then
        then_run (run_stmt F G n (L + 1) a s1) (\<lambda>(r, s2).
          case loop_next (L + 1) r of
            None \<Rightarrow> (case n of 0 \<Rightarrow> Timeout | Suc m \<Rightarrow> run_for F G m L e2 e3 a (snd (ev_list F G e3 s2)))
          | Some r' \<Rightarrow> Ran (r', s2))
      else Ran (Normal, s1))"
  by pat_completeness auto

termination
  by (relation "measures [
       \<lambda>x. case x of Inl (Inl (F, G, n, L, s, g)) \<Rightarrow> n | Inl (Inr (F, G, n, L, r, g)) \<Rightarrow> n
         | Inr (Inl (F, G, n, L, v, m, c, g)) \<Rightarrow> n | Inr (Inr (F, G, n, L, e2, e3, a, g)) \<Rightarrow> n,
       \<lambda>x. case x of Inl (Inl (F, G, n, L, s, g)) \<Rightarrow> 2 * size s | Inl (Inr (F, G, n, L, r, g)) \<Rightarrow> 2 * size r
         | Inr (Inl (F, G, n, L, v, m, c, g)) \<Rightarrow> 2 * size c | Inr (Inr (F, G, n, L, e2, e3, a, g)) \<Rightarrow> 2 * size a + 1]")
    auto

subsection \<open>Well-formed programs\<close>

text \<open>
  The offsets of the \<open>for\<close> tokens of a program, and what the token cache guarantees: a nested loop has
  another offset, and offsets are below 2^31 (the first 2048 token caches).
\<close>

fun for_offsets :: "'p stmt \<Rightarrow> nat set" and for_offsets_rest :: "'p rest \<Rightarrow> nat set"
  and for_offsets_cases :: "'p case_list \<Rightarrow> nat set" where
  "for_offsets (Seq a b) = for_offsets a \<union> for_offsets b"
| "for_offsets (If c a r) = for_offsets a \<union> for_offsets_rest r"
| "for_offsets (While off c a) = for_offsets a"
| "for_offsets (DoWhile off a c) = for_offsets a"
| "for_offsets (For off e1 e2 e3 a) = insert off (for_offsets a)"
| "for_offsets (Switch off e cs) = for_offsets_cases cs"
| "for_offsets _ = {}"
| "for_offsets_rest (ElseIf c a r) = for_offsets a \<union> for_offsets_rest r"
| "for_offsets_rest (Else a) = for_offsets a"
| "for_offsets_rest EndIf = {}"
| "for_offsets_cases (Case c a cs) = for_offsets a \<union> for_offsets_cases cs"
| "for_offsets_cases (Default a) = for_offsets a"
| "for_offsets_cases EndCases = {}"

fun wf_stmt :: "'p stmt \<Rightarrow> bool" and wf_rest :: "'p rest \<Rightarrow> bool" and wf_cases :: "'p case_list \<Rightarrow> bool" where
  "wf_stmt (Seq a b) \<longleftrightarrow> wf_stmt a \<and> wf_stmt b"
| "wf_stmt (If c a r) \<longleftrightarrow> wf_stmt a \<and> wf_rest r"
| "wf_stmt (While off c a) \<longleftrightarrow> wf_stmt a"
| "wf_stmt (DoWhile off a c) \<longleftrightarrow> wf_stmt a"
| "wf_stmt (For off e1 e2 e3 a) \<longleftrightarrow> wf_stmt a \<and> off \<notin> for_offsets a \<and> off < 2147483648"
| "wf_stmt (Switch off e cs) \<longleftrightarrow> wf_cases cs \<and> off < 2147483648"
| "wf_stmt _ \<longleftrightarrow> True"
| "wf_rest (ElseIf c a r) \<longleftrightarrow> wf_stmt a \<and> wf_rest r"
| "wf_rest (Else a) \<longleftrightarrow> wf_stmt a"
| "wf_rest EndIf \<longleftrightarrow> True"
| "wf_cases (Case c a cs) \<longleftrightarrow> wf_stmt a \<and> wf_cases cs"
| "wf_cases (Default a) \<longleftrightarrow> wf_stmt a"
| "wf_cases EndCases \<longleftrightarrow> True"

end
