(* ===== verification/Value_Laws.thy ===== *)
theory Value_Laws
  imports Compare Codec
begin

text \<open>
  Lemmas on values and operators: printing and reading a \<open>long\<close>, its length, order of strings,
  increment of strings, truth values.
\<close>

subsection \<open>Decimal digits\<close>

lemma digit_char:
  assumes "d < 10"
  shows "isdigit (char_of (48 + d))" "digit_value (char_of (48 + d)) = Some d" "is_digit_of 10 (char_of (48 + d))"
  using assms by (auto simp: isdigit_def digit_value_def is_digit_of_def uchar_char_of)

lemma dec_digits_all: "\<forall>c\<in>set (dec_digits n). is_digit_of 10 c"
proof (induction n rule: dec_digits.induct)
  case (1 n)
  then show ?case by (subst dec_digits.simps) (auto simp: digit_char)
qed

lemma digits_value_snoc: "digits_value b (ds @ [c]) = b * digits_value b ds + the (digit_value c)"
  by (simp add: digits_value_def)

lemma digits_value_dec: "digits_value 10 (dec_digits n) = n"
proof (induction n rule: dec_digits.induct)
  case (1 n)
  show ?case
  proof (cases "n < 10")
    case True
    then show ?thesis by (subst dec_digits.simps) (simp add: digits_value_def digit_char)
  next
    case False
    then show ?thesis using 1 by (subst dec_digits.simps) (simp add: digits_value_snoc digit_char)
  qed
qed

lemma dec_digits_not_Nil [simp]: "dec_digits n \<noteq> []"
  by (subst dec_digits.simps) simp

lemma length_dec_digits: "0 < k \<Longrightarrow> length (dec_digits n) \<le> k \<longleftrightarrow> n < 10 ^ k"
proof (induction n arbitrary: k rule: dec_digits.induct)
  case (1 n)
  show ?case
  proof (cases "n < 10")
    case True
    have "10 ^ 1 \<le> (10::nat) ^ k" by (rule power_increasing) (use 1(2) in simp_all)
    then show ?thesis using True 1(2) by (subst dec_digits.simps) simp
  next
    case False
    obtain j where j: "k = Suc j" using 1(2) by (cases k) auto
    have l: "length (dec_digits n) = Suc (length (dec_digits (n div 10)))"
      using False by (subst dec_digits.simps) simp
    show ?thesis
    proof (cases j)
      case 0
      then show ?thesis using l j False by simp
    next
      case (Suc i)
      have "length (dec_digits (n div 10)) \<le> j \<longleftrightarrow> n div 10 < 10 ^ j" using 1(1) [OF False] Suc by simp
      also have "\<dots> \<longleftrightarrow> n < 10 ^ k" using j by (simp add: div_less_iff_less_mult mult.commute)
      finally show ?thesis using l j by simp
    qed
  qed
qed

lemma digit_not_sign:
  assumes "is_digit_of 10 c"
  shows "\<not> isspace c" "c \<noteq> CHR ''-''" "c \<noteq> CHR ''+''" "c \<noteq> NUL"
  using assms by (auto simp: is_digit_of_def digit_value_def isspace_def NUL_def isdigit_def uchar_def split: if_splits)

subsection \<open>Reading a printed long\<close>

lemma takeWhile_all: "\<forall>c\<in>set ds. P c \<Longrightarrow> takeWhile P ds = ds"
  by (simp add: takeWhile_eq_all_conv)

lemma strtol_digits:
  assumes "ds \<noteq> []" "\<forall>c\<in>set ds. is_digit_of 10 c"
  shows "strtol 10 ds = (min LONG_MAX (int (digits_value 10 ds)), length ds, LONG_MAX < int (digits_value 10 ds))"
    and "strtol 10 (CHR ''-'' # ds) =
           (max LONG_MIN (- int (digits_value 10 ds)), Suc (length ds), - int (digits_value 10 ds) < LONG_MIN)"
proof -
  obtain c cs where c: "ds = c # cs" using assms(1) by (cases ds) auto
  then have n: "\<not> isspace c" "c \<noteq> CHR ''-''" "c \<noteq> CHR ''+''" using digit_not_sign [of c] assms(2) by simp_all
  have t: "takeWhile (is_digit_of 10) ds = ds" by (rule takeWhile_all [OF assms(2)])
  have "strtol 10 (c # cs) = (min LONG_MAX (int (digits_value 10 ds)), length ds, LONG_MAX < int (digits_value 10 ds))"
    using n t c by (simp add: strtol_def Let_def)
  then show "strtol 10 ds = (min LONG_MAX (int (digits_value 10 ds)), length ds, LONG_MAX < int (digits_value 10 ds))"
    by (simp only: c)
  have "\<not> isspace (CHR ''-'')" by (simp add: isspace_def uchar_def)
  then show "strtol 10 (CHR ''-'' # ds) =
           (max LONG_MIN (- int (digits_value 10 ds)), Suc (length ds), - int (digits_value 10 ds) < LONG_MIN)"
    using assms by (simp add: strtol_def Let_def takeWhile_all)
qed

lemma sint_bounds: "LONG_MIN \<le> sint (w :: 64 word)" "sint w \<le> LONG_MAX"
  using sint_range_size [of w] by (simp_all add: LONG_MIN_def LONG_MAX_def word_size)

lemma sint_of_long: "LONG_MIN \<le> d \<Longrightarrow> d \<le> LONG_MAX \<Longrightarrow> sint (word_of_int d :: 64 word) = d"
  by (simp add: int_word_sint LONG_MIN_def LONG_MAX_def)

lemma strtol_print: "strtol 10 (print_ld w) = (sint w, length (print_ld w), False)"
proof (cases "sint w < 0")
  case True
  then have "digits_value 10 (dec_digits (nat (- sint w))) = nat (- sint w)" by (simp add: digits_value_dec)
  then show ?thesis using True strtol_digits(2) [OF dec_digits_not_Nil dec_digits_all, of "nat (- sint w)"] sint_bounds(1) [of w]
    by (simp add: print_ld_def max_def)
next
  case False
  then have "digits_value 10 (dec_digits (nat (sint w))) = nat (sint w)" by (simp add: digits_value_dec)
  then show ?thesis using False strtol_digits(1) [OF dec_digits_not_Nil dec_digits_all, of "nat (sint w)"] sint_bounds(2) [of w]
    by (simp add: print_ld_def min_def)
qed

lemma print_no_nul: "NUL \<notin> set (print_ld w)"
  using dec_digits_all [of "nat (- sint w)"] dec_digits_all [of "nat (sint w)"] digit_not_sign(4)
  by (auto simp: print_ld_def NUL_def)

lemma c_str_print: "c_str (print_ld w) = print_ld w"
  using print_no_nul [of w] unfolding c_str_def takeWhile_eq_all_conv by auto

lemma print_not_Nil [simp]: "print_ld w \<noteq> []"
  by (simp add: print_ld_def)

lemma print_is_numeric: "is_numeric_string F (print_ld w) = Numeric_long w"
  by (simp add: is_numeric_string_def c_str_print strtol_print)

lemma long_string_fits_iff: "long_string_fits w \<longleftrightarrow> - (10 ^ 17) < sint w \<and> sint w < 10 ^ 18"
proof (cases "sint w < 0")
  case True
  then have "long_string_fits w \<longleftrightarrow> length (dec_digits (nat (- sint w))) \<le> 17"
    by (auto simp: long_string_fits_def print_ld_def MAX_LENGTH_OF_LONG_def)
  also have "\<dots> \<longleftrightarrow> nat (- sint w) < 10 ^ 17" by (rule length_dec_digits) simp
  finally show ?thesis using True by auto
next
  case False
  then have "long_string_fits w \<longleftrightarrow> length (dec_digits (nat (sint w))) \<le> 18"
    by (auto simp: long_string_fits_def print_ld_def MAX_LENGTH_OF_LONG_def)
  also have "\<dots> \<longleftrightarrow> nat (sint w) < 10 ^ 18" by (rule length_dec_digits) simp
  finally show ?thesis using False by auto
qed

subsection \<open>The order of strings\<close>

lemma memcmp_eq: "memcmp s t (min (length s) (length t)) = 0 \<longleftrightarrow> take (length t) s = take (length s) t"
proof (induction s arbitrary: t)
  case (Cons a s)
  then show ?case by (cases t) (auto simp: uchar_inject)
qed simp

lemma binary_strcmp_Cons:
  "php3_binary_strcmp [] t = - int (length t)"
  "php3_binary_strcmp (a # s) [] = int (Suc (length s))"
  "php3_binary_strcmp (a # s) (b # t) =
     (if a = b then php3_binary_strcmp s t else int (uchar a) - int (uchar b))"
  by (auto simp: php3_binary_strcmp_def Let_def uchar_inject)

lemma binary_strcmp_less:
  "php3_binary_strcmp s t < 0 \<longleftrightarrow> (map uchar s, map uchar t) \<in> lexord {(x, y). x < y}"
proof (induction s arbitrary: t)
  case Nil
  then show ?case by (cases t) (auto simp: binary_strcmp_Cons uchar_inject)
next
  case (Cons a s)
  then show ?case by (cases t) (auto simp: binary_strcmp_Cons uchar_inject)
qed

lemma binary_strcmp_antisym: "php3_binary_strcmp t s = - php3_binary_strcmp s t"
proof (induction s arbitrary: t)
  case Nil
  then show ?case by (cases t) (auto simp: binary_strcmp_Cons uchar_inject)
next
  case (Cons a s)
  show ?case using Cons [of "tl t"] by (cases t) (simp_all add: binary_strcmp_Cons uchar_inject)
qed

lemma binary_strcmp_0: "php3_binary_strcmp s t = 0 \<longleftrightarrow> s = t"
proof (induction s arbitrary: t)
  case Nil
  then show ?case by (cases t) (auto simp: binary_strcmp_Cons uchar_inject)
next
  case (Cons a s)
  then show ?case by (cases t) (auto simp: binary_strcmp_Cons uchar_inject)
qed

lemma strcase_loop_eq:
  "(case strcase_loop (min (length s) (length t)) s t of Some r \<Rightarrow> r | None \<Rightarrow> int (length s) - int (length t)) =
   php3_binary_strcmp (map tolower s) (map tolower t)"
proof (induction s arbitrary: t)
  case Nil
  then show ?case by (cases t) (auto simp: binary_strcmp_Cons)
next
  case (Cons a s)
  show ?case using Cons [of "tl t"] by (cases t) (auto simp: binary_strcmp_Cons Let_def split: option.splits)
qed

lemma strcasecmp_lower: "php3_binary_strcasecmp s t = php3_binary_strcmp (map tolower s) (map tolower t)"
  by (simp add: php3_binary_strcasecmp_def strcase_loop_eq)

subsection \<open>Truth\<close>

lemma boolean_long_cases: "\<exists>l. convert_to_boolean_long F v = PLong l"
  by (cases v) auto

lemma boolean_long_idem [simp]: "convert_to_boolean_long F (convert_to_boolean_long F v) = convert_to_boolean_long F v"
  using boolean_long_cases [of F v] by fastforce

lemma lval_PLong [simp]: "lval (PLong l) = l"
  by (simp add: lval_def)

lemma boolean_long_true: "lval (convert_to_boolean_long F v) \<noteq> 0 \<longleftrightarrow> pval_is_true F v"
  using boolean_long_cases [of F v] by (auto simp: pval_is_true_def)

lemma boolean_long_false: "lval (convert_to_boolean_long F v) = 0 \<longleftrightarrow> \<not> pval_is_true F v"
  using boolean_long_true [of F v] by blast

lemma truth_is_true [simp]: "pval_is_true F (truth b) \<longleftrightarrow> b" "lval (truth b) = (if b then 1 else 0)"
  by (simp_all add: pval_is_true_def truth_def)

lemma boolean_functions:
  "boolean_or_function F v w = (SUCCESS, truth (pval_is_true F v \<or> pval_is_true F w))"
  "boolean_and_function F v w = (SUCCESS, truth (pval_is_true F v \<and> pval_is_true F w))"
  "boolean_not_function F v = (SUCCESS, truth (\<not> pval_is_true F v))"
  by (simp_all add: boolean_or_function_def boolean_and_function_def boolean_not_function_def
      boolean_long_true boolean_long_false truth_def)

subsection \<open>Increment of strings\<close>

text \<open>A character that wraps around, what it becomes, and the successor of one that does not.\<close>

definition wraps :: "char \<Rightarrow> bool" where
  "wraps c \<longleftrightarrow> class_of c \<noteq> OTHER_CHAR \<and> uchar c = last_of_class (class_of c)"

definition wrap :: "char \<Rightarrow> char" where
  "wrap c = char_of (first_of_class (class_of c))"

definition next_char :: "char \<Rightarrow> char" where
  "next_char c = (if class_of c = OTHER_CHAR then c else char_of (uchar c + 1))"

lemma increment_loop_wrap:
  assumes "wraps y"
  shows "increment_loop (Suc (length p)) (p @ y # zs) carry lst =
           increment_loop (length p) (p @ wrap y # zs) True (class_of y)"
  using assms by (simp add: wraps_def wrap_def Let_def)

lemma increment_loop_stop:
  assumes "\<not> wraps x"
  shows "\<exists>l. increment_loop (Suc (length p)) (p @ x # zs) carry lst = (p @ next_char x # zs, False, l)"
  using assms by (cases "class_of x = OTHER_CHAR") (auto simp: wraps_def next_char_def Let_def)

lemma increment_loop_run:
  "\<not> wraps x \<Longrightarrow> \<forall>y\<in>set ys. wraps y \<Longrightarrow>
   \<exists>l. increment_loop (Suc (length p + length ys)) (p @ x # ys @ zs) carry lst =
       (p @ next_char x # map wrap ys @ zs, False, l)"
proof (induction ys arbitrary: zs carry lst rule: rev_induct)
  case Nil
  then show ?case using increment_loop_stop [of x p zs carry lst] by simp
next
  case (snoc y ys)
  have "increment_loop (Suc (length p + length (ys @ [y]))) (p @ x # (ys @ [y]) @ zs) carry lst =
        increment_loop (Suc (length p + length ys)) (p @ x # ys @ wrap y # zs) True (class_of y)"
    using increment_loop_wrap [of y "p @ x # ys" zs carry lst] snoc.prems(2) by simp
  then show ?case using snoc.IH [of "wrap y # zs" True "class_of y"] snoc.prems by simp
qed

lemma increment_loop_all:
  "\<forall>y\<in>set (y0 # ys). wraps y \<Longrightarrow>
   increment_loop (Suc (length ys)) (y0 # ys @ zs) carry lst = (map wrap (y0 # ys) @ zs, True, class_of y0)"
proof (induction ys arbitrary: zs carry lst rule: rev_induct)
  case Nil
  then show ?case using increment_loop_wrap [of y0 "[]" zs carry lst] by simp
next
  case (snoc y ys)
  have "increment_loop (Suc (length (ys @ [y]))) (y0 # (ys @ [y]) @ zs) carry lst =
        increment_loop (Suc (length ys)) (y0 # ys @ wrap y # zs) True (class_of y)"
    using increment_loop_wrap [of y "y0 # ys" zs carry lst] snoc.prems by simp
  then show ?case using snoc.IH [of "wrap y # zs" True "class_of y"] snoc.prems by simp
qed

lemma increment_string_cases:
  "\<not> wraps x \<Longrightarrow> \<forall>y\<in>set ys. wraps y \<Longrightarrow> increment_string (p @ x # ys) = p @ next_char x # map wrap ys"
  "\<forall>y\<in>set (y0 # ys). wraps y \<Longrightarrow> increment_string (y0 # ys) = carry_char (class_of y0) # map wrap (y0 # ys)"
  using increment_loop_run [of x ys p "[]" False OTHER_CHAR] increment_loop_all [of y0 ys "[]" False OTHER_CHAR]
  by (auto simp: increment_string_def)

lemma split_wraps:
  obtains (all) "\<forall>y\<in>set s. wraps y"
  | (some) p x ys where "s = p @ x # ys" "\<not> wraps x" "\<forall>y\<in>set ys. wraps y"
  using split_list_last_prop [of s "\<lambda>x. \<not> wraps x"] by blast

text \<open>Digits: the successor of a number.\<close>

lemma digits_value_app: "digits_value b (s @ t) = digits_value b s * b ^ length t + digits_value b t"
proof (induction t rule: rev_induct)
  case Nil
  then show ?case by (simp add: digits_value_def)
next
  case (snoc c t)
  have "digits_value b (s @ t @ [c]) = b * digits_value b (s @ t) + the (digit_value c)"
    using digits_value_snoc [of b "s @ t" c] by simp
  then show ?case by (simp add: snoc digits_value_snoc algebra_simps)
qed

lemma digit_wraps: "isdigit c \<Longrightarrow> class_of c = NUMERIC \<and> (wraps c \<longleftrightarrow> c = CHR ''9'')"
proof -
  assume d: "isdigit c"
  then have k: "class_of c = NUMERIC" by (auto simp: class_of_def isdigit_def)
  moreover have "uchar c = 57 \<longleftrightarrow> c = CHR ''9''" using uchar_inject [of c "CHR ''9''"] by (simp add: uchar_def)
  ultimately show ?thesis by (simp add: wraps_def last_of_class_def)
qed

lemma wrap_9: "wrap (CHR ''9'') = CHR ''0''"
  using char_of_uchar [of "CHR ''0''"] by (simp add: wrap_def class_of_def uchar_def isdigit_def first_of_class_def)

lemma digit_next:
  assumes "isdigit c" "c \<noteq> CHR ''9''"
  shows "isdigit (next_char c)" "the (digit_value (next_char c)) = Suc (the (digit_value c))"
proof -
  have "uchar c \<noteq> 57" using assms(2) uchar_inject [of c "CHR ''9''"] by (simp add: uchar_def)
  moreover have "class_of c \<noteq> OTHER_CHAR" using digit_wraps [OF assms(1)] by simp
  ultimately show "isdigit (next_char c)" "the (digit_value (next_char c)) = Suc (the (digit_value c))"
    using assms(1) by (auto simp: next_char_def isdigit_def digit_value_def uchar_char_of)
qed

lemma nines: "digits_value 10 (replicate n (CHR ''9'')) = 10 ^ n - 1" "digits_value 10 (replicate n (CHR ''0'')) = 0"
proof (induction n)
  case (Suc n)
  have r: "replicate (Suc n) c = replicate n c @ [c]" for c :: char by (simp add: replicate_append_same)
  have v: "digit_value (CHR ''9'') = Some 9" "digit_value (CHR ''0'') = Some 0"
    by (simp_all add: digit_value_def isdigit_def uchar_def)
  case 1
  obtain k where k: "(10::nat) ^ n = Suc k" by (cases "(10::nat) ^ n") auto
  show ?case unfolding r digits_value_snoc v Suc(1) by (simp add: k)
  case 2
  show ?case unfolding r digits_value_snoc v Suc(2) by simp
qed (simp_all add: digits_value_def)

lemma increment_digits:
  assumes "s \<noteq> []" "\<forall>c\<in>set s. isdigit c"
  shows "\<forall>c\<in>set (increment_string s). isdigit c" "digits_value 10 (increment_string s) = digits_value 10 s + 1"
proof -
  have nine: "\<forall>y\<in>set ys. wraps y \<Longrightarrow> \<forall>c\<in>set ys. isdigit c \<Longrightarrow>
      ys = replicate (length ys) (CHR ''9'') \<and> map wrap ys = replicate (length ys) (CHR ''0'')" for ys
  proof -
    assume "\<forall>y\<in>set ys. wraps y" "\<forall>c\<in>set ys. isdigit c"
    then have "\<forall>y\<in>set ys. y = CHR ''9''" using digit_wraps by blast
    then have r: "ys = replicate (length ys) (CHR ''9'')" by (simp add: replicate_length_same)
    have "map wrap (replicate (length ys) (CHR ''9'')) = replicate (length ys) (CHR ''0'')" by (simp add: wrap_9)
    then show ?thesis using r by simp
  qed
  have pos: "Suc (10 ^ n - Suc 0) = (10::nat) ^ n" for n by simp
  have "(\<forall>c\<in>set (increment_string s). isdigit c) \<and> digits_value 10 (increment_string s) = digits_value 10 s + 1"
  proof (cases s rule: split_wraps)
    case all
    obtain y0 ys where s: "s = y0 # ys" using assms(1) by (cases s) auto
    have i: "increment_string s = CHR ''1'' # map wrap s"
      using increment_string_cases(2) [of y0 ys] all s assms(2) digit_wraps [of y0] by (simp add: carry_char_def)
    have "digits_value 10 ([CHR ''1''] @ replicate (length s) (CHR ''0'')) = 10 ^ length s"
      unfolding digits_value_app nines(2) by (simp add: digits_value_def digit_value_def isdigit_def uchar_def)
    moreover have "digits_value 10 s = 10 ^ length s - 1" using nine [OF all assms(2)] nines(1) [of "length s"] by simp
    moreover have "isdigit (CHR ''1'')" "isdigit (CHR ''0'')" by (simp_all add: isdigit_def uchar_def)
    ultimately show "(\<forall>c\<in>set (increment_string s). isdigit c) \<and> digits_value 10 (increment_string s) = digits_value 10 s + 1"
      using i nine [OF all assms(2)] pos [of "length s"] by auto
  next
    case (some p x ys)
    then have d: "isdigit x" "x \<noteq> CHR ''9''" "\<forall>c\<in>set ys. isdigit c" "\<forall>c\<in>set p. isdigit c"
      using assms(2) digit_wraps [of x] by auto
    have i: "increment_string s = (p @ [next_char x]) @ map wrap ys" using increment_string_cases(1) [OF some(2,3)] some(1) by simp
    have "s = (p @ [x]) @ ys" using some(1) by simp
    then have "digits_value 10 s = (10 * digits_value 10 p + the (digit_value x)) * 10 ^ length ys + (10 ^ length ys - 1)"
      using nine [OF some(3) d(3)] nines(1) [of "length ys"] by (simp only: digits_value_app [of _ "p @ [x]"] digits_value_snoc)
    moreover have "digits_value 10 (increment_string s) = (10 * digits_value 10 p + Suc (the (digit_value x))) * 10 ^ length ys"
      using nine [OF some(3) d(3)] nines(2) [of "length ys"] digit_next [OF d(1,2)]
      unfolding i digits_value_app [of _ "p @ [next_char x]"] digits_value_snoc by simp
    moreover have "isdigit (CHR ''0'')" by (simp add: isdigit_def uchar_def)
    ultimately show "(\<forall>c\<in>set (increment_string s). isdigit c) \<and> digits_value 10 (increment_string s) = digits_value 10 s + 1"
      using i nine [OF some(3) d(3)] d(4) digit_next(1) [OF d(1,2)] pos [of "length ys"] by (auto simp: algebra_simps)
  qed
  then show "\<forall>c\<in>set (increment_string s). isdigit c" "digits_value 10 (increment_string s) = digits_value 10 s + 1"
    by simp_all
qed

end
