(* ===== verification/Control_Skip.thy ===== *)
theory Control_Skip
  imports Control_Spec Value_Laws
begin

text \<open>
  Code that is not to be executed: parsing it changes nothing but the marks of \<open>for\<close> tokens whose
  parts were exchanged.  This is the half of the correctness of the interpreter that a structured
  semantics does not see.
\<close>

subsection \<open>Records\<close>

lemmas flag_defs = set_flag_def pop_css_def push_css_def int_top_def SHOULD_EXECUTE_def Let_def

lemma engine_upd_same:
  "ExecuteFlag g = f \<Longrightarrow> g\<lparr>ExecuteFlag := f\<rparr> = g" "Execute g = b \<Longrightarrow> g\<lparr>Execute := b\<rparr> = g"
  "css g = c \<Longrightarrow> g\<lparr>css := c\<rparr> = g" "fstate g = s \<Longrightarrow> g\<lparr>fstate := s\<rparr> = g"
  by simp_all

text \<open>\<open>quiet g\<close>: nothing is executed, and a pending break or continue is for a loop around this point.\<close>

definition quiet :: "('d, 's) engine \<Rightarrow> bool" where
  "quiet g \<longleftrightarrow> \<not> Execute g \<and> \<not> SHOULD_EXECUTE g \<and> sought g = None \<and>
     (loop_change_type (fstate g) \<noteq> DO_NOTHING \<longrightarrow> loop_change_level (fstate g) \<le> loop_nest_level (fstate g))"

lemma quiet_not_Execute [simp]: "quiet g \<Longrightarrow> Execute g = False"
  by (simp add: quiet_def)

text \<open>Entering and leaving a construct: the flag \<open>f\<close> pushed below is the one restored.\<close>

lemma quiet_push: "quiet g \<Longrightarrow> quiet (push_css g)"
  by (simp add: quiet_def push_css_def SHOULD_EXECUTE_def)

lemma quiet_nest: "quiet g \<Longrightarrow> quiet (nest 1 g)"
  by (auto simp: quiet_def nest_def SHOULD_EXECUTE_def)

lemma quiet_flag_other: "quiet g \<Longrightarrow> f \<noteq> EXECUTE \<Longrightarrow> quiet (g\<lparr>ExecuteFlag := f\<rparr>)"
  by (simp add: quiet_def SHOULD_EXECUTE_def)

lemma quiet_switched: "quiet (g\<lparr>switched := m\<rparr>) = quiet g"
  by (simp add: quiet_def SHOULD_EXECUTE_def)

lemma pop_push: "quiet g \<Longrightarrow> pop_css (push_css g) = g"
  by (cases g) (simp add: flag_defs quiet_def)

lemma pop_push_flag: "quiet g \<Longrightarrow> pop_css ((push_css g)\<lparr>ExecuteFlag := f\<rparr>) = g"
  by (cases g) (simp add: flag_defs quiet_def)

lemma reflag: "quiet g \<Longrightarrow> int_top (css g) = ExecuteFlag g \<Longrightarrow> set_flag (int_top (css g)) g = g"
  by (cases g) (auto simp: flag_defs quiet_def)

lemma nest_back: "nest (- 1) (nest 1 g) = g"
  by (cases g) (simp add: nest_def)

subsection \<open>Expressions\<close>

lemma skip_expr:
  fixes g :: "('d, 's) engine"
  shows "quiet g \<Longrightarrow> \<exists>v. eval_expr F G e g = (v, g)" and "quiet g \<Longrightarrow> \<exists>vs. eval_exprs F G es g = (vs, g)"
proof (induction F G e g and F G es g rule: eval_expr_eval_exprs.induct)
  case (1 F G p es g)
  then obtain vs where "eval_exprs F G es g = (vs, g)" by blast
  then show ?case using 1(2) by simp
next
  case (2 F G a b g)
  then obtain l where l: "eval_expr F G a g = (l, g)" by blast
  have p: "cs_pre_boolean_or F l g = push_css g" using 2(3) by (simp add: cs_pre_boolean_or_def push_css_def)
  obtain r where r: "eval_expr F G b (push_css g) = (r, push_css g)"
    using 2(2) [OF l [symmetric] refl] quiet_push [OF 2(3)] p by auto
  show ?case using l r p pop_push [OF 2(3)] by (simp add: cs_post_boolean_or_def)
next
  case (3 F G a b g)
  then obtain l where l: "eval_expr F G a g = (l, g)" by blast
  have p: "cs_pre_boolean_and F l g = push_css g" using 3(3) by (simp add: cs_pre_boolean_and_def push_css_def)
  obtain r where r: "eval_expr F G b (push_css g) = (r, push_css g)"
    using 3(2) [OF l [symmetric] refl] quiet_push [OF 3(3)] p by auto
  show ?case using l r p pop_push [OF 3(3)] by (simp add: cs_post_boolean_and_def)
next
  case (4 F G c a b g)
  then obtain t where t: "eval_expr F G c g = (t, g)" by blast
  have p: "cs_questionmark_op_pre_expr1 F t g = push_css g"
    using 4(4) by (simp add: cs_questionmark_op_pre_expr1_def push_css_def)
  obtain v1 where v1: "eval_expr F G a (push_css g) = (v1, push_css g)"
    using 4(2) [OF t [symmetric] refl] quiet_push [OF 4(4)] p by auto
  have p2: "cs_questionmark_op_pre_expr2 F t (push_css g) = push_css g"
    using reflag [OF quiet_push [OF 4(4)]] 4(4) by (simp add: cs_questionmark_op_pre_expr2_def push_css_def int_top_def)
  obtain v2 where "eval_expr F G b (push_css g) = (v2, push_css g)"
    using 4(3) [OF t [symmetric] refl] v1 p p2 quiet_push [OF 4(4)] by fastforce
  then show ?case using t v1 p p2 pop_push [OF 4(4)] by (simp add: cs_questionmark_op_post_expr2_def)
next
  case (5 F G g)
  then show ?case by simp
next
  case (6 F G e es g)
  then show ?case by fastforce
qed

lemma skip_opt: "quiet g \<Longrightarrow> \<exists>v. eval_opt F G e g = (v, g)"
  using skip_expr(1) [of g F G "the e"] by (cases e) (auto simp: eval_opt_def)

lemma skip_for_expr: "quiet g \<Longrightarrow> \<exists>v. eval_for_expr F G es g = (v, g)"
  using skip_expr(2) [of g F G es] by (auto simp: eval_for_expr_def)

subsection \<open>Statements\<close>

lemma switched_upd_simps [simp]:
  "Execute (g\<lparr>switched := m\<rparr>) = Execute g" "css (g\<lparr>switched := m\<rparr>) = css g"
  "push_css (g\<lparr>switched := m\<rparr>) = (push_css g)\<lparr>switched := m\<rparr>"
  "pop_css (g\<lparr>switched := m\<rparr>) = (pop_css g)\<lparr>switched := m\<rparr>"
  "nest k (g\<lparr>switched := m\<rparr>) = (nest k g)\<lparr>switched := m\<rparr>"
  "set_flag f (g\<lparr>switched := m\<rparr>) = (set_flag f g)\<lparr>switched := m\<rparr>"
  by (cases g; simp add: flag_defs nest_def)+

lemma change_not_here:
  "quiet g \<Longrightarrow> \<not> change_here (push_css (nest 1 g))"
  "quiet g \<Longrightarrow> cs_force_eval_do_while (push_css (nest 1 g)) = push_css (nest 1 g)"
  by (auto simp: quiet_def change_here_def cs_force_eval_do_while_def push_css_def nest_def)

lemma change_here_switched [simp]: "change_here (g\<lparr>switched := m\<rparr>) = change_here g"
  by (simp add: change_here_def)

lemma leave_quiet: "quiet g \<Longrightarrow> nest (- 1) (pop_css (push_css (nest 1 g))) = g"
  by (simp add: pop_push quiet_nest nest_back)

lemma int_of_offset: "off < 2147483648 \<Longrightarrow> int_of_long (int off) = int off"
  by (simp add: int_of_long_def Let_def)

lemma no_seek: "quiet g \<Longrightarrow> \<not> goes_back off t (g\<lparr>switched := m\<rparr>)"
  by (simp add: goes_back_def quiet_def)

lemma skip_while_end:
  assumes "quiet g"
  shows "cs_end_while off ((push_css (nest 1 g))\<lparr>switched := m\<rparr>) = g\<lparr>switched := m\<rparr>"
    and "cs_end_do_while F off v ((push_css (nest 1 g))\<lparr>switched := m\<rparr>) = g\<lparr>switched := m\<rparr>"
  using assms quiet_push [OF quiet_nest [OF assms]]
  by (simp_all add: cs_end_while_def cs_end_do_while_def change_not_here(1) leave_quiet)

lemma skip_for_header:
  fixes g :: "('d, 's) engine"
  assumes "quiet g"
  shows "for_header F G off e1 e2 e3 g = push_css (nest 1 g)"
proof -
  define h where "h = push_css (nest 1 g)"
  have q: "quiet h" using quiet_push [OF quiet_nest [OF assms]] by (simp add: h_def)
  have top: "int_top (css h) = ExecuteFlag h" by (simp add: h_def push_css_def int_top_def)
  have p1: "for_pre_expr1 off g = h" using q by (simp add: for_pre_expr1_def h_def)
  define h2 where "h2 = for_pre_expr2 off (switched g off) h"
  have h2: "quiet h2" "set_flag (int_top (css h2)) h2 = h"
  proof -
    have "set_flag DONT_EXECUTE h = h\<lparr>ExecuteFlag := DONT_EXECUTE\<rparr>"
      using q by (cases h) (simp add: flag_defs quiet_def EXECUTE_def DONT_EXECUTE_def)
    moreover have "quiet (h\<lparr>ExecuteFlag := DONT_EXECUTE\<rparr>)"
      by (rule quiet_flag_other [OF q]) (simp add: EXECUTE_def DONT_EXECUTE_def)
    moreover have "set_flag (int_top (css h)) (h\<lparr>ExecuteFlag := DONT_EXECUTE\<rparr>) = h"
      using reflag [OF q top] by (simp add: flag_defs)
    ultimately show "quiet h2" "set_flag (int_top (css h2)) h2 = h"
      using q reflag [OF q top] by (auto simp: h2_def for_pre_expr2_def)
  qed
  have p3: "for_pre_expr3 (switched g off) h2 = h" using q by (simp add: for_pre_expr3_def h2)
  have st: "for_pre_statement F (switched g off) v2 v3 h = h" for v2 v3
    using q reflag [OF q top] by (simp add: for_pre_statement_def)
  obtain s2 s3 where "for_parts (switched g off) e2 e3 = (s2, s3)" by force
  moreover obtain v1 where "eval_for_expr F G e1 h = (v1, h)" using skip_for_expr [OF q] by blast
  moreover obtain v2 where "eval_for_expr F G s2 h2 = (v2, h2)" using skip_for_expr [OF h2(1)] by blast
  moreover obtain v3 where "eval_for_expr F G s3 h = (v3, h)" using skip_for_expr [OF q] by blast
  ultimately show ?thesis using p1 p3 st by (simp add: for_header_def h2_def [symmetric]) (simp add: h_def)
qed

lemma skip_for_end:
  assumes "quiet g" "off < 2147483648" "int off \<noteq> int_top (for_stack g)"
  shows "\<exists>m'. for_post_statement off sw ((push_css (nest 1 g))\<lparr>switched := m\<rparr>) = g\<lparr>switched := m'\<rparr>"
proof -
  define h where "h = (push_css (nest 1 g))\<lparr>switched := m\<rparr>"
  define h1 where "h1 = h\<lparr>for_stack := int off # for_stack h\<rparr>"
  define h2 where "h2 = (if sw then h1 else set_switched off h1)"
  have q: "\<not> Execute h" using quiet_push [OF quiet_nest [OF assms(1)]] by (simp add: h_def)
  have f: "for_stack h = for_stack g" by (simp add: h_def push_css_def nest_def)
  have on: "\<not> on_for_stack off h" using assms(3) f by (simp add: on_for_stack_def)
  have e: "\<not> Execute h2" "\<not> change_here h2"
    using q change_not_here(1) [OF assms(1)] by (simp_all add: h2_def h1_def h_def set_switched_def change_here_def)
  have p: "pop_for off h2 = h\<lparr>switched := switched h2\<rparr>"
    by (simp add: pop_for_def on_for_stack_def h2_def h1_def set_switched_def int_top_def)
  have "for_post_statement off sw h = nest (- 1) (pop_css (pop_for off h2))"
    unfolding for_post_statement_def Let_def int_of_offset [OF assms(2)]
    by (simp only: on e if_False h1_def [symmetric] h2_def [symmetric])
  also have "\<dots> = g\<lparr>switched := switched h2\<rparr>" unfolding p by (simp add: h_def leave_quiet [OF assms(1)])
  finally show ?thesis by (auto simp: h_def)
qed

lemma skip_switch_end:
  assumes "quiet g"
  shows "cs_switch_end ((cs_switch_start off v g)\<lparr>switched := m\<rparr>) = g\<lparr>switched := m\<rparr>"
    and "quiet (cs_switch_start off v g)" "int_top (css (cs_switch_start off v g)) = ExecuteFlag (cs_switch_start off v g)"
    and "for_stack (cs_switch_start off v g) = for_stack g"
proof -
  show "quiet (cs_switch_start off v g)" "int_top (css (cs_switch_start off v g)) = ExecuteFlag (cs_switch_start off v g)"
    "for_stack (cs_switch_start off v g) = for_stack g"
    using quiet_push [OF quiet_nest [OF assms]]
    by (simp_all add: cs_switch_start_def quiet_def SHOULD_EXECUTE_def push_css_def nest_def int_top_def Let_def)
  show "cs_switch_end ((cs_switch_start off v g)\<lparr>switched := m\<rparr>) = g\<lparr>switched := m\<rparr>"
    using assms by (cases g) (auto simp: cs_switch_end_def cs_switch_start_def quiet_def flag_defs nest_def)
qed

lemma skip_if:
  assumes "quiet g"
  defines "h \<equiv> (push_css g)\<lparr>ExecuteFlag := DONT_EXECUTE\<rparr>"
  shows "cs_start_if F v g = h" "quiet h" "ExecuteFlag h = DONT_EXECUTE" "cs_end_if (h\<lparr>switched := m\<rparr>) = g\<lparr>switched := m\<rparr>"
    "for_stack h = for_stack g"
proof -
  show "quiet h" unfolding h_def by (rule quiet_flag_other [OF quiet_push [OF assms(1)]]) (simp add: EXECUTE_def DONT_EXECUTE_def)
  show "cs_start_if F v g = h" using quiet_push [OF assms(1)] by (simp add: cs_start_if_def h_def)
  show "cs_end_if (h\<lparr>switched := m\<rparr>) = g\<lparr>switched := m\<rparr>" by (simp add: cs_end_if_def h_def pop_push_flag [OF assms(1)])
qed (simp_all add: h_def push_css_def)

lemma skip_elseif:
  assumes "quiet g" "ExecuteFlag g = DONT_EXECUTE"
  shows "cs_elseif_start_evaluate g = push_css g" "cs_elseif_end_evaluate (push_css g) = g"
    "cs_start_elseif F v g = g" "cs_start_else g = g"
  using assms pop_push [OF assms(1)]
  by (simp_all add: cs_elseif_start_evaluate_def cs_elseif_end_evaluate_def cs_start_elseif_def cs_start_else_def
      push_css_def EXECUTE_def DONT_EXECUTE_def BEFORE_EXECUTE_def)

end
