(* ===== verification/Control_Skip2.thy ===== *)
theory Control_Skip2
  imports Control_Skip
begin

text \<open>Parsing a statement that is not executed: the induction over programs.\<close>

text \<open>
  None of the \<open>for\<close> loops runs in this call of a function: the ones of its callers are below a -1 on the
  stack, which each call pushes.
\<close>

definition this_call :: "int list \<Rightarrow> int set" where
  "this_call st = set (takeWhile (\<lambda>i. i \<noteq> - 1) st)"

lemma this_call_simps [simp]:
  "this_call [] = {}" "this_call (- 1 # st) = {}" "this_call (int off # st) = insert (int off) (this_call st)"
  by (simp_all add: this_call_def)

lemma this_call_top: "int_top st = int off \<Longrightarrow> int off \<in> this_call st"
  by (cases st) (auto simp: int_top_def)

definition not_running :: "nat set \<Rightarrow> ('d, 's) engine \<Rightarrow> bool" where
  "not_running offs g \<longleftrightarrow> (\<forall>off\<in>offs. int off \<notin> this_call (for_stack g))"

lemma not_running_top: "not_running (insert off offs) g \<Longrightarrow> int off \<noteq> int_top (for_stack g)"
  using this_call_top [of "for_stack g" off] by (auto simp: not_running_def)

lemma not_running_Un [simp]: "not_running (a \<union> b) g \<longleftrightarrow> not_running a g \<and> not_running b g"
  by (auto simp: not_running_def)

lemma not_running_insert: "not_running (insert off offs) g \<Longrightarrow> not_running offs g"
  by (simp add: not_running_def)

lemma not_running_cong: "for_stack h = for_stack g \<Longrightarrow> not_running offs h = not_running offs g"
  by (simp add: not_running_def)

lemma not_running_frame [simp]:
  "not_running offs (g\<lparr>switched := m\<rparr>) = not_running offs g" "not_running offs (push_css g) = not_running offs g"
  "not_running offs (nest k g) = not_running offs g"
  by (simp_all add: not_running_def push_css_def nest_def)

lemma skip_stmt:
  fixes a :: "'p stmt" and r :: "'p rest" and cs :: "'p case_list"
  shows "wf_stmt a \<Longrightarrow> quiet g \<Longrightarrow> not_running (for_offsets a) g \<Longrightarrow>
      \<exists>m. exec_stmt F G n a g = Ran (g\<lparr>switched := m\<rparr>)"
    and "wf_rest r \<Longrightarrow> quiet g \<Longrightarrow> ExecuteFlag g = DONT_EXECUTE \<Longrightarrow> not_running (for_offsets_rest r) g \<Longrightarrow>
      \<exists>m. exec_rest F G n r g = Ran (g\<lparr>switched := m\<rparr>)"
    and "wf_cases cs \<Longrightarrow> quiet g \<Longrightarrow> int_top (css g) = ExecuteFlag g \<Longrightarrow> not_running (for_offsets_cases cs) g \<Longrightarrow>
      \<exists>m. exec_cases F G n cs g = Ran (g\<lparr>switched := m\<rparr>)"
proof (induction a and r and cs arbitrary: g and g and g rule: stmt.induct rest.induct case_list.induct)
  case Empty
  have "g\<lparr>switched := switched g\<rparr> = g" by simp
  then show ?case by (metis exec_stmt.simps)
next
  case (Seq a b)
  from Seq.prems have p: "wf_stmt a" "wf_stmt b" "not_running (for_offsets a) g" "not_running (for_offsets b) g" by simp_all
  obtain m where m: "exec_stmt F G n a g = Ran (g\<lparr>switched := m\<rparr>)" using Seq.IH(1) [OF p(1) Seq.prems(2) p(3)] by blast
  have "quiet (g\<lparr>switched := m\<rparr>)" "not_running (for_offsets b) (g\<lparr>switched := m\<rparr>)"
    using Seq.prems(2) p(4) by (simp_all add: quiet_switched)
  then obtain m' where "exec_stmt F G n b (g\<lparr>switched := m\<rparr>) = Ran (g\<lparr>switched := m\<rparr>\<lparr>switched := m'\<rparr>)"
    using Seq.IH(2) [OF p(2)] by blast
  then show ?case using m by auto
next
  case (Expr e)
  obtain v where "eval_expr F G e g = (v, g)" using skip_expr(1) [OF Expr.prems(2)] by blast
  then have "exec_stmt F G n (Expr e) g = Ran (g\<lparr>switched := switched g\<rparr>)" by simp
  then show ?case by blast
next
  case (If c a r)
  from If.prems have p: "wf_stmt a" "wf_rest r" "not_running (for_offsets a) g" "not_running (for_offsets_rest r) g" by simp_all
  obtain v where v: "eval_expr F G c g = (v, g)" using skip_expr(1) [OF If.prems(2)] by blast
  define h where "h = (push_css g)\<lparr>ExecuteFlag := DONT_EXECUTE\<rparr>"
  note h = skip_if [OF If.prems(2), folded h_def]
  obtain m where m: "exec_stmt F G n a h = Ran (h\<lparr>switched := m\<rparr>)"
    using If.IH(1) [OF p(1) h(2)] p(3) not_running_cong [OF h(5)] by blast
  have "quiet (h\<lparr>switched := m\<rparr>)" "ExecuteFlag (h\<lparr>switched := m\<rparr>) = DONT_EXECUTE" "not_running (for_offsets_rest r) (h\<lparr>switched := m\<rparr>)"
    using h(2,3) p(4) not_running_cong [OF h(5)] by (simp_all add: quiet_switched)
  then obtain m' where "exec_rest F G n r (h\<lparr>switched := m\<rparr>) = Ran (h\<lparr>switched := m\<rparr>\<lparr>switched := m'\<rparr>)"
    using If.IH(2) [OF p(2)] by blast
  then show ?case using v h(1) m h(4) by auto
next
  case (While off c a)
  from While.prems have p: "wf_stmt a" "not_running (for_offsets a) g" by simp_all
  obtain v where v: "eval_expr F G c g = (v, g)" using skip_expr(1) [OF While.prems(2)] by blast
  have q: "quiet (push_css (nest 1 g))" by (rule quiet_push [OF quiet_nest [OF While.prems(2)]])
  have s: "cs_start_while F off v g = push_css (nest 1 g)" using q by (simp add: cs_start_while_def)
  obtain m where "exec_stmt F G n a (push_css (nest 1 g)) = Ran ((push_css (nest 1 g))\<lparr>switched := m\<rparr>)"
    using While.IH [OF p(1) q] p(2) by auto
  then show ?case
    using v s skip_while_end(1) [OF While.prems(2)] no_seek [OF While.prems(2)] by (auto simp: Let_def)
next
  case (DoWhile off a c)
  from DoWhile.prems have p: "wf_stmt a" "not_running (for_offsets a) g" by simp_all
  define h where "h = push_css (nest 1 g)"
  have q: "quiet h" unfolding h_def by (rule quiet_push [OF quiet_nest [OF DoWhile.prems(2)]])
  have s: "cs_start_do_while off g = h" using q by (simp add: cs_start_do_while_def h_def)
  obtain m where m: "exec_stmt F G n a h = Ran (h\<lparr>switched := m\<rparr>)"
    using DoWhile.IH [OF p(1) q] p(2) by (auto simp: h_def)
  have f: "cs_force_eval_do_while (h\<lparr>switched := m\<rparr>) = h\<lparr>switched := m\<rparr>"
    using change_not_here(2) [OF DoWhile.prems(2)] DoWhile.prems(2)
    by (auto simp: cs_force_eval_do_while_def h_def quiet_def push_css_def nest_def)
  have "quiet (h\<lparr>switched := m\<rparr>)" using q by (simp add: quiet_switched)
  then obtain v where "eval_expr F G c (h\<lparr>switched := m\<rparr>) = (v, h\<lparr>switched := m\<rparr>)" using skip_expr(1) by blast
  then show ?case
    using s m f skip_while_end(2) [OF DoWhile.prems(2), folded h_def] no_seek [OF DoWhile.prems(2)] by (auto simp: Let_def)
next
  case (For off e1 e2 e3 a)
  from For.prems have p: "wf_stmt a" "off < 2147483648" "not_running (for_offsets a) g" "int off \<noteq> int_top (for_stack g)"
    using not_running_insert [of off "for_offsets a" g] not_running_top [of off "for_offsets a" g] by simp_all
  have q: "quiet (push_css (nest 1 g))" by (rule quiet_push [OF quiet_nest [OF For.prems(2)]])
  obtain m where m: "exec_stmt F G n a (push_css (nest 1 g)) = Ran ((push_css (nest 1 g))\<lparr>switched := m\<rparr>)"
    using For.IH [OF p(1) q] p(3) by auto
  obtain m' where "for_post_statement off (switched g off) ((push_css (nest 1 g))\<lparr>switched := m\<rparr>) = g\<lparr>switched := m'\<rparr>"
    using skip_for_end [OF For.prems(2) p(2,4)] by blast
  then show ?case
    using m skip_for_header [OF For.prems(2), of F G off e1 e2 e3] no_seek [OF For.prems(2)] by (auto simp: Let_def)
next
  case (Switch off e cs)
  from Switch.prems have p: "wf_cases cs" "not_running (for_offsets_cases cs) g" by simp_all
  obtain v where v: "eval_expr F G e g = (v, g)" using skip_expr(1) [OF Switch.prems(2)] by blast
  note s = skip_switch_end [OF Switch.prems(2), where off = off and v = v]
  obtain m where "exec_cases F G n cs (cs_switch_start off v g) = Ran ((cs_switch_start off v g)\<lparr>switched := m\<rparr>)"
    using Switch.IH [OF p(1) s(2,3)] p(2) not_running_cong [OF s(4)] by blast
  then show ?case using v s(1) by auto
next
  case (Break e)
  obtain v where v: "eval_opt F G e g = (v, g)" using skip_opt [OF Break.prems(2)] by blast
  have "exec_stmt F G n (Break e) g = Ran (g\<lparr>switched := switched g\<rparr>)"
    using v Break.prems(2) by (simp add: cs_break_continue_def or_abort_def)
  then show ?case by blast
next
  case (Continue e)
  obtain v where v: "eval_opt F G e g = (v, g)" using skip_opt [OF Continue.prems(2)] by blast
  have "exec_stmt F G n (Continue e) g = Ran (g\<lparr>switched := switched g\<rparr>)"
    using v Continue.prems(2) by (simp add: cs_break_continue_def or_abort_def)
  then show ?case by blast
next
  case (Return e)
  obtain v where v: "eval_opt F G e g = (v, g)" using skip_opt [OF Return.prems(2)] by blast
  have "exec_stmt F G n (Return e) g = Ran (g\<lparr>switched := switched g\<rparr>)"
    using v Return.prems(2) by (simp add: cs_return_def or_abort_def)
  then show ?case by blast
next
  case (ElseIf c a r)
  from ElseIf.prems have p: "wf_stmt a" "wf_rest r" "not_running (for_offsets a) g" "not_running (for_offsets_rest r) g" by simp_all
  note e = skip_elseif [OF ElseIf.prems(2,3)]
  obtain v where v: "eval_expr F G c (push_css g) = (v, push_css g)" using skip_expr(1) [OF quiet_push [OF ElseIf.prems(2)]] by blast
  obtain m where m: "exec_stmt F G n a g = Ran (g\<lparr>switched := m\<rparr>)" using ElseIf.IH(1) [OF p(1) ElseIf.prems(2) p(3)] by blast
  have "quiet (g\<lparr>switched := m\<rparr>)" "ExecuteFlag (g\<lparr>switched := m\<rparr>) = DONT_EXECUTE" "not_running (for_offsets_rest r) (g\<lparr>switched := m\<rparr>)"
    using ElseIf.prems(2,3) p(4) by (simp_all add: quiet_switched)
  then obtain m' where "exec_rest F G n r (g\<lparr>switched := m\<rparr>) = Ran (g\<lparr>switched := m\<rparr>\<lparr>switched := m'\<rparr>)"
    using ElseIf.IH(2) [OF p(2)] by blast
  then show ?case using e v m by auto
next
  case (Else a)
  then show ?case using skip_elseif(4) [OF Else.prems(2,3)] by simp
next
  case EndIf
  have "exec_rest F G n EndIf g = Ran (g\<lparr>switched := switched g\<rparr>)" by simp
  then show ?case by blast
next
  case (Case c a cs)
  from Case.prems have p: "wf_stmt a" "wf_cases cs" "not_running (for_offsets a) g" "not_running (for_offsets_cases cs) g" by simp_all
  obtain v where v: "eval_expr F G c g = (v, g)" using skip_expr(1) [OF Case.prems(2)] by blast
  have c: "cs_switch_case_pre F (Some v) g = Some g" using Case.prems(2) by (simp add: cs_switch_case_pre_def)
  obtain m where m: "exec_stmt F G n a g = Ran (g\<lparr>switched := m\<rparr>)" using Case.IH(1) [OF p(1) Case.prems(2) p(3)] by blast
  have post: "cs_switch_case_post (g\<lparr>switched := m\<rparr>) = g\<lparr>switched := m\<rparr>"
    using reflag [OF Case.prems(2,3)] by (simp add: cs_switch_case_post_def)
  have "quiet (g\<lparr>switched := m\<rparr>)" "int_top (css (g\<lparr>switched := m\<rparr>)) = ExecuteFlag (g\<lparr>switched := m\<rparr>)"
    "not_running (for_offsets_cases cs) (g\<lparr>switched := m\<rparr>)"
    using Case.prems(2,3) p(4) by (simp_all add: quiet_switched)
  then obtain m' where "exec_cases F G n cs (g\<lparr>switched := m\<rparr>) = Ran (g\<lparr>switched := m\<rparr>\<lparr>switched := m'\<rparr>)"
    using Case.IH(2) [OF p(2)] by blast
  then show ?case using v c m post by (auto simp: or_abort_def)
next
  case (Default a)
  from Default.prems have p: "wf_stmt a" "not_running (for_offsets a) g" by simp_all
  have c: "cs_switch_case_pre F None g = Some g" using Default.prems(2) by (simp add: cs_switch_case_pre_def)
  obtain m where m: "exec_stmt F G n a g = Ran (g\<lparr>switched := m\<rparr>)" using Default.IH [OF p(1) Default.prems(2) p(2)] by blast
  have "cs_switch_case_post (g\<lparr>switched := m\<rparr>) = g\<lparr>switched := m\<rparr>"
    using reflag [OF Default.prems(2,3)] by (simp add: cs_switch_case_post_def)
  then show ?case using c m by (auto simp: or_abort_def)
next
  case EndCases
  have "exec_cases F G n EndCases g = Ran (g\<lparr>switched := switched g\<rparr>)" by simp
  then show ?case by blast
qed

end
