(* ===== verification/Control_Sim.thy ===== *)
theory Control_Sim
  imports Control_Skip2
begin

text \<open>
  The relation between the state of the interpreter and the structured semantics, and the simulation
  of each construct: what its actions do around a body that behaves as the semantics says.
\<close>

subsection \<open>The relation\<close>

text \<open>\<open>running g L s\<close>: code is executed, inside a function, on nesting level \<open>L\<close> with variables \<open>s\<close>.\<close>

definition running :: "('d, 's) engine \<Rightarrow> int \<Rightarrow> 's \<Rightarrow> bool" where
  "running g L s \<longleftrightarrow> Execute g \<and> ExecuteFlag g = EXECUTE \<and> \<not> returned (fstate g) \<and>
     loop_change_type (fstate g) = DO_NOTHING \<and> loop_nest_level (fstate g) = L \<and> store g = s \<and>
     sought g = None \<and> function_name (fstate g) \<noteq> None"

text \<open>What a statement leaves as it found it.\<close>

definition frame :: "('d, 's) engine \<Rightarrow> ('d, 's) engine \<Rightarrow> bool" where
  "frame g g' \<longleftrightarrow> css g' = css g \<and> for_stack g' = for_stack g \<and> switch_stack g' = switch_stack g \<and>
     loop_nest_level (fstate g') = loop_nest_level (fstate g) \<and>
     function_name (fstate g') = function_name (fstate g) \<and> sought g' = None"

text \<open>The state that stands for an outcome.\<close>

definition pending :: "loop_change \<Rightarrow> int \<Rightarrow> ('d, 's) engine \<Rightarrow> bool" where
  "pending t k g \<longleftrightarrow> \<not> Execute g \<and> ExecuteFlag g = EXECUTE \<and> \<not> returned (fstate g) \<and>
     loop_change_type (fstate g) = t \<and> loop_change_level (fstate g) = k \<and> k \<le> loop_nest_level (fstate g)"

definition shows_outcome :: "'d outcome \<Rightarrow> ('d, 's) engine \<Rightarrow> bool" where
  "shows_outcome r g =
     (case r of
        Normal \<Rightarrow> Execute g \<and> ExecuteFlag g = EXECUTE \<and> \<not> returned (fstate g) \<and> loop_change_type (fstate g) = DO_NOTHING
      | Brk k \<Rightarrow> pending DO_BREAK k g
      | Cnt k \<Rightarrow> pending DO_CONTINUE k g
      | Ret v \<Rightarrow> \<not> Execute g \<and> (ExecuteFlag g = EXECUTE \<or> ExecuteFlag g = DONT_EXECUTE) \<and>
          returned (fstate g) \<and> loop_change_type (fstate g) = DO_NOTHING \<and> return_value g = v)"

definition ended :: "'d outcome \<Rightarrow> 's \<Rightarrow> ('d, 's) engine \<Rightarrow> ('d, 's) engine \<Rightarrow> bool" where
  "ended r s g g' \<longleftrightarrow> frame g g' \<and> store g' = s \<and> shows_outcome r g'"

definition agrees :: "('d outcome \<times> 's) run \<Rightarrow> ('d, 's) engine run \<Rightarrow> ('d, 's) engine \<Rightarrow> bool" where
  "agrees spec r g =
     (case spec of Timeout \<Rightarrow> r = Timeout | Aborted \<Rightarrow> r = Aborted
      | Ran (out, s) \<Rightarrow> (\<exists>g'. r = Ran g' \<and> ended out s g g'))"

lemma ended_Normal: "running g L s0 \<Longrightarrow> ended Normal s g g' \<longleftrightarrow> frame g g' \<and> running g' L s"
  by (auto simp: running_def ended_def shows_outcome_def frame_def)

lemma frame_trans: "frame g g1 \<Longrightarrow> frame g1 g' \<Longrightarrow> frame g g'"
  by (simp add: frame_def)

lemma ended_trans: "frame g g1 \<Longrightarrow> ended r s g1 g' \<Longrightarrow> ended r s g g'"
  by (auto simp: ended_def frame_trans)

lemma agrees_trans: "frame g g1 \<Longrightarrow> agrees spec r g1 \<Longrightarrow> agrees spec r g"
  by (auto simp: agrees_def ended_trans split: run.splits)

lemma agrees_Ran: "ended out s g g' \<Longrightarrow> agrees (Ran (out, s)) (Ran g') g"
  by (simp add: agrees_def)

text \<open>Sequencing: the rest of a run has to agree only where the first part ended.\<close>

lemma agrees_bind:
  assumes "agrees spec r g"
    and "\<And>out s g'. spec = Ran (out, s) \<Longrightarrow> r = Ran g' \<Longrightarrow> ended out s g g' \<Longrightarrow> agrees (h (out, s)) (k g') base"
  shows "agrees (then_run spec h) (then_run r k) base"
  using assms(1) assms(2) by (cases spec) (fastforce simp: agrees_def [of Timeout] agrees_def [of Aborted] agrees_def [of "Ran _"])+

lemma running_SHOULD: "running g L s \<Longrightarrow> SHOULD_EXECUTE g"
  by (simp add: running_def SHOULD_EXECUTE_def)

lemma outcome_quiet:
  "sought g = None \<Longrightarrow> shows_outcome r g \<Longrightarrow> r \<noteq> Normal \<Longrightarrow> quiet g"
  by (cases r) (auto simp: shows_outcome_def quiet_def pending_def SHOULD_EXECUTE_def)

subsection \<open>Expressions\<close>

lemma set_same: "running g L s \<Longrightarrow> set_flag EXECUTE g = g"
  by (cases g) (simp add: running_def flag_defs)

lemma run_push: "running g L s \<Longrightarrow> running (push_css g) L s"
  by (simp add: running_def push_css_def)

lemma run_pop: "running g L s \<Longrightarrow> pop_css (push_css g) = g"
  by (cases g) (simp add: running_def flag_defs)

lemma run_store: "running g L s \<Longrightarrow> running (g\<lparr>store := s'\<rparr>) L s'"
  by (simp add: running_def)

lemma push_store [simp]: "push_css (g\<lparr>store := s\<rparr>) = (push_css g)\<lparr>store := s\<rparr>"
  by (simp add: push_css_def)

lemma stop_quiet: "running g L s \<Longrightarrow> quiet (set_flag DONT_EXECUTE g)"
  by (simp add: running_def quiet_def flag_defs EXECUTE_def DONT_EXECUTE_def)

lemma stop_pop: "running g L s \<Longrightarrow> pop_css (set_flag DONT_EXECUTE (push_css g)) = g"
  by (cases g) (simp add: running_def flag_defs)

lemma stop_restart:
  "running g L s \<Longrightarrow> set_flag (int_top (css (push_css g))) (set_flag DONT_EXECUTE (push_css g)) = push_css g"
  by (cases g) (simp add: running_def flag_defs)

lemma css_set_flag [simp]: "css (set_flag f g) = css g" "store (set_flag f g) = store g" "for_stack (set_flag f g) = for_stack g"
  "switch_stack (set_flag f g) = switch_stack g" "fstate (set_flag f g) = fstate g" "ExecuteFlag (set_flag f g) = f"
  by (simp_all add: set_flag_def Let_def)

lemma run_expr:
  "running g L (store g) \<Longrightarrow> eval_expr F G e g = (fst (ev F G e (store g)), g\<lparr>store := snd (ev F G e (store g))\<rparr>)"
  "running g L (store g) \<Longrightarrow> eval_exprs F G es g = (fst (evs F G es (store g)), g\<lparr>store := snd (evs F G es (store g))\<rparr>)"
proof (induction F G e g and F G es g rule: eval_expr_eval_exprs.induct)
  case (1 F G p es g)
  then show ?case by (auto simp: running_def split: prod.split)
next
  case (2 F G a b g)
  obtain l s1 where l: "ev F G a (store g) = (l, s1)" by force
  define g1 where "g1 = g\<lparr>store := s1\<rparr>"
  have e: "eval_expr F G a g = (l, g1)" using 2(1) [OF 2(3)] l by (simp add: g1_def)
  have r: "running g1 L s1" "store g1 = s1" using run_store [OF 2(3), of s1] by (simp_all add: g1_def)
  show ?case
  proof (cases "pval_is_true F l")
    case True
    have p: "cs_pre_boolean_or F l g1 = set_flag DONT_EXECUTE (push_css g1)"
      using True run_push [OF r(1)] by (simp add: cs_pre_boolean_or_def running_def)
    obtain v where "eval_expr F G b (set_flag DONT_EXECUTE (push_css g1)) = (v, set_flag DONT_EXECUTE (push_css g1))"
      using skip_expr(1) [OF stop_quiet [OF run_push [OF r(1)]]] by blast
    then show ?thesis using e p l True r stop_pop [OF r(1)]
      by (simp add: cs_post_boolean_or_def boolean_functions running_def g1_def)
  next
    case False
    have p: "cs_pre_boolean_or F l g1 = push_css g1" using False by (simp add: cs_pre_boolean_or_def)
    obtain w s2 where w: "ev F G b s1 = (w, s2)" by force
    have "store (push_css g1) = s1" using r(2) by (simp add: push_css_def)
    then have "eval_expr F G b (push_css g1) = (w, (push_css g1)\<lparr>store := s2\<rparr>)"
      using 2(2) [OF e [symmetric] refl] run_push [OF r(1)] p w by simp
    moreover have "pop_css ((push_css g1)\<lparr>store := s2\<rparr>) = g1\<lparr>store := s2\<rparr>"
      using run_pop [OF run_store [OF r(1)], of s2] by simp
    ultimately show ?thesis using e p l w False r
      by (simp add: cs_post_boolean_or_def boolean_functions running_def g1_def)
  qed
next
  case (3 F G a b g)
  obtain l s1 where l: "ev F G a (store g) = (l, s1)" by force
  define g1 where "g1 = g\<lparr>store := s1\<rparr>"
  have e: "eval_expr F G a g = (l, g1)" using 3(1) [OF 3(3)] l by (simp add: g1_def)
  have r: "running g1 L s1" "store g1 = s1" using run_store [OF 3(3), of s1] by (simp_all add: g1_def)
  show ?case
  proof (cases "pval_is_true F l")
    case False
    have p: "cs_pre_boolean_and F l g1 = set_flag DONT_EXECUTE (push_css g1)"
      using False run_push [OF r(1)] by (simp add: cs_pre_boolean_and_def running_def)
    obtain v where "eval_expr F G b (set_flag DONT_EXECUTE (push_css g1)) = (v, set_flag DONT_EXECUTE (push_css g1))"
      using skip_expr(1) [OF stop_quiet [OF run_push [OF r(1)]]] by blast
    then show ?thesis using e p l False r stop_pop [OF r(1)]
      by (simp add: cs_post_boolean_and_def boolean_functions running_def g1_def)
  next
    case True
    have p: "cs_pre_boolean_and F l g1 = push_css g1" using True by (simp add: cs_pre_boolean_and_def)
    obtain w s2 where w: "ev F G b s1 = (w, s2)" by force
    have "store (push_css g1) = s1" using r(2) by (simp add: push_css_def)
    then have "eval_expr F G b (push_css g1) = (w, (push_css g1)\<lparr>store := s2\<rparr>)"
      using 3(2) [OF e [symmetric] refl] run_push [OF r(1)] p w by simp
    moreover have "pop_css ((push_css g1)\<lparr>store := s2\<rparr>) = g1\<lparr>store := s2\<rparr>"
      using run_pop [OF run_store [OF r(1)], of s2] by simp
    ultimately show ?thesis using e p l w True r
      by (simp add: cs_post_boolean_and_def boolean_functions running_def g1_def)
  qed
next
  case (4 F G c a b g)
  obtain t s1 where t: "ev F G c (store g) = (t, s1)" by force
  define g1 where "g1 = g\<lparr>store := s1\<rparr>"
  have e: "eval_expr F G c g = (t, g1)" using 4(1) [OF 4(4)] t by (simp add: g1_def)
  have r: "running g1 L s1" "store g1 = s1" using run_store [OF 4(4), of s1] by (simp_all add: g1_def)
  have r': "running (push_css g1) L s1" "store (push_css g1) = s1" using run_push [OF r(1)] r(2) by (simp_all add: push_css_def)
  have top: "int_top (css (push_css g1)) = EXECUTE" using r(1) by (simp add: running_def push_css_def int_top_def)
  show ?case
  proof (cases "pval_is_true F t")
    case True
    have p: "cs_questionmark_op_pre_expr1 F t g1 = push_css g1" using True by (simp add: cs_questionmark_op_pre_expr1_def)
    obtain w s2 where w: "ev F G a s1 = (w, s2)" by force
    define g2 where "g2 = g1\<lparr>store := s2\<rparr>"
    have r2: "running g2 L s2" using run_store [OF r(1)] by (simp add: g2_def)
    have a: "eval_expr F G a (push_css g1) = (w, push_css g2)"
      using 4(2) [OF e [symmetric] refl] r' p w by (simp add: g2_def)
    have p2: "cs_questionmark_op_pre_expr2 F t (push_css g2) = set_flag DONT_EXECUTE (push_css g2)"
      using True run_push [OF r2] top set_same [OF run_push [OF r2]]
      by (simp add: cs_questionmark_op_pre_expr2_def running_def g2_def push_css_def int_top_def)
    obtain v where "eval_expr F G b (set_flag DONT_EXECUTE (push_css g2)) = (v, set_flag DONT_EXECUTE (push_css g2))"
      using skip_expr(1) [OF stop_quiet [OF run_push [OF r2]]] by blast
    then show ?thesis using e p p2 a t w True r2 stop_pop [OF r2]
      by (simp add: cs_questionmark_op_post_expr2_def running_def g1_def g2_def)
  next
    case False
    have p: "cs_questionmark_op_pre_expr1 F t g1 = set_flag DONT_EXECUTE (push_css g1)"
      using False r'(1) by (simp add: cs_questionmark_op_pre_expr1_def running_def)
    obtain v where v: "eval_expr F G a (set_flag DONT_EXECUTE (push_css g1)) = (v, set_flag DONT_EXECUTE (push_css g1))"
      using skip_expr(1) [OF stop_quiet [OF r'(1)]] by blast
    have p2: "cs_questionmark_op_pre_expr2 F t (set_flag DONT_EXECUTE (push_css g1)) = push_css g1"
      using False stop_restart [OF r(1)] by (simp add: cs_questionmark_op_pre_expr2_def)
    obtain w s2 where w: "ev F G b s1 = (w, s2)" by force
    have "eval_expr F G b (push_css g1) = (w, (push_css g1)\<lparr>store := s2\<rparr>)"
      using 4(3) [OF e [symmetric] refl] v p p2 r' w by fastforce
    moreover have "pop_css ((push_css g1)\<lparr>store := s2\<rparr>) = g1\<lparr>store := s2\<rparr>"
      using run_pop [OF run_store [OF r(1)], of s2] by simp
    ultimately show ?thesis using e p p2 v t w False r
      by (simp add: cs_questionmark_op_post_expr2_def running_def g1_def)
  qed
next
  case (5 F G g)
  then show ?case by simp
next
  case (6 F G e es g)
  obtain v s1 where v: "ev F G e (store g) = (v, s1)" by force
  have e: "eval_expr F G e g = (v, g\<lparr>store := s1\<rparr>)" using 6(1) [OF 6(3)] v by simp
  have "running (g\<lparr>store := s1\<rparr>) L (store (g\<lparr>store := s1\<rparr>))" using run_store [OF 6(3)] by simp
  then show ?case using 6(2) [OF e [symmetric] refl] e v by (simp split: prod.split)
qed

end
