(* ===== verification/Control_Sim2.thy ===== *)
theory Control_Sim2
  imports Control_Sim
begin

text \<open>
  The simulation of each statement, given that its parts behave as the semantics says.
\<close>

subsection \<open>Fields\<close>

lemma flag_distinct [simp]:
  "DONT_EXECUTE \<noteq> EXECUTE" "BEFORE_EXECUTE \<noteq> EXECUTE" "DONT_EXECUTE \<noteq> BEFORE_EXECUTE"
  "EXECUTE \<noteq> DONT_EXECUTE" "EXECUTE \<noteq> BEFORE_EXECUTE" "BEFORE_EXECUTE \<noteq> DONT_EXECUTE"
  by (simp_all add: EXECUTE_def DONT_EXECUTE_def BEFORE_EXECUTE_def)

lemma push_sel [simp]:
  "css (push_css g) = ExecuteFlag g # css g" "ExecuteFlag (push_css g) = ExecuteFlag g" "Execute (push_css g) = Execute g"
  "fstate (push_css g) = fstate g" "for_stack (push_css g) = for_stack g" "switch_stack (push_css g) = switch_stack g"
  "return_value (push_css g) = return_value g" "loop_tokens (push_css g) = loop_tokens g"
  "switched (push_css g) = switched g" "sought (push_css g) = sought g" "store (push_css g) = store g"
  by (simp_all add: push_css_def)

lemma nest_sel [simp]:
  "css (nest k g) = css g" "ExecuteFlag (nest k g) = ExecuteFlag g" "Execute (nest k g) = Execute g"
  "fstate (nest k g) = (fstate g)\<lparr>loop_nest_level := loop_nest_level (fstate g) + k\<rparr>"
  "for_stack (nest k g) = for_stack g" "switch_stack (nest k g) = switch_stack g"
  "return_value (nest k g) = return_value g" "loop_tokens (nest k g) = loop_tokens g"
  "switched (nest k g) = switched g" "sought (nest k g) = sought g" "store (nest k g) = store g"
  by (simp_all add: nest_def)

lemma flag_sel [simp]:
  "return_value (set_flag f g) = return_value g" "loop_tokens (set_flag f g) = loop_tokens g"
  "switched (set_flag f g) = switched g" "sought (set_flag f g) = sought g"
  "Execute (set_flag f g) = (f = EXECUTE \<and> \<not> returned (fstate g) \<and> loop_change_type (fstate g) = DO_NOTHING)"
  by (simp_all add: set_flag_def Let_def SHOULD_EXECUTE_def)

lemma pop_sel [simp]:
  "css (pop_css g) = tl (css g)" "ExecuteFlag (pop_css g) = int_top (css g)"
  "Execute (pop_css g) = (int_top (css g) = EXECUTE \<and> \<not> returned (fstate g) \<and> loop_change_type (fstate g) = DO_NOTHING)"
  "fstate (pop_css g) = fstate g" "for_stack (pop_css g) = for_stack g" "switch_stack (pop_css g) = switch_stack g"
  "return_value (pop_css g) = return_value g" "loop_tokens (pop_css g) = loop_tokens g"
  "switched (pop_css g) = switched g" "sought (pop_css g) = sought g" "store (pop_css g) = store g"
  by (simp_all add: pop_css_def)

lemma int_top_Cons [simp]: "int_top (i # st) = i"
  by (simp add: int_top_def)

subsection \<open>Parts\<close>

lemma run_eval:
  assumes "running g L s" "ev F G e s = (v, s1)"
  shows "eval_expr F G e g = (v, g\<lparr>store := s1\<rparr>)" "running (g\<lparr>store := s1\<rparr>) L s1" "frame g (g\<lparr>store := s1\<rparr>)"
  using run_expr(1) [of g L F G e] assms run_store [OF assms(1)] by (auto simp: running_def frame_def)

lemma run_opt:
  assumes "running g L s" "ev_opt F G e s = (v, s1)"
  shows "eval_opt F G e g = (v, g\<lparr>store := s1\<rparr>)" "running (g\<lparr>store := s1\<rparr>) L s1" "frame g (g\<lparr>store := s1\<rparr>)"
proof -
  show "eval_opt F G e g = (v, g\<lparr>store := s1\<rparr>)"
  proof (cases e)
    case None
    then show ?thesis using assms by (auto simp: eval_opt_def ev_opt_def running_def)
  next
    case (Some x)
    then obtain w where "ev F G x s = (w, s1)" "v = Some w" using assms(2) by (auto simp: ev_opt_def split: prod.splits)
    then show ?thesis using run_eval(1) [OF assms(1), of F G x w s1] Some by (simp add: eval_opt_def)
  qed
qed (use run_store [OF assms(1)] assms(1) in \<open>auto simp: running_def frame_def\<close>)

lemma run_list:
  assumes "running g L s" "ev_list F G es s = (v, s1)"
  shows "eval_for_expr F G es g = (v, g\<lparr>store := s1\<rparr>)" "running (g\<lparr>store := s1\<rparr>) L s1" "frame g (g\<lparr>store := s1\<rparr>)"
proof -
  have "running g L (store g)" "store g = s" using assms(1) by (simp_all add: running_def)
  then show "eval_for_expr F G es g = (v, g\<lparr>store := s1\<rparr>)"
    using run_expr(2) [of g L F G es] assms(2) by (auto simp: eval_for_expr_def ev_list_def split: prod.splits)
qed (use run_store [OF assms(1)] assms(1) in \<open>auto simp: running_def frame_def\<close>)

text \<open>What the induction proves of a statement, with fuel \<open>n\<close>.\<close>

definition stmt_ok :: "'d fp \<Rightarrow> ('d, 'p, 's) lang \<Rightarrow> nat \<Rightarrow> 'p stmt \<Rightarrow> bool" where
  "stmt_ok F G n a \<longleftrightarrow>
     (\<forall>g L s. running g L s \<longrightarrow> wf_stmt a \<longrightarrow> not_running (for_offsets a) g \<longrightarrow>
        agrees (run_stmt F G n L a s) (exec_stmt F G n a g) g)"

lemma stmt_okD:
  "stmt_ok F G n a \<Longrightarrow> running g L s \<Longrightarrow> wf_stmt a \<Longrightarrow> not_running (for_offsets a) g \<Longrightarrow>
   agrees (run_stmt F G n L a s) (exec_stmt F G n a g) g"
  by (simp add: stmt_ok_def)

subsection \<open>Loops\<close>

text \<open>The state in which the body of a loop runs.\<close>

lemma run_body:
  assumes "running g L s"
  shows "running ((push_css (nest 1 g))\<lparr>loop_tokens := t\<rparr>) (L + 1) s"
  using assms by (simp add: running_def)

lemma ended_body:
  assumes "ended r s2 ((push_css (nest 1 g))\<lparr>loop_tokens := t\<rparr>) g2" "running g L s"
  shows "css g2 = EXECUTE # css g" "for_stack g2 = for_stack g" "switch_stack g2 = switch_stack g"
    "loop_nest_level (fstate g2) = L + 1" "function_name (fstate g2) = function_name (fstate g)"
    "sought g2 = None" "store g2 = s2" "shows_outcome r g2"
  using assms by (simp_all add: ended_def frame_def running_def)

text \<open>How the end of a loop takes the outcome of the body.\<close>

definition loop_end ::
  "(('d, 's) engine \<Rightarrow> bool) \<Rightarrow> ('d, 's) engine \<Rightarrow> int \<Rightarrow> nat \<Rightarrow> loop_token \<Rightarrow> 'd outcome \<Rightarrow> 's \<Rightarrow>
   ('d, 's) engine \<Rightarrow> bool" where
  "loop_end again g L off t r s g3 \<longleftrightarrow>
     (case loop_next (L + 1) r of
        None \<Rightarrow> goes_back off t g3 \<and> running (at_token g3) L s \<and> again (at_token g3)
      | Some r' \<Rightarrow> \<not> goes_back off t g3 \<and> ended r' s g g3)"

text \<open>Running the body and going round again, in the semantics and in the interpreter.\<close>

lemma loop_bind:
  assumes body: "agrees spec r h"
    and ends: "\<And>out s2 g2. r = Ran g2 \<Longrightarrow> ended out s2 h g2 \<Longrightarrow> loop_end again g L off t out s2 (fin g2)"
    and round: "\<And>m s' g'. n = Suc m \<Longrightarrow> running g' L s' \<Longrightarrow> again g' \<Longrightarrow> agrees (spec_again m s') (exec_again m g') g"
  shows "agrees
     (then_run spec (\<lambda>(r, s2). case loop_next (L + 1) r of
          None \<Rightarrow> (case n of 0 \<Rightarrow> Timeout | Suc m \<Rightarrow> spec_again m s2) | Some r' \<Rightarrow> Ran (r', s2)))
     (then_run r (\<lambda>g2. let g3 = fin g2 in
          if goes_back off t g3 then (case n of 0 \<Rightarrow> Timeout | Suc m \<Rightarrow> exec_again m (at_token g3)) else Ran g3)) g"
proof (rule agrees_bind [OF body])
  fix out s2 g2
  assume "r = Ran g2" "ended out s2 h g2"
  then have l: "loop_end again g L off t out s2 (fin g2)" by (rule ends)
  show "agrees (case (out, s2) of (r, s2) \<Rightarrow> case loop_next (L + 1) r of
          None \<Rightarrow> (case n of 0 \<Rightarrow> Timeout | Suc m \<Rightarrow> spec_again m s2) | Some r' \<Rightarrow> Ran (r', s2))
     (let g3 = fin g2 in
          if goes_back off t g3 then (case n of 0 \<Rightarrow> Timeout | Suc m \<Rightarrow> exec_again m (at_token g3)) else Ran g3) g"
  proof (cases "loop_next (L + 1) out")
    case None
    then have l': "goes_back off t (fin g2)" "running (at_token (fin g2)) L s2" "again (at_token (fin g2))"
      using l by (simp_all add: loop_end_def)
    show ?thesis using None l'(1) round [OF _ l'(2,3)] by (cases n) (simp_all add: agrees_def)
  next
    case (Some r')
    then show ?thesis using l by (simp add: loop_end_def agrees_Ran Let_def)
  qed
qed

lemmas outcome_defs = shows_outcome_def pending_def loop_next_def

lemma while_end:
  assumes "running g L s" "ended r s2 ((push_css (nest 1 g))\<lparr>loop_tokens := t\<rparr>) g2"
  shows "loop_end (frame g) g L off CONTINUED_WHILE r s2 (cs_end_while off g2)"
proof -
  note b = ended_body [OF assms(2,1)]
  have g: "function_name (fstate g) \<noteq> None" "loop_nest_level (fstate g) = L" using assms(1) by (simp_all add: running_def)
  show ?thesis
  proof (cases r)
    case Normal
    then have "cs_end_while off g2 = nest (- 1) (pop_css (seek off (set_token off CONTINUED_WHILE g2)))"
      using b(8) by (simp add: cs_end_while_def outcome_defs)
    then show ?thesis using Normal b g
      by (simp add: loop_end_def outcome_defs goes_back_def at_token_def running_def frame_def seek_def set_token_def)
  next
    case (Brk k)
    then show ?thesis using b g
      by (auto simp: cs_end_while_def change_here_def clear_change_def loop_end_def outcome_defs goes_back_def
          ended_def frame_def Let_def)
  next
    case (Cnt k)
    then show ?thesis using b g
      by (auto simp: cs_end_while_def change_here_def clear_change_def loop_end_def outcome_defs goes_back_def
          ended_def frame_def Let_def seek_def set_token_def at_token_def running_def)
  next
    case (Ret v)
    then show ?thesis using b g
      by (auto simp: cs_end_while_def change_here_def loop_end_def outcome_defs goes_back_def ended_def frame_def)
  qed
qed

text \<open>A loop whose condition is false: the body is parsed without being executed.\<close>

lemma skipped_body:
  fixes g :: "('d, 's) engine" and t :: "nat \<Rightarrow> loop_token"
  assumes "running g L s"
  defines "h \<equiv> set_flag DONT_EXECUTE ((push_css (nest 1 g))\<lparr>loop_tokens := t\<rparr>)"
  shows "quiet h" "not_running offs h = not_running offs g" "\<not> change_here (h\<lparr>switched := m\<rparr>)"
    "frame g (nest (- 1) (pop_css (h\<lparr>switched := m\<rparr>)))" "running (nest (- 1) (pop_css (h\<lparr>switched := m\<rparr>))) L s"
proof -
  show "quiet h" unfolding h_def by (rule stop_quiet [OF run_body [OF assms(1)]])
  show "not_running offs h = not_running offs g" by (simp add: h_def not_running_def)
  show "\<not> change_here (h\<lparr>switched := m\<rparr>)"
    using assms(1) by (simp add: h_def change_here_def running_def)
  show "frame g (nest (- 1) (pop_css (h\<lparr>switched := m\<rparr>)))"
    using assms(1) by (simp add: frame_def h_def running_def)
  show "running (nest (- 1) (pop_css (h\<lparr>switched := m\<rparr>))) L s"
    using assms(1) by (simp add: running_def h_def)
qed

lemma frame_running_ended: "running g L s0 \<Longrightarrow> frame g g' \<Longrightarrow> running g' L s \<Longrightarrow> ended Normal s g g'"
  by (simp add: ended_Normal)

lemma agrees_ended: "running g L s0 \<Longrightarrow> frame g g' \<Longrightarrow> running g' L s \<Longrightarrow> agrees (Ran (Normal, s)) (Ran g') g"
  by (intro agrees_Ran frame_running_ended)

lemma frame_not_running: "frame g g' \<Longrightarrow> not_running offs g' = not_running offs g"
  by (simp add: frame_def not_running_def)

lemma while_ok:
  fixes F :: "'d fp" and G :: "('d, 'p, 's) lang"
  assumes a: "stmt_ok F G n a" and again: "\<And>m. n = Suc m \<Longrightarrow> stmt_ok F G m (While off c a)"
  shows "stmt_ok F G n (While off c a)"
  unfolding stmt_ok_def
proof (intro allI impI)
  fix g :: "('d, 's) engine" and L s
  assume r: "running g L s" and wf: "wf_stmt (While off c a)" and nr: "not_running (for_offsets (While off c a)) g"
  obtain v s1 where v: "ev F G c s = (v, s1)" by force
  define g1 where "g1 = g\<lparr>store := s1\<rparr>"
  note e = run_eval [OF r v, folded g1_def]
  have nr1: "not_running (for_offsets a) g1" using nr frame_not_running [OF e(3)] by simp
  define h where "h = (push_css (nest 1 g1))\<lparr>loop_tokens := (loop_tokens (push_css (nest 1 g1)))(off := WHILE)\<rparr>"
  note rh = run_body [OF e(2), of "(loop_tokens (push_css (nest 1 g1)))(off := WHILE)", folded h_def]
  have start: "cs_start_while F off v g1 = set_flag (if pval_is_true F v then EXECUTE else DONT_EXECUTE) h"
    using run_body [OF e(2), of "loop_tokens (push_css (nest 1 g1))"]
    by (simp add: cs_start_while_def set_token_def h_def running_def Let_def)
  show "agrees (run_stmt F G n L (While off c a) s) (exec_stmt F G n (While off c a) g) g"
  proof (cases "pval_is_true F v")
    case True
    have "set_flag EXECUTE h = h" by (rule set_same [OF rh])
    moreover have "not_running (for_offsets a) h" using nr1 by (simp add: h_def not_running_def)
    ultimately have "agrees (run_stmt F G n (L + 1) a s1) (exec_stmt F G n a (cs_start_while F off v g1)) h"
      using stmt_okD [OF a rh] wf start True by simp
    then have "agrees (then_run (run_stmt F G n (L + 1) a s1) (\<lambda>(r, s2). case loop_next (L + 1) r of
          None \<Rightarrow> (case n of 0 \<Rightarrow> Timeout | Suc m \<Rightarrow> run_stmt F G m L (While off c a) s2)
        | Some r' \<Rightarrow> Ran (r', s2)))
      (then_run (exec_stmt F G n a (cs_start_while F off v g1)) (\<lambda>g2. let g3 = cs_end_while off g2 in
          if goes_back off CONTINUED_WHILE g3
          then (case n of 0 \<Rightarrow> Timeout | Suc m \<Rightarrow> exec_stmt F G m (While off c a) (at_token g3)) else Ran g3)) g1"
    proof (rule loop_bind)
      fix out s2 g2
      assume "ended out s2 h g2"
      then show "loop_end (frame g1) g1 L off CONTINUED_WHILE out s2 (cs_end_while off g2)"
        unfolding h_def by (rule while_end [OF e(2)])
    next
      fix m s' g'
      assume m: "n = Suc m" "running g' L s'" "frame g1 g'"
      show "agrees (run_stmt F G m L (While off c a) s') (exec_stmt F G m (While off c a) g') g1"
        using nr1 frame_not_running [OF m(3)]
        by (intro agrees_trans [OF m(3)] stmt_okD [OF again [OF m(1)] m(2) wf]) simp
    qed
    then show ?thesis using v True e(1) agrees_trans [OF e(3)] by simp
  next
    case False
    note q = skipped_body [OF e(2), where t = "(loop_tokens (push_css (nest 1 g1)))(off := WHILE)", folded h_def]
    obtain m where m: "exec_stmt F G n a (set_flag DONT_EXECUTE h) = Ran ((set_flag DONT_EXECUTE h)\<lparr>switched := m\<rparr>)"
      using skip_stmt(1) [OF _ q(1)] wf nr1 q(2) by force
    define g3 where "g3 = nest (- 1) (pop_css ((set_flag DONT_EXECUTE h)\<lparr>switched := m\<rparr>))"
    have "cs_end_while off ((set_flag DONT_EXECUTE h)\<lparr>switched := m\<rparr>) = g3"
      using q(3) [of m] q(1) by (simp add: cs_end_while_def g3_def)
    moreover have "\<not> goes_back off CONTINUED_WHILE g3" using q(5) [of m] by (simp add: goes_back_def g3_def running_def)
    ultimately have "exec_stmt F G n (While off c a) g = Ran g3" using e(1) start False m by simp
    moreover have "ended Normal s1 g g3"
      using ended_trans [OF e(3) frame_running_ended [OF e(2) q(4) q(5)]] by (simp add: g3_def)
    ultimately show ?thesis using v False by (simp add: agrees_Ran)
  qed
qed

end
