(* ===== verification/Control_Sim3.thy ===== *)
theory Control_Sim3
  imports Control_Sim2
begin

text \<open>The simulation of \<open>do\<close> \<open>while\<close> and \<open>for\<close>.\<close>

subsection \<open>Marks stay\<close>

text \<open>Nothing takes the mark of a \<open>for\<close> token back.\<close>

definition marks_le :: "('d, 's) engine \<Rightarrow> ('d, 's) engine \<Rightarrow> bool" where
  "marks_le g g' \<longleftrightarrow> (\<forall>off. switched g off \<longrightarrow> switched g' off)"

lemma marks_refl: "switched g' = switched g \<Longrightarrow> marks_le g g'"
  by (simp add: marks_le_def)

lemma marks_trans [trans]: "marks_le g g1 \<Longrightarrow> marks_le g1 g' \<Longrightarrow> marks_le g g'"
  by (simp add: marks_le_def)

lemma switched_token_sel [simp]:
  "switched (seek off g) = switched g" "switched (set_token off t g) = switched g"
  "switched (clear_change g) = switched g" "switched (pop_for off g) = switched g" "switched (at_token g) = switched g"
  by (simp_all add: seek_def set_token_def clear_change_def pop_for_def at_token_def)

lemma switched_handlers [simp]:
  "switched (cs_start_while F off v g) = switched g" "switched (cs_end_while off g) = switched g"
  "switched (cs_start_do_while off g) = switched g" "switched (cs_force_eval_do_while g) = switched g"
  "switched (cs_end_do_while F off v g) = switched g" "switched (cs_start_if F v g) = switched g"
  "switched (cs_end_if g) = switched g" "switched (cs_elseif_start_evaluate g) = switched g"
  "switched (cs_elseif_end_evaluate g) = switched g" "switched (cs_start_elseif F v g) = switched g"
  "switched (cs_start_else g) = switched g" "switched (cs_switch_start off v g) = switched g"
  "switched (cs_switch_case_post g) = switched g" "switched (cs_switch_end g) = switched g"
  "switched (for_pre_expr1 off g) = switched g" "switched (for_pre_expr2 off sw g) = switched g"
  "switched (for_pre_expr3 sw g) = switched g" "switched (for_pre_statement F sw v w g) = switched g"
  "switched (cs_pre_boolean_or F v g) = switched g" "switched (cs_pre_boolean_and F v g) = switched g"
  "switched (cs_questionmark_op_pre_expr1 F v g) = switched g" "switched (cs_questionmark_op_pre_expr2 F v g) = switched g"
  by (simp_all add: cs_start_while_def cs_end_while_def cs_start_do_while_def cs_force_eval_do_while_def
      cs_end_do_while_def cs_start_if_def cs_end_if_def cs_elseif_start_evaluate_def cs_elseif_end_evaluate_def
      cs_start_elseif_def cs_start_else_def cs_switch_start_def cs_switch_case_post_def cs_switch_end_def
      for_pre_expr1_def for_pre_expr2_def for_pre_expr3_def for_pre_statement_def cs_pre_boolean_or_def
      cs_pre_boolean_and_def cs_questionmark_op_pre_expr1_def cs_questionmark_op_pre_expr2_def Let_def)

lemma switched_options:
  "cs_break_continue F v t g = Some g' \<Longrightarrow> switched g' = switched g"
  "cs_return v g = Some g' \<Longrightarrow> switched g' = switched g"
  "cs_switch_case_pre F v g = Some g' \<Longrightarrow> switched g' = switched g"
  by (auto simp: cs_break_continue_def cs_return_def cs_switch_case_pre_def Let_def split: if_splits option.splits list.splits)

lemma switched_expr_eq:
  "eval_expr F G e g = (v, g') \<Longrightarrow> switched g' = switched g"
  "eval_exprs F G es g = (vs, g') \<Longrightarrow> switched g' = switched g"
proof (induction F G e g and F G es g arbitrary: v g' and vs g' rule: eval_expr_eval_exprs.induct)
  case (1 F G p es g)
  then show ?case by (auto simp: Let_def split: prod.splits if_splits)
next
  case (2 F G a b g)
  obtain l g1 where l: "eval_expr F G a g = (l, g1)" by force
  obtain w g2 where w: "eval_expr F G b (cs_pre_boolean_or F l g1) = (w, g2)" by force
  have "switched g2 = switched g" using 2(1) [OF l] 2(2) [OF l [symmetric] refl w] by simp
  then show ?case using 2(3) l w by (auto simp: cs_post_boolean_or_def Let_def)
next
  case (3 F G a b g)
  obtain l g1 where l: "eval_expr F G a g = (l, g1)" by force
  obtain w g2 where w: "eval_expr F G b (cs_pre_boolean_and F l g1) = (w, g2)" by force
  have "switched g2 = switched g" using 3(1) [OF l] 3(2) [OF l [symmetric] refl w] by simp
  then show ?case using 3(3) l w by (auto simp: cs_post_boolean_and_def Let_def)
next
  case (4 F G c a b g)
  obtain t g1 where t: "eval_expr F G c g = (t, g1)" by force
  obtain v1 g2 where v1: "eval_expr F G a (cs_questionmark_op_pre_expr1 F t g1) = (v1, g2)" by force
  obtain v2 g3 where v2: "eval_expr F G b (cs_questionmark_op_pre_expr2 F t g2) = (v2, g3)" by force
  have "switched g3 = switched g"
    using 4(1) [OF t] 4(2) [OF t [symmetric] refl v1] 4(3) [OF t [symmetric] refl v1 [symmetric] refl v2] by simp
  then show ?case using 4(4) t v1 v2 by (auto simp: cs_questionmark_op_post_expr2_def Let_def)
next
  case (5 F G g)
  then show ?case by simp
next
  case (6 F G e es g)
  obtain w g1 where w: "eval_expr F G e g = (w, g1)" by force
  obtain ws g2 where ws: "eval_exprs F G es g1 = (ws, g2)" by force
  show ?case using 6(1) [OF w] 6(2) [OF w [symmetric] refl ws] 6(3) w ws by simp
qed

lemma switched_expr: "switched (snd (eval_expr F G e g)) = switched g"
  using switched_expr_eq(1) by (metis surjective_pairing)

lemma switched_opt: "eval_opt F G e g = (v, g') \<Longrightarrow> switched g' = switched g"
  by (auto simp: eval_opt_def Let_def dest: switched_expr_eq split: option.splits prod.splits)

lemma switched_header: "switched (for_header F G off e1 e2 e3 g) = switched g"
  by (auto simp: for_header_def eval_for_expr_def Let_def dest!: switched_expr_eq split: prod.split)

lemma marks_post: "marks_le g (for_post_statement off sw g)"
  by (simp add: marks_le_def for_post_statement_def set_switched_def Let_def)

lemma then_run_Ran: "then_run r f = Ran x \<longleftrightarrow> (\<exists>y. r = Ran y \<and> f y = Ran x)"
  by (cases r) auto

lemma or_abort_Ran: "or_abort r = Ran x \<longleftrightarrow> r = Some x"
  by (cases r) (auto simp: or_abort_def)

lemma marks_stay:
  "exec_stmt F G n a g = Ran g' \<Longrightarrow> marks_le g g'"
  "exec_rest F G n r g = Ran g' \<Longrightarrow> marks_le g g'"
  "exec_cases F G n cs g = Ran g' \<Longrightarrow> marks_le g g'"
proof (induction F G n a g and F G n r g and F G n cs g arbitrary: g' and g' and g' rule: exec_stmt_exec_rest_exec_cases.induct)
  case (4 F G n c a r g)
  then show ?case
    by (fastforce simp: then_run_Ran marks_le_def dest!: switched_expr_eq split: prod.splits)
next
  case (5 F G n off c a g)
  obtain v g1 where v: "eval_expr F G c g = (v, g1)" by force
  then obtain g2 where g2: "exec_stmt F G n a (cs_start_while F off v g1) = Ran g2" using 5(3) by (auto simp: then_run_Ran)
  have "marks_le g g2" using 5(1) [OF v [symmetric] refl g2] switched_expr_eq(1) [OF v] by (simp add: marks_le_def)
  moreover have "marks_le g2 g'"
  proof (cases "goes_back off CONTINUED_WHILE (cs_end_while off g2)")
    case True
    then obtain m where m: "n = Suc m" "exec_stmt F G m (While off c a) (at_token (cs_end_while off g2)) = Ran g'"
      using 5(3) v g2 by (cases n) (auto simp: Let_def)
    show ?thesis using 5(2) [OF v [symmetric] refl refl True m(1,2)] by (simp add: marks_le_def)
  next
    case False
    then show ?thesis using 5(3) v g2 by (auto simp: Let_def marks_le_def)
  qed
  ultimately show ?case by (rule marks_trans)
next
  case (6 F G n off a c g)
  obtain g1 where g1: "exec_stmt F G n a (cs_start_do_while off g) = Ran g1" using 6(3) by (auto simp: then_run_Ran)
  obtain v g2 where v: "eval_expr F G c (cs_force_eval_do_while g1) = (v, g2)" by force
  have "marks_le g g1" using 6(1) [OF g1] by (simp add: marks_le_def)
  then have "marks_le g g2" using switched_expr_eq(1) [OF v] by (simp add: marks_le_def)
  moreover have "marks_le g2 g'"
  proof (cases "goes_back off CONTINUED_DOWHILE (cs_end_do_while F off v g2)")
    case True
    then obtain m where m: "n = Suc m" "exec_stmt F G m (DoWhile off a c) (at_token (cs_end_do_while F off v g2)) = Ran g'"
      using 6(3) v g1 by (cases n) (auto simp: Let_def)
    show ?thesis using 6(2) [OF v [symmetric] refl refl True m(1,2)] by (simp add: marks_le_def)
  next
    case False
    then show ?thesis using 6(3) v g1 by (auto simp: Let_def marks_le_def)
  qed
  ultimately show ?case by (rule marks_trans)
next
  case (7 F G n off e1 e2 e3 a g)
  obtain g1 where g1: "exec_stmt F G n a (for_header F G off e1 e2 e3 g) = Ran g1" using 7(3) by (auto simp: then_run_Ran)
  define g2 where "g2 = for_post_statement off (switched g off) g1"
  have "marks_le g g1" using 7(1) [OF g1] switched_header [of F G off e1 e2 e3 g] by (simp add: marks_le_def)
  then have "marks_le g g2" unfolding g2_def by (rule marks_trans [OF _ marks_post])
  moreover have "marks_le g2 g'"
  proof (cases "goes_back off CONTINUED_FOR g2")
    case True
    then obtain m where m: "n = Suc m" "exec_stmt F G m (For off e1 e2 e3 a) (at_token g2) = Ran g'"
      using 7(3) g1 by (cases n) (auto simp: Let_def g2_def)
    show ?thesis using 7(2) [OF g2_def True m(1,2)] by (simp add: marks_le_def)
  next
    case False
    then show ?thesis using 7(3) g1 by (auto simp: Let_def marks_le_def g2_def)
  qed
  ultimately show ?case by (rule marks_trans)
next
  case (8 F G n off e cs g)
  then show ?case
    by (fastforce simp: then_run_Ran marks_le_def dest!: switched_expr_eq split: prod.splits)
next
  case (12 F G n c a r g)
  then show ?case
    by (fastforce simp: then_run_Ran marks_le_def dest!: switched_expr_eq split: prod.splits)
next
  case (15 F G n c a cs g)
  then show ?case
    by (fastforce simp: then_run_Ran or_abort_Ran marks_le_def dest!: switched_expr_eq switched_options(3) split: prod.splits)
next
  case (16 F G n a g)
  then show ?case
    by (fastforce simp: then_run_Ran or_abort_Ran marks_le_def dest!: switched_options(3))
next
  case (2 F G n a b g)
  then show ?case by (fastforce simp: then_run_Ran marks_le_def)
next
  case (3 F G n e g)
  then show ?case by (auto simp: marks_le_def switched_expr)
next
  case (9 F G n e g)
  then show ?case by (auto simp: or_abort_Ran marks_le_def dest!: switched_opt switched_options(1) split: prod.splits)
next
  case (10 F G n e g)
  then show ?case by (auto simp: or_abort_Ran marks_le_def dest!: switched_opt switched_options(1) split: prod.splits)
next
  case (11 F G n e g)
  then show ?case by (auto simp: or_abort_Ran marks_le_def dest!: switched_opt switched_options(2) split: prod.splits)
next
  case (13 F G n a g)
  then show ?case by (simp add: marks_le_def)
qed (simp_all add: marks_le_def)

subsection \<open>\<open>do\<close> \<open>while\<close>\<close>

lemma run_clear: "running g L s \<Longrightarrow> cs_force_eval_do_while g = g"
  by (simp add: running_def cs_force_eval_do_while_def)

lemma force_eval:
  assumes "ended r s2 h g2" "running h (L + 1) s"
  shows "case loop_next (L + 1) r of
     None \<Rightarrow> running (cs_force_eval_do_while g2) (L + 1) s2 \<and> frame h (cs_force_eval_do_while g2)
   | Some r' \<Rightarrow> cs_force_eval_do_while g2 = g2 \<and> quiet g2"
proof (cases r)
  case Normal
  then have "frame h g2" "running g2 (L + 1) s2" using assms(1) ended_Normal [OF assms(2), of s2 g2] by simp_all
  then show ?thesis using Normal run_clear [of g2] by (simp add: loop_next_def)
next
  case (Brk k)
  then have q: "quiet g2" using assms(1) by (intro outcome_quiet [of g2 r]) (simp_all add: ended_def frame_def)
  then show ?thesis using assms Brk
    by (auto simp: ended_def outcome_defs cs_force_eval_do_while_def)
next
  case (Cnt k)
  then have q: "quiet g2" using assms(1) by (intro outcome_quiet [of g2 r]) (simp_all add: ended_def frame_def)
  then show ?thesis using assms Cnt
    by (auto simp: ended_def outcome_defs cs_force_eval_do_while_def frame_def running_def clear_change_def)
next
  case (Ret v)
  then have q: "quiet g2" using assms(1) by (intro outcome_quiet [of g2 r]) (simp_all add: ended_def frame_def)
  then show ?thesis using assms Ret by (auto simp: ended_def outcome_defs cs_force_eval_do_while_def)
qed

text \<open>The end of a \<open>do\<close> loop whose condition was evaluated, and of one left by its body.\<close>

lemma do_end_evaluated:
  assumes "running g L s" "running g2 (L + 1) s2" "frame ((push_css (nest 1 g))\<lparr>loop_tokens := t\<rparr>) g2"
    and g3: "g3 = cs_end_do_while F off v g2"
  shows "if pval_is_true F v then goes_back off CONTINUED_DOWHILE g3 \<and> running (at_token g3) L s2 \<and> frame g (at_token g3)
         else \<not> goes_back off CONTINUED_DOWHILE g3 \<and> ended Normal s2 g g3"
proof -
  have f: "ExecuteFlag g = EXECUTE" "loop_nest_level (fstate g) = L" "function_name (fstate g) \<noteq> None"
    using assms(1) by (simp_all add: running_def)
  have g2: "Execute g2" "loop_change_type (fstate g2) = DO_NOTHING" "\<not> returned (fstate g2)"
    "sought g2 = None" "store g2 = s2"
    using assms(2) by (simp_all add: running_def)
  have k: "css g2 = EXECUTE # css g" "loop_nest_level (fstate g2) = L + 1" "for_stack g2 = for_stack g"
    "switch_stack g2 = switch_stack g" "function_name (fstate g2) = function_name (fstate g)"
    using assms(3) f(1,2) by (simp_all add: frame_def)
  show ?thesis
  proof (cases "pval_is_true F v")
    case True
    then have "g3 = nest (- 1) (pop_css (seek off (set_token off CONTINUED_DOWHILE g2)))"
      using g2(1) g3 by (simp add: cs_end_do_while_def)
    then show ?thesis using True g2 k f
      by (simp add: goes_back_def at_token_def running_def frame_def seek_def set_token_def)
  next
    case False
    then have "g3 = nest (- 1) (pop_css g2)" using g2(2) g3 by (simp add: cs_end_do_while_def change_here_def)
    then show ?thesis using False g2 k f
      by (simp add: goes_back_def running_def ended_def frame_def shows_outcome_def)
  qed
qed

lemma do_end_left:
  assumes "running g L s" "ended r s2 ((push_css (nest 1 g))\<lparr>loop_tokens := t\<rparr>) g2" "loop_next (L + 1) r = Some r'"
  shows "\<not> goes_back off CONTINUED_DOWHILE (cs_end_do_while F off v g2) \<and> ended r' s2 g (cs_end_do_while F off v g2)"
proof -
  note b = ended_body [OF assms(2,1)]
  have g: "loop_nest_level (fstate g) = L" using assms(1) by (simp add: running_def)
  show ?thesis using b g assms(3)
    by (cases r) (auto simp: cs_end_do_while_def change_here_def clear_change_def outcome_defs goes_back_def
        ended_def frame_def Let_def split: if_splits)
qed

lemma dowhile_ok:
  fixes F :: "'d fp" and G :: "('d, 'p, 's) lang"
  assumes a: "stmt_ok F G n a" and again: "\<And>m. n = Suc m \<Longrightarrow> stmt_ok F G m (DoWhile off a c)"
  shows "stmt_ok F G n (DoWhile off a c)"
  unfolding stmt_ok_def
proof (intro allI impI)
  fix g :: "('d, 's) engine" and L s
  assume r: "running g L s" and wf: "wf_stmt (DoWhile off a c)" and nr: "not_running (for_offsets (DoWhile off a c)) g"
  define t where "t = (loop_tokens g)(off := DO)"
  define h where "h = (push_css (nest 1 g))\<lparr>loop_tokens := t\<rparr>"
  have rh: "running h (L + 1) s" unfolding h_def by (rule run_body [OF r])
  have start: "cs_start_do_while off g = h"
    using r by (simp add: cs_start_do_while_def set_token_def h_def t_def running_def Let_def)
  have "not_running (for_offsets a) h" using nr by (simp add: h_def not_running_def)
  then have b: "agrees (run_stmt F G n (L + 1) a s) (exec_stmt F G n a (cs_start_do_while off g)) h"
    using stmt_okD [OF a rh] wf start by simp
  show "agrees (run_stmt F G n L (DoWhile off a c) s) (exec_stmt F G n (DoWhile off a c) g) g"
  proof (subst run_stmt.simps(6), subst exec_stmt.simps(6), rule agrees_bind [OF b])
    fix out s1 g1
    assume "ended out s1 h g1"
    note e = this and f = force_eval [OF this rh]
    define f1 where "f1 = cs_force_eval_do_while g1"
    show "agrees
       (case (out, s1) of (r, s1) \<Rightarrow> case loop_next (L + 1) r of
            None \<Rightarrow> let (v, s2) = ev F G c s1 in
              if pval_is_true F v then (case n of 0 \<Rightarrow> Timeout | Suc m \<Rightarrow> run_stmt F G m L (DoWhile off a c) s2)
              else Ran (Normal, s2)
          | Some r' \<Rightarrow> Ran (r', s1))
       (let (v, g2) = eval_expr F G c (cs_force_eval_do_while g1); g3 = cs_end_do_while F off v g2 in
        if goes_back off CONTINUED_DOWHILE g3
        then (case n of 0 \<Rightarrow> Timeout | Suc m \<Rightarrow> exec_stmt F G m (DoWhile off a c) (at_token g3)) else Ran g3) g"
    proof (cases "loop_next (L + 1) out")
      case None
      then have f': "running f1 (L + 1) s1" "frame h f1" using f by (simp_all add: f1_def)
      obtain v s2 where v: "ev F G c s1 = (v, s2)" by force
      note x = run_eval [OF f'(1) v]
      define g3 where "g3 = cs_end_do_while F off v (f1\<lparr>store := s2\<rparr>)"
      have d: "if pval_is_true F v then goes_back off CONTINUED_DOWHILE g3 \<and> running (at_token g3) L s2 \<and> frame g (at_token g3)
         else \<not> goes_back off CONTINUED_DOWHILE g3 \<and> ended Normal s2 g g3"
        by (rule do_end_evaluated [OF r x(2) _ g3_def]) (use frame_trans [OF f'(2) x(3)] in \<open>simp add: h_def\<close>)
      show ?thesis
      proof (cases "pval_is_true F v")
        case True
        then have d': "goes_back off CONTINUED_DOWHILE g3" "running (at_token g3) L s2" "frame g (at_token g3)" using d by simp_all
        have "agrees (run_stmt F G m L (DoWhile off a c) s2) (exec_stmt F G m (DoWhile off a c) (at_token g3)) g"
          if "n = Suc m" for m
          using nr frame_not_running [OF d'(3)]
          by (intro agrees_trans [OF d'(3)] stmt_okD [OF again [OF that] d'(2) wf]) simp
        then show ?thesis using None True v x(1) d'(1)
          by (cases n) (simp_all add: agrees_def f1_def [symmetric] g3_def [symmetric])
      next
        case False
        then show ?thesis using None v x(1) d
          by (simp add: agrees_Ran f1_def [symmetric] g3_def [symmetric])
      qed
    next
      case (Some r')
      then have f': "f1 = g1" "quiet g1" using f by (simp_all add: f1_def)
      obtain v where v: "eval_expr F G c g1 = (v, g1)" using skip_expr(1) [OF f'(2)] by blast
      show ?thesis
        using Some v f'(1) do_end_left [OF r e [unfolded h_def] Some, of off F v] by (simp add: f1_def agrees_Ran)
    qed
  qed
qed

end
