(* ===== verification/Control_For.thy ===== *)
theory Control_For
  imports Control_Sim3
begin

text \<open>
  The simulation of \<open>for\<close>: the first iteration runs the initialisation and parses the increment
  without executing it; every other one runs the increment, which by then stands in front of the
  condition, and skips the initialisation.  The stack \<open>for_stack\<close> tells the two apart.
\<close>

lemma restart:
  assumes "running h L s" "int_top (css h) = EXECUTE"
  shows "set_flag (int_top (css h)) (set_flag DONT_EXECUTE h) = h" "set_flag (int_top (css h)) h = h"
  using assms by (cases h; simp add: running_def flag_defs)+

lemma skip_slot: "running h L s \<Longrightarrow> \<exists>v. eval_for_expr F G es (set_flag DONT_EXECUTE h) = (v, set_flag DONT_EXECUTE h)"
  by (rule skip_for_expr [OF stop_quiet])

lemma on_for_stack_cong [simp]:
  "on_for_stack off (push_css g) = on_for_stack off g" "on_for_stack off (nest k g) = on_for_stack off g"
  "on_for_stack off (g\<lparr>loop_tokens := t\<rparr>) = on_for_stack off g" "on_for_stack off (g\<lparr>store := s\<rparr>) = on_for_stack off g"
  "on_for_stack off (set_flag f g) = on_for_stack off g"
  by (simp_all add: on_for_stack_def)

text \<open>The header in both modes ends in the state of the body, with the flag of the condition.\<close>

definition for_body :: "nat \<Rightarrow> ('d, 's) engine \<Rightarrow> 's \<Rightarrow> ('d, 's) engine" where
  "for_body off g s = (push_css (nest 1 g))\<lparr>loop_tokens := (loop_tokens g)(off := FOR), store := s\<rparr>"

lemma run_for_body: "running g L s0 \<Longrightarrow> running (for_body off g s) (L + 1) s"
  by (simp add: for_body_def running_def)

lemma for_body_top: "running g L s0 \<Longrightarrow> int_top (css (for_body off g s)) = EXECUTE"
  by (simp add: for_body_def running_def)

lemma for_body_sel [simp]:
  "on_for_stack off' (for_body off g s) = on_for_stack off' g" "for_stack (for_body off g s) = for_stack g"
  "switched (for_body off g s) = switched g" "(for_body off g s)\<lparr>store := s'\<rparr> = for_body off g s'"
  by (simp_all add: for_body_def on_for_stack_def)

lemma for_pre1:
  assumes "running g L s"
  shows "for_pre_expr1 off g = (if on_for_stack off g then set_flag DONT_EXECUTE (for_body off g s) else for_body off g s)"
  using assms by (simp add: for_pre_expr1_def for_body_def set_token_def running_def Let_def)

lemma header_first:
  assumes r: "running g L s" and top: "\<not> on_for_stack off g"
    and e1: "ev_list F G e1 s = (v1, s1)" and e2: "ev_list F G e2 s1 = (v, s2)"
  shows "for_header F G off e1 e2 e3 g = set_flag (if pval_is_true F v then EXECUTE else DONT_EXECUTE) (for_body off g s2)"
proof -
  let ?b = "for_body off g"
  note rb = run_for_body [OF r, of off] and tb = for_body_top [OF r, of off]
  have 1: "eval_for_expr F G e1 (for_pre_expr1 off g) = (v1, ?b s1)"
    using run_list(1) [OF rb e1] top by (simp add: for_pre1 [OF r])
  have ev2: "eval_for_expr F G e2 (?b s1) = (v, ?b s2)" using run_list(1) [OF rb e2] by simp
  have st: "set_flag (int_top (css (?b s1))) (?b s1) = ?b s1" by (rule restart(2) [OF rb tb])
  show ?thesis
  proof (cases "switched g off")
    case False
    obtain w where w: "eval_for_expr F G e3 (set_flag DONT_EXECUTE (?b s2)) = (w, set_flag DONT_EXECUTE (?b s2))"
      using skip_slot [OF rb] by blast
    have 2: "for_pre_expr2 off False (?b s1) = ?b s1" using st by (simp add: for_pre_expr2_def)
    have 3: "for_pre_expr3 False (?b s2) = set_flag DONT_EXECUTE (?b s2)"
      using restart(2) [OF rb tb, of s2] rb [of s2] by (simp add: for_pre_expr3_def running_def)
    have 4: "for_pre_statement F False v w (set_flag DONT_EXECUTE (?b s2)) =
        set_flag (if pval_is_true F v then EXECUTE else DONT_EXECUTE) (?b s2)"
      using restart(1) [OF rb tb, of s2] rb [of s2] by (simp add: for_pre_statement_def running_def)
    show ?thesis using 1 2 3 4 ev2 w False by (simp add: for_header_def for_parts_def)
  next
    case True
    obtain w where w: "eval_for_expr F G e3 (set_flag DONT_EXECUTE (?b s1)) = (w, set_flag DONT_EXECUTE (?b s1))"
      using skip_slot [OF rb] by blast
    have 2: "for_pre_expr2 off True (?b s1) = set_flag DONT_EXECUTE (?b s1)" using st top by (simp add: for_pre_expr2_def)
    have 3: "for_pre_expr3 True (set_flag DONT_EXECUTE (?b s1)) = ?b s1"
      using restart(1) [OF rb tb, of s1] by (simp add: for_pre_expr3_def)
    have 4: "for_pre_statement F True w v (?b s2) = set_flag (if pval_is_true F v then EXECUTE else DONT_EXECUTE) (?b s2)"
      using restart(2) [OF rb tb, of s2] rb [of s2] by (simp add: for_pre_statement_def running_def)
    show ?thesis using 1 2 3 4 ev2 w True by (simp add: for_header_def for_parts_def)
  qed
qed

lemma header_again:
  assumes r: "running g L s" and top: "on_for_stack off g" and sw: "switched g off"
    and e3: "ev_list F G e3 s = (v3, s1)" and e2: "ev_list F G e2 s1 = (v, s2)"
  shows "for_header F G off e1 e2 e3 g = set_flag (if pval_is_true F v then EXECUTE else DONT_EXECUTE) (for_body off g s2)"
proof -
  let ?b = "for_body off g"
  note rb = run_for_body [OF r, of off] and tb = for_body_top [OF r, of off]
  obtain w where w: "eval_for_expr F G e1 (set_flag DONT_EXECUTE (?b s)) = (w, set_flag DONT_EXECUTE (?b s))"
    using skip_slot [OF rb] by blast
  have 1: "for_pre_expr1 off g = set_flag DONT_EXECUTE (?b s)" using top by (simp add: for_pre1 [OF r])
  have 2: "for_pre_expr2 off True (set_flag DONT_EXECUTE (?b s)) = ?b s"
    using restart(1) [OF rb tb, of s] top by (simp add: for_pre_expr2_def)
  have ev3: "eval_for_expr F G e3 (?b s) = (v3, ?b s1)" using run_list(1) [OF rb e3] by simp
  have 3: "for_pre_expr3 True (?b s1) = ?b s1" using restart(2) [OF rb tb, of s1] by (simp add: for_pre_expr3_def)
  have ev2: "eval_for_expr F G e2 (?b s1) = (v, ?b s2)" using run_list(1) [OF rb e2] by simp
  have 4: "for_pre_statement F True v3 v (?b s2) = set_flag (if pval_is_true F v then EXECUTE else DONT_EXECUTE) (?b s2)"
    using restart(2) [OF rb tb, of s2] rb [of s2] by (simp add: for_pre_statement_def running_def)
  show ?thesis using 1 2 3 4 ev2 ev3 w sw by (simp add: for_header_def for_parts_def)
qed

subsection \<open>The end of an iteration\<close>

text \<open>
  \<open>stands off base g\<close>: the loop is about to start (its offset is not on the stack \<open>base\<close>) or running
  (its offset is on top of \<open>base\<close>, and its parts are exchanged).
\<close>

definition stands :: "nat \<Rightarrow> int list \<Rightarrow> ('d, 's) engine \<Rightarrow> bool" where
  "stands off base g \<longleftrightarrow> int off \<notin> this_call base \<and> off < 2147483648 \<and>
     (for_stack g = base \<or> for_stack g = int off # base \<and> switched g off)"

definition for_base :: "int list \<Rightarrow> ('d, 's) engine \<Rightarrow> ('d, 's) engine" where
  "for_base base g = g\<lparr>for_stack := base\<rparr>"

lemma for_base_sel [simp]: "fstate (for_base base g) = fstate g" "css (for_base base g) = css g"
  "switch_stack (for_base base g) = switch_stack g" "for_stack (for_base base g) = base"
  by (simp_all add: for_base_def)

lemma stands_push:
  assumes "stands off base g" "for_stack g2 = for_stack g"
  shows "(if on_for_stack off g2 then g2 else g2\<lparr>for_stack := int_of_long (int off) # for_stack g2\<rparr>) =
    g2\<lparr>for_stack := int off # base\<rparr>"
  using assms this_call_top [of "for_stack g2" off]
  by (auto simp: stands_def on_for_stack_def int_of_offset)

text \<open>The next iteration starts with the offset on the stack and the parts exchanged.\<close>

definition for_again :: "nat \<Rightarrow> int list \<Rightarrow> ('d, 's) engine \<Rightarrow> ('d, 's) engine \<Rightarrow> bool" where
  "for_again off base g g' \<longleftrightarrow> frame (for_base (int off # base) g) g' \<and> switched g' off"

lemma for_end:
  assumes r: "running g L s0" and e: "ended rr s2 (for_body off g s1) g2" and st: "stands off base g"
    and m: "marks_le (for_body off g s1) g2"
  shows "loop_end (for_again off base g) (for_base base g) L off CONTINUED_FOR rr s2 (for_post_statement off (switched g off) g2)"
proof -
  have b: "css g2 = EXECUTE # css g" "for_stack g2 = for_stack g" "switch_stack g2 = switch_stack g"
    "loop_nest_level (fstate g2) = L + 1" "function_name (fstate g2) = function_name (fstate g)"
    "sought g2 = None" "store g2 = s2" "shows_outcome rr g2"
    using e r by (simp_all add: ended_def frame_def for_body_def running_def)
  have g: "function_name (fstate g) \<noteq> None" "loop_nest_level (fstate g) = L" using r by (simp_all add: running_def)
  define g1 where "g1 = g2\<lparr>for_stack := int off # base\<rparr>"
  define g4 where "g4 = (if switched g off then g1 else set_switched off g1)"
  have sw: "switched g4 off" using m by (auto simp: g4_def g1_def marks_le_def set_switched_def)
  have c: "css g4 = EXECUTE # css g" "for_stack g4 = int off # base" "switch_stack g4 = switch_stack g"
    "fstate g4 = fstate g2" "sought g4 = None" "store g4 = s2" "Execute g4 = Execute g2"
    "ExecuteFlag g4 = ExecuteFlag g2" "return_value g4 = return_value g2"
    using b by (simp_all add: g4_def g1_def set_switched_def)
  have on: "on_for_stack off g4" using c by (simp add: on_for_stack_def)
  define p where "p = pop_for off g4"
  have p: "p = g4\<lparr>for_stack := base\<rparr>" using on c by (simp add: p_def pop_for_def)
  have post: "for_post_statement off (switched g off) g2 =
    nest (- 1) (pop_css (if Execute g4 then seek off (set_token off CONTINUED_FOR g4)
       else if change_here g4 then clear_change (if loop_change_type (fstate g4) = DO_CONTINUE
            then seek off (set_token off CONTINUED_FOR g4) else p) else p))"
    unfolding for_post_statement_def Let_def stands_push [OF st b(2)]
    by (simp only: g1_def [symmetric] g4_def [symmetric] p_def [symmetric])
  show ?thesis
  proof (cases rr)
    case Normal
    then have "for_post_statement off (switched g off) g2 = nest (- 1) (pop_css (seek off (set_token off CONTINUED_FOR g4)))"
      using b(8) c(7) post by (simp add: outcome_defs)
    then show ?thesis using Normal b c g sw
      by (simp add: loop_end_def outcome_defs goes_back_def at_token_def running_def frame_def for_again_def seek_def set_token_def)
  next
    case (Brk k)
    then show ?thesis unfolding post using b c g sw p
      by (auto simp: change_here_def clear_change_def loop_end_def outcome_defs goes_back_def ended_def frame_def)
  next
    case (Cnt k)
    then show ?thesis unfolding post using b c g sw p
      by (auto simp: change_here_def clear_change_def loop_end_def outcome_defs goes_back_def ended_def frame_def
          seek_def set_token_def at_token_def running_def for_again_def)
  next
    case (Ret v)
    then show ?thesis unfolding post using b c g sw p
      by (auto simp: change_here_def loop_end_def outcome_defs goes_back_def ended_def frame_def)
  qed
qed

text \<open>The condition was false: the body has been parsed without being executed.\<close>

lemma for_exit:
  fixes g :: "('d, 's) engine" and sb :: 's
  assumes r: "running g L s0" and st: "stands off base g"
  defines "h \<equiv> set_flag DONT_EXECUTE (for_body off g sb)"
  shows "\<not> goes_back off CONTINUED_FOR (for_post_statement off sw (h\<lparr>switched := m\<rparr>)) \<and>
    ended Normal sb (for_base base g) (for_post_statement off sw (h\<lparr>switched := m\<rparr>))"
proof -
  define g2 where "g2 = h\<lparr>switched := m\<rparr>"
  have b: "css g2 = EXECUTE # css g" "for_stack g2 = for_stack g" "switch_stack g2 = switch_stack g"
    "fstate g2 = (fstate g)\<lparr>loop_nest_level := loop_nest_level (fstate g) + 1\<rparr>"
    "sought g2 = None" "store g2 = sb" "\<not> Execute g2"
    using r by (simp_all add: g2_def h_def for_body_def running_def del: switched_upd_simps(6))
  define g1 where "g1 = g2\<lparr>for_stack := int off # base\<rparr>"
  define g4 where "g4 = (if sw then g1 else set_switched off g1)"
  have c: "css g4 = EXECUTE # css g" "for_stack g4 = int off # base" "switch_stack g4 = switch_stack g"
    "fstate g4 = fstate g2" "sought g4 = None" "store g4 = sb" "\<not> Execute g4"
    using b by (simp_all add: g4_def g1_def set_switched_def)
  have n: "\<not> change_here g4" using c(4) b(4) r by (simp add: change_here_def running_def)
  have p: "pop_for off g4 = g4\<lparr>for_stack := base\<rparr>" using c(2) by (simp add: pop_for_def on_for_stack_def)
  have "for_post_statement off sw g2 = nest (- 1) (pop_css (pop_for off g4))"
    unfolding for_post_statement_def Let_def stands_push [OF st b(2)]
    by (simp only: g1_def [symmetric] g4_def [symmetric] n c(7) if_False)
  then show ?thesis unfolding g2_def [symmetric] p using b c r
    by (simp add: goes_back_def ended_def frame_def shows_outcome_def running_def)
qed

subsection \<open>The loop\<close>

definition for_ok :: "'d fp \<Rightarrow> ('d, 'p, 's) lang \<Rightarrow> nat \<Rightarrow> nat \<Rightarrow> 'p expr list \<Rightarrow> 'p expr list \<Rightarrow> 'p expr list \<Rightarrow> 'p stmt \<Rightarrow> bool" where
  "for_ok F G n off e1 e2 e3 a \<longleftrightarrow>
     (\<forall>g L s base. running g L s \<longrightarrow> stands off base g \<longrightarrow> (\<forall>o1\<in>for_offsets a. int o1 \<notin> this_call base) \<longrightarrow>
        agrees (run_for F G n L e2 e3 a (snd (ev_list F G (if on_for_stack off g then e3 else e1) s)))
          (exec_stmt F G n (For off e1 e2 e3 a) g) (for_base base g))"

lemma for_okD:
  "for_ok F G n off e1 e2 e3 a \<Longrightarrow> running g L s \<Longrightarrow> stands off base g \<Longrightarrow> \<forall>o1\<in>for_offsets a. int o1 \<notin> this_call base \<Longrightarrow>
   agrees (run_for F G n L e2 e3 a (snd (ev_list F G (if on_for_stack off g then e3 else e1) s)))
     (exec_stmt F G n (For off e1 e2 e3 a) g) (for_base base g)"
  by (simp add: for_ok_def)

lemma stands_on: "stands off base g \<Longrightarrow> on_for_stack off g \<longleftrightarrow> for_stack g = int off # base"
  using this_call_top [of base off] by (auto simp: stands_def on_for_stack_def)

lemma for_core:
  fixes F :: "'d fp" and G :: "('d, 'p, 's) lang" and g :: "('d, 's) engine"
  assumes a: "stmt_ok F G n a" and again: "\<And>m. n = Suc m \<Longrightarrow> for_ok F G m off e1 e2 e3 a"
    and wf: "wf_stmt a" "off \<notin> for_offsets a"
    and r: "running g L s" and st: "stands off base g" and nr: "\<forall>o1\<in>for_offsets a. int o1 \<notin> this_call base"
    and e2: "ev_list F G e2 s1 = (v, s2)"
    and hd: "for_header F G off e1 e2 e3 g = set_flag (if pval_is_true F v then EXECUTE else DONT_EXECUTE) (for_body off g s2)"
  shows "agrees (run_for F G n L e2 e3 a s1) (exec_stmt F G n (For off e1 e2 e3 a) g) (for_base base g)"
proof -
  define h where "h = for_body off g s2"
  have rh: "running h (L + 1) s2" unfolding h_def by (rule run_for_body [OF r])
  have nrh: "not_running (for_offsets a) h" using st nr wf(2) by (auto simp: h_def not_running_def stands_def)
  show ?thesis
  proof (cases "pval_is_true F v")
    case True
    then have hd': "for_header F G off e1 e2 e3 g = h" using hd set_same [OF rh] by (simp add: h_def)
    have "agrees (then_run (run_stmt F G n (L + 1) a s2) (\<lambda>(r, s3). case loop_next (L + 1) r of
          None \<Rightarrow> (case n of 0 \<Rightarrow> Timeout | Suc m \<Rightarrow> run_for F G m L e2 e3 a (snd (ev_list F G e3 s3)))
        | Some r' \<Rightarrow> Ran (r', s3)))
      (then_run (exec_stmt F G n a h) (\<lambda>g2. let g3 = for_post_statement off (switched g off) g2 in
          if goes_back off CONTINUED_FOR g3
          then (case n of 0 \<Rightarrow> Timeout | Suc m \<Rightarrow> exec_stmt F G m (For off e1 e2 e3 a) (at_token g3)) else Ran g3))
      (for_base base g)"
    proof (rule loop_bind)
      show "agrees (run_stmt F G n (L + 1) a s2) (exec_stmt F G n a h) h" by (rule stmt_okD [OF a rh wf(1) nrh])
    next
      fix out s3 g2
      assume x: "exec_stmt F G n a h = Ran g2" "ended out s3 h g2"
      show "loop_end (for_again off base g) (for_base base g) L off CONTINUED_FOR out s3 (for_post_statement off (switched g off) g2)"
        using for_end [OF r _ st, of out s3 s2 g2] x marks_stay(1) [OF x(1)] by (simp add: h_def)
    next
      fix m s' g'
      assume m: "n = Suc m" "running g' L s'" "for_again off base g g'"
      then have f: "frame (for_base (int off # base) g) g'" "switched g' off" by (simp_all add: for_again_def)
      then have fs: "for_stack g' = int off # base" by (simp add: frame_def)
      then have st': "stands off base g'" "on_for_stack off g'" using st f(2) by (simp_all add: stands_def on_for_stack_def)
      have "frame (for_base base g) (for_base base g')" using f(1) by (simp add: frame_def for_base_def)
      then show "agrees (run_for F G m L e2 e3 a (snd (ev_list F G e3 s'))) (exec_stmt F G m (For off e1 e2 e3 a) g') (for_base base g)"
        using for_okD [OF again [OF m(1)] m(2) st'(1) nr] st'(2) agrees_trans by fastforce
    qed
    then show ?thesis using e2 True by (simp add: hd')
  next
    case False
    obtain m where m: "exec_stmt F G n a (set_flag DONT_EXECUTE h) = Ran ((set_flag DONT_EXECUTE h)\<lparr>switched := m\<rparr>)"
      using skip_stmt(1) [OF wf(1) stop_quiet [OF rh]] nrh by (fastforce simp: not_running_def)
    have "for_header F G off e1 e2 e3 g = set_flag DONT_EXECUTE h" using hd False by (simp add: h_def)
    then show ?thesis using m e2 False for_exit [OF r st, where sb = s2 and sw = "switched g off" and m = m]
      by (simp add: Let_def agrees_Ran h_def del: switched_upd_simps(6))
  qed
qed

lemma for_loop_ok:
  fixes F :: "'d fp" and G :: "('d, 'p, 's) lang"
  assumes a: "stmt_ok F G n a" and again: "\<And>m. n = Suc m \<Longrightarrow> for_ok F G m off e1 e2 e3 a"
    and wf: "wf_stmt a" "off \<notin> for_offsets a"
  shows "for_ok F G n off e1 e2 e3 a"
  unfolding for_ok_def
proof (intro allI impI)
  fix g :: "('d, 's) engine" and L s base
  assume r: "running g L s" and st: "stands off base g" and nr: "\<forall>o1\<in>for_offsets a. int o1 \<notin> this_call base"
  define e where "e = (if on_for_stack off g then e3 else e1)"
  obtain v1 s1 where e1: "ev_list F G e s = (v1, s1)" by force
  obtain v s2 where e2: "ev_list F G e2 s1 = (v, s2)" by force
  have hd: "for_header F G off e1 e2 e3 g = set_flag (if pval_is_true F v then EXECUTE else DONT_EXECUTE) (for_body off g s2)"
  proof (cases "on_for_stack off g")
    case True
    then have "switched g off" using stands_on [OF st] st by (auto simp: stands_def)
    then show ?thesis using header_again [OF r True _ _ e2] e1 True by (simp add: e_def)
  next
    case False
    then show ?thesis using header_first [OF r False _ e2] e1 by (simp add: e_def)
  qed
  have "agrees (run_for F G n L e2 e3 a s1) (exec_stmt F G n (For off e1 e2 e3 a) g) (for_base base g)"
    using again by (rule for_core [OF a _ wf r st nr e2 hd])
  then show "agrees (run_for F G n L e2 e3 a (snd (ev_list F G (if on_for_stack off g then e3 else e1) s)))
      (exec_stmt F G n (For off e1 e2 e3 a) g) (for_base base g)"
    using e1 by (simp add: e_def)
qed

lemma for_stmt_ok:
  fixes F :: "'d fp" and G :: "('d, 'p, 's) lang"
  assumes "for_ok F G n off e1 e2 e3 a"
  shows "stmt_ok F G n (For off e1 e2 e3 a)"
  unfolding stmt_ok_def
proof (intro allI impI)
  fix g :: "('d, 's) engine" and L s
  assume r: "running g L s" and wf: "wf_stmt (For off e1 e2 e3 a)" and nr: "not_running (for_offsets (For off e1 e2 e3 a)) g"
  have st: "stands off (for_stack g) g" using wf nr by (simp add: stands_def not_running_def)
  then have "\<not> on_for_stack off g" by (simp add: stands_on)
  moreover have "for_base (for_stack g) g = g" by (simp add: for_base_def)
  ultimately show "agrees (run_stmt F G n L (For off e1 e2 e3 a) s) (exec_stmt F G n (For off e1 e2 e3 a) g) g"
    using for_okD [OF assms r st] nr by (simp add: not_running_def del: exec_stmt.simps run_for.simps)
qed

end
