(* ===== verification/Control_If.thy ===== *)
theory Control_If
  imports Control_For
begin

text \<open>The simulation of \<open>if\<close>, \<open>elseif\<close>, \<open>else\<close> and of \<open>break\<close>, \<open>continue\<close> and \<open>return\<close>.\<close>

lemma then_run_assoc: "then_run (then_run r f) k = then_run r (\<lambda>x. then_run (f x) k)"
  by (cases r) simp_all

subsection \<open>After the branch that was taken\<close>

lemma outcome_stop:
  assumes "shows_outcome r g" "sought g = None"
  defines "q \<equiv> (if ExecuteFlag g = EXECUTE then set_flag DONT_EXECUTE g else g)"
  shows "quiet q" "ExecuteFlag q = DONT_EXECUTE" "q = g\<lparr>ExecuteFlag := DONT_EXECUTE, Execute := False\<rparr>"
  using assms by (cases g; cases r; auto simp: shows_outcome_def pending_def quiet_def SHOULD_EXECUTE_def set_flag_def Let_def)+

lemma taken_rest:
  fixes g :: "('d, 's) engine"
  assumes wf: "wf_rest r" and o: "shows_outcome out g" "sought g = None" and nr: "not_running (for_offsets_rest r) g"
  shows "\<exists>f b m. exec_rest F G n r g = Ran (g\<lparr>ExecuteFlag := f, Execute := b, switched := m\<rparr>)"
proof -
  define q where "q = (if ExecuteFlag g = EXECUTE then set_flag DONT_EXECUTE g else g)"
  note q = outcome_stop [OF o, folded q_def]
  have nq: "not_running (for_offsets_rest r) q" using nr q(3) by (simp add: not_running_def)
  have m: "Ran (q\<lparr>switched := m\<rparr>) = Ran (g\<lparr>ExecuteFlag := DONT_EXECUTE, Execute := False, switched := m\<rparr>)" for m
    by (simp add: q(3))
  show ?thesis
  proof (cases r)
    case (ElseIf c a r2)
    have s: "cs_elseif_start_evaluate g = push_css q"
      using q(2) by (simp add: cs_elseif_start_evaluate_def q_def [symmetric] Let_def)
    note e = skip_elseif [OF q(1,2)]
    obtain v where v: "eval_expr F G c (push_css q) = (v, push_css q)" using skip_expr(1) [OF quiet_push [OF q(1)]] by blast
    obtain m1 where m1: "exec_stmt F G n a q = Ran (q\<lparr>switched := m1\<rparr>)" using skip_stmt(1) [OF _ q(1)] wf nq ElseIf by force
    have "quiet (q\<lparr>switched := m1\<rparr>)" "ExecuteFlag (q\<lparr>switched := m1\<rparr>) = DONT_EXECUTE"
      using q(1,2) by (simp_all add: quiet_switched)
    then obtain m2 where "exec_rest F G n r2 (q\<lparr>switched := m1\<rparr>) = Ran (q\<lparr>switched := m1\<rparr>\<lparr>switched := m2\<rparr>)"
      using skip_stmt(2) [of r2 "q\<lparr>switched := m1\<rparr>" F G n] wf nq ElseIf by fastforce
    then have "exec_rest F G n r g = Ran (q\<lparr>switched := m2\<rparr>)" using ElseIf s e v m1 by simp
    then show ?thesis unfolding m by blast
  next
    case (Else a)
    have s: "cs_start_else g = q" using q(2) by (simp add: cs_start_else_def q_def [symmetric] Let_def)
    obtain m1 where "exec_stmt F G n a q = Ran (q\<lparr>switched := m1\<rparr>)" using skip_stmt(1) [OF _ q(1)] wf nq Else by force
    then have "exec_rest F G n r g = Ran (q\<lparr>switched := m1\<rparr>)" using Else s by simp
    then show ?thesis unfolding m by blast
  next
    case EndIf
    have "g\<lparr>ExecuteFlag := ExecuteFlag g, Execute := Execute g, switched := switched g\<rparr> = g" by simp
    then have "exec_rest F G n r g = Ran (g\<lparr>ExecuteFlag := ExecuteFlag g, Execute := Execute g, switched := switched g\<rparr>)"
      using EndIf by simp
    then show ?thesis by blast
  qed
qed

lemma end_if_ended:
  assumes r: "running g L s0" and e: "ended out s (push_css g) g2"
  shows "ended out s g (cs_end_if (g2\<lparr>ExecuteFlag := f, Execute := b, switched := m\<rparr>))"
proof -
  have "css g2 = EXECUTE # css g" "frame (push_css g) g2" "store g2 = s" "shows_outcome out g2"
    using e r by (simp_all add: ended_def frame_def running_def)
  then show ?thesis
    by (cases out) (auto simp: cs_end_if_def ended_def frame_def shows_outcome_def pending_def pop_css_def
        set_flag_def SHOULD_EXECUTE_def Let_def)
qed

text \<open>The branch that is taken: its body, the rest of the statement, and the end.\<close>

lemma branch_taken:
  fixes g :: "('d, 's) engine"
  assumes a: "stmt_ok F G n a" and r: "running g L s" and wf: "wf_stmt a" "wf_rest r"
    and nr: "not_running (for_offsets a) g" "not_running (for_offsets_rest r) g"
  shows "agrees (run_stmt F G n L a s)
    (then_run (exec_stmt F G n a (push_css g)) (\<lambda>g2. then_run (exec_rest F G n r g2) (\<lambda>g3. Ran (cs_end_if g3)))) g"
proof -
  have b: "agrees (run_stmt F G n L a s) (exec_stmt F G n a (push_css g)) (push_css g)"
    using stmt_okD [OF a run_push [OF r] wf(1)] nr(1) by simp
  have "then_run (run_stmt F G n L a s) Ran = run_stmt F G n L a s" by (cases "run_stmt F G n L a s") simp_all
  moreover have "agrees (then_run (run_stmt F G n L a s) Ran)
    (then_run (exec_stmt F G n a (push_css g)) (\<lambda>g2. then_run (exec_rest F G n r g2) (\<lambda>g3. Ran (cs_end_if g3)))) g"
  proof (rule agrees_bind [OF b])
    fix out s2 g2
    assume e: "ended out s2 (push_css g) g2"
    then have o: "shows_outcome out g2" "sought g2 = None" "not_running (for_offsets_rest r) g2"
      using nr(2) by (simp_all add: ended_def frame_def not_running_def)
    obtain f b m where "exec_rest F G n r g2 = Ran (g2\<lparr>ExecuteFlag := f, Execute := b, switched := m\<rparr>)"
      using taken_rest [OF wf(2) o] by blast
    then show "agrees (Ran (out, s2)) (then_run (exec_rest F G n r g2) (\<lambda>g3. Ran (cs_end_if g3))) g"
      using end_if_ended [OF r e] by (simp add: agrees_Ran)
  qed
  ultimately show ?thesis by simp
qed

subsection \<open>No branch taken yet\<close>

definition rest_ok :: "'d fp \<Rightarrow> ('d, 'p, 's) lang \<Rightarrow> nat \<Rightarrow> 'p rest \<Rightarrow> bool" where
  "rest_ok F G n r \<longleftrightarrow>
     (\<forall>g L s. running g L s \<longrightarrow> wf_rest r \<longrightarrow> not_running (for_offsets_rest r) g \<longrightarrow>
        agrees (run_rest F G n L r s)
          (then_run (exec_rest F G n r (set_flag BEFORE_EXECUTE (push_css g))) (\<lambda>g3. Ran (cs_end_if g3))) g)"

lemma rest_okD:
  "rest_ok F G n r \<Longrightarrow> running g L s \<Longrightarrow> wf_rest r \<Longrightarrow> not_running (for_offsets_rest r) g \<Longrightarrow>
   agrees (run_rest F G n L r s)
     (then_run (exec_rest F G n r (set_flag BEFORE_EXECUTE (push_css g))) (\<lambda>g3. Ran (cs_end_if g3))) g"
  by (simp add: rest_ok_def)

lemma before_quiet: "running g L s \<Longrightarrow> quiet (set_flag BEFORE_EXECUTE (push_css g))"
  by (simp add: running_def quiet_def SHOULD_EXECUTE_def)

lemma before_start: "running g L s \<Longrightarrow> set_flag EXECUTE (set_flag BEFORE_EXECUTE (push_css g)) = push_css g"
  by (cases g) (simp add: running_def flag_defs)

lemma run_switched: "running g L s \<Longrightarrow> running (g\<lparr>switched := m\<rparr>) L s \<and> frame g (g\<lparr>switched := m\<rparr>)"
  by (simp add: running_def frame_def)

lemma end_if_simple: "running g L s \<Longrightarrow> cs_end_if (set_flag BEFORE_EXECUTE (push_css g)) = g"
  by (cases g) (simp add: running_def flag_defs cs_end_if_def)

lemma elseif_test:
  assumes r: "running g L s" and v: "ev F G c s = (v, s1)"
  defines "h \<equiv> set_flag BEFORE_EXECUTE (push_css (g\<lparr>store := s1\<rparr>))"
  shows "\<exists>k. eval_expr F G c (cs_elseif_start_evaluate (set_flag BEFORE_EXECUTE (push_css g))) = (v, k) \<and>
    cs_elseif_end_evaluate k = h"
proof -
  let ?h = "set_flag BEFORE_EXECUTE (push_css g)"
  define k where "k = set_flag EXECUTE (push_css ?h)"
  have "cs_elseif_start_evaluate ?h = k"
    using r by (simp add: cs_elseif_start_evaluate_def k_def running_def Let_def)
  moreover have "running k L s" using r by (simp add: k_def running_def)
  then have "eval_expr F G c k = (v, k\<lparr>store := s1\<rparr>)" by (rule run_eval(1) [OF _ v])
  moreover have "cs_elseif_end_evaluate (k\<lparr>store := s1\<rparr>) = h"
    using r by (cases g) (simp add: k_def h_def cs_elseif_end_evaluate_def flag_defs running_def)
  ultimately show ?thesis by simp
qed

lemma elseif_ok:
  fixes F :: "'d fp" and G :: "('d, 'p, 's) lang"
  assumes a: "stmt_ok F G n a" and r': "rest_ok F G n r"
  shows "rest_ok F G n (ElseIf c a r)"
  unfolding rest_ok_def
proof (intro allI impI)
  fix g :: "('d, 's) engine" and L s
  assume r: "running g L s" and wf: "wf_rest (ElseIf c a r)" and nr: "not_running (for_offsets_rest (ElseIf c a r)) g"
  obtain v s1 where v: "ev F G c s = (v, s1)" by force
  define g1 where "g1 = g\<lparr>store := s1\<rparr>"
  note x = run_eval [OF r v, folded g1_def]
  define h where "h = set_flag BEFORE_EXECUTE (push_css g1)"
  obtain k where k: "eval_expr F G c (cs_elseif_start_evaluate (set_flag BEFORE_EXECUTE (push_css g))) = (v, k)"
    "cs_elseif_end_evaluate k = h" using elseif_test [OF r v] by (auto simp: h_def g1_def)
  have nr1: "not_running (for_offsets a) g1" "not_running (for_offsets_rest r) g1"
    using nr frame_not_running [OF x(3)] by simp_all
  show "agrees (run_rest F G n L (ElseIf c a r) s)
    (then_run (exec_rest F G n (ElseIf c a r) (set_flag BEFORE_EXECUTE (push_css g))) (\<lambda>g3. Ran (cs_end_if g3))) g"
  proof (cases "pval_is_true F v")
    case True
    then have "cs_start_elseif F v h = push_css g1"
      using before_start [OF x(2)] by (simp add: cs_start_elseif_def h_def)
    then show ?thesis using v k True agrees_trans [OF x(3) branch_taken [OF a x(2) _ _ nr1]] wf
      by (simp add: then_run_assoc)
  next
    case False
    then have st: "cs_start_elseif F v h = h" by (simp add: cs_start_elseif_def h_def)
    obtain m where m: "exec_stmt F G n a h = Ran (h\<lparr>switched := m\<rparr>)"
      using skip_stmt(1) [OF _ before_quiet [OF x(2)]] wf nr1(1) by (fastforce simp: h_def not_running_def)
    note g2 = run_switched [OF x(2), of m]
    have "not_running (for_offsets_rest r) (g1\<lparr>switched := m\<rparr>)" using nr1(2) by simp
    then have "agrees (run_rest F G n L r s1)
      (then_run (exec_rest F G n r (set_flag BEFORE_EXECUTE (push_css (g1\<lparr>switched := m\<rparr>)))) (\<lambda>g3. Ran (cs_end_if g3)))
      (g1\<lparr>switched := m\<rparr>)"
      using wf by (intro rest_okD [OF r' conjunct1 [OF g2]]) simp_all
    then have "agrees (run_rest F G n L r s1)
      (then_run (exec_rest F G n r (h\<lparr>switched := m\<rparr>)) (\<lambda>g3. Ran (cs_end_if g3))) g"
      using agrees_trans [OF frame_trans [OF x(3) conjunct2 [OF g2]]] by (simp add: h_def)
    then show ?thesis using v k False st m by simp
  qed
qed

lemma else_ok:
  fixes F :: "'d fp" and G :: "('d, 'p, 's) lang"
  shows "stmt_ok F G n a \<Longrightarrow> rest_ok F G n (Else a)"
proof (unfold rest_ok_def, intro allI impI)
  fix g :: "('d, 's) engine" and L s
  assume a: "stmt_ok F G n a" and r: "running g L s" and wf: "wf_rest (Else a)" and nr: "not_running (for_offsets_rest (Else a)) g"
  have "cs_start_else (set_flag BEFORE_EXECUTE (push_css g)) = push_css g"
    using before_start [OF r] by (simp add: cs_start_else_def)
  then show "agrees (run_rest F G n L (Else a) s)
    (then_run (exec_rest F G n (Else a) (set_flag BEFORE_EXECUTE (push_css g))) (\<lambda>g3. Ran (cs_end_if g3))) g"
    using branch_taken [OF a r, of EndIf] wf nr by (simp add: not_running_def)
qed

lemma endif_ok: "rest_ok F G n EndIf"
  by (auto simp: rest_ok_def end_if_simple intro!: agrees_Ran frame_running_ended simp: frame_def running_def)

lemma if_ok:
  fixes F :: "'d fp" and G :: "('d, 'p, 's) lang"
  assumes a: "stmt_ok F G n a" and r': "rest_ok F G n r"
  shows "stmt_ok F G n (If c a r)"
  unfolding stmt_ok_def
proof (intro allI impI)
  fix g :: "('d, 's) engine" and L s
  assume r: "running g L s" and wf: "wf_stmt (If c a r)" and nr: "not_running (for_offsets (If c a r)) g"
  obtain v s1 where v: "ev F G c s = (v, s1)" by force
  define g1 where "g1 = g\<lparr>store := s1\<rparr>"
  note x = run_eval [OF r v, folded g1_def]
  have nr1: "not_running (for_offsets a) g1" "not_running (for_offsets_rest r) g1"
    using nr frame_not_running [OF x(3)] by simp_all
  have st: "cs_start_if F v g1 = set_flag (if pval_is_true F v then EXECUTE else BEFORE_EXECUTE) (push_css g1)"
    using x(2) by (simp add: cs_start_if_def running_def)
  show "agrees (run_stmt F G n L (If c a r) s) (exec_stmt F G n (If c a r) g) g"
  proof (cases "pval_is_true F v")
    case True
    then have "cs_start_if F v g1 = push_css g1" using st set_same [OF run_push [OF x(2)]] by simp
    then show ?thesis using v x(1) True agrees_trans [OF x(3) branch_taken [OF a x(2) _ _ nr1]] wf by simp
  next
    case False
    define h where "h = set_flag BEFORE_EXECUTE (push_css g1)"
    obtain m where m: "exec_stmt F G n a h = Ran (h\<lparr>switched := m\<rparr>)"
      using skip_stmt(1) [OF _ before_quiet [OF x(2)]] wf nr1(1) by (fastforce simp: h_def not_running_def)
    note g2 = run_switched [OF x(2), of m]
    have "not_running (for_offsets_rest r) (g1\<lparr>switched := m\<rparr>)" using nr1(2) by simp
    then have "agrees (run_rest F G n L r s1)
      (then_run (exec_rest F G n r (set_flag BEFORE_EXECUTE (push_css (g1\<lparr>switched := m\<rparr>)))) (\<lambda>g3. Ran (cs_end_if g3)))
      (g1\<lparr>switched := m\<rparr>)"
      using wf by (intro rest_okD [OF r' conjunct1 [OF g2]]) simp_all
    then have "agrees (run_rest F G n L r s1)
      (then_run (exec_rest F G n r (h\<lparr>switched := m\<rparr>)) (\<lambda>g3. Ran (cs_end_if g3))) g"
      using agrees_trans [OF frame_trans [OF x(3) conjunct2 [OF g2]]] by (simp add: h_def)
    then show ?thesis using v x(1) False st m by (simp add: h_def)
  qed
qed

subsection \<open>Statements without parts\<close>

lemma change_ok:
  assumes r: "running g L s" and t: "t = DO_BREAK \<and> out = Brk \<or> t = DO_CONTINUE \<and> out = Cnt"
  shows "agrees (change_outcome F L v out s) (or_abort (cs_break_continue F v t g)) g"
proof (cases "1 \<le> change_level F L v \<and> change_level F L v \<le> L")
  case True
  then show ?thesis using r t
    by (auto simp: change_outcome_def cs_break_continue_def or_abort_def running_def ended_def frame_def
        shows_outcome_def pending_def Let_def intro!: agrees_Ran)
next
  case False
  then show ?thesis using r
    by (auto simp: change_outcome_def cs_break_continue_def or_abort_def running_def agrees_def Let_def)
qed

lemma return_ok:
  assumes "running g L s"
  shows "agrees (Ran (Ret (case v of None \<Rightarrow> var_reset | Some x \<Rightarrow> x), s)) (or_abort (cs_return v g)) g"
  using assms
  by (auto simp: cs_return_def or_abort_def running_def ended_def frame_def shows_outcome_def intro!: agrees_Ran)

lemma opt_ok:
  fixes F :: "'d fp" and G :: "('d, 'p, 's) lang"
  assumes run: "\<And>L s. run_stmt F G n L a s = (let (v, s1) = ev_opt F G eo s in p L v s1)"
    and exec: "\<And>g :: ('d, 's) engine. exec_stmt F G n a g = (let (v, g1) = eval_opt F G eo g in q v g1)"
    and ok: "\<And>(g :: ('d, 's) engine) L s v. running g L s \<Longrightarrow> agrees (p L v s) (q v g) g"
  shows "stmt_ok F G n a"
  unfolding stmt_ok_def
proof (intro allI impI)
  fix g :: "('d, 's) engine" and L s
  assume r: "running g L s"
  obtain v s1 where v: "ev_opt F G eo s = (v, s1)" by force
  note x = run_opt [OF r v]
  show "agrees (run_stmt F G n L a s) (exec_stmt F G n a g) g"
    using agrees_trans [OF x(3) ok [OF x(2)]] by (simp add: run exec v x(1))
qed

lemma simple_ok:
  fixes F :: "'d fp" and G :: "('d, 'p, 's) lang"
  shows "stmt_ok F G n Empty" "stmt_ok F G n (Expr e)" "stmt_ok F G n (Break eo)" "stmt_ok F G n (Continue eo)"
  "stmt_ok F G n (Return eo)"
proof -
  show "stmt_ok F G n Empty"
    by (auto simp: stmt_ok_def intro!: agrees_Ran frame_running_ended) (simp add: frame_def running_def)
  show "stmt_ok F G n (Expr e)" unfolding stmt_ok_def
  proof (intro allI impI)
    fix g :: "('d, 's) engine" and L s
    assume r: "running g L s"
    obtain v s1 where v: "ev F G e s = (v, s1)" by force
    note x = run_eval [OF r v]
    have "ended Normal s1 g (g\<lparr>store := s1\<rparr>)" by (rule frame_running_ended [OF r x(3,2)])
    then show "agrees (run_stmt F G n L (Expr e) s) (exec_stmt F G n (Expr e) g) g"
      using x(1) v by (simp add: agrees_Ran)
  qed
  show "stmt_ok F G n (Break eo)" by (rule opt_ok [OF run_stmt.simps(9) exec_stmt.simps(9)]) (simp add: change_ok)
  show "stmt_ok F G n (Continue eo)" by (rule opt_ok [OF run_stmt.simps(10) exec_stmt.simps(10)]) (simp add: change_ok)
  show "stmt_ok F G n (Return eo)" by (rule opt_ok [OF run_stmt.simps(11) exec_stmt.simps(11)]) (rule return_ok)
qed

lemma seq_ok:
  fixes F :: "'d fp" and G :: "('d, 'p, 's) lang"
  assumes a: "stmt_ok F G n a" and b: "stmt_ok F G n b"
  shows "stmt_ok F G n (Seq a b)"
  unfolding stmt_ok_def
proof (intro allI impI)
  fix g :: "('d, 's) engine" and L s
  assume r: "running g L s" and wf: "wf_stmt (Seq a b)" and nr: "not_running (for_offsets (Seq a b)) g"
  have "agrees (run_stmt F G n L a s) (exec_stmt F G n a g) g" using stmt_okD [OF a r] wf nr by simp
  then show "agrees (run_stmt F G n L (Seq a b) s) (exec_stmt F G n (Seq a b) g) g"
    unfolding run_stmt.simps(2) exec_stmt.simps(2)
  proof (rule agrees_bind)
    fix out s2 g2
    assume e: "ended out s2 g g2"
    then have fr: "frame g g2" "sought g2 = None" "store g2 = s2" "shows_outcome out g2" by (simp_all add: ended_def frame_def)
    show "agrees (case (out, s2) of (r, s1) \<Rightarrow> if r = Normal then run_stmt F G n L b s1 else Ran (r, s1)) (exec_stmt F G n b g2) g"
    proof (cases "out = Normal")
      case True
      then have "running g2 L s2" using ended_Normal [OF r, of s2 g2] e by simp
      then show ?thesis using True stmt_okD [OF b, of g2] wf nr frame_not_running [OF fr(1)] agrees_trans [OF fr(1)] by simp
    next
      case False
      have "quiet g2" by (rule outcome_quiet [OF fr(2,4) False])
      then obtain m where m: "exec_stmt F G n b g2 = Ran (g2\<lparr>switched := m\<rparr>)"
        using skip_stmt(1) [of b g2 F G n] wf nr frame_not_running [OF fr(1)] by auto
      have "ended out s2 g (g2\<lparr>switched := m\<rparr>)" using e by (cases out) (auto simp: ended_def frame_def shows_outcome_def pending_def)
      then show ?thesis using False m by (simp add: agrees_Ran)
    qed
  qed
qed

end
