(* ===== verification/Control_Switch.thy ===== *)
theory Control_Switch
  imports Control_If
begin

text \<open>The simulation of \<open>switch\<close>, and the induction over programs.\<close>

subsection \<open>The cases\<close>

text \<open>The cases change the mark on top of the switch stack, so they are compared below it.\<close>

definition pop_switch :: "('d, 's) engine \<Rightarrow> ('d, 's) engine" where
  "pop_switch g = g\<lparr>switch_stack := tl (switch_stack g)\<rparr>"

lemma pop_switch_sel [simp]:
  "css (pop_switch g) = css g" "ExecuteFlag (pop_switch g) = ExecuteFlag g" "Execute (pop_switch g) = Execute g"
  "fstate (pop_switch g) = fstate g" "for_stack (pop_switch g) = for_stack g" "return_value (pop_switch g) = return_value g"
  "loop_tokens (pop_switch g) = loop_tokens g" "switched (pop_switch g) = switched g" "sought (pop_switch g) = sought g"
  "store (pop_switch g) = store g" "switch_stack (pop_switch g) = tl (switch_stack g)"
  by (simp_all add: pop_switch_def)

lemma post_sel [simp]:
  "css (cs_switch_case_post g) = css g" "fstate (cs_switch_case_post g) = fstate g" "for_stack (cs_switch_case_post g) = for_stack g"
  "switch_stack (cs_switch_case_post g) = switch_stack g" "return_value (cs_switch_case_post g) = return_value g"
  "store (cs_switch_case_post g) = store g" "sought (cs_switch_case_post g) = sought g"
  "ExecuteFlag (cs_switch_case_post g) = int_top (css g)"
  "Execute (cs_switch_case_post g) =
    (int_top (css g) = EXECUTE \<and> \<not> returned (fstate g) \<and> loop_change_type (fstate g) = DO_NOTHING)"
  by (simp_all add: cs_switch_case_post_def)

text \<open>\<open>in_switch\<close>: the cases of a \<open>switch\<close> on the value \<open>v\<close> are executed.\<close>

definition in_switch :: "'d pval \<Rightarrow> bool \<Rightarrow> ('d, 's) engine \<Rightarrow> bool" where
  "in_switch v matched g \<longleftrightarrow> int_top (css g) = EXECUTE \<and> switch_stack g \<noteq> [] \<and>
     se_expr (hd (switch_stack g)) = v \<and> (se_offset (hd (switch_stack g)) = - 1 \<longleftrightarrow> matched)"

lemma in_switch_frame: "in_switch v m g \<Longrightarrow> frame g g' \<Longrightarrow> in_switch v m g'"
  by (simp add: in_switch_def frame_def)

text \<open>The label of a case that is reached: a match marks the switch, no match skips the statement.\<close>

lemma case_pre:
  fixes F :: "'d fp" and w :: "'d pval option" and g :: "('d, 's) engine"
  assumes r: "running g L s" and i: "in_switch v matched g"
  defines "hit \<equiv> matched \<or> (case w of None \<Rightarrow> True | Some c \<Rightarrow> pval_is_true F (snd (is_equal_function F v c)))"
  obtains g' where "cs_switch_case_pre F w g = Some (if hit then g' else set_flag DONT_EXECUTE g')"
    "running g' L s" "frame (pop_switch g) (pop_switch g')" "in_switch v hit g'" "for_stack g' = for_stack g"
proof -
  obtain se ses where ss: "switch_stack g = se # ses" using i by (cases "switch_stack g") (auto simp: in_switch_def)
  define g' where "g' = (if hit \<and> \<not> matched then g\<lparr>switch_stack := se\<lparr>se_offset := - 1\<rparr> # ses\<rparr> else g)"
  have x: "Execute g" "se_expr se = v" "se_offset se = - 1 \<longleftrightarrow> matched" "int_top (css g) = EXECUTE"
    using r i ss by (simp_all add: running_def in_switch_def)
  have r': "running g' L s" using r by (simp add: g'_def running_def)
  show thesis
  proof
    show "cs_switch_case_pre F w g = Some (if hit then g' else set_flag DONT_EXECUTE g')"
      using x ss set_same [OF r'] by (cases w) (auto simp: cs_switch_case_pre_def hit_def g'_def Let_def)
    show "frame (pop_switch g) (pop_switch g')" using r ss by (simp add: frame_def g'_def running_def)
    show "in_switch v hit g'" using x ss by (auto simp: in_switch_def g'_def hit_def)
  qed (use r' in \<open>simp_all add: g'_def\<close>)
qed

definition cases_ok :: "'d fp \<Rightarrow> ('d, 'p, 's) lang \<Rightarrow> nat \<Rightarrow> 'p case_list \<Rightarrow> bool" where
  "cases_ok F G n cs \<longleftrightarrow>
     (\<forall>g L s v matched. running g L s \<longrightarrow> in_switch v matched g \<longrightarrow> wf_cases cs \<longrightarrow> not_running (for_offsets_cases cs) g \<longrightarrow>
        agrees (run_cases F G n L v matched cs s) (then_run (exec_cases F G n cs g) (\<lambda>g'. Ran (pop_switch g'))) (pop_switch g))"

lemma cases_okD:
  "cases_ok F G n cs \<Longrightarrow> running g L s \<Longrightarrow> in_switch v matched g \<Longrightarrow> wf_cases cs \<Longrightarrow> not_running (for_offsets_cases cs) g \<Longrightarrow>
   agrees (run_cases F G n L v matched cs s) (then_run (exec_cases F G n cs g) (\<lambda>g'. Ran (pop_switch g'))) (pop_switch g)"
  by (simp add: cases_ok_def)

lemma frame_pop: "frame g g' \<Longrightarrow> frame (pop_switch g) (pop_switch g')"
  by (simp add: frame_def)

text \<open>After the statement of a case that was executed: fall through, or skip the other cases.\<close>

lemma post_running:
  assumes "running g L s" "in_switch v True g" "ended Normal s2 g g2"
  shows "running (cs_switch_case_post g2) L s2" "frame g (cs_switch_case_post g2)"
  using assms by (auto simp: ended_def shows_outcome_def frame_def running_def in_switch_def)

lemma post_stopped:
  assumes r: "running g L s" and i: "in_switch v True g" and e: "ended out s2 g g2" and out: "out \<noteq> Normal"
  shows "quiet (cs_switch_case_post g2)" "ended out s2 g ((cs_switch_case_post g2)\<lparr>switched := m\<rparr>)"
    "ended out s2 g (cs_switch_case_post g2)"
proof -
  define g3 where "g3 = (cs_switch_case_post g2)\<lparr>switched := m\<rparr>"
  have f: "frame g g2" "store g2 = s2" "shows_outcome out g2" using e by (simp_all add: ended_def)
  have top: "int_top (css g2) = EXECUTE" using i f(1) by (simp add: in_switch_def frame_def)
  have o: "shows_outcome out g3"
    using f(3) out top by (cases out) (simp_all add: g3_def shows_outcome_def pending_def)
  have "frame g g3" "store g3 = s2" "sought g3 = None" using f(1,2) by (simp_all add: g3_def frame_def)
  then show "ended out s2 g ((cs_switch_case_post g2)\<lparr>switched := m\<rparr>)" "quiet (cs_switch_case_post g2)"
    using o outcome_quiet [OF _ o out] by (simp_all add: ended_def g3_def quiet_switched)
  show "ended out s2 g (cs_switch_case_post g2)"
    using f top out by (cases out) (simp_all add: ended_def frame_def shows_outcome_def pending_def)
qed

lemma ended_pop: "ended out s g g' \<Longrightarrow> ended out s (pop_switch g) (pop_switch g')"
  by (cases out) (simp_all add: ended_def frame_def shows_outcome_def pending_def)

lemma case_ok:
  fixes F :: "'d fp" and G :: "('d, 'p, 's) lang"
  assumes a: "stmt_ok F G n a" and b: "cases_ok F G n cs"
  shows "cases_ok F G n (Case c a cs)"
  unfolding cases_ok_def
proof (intro allI impI)
  fix g :: "('d, 's) engine" and L s v matched
  assume r: "running g L s" and i: "in_switch v matched g" and wf: "wf_cases (Case c a cs)"
    and nr: "not_running (for_offsets_cases (Case c a cs)) g"
  obtain w s1 where w: "ev F G c s = (w, s1)" by force
  define g1 where "g1 = g\<lparr>store := s1\<rparr>"
  note x = run_eval [OF r w, folded g1_def]
  define hit where "hit = (matched \<or> pval_is_true F (snd (is_equal_function F v w)))"
  obtain g' where pre: "cs_switch_case_pre F (Some w) g1 = Some (if hit then g' else set_flag DONT_EXECUTE g')"
    and g': "running g' L s1" "frame (pop_switch g1) (pop_switch g')" "in_switch v hit g'" "for_stack g' = for_stack g1"
    using case_pre [OF x(2) in_switch_frame [OF i x(3)], of F "Some w"] by (auto simp: hit_def)
  have fr: "frame (pop_switch g) (pop_switch g')" by (rule frame_trans [OF frame_pop [OF x(3)] g'(2)])
  have nr': "not_running (for_offsets a) g'" "not_running (for_offsets_cases cs) g'"
    using nr not_running_cong [OF g'(4)] frame_not_running [OF x(3)] by simp_all
  let ?tail = "\<lambda>g3. then_run (exec_cases F G n cs (cs_switch_case_post g3)) (\<lambda>g4. Ran (pop_switch g4))"
  show "agrees (run_cases F G n L v matched (Case c a cs) s)
    (then_run (exec_cases F G n (Case c a cs) g) (\<lambda>g4. Ran (pop_switch g4))) (pop_switch g)"
  proof (cases hit)
    case True
    have h: "in_switch v True g'" using g'(3) True by simp
    have "agrees (then_run (run_stmt F G n L a s1)
          (\<lambda>(r, s2). if r = Normal then run_cases F G n L v True cs s2 else Ran (r, s2)))
        (then_run (exec_stmt F G n a g') ?tail) (pop_switch g')"
    proof (rule agrees_bind [OF stmt_okD [OF a g'(1) _ nr'(1)]])
      show "wf_stmt a" using wf by simp
      fix out s2 g3
      assume e: "ended out s2 g' g3"
      show "agrees (case (out, s2) of (r, s2) \<Rightarrow> if r = Normal then run_cases F G n L v True cs s2 else Ran (r, s2))
        (?tail g3) (pop_switch g')"
      proof (cases "out = Normal")
        case n: True
        note p = post_running [OF g'(1) h e [unfolded n]]
        have "agrees (run_cases F G n L v True cs s2) (?tail g3) (pop_switch (cs_switch_case_post g3))"
          using wf nr'(2) frame_not_running [OF p(2)] by (intro cases_okD [OF b p(1) in_switch_frame [OF h p(2)]]) simp_all
        then show ?thesis using n agrees_trans [OF frame_pop [OF p(2)]] by simp
      next
        case False
        note p = post_stopped [OF g'(1) h e False]
        have fp: "frame g' (cs_switch_case_post g3)" using e by (simp add: ended_def frame_def)
        have "int_top (css (cs_switch_case_post g3)) = ExecuteFlag (cs_switch_case_post g3)" by simp
        then obtain m where "exec_cases F G n cs (cs_switch_case_post g3) = Ran ((cs_switch_case_post g3)\<lparr>switched := m\<rparr>)"
          using skip_stmt(3) [OF _ p(1)] wf nr'(2) frame_not_running [OF fp] by fastforce
        moreover have "ended out s2 (pop_switch g') (pop_switch ((cs_switch_case_post g3)\<lparr>switched := m\<rparr>))"
          by (rule ended_pop [OF p(2)])
        ultimately show ?thesis using False by (simp add: agrees_Ran)
      qed
    qed
    then show ?thesis using w x(1) pre True agrees_trans [OF fr]
      by (simp add: hit_def or_abort_def then_run_assoc)
  next
    case False
    define h where "h = set_flag DONT_EXECUTE g'"
    have q: "quiet h" unfolding h_def by (rule stop_quiet [OF g'(1)])
    have "not_running (for_offsets a) h" using nr'(1) by (simp add: h_def not_running_def)
    then obtain m where m: "exec_stmt F G n a h = Ran (h\<lparr>switched := m\<rparr>)" using skip_stmt(1) [OF _ q] wf by force
    define g3 where "g3 = cs_switch_case_post (h\<lparr>switched := m\<rparr>)"
    have top: "int_top (css g') = EXECUTE" using g'(3) by (simp add: in_switch_def)
    have r3: "running g3 L s1" using g'(1) top by (simp add: g3_def h_def running_def)
    have f3: "frame g' g3" using g'(1) by (simp add: g3_def h_def frame_def running_def)
    have "agrees (run_cases F G n L v False cs s1) (then_run (exec_cases F G n cs g3) (\<lambda>g4. Ran (pop_switch g4))) (pop_switch g3)"
      using wf nr'(2) frame_not_running [OF f3] g'(3) False
      by (intro cases_okD [OF b r3 in_switch_frame [OF _ f3]]) simp_all
    then show ?thesis using w x(1) pre False m agrees_trans [OF frame_trans [OF fr frame_pop [OF f3]]]
      by (simp add: hit_def or_abort_def h_def [symmetric] g3_def [symmetric])
  qed
qed

lemma default_ok:
  fixes F :: "'d fp" and G :: "('d, 'p, 's) lang"
  assumes a: "stmt_ok F G n a"
  shows "cases_ok F G n (Default a)"
  unfolding cases_ok_def
proof (intro allI impI)
  fix g :: "('d, 's) engine" and L s v matched
  assume r: "running g L s" and i: "in_switch v matched g" and wf: "wf_cases (Default a)"
    and nr: "not_running (for_offsets_cases (Default a)) g"
  obtain g' where pre: "cs_switch_case_pre F None g = Some g'"
    and g': "running g' L s" "frame (pop_switch g) (pop_switch g')" "in_switch v True g'" "for_stack g' = for_stack g"
    using case_pre [OF r i, of F None] by auto
  have "agrees (then_run (run_stmt F G n L a s) Ran)
    (then_run (exec_stmt F G n a g') (\<lambda>g2. Ran (pop_switch (cs_switch_case_post g2)))) (pop_switch g')"
  proof (rule agrees_bind)
    show "agrees (run_stmt F G n L a s) (exec_stmt F G n a g') g'"
      using wf nr not_running_cong [OF g'(4)] by (intro stmt_okD [OF a g'(1)]) simp_all
    fix out s2 g2
    assume e: "ended out s2 g' g2"
    have "ended out s2 g' (cs_switch_case_post g2)"
    proof (cases "out = Normal")
      case True
      show ?thesis unfolding True using post_running [OF g'(1,3) e [unfolded True]] frame_running_ended [OF g'(1)] by simp
    next
      case False
      show ?thesis by (rule post_stopped(3) [OF g'(1,3) e False])
    qed
    then have "ended out s2 (pop_switch g') (pop_switch (cs_switch_case_post g2))"
      by (rule ended_pop)
    then show "agrees (Ran (out, s2)) (Ran (pop_switch (cs_switch_case_post g2))) (pop_switch g')" by (rule agrees_Ran)
  qed
  moreover have "then_run (run_stmt F G n L a s) Ran = run_stmt F G n L a s" by (cases "run_stmt F G n L a s") simp_all
  ultimately show "agrees (run_cases F G n L v matched (Default a) s)
    (then_run (exec_cases F G n (Default a) g) (\<lambda>g4. Ran (pop_switch g4))) (pop_switch g)"
    using agrees_trans [OF g'(2)] pre by (simp add: or_abort_def then_run_assoc)
qed

lemma endcases_ok: "cases_ok F G n EndCases"
  by (auto simp: cases_ok_def intro!: agrees_Ran) (auto simp: ended_def frame_def shows_outcome_def running_def)

subsection \<open>The statement\<close>

text \<open>The end of a \<open>switch\<close>, without the stack of switches.\<close>

definition leave_switch :: "('d, 's) engine \<Rightarrow> ('d, 's) engine" where
  "leave_switch g =
     (let g1 = (if \<not> Execute g \<and> loop_change_level (fstate g) = loop_nest_level (fstate g)
                then g\<lparr>fstate := (fstate g)\<lparr>loop_change_type := DO_NOTHING\<rparr>\<rparr> else g)
      in nest (- 1) (pop_css g1))"

lemma switch_end_split: "cs_switch_end g = leave_switch (pop_switch g)"
  by (cases g) (simp add: cs_switch_end_def leave_switch_def pop_switch_def flag_defs nest_def)

lemma switch_ended:
  assumes r: "running g L s0" and e: "ended out s2 (push_css (nest 1 g)) g2"
  shows "ended (switch_next (L + 1) out) s2 g (leave_switch g2)"
proof -
  have b: "css g2 = EXECUTE # css g" "for_stack g2 = for_stack g" "switch_stack g2 = switch_stack g"
    "loop_nest_level (fstate g2) = L + 1" "loop_nest_level (fstate g) = L"
    "function_name (fstate g2) = function_name (fstate g)" "sought g2 = None" "store g2 = s2" "shows_outcome out g2"
    using r e by (simp_all add: ended_def frame_def running_def)
  then show ?thesis
    by (cases out) (auto simp: leave_switch_def switch_next_def ended_def frame_def shows_outcome_def pending_def Let_def)
qed

lemma switch_ok:
  fixes F :: "'d fp" and G :: "('d, 'p, 's) lang"
  assumes c: "cases_ok F G n cs"
  shows "stmt_ok F G n (Switch off e cs)"
  unfolding stmt_ok_def
proof (intro allI impI)
  fix g :: "('d, 's) engine" and L s
  assume r: "running g L s" and wf: "wf_stmt (Switch off e cs)" and nr: "not_running (for_offsets (Switch off e cs)) g"
  obtain v s1 where v: "ev F G e s = (v, s1)" by force
  define g1 where "g1 = g\<lparr>store := s1\<rparr>"
  note x = run_eval [OF r v, folded g1_def]
  define h where "h = cs_switch_start off v g1"
  have h: "running h (L + 1) s1" "in_switch v False h" "pop_switch h = push_css (nest 1 g1)" "for_stack h = for_stack g1"
    using x(2) wf by (simp_all add: h_def cs_switch_start_def running_def in_switch_def int_of_offset pop_switch_def Let_def)
  have c': "agrees (run_cases F G n (L + 1) v False cs s1)
    (then_run (exec_cases F G n cs h) (\<lambda>g'. Ran (pop_switch g'))) (push_css (nest 1 g1))"
    using wf nr frame_not_running [OF x(3)] not_running_cong [OF h(4)]
    by (intro cases_okD [OF c h(1,2), unfolded h(3)]) simp_all
  have "agrees (then_run (run_cases F G n (L + 1) v False cs s1) (\<lambda>(r, s2). Ran (switch_next (L + 1) r, s2)))
    (then_run (then_run (exec_cases F G n cs h) (\<lambda>g'. Ran (pop_switch g'))) (\<lambda>g2. Ran (leave_switch g2))) g1"
    by (rule agrees_bind [OF c']) (simp add: agrees_Ran switch_ended [OF x(2)])
  then show "agrees (run_stmt F G n L (Switch off e cs) s) (exec_stmt F G n (Switch off e cs) g) g"
    using v x(1) agrees_trans [OF x(3)] by (simp add: h_def then_run_assoc switch_end_split)
qed

subsection \<open>Programs\<close>

lemma while_all: "(\<And>m. stmt_ok F G m a) \<Longrightarrow> stmt_ok F G n (While off c a)"
  by (induction n) (rule while_ok; simp)+

lemma dowhile_all: "(\<And>m. stmt_ok F G m a) \<Longrightarrow> stmt_ok F G n (DoWhile off a c)"
  by (induction n) (rule dowhile_ok; simp)+

lemma for_all: "(\<And>m. stmt_ok F G m a) \<Longrightarrow> wf_stmt a \<Longrightarrow> off \<notin> for_offsets a \<Longrightarrow> for_ok F G n off e1 e2 e3 a"
  by (induction n) (rule for_loop_ok; simp)+

lemma for_wf: "(wf_stmt a \<Longrightarrow> off \<notin> for_offsets a \<Longrightarrow> stmt_ok F G n (For off e1 e2 e3 a)) \<Longrightarrow> stmt_ok F G n (For off e1 e2 e3 a)"
  by (auto simp: stmt_ok_def)

theorem program_ok:
  fixes F :: "'d fp" and G :: "('d, 'p, 's) lang"
  shows "stmt_ok F G n a" and "rest_ok F G n r" and "cases_ok F G n cs"
proof (induction a and r and cs arbitrary: n and n and n rule: stmt.induct rest.induct case_list.induct)
  case (While off c a)
  show ?case by (rule while_all) (rule While)
next
  case (DoWhile off a c)
  show ?case by (rule dowhile_all) (rule DoWhile)
next
  case (For off e1 e2 e3 a)
  show ?case by (rule for_wf, rule for_stmt_ok, rule for_all [OF For])
qed (simp_all add: simple_ok seq_ok if_ok switch_ok elseif_ok else_ok endif_ok case_ok default_ok endcases_ok)

end
