(* ===== verification/Value_Props.thy ===== *)
theory Value_Props
  imports Value_Laws
begin

text \<open>
  The properties of values and operators.  \<open>int_fp\<close> is what IEEE-754 doubles do on integers: the
  operations round to 53 significant bits; it is the concrete instance of the parameter \<open>fp\<close> in the
  witnesses.
\<close>

subsection \<open>Doubles on integers\<close>

text \<open>The unit in the last of 53 places.\<close>

fun ulp :: "nat \<Rightarrow> nat" where
  "ulp n = (if n < 9007199254740992 then 1 else 2 * ulp (n div 2))"

declare ulp.simps [simp del]

text \<open>Round half to even.\<close>

definition round53 :: "int \<Rightarrow> int" where
  "round53 x =
     (let n = nat \<bar>x\<bar>; u = ulp n; q = n div u; r = n mod u;
          q' = (if 2 * r < u \<or> (2 * r = u \<and> even q) then q else q + 1)
      in sgn x * int (q' * u))"

definition int_fp :: "int fp" where
  "int_fp = \<lparr> d_of_long = (\<lambda>l. round53 (sint l)), d_to_long = word_of_int,
              d_add = (\<lambda>a b. round53 (a + b)), d_sub = (\<lambda>a b. round53 (a - b)),
              d_mul = (\<lambda>a b. round53 (a * b)), d_div = (\<lambda>a b. round53 (c_div a b)),
              d_less = (<), d_le = (\<le>), d_eq = (=),
              d_strtod = (\<lambda>s. case strtol 10 s of (v, n, e) \<Rightarrow> (round53 v, n, e)),
              d_print = (\<lambda>d. print_ld (word_of_int d)) \<rparr>"

subsection \<open>Longs as strings\<close>

text \<open>C25: a long is printed to the string that is read back as the same long, by the conversion and by
  the test for numeric strings; and the block of 19 bytes holds it only between -10^17 and 10^18.\<close>

theorem long_print_parse:
  "convert_to_string F (PLong l) =
     (if - (10 ^ 17) < sint l \<and> sint l < 10 ^ 18 then Some (PString (print_ld l)) else None) \<and>
   convert_to_long F (PString (print_ld l)) = PLong l \<and>
   is_numeric_string F (print_ld l) = Numeric_long l \<and>
   convert_string_to_number F (PString (print_ld l)) = PLong l"
  by (simp add: long_string_fits_iff convert_to_long_def strtol_print c_str_print print_is_numeric)

subsection \<open>Comparison of longs\<close>

lemma sint_diff:
  fixes a b :: "64 word"
  shows "sint (a - b) =
    (if sint a - sint b < LONG_MIN then sint a - sint b + 2 ^ 64
     else if LONG_MAX < sint a - sint b then sint a - sint b - 2 ^ 64 else sint a - sint b)"
proof -
  define d where "d = (if sint a - sint b < LONG_MIN then sint a - sint b + 2 ^ 64
     else if LONG_MAX < sint a - sint b then sint a - sint b - 2 ^ 64 else sint a - sint b)"
  have "(word_of_int (2 ^ 64) :: 64 word) = 0" by simp
  then have "word_of_int d = a - b" by (simp add: d_def)
  moreover have "LONG_MIN \<le> d" "d \<le> LONG_MAX"
    using sint_bounds [of a] sint_bounds [of b] by (auto simp: d_def LONG_MIN_def LONG_MAX_def)
  then have "sint (word_of_int d :: 64 word) = d"
    by (rule sint_of_long)
  ultimately show ?thesis using d_def by simp
qed

lemma order_tests_longs:
  "is_smaller_function F (PLong a) (PLong b) = (SUCCESS, truth (sint (a - b) < 0))"
  "is_greater_function F (PLong a) (PLong b) = (SUCCESS, truth (0 < sint (a - b)))"
  "is_smaller_or_equal_function F (PLong a) (PLong b) = (SUCCESS, truth (sint (a - b) \<le> 0))"
  "is_greater_or_equal_function F (PLong a) (PLong b) = (SUCCESS, truth (0 \<le> sint (a - b)))"
  "is_equal_function F (PLong a) (PLong b) = (SUCCESS, truth (a = b))"
  by (simp_all add: is_smaller_function_def is_greater_function_def is_smaller_or_equal_function_def
      is_greater_or_equal_function_def is_equal_function_def order_test_def compare_function_def)

text \<open>C26: longs are compared by the sign of their wrapped difference: equality is exact, and the order
  operators are right exactly when the difference is a long; otherwise they answer the opposite.\<close>

theorem long_comparison:
  "is_equal_function F (PLong a) (PLong b) = (SUCCESS, truth (a = b)) \<and>
   (let fits = (LONG_MIN \<le> sint a - sint b \<and> sint a - sint b \<le> LONG_MAX) in
    is_smaller_function F (PLong a) (PLong b) = (SUCCESS, truth ((sint a < sint b) = fits)) \<and>
    is_greater_function F (PLong a) (PLong b) = (SUCCESS, truth ((sint b < sint a) = fits)) \<and>
    is_smaller_or_equal_function F (PLong a) (PLong b) = (SUCCESS, truth ((sint a \<le> sint b) = fits)) \<and>
    is_greater_or_equal_function F (PLong a) (PLong b) = (SUCCESS, truth ((sint b \<le> sint a) = fits)))"
  using sint_bounds [of a] sint_bounds [of b]
  unfolding order_tests_longs sint_diff Let_def LONG_MIN_def LONG_MAX_def truth_def by auto

subsection \<open>Overflow of the sum\<close>

lemma add_function_longs: "add_function F (PLong a) (PLong b) = (SUCCESS, add_longs F a b)"
  by (simp add: add_function_def)

lemma ulp_examples:
  "ulp 9223372036854775807 = 1024" "ulp 9223372036854775808 = 2048" "ulp 9223372036854775809 = 2048"
  "n < 10 \<Longrightarrow> ulp n = 1"
  by (simp_all add: ulp.simps)

lemma round53_examples:
  "round53 9223372036854775807 = 9223372036854775808" "round53 (- 9223372036854775808) = - 9223372036854775808"
  "round53 9223372036854775809 = 9223372036854775808" "round53 (- 9223372036854775809) = - 9223372036854775808"
  "round53 1 = 1" "round53 (- 1) = - 1" "round53 5 = 5" "round53 2 = 2" "round53 3 = 3"
  by (simp_all add: round53_def ulp_examples Let_def)

lemma int_fp_long:
  "LONG_MIN \<le> x \<Longrightarrow> x \<le> LONG_MAX \<Longrightarrow> d_of_long int_fp (word_of_int x) = round53 x"
  "d_of_long int_fp (sw :: 64 word) = round53 (sint sw)"
  "d_add int_fp y z = round53 (y + z)" "d_less int_fp y z = (y < z)"
  by (simp_all add: int_fp_def sint_of_long)

text \<open>With IEEE doubles the test for overflow misses \<open>LONG_MAX + 1\<close>, because the conversion of \<open>LONG_MAX\<close> is
  rounded up, and it never sees a negative overflow: the sums wrap.\<close>

lemma sum_overflow_missed:
  "add_function int_fp (PLong (word_of_int LONG_MAX)) (PLong 1) = (SUCCESS, PLong (word_of_int LONG_MIN))"
  "add_function int_fp (PLong (word_of_int LONG_MIN)) (PLong (- 1)) = (SUCCESS, PLong (word_of_int LONG_MAX))"
proof -
  have "d_of_long int_fp (word_of_int LONG_MAX) = 9223372036854775808"
    "d_of_long int_fp (word_of_int LONG_MIN) = - 9223372036854775808" "d_of_long int_fp 1 = 1" "d_of_long int_fp (- 1) = - 1"
    using int_fp_long(1) [of LONG_MAX] int_fp_long(1) [of LONG_MIN] round53_examples
    by (simp_all add: LONG_MAX_def LONG_MIN_def int_fp_long(2))
  moreover have "word_of_int LONG_MAX + 1 = (word_of_int LONG_MIN :: 64 word)" "word_of_int LONG_MIN + - 1 = (word_of_int LONG_MAX :: 64 word)"
    by (simp_all add: LONG_MAX_def LONG_MIN_def)
  ultimately show "add_function int_fp (PLong (word_of_int LONG_MAX)) (PLong 1) = (SUCCESS, PLong (word_of_int LONG_MIN))"
    "add_function int_fp (PLong (word_of_int LONG_MIN)) (PLong (- 1)) = (SUCCESS, PLong (word_of_int LONG_MAX))"
    by (simp_all add: add_function_longs add_longs_def Let_def int_fp_long(3,4) round53_examples)
qed

subsection \<open>Truth values\<close>

text \<open>\<open>or\<close>, \<open>and\<close> and \<open>not\<close> follow the truth of their operands; \<open>xor\<close> instead answers the bitwise
  difference of longs, true whenever two longs differ, even when both are true.\<close>

theorem boolean_operators:
  "boolean_or_function F v w = (SUCCESS, truth (pval_is_true F v \<or> pval_is_true F w)) \<and>
   boolean_and_function F v w = (SUCCESS, truth (pval_is_true F v \<and> pval_is_true F w)) \<and>
   boolean_not_function F v = (SUCCESS, truth (\<not> pval_is_true F v)) \<and>
   boolean_xor_function F (truth a) (truth b) = (SUCCESS, truth (a \<noteq> b)) \<and>
   pval_is_true F (snd (boolean_xor_function F (PLong k) (PLong l))) = (k \<noteq> l)"
proof -
  have "(xor k l = 0) = (k = l)" by (auto simp: bit_eq_iff bit_simps)
  moreover have "boolean_xor_function F (truth a) (truth b) = (SUCCESS, truth (a \<noteq> b))"
    by (cases a; cases b) (simp_all add: boolean_xor_function_def truth_def)
  moreover have "pval_is_true F (snd (boolean_xor_function F (PLong k) (PLong l))) = (xor k l \<noteq> 0)"
    by (simp add: boolean_xor_function_def pval_is_true_def)
  ultimately show ?thesis unfolding boolean_functions by simp
qed

subsection \<open>Strings\<close>

text \<open>The string comparison is the lexicographic order of the bytes, an order in which only equal
  strings compare equal; the one without case is that order on the strings in lower case.\<close>

theorem string_order:
  "(php3_binary_strcmp s t < 0 \<longleftrightarrow> (map uchar s, map uchar t) \<in> lexord {(x, y). x < y}) \<and>
   (php3_binary_strcmp s t = 0 \<longleftrightarrow> s = t) \<and>
   php3_binary_strcmp t s = - php3_binary_strcmp s t \<and>
   php3_binary_strcasecmp s t = php3_binary_strcmp (map tolower s) (map tolower t)"
  using binary_strcmp_less binary_strcmp_0 binary_strcmp_antisym strcasecmp_lower by blast

text \<open>Incrementing a string replaces its last character that does not wrap by the next one of its
  class and wraps those behind it; when all wrap, a character is put in front.  On digits this is the
  successor of the number.\<close>

theorem string_increment:
  assumes "s \<noteq> []"
  shows "((\<exists>p x ys. s = p @ x # ys \<and> \<not> wraps x \<and> (\<forall>y\<in>set ys. wraps y) \<and>
            increment_string s = p @ next_char x # map wrap ys) \<or>
          (\<forall>y\<in>set s. wraps y) \<and> increment_string s = carry_char (class_of (hd s)) # map wrap s) \<and>
         ((\<forall>c\<in>set s. isdigit c) \<longrightarrow>
          (\<forall>c\<in>set (increment_string s). isdigit c) \<and> digits_value 10 (increment_string s) = digits_value 10 s + 1)"
proof (rule conjI)
  show "(\<exists>p x ys. s = p @ x # ys \<and> \<not> wraps x \<and> (\<forall>y\<in>set ys. wraps y) \<and>
            increment_string s = p @ next_char x # map wrap ys) \<or>
         (\<forall>y\<in>set s. wraps y) \<and> increment_string s = carry_char (class_of (hd s)) # map wrap s"
  proof (cases s rule: split_wraps)
    case all
    then show ?thesis using increment_string_cases(2) [of "hd s" "tl s"] assms by simp
  next
    case (some p x ys)
    then show ?thesis using increment_string_cases(1) [OF some(2,3), of p] by blast
  qed
qed (use increment_digits [OF assms] in blast)

theorem string_increment_witness: "digits_value 10 (increment_string ''199'') = digits_value 10 ''199'' + 1"
proof -
  have "\<forall>c\<in>set ''199''. isdigit c" by (simp add: isdigit_def uchar_def)
  then show ?thesis using string_increment [of "''199''"] by blast
qed

subsection \<open>Arrays\<close>

lemma od_add_new_map: "map_of (fst (od_add_new e a)) = map_of [e] ++ map_of (fst a)"
proof -
  have "map_of (fst a) (fst e) = None \<longleftrightarrow> fst e \<notin> fst ` set (fst a)" by (rule map_of_eq_None_iff)
  then show ?thesis by (cases e) (auto simp: od_add_new_def map_add_def fun_eq_iff split: option.splits)
qed

lemma od_merge_map: "map_of (fst (od_merge a b)) = map_of (fst b) ++ map_of (fst a)"
proof -
  have "map_of (fst (fold od_add_new es a)) = map_of es ++ map_of (fst a)" for es a
  proof (induction es arbitrary: a)
    case (Cons e es)
    have "map_of (e # es) = map_of es ++ map_of [e]" using map_of_append [of "[e]" es] by simp
    then show ?case using Cons by (simp add: od_add_new_map map_add_assoc del: map_of.simps)
  qed simp
  then show ?thesis by (simp add: od_merge_def)
qed

lemma od_merge_entries:
  "\<exists>es. fst (od_merge a b) = fst a @ es \<and> set es \<subseteq> set (fst b) \<and>
     (distinct (map fst (fst a)) \<longrightarrow> distinct (map fst (fst a @ es)))"
proof -
  have "\<exists>es. fst (fold od_add_new xs a) = fst a @ es \<and> set es \<subseteq> set xs \<and>
     (distinct (map fst (fst a)) \<longrightarrow> distinct (map fst (fst a @ es)))" for xs
  proof (induction xs rule: rev_induct)
    case (snoc e xs)
    then obtain es where es: "fst (fold od_add_new xs a) = fst a @ es" "set es \<subseteq> set xs"
      "distinct (map fst (fst a)) \<longrightarrow> distinct (map fst (fst a @ es))" by blast
    define m where "m = fold od_add_new xs a"
    have f: "fold od_add_new (xs @ [e]) a = od_add_new e m" by (simp add: m_def)
    have es': "fst m = fst a @ es" using es(1) by (simp add: m_def)
    show ?case unfolding f
    proof (cases "fst e \<in> fst ` set (fst a @ es)")
      case True
      then have "od_add_new e m = m" using es' by (simp add: od_add_new_def)
      then show "\<exists>es. fst (od_add_new e m) = fst a @ es \<and> set es \<subseteq> set (xs @ [e]) \<and>
          (distinct (map fst (fst a)) \<longrightarrow> distinct (map fst (fst a @ es)))" using es' es(2,3) by auto
    next
      case False
      then have "fst (od_add_new e m) = fst a @ (es @ [e])" using es' by (simp add: od_add_new_def)
      then show "\<exists>es. fst (od_add_new e m) = fst a @ es \<and> set es \<subseteq> set (xs @ [e]) \<and>
          (distinct (map fst (fst a)) \<longrightarrow> distinct (map fst (fst a @ es)))"
        using es(2,3) False by (intro exI [of _ "es @ [e]"]) auto
    qed
  qed simp
  then show ?thesis by (simp add: od_merge_def)
qed

text \<open>The sum of two arrays is the left one with the entries of the right one whose keys are new
  behind it, each key once: the left value wins.\<close>

theorem array_union:
  assumes "distinct (map fst (fst a))"
  shows "\<exists>es n. add_function F (PArray a) (PArray b) = (SUCCESS, PArray (fst a @ es, n)) \<and>
     set es \<subseteq> set (fst b) \<and> distinct (map fst (fst a @ es)) \<and>
     map_of (fst a @ es) = map_of (fst b) ++ map_of (fst a)"
proof -
  obtain es where es: "fst (od_merge a b) = fst a @ es" "set es \<subseteq> set (fst b)" "distinct (map fst (fst a @ es))"
    using od_merge_entries [of a b] assms by blast
  have "add_function F (PArray a) (PArray b) = (SUCCESS, PArray (fst a @ es, snd (od_merge a b)))"
    using es(1) by (simp add: add_function_def prod_eq_iff)
  then show ?thesis using es od_merge_map [of a b] by auto
qed

theorem array_union_witness:
  "snd (add_function int_fp (PArray ([(KIdx 0, PLong 1)], 1)) (PArray ([(KIdx 0, PLong 7), (KIdx 1, PLong 8)], 2)))
     = PArray ([(KIdx 0, PLong 1), (KIdx 1, PLong 8)], 2) \<and>
   (\<exists>es n. add_function int_fp (PArray ([(KIdx 0, PLong 1)], 1)) (PArray ([(KIdx 0, PLong 7), (KIdx 1, PLong 8)], 2))
     = (SUCCESS, PArray ([(KIdx 0, PLong 1)] @ es, n)))"
  using array_union [of "([(KIdx 0, PLong 1)], 1)" int_fp "([(KIdx 0, PLong 7), (KIdx 1, PLong 8)], 2)"]
  by (auto simp: add_function_def od_merge_def od_add_new_def od_bump_def)

end
