(* ===== verification/Control_Props.thy ===== *)
theory Control_Props
  imports Control_Switch Value_Props
begin

text \<open>
  The properties of the control structures: the parser's actions implement the structured semantics,
  skipped code has no effect, the stacks are balanced, and what bounds the number of iterations.
\<close>

subsection \<open>An instance\<close>

text \<open>
  Programs over one counter: operator 0 reads it, operator 1 counts down, the others are constants.
\<close>

definition count_lang :: "(int, nat, nat) lang" where
  "count_lang = \<lparr>psem = (\<lambda>p vs s. if p = 0 then (PLong (of_nat s), s) else if p = 1 then (PLong (of_nat s), s - 1)
      else (PLong (of_nat p - 2), s)), unset = (\<lambda>e g. PLong 0)\<rparr>"

definition count_engine :: "nat \<Rightarrow> (int, nat) engine" where
  "count_engine k = \<lparr>css = [EXECUTE], ExecuteFlag = EXECUTE, Execute = True,
     fstate = \<lparr>loop_nest_level = 0, loop_change_type = DO_NOTHING, loop_change_level = 0, returned = False,
       function_name = Some ''f''\<rparr>,
     for_stack = [], switch_stack = [], return_value = PLong 0, loop_tokens = (\<lambda>_. WHILE), switched = (\<lambda>_. False),
     sought = None, store = k\<rparr>"

text \<open>Counting down with a break at one, inside a \<open>switch\<close> in a \<open>for\<close>, and returning the counter.\<close>

definition count_prog :: "nat stmt" where
  "count_prog = Seq
     (For 3 [] [App 0 []] [App 1 []]
       (Switch 9 (App 0 []) (Case (App 3 []) (Break (Some (App 4 []))) (Default Empty))))
     (Return (Some (App 0 [])))"

lemma count_running: "running (count_engine k) 0 k"
  by (simp add: running_def count_engine_def)

lemma count_wf: "wf_stmt count_prog" "not_running (for_offsets count_prog) (count_engine k)"
  by (simp_all add: count_prog_def not_running_def count_engine_def)

lemma pval_long_true: "pval_is_true F (PLong i) \<longleftrightarrow> i \<noteq> 0"
  by (simp add: pval_is_true_def)

lemma pval_long_equal: "pval_is_true F (snd (is_equal_function F (PLong i) (PLong j))) \<longleftrightarrow> i = j"
  by (simp add: order_tests_longs)

lemma count_run: "run_stmt int_fp count_lang 3 0 count_prog 3 = Ran (Ret (PLong 1), 1)"
  by (simp add: count_prog_def count_lang_def ev_list_def ev_opt_def pval_long_true pval_long_equal
      change_outcome_def change_level_def convert_to_long_def numeral_3_eq_3 loop_next_def switch_next_def
      int_of_long_def)

subsection \<open>Outcomes\<close>

text \<open>A break or continue is for a loop or switch around the statement.\<close>

definition level_ok :: "int \<Rightarrow> 'd outcome \<Rightarrow> bool" where
  "level_ok L r = (case r of Brk k \<Rightarrow> 1 \<le> k \<and> k \<le> L | Cnt k \<Rightarrow> 1 \<le> k \<and> k \<le> L | _ \<Rightarrow> True)"

lemma level_ok_simps [simp]:
  "level_ok L Normal" "level_ok L (Ret v)" "level_ok L (Brk k) \<longleftrightarrow> 1 \<le> k \<and> k \<le> L" "level_ok L (Cnt k) \<longleftrightarrow> 1 \<le> k \<and> k \<le> L"
  by (simp_all add: level_ok_def)

lemma level_loop: "level_ok (L + 1) r \<Longrightarrow> loop_next (L + 1) r = Some r' \<Longrightarrow> level_ok L r'"
  by (cases r) (auto simp: loop_next_def split: if_splits)

lemma level_switch: "level_ok (L + 1) r \<Longrightarrow> level_ok L (switch_next (L + 1) r)"
  by (cases r) (auto simp: switch_next_def)

lemma level_change: "change_outcome F L v Brk s = Ran (r, s') \<Longrightarrow> level_ok L r"
  "change_outcome F L v Cnt s = Ran (r, s') \<Longrightarrow> level_ok L r"
  by (auto simp: change_outcome_def Let_def split: if_splits)

lemma loop_levels:
  assumes "then_run spec (\<lambda>(r, s2). case loop_next (L + 1) r of None \<Rightarrow> tail s2 | Some r' \<Rightarrow> Ran (r', s2)) = Ran (out, s')"
    and "\<And>r s2. spec = Ran (r, s2) \<Longrightarrow> level_ok (L + 1) r"
    and "\<And>r s2. spec = Ran (r, s2) \<Longrightarrow> loop_next (L + 1) r = None \<Longrightarrow> tail s2 = Ran (out, s') \<Longrightarrow> level_ok L out"
  shows "level_ok L out"
proof -
  obtain r s2 where r: "spec = Ran (r, s2)"
    "(case loop_next (L + 1) r of None \<Rightarrow> tail s2 | Some r' \<Rightarrow> Ran (r', s2)) = Ran (out, s')"
    using assms(1) by (auto simp: then_run_Ran)
  then show ?thesis
    using assms(2) [OF r(1)] assms(3) [OF r(1)] level_loop by (cases "loop_next (L + 1) r") auto
qed

lemma back_Ran: "(case n of 0 \<Rightarrow> Timeout | Suc m \<Rightarrow> X m) = Ran y \<longleftrightarrow> (\<exists>m. n = Suc m \<and> X m = Ran y)"
  by (cases n) simp_all

lemma outcome_levels:
  "run_stmt F G n L a s = Ran (r, s') \<Longrightarrow> level_ok L r"
  "run_rest F G n L rs s = Ran (r, s') \<Longrightarrow> level_ok L r"
  "run_cases F G n L v m cs s = Ran (r, s') \<Longrightarrow> level_ok L r"
  "run_for F G n L e2 e3 a s = Ran (r, s') \<Longrightarrow> level_ok L r"
proof (induction F G n L a s and F G n L rs s and F G n L v m cs s and F G n L e2 e3 a s arbitrary: r s' and r s' and r s' and r s'
    rule: run_stmt_run_rest_run_cases_run_for.induct)
  case (2 F G n L a b s)
  then show ?case by (auto simp: then_run_Ran split: if_splits)
next
  case (5 F G n L off c a s)
  obtain v s1 where v: "ev F G c s = (v, s1)" by force
  show ?case
  proof (cases "pval_is_true F v")
    case True
    have "then_run (run_stmt F G n (L + 1) a s1) (\<lambda>(r, s2). case loop_next (L + 1) r of
        None \<Rightarrow> (case n of 0 \<Rightarrow> Timeout | Suc m \<Rightarrow> run_stmt F G m L (While off c a) s2) | Some r' \<Rightarrow> Ran (r', s2)) = Ran (r, s')"
      using 5(3) v True by simp
    then show ?thesis
      by (rule loop_levels) (auto simp: back_Ran intro: 5(1) [OF v [symmetric] refl True] 5(2) [OF v [symmetric] refl True])
  next
    case False
    then show ?thesis using 5(3) v by simp
  qed
next
  case (6 F G n L off a c s)
  have "then_run (run_stmt F G n (L + 1) a s) (\<lambda>(r, s2). case loop_next (L + 1) r of
      None \<Rightarrow> (let (v, s3) = ev F G c s2 in if pval_is_true F v
        then (case n of 0 \<Rightarrow> Timeout | Suc m \<Rightarrow> run_stmt F G m L (DoWhile off a c) s3) else Ran (Normal, s3))
    | Some r' \<Rightarrow> Ran (r', s2)) = Ran (r, s')" using 6(3) by simp
  then show ?case
    by (rule loop_levels) (auto simp: back_Ran Let_def case_prod_beta intro: 6(1) 6(2) [OF _ refl prod.collapse] split: if_splits)
next
  case (8 F G n L off e cs s)
  then show ?case by (fastforce simp: then_run_Ran level_switch split: prod.splits)
next
  case (15 F G n L v m c a cs s)
  then show ?case by (auto simp: then_run_Ran split: prod.splits if_splits)
next
  case (18 F G n L e2 e3 a s)
  obtain v s1 where v: "ev_list F G e2 s = (v, s1)" by force
  show ?case
  proof (cases "pval_is_true F v")
    case True
    have "then_run (run_stmt F G n (L + 1) a s1) (\<lambda>(r, s2). case loop_next (L + 1) r of
        None \<Rightarrow> (case n of 0 \<Rightarrow> Timeout | Suc m \<Rightarrow> run_for F G m L e2 e3 a (snd (ev_list F G e3 s2)))
      | Some r' \<Rightarrow> Ran (r', s2)) = Ran (r, s')"
      using 18(3) v True by (subst (asm) run_for.simps) simp
    then show ?thesis
      by (rule loop_levels) (auto simp: back_Ran intro: 18(1) [OF v [symmetric] refl True] 18(2) [OF v [symmetric] refl True])
  next
    case False
    then show ?thesis using 18(3) v by simp
  qed
qed (auto simp: level_change split: prod.splits if_splits)

subsection \<open>Fuel\<close>

lemma then_run_more:
  assumes "then_run r f \<noteq> Timeout" "r \<noteq> Timeout \<Longrightarrow> r' = r" "\<And>x. r = Ran x \<Longrightarrow> f x \<noteq> Timeout \<Longrightarrow> f' x = f x"
  shows "then_run r' f' = then_run r f"
  using assms by (cases r) auto

lemma then_run_Timeout: "then_run r f = Timeout \<longleftrightarrow> r = Timeout \<or> (\<exists>x. r = Ran x \<and> f x = Timeout)"
  by (cases r) auto

lemma or_abort_Timeout [simp]: "or_abort r \<noteq> Timeout"
  by (cases r) (simp_all add: or_abort_def)

lemma back_more:
  assumes "n \<le> m" "(if b then (case n of 0 \<Rightarrow> Timeout | Suc k \<Rightarrow> X k) else Y) \<noteq> Timeout"
    and "\<And>k j. b \<Longrightarrow> n = Suc k \<Longrightarrow> X k \<noteq> Timeout \<Longrightarrow> k \<le> j \<Longrightarrow> X j = X k"
  shows "(if b then (case m of 0 \<Rightarrow> Timeout | Suc k \<Rightarrow> X k) else Y) =
    (if b then (case n of 0 \<Rightarrow> Timeout | Suc k \<Rightarrow> X k) else Y)"
proof (cases b)
  case b: True
  obtain k where k: "n = Suc k" "X k \<noteq> Timeout" using assms(2) b by (cases n) simp_all
  then obtain j where j: "m = Suc j" "k \<le> j" using assms(1) by (cases m) simp_all
  show ?thesis using assms(3) [OF b k j(2)] b k(1) j(1) by simp
qed simp

lemma loop_more:
  assumes eq: "\<And>k. loop k = then_run (body k) (\<lambda>x. if b x then (case k of 0 \<Rightarrow> Timeout | Suc j \<Rightarrow> X x j) else Y x)"
    and nt: "loop n \<noteq> Timeout" and le: "n \<le> m"
    and body: "body n \<noteq> Timeout \<Longrightarrow> body m = body n"
    and round: "\<And>x k j. body n = Ran x \<Longrightarrow> b x \<Longrightarrow> n = Suc k \<Longrightarrow> X x k \<noteq> Timeout \<Longrightarrow> k \<le> j \<Longrightarrow> X x j = X x k"
  shows "loop m = loop n"
proof -
  have "then_run (body n) (\<lambda>x. if b x then (case n of 0 \<Rightarrow> Timeout | Suc j \<Rightarrow> X x j) else Y x) \<noteq> Timeout"
    using nt eq [of n] by simp
  then show ?thesis unfolding eq [of n] eq [of m]
  proof (rule then_run_more)
    fix x
    assume x: "body n = Ran x" "(if b x then (case n of 0 \<Rightarrow> Timeout | Suc j \<Rightarrow> X x j) else Y x) \<noteq> Timeout"
    show "(if b x then (case m of 0 \<Rightarrow> Timeout | Suc j \<Rightarrow> X x j) else Y x) =
      (if b x then (case n of 0 \<Rightarrow> Timeout | Suc j \<Rightarrow> X x j) else Y x)"
      by (rule back_more [OF le x(2) round [OF x(1)]])
  qed (rule body)
qed

lemma fuel_more:
  "exec_stmt F G n a g \<noteq> Timeout \<Longrightarrow> n \<le> m \<Longrightarrow> exec_stmt F G m a g = exec_stmt F G n a g"
  "exec_rest F G n r g \<noteq> Timeout \<Longrightarrow> n \<le> m \<Longrightarrow> exec_rest F G m r g = exec_rest F G n r g"
  "exec_cases F G n cs g \<noteq> Timeout \<Longrightarrow> n \<le> m \<Longrightarrow> exec_cases F G m cs g = exec_cases F G n cs g"
proof (induction F G n a g and F G n r g and F G n cs g arbitrary: m and m and m rule: exec_stmt_exec_rest_exec_cases.induct)
  case (2 F G n a b g)
  then show ?case by (auto intro!: then_run_more)
next
  case (4 F G n c a r g)
  obtain v g1 where v: "eval_expr F G c g = (v, g1)" by force
  show ?case using 4(3,4) v
    by (auto intro!: then_run_more 4(1) [OF v [symmetric] refl] 4(2) [OF v [symmetric] refl])
next
  case (5 F G n off c a g)
  obtain v g1 where v: "eval_expr F G c g = (v, g1)" by force
  show ?case
  proof (rule loop_more [where loop = "\<lambda>k. exec_stmt F G k (While off c a) g", OF _ 5(3,4)])
    show "exec_stmt F G k (While off c a) g = then_run (exec_stmt F G k a (cs_start_while F off v g1))
      (\<lambda>x. if goes_back off CONTINUED_WHILE (cs_end_while off x)
        then (case k of 0 \<Rightarrow> Timeout | Suc j \<Rightarrow> exec_stmt F G j (While off c a) (at_token (cs_end_while off x)))
        else Ran (cs_end_while off x))" for k
      by (subst exec_stmt.simps(5)) (simp add: v Let_def del: exec_stmt.simps)
  qed (use 5(1) [OF v [symmetric] refl] 5(2) [OF v [symmetric] refl refl] 5(4) in blast)+
next
  case (6 F G n off a c g)
  define e where "e x = eval_expr F G c (cs_force_eval_do_while x)" for x
  define fin where "fin x = cs_end_do_while F off (fst (e x)) (snd (e x))" for x
  have round: "exec_stmt F G j (DoWhile off a c) (at_token (fin x)) = exec_stmt F G k (DoWhile off a c) (at_token (fin x))"
    if "exec_stmt F G n a (cs_start_do_while off g) = Ran x" "goes_back off CONTINUED_DOWHILE (fin x)" "n = Suc k"
      "exec_stmt F G k (DoWhile off a c) (at_token (fin x)) \<noteq> Timeout" "k \<le> j" for x k j
    by (rule 6(2) [OF refl prod.collapse]) (use that in \<open>simp_all add: fin_def e_def del: exec_stmt.simps\<close>)
  show ?case
  proof (rule loop_more [where loop = "\<lambda>k. exec_stmt F G k (DoWhile off a c) g", OF _ 6(3,4)])
    show "exec_stmt F G k (DoWhile off a c) g = then_run (exec_stmt F G k a (cs_start_do_while off g))
      (\<lambda>x. if goes_back off CONTINUED_DOWHILE (fin x)
        then (case k of 0 \<Rightarrow> Timeout | Suc j \<Rightarrow> exec_stmt F G j (DoWhile off a c) (at_token (fin x)))
        else Ran (fin x))" for k
      unfolding fin_def e_def by (subst exec_stmt.simps(6)) (simp add: Let_def case_prod_beta del: exec_stmt.simps)
  qed (use 6(1) round 6(4) in blast)+
next
  case (7 F G n off e1 e2 e3 a g)
  show ?case
  proof (rule loop_more [where loop = "\<lambda>k. exec_stmt F G k (For off e1 e2 e3 a) g", OF _ 7(3,4)])
    show "exec_stmt F G k (For off e1 e2 e3 a) g = then_run (exec_stmt F G k a (for_header F G off e1 e2 e3 g))
      (\<lambda>x. if goes_back off CONTINUED_FOR (for_post_statement off (switched g off) x)
        then (case k of 0 \<Rightarrow> Timeout | Suc j \<Rightarrow>
          exec_stmt F G j (For off e1 e2 e3 a) (at_token (for_post_statement off (switched g off) x)))
        else Ran (for_post_statement off (switched g off) x))" for k
      by (subst exec_stmt.simps(7)) (simp add: Let_def del: exec_stmt.simps)
  qed (use 7(1) 7(2) [OF refl] 7(4) in blast)+
next
  case (8 F G n off e cs g)
  obtain v g1 where v: "eval_expr F G e g = (v, g1)" by force
  show ?case using 8(2,3) v by (auto intro!: then_run_more 8(1) [OF v [symmetric] refl])
next
  case (12 F G n c a r g)
  obtain v g1 where v: "eval_expr F G c (cs_elseif_start_evaluate g) = (v, g1)" by force
  show ?case using 12(3,4) v
    by (auto intro!: then_run_more 12(1) [OF v [symmetric] refl] 12(2) [OF v [symmetric] refl])
next
  case (15 F G n c a cs g)
  obtain v g1 where v: "eval_expr F G c g = (v, g1)" by force
  show ?case using 15(3,4) v
    by (auto intro!: then_run_more 15(1) [OF v [symmetric] refl] 15(2) [OF v [symmetric] refl])
next
  case (16 F G n a g)
  then show ?case by (auto intro!: then_run_more)
next
  case (13 F G n a g)
  show ?case unfolding exec_rest.simps by (rule 13(1)) (use 13(2,3) in simp_all)
qed simp_all

subsection \<open>The interpreter implements the semantics\<close>

text \<open>C2: a statement that is executed, with the flags, the stacks and the seeking of the interpreter, ends
  with the variables and the outcome that the structured semantics gives it, aborts exactly when the
  semantics does, and leaves every stack and the nesting level as it found them.\<close>

theorem interpreter_refines:
  assumes "running g L s" "wf_stmt a" "not_running (for_offsets a) g"
  shows "agrees (run_stmt F G n L a s) (exec_stmt F G n a g) g"
  by (rule stmt_okD [OF program_ok(1) assms])

theorem interpreter_refines_witness:
  "\<exists>g'. exec_stmt int_fp count_lang 3 count_prog (count_engine 3) = Ran g' \<and> return_value g' = PLong 1 \<and>
     store g' = 1 \<and> css g' = [EXECUTE]"
proof -
  have "agrees (run_stmt int_fp count_lang 3 0 count_prog 3) (exec_stmt int_fp count_lang 3 count_prog (count_engine 3))
    (count_engine 3)"
    by (rule interpreter_refines [OF count_running count_wf])
  then show ?thesis unfolding count_run
    by (auto simp: agrees_def ended_def shows_outcome_def frame_def count_engine_def)
qed

text \<open>C13: at the top of a function body every statement leaves the stacks balanced, no break or continue
  pending and no seek outstanding; code after it is executed unless a return was.\<close>

theorem stacks_balanced:
  assumes "running g 0 s" "wf_stmt a" "not_running (for_offsets a) g" "exec_stmt F G n a g = Ran g'"
  shows "css g' = css g \<and> for_stack g' = for_stack g \<and> switch_stack g' = switch_stack g \<and> sought g' = None \<and>
    loop_nest_level (fstate g') = 0 \<and> loop_change_type (fstate g') = DO_NOTHING \<and> (Execute g' \<longleftrightarrow> \<not> returned (fstate g'))"
proof -
  obtain out s' where o: "run_stmt F G n 0 a s = Ran (out, s')" "ended out s' g g'"
    using stmt_okD [OF program_ok(1) assms(1-3), of F G n] assms(4)
    by (auto simp: agrees_def split: run.splits)
  have "level_ok 0 out" by (rule outcome_levels(1) [OF o(1)])
  then show ?thesis using o(2) assms(1)
    by (cases out) (auto simp: ended_def frame_def running_def shows_outcome_def)
qed

theorem stacks_balanced_witness:
  "\<exists>g'. exec_stmt int_fp count_lang 0 (Return None) (count_engine 5) = Ran g' \<and> css g' = [EXECUTE] \<and> \<not> Execute g'"
proof -
  define g' where "g' = set_flag DONT_EXECUTE ((count_engine 5)\<lparr>return_value := var_reset,
    fstate := (fstate (count_engine 5))\<lparr>returned := True\<rparr>\<rparr>)"
  have e: "exec_stmt int_fp count_lang 0 (Return None) (count_engine 5) = Ran g'"
    by (simp add: eval_opt_def cs_return_def or_abort_def count_engine_def g'_def)
  have "wf_stmt (Return None)" "not_running (for_offsets (Return None)) (count_engine 5)"
    by (simp_all add: not_running_def)
  from stacks_balanced [OF count_running this e] e show ?thesis
    by (auto simp: g'_def count_engine_def)
qed

text \<open>C14: code that is not executed (an untaken branch, the body of a loop that has ended, anything after a
  break or return) changes no variable, no flag and no stack, never seeks and never loops: parsing it
  ends without going back once.\<close>

theorem skipped_code:
  assumes "quiet g" "wf_stmt a" "not_running (for_offsets a) g"
  shows "\<exists>m. exec_stmt F G 0 a g = Ran (g\<lparr>switched := m\<rparr>)"
  by (rule skip_stmt(1) [OF assms(2,1,3)])

theorem skipped_code_witness:
  "\<exists>m. exec_stmt int_fp count_lang 0 count_prog (set_flag DONT_EXECUTE (count_engine 3))
     = Ran ((set_flag DONT_EXECUTE (count_engine 3))\<lparr>switched := m\<rparr>)"
  by (rule skipped_code [OF stop_quiet [OF count_running] count_wf(1)])
    (simp add: not_running_def count_engine_def)

subsection \<open>Termination\<close>

text \<open>The result of a run does not depend on the fuel once there is enough: more fuel gives the same
  result, in any state of the interpreter.\<close>

theorem fuel_irrelevant:
  assumes "exec_stmt F G n a g \<noteq> Timeout" "n \<le> m"
  shows "exec_stmt F G m a g = exec_stmt F G n a g"
  by (rule fuel_more(1) [OF assms])

theorem fuel_irrelevant_witness:
  "exec_stmt int_fp count_lang 7 (Return None) (count_engine 5) = exec_stmt int_fp count_lang 0 (Return None) (count_engine 5)"
  by (rule fuel_irrelevant) (simp_all add: eval_opt_def)

lemma agrees_ends: "agrees spec r g \<Longrightarrow> spec \<noteq> Timeout \<Longrightarrow> r \<noteq> Timeout"
  by (cases spec) (auto simp: agrees_def split: prod.splits)

lemma run_loop_more:
  assumes "\<And>k. loop k = then_run (body k) (\<lambda>(r, s2). case loop_next L r of
      None \<Rightarrow> (if round s2 then (case k of 0 \<Rightarrow> Timeout | Suc j \<Rightarrow> again j s2) else done s2) | Some r' \<Rightarrow> Ran (r', s2))"
    and "loop n \<noteq> Timeout" "n \<le> m"
    and "body n \<noteq> Timeout \<Longrightarrow> body m = body n"
    and "\<And>r s2 j i. body n = Ran (r, s2) \<Longrightarrow> loop_next L r = None \<Longrightarrow> round s2 \<Longrightarrow> n = Suc j \<Longrightarrow>
      again j s2 \<noteq> Timeout \<Longrightarrow> j \<le> i \<Longrightarrow> again i s2 = again j s2"
  shows "loop m = loop n"
proof (cases "body n")
  case Timeout
  then show ?thesis using assms(2) by (simp add: assms(1))
next
  case Aborted
  then show ?thesis using assms(4) by (simp add: assms(1))
next
  case (Ran x)
  obtain r s2 where x: "x = (r, s2)" by force
  then have b: "body n = Ran (r, s2)" "body m = Ran (r, s2)" using Ran assms(4) by simp_all
  show ?thesis
  proof (cases "loop_next L r = None \<and> round s2")
    case True
    then obtain j where j: "n = Suc j" "again j s2 \<noteq> Timeout" using assms(2) b(1) by (cases n) (auto simp: assms(1))
    then obtain i where i: "m = Suc i" "j \<le> i" using assms(3) by (cases m) auto
    then have "again i s2 = again j s2" using assms(5) [OF b(1) _ _ j i(2)] True by simp
    then show ?thesis using b True i(1) j by (simp add: assms(1))
  next
    case False
    then show ?thesis using b by (auto simp: assms(1) split: option.splits)
  qed
qed

lemma normal_then: "(\<lambda>(r, s1). if r = Normal then f s1 else Ran (r, s1)) = (\<lambda>x. if fst x = Normal then f (snd x) else Ran x)"
  by (simp add: fun_eq_iff)

lemma run_more:
  "run_stmt F G n L a s \<noteq> Timeout \<Longrightarrow> n \<le> m \<Longrightarrow> run_stmt F G m L a s = run_stmt F G n L a s"
  "run_rest F G n L rs s \<noteq> Timeout \<Longrightarrow> n \<le> m \<Longrightarrow> run_rest F G m L rs s = run_rest F G n L rs s"
  "run_cases F G n L v mt cs s \<noteq> Timeout \<Longrightarrow> n \<le> m \<Longrightarrow> run_cases F G m L v mt cs s = run_cases F G n L v mt cs s"
  "run_for F G n L e2 e3 a s \<noteq> Timeout \<Longrightarrow> n \<le> m \<Longrightarrow> run_for F G m L e2 e3 a s = run_for F G n L e2 e3 a s"
proof (induction F G n L a s and F G n L rs s and F G n L v mt cs s and F G n L e2 e3 a s
    arbitrary: m and m and m and m rule: run_stmt_run_rest_run_cases_run_for.induct)
  case (2 F G n L a b s)
  have e: "run_stmt F G k L (Seq a b) s = then_run (run_stmt F G k L a s) (\<lambda>x. if fst x = Normal then run_stmt F G k L b (snd x) else Ran x)" for k
    by (simp add: normal_then)
  have "then_run (run_stmt F G n L a s) (\<lambda>x. if fst x = Normal then run_stmt F G n L b (snd x) else Ran x) \<noteq> Timeout"
    using 2(3) unfolding e .
  then show ?case unfolding e
  proof (rule then_run_more)
    show "run_stmt F G n L a s \<noteq> Timeout \<Longrightarrow> run_stmt F G m L a s = run_stmt F G n L a s" by (rule 2(1) [OF _ 2(4)])
    fix x
    assume "run_stmt F G n L a s = Ran x" "(if fst x = Normal then run_stmt F G n L b (snd x) else Ran x) \<noteq> Timeout"
    then show "(if fst x = Normal then run_stmt F G m L b (snd x) else Ran x) = (if fst x = Normal then run_stmt F G n L b (snd x) else Ran x)"
      by (cases "fst x = Normal") (simp_all only: if_True if_False simp_thms 2(2) [OF _ _ 2(4)])
  qed
next
  case (5 F G n L off c a s)
  obtain v s1 where v: "ev F G c s = (v, s1)" by force
  show ?case
  proof (cases "pval_is_true F v")
    case True
    show ?thesis
    proof (rule run_loop_more [where loop = "\<lambda>k. run_stmt F G k L (While off c a) s" and L = "L + 1" and round = "\<lambda>_. True", OF _ 5(3,4)])
      show "run_stmt F G k L (While off c a) s = then_run (run_stmt F G k (L + 1) a s1) (\<lambda>(r, s2). case loop_next (L + 1) r of
          None \<Rightarrow> (if True then (case k of 0 \<Rightarrow> Timeout | Suc j \<Rightarrow> run_stmt F G j L (While off c a) s2) else Timeout)
        | Some r' \<Rightarrow> Ran (r', s2))" for k
        using True by (subst run_stmt.simps(5)) (simp only: v Let_def prod.case if_True)
    qed (use 5(1) [OF v [symmetric] refl True] 5(2) [OF v [symmetric] refl True] 5(4) in blast)+
  next
    case False
    then show ?thesis using v by simp
  qed
next
  case (6 F G n L off a c s)
  show ?case
  proof (rule run_loop_more [where loop = "\<lambda>k. run_stmt F G k L (DoWhile off a c) s" and L = "L + 1"
        and round = "\<lambda>s2. pval_is_true F (fst (ev F G c s2))", OF _ 6(3,4)])
    show "run_stmt F G k L (DoWhile off a c) s = then_run (run_stmt F G k (L + 1) a s) (\<lambda>(r, s2). case loop_next (L + 1) r of
        None \<Rightarrow> (if pval_is_true F (fst (ev F G c s2)) then (case k of 0 \<Rightarrow> Timeout
          | Suc j \<Rightarrow> run_stmt F G j L (DoWhile off a c) (snd (ev F G c s2))) else Ran (Normal, snd (ev F G c s2)))
      | Some r' \<Rightarrow> Ran (r', s2))" for k
      by (subst run_stmt.simps(6)) (simp only: Let_def case_prod_beta)
  qed (use 6(1) 6(2) [OF _ refl prod.collapse] 6(4) in blast)+
next
  case (8 F G n L off e cs s)
  obtain v s1 where v: "ev F G e s = (v, s1)" by force
  have e: "run_stmt F G k L (Switch off e cs) s =
      then_run (run_cases F G k (L + 1) v False cs s1) (\<lambda>(r, s2). Ran (switch_next (L + 1) r, s2))" for k
    by (simp add: v)
  show ?case unfolding e by (rule then_run_more [OF 8(2) [unfolded e]]) (assumption | rule 8(1) [OF v [symmetric] refl _ 8(3)] refl)+
next
  case (15 F G n L v mt c a cs s)
  obtain w s1 where w: "ev F G c s = (w, s1)" by force
  show ?case
  proof (cases "mt \<or> pval_is_true F (snd (is_equal_function F v w))")
    case True
    have e: "run_cases F G k L v mt (Case c a cs) s = then_run (run_stmt F G k L a s1)
        (\<lambda>x. if fst x = Normal then run_cases F G k L v True cs (snd x) else Ran x)" for k
      using True by (simp add: w normal_then)
    have "then_run (run_stmt F G n L a s1) (\<lambda>x. if fst x = Normal then run_cases F G n L v True cs (snd x) else Ran x) \<noteq> Timeout"
      using 15(4) unfolding e .
    then show ?thesis unfolding e
    proof (rule then_run_more)
      show "run_stmt F G n L a s1 \<noteq> Timeout \<Longrightarrow> run_stmt F G m L a s1 = run_stmt F G n L a s1"
        by (rule 15(1) [OF w [symmetric] refl True _ 15(5)])
      fix x
      assume "run_stmt F G n L a s1 = Ran x" "(if fst x = Normal then run_cases F G n L v True cs (snd x) else Ran x) \<noteq> Timeout"
      then show "(if fst x = Normal then run_cases F G m L v True cs (snd x) else Ran x) =
          (if fst x = Normal then run_cases F G n L v True cs (snd x) else Ran x)"
        by (cases "fst x = Normal") (simp_all only: if_True if_False simp_thms 15(2) [OF w [symmetric] refl True _ _ 15(5)])
    qed
  next
    case False
    then show ?thesis using 15(3) [OF w [symmetric] refl False _ 15(5)] 15(4) False by (simp add: w)
  qed
next
  case (18 F G n L e2 e3 a s)
  obtain v s1 where v: "ev_list F G e2 s = (v, s1)" by force
  show ?case
  proof (cases "pval_is_true F v")
    case True
    show ?thesis
    proof (rule run_loop_more [where loop = "\<lambda>k. run_for F G k L e2 e3 a s" and L = "L + 1" and round = "\<lambda>_. True", OF _ 18(3,4)])
      show "run_for F G k L e2 e3 a s = then_run (run_stmt F G k (L + 1) a s1) (\<lambda>(r, s2). case loop_next (L + 1) r of
          None \<Rightarrow> (if True then (case k of 0 \<Rightarrow> Timeout | Suc j \<Rightarrow> run_for F G j L e2 e3 a (snd (ev_list F G e3 s2))) else Timeout)
        | Some r' \<Rightarrow> Ran (r', s2))" for k
        using True by (subst run_for.simps) (simp only: v Let_def prod.case if_True)
    qed (use 18(1) [OF v [symmetric] refl True] 18(2) [OF v [symmetric] refl True] 18(4) in blast)+
  next
    case False
    then show ?thesis using v by (subst (1 2) run_for.simps) simp
  qed
next
  case (4 F G n L c a r s)
  obtain v s1 where v: "ev F G c s = (v, s1)" by force
  show ?case using 4(3) 4(1) [OF v [symmetric] refl _ _ 4(4)] 4(2) [OF v [symmetric] refl _ _ 4(4)] v by (cases "pval_is_true F v") simp_all
next
  case (12 F G n L c a r s)
  obtain v s1 where v: "ev F G c s = (v, s1)" by force
  show ?case using 12(3) 12(1) [OF v [symmetric] refl _ _ 12(4)] 12(2) [OF v [symmetric] refl _ _ 12(4)] v by (cases "pval_is_true F v") simp_all
next
  case (7 F G n L off e1 e2 e3 a s)
  show ?case unfolding run_stmt.simps(7) by (rule 7(1) [OF 7(2) [unfolded run_stmt.simps(7)] 7(3)])
next
  case (13 F G n L a s)
  show ?case unfolding run_rest.simps by (rule 13(1) [OF 13(2) [unfolded run_rest.simps] 13(3)])
next
  case (16 F G n L v mt a s)
  show ?case unfolding run_cases.simps by (rule 16(1) [OF 16(2) [unfolded run_cases.simps] 16(3)])
qed (simp_all only: run_stmt.simps run_rest.simps run_cases.simps)

lemma while_ends_with:
  assumes body: "\<And>s s1 v. I s \<Longrightarrow> ev F G c s = (v, s1) \<Longrightarrow> pval_is_true F v \<Longrightarrow> run_stmt F G k (L + 1) a s1 \<noteq> Timeout"
    and dec: "\<And>s s1 v out s2. I s \<Longrightarrow> ev F G c s = (v, s1) \<Longrightarrow> pval_is_true F v \<Longrightarrow>
      run_stmt F G k (L + 1) a s1 = Ran (out, s2) \<Longrightarrow> loop_next (L + 1) out = None \<Longrightarrow> I s2 \<and> \<mu> s2 < (\<mu> s :: nat)"
  shows "I s \<Longrightarrow> \<mu> s + k \<le> n \<Longrightarrow> run_stmt F G n L (While off c a) s \<noteq> Timeout"
proof (induction "\<mu> s" arbitrary: s n rule: less_induct)
  case less
  obtain v s1 where v: "ev F G c s = (v, s1)" by force
  show ?case
  proof (cases "pval_is_true F v")
    case True
    have k: "run_stmt F G k (L + 1) a s1 \<noteq> Timeout" by (rule body [OF less.prems(1) v True])
    have n: "run_stmt F G n (L + 1) a s1 = run_stmt F G k (L + 1) a s1" by (rule run_more(1) [OF k]) (use less.prems(2) in simp)
    have "(case n of 0 \<Rightarrow> Timeout | Suc m \<Rightarrow> run_stmt F G m L (While off c a) s2) \<noteq> Timeout"
      if "run_stmt F G k (L + 1) a s1 = Ran (out, s2)" "loop_next (L + 1) out = None" for out s2
    proof -
      have "I s2" "\<mu> s2 < \<mu> s" using dec [OF less.prems(1) v True that] by simp_all
      moreover from this obtain m where "n = Suc m" "\<mu> s2 + k \<le> m" using less.prems(2) by (cases n) auto
      ultimately show ?thesis using less.hyps [of s2 m] by simp
    qed
    then have "then_run (run_stmt F G n (L + 1) a s1) (\<lambda>(r, s2). case loop_next (L + 1) r of
        None \<Rightarrow> (case n of 0 \<Rightarrow> Timeout | Suc m \<Rightarrow> run_stmt F G m L (While off c a) s2) | Some r' \<Rightarrow> Ran (r', s2)) \<noteq> Timeout"
      using k unfolding n by (auto simp: then_run_Timeout split: option.splits)
    then show ?thesis using True by (subst run_stmt.simps(5)) (simp only: v Let_def prod.case if_True not_False_eq_True)
  next
    case False
    then show ?thesis using v by simp
  qed
qed

text \<open>C15: a \<open>while\<close> loop ends in the interpreter when every run of its body ends, going round the loops in it at
  most \<open>k\<close> times, and a measure of the variables decreases with every further iteration: with the measure plus
  \<open>k\<close> iterations it does not run out.  The body is any statement, with loops of its own.\<close>

theorem while_terminates:
  fixes \<mu> :: "'s \<Rightarrow> nat"
  assumes "running g L s" "wf_stmt a" "not_running (for_offsets a) g" "I s"
    and "\<And>s s1 v. I s \<Longrightarrow> ev F G c s = (v, s1) \<Longrightarrow> pval_is_true F v \<Longrightarrow> run_stmt F G k (L + 1) a s1 \<noteq> Timeout"
    and "\<And>s s1 v out s2. I s \<Longrightarrow> ev F G c s = (v, s1) \<Longrightarrow> pval_is_true F v \<Longrightarrow>
      run_stmt F G k (L + 1) a s1 = Ran (out, s2) \<Longrightarrow> loop_next (L + 1) out = None \<Longrightarrow> I s2 \<and> \<mu> s2 < \<mu> s"
  shows "exec_stmt F G (\<mu> s + k) (While off c a) g \<noteq> Timeout"
proof (rule agrees_ends)
  show "agrees (run_stmt F G (\<mu> s + k) L (While off c a) s) (exec_stmt F G (\<mu> s + k) (While off c a) g) g"
    by (rule stmt_okD [OF program_ok(1) assms(1)]) (use assms(2,3) in simp_all)
  show "run_stmt F G (\<mu> s + k) L (While off c a) s \<noteq> Timeout"
    by (rule while_ends_with [where I = I and \<mu> = \<mu>, OF assms(5,6,4) order_refl])
qed

theorem while_terminates_witness:
  "exec_stmt int_fp count_lang (1000 + 1) (While 7 (App 0 []) (Seq (Expr (App 1 [])) (While 8 (App 0 []) (Break None)))) (count_engine 1000) \<noteq> Timeout"
proof (rule while_terminates [where \<mu> = "\<lambda>s. s" and L = 0 and I = "\<lambda>_. True"])
  show "running (count_engine 1000) 0 1000" by (rule count_running)
  fix s s1 s2 :: nat and v out
  assume v: "ev int_fp count_lang (App 0 []) s = (v, s1)" "pval_is_true int_fp v"
  show "run_stmt int_fp count_lang 1 (0 + 1) (Seq (Expr (App 1 [])) (While 8 (App 0 []) (Break None))) s1 \<noteq> Timeout"
    by (simp add: ev_opt_def change_outcome_def change_level_def int_exact loop_next_def Let_def split: prod.split)
  assume "run_stmt int_fp count_lang 1 (0 + 1) (Seq (Expr (App 1 [])) (While 8 (App 0 []) (Break None))) s1 = Ran (out, s2)"
  then show "True \<and> s2 < s"
    using v by (cases "s = 0") (auto simp: count_lang_def pval_long_true ev_opt_def change_outcome_def change_level_def int_exact loop_next_def Let_def split: prod.splits if_splits)
qed (simp_all add: not_running_def)

subsection \<open>Liveness\<close>

text \<open>C9: whenever the structured semantics of a statement ends, the interpreter ends: there is a number of
  iterations from which on it returns the state of that outcome, always the same.\<close>

theorem interpreter_ends:
  assumes "running g L s" "wf_stmt a" "not_running (for_offsets a) g" "\<exists>n. run_stmt F G n L a s = Ran (out, s')"
  shows "\<exists>n g'. ended out s' g g' \<and> (\<forall>m. n \<le> m \<longrightarrow> exec_stmt F G m a g = Ran g')"
proof -
  obtain n where "run_stmt F G n L a s = Ran (out, s')" using assms(4) by blast
  then obtain g' where g': "exec_stmt F G n a g = Ran g'" "ended out s' g g'"
    using stmt_okD [OF program_ok(1) assms(1-3), of F G n] by (auto simp: agrees_def)
  then have "exec_stmt F G m a g = Ran g'" if "n \<le> m" for m using fuel_more(1) [of F G n a g m] that by simp
  then show ?thesis using g'(2) by blast
qed

theorem interpreter_ends_witness:
  "\<exists>n g'. ended (Ret (PLong 1)) 1 (count_engine 3) g' \<and>
     (\<forall>m. n \<le> m \<longrightarrow> exec_stmt int_fp count_lang m count_prog (count_engine 3) = Ran g')"
  by (rule interpreter_ends [OF count_running count_wf]) (rule exI [of _ 3], rule count_run)

subsection \<open>Levels\<close>

lemma mod_sint: "sint (w :: 64 word) mod 4294967296 = uint w mod 4294967296"
proof -
  have "uint w = sint w mod 18446744073709551616" by (simp add: uint_sint take_bit_eq_mod)
  then show ?thesis by (simp add: mod_mod_cancel)
qed

lemma level_wraps: "change_level F L (Some (PLong (i + 4294967296))) = change_level F L (Some (PLong i))"
proof -
  have "uint (w - 4294967296) mod 4294967296 = uint w mod 4294967296" for w :: "64 word"
    by (simp add: uint_word_ariths mod_mod_cancel)
  then have "int_of_long (sint (w - 4294967296)) = int_of_long (sint w)" for w :: "64 word"
    by (simp add: int_of_long_def mod_sint)
  from this [of "word_of_int L - i + 1"] show ?thesis
    by (simp add: change_level_def convert_to_long_def algebra_simps)
qed

lemma level_exact:
  assumes "- 2147483648 \<le> L - sint i + 1" "L - sint i + 1 < 2147483648"
  shows "change_level F L (Some (PLong i)) = L - sint i + 1"
proof -
  have "(word_of_int L - i + 1 :: 64 word) = word_of_int (L - sint i + 1)" by simp
  also have "sint \<dots> = L - sint i + 1" using assms by (intro sint_of_long) (simp_all add: LONG_MIN_def LONG_MAX_def)
  finally show ?thesis using assms
    by (simp add: change_level_def convert_to_long_def int_exact)
qed

text \<open>C27: \<open>break\<close> with a level aborts the script exactly when the level is not between 1 and the nesting level;
  otherwise it stops execution and names the loop that many levels out.  The level is read modulo 2^32:
  a long of 2^32 + 1 is accepted as a 1.\<close>

theorem break_level:
  assumes "running g L s" "ev F G e s = (PLong i, s1)" "\<bar>L\<bar> < 1073741824" "\<bar>sint i\<bar> < 1073741824"
  shows "(exec_stmt F G n (Break (Some e)) g = Aborted \<longleftrightarrow> sint i < 1 \<or> L < sint i) \<and>
    (1 \<le> sint i \<and> sint i \<le> L \<longrightarrow>
      (\<exists>g'. exec_stmt F G n (Break (Some e)) g = Ran g' \<and> \<not> Execute g' \<and> loop_change_type (fstate g') = DO_BREAK \<and>
        loop_change_level (fstate g') = L - sint i + 1)) \<and>
    change_level F L (Some (PLong (i + 4294967296))) = change_level F L (Some (PLong i))"
proof -
  note x = run_eval [OF assms(1,2)]
  have k: "change_level F L (Some (PLong i)) = L - sint i + 1" by (rule level_exact) (use assms(3,4) in linarith)+
  have "Execute g" "loop_nest_level (fstate g) = L" using assms(1) by (simp_all add: running_def)
  then show ?thesis using x(1) k level_wraps [of F L i]
    by (auto simp: eval_opt_def cs_break_continue_def or_abort_def Let_def)
qed

theorem break_level_witness:
  "exec_stmt int_fp count_lang 0 (Break (Some (App 3 []))) (count_engine 5) = Aborted \<and>
   change_level int_fp 1 (Some (PLong 4294967297)) = 1"
proof -
  have e: "ev int_fp count_lang (App 3 []) 5 = (PLong 1, 5)" by (simp add: count_lang_def)
  note b = break_level [OF count_running e, of 0]
  have "change_level int_fp 1 (Some (PLong 1)) = 1" by (subst level_exact) simp_all
  then show ?thesis using b level_wraps [of int_fp 1 1] by simp
qed

end
