(* ===== verification/Variables.thy ===== *)
theory Variables
  imports Operators
begin

text \<open>
  Variables: the pointers to them that the parser keeps, arrays of any depth, references.  This models
  variables.c and the part of control_structures_inline.h on arrays, global variables and parameters.

  Here memory matters, because a pointer outlives the operation that made it.  The \<open>pval\<close> of a variable
  or of an array element is a cell with an address; a \<open>HashTable\<close> has a number.  A cell of an array lives
  in a bucket of the array's table, so that the array's value holds it.  A variable's cell belongs to the
  symbol table that has it (\<open>Own\<close>); other symbol tables may point to it (\<open>Ref\<close>).  A hash table is the ordered
  list of its entries and its next free index (\<open>Hash_Spec\<close>).  \<open>None\<close> is a bad access.
\<close>

subsection \<open>The state\<close>

text \<open>
  The code tells three empty strings apart: \<open>empty_string\<close>, \<open>undefined_variable_string\<close> and a block of its
  own with nothing but the final NUL.  The numbers in a value that is not stored have no meaning.
\<close>

datatype 'd val =
    VLong "64 word"
  | VDouble 'd
  | VString string
  | VEmpty
  | VUndef
  | VNull
  | VArray nat "(hkey \<times> nat \<times> 'd val) list" ulong
  | VObject nat "(hkey \<times> nat \<times> 'd val) list" ulong
  | VFunction nat

type_synonym 'd elems = "(hkey \<times> nat \<times> 'd val) list"

datatype binding = Own nat | Ref nat

record symtab =
  names :: "(hkey \<times> binding) list"
  next_free :: ulong

text \<open>What is recorded of an entry that was made so that it may be assigned to (\<open>variable_tracker\<close>).\<close>

datatype tracker = Track_string nat string | Track_long nat int

datatype notice = Uninitialized | Uninitialized_name string | Uninitialized_index int | Warning string

text \<open>
  \<open>cells\<close> holds the variables' own cells, each with its name; \<open>trackers\<close> is \<open>variable_unassign_stack\<close>.
  The fields from \<open>function_name\<close> on are those of \<open>function_state\<close>: the function that runs, the tables of the
  static variables of the functions, the table of the arguments of the call that is parsed, how its
  function takes them (\<open>func_arg_types\<close>) and whether it will be called.
\<close>

record 'd vars =
  symtabs :: "(nat \<times> symtab) list"
  cells :: "'d elems"
  active_table :: nat
  globals_table :: nat
  function_name :: "string option"
  statics :: "(string \<times> nat) list"
  call_table :: nat
  call_types :: "nat list"
  call_ok :: bool
  param_index :: ulong
  trackers :: "tracker list"
  array_ptr :: "nat option"
  array_ptr_write :: bool
  fresh :: nat
  notices :: "notice list"

record varptr =
  pvalue :: "nat option"
  string_offset :: int
  array_write :: bool

definition note_that :: "notice \<Rightarrow> 'd vars \<Rightarrow> 'd vars" where
  "note_that m st = st\<lparr>notices := notices st @ [m]\<rparr>"

definition warn :: "string \<Rightarrow> 'd vars \<Rightarrow> 'd vars" where
  "warn s = note_that (Warning s)"

subsection \<open>Values and cells\<close>

text \<open>The value without its addresses.\<close>

fun plain_val :: "'d val \<Rightarrow> 'd pval"
and plain_elems :: "'d elems \<Rightarrow> (hkey \<times> 'd pval) list" where
  "plain_val (VLong w) = PLong w"
| "plain_val (VDouble d) = PDouble d"
| "plain_val (VString s) = PString s"
| "plain_val VEmpty = PString []"
| "plain_val VUndef = PString []"
| "plain_val VNull = PNull"
| "plain_val (VArray t es n) = PArray (plain_elems es, n)"
| "plain_val (VObject t es n) = PObject (plain_elems es, n)"
| "plain_val (VFunction f) = PUserFunction f"
| "plain_elems [] = []"
| "plain_elems ((k, a, v) # es) = (k, plain_val v) # plain_elems es"

text \<open>\<open>pval_copy_constructor\<close>: an empty string becomes \<open>empty_string\<close>, unless it is the undefined one.\<close>

fun pval_copy_constructor :: "'d val \<Rightarrow> 'd val"
and hash_copy :: "'d elems \<Rightarrow> 'd elems" where
  "pval_copy_constructor (VString s) = (if s = [] then VEmpty else VString s)"
| "pval_copy_constructor (VArray t es n) = VArray t (hash_copy es) n"
| "pval_copy_constructor (VObject t es n) = VObject t (hash_copy es) n"
| "pval_copy_constructor v = v"
| "hash_copy [] = []"
| "hash_copy ((k, a, v) # es) = (k, a, pval_copy_constructor v) # hash_copy es"

text \<open>A value that is stored gets addresses of its own, from \<open>n\<close> on.\<close>

fun place :: "'d val \<Rightarrow> nat \<Rightarrow> 'd val \<times> nat"
and place_elems :: "'d elems \<Rightarrow> nat \<Rightarrow> 'd elems \<times> nat" where
  "place (VArray t es f) n = (let (es', m) = place_elems es (n + 1) in (VArray n es' f, m))"
| "place (VObject t es f) n = (let (es', m) = place_elems es (n + 1) in (VObject n es' f, m))"
| "place v n = (v, n)"
| "place_elems [] n = ([], n)"
| "place_elems ((k, a, v) # es) n =
     (let (v', m) = place v (n + 1); (es', m') = place_elems es m in ((k, n, v') # es', m'))"

text \<open>Reading and writing the cell at an address.\<close>

fun look :: "nat \<Rightarrow> 'd val \<Rightarrow> 'd val option"
and look_elems :: "nat \<Rightarrow> 'd elems \<Rightarrow> 'd val option" where
  "look a (VArray t es n) = look_elems a es"
| "look a (VObject t es n) = look_elems a es"
| "look a _ = None"
| "look_elems a [] = None"
| "look_elems a ((k, b, v) # es) =
     (if a = b then Some v else case look a v of Some w \<Rightarrow> Some w | None \<Rightarrow> look_elems a es)"

fun put :: "nat \<Rightarrow> 'd val \<Rightarrow> 'd val \<Rightarrow> 'd val"
and put_elems :: "nat \<Rightarrow> 'd val \<Rightarrow> 'd elems \<Rightarrow> 'd elems" where
  "put a w (VArray t es n) = VArray t (put_elems a w es) n"
| "put a w (VObject t es n) = VObject t (put_elems a w es) n"
| "put a w v = v"
| "put_elems a w [] = []"
| "put_elems a w ((k, b, v) # es) = (k, b, if a = b then w else put a w v) # put_elems a w es"

definition deref :: "'d vars \<Rightarrow> nat \<Rightarrow> 'd val option" where
  "deref st a = look_elems a (cells st)"

definition set_cell :: "nat \<Rightarrow> 'd val \<Rightarrow> 'd vars \<Rightarrow> 'd vars" where
  "set_cell a w st = st\<lparr>cells := put_elems a w (cells st)\<rparr>"

text \<open>Storing a temporary value in a cell.\<close>

definition store_temp :: "nat \<Rightarrow> 'd val \<Rightarrow> 'd vars \<Rightarrow> 'd vars" where
  "store_temp a v st = (let (w, n) = place v (fresh st) in (set_cell a w st)\<lparr>fresh := n\<rparr>)"

text \<open>\<open>_php3_hash_find\<close> in the table of an array, and \<open>array_init\<close>.\<close>

definition elem_find :: "hkey \<Rightarrow> 'd elems \<Rightarrow> (nat \<times> 'd val) option" where
  "elem_find k es = map_of es k"

definition array_init :: "nat \<Rightarrow> 'd vars \<Rightarrow> 'd vars" where
  "array_init a st = (set_cell a (VArray (fresh st) [] 0) st)\<lparr>fresh := fresh st + 1\<rparr>"

text \<open>Deleting an entry of the array whose table has number \<open>t\<close>.\<close>

fun del_val :: "nat \<Rightarrow> hkey \<Rightarrow> 'd val \<Rightarrow> 'd val"
and del_elems :: "nat \<Rightarrow> hkey \<Rightarrow> 'd elems \<Rightarrow> 'd elems" where
  "del_val t k (VArray u es n) = VArray u (if u = t then od_delete k es else del_elems t k es) n"
| "del_val t k (VObject u es n) = VObject u (if u = t then od_delete k es else del_elems t k es) n"
| "del_val t k v = v"
| "del_elems t k [] = []"
| "del_elems t k ((j, a, v) # es) = (j, a, del_val t k v) # del_elems t k es"

subsection \<open>Symbol tables\<close>

definition name_key :: "string \<Rightarrow> hkey" where
  "name_key s = ckey (s @ [NUL])"

definition slot_addr :: "binding \<Rightarrow> nat" where
  "slot_addr s = (case s of Own a \<Rightarrow> a | Ref a \<Rightarrow> a)"

definition symtab_of :: "'d vars \<Rightarrow> nat \<Rightarrow> symtab" where
  "symtab_of st t = (case map_of (symtabs st) t of Some y \<Rightarrow> y | None \<Rightarrow> \<lparr>names = [], next_free = 0\<rparr>)"

definition set_symtab :: "nat \<Rightarrow> symtab \<Rightarrow> 'd vars \<Rightarrow> 'd vars" where
  "set_symtab t y st = st\<lparr>symtabs := map (\<lambda>(u, z). (u, if u = t then y else z)) (symtabs st)\<rparr>"

definition sym_find :: "'d vars \<Rightarrow> nat \<Rightarrow> hkey \<Rightarrow> nat option" where
  "sym_find st t k = map_option slot_addr (map_of (names (symtab_of st t)) k)"

text \<open>The cell of an entry is freed with it, unless the entry is a pointer.\<close>

definition free_slot :: "binding option \<Rightarrow> 'd vars \<Rightarrow> 'd vars" where
  "free_slot s st = (case s of Some (Own a) \<Rightarrow> st\<lparr>cells := filter (\<lambda>(_, b, _). b \<noteq> a) (cells st)\<rparr> | _ \<Rightarrow> st)"

text \<open>
  \<open>_php3_hash_update\<close> of a symbol table with a value, giving the address of the cell.  An entry that is a
  pointer stays one: the cell it points to is overwritten.
\<close>

definition sym_update :: "nat \<Rightarrow> hkey \<Rightarrow> 'd val \<Rightarrow> 'd vars \<Rightarrow> nat \<times> 'd vars" where
  "sym_update t k v st =
     (let y = symtab_of st t in
      case map_of (names y) k of
        Some s \<Rightarrow> (slot_addr s, store_temp (slot_addr s) v st)
      | None \<Rightarrow> (let a = fresh st;
                    st1 = set_symtab t \<lparr>names = names y @ [(k, Own a)], next_free = od_bump k (next_free y)\<rparr> st
                in (a, store_temp a v (st1\<lparr>cells := cells st1 @ [(k, a, VUndef)], fresh := a + 1\<rparr>))))"

text \<open>\<open>_php3_hash_pointer_update\<close>.\<close>

definition sym_point :: "nat \<Rightarrow> hkey \<Rightarrow> nat \<Rightarrow> 'd vars \<Rightarrow> 'd vars" where
  "sym_point t k a st =
     (let y = symtab_of st t in
      set_symtab t \<lparr>names = od_store k (Ref a) (names y), next_free = od_bump k (next_free y)\<rparr>
        (free_slot (map_of (names y) k) st))"

text \<open>\<open>_php3_hash_del\<close> and \<open>_php3_hash_index_del\<close> of whatever table has number \<open>t\<close>.\<close>

definition table_delete :: "nat \<Rightarrow> hkey \<Rightarrow> 'd vars \<Rightarrow> 'd vars" where
  "table_delete t k st =
     (if t \<in> fst ` set (symtabs st) then
        let y = symtab_of st t in
        set_symtab t (y\<lparr>names := od_delete k (names y)\<rparr>) (free_slot (map_of (names y) k) st)
      else st\<lparr>cells := del_elems t k (cells st)\<rparr>)"

text \<open>The table of number \<open>t\<close> with the cells it owns is destroyed.\<close>

definition symtab_destroy :: "nat \<Rightarrow> 'd vars \<Rightarrow> 'd vars" where
  "symtab_destroy t st =
     (foldl (\<lambda>s e. free_slot (Some (snd e)) s) st (names (symtab_of st t)))
       \<lparr>symtabs := filter (\<lambda>(u, _). u \<noteq> t) (symtabs st)\<rparr>"

end
