(* ===== verification/Var_Ops.thy ===== *)
theory Var_Ops
  imports Variables
begin

text \<open>
  The handlers of variables.c and control_structures_inline.h for variables, in the state of \<open>Variables\<close>.
  A handler gets the semantic values of the grammar as arguments and gives the one it sets; \<open>None\<close> is an
  access to a cell that does not exist, or behind a string.
\<close>

subsection \<open>Array elements\<close>

fun string_of_val :: "'d val \<Rightarrow> string option" where
  "string_of_val (VString s) = Some s"
| "string_of_val VEmpty = Some []"
| "string_of_val VUndef = Some []"
| "string_of_val _ = None"

fun lval_of :: "'d pval \<Rightarrow> 64 word" where
  "lval_of (PLong w) = w"
| "lval_of _ = 0"

text \<open>A new entry in the array of the cell \<open>p\<close>.\<close>

definition new_elem :: "nat \<Rightarrow> hkey \<Rightarrow> 'd vars \<Rightarrow> (nat \<times> 'd vars) option" where
  "new_elem p k st =
     (case deref st p of
        Some (VArray t es n) \<Rightarrow>
          Some (fresh st, (set_cell p (VArray t (es @ [(k, fresh st, VNull)]) (od_bump k n)) st)\<lparr>fresh := fresh st + 1\<rparr>)
      | _ \<Rightarrow> None)"

definition track :: "bool \<Rightarrow> tracker \<Rightarrow> 'd vars \<Rightarrow> 'd vars" where
  "track recorded y st = (if recorded then st else st\<lparr>trackers := y # trackers st\<rparr>)"

definition bad_pointer :: "string \<Rightarrow> varptr \<Rightarrow> 'd vars \<Rightarrow> varptr \<times> 'd vars" where
  "bad_pointer m dim st = (dim\<lparr>pvalue := None\<rparr>, warn m st)"

text \<open>The element with key \<open>k\<close> of the array of the cell \<open>p\<close>, made when it is missing.\<close>

definition fetch_key :: "nat \<Rightarrow> hkey \<Rightarrow> (nat \<Rightarrow> tracker) \<Rightarrow> varptr \<Rightarrow> 'd vars \<Rightarrow> (varptr \<times> 'd vars) option" where
  "fetch_key p k y dim st =
     (case deref st p of
        Some (VArray t es n) \<Rightarrow>
          (case elem_find k es of
             Some (a, v) \<Rightarrow> Some (dim\<lparr>pvalue := Some a\<rparr>, st)
           | None \<Rightarrow> do {
               (a, st1) \<leftarrow> new_elem p k st;
               Some (dim\<lparr>pvalue := Some a, array_write := True\<rparr>, track (array_write dim) (y t) st1) })
      | _ \<Rightarrow> None)"

text \<open>The index as a number is a \<open>long\<close>, but the tracker keeps an \<open>int\<close>.\<close>

definition index_key :: "'d fp \<Rightarrow> 'd val \<Rightarrow> (hkey \<times> (nat \<Rightarrow> tracker)) option" where
  "index_key F e =
     (case e of
        VLong w \<Rightarrow> Some (KIdx w, \<lambda>t. Track_long t (int_of_long (sint w)))
      | VDouble d \<Rightarrow> (let w = lval_of (convert_to_long F (PDouble d)) in
          Some (KIdx w, \<lambda>t. Track_long t (int_of_long (sint w))))
      | _ \<Rightarrow> map_option (\<lambda>s. (name_key s, \<lambda>t. Track_string t s)) (string_of_val e))"

text \<open>
  The next free element.  Its insertion fails when the next free index is taken; then the pointer is
  used although it was not set.
\<close>

definition fetch_next :: "nat \<Rightarrow> varptr \<Rightarrow> 'd vars \<Rightarrow> (varptr \<times> 'd vars) option" where
  "fetch_next p dim st =
     (case deref st p of
        Some (VArray t es n) \<Rightarrow>
          (if elem_find (KIdx n) es \<noteq> None then None
           else do {
             (a, st1) \<leftarrow> new_elem p (KIdx n) st;
             Some (dim\<lparr>pvalue := Some a, array_write := True\<rparr>,
                   track (array_write dim) (Track_long t (int_of_long (uint n))) st1) })
      | _ \<Rightarrow> None)"

definition fetch_element :: "'d fp \<Rightarrow> 'd val option \<Rightarrow> nat \<Rightarrow> varptr \<Rightarrow> 'd vars \<Rightarrow> (varptr \<times> 'd vars) option" where
  "fetch_element F expr p dim st =
     (case expr of
        None \<Rightarrow> fetch_next p dim st
      | Some e \<Rightarrow>
          (case index_key F e of
             Some (k, y) \<Rightarrow> fetch_key p k y dim st
           | None \<Rightarrow> Some (bad_pointer ''Illegal index type'' dim st)))"

definition fetch_string_offset :: "'d fp \<Rightarrow> 'd val option \<Rightarrow> string \<Rightarrow> varptr \<Rightarrow> 'd vars \<Rightarrow> varptr \<times> 'd vars" where
  "fetch_string_offset F expr s dim st =
     (if string_offset dim \<noteq> - 1 then bad_pointer ''Cannot index a string index'' dim st
      else case expr of
        None \<Rightarrow> bad_pointer ''No string index specified'' dim st
      | Some e \<Rightarrow>
          (let i = sint (lval_of (convert_to_long F (plain_val e))) in
           if i < 0 \<or> int (length s) \<le> i then bad_pointer ''Illegal string index'' dim st
           else (dim\<lparr>string_offset := i\<rparr>, st)))"

definition fetch_array_index :: "'d fp \<Rightarrow> 'd val option \<Rightarrow> varptr \<Rightarrow> 'd vars \<Rightarrow> (varptr \<times> 'd vars) option" where
  "fetch_array_index F expr dim st =
     (case pvalue dim of
        None \<Rightarrow> Some (dim, st)
      | Some p \<Rightarrow> do {
          arr \<leftarrow> deref st p;
          case arr of
            VString s \<Rightarrow> Some (fetch_string_offset F expr s dim st)
          | VNull \<Rightarrow> fetch_element F expr p dim (array_init p st)
          | VEmpty \<Rightarrow> fetch_element F expr p dim (array_init p st)
          | VUndef \<Rightarrow> fetch_element F expr p dim (array_init p st)
          | VArray t es n \<Rightarrow> fetch_element F expr p dim st
          | _ \<Rightarrow> Some (bad_pointer ''Index referencing a non-array'' dim st) })"

text \<open>
  The array variable.  Its table is that of the object \<open>class_ptr\<close>, if there is one, or the active symbol
  table.
\<close>

definition object_table :: "varptr \<Rightarrow> 'd vars \<Rightarrow> (nat \<times> nat \<times> 'd elems \<times> ulong) option" where
  "object_table c st =
     (case pvalue c of
        None \<Rightarrow> None
      | Some p \<Rightarrow> (case deref st p of Some (VObject t es n) \<Rightarrow> Some (p, t, es, n) | _ \<Rightarrow> None))"

definition check_array_ptr :: "nat \<Rightarrow> bool \<Rightarrow> 'd vars \<Rightarrow> 'd vars option" where
  "check_array_ptr a w st =
     (case deref st a of
        None \<Rightarrow> None
      | Some v \<Rightarrow>
          (case v of
             VArray t es n \<Rightarrow> Some (st\<lparr>array_ptr := Some a, array_ptr_write := w\<rparr>)
           | VString s \<Rightarrow> Some (st\<lparr>array_ptr := Some a, array_ptr_write := w\<rparr>)
           | VEmpty \<Rightarrow> Some (st\<lparr>array_ptr := Some a, array_ptr_write := w\<rparr>)
           | VUndef \<Rightarrow> Some (st\<lparr>array_ptr := Some a, array_ptr_write := w\<rparr>)
           | _ \<Rightarrow> Some (warn ''Variable is not an array or string'' (st\<lparr>array_ptr := None\<rparr>))))"

definition start_array_parsing :: "'d val \<Rightarrow> varptr option \<Rightarrow> 'd vars \<Rightarrow> 'd vars option" where
  "start_array_parsing array_name class_ptr st =
     (case string_of_val array_name of
        None \<Rightarrow> Some (warn ''Illegal array name'' (st\<lparr>array_ptr := None\<rparr>))
      | Some s \<Rightarrow>
          (case class_ptr of
             None \<Rightarrow>
               (case sym_find st (active_table st) (name_key s) of
                  Some a \<Rightarrow> check_array_ptr a False st
                | None \<Rightarrow>
                    (let (a, st1) = sym_update (active_table st) (name_key s) (VArray 0 [] 0) st
                     in check_array_ptr a True (track False (Track_string (active_table st) s) st1)))
           | Some c \<Rightarrow>
               (if pvalue c = None then Some (st\<lparr>array_ptr := None\<rparr>)
                else do {
                  (p, t, es, n) \<leftarrow> object_table c st;
                  case elem_find (name_key s) es of
                    Some (a, v) \<Rightarrow> check_array_ptr a False st
                  | None \<Rightarrow>
                      (let a = fresh st;
                           st1 = set_cell p (VObject t (es @ [(name_key s, a, VArray (a + 1) [] 0)]) (od_bump (name_key s) n)) st
                       in check_array_ptr a True (track False (Track_string t s) (st1\<lparr>fresh := a + 2\<rparr>))) })))"

text \<open>Without an array the flag is what the semantic value held before.\<close>

definition start_dimensions_parsing :: "varptr \<Rightarrow> 'd vars \<Rightarrow> varptr" where
  "start_dimensions_parsing old st =
     \<lparr>pvalue = array_ptr st, string_offset = - 1,
      array_write = (if array_ptr st \<noteq> None then array_ptr_write st else array_write old)\<rparr>"

definition end_array_parsing :: "varptr \<Rightarrow> 'd vars \<Rightarrow> (varptr \<times> 'd vars) option" where
  "end_array_parsing dim st =
     (case pvalue dim of
        None \<Rightarrow> Some (dim, st)
      | Some p \<Rightarrow> do {
          v \<leftarrow> deref st p;
          case v of VNull \<Rightarrow> Some (dim, set_cell p VEmpty st) | _ \<Rightarrow> Some (dim, st) })"

definition clean_unassigned_variable_top :: "bool \<Rightarrow> 'd vars \<Rightarrow> 'd vars" where
  "clean_unassigned_variable_top delete_var st =
     (case trackers st of
        [] \<Rightarrow> st
      | y # ys \<Rightarrow>
          (let st1 = (if \<not> delete_var then st
                      else case y of Track_long t l \<Rightarrow> table_delete t (KIdx (word_of_int l)) st
                                   | Track_string t s \<Rightarrow> table_delete t (name_key s) st)
           in st1\<lparr>trackers := ys\<rparr>))"

text \<open>A variable with its dimensions, in the order in which the grammar runs the handlers.\<close>

fun fetch_dims :: "'d fp \<Rightarrow> 'd val option list \<Rightarrow> varptr \<Rightarrow> 'd vars \<Rightarrow> (varptr \<times> 'd vars) option" where
  "fetch_dims F [] dim st = Some (dim, st)"
| "fetch_dims F (e # es) dim st = do { (dim1, st1) \<leftarrow> fetch_array_index F e dim st; fetch_dims F es dim1 st1 }"

definition multi_dimensional_array ::
  "'d fp \<Rightarrow> varptr \<Rightarrow> 'd val \<Rightarrow> 'd val option list \<Rightarrow> 'd vars \<Rightarrow> (varptr \<times> 'd vars) option" where
  "multi_dimensional_array F old array_name dims st = do {
     st1 \<leftarrow> start_array_parsing array_name None st;
     (dim, st2) \<leftarrow> fetch_dims F dims (start_dimensions_parsing old st1) st1;
     end_array_parsing dim st2 }"

subsection \<open>Pointers to variables\<close>

text \<open>A pointer to a variable; a missing variable is made, and recorded.\<close>

definition get_regular_variable_pointer :: "varptr \<Rightarrow> 'd val \<Rightarrow> 'd vars \<Rightarrow> varptr \<times> 'd vars" where
  "get_regular_variable_pointer old varname st =
     (case string_of_val varname of
        None \<Rightarrow> bad_pointer ''Illegal variable name'' old st
      | Some s \<Rightarrow>
          (case sym_find st (active_table st) (name_key s) of
             Some a \<Rightarrow> (\<lparr>pvalue = Some a, string_offset = - 1, array_write = False\<rparr>, st)
           | None \<Rightarrow>
               (let (a, st1) = sym_update (active_table st) (name_key s) VUndef st
                in (\<lparr>pvalue = Some a, string_offset = - 1, array_write = True\<rparr>,
                    track False (Track_string (active_table st) s) st1))))"

text \<open>The variable of an assignment, of \<open>unset\<close>, of \<open>isset\<close>: a name, with dimensions or without.\<close>

definition assignment_variable_pointer ::
  "'d fp \<Rightarrow> varptr \<Rightarrow> 'd val \<Rightarrow> 'd val option list \<Rightarrow> 'd vars \<Rightarrow> (varptr \<times> 'd vars) option" where
  "assignment_variable_pointer F old varname dims st =
     (if dims = [] then Some (get_regular_variable_pointer old varname st)
      else multi_dimensional_array F old varname dims st)"

definition get_class_variable_pointer :: "varptr \<Rightarrow> varptr \<Rightarrow> 'd val \<Rightarrow> 'd vars \<Rightarrow> (varptr \<times> 'd vars) option" where
  "get_class_variable_pointer old class_ptr varname st =
     (if pvalue class_ptr = None then Some (old\<lparr>pvalue := None\<rparr>, st)
      else case string_of_val varname of
        None \<Rightarrow> Some (bad_pointer ''Illegal property name'' old st)
      | Some s \<Rightarrow> do {
          (p, t, es, n) \<leftarrow> object_table class_ptr st;
          case elem_find (name_key s) es of
            Some (a, v) \<Rightarrow> Some (\<lparr>pvalue = Some a, string_offset = - 1, array_write = False\<rparr>, st)
          | None \<Rightarrow>
              (let a = fresh st;
                   st1 = set_cell p (VObject t (es @ [(name_key s, a, VEmpty)]) (od_bump (name_key s) n)) st
               in Some (\<lparr>pvalue = Some a, string_offset = - 1, array_write = True\<rparr>,
                        track False (Track_string t s) (st1\<lparr>fresh := a + 1\<rparr>))) })"

text \<open>The object that a chain of names leads to.\<close>

definition get_object_symtable :: "varptr \<Rightarrow> varptr option \<Rightarrow> string \<Rightarrow> 'd vars \<Rightarrow> (varptr \<times> 'd vars) option" where
  "get_object_symtable old parent child st =
     do { found \<leftarrow>
            (case parent of
               None \<Rightarrow> Some (sym_find st (active_table st) (name_key child))
             | Some c \<Rightarrow> do {
                 (p, t, es, n) \<leftarrow> object_table c st;
                 Some (map_option fst (elem_find (name_key child) es)) });
          case found of
            None \<Rightarrow> Some (bad_pointer ''Object not found'' old st)
          | Some a \<Rightarrow> do {
              v \<leftarrow> deref st a;
              case v of VObject t es n \<Rightarrow> Some (old\<lparr>pvalue := Some a\<rparr>, st)
              | _ \<Rightarrow> Some (bad_pointer ''Variable is not an object'' old st) } }"

definition uninitialized :: "'d vars \<Rightarrow> notice" where
  "uninitialized st =
     (case trackers st of
        [] \<Rightarrow> Uninitialized
      | Track_string t s # _ \<Rightarrow> Uninitialized_name s
      | Track_long t l # _ \<Rightarrow> Uninitialized_index l)"

definition is_undef :: "'d val \<Rightarrow> bool" where
  "is_undef v = (case v of VUndef \<Rightarrow> True | _ \<Rightarrow> False)"

definition read_pointer_value :: "varptr \<Rightarrow> 'd vars \<Rightarrow> ('d val \<times> 'd vars) option" where
  "read_pointer_value v st =
     (case pvalue v of
        None \<Rightarrow> Some (VUndef, st)
      | Some a \<Rightarrow> do {
          var \<leftarrow> deref st a;
          if array_write v \<or> is_undef var then
            (let st1 = note_that (uninitialized st) st
             in Some (VUndef, if array_write v then clean_unassigned_variable_top True st1 else st1))
          else if string_offset v = - 1 then Some (pval_copy_constructor var, st)
          else (case var of
                  VString s \<Rightarrow>
                    (if 0 \<le> string_offset v \<and> string_offset v < int (length s)
                     then Some (VString [s ! nat (string_offset v)], st) else None)
                | _ \<Rightarrow> None) })"

subsection \<open>Assignment\<close>

text \<open>
  The assignment of a character of a string writes at the offset found when the index was parsed,
  whatever the variable holds by now.
\<close>

definition assign_offset :: "'d fp \<Rightarrow> nat \<Rightarrow> int \<Rightarrow> 'd val \<Rightarrow> 'd val \<Rightarrow> 'd vars \<Rightarrow> ('d val \<times> 'd vars) option" where
  "assign_offset F a i var expr st = do {
     e \<leftarrow> convert_to_string F (plain_val expr);
     case e of
       PString [] \<Rightarrow> Some (VEmpty, st)
     | PString (c # cs) \<Rightarrow>
         (case var of
            VString s \<Rightarrow>
              (if 0 \<le> i \<and> i < int (length s)
               then Some (VString (c # cs), set_cell a (VString (s[nat i := c])) st) else None)
          | _ \<Rightarrow> None)
     | _ \<Rightarrow> None }"

definition assign_to_variable ::
  "'d fp \<Rightarrow> ('d val \<Rightarrow> 'd val \<Rightarrow> 'd val) option \<Rightarrow> varptr \<Rightarrow> 'd val \<Rightarrow> 'd vars \<Rightarrow> ('d val \<times> 'd vars) option" where
  "assign_to_variable F func var_ptr expr st =
     (case pvalue var_ptr of
        None \<Rightarrow> Some (VUndef, if array_write var_ptr then clean_unassigned_variable_top True st else st)
      | Some a \<Rightarrow> do {
          var \<leftarrow> deref st a;
          let st1 = (if func \<noteq> None \<and> (array_write var_ptr \<or> is_undef var) then note_that (uninitialized st) st else st);
          let st2 = (if array_write var_ptr then clean_unassigned_variable_top False st1 else st1);
          if string_offset var_ptr = - 1 then
            (case func of
               Some f \<Rightarrow> (let r = f var expr in Some (pval_copy_constructor r, store_temp a r st2))
             | None \<Rightarrow> Some (pval_copy_constructor expr, store_temp a expr st2))
          else
            (case func of
               Some f \<Rightarrow> Some (VEmpty, warn ''Only simple assignment supported with string indices'' st2)
             | None \<Rightarrow> assign_offset F a (string_offset var_ptr) var expr st2) })"

text \<open>The assignment of the grammar, its right side being a value.\<close>

definition assignment ::
  "'d fp \<Rightarrow> ('d val \<Rightarrow> 'd val \<Rightarrow> 'd val) option \<Rightarrow> varptr \<Rightarrow> 'd val \<Rightarrow> 'd val option list \<Rightarrow> 'd val \<Rightarrow> 'd vars \<Rightarrow>
    ('d val \<times> 'd vars) option" where
  "assignment F func old varname dims expr st = do {
     (p, st1) \<leftarrow> assignment_variable_pointer F old varname dims st;
     assign_to_variable F func p expr st1 }"

definition incdec_variable :: "('d val \<Rightarrow> 'd val) \<Rightarrow> bool \<Rightarrow> varptr \<Rightarrow> 'd vars \<Rightarrow> ('d val \<times> 'd vars) option" where
  "incdec_variable func post var_ptr st =
     (case pvalue var_ptr of
        None \<Rightarrow> Some (VEmpty, if array_write var_ptr then clean_unassigned_variable_top True st else st)
      | Some a \<Rightarrow> do {
          var \<leftarrow> deref st a;
          let st1 = (if array_write var_ptr \<or> is_undef var then note_that (uninitialized st) st else st);
          let st2 = (if array_write var_ptr then clean_unassigned_variable_top False st1 else st1);
          Some (pval_copy_constructor (if post then var else func var), store_temp a (func var) st2) })"

subsection \<open>unset, isset and empty\<close>

definition php3_unset :: "varptr \<Rightarrow> 'd vars \<Rightarrow> 'd vars option" where
  "php3_unset var_ptr st =
     (if array_write var_ptr then Some (clean_unassigned_variable_top True st)
      else case pvalue var_ptr of
        None \<Rightarrow> Some st
      | Some a \<Rightarrow> do { v \<leftarrow> deref st a; Some (set_cell a VUndef st) })"

definition php3_isset :: "varptr \<Rightarrow> 'd vars \<Rightarrow> (bool \<times> 'd vars) option" where
  "php3_isset var_ptr st =
     (if array_write var_ptr then Some (False, clean_unassigned_variable_top True st)
      else case pvalue var_ptr of
        None \<Rightarrow> Some (False, st)
      | Some a \<Rightarrow> do { v \<leftarrow> deref st a; Some (\<not> is_undef v, st) })"

definition php3_empty :: "'d fp \<Rightarrow> varptr \<Rightarrow> 'd vars \<Rightarrow> (bool \<times> 'd vars) option" where
  "php3_empty F var_ptr st = do {
     (set, st1) \<leftarrow> php3_isset var_ptr st;
     if set then do {
       a \<leftarrow> pvalue var_ptr;
       v \<leftarrow> deref st1 a;
       Some (plain_val v \<noteq> PString ''0'' \<and> \<not> pval_is_true F (plain_val v), st1) }
     else Some (True, st1) }"

subsection \<open>Contents without a pointer\<close>

definition get_regular_variable_contents :: "'d val \<Rightarrow> 'd vars \<Rightarrow> ('d val \<times> 'd vars) option" where
  "get_regular_variable_contents varname st =
     (case string_of_val varname of
        None \<Rightarrow> Some (VEmpty, warn ''Illegal variable name'' st)
      | Some s \<Rightarrow>
          (case sym_find st (active_table st) (name_key s) of
             None \<Rightarrow> Some (VEmpty, note_that (Uninitialized_name s) st)
           | Some a \<Rightarrow> do { v \<leftarrow> deref st a; Some (pval_copy_constructor v, st) }))"

definition get_object_property :: "varptr \<Rightarrow> 'd val \<Rightarrow> 'd vars \<Rightarrow> ('d val \<times> 'd vars) option" where
  "get_object_property class_ptr varname st =
     (if pvalue class_ptr = None then Some (VEmpty, st)
      else case string_of_val varname of
        None \<Rightarrow> Some (VEmpty, warn ''Cannot use a numeric value as a variable name'' st)
      | Some s \<Rightarrow> do {
          (p, t, es, n) \<leftarrow> object_table class_ptr st;
          case elem_find (name_key s) es of
            None \<Rightarrow> Some (VEmpty, note_that (Uninitialized_name s) st)
          | Some (a, v) \<Rightarrow> Some (pval_copy_constructor v, st) })"

text \<open>
  The element of an array for a variable in a string.  The index of a string is only compared with its
  length: a negative one reads in front of it.
\<close>

definition string_element :: "string \<Rightarrow> 64 word \<Rightarrow> 'd vars \<Rightarrow> ('d val \<times> 'd vars) option" where
  "string_element s i st =
     (if int (length s) \<le> sint i then Some (VEmpty, warn ''No such index in string'' st)
      else if sint i < 0 then None
      else Some (VString [s ! nat (sint i)], st))"

definition array_element :: "string \<Rightarrow> hkey \<Rightarrow> 'd elems \<Rightarrow> 'd vars \<Rightarrow> ('d val \<times> 'd vars) option" where
  "array_element s k es st =
     (case elem_find k es of
        None \<Rightarrow> Some (VEmpty, note_that (Uninitialized_name s) st)
      | Some (a, v) \<Rightarrow> Some (pval_copy_constructor v, st))"

definition get_array_variable :: "'d fp \<Rightarrow> string \<Rightarrow> 'd val \<Rightarrow> 'd vars \<Rightarrow> ('d val \<times> 'd vars) option" where
  "get_array_variable F varname index st =
     (case sym_find st (active_table st) (name_key varname) of
        None \<Rightarrow> Some (VEmpty, note_that (Uninitialized_name varname) st)
      | Some a \<Rightarrow> do {
          array \<leftarrow> deref st a;
          let i = (case index of VDouble d \<Rightarrow> VLong (lval_of (convert_to_long F (PDouble d))) | _ \<Rightarrow> index);
          let scalar = (case i of
             VLong w \<Rightarrow>
               (case string_of_val array of
                  Some s \<Rightarrow> string_element s w st
                | None \<Rightarrow> if w = 0 then Some (pval_copy_constructor array, st)
                          else Some (VEmpty, warn ''Using scalar variable as an array or object'' st))
           | _ \<Rightarrow> Some (VEmpty, warn ''Using scalar variable as an array or object'' st));
          let element = (\<lambda>es. case i of
             VLong w \<Rightarrow> array_element varname (KIdx w) es st
           | _ \<Rightarrow> (case string_of_val i of
                     Some s \<Rightarrow> array_element varname (name_key s) es st
                   | None \<Rightarrow> None));
          case array of VArray t es n \<Rightarrow> element es | VObject t es n \<Rightarrow> element es | _ \<Rightarrow> scalar })"

text \<open>\<open>isset\<close>, \<open>empty\<close> and reading of a variable, with dimensions or without.\<close>

definition isset_variable ::
  "'d fp \<Rightarrow> varptr \<Rightarrow> 'd val \<Rightarrow> 'd val option list \<Rightarrow> 'd vars \<Rightarrow> (bool \<times> 'd vars) option" where
  "isset_variable F old varname dims st = do {
     (p, st1) \<leftarrow> assignment_variable_pointer F old varname dims st;
     php3_isset p st1 }"

definition empty_variable ::
  "'d fp \<Rightarrow> varptr \<Rightarrow> 'd val \<Rightarrow> 'd val option list \<Rightarrow> 'd vars \<Rightarrow> (bool \<times> 'd vars) option" where
  "empty_variable F old varname dims st = do {
     (p, st1) \<leftarrow> assignment_variable_pointer F old varname dims st;
     php3_empty F p st1 }"

definition read_variable ::
  "'d fp \<Rightarrow> varptr \<Rightarrow> 'd val \<Rightarrow> 'd val option list \<Rightarrow> 'd vars \<Rightarrow> ('d val \<times> 'd vars) option" where
  "read_variable F old varname dims st = do {
     (p, st1) \<leftarrow> assignment_variable_pointer F old varname dims st;
     read_pointer_value p st1 }"

end
