(* ===== verification/Var_Calls.thy ===== *)
theory Var_Calls
  imports Var_Ops
begin

text \<open>
  Variables across function calls: arguments, parameters, global and static variables; and the two
  constructs that handle many values at once, array literals and assignment to a list.
\<close>

subsection \<open>Arguments\<close>

text \<open>\<open>_php3_hash_next_index_insert\<close> of a symbol table with a value, or with a pointer.\<close>

definition sym_next_insert :: "nat \<Rightarrow> 'd val \<Rightarrow> 'd vars \<Rightarrow> 'd vars option" where
  "sym_next_insert t v st =
     (let k = KIdx (next_free (symtab_of st t)) in
      if sym_find st t k \<noteq> None then None else Some (snd (sym_update t k v st)))"

definition sym_next_point :: "nat \<Rightarrow> nat \<Rightarrow> 'd vars \<Rightarrow> 'd vars option" where
  "sym_next_point t a st =
     (let k = KIdx (next_free (symtab_of st t)) in
      if sym_find st t k \<noteq> None then None else Some (sym_point t k a st))"

definition no_call :: "'d vars \<Rightarrow> 'd vars" where
  "no_call st = st\<lparr>call_ok := False\<rparr>"

text \<open>
  The number of the argument is kept in an \<open>unsigned char\<close>; \<open>func_arg_types[0]\<close> is the number of the
  declared parameters, then follows a byte for each: 0, \<open>BYREF_FORCE\<close> (1) or \<open>BYREF_ALLOW\<close> (2).
\<close>

definition argument_offset :: "'d vars \<Rightarrow> nat" where
  "argument_offset st = (unat (next_free (symtab_of st (call_table st))) mod 256 + 1) mod 256"

definition argument_type :: "'d vars \<Rightarrow> nat" where
  "argument_type st =
     (let n = argument_offset st in
      if call_types st \<noteq> [] \<and> n \<le> hd (call_types st) then call_types st ! n else 0)"

definition pass_parameter_by_value :: "'d val \<Rightarrow> 'd vars \<Rightarrow> 'd vars" where
  "pass_parameter_by_value expr st =
     (let st1 = (if argument_type st = 1
                 then no_call (warn ''Cannot pass expression by reference'' st) else st)
      in case sym_next_insert (call_table st1) expr st1 of
           Some st2 \<Rightarrow> st2
         | None \<Rightarrow> no_call (warn ''Error updating symbol table'' st1))"

definition pass_parameter :: "varptr \<Rightarrow> bool \<Rightarrow> 'd vars \<Rightarrow> 'd vars option" where
  "pass_parameter var by_reference st =
     (if by_reference \<or> argument_type st \<noteq> 0 then
        let st1 = (if array_write var then clean_unassigned_variable_top False st else st) in
        case pvalue var of
          None \<Rightarrow> Some (no_call st1)
        | Some a \<Rightarrow>
            (case sym_next_point (call_table st1) a st1 of
               Some st2 \<Rightarrow> Some st2
             | None \<Rightarrow> Some (no_call (warn ''Error updating symbol table'' st1)))
      else do {
        (tmp, st1) \<leftarrow> read_pointer_value var st;
        case sym_next_insert (call_table st1) tmp st1 of
          Some st2 \<Rightarrow> Some st2
        | None \<Rightarrow> Some (no_call (warn ''Error updating symbol table'' st1)) })"

text \<open>The parameters of a function, when its body starts to be executed.\<close>

definition get_function_parameter :: "string \<Rightarrow> 'd val option \<Rightarrow> 'd vars \<Rightarrow> 'd vars option" where
  "get_function_parameter varname default_value st =
     (let t = active_table st; k = KIdx (param_index st) in do {
      st1 \<leftarrow>
        (case map_of (names (symtab_of st t)) k of
           None \<Rightarrow>
             (case default_value of
                Some d \<Rightarrow> Some (snd (sym_update t (name_key varname) d st))
              | None \<Rightarrow> Some (snd (sym_update t (name_key varname) VUndef (warn ''Missing argument'' st))))
         | Some (Own a) \<Rightarrow> do {
             data \<leftarrow> deref st a;
             Some (snd (sym_update t (name_key varname) (pval_copy_constructor data) st)) }
         | Some (Ref a) \<Rightarrow> Some (table_delete t k (sym_point t (name_key varname) a st)));
      Some (st1\<lparr>param_index := param_index st1 + 1\<rparr>) })"

subsection \<open>Global and static variables\<close>

definition cs_global_variable :: "'d val \<Rightarrow> 'd vars \<Rightarrow> status \<times> 'd vars" where
  "cs_global_variable varname st =
     (if function_name st = None then (FAILURE, warn ''GLOBAL variable declaration meaningless in main() scope'' st)
      else case string_of_val varname of
        None \<Rightarrow> (FAILURE, warn ''Incorrect variable type or name in global'' st)
      | Some s \<Rightarrow>
          (if sym_find st (active_table st) (name_key s) \<noteq> None
           then (FAILURE, warn ''Variable used in global statement already exists in the function'' st)
           else
             let (a, st1) =
               (case sym_find st (globals_table st) (name_key s) of
                  Some a \<Rightarrow> (a, st)
                | None \<Rightarrow> sym_update (globals_table st) (name_key s) VUndef st)
             in (SUCCESS, sym_point (active_table st) (name_key s) a st1)))"

text \<open>The table of the static variables of a function is made by its first static variable.\<close>

definition statics_table :: "string \<Rightarrow> 'd vars \<Rightarrow> nat \<times> 'd vars" where
  "statics_table f st =
     (case map_of (statics st) f of
        Some t \<Rightarrow> (t, st)
      | None \<Rightarrow> (fresh st, st\<lparr>symtabs := symtabs st @ [(fresh st, \<lparr>names = [], next_free = 0\<rparr>)],
                            statics := statics st @ [(f, fresh st)], fresh := fresh st + 1\<rparr>))"

definition cs_static_variable :: "'d val \<Rightarrow> 'd val option \<Rightarrow> 'd vars \<Rightarrow> status \<times> 'd vars" where
  "cs_static_variable varname value0 st =
     (case function_name st of
        None \<Rightarrow> (FAILURE, warn ''STATIC variable declaration meaningless in main() scope'' st)
      | Some f \<Rightarrow>
          (case string_of_val varname of
             None \<Rightarrow> (FAILURE, warn ''Incorrect variable type or name in static'' st)
           | Some s \<Rightarrow>
               (let (t, st1) = statics_table f st;
                    (a, st2) =
                      (case sym_find st1 t (name_key s) of
                         Some a \<Rightarrow> (a, st1)
                       | None \<Rightarrow> sym_update t (name_key s) (case value0 of Some v \<Rightarrow> v | None \<Rightarrow> VUndef) st1)
                in (SUCCESS, sym_point (active_table st) (name_key s) a st2))))"

subsection \<open>Array literals and lists\<close>

definition elem_store :: "hkey \<Rightarrow> 'd val \<Rightarrow> 'd elems \<Rightarrow> 'd elems" where
  "elem_store k v es =
     (if elem_find k es = None then es @ [(k, 0, v)]
      else map (\<lambda>(j, a, w). (j, a, if j = k then v else w)) es)"

text \<open>\<open>None\<close>: after an illegal index the result is an empty string, and the next pair takes it for a table.\<close>

definition add_array_pair_list :: "'d fp \<Rightarrow> 'd val \<Rightarrow> 'd val option \<Rightarrow> 'd val \<Rightarrow> bool \<Rightarrow> 'd val option" where
  "add_array_pair_list F result index v initialize =
     (case (if initialize then VArray 0 [] 0 else result) of
        VArray t es n \<Rightarrow>
          (case index of
             None \<Rightarrow> Some (if elem_find (KIdx n) es \<noteq> None then VArray t es n
                           else VArray t (es @ [(KIdx n, 0, v)]) (od_bump (KIdx n) n))
           | Some i \<Rightarrow>
               (case index_key F i of
                  Some (k, _) \<Rightarrow> Some (VArray t (elem_store k v es) (od_bump k n))
                | None \<Rightarrow> Some VEmpty))
      | _ \<Rightarrow> None)"

text \<open>The variables of a list are assigned from the last to the first, as their trackers lie on a stack.\<close>

definition list_value :: "'d val \<Rightarrow> nat \<Rightarrow> 'd val" where
  "list_value expr i =
     (case expr of
        VArray t es n \<Rightarrow>
          (case elem_find (KIdx (of_nat i)) es of Some (a, v) \<Rightarrow> pval_copy_constructor v | None \<Rightarrow> VUndef)
      | _ \<Rightarrow> if i = 0 then pval_copy_constructor expr else VUndef)"

fun assign_list_from :: "'d val \<Rightarrow> varptr list \<Rightarrow> nat \<Rightarrow> 'd vars \<Rightarrow> 'd vars option" where
  "assign_list_from expr vs 0 st = Some st"
| "assign_list_from expr vs (Suc i) st =
     (case pvalue (vs ! i) of
        None \<Rightarrow> assign_list_from expr vs i st
      | Some a \<Rightarrow>
          (let st1 = (if array_write (vs ! i) then clean_unassigned_variable_top False st else st) in do {
           v \<leftarrow> deref st1 a;
           assign_list_from expr vs i (store_temp a (list_value expr i) st1) }))"

definition assign_to_list :: "varptr list \<Rightarrow> 'd val \<Rightarrow> 'd vars \<Rightarrow> ('d val \<times> 'd vars) option" where
  "assign_to_list vs expr st = do { st1 \<leftarrow> assign_list_from expr vs (length vs) st; Some (expr, st1) }"

end
