(* ===== verification/Var_Laws.thy ===== *)
theory Var_Laws
  imports Var_Calls
begin

text \<open>
  Cells in values: where an address is found, what writing to it changes, and that the addresses stay
  distinct.  The addresses of cells and the numbers of tables come from one counter.
\<close>

subsection \<open>The addresses in a value\<close>

fun labels :: "'d val \<Rightarrow> nat list"
and labels_elems :: "'d elems \<Rightarrow> nat list" where
  "labels (VArray t es n) = t # labels_elems es"
| "labels (VObject t es n) = t # labels_elems es"
| "labels _ = []"
| "labels_elems [] = []"
| "labels_elems ((k, a, v) # es) = a # labels v @ labels_elems es"

lemma labels_elems_append [simp]: "labels_elems (xs @ ys) = labels_elems xs @ labels_elems ys"
  by (induction xs) auto

lemma labels_entry: "(k, a, v) \<in> set es \<Longrightarrow> a \<in> set (labels_elems es) \<and> set (labels v) \<subseteq> set (labels_elems es)"
  by (induction es) auto

lemma look_labels:
  "look a v = Some w \<Longrightarrow> a \<in> set (labels v) \<and> set (labels w) \<subseteq> set (labels v)"
  "look_elems a es = Some w \<Longrightarrow> a \<in> set (labels_elems es) \<and> set (labels w) \<subseteq> set (labels_elems es)"
  by (induction a v and a es rule: look_look_elems.induct) (auto split: if_splits option.splits)

lemma look_absent:
  "a \<notin> set (labels v) \<Longrightarrow> look a v = None"
  "a \<notin> set (labels_elems es) \<Longrightarrow> look_elems a es = None"
  using look_labels(1) [of a v] look_labels(2) [of a es] by (cases "look a v"; cases "look_elems a es"; simp)+

lemma put_absent:
  "a \<notin> set (labels v) \<Longrightarrow> put a w v = v"
  "a \<notin> set (labels_elems es) \<Longrightarrow> put_elems a w es = es"
  by (induction a w v and a w es rule: put_put_elems.induct) auto

lemma put_put [simp]:
  "put a w (put a w' v) = put a w v"
  "put_elems a w (put_elems a w' es) = put_elems a w es"
  by (induction a w v and a w es rule: put_put_elems.induct) auto

text \<open>A cell splits the addresses of the value it is in; writing to it changes its part alone.\<close>

lemma put_context:
  "look a v = Some u \<Longrightarrow> distinct (labels v) \<Longrightarrow>
     \<exists>A B. labels v = A @ labels u @ B \<and> (\<forall>w. labels (put a w v) = A @ labels w @ B)"
  "look_elems a es = Some u \<Longrightarrow> distinct (labels_elems es) \<Longrightarrow>
     \<exists>A B. labels_elems es = A @ labels u @ B \<and> (\<forall>w. labels_elems (put_elems a w es) = A @ labels w @ B)"
proof (induction a v and a es rule: look_look_elems.induct)
  case (1 a t es n)
  then obtain A B where "labels_elems es = A @ labels u @ B" "\<And>w. labels_elems (put_elems a w es) = A @ labels w @ B" by auto
  then show ?case by (intro exI [of _ "t # A"] exI [of _ B]) simp
next
  case (2 a t es n)
  then obtain A B where "labels_elems es = A @ labels u @ B" "\<And>w. labels_elems (put_elems a w es) = A @ labels w @ B" by auto
  then show ?case by (intro exI [of _ "t # A"] exI [of _ B]) simp
next
  case (5 a k b v es)
  show ?case
  proof (cases "a = b")
    case True
    then have "put_elems a w es = es" for w using 5(4) by (intro put_absent) auto
    then show ?thesis using 5(3) True by (intro exI [of _ "[a]"] exI [of _ "labels_elems es"]) simp
  next
    case n: False
    show ?thesis
    proof (cases "look a v")
      case (Some u')
      then have u: "u' = u" using 5(3) n by simp
      then obtain A B where A: "labels v = A @ labels u @ B" "\<And>w. labels (put a w v) = A @ labels w @ B"
        using 5(1) [OF n] 5(4) Some by auto
      have "put_elems a w es = es" for w using look_labels(1) [OF Some] 5(4) by (intro put_absent) auto
      then show ?thesis using A n by (intro exI [of _ "b # A"] exI [of _ "B @ labels_elems es"]) simp
    next
      case None
      then obtain A B where A: "labels_elems es = A @ labels u @ B" "\<And>w. labels_elems (put_elems a w es) = A @ labels w @ B"
        using 5 n by auto
      have "look_elems a es = Some u" using 5(3) n None by simp
      then have "a \<in> set (labels_elems es)" using look_labels(2) by blast
      then have "put a w v = v" for w using 5(4) by (intro put_absent) auto
      then show ?thesis using A n by (intro exI [of _ "b # labels v @ A"] exI [of _ B]) simp
    qed
  qed
qed simp_all

lemma look_put:
  "look a v = Some u \<Longrightarrow> distinct (labels v) \<Longrightarrow> look a (put a w v) = Some w"
  "look_elems a es = Some u \<Longrightarrow> distinct (labels_elems es) \<Longrightarrow> look_elems a (put_elems a w es) = Some w"
proof (induction a v and a es rule: look_look_elems.induct)
  case (5 a k b v es)
  then show ?case
  proof (cases "a = b \<or> look a v \<noteq> None")
    case False
    then have "a \<in> set (labels_elems es)" using look_labels(2) 5(3) by auto
    then have "put a w v = v" using 5(4) by (intro put_absent) auto
    then show ?thesis using 5 False by auto
  qed (auto split: if_splits)
qed simp_all

lemma put_same:
  "look a v = Some u \<Longrightarrow> distinct (labels v) \<Longrightarrow> put a u v = v"
  "look_elems a es = Some u \<Longrightarrow> distinct (labels_elems es) \<Longrightarrow> put_elems a u es = es"
proof (induction a v and a es rule: look_look_elems.induct)
  case (5 a k b v es)
  show ?case
  proof (cases "a = b")
    case True
    then have "put_elems a u es = es" using 5(4) by (intro put_absent) auto
    then show ?thesis using 5(3) True by simp
  next
    case n: False
    show ?thesis
    proof (cases "look a v")
      case (Some u')
      then have "put_elems a u es = es" using look_labels(1) [OF Some] 5(4) by (intro put_absent) auto
      then show ?thesis using 5 n Some by simp
    next
      case None
      then have "a \<in> set (labels_elems es)" using look_labels(2) 5(3) n by auto
      then have "put a u v = v" using 5(4) by (intro put_absent) auto
      then show ?thesis using 5 n None by simp
    qed
  qed
qed simp_all

text \<open>A cell inside a cell: reading and writing it through the outer one.\<close>

lemma look_inside:
  "look p v = Some u \<Longrightarrow> distinct (labels v) \<Longrightarrow> look c u = Some w \<Longrightarrow> look c v = Some w"
  "look_elems p es = Some u \<Longrightarrow> distinct (labels_elems es) \<Longrightarrow> look c u = Some w \<Longrightarrow> look_elems c es = Some w"
proof (induction p v and p es rule: look_look_elems.induct)
  case (5 p k b v es)
  have cu: "c \<in> set (labels u)" using look_labels(1) 5(5) by blast
  show ?case
  proof (cases "p = b")
    case True
    then show ?thesis using 5(3-5) cu by auto
  next
    case n: False
    show ?thesis
    proof (cases "look p v")
      case (Some u')
      then have "c \<in> set (labels v)" using 5(3) n look_labels(1) [OF Some] cu by auto
      then show ?thesis using 5 n Some by auto
    next
      case None
      then have es: "look_elems p es = Some u" using 5(3) n by simp
      then have "c \<in> set (labels_elems es)" using look_labels(2) [OF es] cu by auto
      then have "look c v = None" "c \<noteq> b" using 5(4) look_absent(1) [of c v] by auto
      then show ?thesis using 5 n None es by simp
    qed
  qed
qed simp_all

lemma put_inside:
  "look p v = Some u \<Longrightarrow> distinct (labels v) \<Longrightarrow> c \<in> set (labels u) \<Longrightarrow> put c x v = put p (put c x u) v"
  "look_elems p es = Some u \<Longrightarrow> distinct (labels_elems es) \<Longrightarrow> c \<in> set (labels u) \<Longrightarrow>
     put_elems c x es = put_elems p (put c x u) es"
proof (induction p v and p es rule: look_look_elems.induct)
  case (5 p k b v es)
  show ?case
  proof (cases "p = b")
    case True
    then have "put_elems c x es = es" "put_elems p y es = es" for y using 5(3-5) by (auto intro!: put_absent)
    then show ?thesis using 5(3-5) True by auto
  next
    case n: False
    show ?thesis
    proof (cases "look p v")
      case (Some u')
      then have u: "u' = u" "look p v = Some u" using 5(3) n by simp_all
      then have "c \<in> set (labels v)" "p \<in> set (labels v)" using look_labels(1) [OF u(2)] 5(5) by auto
      then have "put_elems c x es = es" "put_elems p y es = es" "c \<noteq> b" for y using 5(4) by (auto intro!: put_absent)
      then show ?thesis using 5(1) [OF n u(2)] 5(4,5) n by simp
    next
      case None
      then have es: "look_elems p es = Some u" using 5(3) n by simp
      then have "c \<in> set (labels_elems es)" "p \<in> set (labels_elems es)" using look_labels(2) [OF es] 5(5) by auto
      then have "put c x v = v" "put p y v = v" "c \<noteq> b" for y using 5(4) by (auto intro!: put_absent)
      then show ?thesis using 5(2) [OF n None es] 5(4,5) n by simp
    qed
  qed
qed simp_all

lemma look_entry: "(k, c, u) \<in> set es \<Longrightarrow> distinct (labels_elems es) \<Longrightarrow> look_elems c es = Some u"
proof (induction es)
  case (Cons e es)
  obtain j b v where e: "e = (j, b, v)" by (cases e) auto
  show ?case
  proof (cases "(k, c, u) = e")
    case False
    then have i: "(k, c, u) \<in> set es" using Cons.prems(1) by simp
    then have "c \<in> set (labels_elems es)" using labels_entry by fast
    then have "c \<noteq> b" "look c v = None" using Cons.prems(2) look_absent(1) [of c v] by (auto simp: e)
    then show ?thesis using Cons.IH [OF i] Cons.prems(2) by (simp add: e)
  qed (simp add: e)
qed simp

end
