(* ===== verification/Var_Store.thy ===== *)
theory Var_Store
  imports Var_Laws
begin

text \<open>
  What an array variable with dimensions stands for: a path in nested maps.  The handlers run through the
  cells; here each of their steps is shown to be a step along the path, with what writing through the
  pointer will do to the value of the variable.
\<close>

subsection \<open>Nested maps\<close>

text \<open>A value without the addresses of its parts.\<close>

fun bare :: "'d val \<Rightarrow> 'd val"
and bare_elems :: "'d elems \<Rightarrow> 'd elems" where
  "bare (VArray t es n) = VArray 0 (bare_elems es) n"
| "bare (VObject t es n) = VObject 0 (bare_elems es) n"
| "bare v = v"
| "bare_elems [] = []"
| "bare_elems ((k, a, v) # es) = (k, 0, bare v) # bare_elems es"

text \<open>What an index may be applied to: an array, or an empty scalar, which becomes one.\<close>

definition as_array :: "'d val \<Rightarrow> ('d elems \<times> ulong) option" where
  "as_array v =
     (case v of VArray t es n \<Rightarrow> Some (es, n) | VNull \<Rightarrow> Some ([], 0) | VEmpty \<Rightarrow> Some ([], 0) | VUndef \<Rightarrow> Some ([], 0)
      | _ \<Rightarrow> None)"

fun elem_put :: "hkey \<Rightarrow> 'd val \<Rightarrow> 'd elems \<Rightarrow> 'd elems" where
  "elem_put k v [] = [(k, 0, v)]"
| "elem_put k v ((j, a, w) # es) = (if j = k then (j, a, v) # es else (j, a, w) # elem_put k v es)"

text \<open>An index is a key, or the next free one (\<open>None\<close>), which must not be taken.\<close>

definition the_key :: "hkey option \<Rightarrow> ulong \<Rightarrow> hkey" where
  "the_key k n = (case k of Some j \<Rightarrow> j | None \<Rightarrow> KIdx n)"

definition vget :: "hkey option \<Rightarrow> 'd val \<Rightarrow> 'd val option" where
  "vget k v =
     (case as_array v of
        None \<Rightarrow> None
      | Some (es, n) \<Rightarrow>
          (case elem_find (the_key k n) es of
             None \<Rightarrow> Some VNull
           | Some (a, u) \<Rightarrow> if k = None then None else Some u))"

definition vput :: "hkey option \<Rightarrow> 'd val \<Rightarrow> 'd val \<Rightarrow> 'd val" where
  "vput k v u =
     (case as_array v of
        None \<Rightarrow> v
      | Some (es, n) \<Rightarrow>
          (let j = the_key k n in
           VArray 0 (elem_put j u es) (if elem_find j es = None then od_bump j n else n)))"

fun vstore :: "hkey option list \<Rightarrow> 'd val \<Rightarrow> 'd val \<Rightarrow> 'd val option" where
  "vstore [] x v = Some x"
| "vstore (k # ks) x v =
     (case vget k v of None \<Rightarrow> None | Some u \<Rightarrow> map_option (vput k v) (vstore ks x u))"

definition dim_key :: "'d fp \<Rightarrow> 'd val option \<Rightarrow> hkey option option" where
  "dim_key F e = (case e of None \<Rightarrow> Some None | Some i \<Rightarrow> map_option (\<lambda>(k, _). Some k) (index_key F i))"

fun dim_keys :: "'d fp \<Rightarrow> 'd val option list \<Rightarrow> hkey option list option" where
  "dim_keys F [] = Some []"
| "dim_keys F (e # es) = do { k \<leftarrow> dim_key F e; ks \<leftarrow> dim_keys F es; Some (k # ks) }"

lemma vstore_defined: "vstore ks x v = None \<longleftrightarrow> vstore ks y v = None"
  by (induction ks x v rule: vstore.induct) (auto split: option.splits)

lemma bare_bare [simp]:
  fixes v :: "'d val" and es :: "'d elems"
  shows "bare (bare v) = bare v" "bare_elems (bare_elems es) = bare_elems es"
  by (induction v and es rule: bare_bare_elems.induct) auto

lemma plain_bare [simp]:
  fixes v :: "'d val" and es :: "'d elems"
  shows "plain_val (bare v) = plain_val v" "plain_elems (bare_elems es) = plain_elems es"
  by (induction v and es rule: bare_bare_elems.induct) auto

lemma bare_elems_append [simp]: "bare_elems (xs @ ys) = bare_elems xs @ bare_elems ys"
  by (induction xs) auto

lemma elem_find_bare: "elem_find k (bare_elems es) = map_option (\<lambda>(a, v). (0, bare v)) (elem_find k es)"
  by (induction es) (auto simp: elem_find_def)

lemma elem_find_entry: "elem_find k es = Some (a, v) \<Longrightarrow> (k, a, v) \<in> set es"
  unfolding elem_find_def by (rule map_of_SomeD)

lemma elem_find_Cons: "elem_find k ((j, a, v) # es) = (if j = k then Some (a, v) else elem_find k es)"
  by (simp add: elem_find_def)

lemma elem_put_new: "elem_find k es = None \<Longrightarrow> elem_put k v (bare_elems es) = bare_elems es @ [(k, 0, v)]"
  by (induction k v es rule: elem_put.induct) (auto simp: elem_find_Cons split: if_splits)

lemma elem_put_found:
  "elem_find k es = Some (c, u) \<Longrightarrow> distinct (labels_elems es) \<Longrightarrow>
     bare_elems (put_elems c x es) = elem_put k (bare x) (bare_elems es)"
proof (induction es)
  case (Cons e es)
  obtain j b v where e: "e = (j, b, v)" by (cases e) auto
  show ?case
  proof (cases "j = k")
    case True
    then have "c = b" "put_elems c x es = es" using Cons.prems by (auto simp: e elem_find_Cons intro!: put_absent)
    then show ?thesis using True by (simp add: e)
  next
    case False
    then have f: "elem_find k es = Some (c, u)" using Cons.prems(1) by (simp add: e elem_find_Cons)
    then have "c \<in> set (labels_elems es)" using labels_entry elem_find_entry by fast
    then have "c \<noteq> b" "put c x v = v" using Cons.prems(2) by (auto simp: e intro!: put_absent)
    then show ?thesis using False Cons.IH [OF f] Cons.prems(2) by (simp add: e)
  qed
qed (simp add: elem_find_def)

lemma as_array_bare: "as_array (bare v) = map_option (\<lambda>(es, n). (bare_elems es, n)) (as_array v)"
  by (cases v) (simp_all add: as_array_def)

lemma vget_bare: "vget k (bare v) = map_option bare (vget k v)"
  by (auto simp: vget_def as_array_bare elem_find_bare split: option.splits)

subsection \<open>States\<close>

definition vars_ok :: "'d vars \<Rightarrow> bool" where
  "vars_ok st \<longleftrightarrow> distinct (map fst (symtabs st) @ labels_elems (cells st)) \<and>
     (\<forall>a \<in> set (map fst (symtabs st)) \<union> set (labels_elems (cells st)). a < fresh st)"

lemma vars_okD: "vars_ok st \<Longrightarrow> distinct (labels_elems (cells st))"
  by (simp add: vars_ok_def)

lemma vars_ok_fresh: "vars_ok st \<Longrightarrow> n \<in> set (labels_elems (cells st)) \<Longrightarrow> n < fresh st"
  by (simp add: vars_ok_def)

text \<open>Writing a value whose addresses are those that were there, and new ones.\<close>

lemma vars_ok_put:
  assumes "vars_ok st" "deref st p = Some v" "distinct (labels w)"
    "set (labels w) \<subseteq> set (labels v) \<union> {fresh st..<m}" "fresh st \<le> m"
  shows "vars_ok (st\<lparr>cells := put_elems p w (cells st), fresh := m\<rparr>)"
proof -
  obtain A B where a: "labels_elems (cells st) = A @ labels v @ B" "\<And>w. labels_elems (put_elems p w (cells st)) = A @ labels w @ B"
    using put_context(2) [OF assms(2) [unfolded deref_def] vars_okD [OF assms(1)]] by blast
  have l: "a < fresh st" if "a \<in> set (map fst (symtabs st)) \<union> set A \<union> set (labels v) \<union> set B" for a
    using assms(1) that by (auto simp: vars_ok_def a(1))
  have d: "distinct (map fst (symtabs st) @ A @ labels v @ B)" using assms(1) by (simp add: vars_ok_def a(1))
  have w: "a \<in> set (labels v) \<or> fresh st \<le> a \<and> a < m" if "a \<in> set (labels w)" for a using assms(4) that by auto
  have "a < m" if "a \<in> set (map fst (symtabs st)) \<union> set A \<union> set (labels w) \<union> set B" for a
    using l [of a] w [of a] that assms(5) by fastforce
  moreover have "a \<notin> set (labels w)" if "a \<in> set (map fst (symtabs st)) \<union> set A \<union> set B" for a
    using w [of a] l [of a] d that by fastforce
  ultimately show ?thesis using d assms(3) by (auto simp: vars_ok_def a(2))
qed

lemma vars_ok_update [simp]:
  "vars_ok (st\<lparr>trackers := x\<rparr>) = vars_ok st" "vars_ok (st\<lparr>notices := y\<rparr>) = vars_ok st"
  "vars_ok (st\<lparr>array_ptr := z\<rparr>) = vars_ok st" "vars_ok (st\<lparr>array_ptr_write := u\<rparr>) = vars_ok st"
  "vars_ok (st\<lparr>param_index := i\<rparr>) = vars_ok st" "vars_ok (st\<lparr>call_ok := b\<rparr>) = vars_ok st"
  by (simp_all add: vars_ok_def)

lemma deref_update [simp]:
  "deref (st\<lparr>trackers := x\<rparr>) a = deref st a" "deref (st\<lparr>notices := y\<rparr>) a = deref st a"
  "deref (st\<lparr>array_ptr := z\<rparr>) a = deref st a" "deref (st\<lparr>array_ptr_write := u\<rparr>) a = deref st a"
  "deref (st\<lparr>fresh := m\<rparr>) a = deref st a" "deref (st\<lparr>cells := c\<rparr>) a = look_elems a c"
  "deref (st\<lparr>symtabs := s\<rparr>) a = deref st a" "deref (st\<lparr>param_index := i\<rparr>) a = deref st a"
  by (simp_all add: deref_def)

lemma distinct_labels_of: "deref st p = Some v \<Longrightarrow> vars_ok st \<Longrightarrow> distinct (labels v)"
  using put_context(2) [of p "cells st" v] vars_okD [of st] by (auto simp: deref_def)

lemma labels_of_less: "deref st p = Some v \<Longrightarrow> vars_ok st \<Longrightarrow> a \<in> set (labels v) \<Longrightarrow> a < fresh st"
  using look_labels(2) [of p "cells st" v] vars_ok_fresh [of st a] by (auto simp: deref_def)

subsection \<open>One dimension\<close>

text \<open>
  What a step along the path does: the pointer \<open>c\<close> is in the cell \<open>p\<close>, holds \<open>u\<close>, and writing \<open>x\<close> through
  it makes the value of \<open>p\<close> into \<open>V x\<close>.
\<close>

definition cell_step :: "'d vars \<Rightarrow> nat \<Rightarrow> 'd vars \<Rightarrow> nat \<Rightarrow> 'd val \<Rightarrow> ('d val \<Rightarrow> 'd val) \<Rightarrow> bool" where
  "cell_step st p st' c u V \<longleftrightarrow>
     st' = st\<lparr>cells := put_elems p (V u) (cells st), fresh := fresh st', trackers := trackers st'\<rparr> \<and>
     fresh st \<le> fresh st' \<and> vars_ok st' \<and> deref st' c = Some u \<and>
     (\<forall>x. put_elems c x (cells st') = put_elems p (V x) (cells st))"

lemma cell_step_refl: "vars_ok st \<Longrightarrow> deref st p = Some v \<Longrightarrow> cell_step st p st p v (\<lambda>x. x)"
  by (simp add: cell_step_def deref_def put_same(2) vars_okD)

lemma cell_step_trans:
  assumes a: "cell_step st p st1 c u V" and b: "cell_step st1 c st2 d w W"
  shows "cell_step st p st2 d w (\<lambda>x. V (W x))"
proof -
  have s1: "st1 = st\<lparr>cells := put_elems p (V u) (cells st), fresh := fresh st1, trackers := trackers st1\<rparr>"
    and p1: "\<And>x. put_elems c x (cells st1) = put_elems p (V x) (cells st)" and f1: "fresh st \<le> fresh st1"
    using a unfolding cell_step_def by blast+
  have s2: "st2 = st1\<lparr>cells := put_elems c (W w) (cells st1), fresh := fresh st2, trackers := trackers st2\<rparr>"
    and p2: "\<And>x. put_elems d x (cells st2) = put_elems c (W x) (cells st1)" and f2: "fresh st1 \<le> fresh st2"
    and o2: "vars_ok st2" "deref st2 d = Some w"
    using b unfolding cell_step_def by blast+
  have "st2 = st\<lparr>cells := put_elems p (V (W w)) (cells st), fresh := fresh st2, trackers := trackers st2\<rparr>"
    by (subst s2, subst s1) (simp add: p1)
  then show ?thesis unfolding cell_step_def using p1 p2 f1 f2 o2 by (simp add: p1 p2)
qed

text \<open>An element that exists.\<close>

lemma cell_step_found:
  assumes "vars_ok st" "deref st p = Some (VArray t es n)" "elem_find k es = Some (c, u)"
  shows "cell_step st p st c u (\<lambda>x. VArray t (put_elems c x es) n)"
proof -
  note d = vars_okD [OF assms(1)] and l = assms(2) [unfolded deref_def]
  have de: "distinct (labels_elems es)" using distinct_labels_of [OF assms(2,1)] by simp
  have e: "(k, c, u) \<in> set es" using assms(3) by (rule elem_find_entry)
  have u: "look_elems c es = Some u" using look_entry [OF e de] .
  have "deref st c = Some u" unfolding deref_def using look_inside(2) [OF l d, of c u] u by simp
  moreover have "put_elems c x (cells st) = put_elems p (VArray t (put_elems c x es) n) (cells st)" for x
    using put_inside(2) [OF l d, of c x] labels_entry [OF e] by simp
  moreover have "put_elems p (VArray t (put_elems c u es) n) (cells st) = cells st"
    using put_same(2) [OF u de] put_same(2) [OF l d] by simp
  ultimately show ?thesis using assms(1) by (simp add: cell_step_def)
qed

text \<open>An element that is made.\<close>

lemma cell_step_new:
  assumes "vars_ok st" "deref st p = Some (VArray t es n)"
  shows "cell_step st p (st\<lparr>cells := put_elems p (VArray t (es @ [(k, fresh st, VNull)]) m) (cells st), fresh := fresh st + 1,
      trackers := ys\<rparr>) (fresh st) VNull (\<lambda>x. VArray t (es @ [(k, fresh st, x)]) m)" (is "cell_step st p ?st' ?c VNull ?V")
proof -
  note d = vars_okD [OF assms(1)] and l = assms(2) [unfolded deref_def]
  have de: "distinct (labels (VArray t es n))" using distinct_labels_of [OF assms(2,1)] .
  have c: "?c \<notin> set (labels (VArray t es n))" using labels_of_less [OF assms(2,1)] by blast
  have "vars_ok (st\<lparr>cells := put_elems p (?V VNull) (cells st), fresh := fresh st + 1\<rparr>)"
    by (rule vars_ok_put [OF assms]) (use de c in auto)
  then have ok: "vars_ok ?st'" by (simp add: vars_ok_def)
  have l1: "look_elems p (cells ?st') = Some (?V VNull)" using look_put(2) [OF l d] by simp
  have d1: "distinct (labels_elems (cells ?st'))" using vars_okD [OF ok] .
  have e: "put_elems ?c x es = es" for x using c by (intro put_absent) simp
  have pe: "put_elems ?c x (es @ [(k, ?c, y)]) = es @ [(k, ?c, x)]" for x y
  proof -
    have "put_elems ?c x (es @ zs) = put_elems ?c x es @ put_elems ?c x zs" for zs by (induction es) auto
    then show ?thesis using e by simp
  qed
  have "look_elems ?c (es @ [(k, ?c, VNull)]) = Some VNull"
    using look_entry [of k ?c VNull "es @ [(k, ?c, VNull)]"] de c by simp
  then have "deref ?st' ?c = Some VNull" unfolding deref_def using look_inside(2) [OF l1 d1, of ?c VNull] by simp
  moreover have "put_elems ?c x (cells ?st') = put_elems p (?V x) (cells st)" for x
    using put_inside(2) [OF l1 d1, of ?c x] by (simp add: pe)
  ultimately show ?thesis using ok by (simp add: cell_step_def)
qed

text \<open>An empty scalar that becomes an array.\<close>

lemma array_init_ok:
  assumes "vars_ok st" "deref st p = Some v" "as_array v = Some ([], 0)" "\<And>t es n. v \<noteq> VArray t es n"
  shows "vars_ok (array_init p st)" "deref (array_init p st) p = Some (VArray (fresh st) [] 0)"
proof -
  have "vars_ok (st\<lparr>cells := put_elems p (VArray (fresh st) [] 0) (cells st), fresh := fresh st + 1\<rparr>)"
    by (rule vars_ok_put [OF assms(1,2)]) simp_all
  then show "vars_ok (array_init p st)" by (simp add: array_init_def set_cell_def vars_ok_def)
  show "deref (array_init p st) p = Some (VArray (fresh st) [] 0)"
    using look_put(2) [OF assms(2) [unfolded deref_def] vars_okD [OF assms(1)]] by (simp add: array_init_def set_cell_def deref_def)
qed

lemma cell_step_init:
  assumes "cell_step (array_init p st) p st' c u V" "fresh st \<le> fresh st'"
  shows "cell_step st p st' c u V"
proof -
  have "st' = (array_init p st)\<lparr>cells := put_elems p (V u) (cells (array_init p st)), fresh := fresh st', trackers := trackers st'\<rparr>"
    and r: "vars_ok st'" "deref st' c = Some u" "\<And>x. put_elems c x (cells st') = put_elems p (V x) (cells (array_init p st))"
    using assms(1) unfolding cell_step_def by blast+
  then have "st' = st\<lparr>cells := put_elems p (V u) (cells st), fresh := fresh st', trackers := trackers st'\<rparr>"
    by (simp add: array_init_def set_cell_def)
  then show ?thesis using r assms(2) unfolding cell_step_def by (simp add: array_init_def set_cell_def)
qed

text \<open>What is recorded of an element that is made.\<close>

definition elem_tracker :: "'d fp \<Rightarrow> 'd val option \<Rightarrow> nat \<Rightarrow> ulong \<Rightarrow> tracker" where
  "elem_tracker F e t n =
     (case e of
        None \<Rightarrow> Track_long t (int_of_long (uint n))
      | Some i \<Rightarrow> (case index_key F i of Some (k, y) \<Rightarrow> y t | None \<Rightarrow> Track_long t 0))"

lemma fetch_element_key:
  assumes "dim_key F e = Some k" "deref st p = Some (VArray t es n)"
  shows "fetch_element F e p dim st =
    (case elem_find (the_key k n) es of
       Some (a, v) \<Rightarrow> if k = None then None else Some (dim\<lparr>pvalue := Some a\<rparr>, st)
     | None \<Rightarrow> Some (dim\<lparr>pvalue := Some (fresh st), array_write := True\<rparr>,
         st\<lparr>cells := put_elems p (VArray t (es @ [(the_key k n, fresh st, VNull)]) (od_bump (the_key k n) n)) (cells st),
            fresh := fresh st + 1,
            trackers := (if array_write dim then trackers st else elem_tracker F e t n # trackers st)\<rparr>))"
proof (cases e)
  case None
  then show ?thesis using assms
    by (auto simp: fetch_element_def fetch_next_def dim_key_def the_key_def elem_tracker_def new_elem_def track_def set_cell_def
        split: option.splits)
next
  case (Some i)
  then obtain j y where "index_key F i = Some (j, y)" "k = Some j" using assms(1) by (auto simp: dim_key_def)
  then show ?thesis using assms(2) Some
    by (auto simp: fetch_element_def fetch_key_def the_key_def elem_tracker_def new_elem_def track_def set_cell_def
        split: option.splits)
qed

lemma vput_bare_found:
  assumes "elem_find j es = Some (c, u)" "distinct (labels_elems es)" "k = Some j"
  shows "bare (VArray t (put_elems c x es) n) = vput k (bare (VArray s es n)) (bare x)"
  using elem_put_found [OF assms(1,2)] assms by (simp add: vput_def as_array_def the_key_def Let_def elem_find_bare)

lemma vput_bare_new:
  assumes "elem_find (the_key k n) es = None"
  shows "bare (VArray t (es @ [(the_key k n, a, x)]) (od_bump (the_key k n) n)) = vput k (bare (VArray s es n)) (bare x)"
  using assms by (simp add: vput_def as_array_def Let_def elem_find_bare elem_put_new)

text \<open>A step that finds its element, and a step that makes it.\<close>

lemma fetch_element_found:
  assumes "vars_ok st" "deref st p = Some (VArray t es n)" "dim_key F e = Some k" "vget k (VArray t es n) = Some u"
    "elem_find (the_key k n) es = Some (c, u)"
  shows "fetch_element F e p dim st = Some (dim\<lparr>pvalue := Some c\<rparr>, st) \<and>
    cell_step st p st c u (\<lambda>x. VArray t (put_elems c x es) n) \<and>
    bare (VArray t (put_elems c x es) n) = vput k (bare (VArray t es n)) (bare x)"
proof -
  obtain j where k: "k = Some j" using assms(4,5) by (cases k) (auto simp: vget_def as_array_def)
  have d: "distinct (labels_elems es)" using distinct_labels_of [OF assms(2,1)] by simp
  have "bare (VArray t (put_elems c x es) n) = vput k (bare (VArray t es n)) (bare x)"
    by (rule vput_bare_found [OF _ d k]) (use assms(5) k in \<open>simp add: the_key_def\<close>)
  then show ?thesis using fetch_element_key [OF assms(3,2), of dim] cell_step_found [OF assms(1,2,5)] assms(5) k by simp
qed

lemma fetch_element_new:
  assumes "vars_ok st" "deref st p = Some (VArray t es n)" "dim_key F e = Some k" "elem_find (the_key k n) es = None"
  defines "V \<equiv> \<lambda>x. VArray t (es @ [(the_key k n, fresh st, x)]) (od_bump (the_key k n) n)"
  shows "\<exists>st'. fetch_element F e p dim st = Some (dim\<lparr>pvalue := Some (fresh st), array_write := True\<rparr>, st') \<and>
    cell_step st p st' (fresh st) VNull V \<and> (\<forall>x. bare (V x) = vput k (bare (VArray t es n)) (bare x)) \<and>
    trackers st' = (if array_write dim then trackers st else elem_tracker F e t n # trackers st)"
proof -
  have "bare (V x) = vput k (bare (VArray t es n)) (bare x)" for x unfolding V_def by (rule vput_bare_new [OF assms(4)])
  moreover note cell_step_new [OF assms(1,2), where k = "the_key k n" and m = "od_bump (the_key k n) n", folded V_def]
  ultimately show ?thesis using fetch_element_key [OF assms(3,2), of dim] assms(4) by (simp add: V_def)
qed

lemma vput_as_array: "as_array v = Some (es, n) \<Longrightarrow> vput k v u = vput k (VArray t es n) u"
  by (simp add: vput_def as_array_def split: val.splits)

lemma vget_as_array: "as_array v = Some (es, n) \<Longrightarrow> vget k v = vget k (VArray t es n)"
  by (simp add: vget_def as_array_def split: val.splits)

text \<open>One dimension, whatever its array is.\<close>

lemma fetch_array_index_ok:
  fixes v :: "'d val"
  assumes "vars_ok st" "deref st p = Some v" "dim_key F e = Some k" "vget k v = Some u" "pvalue dim = Some p"
  shows "\<exists>c V w st'. fetch_array_index F e dim st = Some (dim\<lparr>pvalue := Some c, array_write := w\<rparr>, st') \<and>
    cell_step st p st' c u V \<and> (\<forall>x. bare (V x) = vput k (bare v) (bare x)) \<and> (array_write dim \<longrightarrow> w) \<and>
    (if array_write dim \<or> \<not> w then trackers st' = trackers st else \<exists>y. trackers st' = y # trackers st)"
proof (cases "\<exists>t es n. v = VArray t es n")
  case True
  then obtain t es n where v: "v = VArray t es n" by blast
  note l = assms(2) [unfolded v] and g = assms(4) [unfolded v]
  have f: "fetch_array_index F e dim st = fetch_element F e p dim st" using assms(2,5) v by (simp add: fetch_array_index_def)
  show ?thesis
  proof (cases "elem_find (the_key k n) es")
    case None
    then have u: "u = VNull" using g by (simp add: vget_def as_array_def)
    obtain st' V where "fetch_element F e p dim st = Some (dim\<lparr>pvalue := Some (fresh st), array_write := True\<rparr>, st')"
      "cell_step st p st' (fresh st) VNull V" "\<forall>x. bare (V x) = vput k (bare (VArray t es n)) (bare x)"
      "trackers st' = (if array_write dim then trackers st else elem_tracker F e t n # trackers st)"
      using fetch_element_new [OF assms(1) l assms(3) None, of dim] by blast
    then show ?thesis unfolding f v u
      by (intro exI [of _ "fresh st"] exI [of _ V] exI [of _ True] exI [of _ st']) simp
  next
    case (Some cu)
    then obtain c where c: "elem_find (the_key k n) es = Some (c, u)" using g by (cases cu) (auto simp: vget_def as_array_def split: if_splits)
    show ?thesis using fetch_element_found [OF assms(1) l assms(3) g c, of dim] unfolding f v
      by (intro exI [of _ c] exI [of _ "\<lambda>x. VArray t (put_elems c x es) n"] exI [of _ "array_write dim"] exI [of _ st]) auto
  qed
next
  case False
  then have s: "as_array v = Some ([], 0)" using assms(4) by (cases v) (simp_all add: vget_def as_array_def)
  then have u: "u = VNull" using assms(4) by (simp add: vget_def elem_find_def)
  have f: "fetch_array_index F e dim st = fetch_element F e p dim (array_init p st)"
    using assms(2,5) s False by (cases v) (simp_all add: fetch_array_index_def as_array_def)
  have i: "vars_ok (array_init p st)" "deref (array_init p st) p = Some (VArray (fresh st) [] 0)"
    using array_init_ok [OF assms(1,2) s] False by blast+
  define V :: "'d val \<Rightarrow> 'd val" where "V = (\<lambda>x. VArray (fresh st) ([] @ [(the_key k 0, fresh (array_init p st), x)]) (od_bump (the_key k 0) 0))"
  obtain st' where n: "fetch_element F e p dim (array_init p st) =
      Some (dim\<lparr>pvalue := Some (fresh (array_init p st)), array_write := True\<rparr>, st')"
    "cell_step (array_init p st) p st' (fresh (array_init p st)) VNull V"
    "trackers st' = (if array_write dim then trackers (array_init p st) else elem_tracker F e (fresh st) 0 # trackers (array_init p st))"
    using fetch_element_new [OF i assms(3), of dim, folded V_def] by (auto simp: elem_find_def)
  have "fresh st \<le> fresh st'" using n(2) by (simp add: cell_step_def array_init_def)
  then have c: "cell_step st p st' (fresh (array_init p st)) VNull V" using cell_step_init n(2) by blast
  have "as_array (bare v) = Some ([], 0)" using s by (simp add: as_array_bare)
  then have "bare (V x) = vput k (bare v) (bare x)" for x by (simp add: V_def vput_def elem_find_def Let_def)
  then show ?thesis using n(1,3) c unfolding f u
    by (intro exI [of _ "fresh (array_init p st)"] exI [of _ V] exI [of _ True] exI [of _ st']) (auto simp: array_init_def set_cell_def)
qed

subsection \<open>All dimensions\<close>

lemma vstore_step: "vstore (k # ks) x v = Some z \<Longrightarrow> \<exists>u y. vget k v = Some u \<and> vstore ks x u = Some y \<and> z = vput k v y"
  by (auto split: option.splits)

lemma fetch_dims_ok:
  fixes v :: "'d val"
  assumes "vars_ok st" "deref st p = Some v" "dim_keys F es = Some ks" "vstore ks VNull (bare v) \<noteq> None" "pvalue dim = Some p"
  shows "\<exists>c u V w st'. fetch_dims F es dim st = Some (dim\<lparr>pvalue := Some c, array_write := w\<rparr>, st') \<and>
    cell_step st p st' c u V \<and> (\<forall>x. Some (bare (V x)) = vstore ks (bare x) (bare v)) \<and> (array_write dim \<longrightarrow> w) \<and>
    (if array_write dim \<or> \<not> w then trackers st' = trackers st else \<exists>y. trackers st' = y # trackers st)"
  using assms
proof (induction es arbitrary: st p v ks dim)
  case Nil
  then show ?case using cell_step_refl [OF Nil.prems(1,2)]
    by (intro exI [of _ p] exI [of _ v] exI [of _ "\<lambda>x. x"] exI [of _ "array_write dim"] exI [of _ st]) simp
next
  case (Cons e es)
  obtain k ks' where k: "dim_key F e = Some k" "dim_keys F es = Some ks'" "ks = k # ks'"
    using Cons.prems(3) by (auto split: Option.bind_splits)
  obtain u' y where y: "vget k (bare v) = Some u'" "vstore ks' VNull u' = Some y"
    using Cons.prems(4) vstore_step [of k ks' VNull "bare v"] k(3) by fastforce
  obtain u where u: "vget k v = Some u" "u' = bare u" using y(1) by (auto simp: vget_bare)
  obtain c V w st1 where 1: "fetch_array_index F e dim st = Some (dim\<lparr>pvalue := Some c, array_write := w\<rparr>, st1)"
    "cell_step st p st1 c u V" "\<And>x. bare (V x) = vput k (bare v) (bare x)" "array_write dim \<longrightarrow> w"
    "if array_write dim \<or> \<not> w then trackers st1 = trackers st else \<exists>y. trackers st1 = y # trackers st"
    using fetch_array_index_ok [OF Cons.prems(1,2) k(1) u(1) Cons.prems(5)] by blast
  let ?d = "dim\<lparr>pvalue := Some c, array_write := w\<rparr>"
  have c: "vars_ok st1" "deref st1 c = Some u" using 1(2) by (simp_all add: cell_step_def)
  obtain d u2 W w2 st2 where 2: "fetch_dims F es ?d st1 = Some (?d\<lparr>pvalue := Some d, array_write := w2\<rparr>, st2)"
    "cell_step st1 c st2 d u2 W" "\<And>x. Some (bare (W x)) = vstore ks' (bare x) (bare u)" "array_write ?d \<longrightarrow> w2"
    "if array_write ?d \<or> \<not> w2 then trackers st2 = trackers st1 else \<exists>y. trackers st2 = y # trackers st1"
    using Cons.IH [OF c k(2), of ?d] y(2) u(2) by auto
  have "Some (bare (V (W x))) = vstore ks (bare x) (bare v)" for x
    using 1(3) 2(3) [of x, symmetric] y(1) u(2) by (simp add: k(3))
  moreover have "if array_write dim \<or> \<not> w2 then trackers st2 = trackers st else \<exists>y. trackers st2 = y # trackers st"
    using 1(4,5) 2(4,5) by (cases w; cases w2; cases "array_write dim") auto
  moreover have "array_write dim \<longrightarrow> w2" using 1(4) 2(4) by simp
  ultimately show ?case using 1(1) 2(1) cell_step_trans [OF 1(2) 2(2)]
    by (intro exI [of _ d] exI [of _ u2] exI [of _ "\<lambda>x. V (W x)"] exI [of _ w2] exI [of _ st2]) simp
qed

text \<open>Writing to the cell at the end of the path, whatever was written there before.\<close>

lemma cell_step_write:
  assumes "cell_step st p st' c u V" "deref st p = Some v" "vars_ok st"
  shows "cells (set_cell c x (set_cell c y st')) = put_elems p (V x) (cells st)" "cells (set_cell c x st') = put_elems p (V x) (cells st)"
    "look_elems p (put_elems p (V x) (cells st)) = Some (V x)"
proof -
  have c: "put_elems c x (cells st') = put_elems p (V x) (cells st)" using assms(1) unfolding cell_step_def by blast
  show "cells (set_cell c x st') = put_elems p (V x) (cells st)" by (simp add: set_cell_def c)
  have "cells (set_cell c x (set_cell c y st')) = put_elems c x (put_elems c y (cells st'))" by (simp add: set_cell_def)
  also have "\<dots> = put_elems p (V x) (cells st)" by (simp only: put_put c)
  finally show "cells (set_cell c x (set_cell c y st')) = put_elems p (V x) (cells st)" .
  show "look_elems p (put_elems p (V x) (cells st)) = Some (V x)"
    by (rule look_put(2) [OF assms(2) [unfolded deref_def] vars_okD [OF assms(3)]])
qed

text \<open>Storing a value gives its parts addresses of their own.\<close>

lemma place_ok:
  fixes v :: "'d val" and es :: "'d elems"
  shows "n \<le> snd (place v n) \<and> bare (fst (place v n)) = bare v \<and> distinct (labels (fst (place v n))) \<and>
     set (labels (fst (place v n))) \<subseteq> {n..<snd (place v n)}"
    "n \<le> snd (place_elems es n) \<and> bare_elems (fst (place_elems es n)) = bare_elems es \<and>
     distinct (labels_elems (fst (place_elems es n))) \<and> set (labels_elems (fst (place_elems es n))) \<subseteq> {n..<snd (place_elems es n)}"
proof (induction v n and es n rule: place_place_elems.induct)
  case (5 k a v es n)
  obtain v' m where v: "place v (n + 1) = (v', m)" by fastforce
  obtain es' m' where e: "place_elems es m = (es', m')" by fastforce
  show ?case using 5(1) 5(2) [of "(v', m)"] v e by (fastforce simp: v e)
qed (fastforce simp: case_prod_unfold Let_def)+

lemma store_temp_ok:
  assumes "vars_ok st" "deref st a = Some u"
  shows "\<exists>w m. store_temp a v st = st\<lparr>cells := put_elems a w (cells st), fresh := m\<rparr> \<and> bare w = bare v \<and>
    vars_ok (store_temp a v st) \<and> deref (store_temp a v st) a = Some w \<and> fresh st \<le> m"
proof -
  obtain w m where p: "place v (fresh st) = (w, m)" by fastforce
  have w: "fresh st \<le> m" "bare w = bare v" "distinct (labels w)" "set (labels w) \<subseteq> {fresh st..<m}"
    using place_ok(1) [where v = v and n = "fresh st"] by (simp_all add: p)
  have s: "store_temp a v st = st\<lparr>cells := put_elems a w (cells st), fresh := m\<rparr>" by (simp add: store_temp_def p set_cell_def)
  have "vars_ok (store_temp a v st)" unfolding s by (rule vars_ok_put [OF assms]) (use w in auto)
  then show ?thesis using s w look_put(2) [OF assms(2) [unfolded deref_def] vars_okD [OF assms(1)]] by auto
qed

end
