(* ===== verification/Var_Scope.thy ===== *)
theory Var_Scope
  imports Var_Store
begin

text \<open>
  Symbol tables: which variables a name leads to, and what the handlers that make, assign and probe a
  variable do to all of them.
\<close>

subsection \<open>Names and their cells\<close>

text \<open>The value of a name; a name that is not there counts as undefined.\<close>

definition value_of :: "'d vars \<Rightarrow> nat \<Rightarrow> hkey \<Rightarrow> 'd val" where
  "value_of st t k =
     (case sym_find st t k of
        None \<Rightarrow> VUndef
      | Some a \<Rightarrow> (case deref st a of Some v \<Rightarrow> v | None \<Rightarrow> VUndef))"

definition top_cells :: "'d elems \<Rightarrow> nat set" where
  "top_cells es = (\<lambda>e. fst (snd e)) ` set es"

text \<open>
  The active table exists and every name of a table leads to the cell of a variable.  (A parameter that
  takes an array element by reference leads into the cell of a variable instead.)
\<close>

definition scope_ok :: "'d vars \<Rightarrow> bool" where
  "scope_ok st \<longleftrightarrow> vars_ok st \<and> active_table st \<in> fst ` set (symtabs st) \<and>
     (\<forall>t k a. sym_find st t k = Some a \<longrightarrow> a \<in> top_cells (cells st))"

lemma scope_okD:
  "scope_ok st \<Longrightarrow> vars_ok st" "scope_ok st \<Longrightarrow> active_table st \<in> fst ` set (symtabs st)"
  "scope_ok st \<Longrightarrow> sym_find st t k = Some a \<Longrightarrow> a \<in> top_cells (cells st)"
  by (auto simp: scope_ok_def)

lemma top_cells_put [simp]: "top_cells (put_elems a w es) = top_cells es"
proof (induction es)
  case (Cons e es)
  then show ?case by (cases e) (simp add: top_cells_def)
qed simp

lemma top_cells_append [simp]: "top_cells (xs @ ys) = top_cells xs \<union> top_cells ys"
  by (simp add: top_cells_def image_Un)

lemma top_cell_look:
  assumes "a \<in> top_cells es" "distinct (labels_elems es)"
  shows "\<exists>k v. (k, a, v) \<in> set es \<and> look_elems a es = Some v"
  using assms look_entry by (fastforce simp: top_cells_def)

text \<open>Writing to the cell of one variable leaves the others alone.\<close>

lemma put_entry: "(k, b, v) \<in> set es \<Longrightarrow> b \<noteq> a \<Longrightarrow> a \<notin> set (labels v) \<Longrightarrow> (k, b, v) \<in> set (put_elems a w es)"
  by (induction es) (auto simp: put_absent(1))

lemma top_cells_apart:
  assumes "(k, b, v) \<in> set es" "a \<in> top_cells es" "a \<noteq> b" "distinct (labels_elems es)"
  shows "a \<notin> set (labels v)"
  using assms
proof (induction es)
  case (Cons e es)
  obtain j c x where e: "e = (j, c, x)" by (cases e) auto
  have l: "y \<in> set (labels_elems es)" if "y \<in> top_cells es" for y
    using that labels_entry by (fastforce simp: top_cells_def)
  have t: "a = c \<or> a \<in> top_cells es" using Cons.prems(2) by (auto simp: top_cells_def e)
  show ?case
  proof (cases "(k, b, v) = e")
    case True
    then show ?thesis using t l [of a] Cons.prems(3,4) by (auto simp: e)
  next
    case False
    then have i: "(k, b, v) \<in> set es" using Cons.prems(1) by simp
    show ?thesis
    proof (cases "a = c")
      case True
      then show ?thesis using labels_entry [OF i] Cons.prems(4) by (auto simp: e)
    next
      case False
      then show ?thesis using Cons.IH [OF i] t Cons.prems(3,4) by (simp add: e)
    qed
  qed
qed simp

lemma deref_other:
  assumes "vars_ok st" "a \<in> top_cells (cells st)" "b \<in> top_cells (cells st)" "a \<noteq> b"
    "cells st' = put_elems a w (cells st)" "vars_ok st'"
  shows "deref st' b = deref st b"
proof -
  obtain k v where e: "(k, b, v) \<in> set (cells st)" "deref st b = Some v"
    using top_cell_look [OF assms(3) vars_okD [OF assms(1)]] by (auto simp: deref_def)
  have "(k, b, v) \<in> set (cells st')"
    using put_entry [OF e(1)] top_cells_apart [OF e(1) assms(2,4) vars_okD [OF assms(1)]] assms(4,5) by simp
  then show ?thesis using look_entry [of k b v "cells st'"] vars_okD [OF assms(6)] e(2) by (simp add: deref_def)
qed

lemma sym_find_update [simp]:
  "sym_find (st\<lparr>cells := c\<rparr>) t k = sym_find st t k" "sym_find (st\<lparr>fresh := m\<rparr>) t k = sym_find st t k"
  "sym_find (st\<lparr>trackers := x\<rparr>) t k = sym_find st t k" "sym_find (st\<lparr>notices := y\<rparr>) t k = sym_find st t k"
  "sym_find (st\<lparr>array_ptr := z\<rparr>) t k = sym_find st t k" "sym_find (st\<lparr>array_ptr_write := u\<rparr>) t k = sym_find st t k"
  "sym_find (st\<lparr>param_index := i\<rparr>) t k = sym_find st t k"
  by (simp_all add: sym_find_def symtab_of_def)

text \<open>A state in which one cell has a new value.\<close>

lemma scope_write:
  assumes "scope_ok st" "a \<in> top_cells (cells st)" "cells st' = put_elems a w (cells st)" "vars_ok st'"
    "symtabs st' = symtabs st" "active_table st' = active_table st" "deref st' a = Some w"
  shows "scope_ok st'" "value_of st' t k = (if sym_find st t k = Some a then w else value_of st t k)"
proof -
  have f: "sym_find st' t k = sym_find st t k" for t k using assms(5) by (simp add: sym_find_def symtab_of_def)
  show "scope_ok st'" using assms by (auto simp: scope_ok_def f)
  have "deref st' b = deref st b" if "sym_find st t k = Some b" "b \<noteq> a" for b
    using deref_other [OF scope_okD(1) [OF assms(1)] assms(2) scope_okD(3) [OF assms(1) that(1)] _ assms(3,4)] that(2) by simp
  then show "value_of st' t k = (if sym_find st t k = Some a then w else value_of st t k)"
    using assms(7) by (auto simp: value_of_def f split: option.splits)
qed

lemma scope_cell:
  assumes "scope_ok st" "sym_find st t k = Some a"
  shows "\<exists>v. deref st a = Some v \<and> value_of st t k = v"
  using top_cell_look [OF scope_okD(3) [OF assms] vars_okD [OF scope_okD(1) [OF assms(1)]]] assms(2)
  by (auto simp: value_of_def deref_def)

subsection \<open>Making a variable\<close>

lemma symtab_of_set:
  assumes "t \<in> fst ` set (symtabs st)"
  shows "symtab_of (set_symtab t y st) u = (if u = t then y else symtab_of st u)"
proof -
  have m: "map_of (map (\<lambda>(u, z). (u, if u = t then y else z)) ys) u =
    map_option (\<lambda>z. if u = t then y else z) (map_of ys u)" for ys :: "(nat \<times> symtab) list"
    by (induction ys) auto
  have "map_of (symtabs st) t \<noteq> None" using assms by (simp add: map_of_eq_None_iff)
  then show ?thesis by (cases "map_of (symtabs st) u") (auto simp: symtab_of_def set_symtab_def m)
qed

lemma symtabs_set [simp]: "map fst (symtabs (set_symtab t y st)) = map fst (symtabs st)"
  by (induction "symtabs st") (auto simp: set_symtab_def)

lemma symtab_numbers_set [simp]: "fst ` set (symtabs (set_symtab t y st)) = fst ` set (symtabs st)"
  using arg_cong [OF symtabs_set, of set t y st] by (simp only: list.set_map)

lemma cells_set_symtab [simp]:
  "cells (set_symtab t y st) = cells st" "fresh (set_symtab t y st) = fresh st" "trackers (set_symtab t y st) = trackers st"
  "active_table (set_symtab t y st) = active_table st" "notices (set_symtab t y st) = notices st"
  "globals_table (set_symtab t y st) = globals_table st"
  by (simp_all add: set_symtab_def)

lemma map_of_snoc: "map_of (xs @ [(k, v)]) j = (case map_of xs j of Some w \<Rightarrow> Some w | None \<Rightarrow> if j = k then Some v else None)"
  by (induction xs) auto

text \<open>A new name gets a new cell; every other name keeps its value.\<close>

lemma sym_update_new:
  assumes "scope_ok st" "t \<in> fst ` set (symtabs st)" "sym_find st t k = None"
  shows "\<exists>w st1. sym_update t k v st = (fresh st, st1) \<and> bare w = bare v \<and> scope_ok st1 \<and>
    cells st1 = cells st @ [(k, fresh st, w)] \<and> deref st1 (fresh st) = Some w \<and>
    (\<forall>u j. sym_find st1 u j = (if u = t \<and> j = k then Some (fresh st) else sym_find st u j)) \<and>
    (\<forall>u j. value_of st1 u j = (if u = t \<and> j = k then w else value_of st u j)) \<and>
    st1 = (set_symtab t \<lparr>names = names (symtab_of st t) @ [(k, Own (fresh st))],
                         next_free = od_bump k (next_free (symtab_of st t))\<rparr> st)\<lparr>cells := cells st1, fresh := fresh st1\<rparr>"
proof -
  let ?a = "fresh st" and ?y = "symtab_of st t"
  obtain w m where p: "place v (Suc ?a) = (w, m)" by fastforce
  have w: "Suc ?a \<le> m" "bare w = bare v" "distinct (labels w)" "set (labels w) \<subseteq> {Suc ?a..<m}"
    using place_ok(1) [where v = v and n = "Suc ?a"] by (simp_all add: p)
  have a: "?a \<notin> set (labels_elems (cells st))" using scope_okD(1) [OF assms(1)] by (auto simp: vars_ok_def)
  have put: "put_elems ?a w (cells st @ [(k, ?a, VUndef)]) = cells st @ [(k, ?a, w)]"
  proof -
    have "put_elems ?a w (es @ zs) = put_elems ?a w es @ put_elems ?a w zs" for es zs :: "'a elems"
      by (induction es) auto
    then show ?thesis using a by (simp add: put_absent(2))
  qed
  define st1 where "st1 = (set_symtab t \<lparr>names = names ?y @ [(k, Own ?a)], next_free = od_bump k (next_free ?y)\<rparr> st)
    \<lparr>cells := cells st @ [(k, ?a, w)], fresh := m\<rparr>"
  have n: "map_of (names ?y) k = None" using assms(3) by (simp add: sym_find_def)
  have u: "sym_update t k v st = (?a, st1)"
    using n p put by (simp add: sym_update_def Let_def store_temp_def set_cell_def st1_def)
  have f: "sym_find st1 u j = (if u = t \<and> j = k then Some ?a else sym_find st u j)" for u j
    using symtab_of_set [OF assms(2)] n
    by (auto simp: sym_find_def st1_def symtab_of_def [of "_\<lparr>fresh := _\<rparr>"] symtab_of_def [symmetric] map_of_snoc slot_addr_def simp del: map_of_append split: option.splits)
  have l: "labels_elems (cells st1) = labels_elems (cells st) @ ?a # labels w" by (simp add: st1_def)
  have m: "map fst (symtabs st1) = map fst (symtabs st)" "set (map fst (symtabs st1)) = fst ` set (symtabs st)"
    using arg_cong [OF symtabs_set, of set t _ st] by (simp_all add: st1_def)
  let ?old = "fst ` set (symtabs st) \<union> set (labels_elems (cells st))"
  have lt: "x < ?a" if "x \<in> ?old" for x using scope_okD(1) [OF assms(1)] that by (auto simp: vars_ok_def)
  have gt: "?a < x \<and> x < m" if "x \<in> set (labels w)" for x using w(4) that by auto
  have disj: "x \<notin> set (labels w) \<and> x \<noteq> ?a" if "x \<in> ?old" for x using lt [OF that] gt [of x] by auto
  have "distinct (map fst (symtabs st) @ labels_elems (cells st) @ ?a # labels w)"
    using scope_okD(1) [OF assms(1)] w(3) disj gt unfolding vars_ok_def by auto
  moreover have "x < fresh st1" if "x \<in> ?old \<union> insert ?a (set (labels w))" for x
  proof -
    have "x \<in> ?old \<or> x = ?a \<or> x \<in> set (labels w)" using that by blast
    then show ?thesis using lt [of x] gt [of x] w(1) by (elim disjE) (simp_all add: st1_def)
  qed
  ultimately have ok: "vars_ok st1" unfolding vars_ok_def l m by auto
  have d: "deref st1 ?a = Some w"
    using look_entry [of k ?a w "cells st1"] vars_okD [OF ok] by (simp add: st1_def deref_def)
  have o: "deref st1 b = deref st b" if b: "b \<in> top_cells (cells st)" for b
  proof -
    obtain j x where e: "(j, b, x) \<in> set (cells st)" "look_elems b (cells st) = Some x"
      using top_cell_look [OF b vars_okD [OF scope_okD(1) [OF assms(1)]]] by blast
    then show ?thesis using look_entry [of j b x "cells st1"] vars_okD [OF ok] by (simp add: st1_def deref_def)
  qed
  have "scope_ok st1" unfolding scope_ok_def
  proof (intro conjI allI impI)
    show "active_table st1 \<in> fst ` set (symtabs st1)"
      using scope_okD(2) [OF assms(1)] by (simp add: st1_def)
    fix u j b
    assume "sym_find st1 u j = Some b"
    then have "b = ?a \<or> b \<in> top_cells (cells st)" using scope_okD(3) [OF assms(1), of u j b] f [of u j] by (auto split: if_splits)
    then show "b \<in> top_cells (cells st1)" by (auto simp: st1_def top_cells_def)
  qed (rule ok)
  moreover have "value_of st1 u j = (if u = t \<and> j = k then w else value_of st u j)" for u j
    using o scope_okD(3) [OF assms(1), of u j] d by (auto simp: value_of_def f split: option.splits)
  moreover have "st1 = (set_symtab t \<lparr>names = names ?y @ [(k, Own ?a)], next_free = od_bump k (next_free ?y)\<rparr> st)
      \<lparr>cells := cells st1, fresh := fresh st1\<rparr>" by (simp add: st1_def)
  moreover have "cells st1 = cells st @ [(k, ?a, w)]" by (simp add: st1_def)
  ultimately show ?thesis using u w(2) d f by blast
qed

subsection \<open>The pointer of an array variable\<close>

text \<open>
  A pointer into the variable of cell \<open>a\<close>: writing \<open>x\<close> through it makes the value of \<open>a\<close> into \<open>V x\<close>.  The
  handlers that made it changed only cells, and recorded at most one entry.
\<close>

definition only_cells :: "'d vars \<Rightarrow> 'd vars \<Rightarrow> bool" where
  "only_cells st st' \<longleftrightarrow> st' = st\<lparr>cells := cells st', fresh := fresh st', trackers := trackers st'\<rparr>"

lemma only_cells_trans: "only_cells st st1 \<Longrightarrow> only_cells st1 st2 \<Longrightarrow> only_cells st st2"
  unfolding only_cells_def by (cases st; cases st1; cases st2) simp

lemma only_cells_cells: "st' = st\<lparr>cells := c\<rparr> \<Longrightarrow> only_cells st st'"
  unfolding only_cells_def by (cases st; cases st') simp

lemma only_cells_same:
  assumes "only_cells st st'"
  shows "symtabs st' = symtabs st" "active_table st' = active_table st" "globals_table st' = globals_table st"
    "sym_find st' t k = sym_find st t k" "notices st' = notices st" "array_ptr st' = array_ptr st"
proof -
  show s: "symtabs st' = symtabs st" "active_table st' = active_table st" "globals_table st' = globals_table st"
    "notices st' = notices st" "array_ptr st' = array_ptr st"
    using assms unfolding only_cells_def by (cases st; cases st'; simp)+
  show "sym_find st' t k = sym_find st t k" by (simp add: sym_find_def symtab_of_def s(1))
qed

lemma cell_step_only:
  assumes "cell_step st p st' c u V"
  shows "only_cells st st'"
proof -
  have e: "st' = st\<lparr>cells := put_elems p (V u) (cells st), fresh := fresh st', trackers := trackers st'\<rparr>"
    using assms unfolding cell_step_def by blast
  have c: "cells st' = put_elems p (V u) (cells st)" using arg_cong [OF e, of cells] by simp
  show ?thesis unfolding only_cells_def c by (rule e)
qed

definition points_into :: "'d vars \<Rightarrow> nat \<Rightarrow> bool \<Rightarrow> varptr \<Rightarrow> 'd vars \<Rightarrow> nat \<Rightarrow> ('d val \<Rightarrow> 'd val) \<Rightarrow> bool" where
  "points_into st a w0 p st' c V \<longleftrightarrow>
     pvalue p = Some c \<and> string_offset p = - 1 \<and> (w0 \<longrightarrow> array_write p) \<and>
     (if w0 \<or> \<not> array_write p then trackers st' = trackers st else \<exists>y. trackers st' = y # trackers st) \<and>
     vars_ok st' \<and> (\<exists>u. deref st' c = Some u) \<and> (\<forall>x. put_elems c x (cells st') = put_elems a (V x) (cells st)) \<and>
     only_cells st st'"

lemma end_array_parsing_ok:
  assumes "deref st c = Some u" "pvalue dim = Some c" "vars_ok st"
  shows "\<exists>st'. end_array_parsing dim st = Some (dim, st') \<and> vars_ok st' \<and> (\<exists>u'. deref st' c = Some u') \<and>
    (\<forall>x. put_elems c x (cells st') = put_elems c x (cells st)) \<and> only_cells st st' \<and> trackers st' = trackers st"
proof (cases "u = VNull")
  case True
  have "vars_ok (st\<lparr>cells := put_elems c VEmpty (cells st), fresh := fresh st\<rparr>)"
    by (rule vars_ok_put [OF assms(3,1)]) simp_all
  then show ?thesis using True assms look_put(2) [OF assms(1) [unfolded deref_def] vars_okD [OF assms(3)], of VEmpty]
    by (simp add: end_array_parsing_def set_cell_def only_cells_def)
next
  case False
  then have "end_array_parsing dim st = Some (dim, st)" using assms by (cases u) (simp_all add: end_array_parsing_def)
  then show ?thesis using assms by (simp add: only_cells_def)
qed

lemma dims_pointer:
  assumes "vars_ok st" "deref st a = Some v" "dim_keys F es = Some ks" "vstore ks VNull (bare v) \<noteq> None"
  shows "\<exists>p st2 st' c V. fetch_dims F es \<lparr>pvalue = Some a, string_offset = - 1, array_write = w0\<rparr> st = Some (p, st2) \<and>
    end_array_parsing p st2 = Some (p, st') \<and> points_into st a w0 p st' c V \<and>
    (\<forall>x. Some (bare (V x)) = vstore ks (bare x) (bare v))"
proof -
  let ?d = "\<lparr>pvalue = Some a, string_offset = - 1, array_write = w0\<rparr>"
  obtain c u V w st2 where 1: "fetch_dims F es ?d st = Some (?d\<lparr>pvalue := Some c, array_write := w\<rparr>, st2)"
    "cell_step st a st2 c u V" "\<forall>x. Some (bare (V x)) = vstore ks (bare x) (bare v)" "w0 \<longrightarrow> w"
    "if w0 \<or> \<not> w then trackers st2 = trackers st else \<exists>y. trackers st2 = y # trackers st"
    using fetch_dims_ok [OF assms, of ?d] by auto
  let ?p = "\<lparr>pvalue = Some c, string_offset = - 1, array_write = w\<rparr>"
  have s: "deref st2 c = Some u" "vars_ok st2" "\<And>x. put_elems c x (cells st2) = put_elems a (V x) (cells st)"
    "only_cells st st2"
    using 1(2) cell_step_only [OF 1(2)] unfolding cell_step_def by blast+
  obtain st' where 2: "end_array_parsing ?p st2 = Some (?p, st')" "vars_ok st'" "\<exists>u'. deref st' c = Some u'"
    "\<And>x. put_elems c x (cells st') = put_elems c x (cells st2)" "only_cells st2 st'" "trackers st' = trackers st2"
    using end_array_parsing_ok [OF s(1) _ s(2), of ?p] by auto
  have "points_into st a w0 ?p st' c V"
    using 1(4,5) 2 s(3) only_cells_trans [OF s(4) 2(5)] unfolding points_into_def by (simp split: if_splits)
  then show ?thesis using 1(1,3) 2(1) by auto
qed

text \<open>The scope with the variable in it: the state itself, or that with the variable just made.\<close>

definition with_variable :: "'d vars \<Rightarrow> string \<Rightarrow> 'd vars \<Rightarrow> nat \<Rightarrow> bool \<Rightarrow> bool" where
  "with_variable st s st0 a made \<longleftrightarrow>
     scope_ok st0 \<and> sym_find st0 (active_table st) (name_key s) = Some a \<and> active_table st0 = active_table st \<and>
     (made \<longleftrightarrow> sym_find st (active_table st) (name_key s) = None) \<and>
     trackers st0 = (if made then Track_string (active_table st) s # trackers st else trackers st) \<and>
     (\<forall>u j. (u, j) \<noteq> (active_table st, name_key s) \<longrightarrow>
        sym_find st0 u j = sym_find st u j \<and> value_of st0 u j = value_of st u j) \<and>
     (\<not> made \<longrightarrow> sym_find st (active_table st) (name_key s) = Some a \<and> cells st0 = cells st \<and> symtabs st0 = symtabs st) \<and>
     (made \<longrightarrow> a = fresh st \<and> (\<exists>w. cells st0 = cells st @ [(name_key s, a, w)]) \<and>
        symtabs st0 = symtabs (set_symtab (active_table st)
          \<lparr>names = names (symtab_of st (active_table st)) @ [(name_key s, Own a)],
           next_free = od_bump (name_key s) (next_free (symtab_of st (active_table st)))\<rparr> st))"

lemma scope_ok_update [simp]:
  "scope_ok (st\<lparr>trackers := x\<rparr>) = scope_ok st" "scope_ok (st\<lparr>array_ptr := z\<rparr>) = scope_ok st"
  "scope_ok (st\<lparr>array_ptr_write := u\<rparr>) = scope_ok st" "scope_ok (st\<lparr>notices := y\<rparr>) = scope_ok st"
  by (simp_all add: scope_ok_def)

lemma value_of_update [simp]:
  "value_of (st\<lparr>trackers := x\<rparr>) t k = value_of st t k" "value_of (st\<lparr>array_ptr := z\<rparr>) t k = value_of st t k"
  "value_of (st\<lparr>array_ptr_write := u\<rparr>) t k = value_of st t k" "value_of (st\<lparr>notices := y\<rparr>) t k = value_of st t k"
  by (simp_all add: value_of_def split: option.splits)

lemma with_variable_update [simp]:
  "with_variable st s (st0\<lparr>array_ptr := z\<rparr>) a made = with_variable st s st0 a made"
  "with_variable st s (st0\<lparr>array_ptr_write := u\<rparr>) a made = with_variable st s st0 a made"
  by (simp_all add: with_variable_def)

lemma with_variable_old:
  assumes "scope_ok st" "sym_find st (active_table st) (name_key s) = Some a"
  shows "with_variable st s st a False"
  using assms by (simp add: with_variable_def)

lemma with_variable_new:
  assumes "scope_ok st" "sym_find st (active_table st) (name_key s) = None"
  shows "\<exists>w st1. sym_update (active_table st) (name_key s) v st = (fresh st, st1) \<and> bare w = bare v \<and> deref st1 (fresh st) = Some w \<and>
    with_variable st s (track False (Track_string (active_table st) s) st1) (fresh st) True"
proof -
  obtain w st1 where n: "sym_update (active_table st) (name_key s) v st = (fresh st, st1)" "bare w = bare v" "scope_ok st1"
    "cells st1 = cells st @ [(name_key s, fresh st, w)]" "deref st1 (fresh st) = Some w"
    "\<forall>u j. sym_find st1 u j = (if u = active_table st \<and> j = name_key s then Some (fresh st) else sym_find st u j)"
    "\<forall>u j. value_of st1 u j = (if u = active_table st \<and> j = name_key s then w else value_of st u j)"
    "st1 = (set_symtab (active_table st) \<lparr>names = names (symtab_of st (active_table st)) @ [(name_key s, Own (fresh st))],
        next_free = od_bump (name_key s) (next_free (symtab_of st (active_table st)))\<rparr> st)\<lparr>cells := cells st1, fresh := fresh st1\<rparr>"
    using sym_update_new [OF assms(1) scope_okD(2) [OF assms(1)] assms(2), of v] by blast
  have r: "active_table st1 = active_table st" "trackers st1 = trackers st"
    "symtabs st1 = symtabs (set_symtab (active_table st) \<lparr>names = names (symtab_of st (active_table st)) @ [(name_key s, Own (fresh st))],
        next_free = od_bump (name_key s) (next_free (symtab_of st (active_table st)))\<rparr> st)"
    using arg_cong [OF n(8), of active_table] arg_cong [OF n(8), of trackers] arg_cong [OF n(8), of symtabs] by simp_all
  have "with_variable st s (track False (Track_string (active_table st) s) st1) (fresh st) True"
    using n(3,4,6,7) r assms(2) by (auto simp: with_variable_def track_def)
  then show ?thesis using n(1,2,5) by blast
qed

lemma is_array_string:
  assumes "as_array v \<noteq> None" "v \<noteq> VNull"
  shows "deref st a = Some v \<Longrightarrow> check_array_ptr a w st = Some (st\<lparr>array_ptr := Some a, array_ptr_write := w\<rparr>)"
  using assms by (cases v) (simp_all add: check_array_ptr_def as_array_def)

lemma start_array_parsing_ok:
  assumes "scope_ok st" "string_of_val nm = Some s" "value_of st (active_table st) (name_key s) = v"
    "as_array v \<noteq> None" "v \<noteq> VNull"
  shows "\<exists>st0 a made v0. start_array_parsing nm None st = Some st0 \<and> with_variable st s st0 a made \<and>
    array_ptr st0 = Some a \<and> array_ptr_write st0 = made \<and> deref st0 a = Some v0 \<and>
    (if made then bare v0 = VArray 0 [] 0 else v0 = v)"
proof (cases "sym_find st (active_table st) (name_key s)")
  case None
  obtain w st1 where n: "sym_update (active_table st) (name_key s) (VArray 0 [] 0) st = (fresh st, st1)" "bare w = VArray 0 [] 0"
    "deref st1 (fresh st) = Some w" "with_variable st s (track False (Track_string (active_table st) s) st1) (fresh st) True"
    using with_variable_new [OF assms(1) None, of "VArray 0 [] 0"] by auto
  have "as_array w \<noteq> None" "w \<noteq> VNull" using n(2) by (cases w; simp add: as_array_def)+
  then have c: "check_array_ptr (fresh st) True (track False (Track_string (active_table st) s) st1) =
      Some ((track False (Track_string (active_table st) s) st1)\<lparr>array_ptr := Some (fresh st), array_ptr_write := True\<rparr>)"
    by (rule is_array_string) (use n(3) in \<open>simp add: track_def\<close>)
  then show ?thesis using n None assms(2)
    by (auto simp: start_array_parsing_def track_def
        intro!: exI [of _ "(track False (Track_string (active_table st) s) st1)\<lparr>array_ptr := Some (fresh st), array_ptr_write := True\<rparr>"])
next
  case (Some a)
  then have d: "deref st a = Some v" using scope_cell [OF assms(1) Some] assms(3) by auto
  have "start_array_parsing nm None st = Some (st\<lparr>array_ptr := Some a, array_ptr_write := False\<rparr>)"
    using Some assms(2) is_array_string [OF assms(4,5) d] by (simp add: start_array_parsing_def)
  then show ?thesis using with_variable_old [OF assms(1) Some] d
    by (intro exI [of _ "st\<lparr>array_ptr := Some a, array_ptr_write := False\<rparr>"] exI [of _ a] exI [of _ False] exI [of _ v]) simp
qed

lemma vstore_empty:
  assumes "as_array v = Some ([], 0)" "ks \<noteq> []"
  shows "vstore ks x v = vstore ks x (VArray 0 [] 0)"
proof -
  obtain k ks' where k: "ks = k # ks'" using assms(2) by (cases ks) auto
  have "vget k v = vget k (VArray 0 [] 0)" "vput k v y = vput k (VArray 0 [] 0) y" for y
    using vget_as_array [OF assms(1)] vput_as_array [OF assms(1)] by (simp_all add: vget_def vput_def as_array_def)
  moreover from this have "vput k v = vput k (VArray 0 [] 0)" by auto
  ultimately show ?thesis by (simp add: k split: option.splits)
qed

lemma dim_keys_length: "dim_keys F es = Some ks \<Longrightarrow> length ks = length es"
  by (induction es arbitrary: ks) (auto split: Option.bind_splits)

text \<open>The pointer to a variable, whether it existed or not, with dimensions or without.\<close>

lemma variable_pointer:
  assumes "scope_ok st" "string_of_val nm = Some s" "dim_keys F es = Some ks"
    and v: "value_of st (active_table st) (name_key s) = v" "vstore ks VNull (bare v) \<noteq> None" "es \<noteq> [] \<Longrightarrow> v \<noteq> VNull"
  shows "\<exists>p st1 st0 a made c V. assignment_variable_pointer F old nm es st = Some (p, st1) \<and> with_variable st s st0 a made \<and>
    points_into st0 a made p st1 c V \<and> (\<forall>x. Some (bare (V x)) = vstore ks (bare x) (bare v))"
proof (cases "es = []")
  case True
  then have ks: "ks = []" using assms(3) by simp
  have p: "points_into st0 a made \<lparr>pvalue = Some a, string_offset = - 1, array_write = made\<rparr> st0 a (\<lambda>x. x)"
    if "with_variable st s st0 a made" "\<exists>u. deref st0 a = Some u" for st0 a made
    using that by (auto simp: points_into_def only_cells_def with_variable_def scope_okD(1))
  show ?thesis
  proof (cases "sym_find st (active_table st) (name_key s)")
    case None
    obtain w st1 where n: "sym_update (active_table st) (name_key s) VUndef st = (fresh st, st1)" "deref st1 (fresh st) = Some w"
      "with_variable st s (track False (Track_string (active_table st) s) st1) (fresh st) True"
      using with_variable_new [OF assms(1) None, of VUndef] by blast
    have "points_into (track False (Track_string (active_table st) s) st1) (fresh st) True
        \<lparr>pvalue = Some (fresh st), string_offset = - 1, array_write = True\<rparr>
        (track False (Track_string (active_table st) s) st1) (fresh st) (\<lambda>x. x)"
      by (rule p [OF n(3)]) (use n(2) in \<open>simp add: track_def\<close>)
    then show ?thesis using n(1,3) None assms(2)
      by (simp add: assignment_variable_pointer_def True get_regular_variable_pointer_def ks) blast
  next
    case (Some a)
    have "\<exists>u. deref st a = Some u" using scope_cell [OF assms(1) Some] by blast
    then show ?thesis using p [OF with_variable_old [OF assms(1) Some]] with_variable_old [OF assms(1) Some] Some assms(2)
      by (simp add: assignment_variable_pointer_def True get_regular_variable_pointer_def ks) blast
  qed
next
  case False
  then have ks: "ks \<noteq> []" using dim_keys_length [OF assms(3)] by auto
  then obtain k ks' where "ks = k # ks'" by (cases ks) auto
  then have "vget k (bare v) \<noteq> None" using v(2) by (auto split: option.splits)
  then have arr: "as_array v \<noteq> None" by (auto simp: vget_def as_array_bare split: option.splits)
  obtain st0 a made v0 where 1: "start_array_parsing nm None st = Some st0" "with_variable st s st0 a made"
    "array_ptr st0 = Some a" "array_ptr_write st0 = made" "deref st0 a = Some v0"
    "if made then bare v0 = VArray 0 [] 0 else v0 = v"
    using start_array_parsing_ok [OF assms(1,2) v(1) arr v(3) [OF False]] by blast
  have e: "vstore ks x (bare v0) = vstore ks x (bare v)" for x
  proof (cases made)
    case True
    then have "v = VUndef" using 1(2) v(1) by (simp add: with_variable_def value_of_def)
    then show ?thesis using vstore_empty [OF _ ks, of VUndef x] 1(6) True by (simp add: as_array_def)
  qed (use 1(6) in simp)
  have d: "start_dimensions_parsing old st0 = \<lparr>pvalue = Some a, string_offset = - 1, array_write = made\<rparr>"
    by (simp add: start_dimensions_parsing_def 1(3,4))
  have ok: "vars_ok st0" using 1(2) by (simp add: with_variable_def scope_okD(1))
  obtain p st2 st' c V where 2: "fetch_dims F es (start_dimensions_parsing old st0) st0 = Some (p, st2)"
    "end_array_parsing p st2 = Some (p, st')" "points_into st0 a made p st' c V" "\<forall>x. Some (bare (V x)) = vstore ks (bare x) (bare v0)"
    using dims_pointer [OF ok 1(5) assms(3), of made] v(2) by (auto simp: e d)
  have "assignment_variable_pointer F old nm es st = Some (p, st')"
    using 1(1) 2(1,2) False by (simp add: assignment_variable_pointer_def multi_dimensional_array_def)
  then show ?thesis using 1(2) 2(3,4) unfolding e by blast
qed

end
