(* ===== verification/Var_Probe.thy ===== *)
theory Var_Probe
  imports Var_Scope
begin

text \<open>
  Looking at a variable makes it: the handlers insert what is missing on the path, record the first entry
  they made, and take it out again when it turns out that nothing is assigned.
\<close>

subsection \<open>Paths that are there, and the record of the first missing entry\<close>

text \<open>The value at the end of a path; on the way to the first missing entry there are only arrays.\<close>

fun vfind :: "hkey option list \<Rightarrow> 'd val \<Rightarrow> 'd val option" where
  "vfind [] v = Some v"
| "vfind (k # ks) v =
     (case v of
        VArray t es n \<Rightarrow> (case elem_find (the_key k n) es of Some (a, u) \<Rightarrow> vfind ks u | None \<Rightarrow> None)
      | _ \<Rightarrow> None)"

fun solid :: "hkey option list \<Rightarrow> 'd val \<Rightarrow> bool" where
  "solid [] v = True"
| "solid (k # ks) v =
     (case v of
        VArray t es n \<Rightarrow> (case elem_find (the_key k n) es of Some (a, u) \<Rightarrow> solid ks u | None \<Rightarrow> True)
      | _ \<Rightarrow> False)"

text \<open>Indices that a tracker can hold: names, and numbers that are an \<open>int\<close>.\<close>

definition index_fits :: "'d fp \<Rightarrow> 'd val option \<Rightarrow> bool" where
  "index_fits F e =
     (case e of
        None \<Rightarrow> False
      | Some i \<Rightarrow>
          (case index_key F i of
             Some (KIdx w, _) \<Rightarrow> - 2147483648 \<le> sint w \<and> sint w < 2147483648
           | Some (KStr _, _) \<Rightarrow> True
           | None \<Rightarrow> False))"

definition tracker_table :: "tracker \<Rightarrow> nat" where
  "tracker_table y = (case y of Track_string t s \<Rightarrow> t | Track_long t l \<Rightarrow> t)"

definition tracker_key :: "tracker \<Rightarrow> hkey" where
  "tracker_key y = (case y of Track_string t s \<Rightarrow> name_key s | Track_long t l \<Rightarrow> KIdx (word_of_int l))"

lemma clean_delete:
  "trackers st = y # ys \<Longrightarrow>
     clean_unassigned_variable_top True st = (table_delete (tracker_table y) (tracker_key y) st)\<lparr>trackers := ys\<rparr>"
  by (cases y) (simp_all add: clean_unassigned_variable_top_def tracker_table_def tracker_key_def Let_def)

lemma tracker_exact:
  assumes "index_fits F e" "dim_key F e = Some k"
  shows "k \<noteq> None" "tracker_table (elem_tracker F e t n) = t" "tracker_key (elem_tracker F e t n) = the_key k n"
proof -
  obtain i j y where e: "e = Some i" "index_key F i = Some (j, y)" "k = Some j"
    using assms by (cases e) (auto simp: index_fits_def dim_key_def split: option.splits)
  have "tracker_table (y t) = t \<and> tracker_key (y t) = j"
    using e(2) assms(1) e(1)
    by (cases i) (auto simp: index_key_def index_fits_def tracker_table_def tracker_key_def int_exact Let_def)
  then show "k \<noteq> None" "tracker_table (elem_tracker F e t n) = t" "tracker_key (elem_tracker F e t n) = the_key k n"
    using e by (simp_all add: elem_tracker_def the_key_def)
qed

lemma vstore_null: "vstore ks x VNull \<noteq> None"
  by (induction ks) (simp_all add: vget_def as_array_def elem_find_def)

lemma fetch_dims_probe:
  assumes "vars_ok st" "deref st p = Some v" "dim_keys F es = Some ks" "solid ks v" "\<forall>e \<in> set es. index_fits F e"
  shows "(\<exists>c u. fetch_dims F es \<lparr>pvalue = Some p, string_offset = - 1, array_write = False\<rparr> st =
        Some (\<lparr>pvalue = Some c, string_offset = - 1, array_write = False\<rparr>, st) \<and> vfind ks v = Some u \<and> deref st c = Some u) \<or>
    vfind ks v = None \<and> (\<exists>c u W st' q t xs n k a y.
      fetch_dims F es \<lparr>pvalue = Some p, string_offset = - 1, array_write = False\<rparr> st =
        Some (\<lparr>pvalue = Some c, string_offset = - 1, array_write = True\<rparr>, st') \<and>
      deref st q = Some (VArray t xs n) \<and> elem_find k xs = None \<and>
      cell_step st q st' c u (\<lambda>x. VArray t (xs @ [(k, a, W x)]) (od_bump k n)) \<and>
      trackers st' = y # trackers st \<and> tracker_table y = t \<and> tracker_key y = k)"
  using assms
proof (induction es arbitrary: p v ks)
  case Nil
  then show ?case by simp
next
  case (Cons e es)
  obtain k ks' where k: "dim_key F e = Some k" "dim_keys F es = Some ks'" "ks = k # ks'"
    using Cons.prems(3) by (auto split: Option.bind_splits)
  obtain t xs n where v: "v = VArray t xs n" using Cons.prems(4) k(3) by (cases v) simp_all
  note d = Cons.prems(2) [unfolded v]
  have fits: "index_fits F e" "\<forall>e \<in> set es. index_fits F e" using Cons.prems(5) by simp_all
  note tr = tracker_exact [OF fits(1) k(1)]
  let ?dim = "\<lambda>p w. \<lparr>pvalue = Some p, string_offset = - 1, array_write = w\<rparr>"
  have f: "fetch_array_index F e (?dim p False) st = fetch_element F e p (?dim p False) st"
    using Cons.prems(2) v by (simp add: fetch_array_index_def)
  show ?case
  proof (cases "elem_find (the_key k n) xs")
    case (Some au)
    obtain a u where au: "au = (a, u)" by (cases au)
    have g: "vget k (VArray t xs n) = Some u" using Some tr(1) by (simp add: vget_def as_array_def au)
    have "fetch_element F e p (?dim p False) st = Some (?dim a False, st)" "cell_step st p st a u (\<lambda>x. VArray t (put_elems a x xs) n)"
      using fetch_element_found [OF Cons.prems(1) d k(1) g Some [unfolded au], of "?dim p False"] by auto
    moreover from this have "deref st a = Some u" by (simp add: cell_step_def)
    moreover have "solid ks' u" "vfind ks v = vfind ks' u" using Cons.prems(4) Some by (simp_all add: k(3) v au)
    ultimately show ?thesis using Cons.IH [OF Cons.prems(1) _ k(2) _ fits(2), of a u] f by simp
  next
    case None
    obtain st1 where 1: "fetch_element F e p (?dim p False) st = Some (?dim (fresh st) True, st1)"
      "cell_step st p st1 (fresh st) VNull (\<lambda>x. VArray t (xs @ [(the_key k n, fresh st, x)]) (od_bump (the_key k n) n))"
      "trackers st1 = elem_tracker F e t n # trackers st"
      using fetch_element_new [OF Cons.prems(1) d k(1) None, of "?dim p False"] by auto
    have c: "vars_ok st1" "deref st1 (fresh st) = Some VNull" using 1(2) by (simp_all add: cell_step_def)
    obtain c u W st2 where 2: "fetch_dims F es (?dim (fresh st) True) st1 = Some (?dim c True, st2)"
      "cell_step st1 (fresh st) st2 c u W" "trackers st2 = trackers st1"
      using fetch_dims_ok [OF c k(2), of "?dim (fresh st) True"] vstore_null by fastforce
    have "vfind ks v = None" using None by (simp add: k(3) v)
    moreover have "fetch_dims F (e # es) (?dim p False) st = Some (?dim c True, st2)" using f 1(1) 2(1) by simp
    ultimately show ?thesis using cell_step_trans [OF 1(2) 2(2)] d None 2(3) 1(3) tr(2,3)
      by (intro disjI2 conjI exI [of _ c] exI [of _ u] exI [of _ W] exI [of _ st2] exI [of _ p] exI [of _ t] exI [of _ xs]
          exI [of _ n] exI [of _ "the_key k n"] exI [of _ "fresh st"] exI [of _ "elem_tracker F e t n"]) simp_all
  qed
qed

subsection \<open>Taking the entry out again\<close>

lemma del_absent:
  fixes v :: "'d val" and es :: "'d elems"
  shows "t \<notin> set (labels v) \<Longrightarrow> del_val t k v = v"
  "t \<notin> set (labels_elems es) \<Longrightarrow> del_elems t k es = es"
  by (induction t k v and t k es rule: del_val_del_elems.induct) auto

lemma del_inside:
  "look q v = Some (VArray t xs n) \<Longrightarrow> distinct (labels v) \<Longrightarrow> del_val t k v = put q (VArray t (od_delete k xs) n) v"
  "look_elems q es = Some (VArray t xs n) \<Longrightarrow> distinct (labels_elems es) \<Longrightarrow>
     del_elems t k es = put_elems q (VArray t (od_delete k xs) n) es"
proof (induction q v and q es rule: look_look_elems.induct)
  case (1 q u es m)
  have "t \<in> set (labels_elems es)" using look_labels(2) [of q es] 1(2) by simp
  then show ?case using 1 by auto
next
  case (2 q u es m)
  have "t \<in> set (labels_elems es)" using look_labels(2) [of q es] 2(2) by simp
  then show ?case using 2 by auto
next
  case (5 q j b v es)
  let ?w = "VArray t (od_delete k xs) n"
  show ?case
  proof (cases "q = b")
    case True
    then have "del_elems t k es = es" "put_elems q ?w es = es" using 5(3,4) by (auto intro!: del_absent put_absent)
    then show ?thesis using 5(3) True by auto
  next
    case n: False
    show ?thesis
    proof (cases "look q v")
      case (Some u)
      then have u: "look q v = Some (VArray t xs n)" using 5(3) n by simp
      then have "q \<in> set (labels v)" "t \<in> set (labels v)" using look_labels(1) [OF u] by auto
      then have "del_elems t k es = es" "put_elems q ?w es = es" using 5(4) by (auto intro!: del_absent put_absent)
      then show ?thesis using 5(1) [OF n u] 5(4) n by simp
    next
      case None
      then have es: "look_elems q es = Some (VArray t xs n)" using 5(3) n by simp
      then have "q \<in> set (labels_elems es)" "t \<in> set (labels_elems es)" using look_labels(2) [OF es] by auto
      then have "del_val t k v = v" "put q ?w v = v" using 5(4) by (auto intro!: del_absent put_absent)
      then show ?thesis using 5(2) [OF n None es] 5(4) n by simp
    qed
  qed
qed simp_all

lemma od_delete_new: "elem_find k xs = None \<Longrightarrow> od_delete k (xs @ [(k, y)]) = xs"
  by (induction xs) (auto simp: od_delete_def elem_find_def split: if_splits)

text \<open>Everything but the next free indices.\<close>

fun frozen :: "'d val \<Rightarrow> 'd val"
and frozen_elems :: "'d elems \<Rightarrow> 'd elems" where
  "frozen (VArray t es n) = VArray t (frozen_elems es) 0"
| "frozen (VObject t es n) = VObject t (frozen_elems es) 0"
| "frozen v = v"
| "frozen_elems [] = []"
| "frozen_elems ((k, a, v) # es) = (k, a, frozen v) # frozen_elems es"

lemma frozen_put:
  "look q v = Some u \<Longrightarrow> distinct (labels v) \<Longrightarrow> frozen w = frozen u \<Longrightarrow> frozen (put q w v) = frozen v"
  "look_elems q es = Some u \<Longrightarrow> distinct (labels_elems es) \<Longrightarrow> frozen w = frozen u \<Longrightarrow>
     frozen_elems (put_elems q w es) = frozen_elems es"
proof (induction q v and q es rule: look_look_elems.induct)
  case (5 q j b v es)
  show ?case
  proof (cases "q = b")
    case True
    then have "put_elems q w es = es" using 5(4) by (intro put_absent) auto
    then show ?thesis using 5(3,5) True by simp
  next
    case n: False
    show ?thesis
    proof (cases "look q v")
      case (Some u')
      then have "put_elems q w es = es" using look_labels(1) [OF Some] 5(4) by (intro put_absent) auto
      then show ?thesis using 5 n Some by simp
    next
      case None
      then have "look_elems q es = Some u" using 5(3) n by simp
      then have "q \<in> set (labels_elems es)" using look_labels(2) by blast
      then have "put q w v = v" using 5(4) by (intro put_absent) auto
      then show ?thesis using 5 n None by simp
    qed
  qed
qed simp_all

lemma clean_probe:
  assumes ok: "vars_ok st" "deref st q = Some (VArray t xs n)" "elem_find k xs = None"
    and step: "cell_step st q st1 c u (\<lambda>x. VArray t (xs @ [(k, a, W x)]) m)"
    and st2: "vars_ok st2" "deref st2 c = Some u'" "\<And>x. put_elems c x (cells st2) = put_elems c x (cells st1)"
      "trackers st2 = y # ys" "tracker_table y = t" "tracker_key y = k" "symtabs st2 = symtabs st"
  shows "cells (clean_unassigned_variable_top True st2) = put_elems q (VArray t xs m) (cells st) \<and>
    frozen_elems (cells (clean_unassigned_variable_top True st2)) = frozen_elems (cells st) \<and>
    symtabs (clean_unassigned_variable_top True st2) = symtabs st \<and> trackers (clean_unassigned_variable_top True st2) = ys"
proof -
  let ?V = "\<lambda>x. VArray t (xs @ [(k, a, W x)]) m"
  note l = ok(2) [unfolded deref_def] and d = vars_okD [OF ok(1)]
  have "cells st2 = put_elems c u' (cells st2)"
    using put_same(2) [OF st2(2) [unfolded deref_def] vars_okD [OF st2(1)]] by simp
  also have "\<dots> = put_elems q (?V u') (cells st)" using st2(3) step by (simp add: cell_step_def)
  finally have c: "cells st2 = put_elems q (?V u') (cells st)" .
  have "look_elems q (cells st2) = Some (?V u')" unfolding c by (rule look_put(2) [OF l d])
  then have "del_elems t k (cells st2) = put_elems q (VArray t (od_delete k (xs @ [(k, a, W u')])) m) (cells st2)"
    by (rule del_inside(2)) (rule vars_okD [OF st2(1)])
  then have del: "del_elems t k (cells st2) = put_elems q (VArray t xs m) (cells st)"
    by (simp add: c od_delete_new [OF ok(3)])
  have "t \<in> set (labels_elems (cells st))" using look_labels(2) [OF l] by simp
  then have "t \<notin> fst ` set (symtabs st2)" using ok(1) st2(7) by (auto simp: vars_ok_def)
  then have "clean_unassigned_variable_top True st2 = st2\<lparr>cells := put_elems q (VArray t xs m) (cells st), trackers := ys\<rparr>"
    unfolding clean_delete [OF st2(4)] st2(5,6) table_delete_def by (simp add: del)
  moreover have "frozen_elems (put_elems q (VArray t xs m) (cells st)) = frozen_elems (cells st)"
    by (rule frozen_put(2) [OF l d]) simp
  ultimately show ?thesis by (simp add: st2(7))
qed

text \<open>A variable that was made for its pointer is taken out with everything in it.\<close>

lemma filter_new: "a \<notin> top_cells es \<Longrightarrow> filter (\<lambda>(_, b, _). b \<noteq> a) es = es"
  by (induction es) (auto simp: top_cells_def)

lemma clean_made:
  assumes ok: "scope_ok st" and w: "with_variable st s st0 a True" and p: "points_into st0 a True p st1 c V"
  shows "cells (clean_unassigned_variable_top True st1) = cells st \<and> trackers (clean_unassigned_variable_top True st1) = trackers st \<and>
    (\<forall>t. names (symtab_of (clean_unassigned_variable_top True st1) t) = names (symtab_of st t))"
proof -
  let ?t = "active_table st" and ?k = "name_key s"
  let ?y = "symtab_of st ?t"
  let ?z = "\<lparr>names = names ?y @ [(?k, Own a)], next_free = od_bump ?k (next_free ?y)\<rparr>"
  obtain x where w0: "a = fresh st" "cells st0 = cells st @ [(?k, a, x)]" "trackers st0 = Track_string ?t s # trackers st"
    "symtabs st0 = symtabs (set_symtab ?t ?z st)" "sym_find st ?t ?k = None" "scope_ok st0"
    using w by (auto simp: with_variable_def)
  note t = scope_okD(2) [OF ok]
  obtain u where p1: "trackers st1 = trackers st0" "vars_ok st1" "deref st1 c = Some u"
    "\<And>x. put_elems c x (cells st1) = put_elems a (V x) (cells st0)" "only_cells st0 st1"
    using p by (auto simp: points_into_def)
  have a: "a \<notin> set (labels_elems (cells st))" using scope_okD(1) [OF ok] w0(1) by (auto simp: vars_ok_def)
  have "cells st1 = put_elems a (V u) (cells st0)"
    using put_same(2) [OF p1(3) [unfolded deref_def] vars_okD [OF p1(2)]] p1(4) by metis
  also have "\<dots> = cells st @ [(?k, a, V u)]"
  proof -
    have "put_elems a v (es @ zs) = put_elems a v es @ put_elems a v zs" for v and es zs :: "'a elems"
      by (induction es) auto
    then show ?thesis using a by (simp add: w0(2) put_absent(2))
  qed
  finally have c: "cells st1 = cells st @ [(?k, a, V u)]" .
  have "a \<notin> top_cells (cells st)" using a labels_entry by (fastforce simp: top_cells_def)
  then have f: "filter (\<lambda>(_, b, _). b \<noteq> a) (cells st1) = cells st" by (simp add: c filter_new)
  have sym: "symtabs st1 = symtabs (set_symtab ?t ?z st)" using only_cells_same(1) [OF p1(5)] w0(4) by simp
  then have so: "symtab_of st1 r = (if r = ?t then ?z else symtab_of st r)" for r
    using symtab_of_set [OF t, of ?z r] by (simp add: symtab_of_def)
  have n: "map_of (names ?y) ?k = None" using w0(5) by (simp add: sym_find_def)
  then have n2: "map_of (names ?z) ?k = Some (Own a)" by (simp add: map_of_snoc del: map_of_append)
  have dl: "od_delete ?k (names ?z) = names ?y"
    using n by (force simp: od_delete_def map_of_eq_None_iff filter_id_conv)
  have t1: "?t \<in> fst ` set (symtabs st1)" using t by (simp add: sym)
  have tr: "trackers st1 = Track_string ?t s # trackers st" using p1(1) w0(3) by simp
  have del: "table_delete ?t ?k st1 = set_symtab ?t (?z\<lparr>names := names ?y\<rparr>) (st1\<lparr>cells := cells st\<rparr>)"
    using t1 n2 dl f by (simp add: table_delete_def so free_slot_def Let_def)
  have cl: "clean_unassigned_variable_top True st1 = (table_delete ?t ?k st1)\<lparr>trackers := trackers st\<rparr>"
    using clean_delete [OF tr] by (simp add: tracker_table_def tracker_key_def)
  have "names (symtab_of (clean_unassigned_variable_top True st1) r) = names (symtab_of st r)" for r
  proof -
    have "symtab_of (clean_unassigned_variable_top True st1) r = symtab_of (table_delete ?t ?k st1) r"
      by (simp add: cl symtab_of_def)
    also have "\<dots> = (if r = ?t then ?z\<lparr>names := names ?y\<rparr> else symtab_of (st1\<lparr>cells := cells st\<rparr>) r)"
      unfolding del by (rule symtab_of_set) (simp add: t1)
    finally show ?thesis using so [of r] by (simp add: symtab_of_def)
  qed
  then show ?thesis by (simp add: cl del)
qed

subsection \<open>Probing a variable\<close>

text \<open>The state as it was, but for next free indices, counters and notices.\<close>

definition restored :: "'d vars \<Rightarrow> 'd vars \<Rightarrow> bool" where
  "restored st st' \<longleftrightarrow> frozen_elems (cells st') = frozen_elems (cells st) \<and>
     (\<forall>t. names (symtab_of st' t) = names (symtab_of st t)) \<and> trackers st' = trackers st"

lemma restored_update [simp]: "restored st (st'\<lparr>notices := x\<rparr>) = restored st st'"
  by (simp add: restored_def symtab_of_def)

lemma clean_notices:
  "clean_unassigned_variable_top d (note_that m st) = note_that m (clean_unassigned_variable_top d st)"
  by (auto simp: clean_unassigned_variable_top_def note_that_def table_delete_def free_slot_def set_symtab_def symtab_of_def
      Let_def split: list.splits tracker.splits option.splits binding.splits)

lemma variable_probe:
  assumes "scope_ok st" "string_of_val nm = Some s" "dim_keys F es = Some ks" "\<forall>e \<in> set es. index_fits F e"
    and v: "value_of st (active_table st) (name_key s) = v" "es \<noteq> [] \<Longrightarrow> sym_find st (active_table st) (name_key s) \<noteq> None \<Longrightarrow> solid ks v"
    "vfind ks v \<noteq> Some VNull"
  shows "\<exists>p st1 c u. assignment_variable_pointer F old nm es st = Some (p, st1) \<and> pvalue p = Some c \<and> string_offset p = - 1 \<and>
    deref st1 c = Some u \<and>
    (if array_write p then (vfind ks v = None \<or> vfind ks v = Some VUndef) \<and> restored st (clean_unassigned_variable_top True st1)
     else vfind ks v = Some u \<and> restored st st1)"
proof (cases "sym_find st (active_table st) (name_key s)")
  case None
  then have u: "v = VUndef" using v(1) by (simp add: value_of_def)
  have d: "vstore ks VNull (bare v) \<noteq> None"
    using vstore_null [of "tl ks"] by (cases ks) (simp_all add: u vget_def as_array_def elem_find_def)
  obtain p st1 st0 a made c V where 1: "assignment_variable_pointer F old nm es st = Some (p, st1)" "with_variable st s st0 a made"
    "points_into st0 a made p st1 c V"
    using variable_pointer [OF assms(1-3) v(1) d] u by blast
  have m: "made" using 1(2) None by (simp add: with_variable_def)
  obtain x where p: "pvalue p = Some c" "string_offset p = - 1" "array_write p" "deref st1 c = Some x"
    using 1(3) m by (auto simp: points_into_def)
  have "restored st (clean_unassigned_variable_top True st1)"
    using clean_made [OF assms(1)] 1(2,3) m by (simp add: restored_def)
  moreover have "vfind ks v = None \<or> vfind ks v = Some VUndef" by (cases ks) (simp_all add: u)
  ultimately show ?thesis using 1(1) p by auto
next
  case (Some a)
  then have d: "deref st a = Some v" using scope_cell [OF assms(1) Some] v(1) by auto
  show ?thesis
  proof (cases "es = []")
    case True
    then have "assignment_variable_pointer F old nm es st = Some (\<lparr>pvalue = Some a, string_offset = - 1, array_write = False\<rparr>, st)"
      using Some assms(2) by (simp add: assignment_variable_pointer_def get_regular_variable_pointer_def)
    moreover have "vfind ks v = Some v" using assms(3) True by simp
    ultimately show ?thesis using d by (simp add: restored_def)
  next
    case False
    let ?st = "st\<lparr>array_ptr := Some a, array_ptr_write := False\<rparr>"
    have so: "solid ks v" using v(2) False Some by simp
    have "ks \<noteq> []" using False dim_keys_length [OF assms(3)] by auto
    then have "as_array v \<noteq> None" "v \<noteq> VNull" using so by (cases ks; cases v; simp add: as_array_def)+
    then have start: "start_array_parsing nm None st = Some ?st"
      using Some assms(2) is_array_string d by (simp add: start_array_parsing_def)
    have dim: "start_dimensions_parsing old ?st = \<lparr>pvalue = Some a, string_offset = - 1, array_write = False\<rparr>"
      by (simp add: start_dimensions_parsing_def)
    have ok: "vars_ok ?st" "deref ?st a = Some v" using scope_okD(1) [OF assms(1)] d by simp_all
    have ptr: "assignment_variable_pointer F old nm es st =
        do { (p, st2) \<leftarrow> fetch_dims F es \<lparr>pvalue = Some a, string_offset = - 1, array_write = False\<rparr> ?st; end_array_parsing p st2 }"
      using False start dim by (simp add: assignment_variable_pointer_def multi_dimensional_array_def)
    have rs: "restored st st'" if "frozen_elems (cells st') = frozen_elems (cells st)" "symtabs st' = symtabs st" "trackers st' = trackers st" for st'
      using that by (simp add: restored_def symtab_of_def)
    consider (found) c u where "fetch_dims F es \<lparr>pvalue = Some a, string_offset = - 1, array_write = False\<rparr> ?st =
        Some (\<lparr>pvalue = Some c, string_offset = - 1, array_write = False\<rparr>, ?st)" "vfind ks v = Some u" "deref ?st c = Some u"
      | (made) c u W st' q t xs n k b y where "vfind ks v = None"
        "fetch_dims F es \<lparr>pvalue = Some a, string_offset = - 1, array_write = False\<rparr> ?st =
          Some (\<lparr>pvalue = Some c, string_offset = - 1, array_write = True\<rparr>, st')"
        "deref ?st q = Some (VArray t xs n)" "elem_find k xs = None"
        "cell_step ?st q st' c u (\<lambda>x. VArray t (xs @ [(k, b, W x)]) (od_bump k n))"
        "trackers st' = y # trackers ?st" "tracker_table y = t" "tracker_key y = k"
      using fetch_dims_probe [OF ok assms(3) so assms(4)] by blast
    then show ?thesis
    proof cases
      case found
      then have "end_array_parsing \<lparr>pvalue = Some c, string_offset = - 1, array_write = False\<rparr> ?st =
          Some (\<lparr>pvalue = Some c, string_offset = - 1, array_write = False\<rparr>, ?st)"
        using v(3) by (cases u) (simp_all add: end_array_parsing_def)
      then show ?thesis using found ptr rs [of ?st] by simp
    next
      case made
      let ?p = "\<lparr>pvalue = Some c, string_offset = - 1, array_write = True\<rparr>"
      have s: "deref st' c = Some u" "vars_ok st'" using made(5) by (simp_all add: cell_step_def)
      obtain st2 x where 2: "end_array_parsing ?p st' = Some (?p, st2)" "vars_ok st2" "deref st2 c = Some x"
        "\<And>x. put_elems c x (cells st2) = put_elems c x (cells st')" "only_cells st' st2" "trackers st2 = trackers st'"
        using end_array_parsing_ok [OF s(1) _ s(2), of ?p] by auto
      have sy: "symtabs st2 = symtabs ?st"
        using only_cells_same(1) [OF 2(5)] only_cells_same(1) [OF cell_step_only [OF made(5)]] by simp
      have tr: "trackers st2 = y # trackers ?st" using 2(6) made(6) by simp
      note cp = clean_probe [OF ok(1) made(3,4,5) 2(2-4) tr made(7,8) sy]
      have "frozen_elems (cells (clean_unassigned_variable_top True st2)) = frozen_elems (cells st)"
        using cp [THEN conjunct2, THEN conjunct1] by simp
      moreover have "symtabs (clean_unassigned_variable_top True st2) = symtabs st" "trackers (clean_unassigned_variable_top True st2) = trackers st"
        using cp [THEN conjunct2, THEN conjunct2] by simp_all
      ultimately have "restored st (clean_unassigned_variable_top True st2)" by (rule rs)
      then show ?thesis using made(1,2) 2(1,3) ptr by simp
    qed
  qed
qed

text \<open>
  What \<open>isset\<close>, \<open>empty\<close> and reading have in common: on a pointer that was made for the purpose they take
  the entry out again and answer as for an undefined variable, on any other they change no more than the
  notices.
\<close>

locale prober =
  fixes probe :: "varptr \<Rightarrow> 'd vars \<Rightarrow> ('r \<times> 'd vars) option" and answer :: "'d val \<Rightarrow> 'r"
  assumes made: "pvalue p = Some c \<Longrightarrow> string_offset p = - 1 \<Longrightarrow> array_write p \<Longrightarrow> deref st c = Some u \<Longrightarrow>
      \<exists>x. probe p st = Some (answer VUndef, (clean_unassigned_variable_top True st)\<lparr>notices := x\<rparr>)"
    and found: "pvalue p = Some c \<Longrightarrow> string_offset p = - 1 \<Longrightarrow> \<not> array_write p \<Longrightarrow> deref st c = Some u \<Longrightarrow>
      \<exists>x. probe p st = Some (answer u, st\<lparr>notices := x\<rparr>)"
begin

lemma probe_variable:
  assumes "scope_ok st" "string_of_val nm = Some s" "dim_keys F es = Some ks" "\<forall>e \<in> set es. index_fits F e"
    and v: "value_of st (active_table st) (name_key s) = v" "es \<noteq> [] \<Longrightarrow> sym_find st (active_table st) (name_key s) \<noteq> None \<Longrightarrow> solid ks v"
    "vfind ks v \<noteq> Some VNull"
  shows "\<exists>st'. do { (p, st1) \<leftarrow> assignment_variable_pointer F old nm es st; probe p st1 } =
      Some (answer (case vfind ks v of Some u \<Rightarrow> u | None \<Rightarrow> VUndef), st') \<and> restored st st'"
proof -
  obtain p st1 c u where p: "assignment_variable_pointer F old nm es st = Some (p, st1)" "pvalue p = Some c" "string_offset p = - 1"
    "deref st1 c = Some u"
    "if array_write p then (vfind ks v = None \<or> vfind ks v = Some VUndef) \<and> restored st (clean_unassigned_variable_top True st1)
     else vfind ks v = Some u \<and> restored st st1"
    using variable_probe [OF assms(1-4) v] by blast
  show ?thesis
  proof (cases "array_write p")
    case True
    then obtain x where "probe p st1 = Some (answer VUndef, (clean_unassigned_variable_top True st1)\<lparr>notices := x\<rparr>)"
      using made [OF p(2,3) _ p(4)] by blast
    then show ?thesis using p(1,5) True by auto
  next
    case False
    then obtain x where "probe p st1 = Some (answer u, st1\<lparr>notices := x\<rparr>)" using found [OF p(2,3) _ p(4)] by blast
    then show ?thesis using p(1,5) False by auto
  qed
qed

end

lemma same_notices: "st = st\<lparr>notices := notices st\<rparr>"
  by simp

interpretation isset: prober php3_isset "\<lambda>u. \<not> is_undef u"
  by unfold_locales (auto simp: php3_isset_def is_undef_def intro: same_notices)

interpretation reader: prober read_pointer_value pval_copy_constructor
proof
  fix p :: varptr and c st and u :: "'d val"
  assume p: "pvalue p = Some c" "string_offset p = - 1" "deref st c = Some u"
  have n: "note_that m s = s\<lparr>notices := notices s @ [m]\<rparr>" for m and s :: "'d vars" by (simp add: note_that_def)
  show "\<exists>x. read_pointer_value p st = Some (pval_copy_constructor VUndef, (clean_unassigned_variable_top True st)\<lparr>notices := x\<rparr>)"
    if "array_write p"
    using p that by (simp add: read_pointer_value_def clean_notices) (simp add: n, blast)
  show "\<exists>x. read_pointer_value p st = Some (pval_copy_constructor u, st\<lparr>notices := x\<rparr>)" if "\<not> array_write p"
  proof (cases "is_undef u")
    case True
    then have "u = VUndef" by (cases u) (simp_all add: is_undef_def)
    then show ?thesis using p that by (simp add: read_pointer_value_def is_undef_def) (simp add: n, blast)
  next
    case False
    then show ?thesis using p that by (simp add: read_pointer_value_def) (metis same_notices)
  qed
qed

definition empty_answer :: "'d fp \<Rightarrow> 'd val \<Rightarrow> bool" where
  "empty_answer F u = (plain_val u \<noteq> PString ''0'' \<and> \<not> pval_is_true F (plain_val u))"

lemma empty_answer_undef: "empty_answer F VUndef"
  by (simp add: empty_answer_def pval_is_true_def)

interpretation emptiness: prober "php3_empty F" "empty_answer F" for F
proof
  fix p :: varptr and c st and u :: "'d val"
  assume p: "pvalue p = Some c" "string_offset p = - 1" "deref st c = Some u"
  show "\<exists>x. php3_empty F p st = Some (empty_answer F VUndef, (clean_unassigned_variable_top True st)\<lparr>notices := x\<rparr>)" if "array_write p" for F
    using p that by (simp add: php3_empty_def php3_isset_def empty_answer_undef) (metis same_notices)
  show "\<exists>x. php3_empty F p st = Some (empty_answer F u, st\<lparr>notices := x\<rparr>)" if "\<not> array_write p" for F
  proof (cases "is_undef u")
    case True
    then have "u = VUndef" by (cases u) (simp_all add: is_undef_def)
    then show ?thesis using p that by (simp add: php3_empty_def php3_isset_def is_undef_def empty_answer_undef) (metis same_notices)
  next
    case False
    then show ?thesis using p that by (simp add: php3_empty_def php3_isset_def empty_answer_def) (metis same_notices)
  qed
qed

end
