(* ===== verification/Var_Props.thy ===== *)
theory Var_Props
  imports Var_Probe Value_Props
begin

text \<open>The properties of variables.\<close>

subsection \<open>Assignment\<close>

text \<open>Storing through a pointer, whatever was recorded of it.\<close>

lemma store_through:
  assumes "points_into st0 a made p st1 c V" "scope_ok st0" "sym_find st0 t0 k0 = Some a"
  shows "\<exists>st'. assign_to_variable F None p x st1 = Some (pval_copy_constructor x, st') \<and> scope_ok st' \<and>
    trackers st' = (if made then tl (trackers st0) else trackers st0) \<and>
    active_table st' = active_table st0 \<and> globals_table st' = globals_table st0 \<and>
    (\<forall>t k. sym_find st' t k = sym_find st0 t k) \<and>
    (\<exists>y. bare y = bare x \<and> (\<forall>t k. value_of st' t k = (if sym_find st0 t k = Some a then V y else value_of st0 t k)))"
proof -
  have p: "pvalue p = Some c" "string_offset p = - 1" "made \<longrightarrow> array_write p" "vars_ok st1"
    "if made \<or> \<not> array_write p then trackers st1 = trackers st0 else \<exists>y. trackers st1 = y # trackers st0"
    "\<And>x. put_elems c x (cells st1) = put_elems a (V x) (cells st0)" "only_cells st0 st1"
    using assms(1) unfolding points_into_def by blast+
  obtain u where u: "deref st1 c = Some u" using assms(1) by (auto simp: points_into_def)
  define st2 where "st2 = (if array_write p then clean_unassigned_variable_top False st1 else st1)"
  have c2: "st2 = st1\<lparr>trackers := trackers st2\<rparr>" "trackers st2 = (if made then tl (trackers st0) else trackers st0)"
    using p(3,5) by (auto simp: st2_def clean_unassigned_variable_top_def split: list.splits if_splits)
  have ok2: "vars_ok st2" "deref st2 c = Some u" "cells st2 = cells st1"
    using p(4) u by (subst c2(1), simp)+
  obtain y m where y: "store_temp c x st2 = st2\<lparr>cells := put_elems c y (cells st2), fresh := m\<rparr>" "bare y = bare x"
    "vars_ok (store_temp c x st2)"
    using store_temp_ok [OF ok2(1,2), of x] by blast
  let ?st = "store_temp c x st2"
  have o: "symtabs ?st = symtabs st0" "active_table ?st = active_table st0" "globals_table ?st = globals_table st0"
    using only_cells_same [OF p(7)] by (subst y(1), subst c2(1), simp)+
  have cs: "cells ?st = put_elems a (V y) (cells st0)" using p(6) by (simp add: y(1) ok2(3))
  have top: "a \<in> top_cells (cells st0)" using scope_okD(3) [OF assms(2,3)] .
  obtain v where v: "deref st0 a = Some v" using scope_cell [OF assms(2,3)] by blast
  have d: "deref ?st a = Some (V y)" unfolding deref_def cs
    by (rule look_put(2) [OF v [unfolded deref_def] vars_okD [OF scope_okD(1) [OF assms(2)]]])
  have "assign_to_variable F None p x st1 = Some (pval_copy_constructor x, ?st)"
    using p(1,2) u by (simp add: assign_to_variable_def st2_def Let_def)
  moreover have "scope_ok ?st" "value_of ?st t k = (if sym_find st0 t k = Some a then V y else value_of st0 t k)" for t k
    using scope_write [OF assms(2) top cs y(3) o(1,2) d] by blast+
  moreover have "trackers ?st = trackers st2" by (simp add: y(1))
  ultimately show ?thesis using c2(2) o y(2)
    by (intro exI [of _ ?st]) (auto simp: sym_find_def symtab_of_def)
qed

text \<open>An assignment, to a variable that existed or not.\<close>

lemma assignment_effect:
  assumes "scope_ok st" "string_of_val nm = Some s" "dim_keys F es = Some ks"
    "vstore ks (bare x) (bare (value_of st (active_table st) (name_key s))) = Some z"
    "es \<noteq> [] \<Longrightarrow> value_of st (active_table st) (name_key s) \<noteq> VNull"
  shows "\<exists>st'. assignment F None old nm es x st = Some (pval_copy_constructor x, st') \<and> scope_ok st' \<and>
    trackers st' = trackers st \<and>
    (\<forall>t k. bare (value_of st' t k) =
      (if (t, k) = (active_table st, name_key s) \<or>
          sym_find st t k \<noteq> None \<and> sym_find st t k = sym_find st (active_table st) (name_key s)
       then z else bare (value_of st t k)))"
proof -
  let ?t = "active_table st" and ?k = "name_key s"
  have d: "vstore ks VNull (bare (value_of st ?t ?k)) \<noteq> None" using assms(4) vstore_defined [of ks VNull _ "bare x"] by simp
  obtain p st1 st0 a made c V where 1: "assignment_variable_pointer F old nm es st = Some (p, st1)" "with_variable st s st0 a made"
    "points_into st0 a made p st1 c V" "\<forall>x. Some (bare (V x)) = vstore ks (bare x) (bare (value_of st ?t ?k))"
    using variable_pointer [OF assms(1-3) refl d assms(5)] by blast
  have w: "scope_ok st0" "sym_find st0 ?t ?k = Some a" "made \<longleftrightarrow> sym_find st ?t ?k = None"
    "trackers st0 = (if made then Track_string ?t s # trackers st else trackers st)"
    "\<And>u j. (u, j) \<noteq> (?t, ?k) \<Longrightarrow> sym_find st0 u j = sym_find st u j \<and> value_of st0 u j = value_of st u j"
    "made \<Longrightarrow> a = fresh st"
    using 1(2) unfolding with_variable_def by blast+
  obtain st' y where 2: "assign_to_variable F None p x st1 = Some (pval_copy_constructor x, st')" "scope_ok st'"
    "trackers st' = (if made then tl (trackers st0) else trackers st0)" "bare y = bare x"
    "\<And>t k. value_of st' t k = (if sym_find st0 t k = Some a then V y else value_of st0 t k)"
    using store_through [OF 1(3) w(1,2)] by blast
  have z: "bare (V y) = z" using 1(4) 2(4) assms(4) by (metis option.inject)
  have new: "sym_find st t k \<noteq> Some a" if "made" for t k
  proof
    assume "sym_find st t k = Some a"
    then have "a \<in> set (labels_elems (cells st))"
      using scope_okD(3) [OF assms(1)] labels_entry by (fastforce simp: top_cells_def)
    then show False using vars_ok_fresh [OF scope_okD(1) [OF assms(1)]] w(6) [OF that] by blast
  qed
  have old: "sym_find st ?t ?k = Some a" if "\<not> made"
    using 1(2) that by (auto simp: with_variable_def)
  have v: "bare (value_of st' t k) =
      (if (t, k) = (?t, ?k) \<or> sym_find st t k \<noteq> None \<and> sym_find st t k = sym_find st ?t ?k then z else bare (value_of st t k))" for t k
  proof (cases "(t, k) = (?t, ?k)")
    case True
    then show ?thesis using 2(5) [of t k] w(2) z by simp
  next
    case False
    then have "sym_find st0 t k = sym_find st t k" "value_of st0 t k = value_of st t k" using w(5) by blast+
    then show ?thesis using False 2(5) [of t k] z new old w(3) by (cases made) auto
  qed
  have "assignment F None old nm es x st = Some (pval_copy_constructor x, st')" using 1(1) 2(1) by (simp add: assignment_def)
  moreover have "trackers st' = trackers st" using 2(3) w(4) by simp
  ultimately show ?thesis using 2(2) v by blast
qed

text \<open>C10: an assignment to a variable, with any number of dimensions, stores the value at their path in the
  nested maps the variable holds, making the variable and the arrays that are missing: every name of
  every symbol table that leads to the variable's cell has the new value, every other name keeps its own,
  and no record of an unassigned variable is left.\<close>

theorem array_assignment:
  assumes "scope_ok st" "string_of_val nm = Some s" "dim_keys F es = Some ks"
    "vstore ks (bare x) (bare (value_of st (active_table st) (name_key s))) = Some z"
    "es \<noteq> [] \<Longrightarrow> value_of st (active_table st) (name_key s) \<noteq> VNull"
  shows "\<exists>st'. assignment F None old nm es x st = Some (pval_copy_constructor x, st') \<and> scope_ok st' \<and>
    trackers st' = trackers st \<and>
    (\<forall>t k. bare (value_of st' t k) =
      (if (t, k) = (active_table st, name_key s) \<or>
          sym_find st t k \<noteq> None \<and> sym_find st t k = sym_find st (active_table st) (name_key s)
       then z else bare (value_of st t k)))"
  using assms by (rule assignment_effect)

text \<open>A variable \<open>a\<close> that the name \<open>b\<close> refers to as well, holding an array with one element.\<close>

definition shared_array :: "int vars" where
  "shared_array =
     \<lparr>symtabs = [(0, \<lparr>names = [(name_key ''a'', Own 1), (name_key ''b'', Ref 1)], next_free = 0\<rparr>)],
      cells = [(name_key ''a'', 1, VArray 2 [(KIdx 7, 3, VLong 5)] 8)],
      active_table = 0, globals_table = 0, function_name = None, statics = [], call_table = 0, call_types = [],
      call_ok = True, param_index = 0, trackers = [], array_ptr = None, array_ptr_write = False, fresh = 4, notices = []\<rparr>"

lemma shared_array_names [simp]:
  "name_key ''a'' = KStr (''a'' @ [NUL])" "name_key ''b'' = KStr (''b'' @ [NUL])" "name_key ''x'' = KStr (''x'' @ [NUL])"
  by (simp_all add: name_key_def ckey_def handle_numeric_def isdigit_def uchar_def NUL_def)

lemma shared_array_ok: "scope_ok shared_array"
proof -
  have "sym_find shared_array t k = Some a \<Longrightarrow> a = 1" for t k a
    by (auto simp: shared_array_def sym_find_def symtab_of_def slot_addr_def split: if_splits)
  then show ?thesis by (auto simp: scope_ok_def vars_ok_def shared_array_def top_cells_def)
qed

text \<open>\<open>$b['x'][] = 9\<close> makes an element of \<open>$a\<close>, an array with one element.\<close>

theorem array_assignment_witness:
  "\<exists>st'. assignment int_fp None \<lparr>pvalue = None, string_offset = 0, array_write = True\<rparr> (VString ''b'') [Some (VString ''x''), None]
      (VLong 9) shared_array = Some (VLong 9, st') \<and>
    plain_val (value_of st' 0 (name_key ''a'')) =
      PArray ([(KIdx 7, PLong 5), (KStr (''x'' @ [NUL]), PArray ([(KIdx 0, PLong 9)], 1))], 8)"
proof -
  let ?z = "VArray 0 [(KIdx 7, 0, VLong 5), (KStr (''x'' @ [NUL]), 0, VArray 0 [(KIdx 0, 0, VLong 9)] 1)] 8 :: int val"
  have v: "value_of shared_array 0 (name_key ''b'') = VArray 2 [(KIdx 7, 3, VLong 5)] 8"
    by (simp add: value_of_def sym_find_def symtab_of_def shared_array_def slot_addr_def deref_def)
  have k: "dim_keys int_fp [Some (VString ''x''), None] = Some [Some (KStr (''x'' @ [NUL])), None]"
    by (simp add: dim_key_def index_key_def)
  have z: "vstore [Some (KStr (''x'' @ [NUL])), None] (VLong 9) (bare (value_of shared_array 0 (name_key ''b''))) = Some ?z"
    unfolding v by (simp add: vget_def vput_def as_array_def elem_find_def the_key_def od_bump_def Let_def)
  let ?old = "\<lparr>pvalue = None, string_offset = 0, array_write = True\<rparr>"
  have act: "active_table shared_array = 0" by (simp add: shared_array_def)
  have "\<exists>st'. assignment int_fp None ?old (VString ''b'') [Some (VString ''x''), None] (VLong 9) shared_array =
      Some (pval_copy_constructor (VLong 9), st') \<and> scope_ok st' \<and> trackers st' = trackers shared_array \<and>
    (\<forall>t k. bare (value_of st' t k) = (if (t, k) = (active_table shared_array, name_key ''b'') \<or>
          sym_find shared_array t k \<noteq> None \<and> sym_find shared_array t k = sym_find shared_array (active_table shared_array) (name_key ''b'')
       then ?z else bare (value_of shared_array t k)))"
  proof (rule array_assignment [OF shared_array_ok _ k])
    show "string_of_val (VString ''b'') = Some ''b''" by simp
    show "vstore [Some (KStr (''x'' @ [NUL])), None] (bare (VLong 9)) (bare (value_of shared_array (active_table shared_array) (name_key ''b''))) = Some ?z"
      unfolding act using z by (simp only: bare.simps)
    show "value_of shared_array (active_table shared_array) (name_key ''b'') \<noteq> VNull" unfolding act v by simp
  qed
  then obtain st' where st': "assignment int_fp None ?old (VString ''b'') [Some (VString ''x''), None] (VLong 9) shared_array =
      Some (VLong 9, st')"
    "\<And>t k. bare (value_of st' t k) = (if (t, k) = (active_table shared_array, name_key ''b'') \<or>
          sym_find shared_array t k \<noteq> None \<and> sym_find shared_array t k = sym_find shared_array (active_table shared_array) (name_key ''b'')
       then ?z else bare (value_of shared_array t k))"
    unfolding pval_copy_constructor.simps by blast
  have "sym_find shared_array 0 (name_key ''a'') = Some 1" "sym_find shared_array 0 (name_key ''b'') = Some 1"
    by (simp_all add: sym_find_def symtab_of_def shared_array_def slot_addr_def)
  then have "bare (value_of st' 0 (name_key ''a'')) = ?z" by (subst st'(2)) (simp add: act)
  then have "plain_val (value_of st' 0 (name_key ''a'')) = plain_val ?z" by (metis plain_bare(1))
  then show ?thesis using st'(1) by (intro exI [of _ st'] conjI) simp_all
qed

subsection \<open>Probing\<close>

text \<open>C11: \<open>isset\<close>, \<open>empty\<close> and reading of a variable, with any number of dimensions, find what its nested maps hold
  at the path, and leave every symbol table and every array with the entries it had, although the handlers
  insert the missing variable or element and record it.  (Next free indices may have grown; and the path
  must not meet an empty scalar, which becomes an array, nor an index that is not an \<open>int\<close>.)\<close>

theorem probing_restores:
  assumes "scope_ok st" "string_of_val nm = Some s" "dim_keys F es = Some ks" "\<forall>e \<in> set es. index_fits F e"
    "value_of st (active_table st) (name_key s) = v" "es \<noteq> [] \<Longrightarrow> sym_find st (active_table st) (name_key s) \<noteq> None \<Longrightarrow> solid ks v"
    "vfind ks v \<noteq> Some VNull"
  defines "u \<equiv> case vfind ks v of Some u \<Rightarrow> u | None \<Rightarrow> VUndef"
  shows "\<exists>st1 st2 st3. isset_variable F old nm es st = Some (\<not> is_undef u, st1) \<and> restored st st1 \<and>
    read_variable F old nm es st = Some (pval_copy_constructor u, st2) \<and> restored st st2 \<and>
    empty_variable F old nm es st = Some (empty_answer F u, st3) \<and> restored st st3"
  using isset.probe_variable [OF assms(1-7), of old] reader.probe_variable [OF assms(1-7), of old]
    emptiness.probe_variable [OF assms(1-7), where old = old and Fa = F]
  unfolding isset_variable_def read_variable_def empty_variable_def u_def by blast

text \<open>\<open>isset($b[9])\<close> and \<open>$b[9]\<close> leave the array as it was.\<close>

theorem probing_restores_witness:
  "\<exists>st1 st2. isset_variable int_fp \<lparr>pvalue = None, string_offset = 0, array_write = True\<rparr> (VString ''b'') [Some (VLong 9)] shared_array =
      Some (False, st1) \<and> restored shared_array st1 \<and>
    read_variable int_fp \<lparr>pvalue = None, string_offset = 0, array_write = True\<rparr> (VString ''b'') [Some (VLong 9)] shared_array =
      Some (VUndef, st2) \<and> restored shared_array st2"
proof -
  have act: "active_table shared_array = 0" by (simp add: shared_array_def)
  have v: "value_of shared_array 0 (name_key ''b'') = VArray 2 [(KIdx 7, 3, VLong 5)] 8"
    by (simp add: value_of_def sym_find_def symtab_of_def shared_array_def slot_addr_def deref_def)
  let ?ks = "[Some (KIdx 9)]"
  have f: "vfind ?ks (value_of shared_array 0 (name_key ''b'')) = None" "solid ?ks (value_of shared_array 0 (name_key ''b''))"
    unfolding v by (simp_all add: elem_find_def the_key_def)
  have k: "dim_keys int_fp [Some (VLong 9)] = Some ?ks" "\<forall>e \<in> set [Some (VLong 9)]. index_fits int_fp e"
    "string_of_val (VString ''b'') = Some ''b''"
    by (simp_all add: dim_key_def index_key_def index_fits_def)
  have "vfind ?ks (value_of shared_array 0 (name_key ''b'')) \<noteq> Some VNull" unfolding f(1) by simp
  from probing_restores [OF shared_array_ok k(3) k(1,2), unfolded act, OF refl f(2) this]
  show ?thesis unfolding f(1) by (simp add: is_undef_def) blast
qed

text \<open>
  The record of an element holds its index as an \<open>int\<close>.  When a missing element has a wider index, taking
  it out again takes out another one.
\<close>

text \<open>C19: \<open>isset\<close> of a missing element whose index is not an \<open>int\<close> answers false, but removes the element
  whose index is the low half of that index, and leaves the missing element behind as an empty string.\<close>

theorem isset_wide_index:
  assumes "scope_ok st" "sym_find st (active_table st) (name_key s) = Some a" "deref st a = Some (VArray t es n)"
    "elem_find (KIdx w) es = None" "word_of_int (int_of_long (sint w)) \<noteq> w"
  shows "\<exists>st'. isset_variable F old (VString s) [Some (VLong w)] st = Some (False, st') \<and>
    value_of st' (active_table st) (name_key s) =
      VArray t (od_delete (KIdx (word_of_int (int_of_long (sint w)))) es @ [(KIdx w, fresh st, VEmpty)]) (od_bump (KIdx w) n)"
proof -
  let ?k = "KIdx w" and ?j = "KIdx (word_of_int (int_of_long (sint w)))" and ?m = "od_bump (KIdx w) n"
  let ?st = "st\<lparr>array_ptr := Some a, array_ptr_write := False\<rparr>"
  let ?d = "\<lparr>pvalue = Some a, string_offset = - 1, array_write = False\<rparr>"
  let ?V = "\<lambda>x. VArray t (es @ [(?k, fresh st, x)]) ?m"
  have ok: "vars_ok ?st" "deref ?st a = Some (VArray t es n)" using scope_okD(1) [OF assms(1)] assms(3) by simp_all
  have dk: "dim_key F (Some (VLong w)) = Some (Some ?k)" by (simp add: dim_key_def index_key_def)
  have nf: "elem_find (the_key (Some ?k) n) es = None" using assms(4) by (simp add: the_key_def)
  obtain st1 where 1: "fetch_element F (Some (VLong w)) a ?d ?st = Some (?d\<lparr>pvalue := Some (fresh st), array_write := True\<rparr>, st1)"
    "cell_step ?st a st1 (fresh st) VNull ?V" "trackers st1 = Track_long t (int_of_long (sint w)) # trackers st"
    using fetch_element_new [OF ok dk nf, of ?d] by (auto simp: the_key_def elem_tracker_def index_key_def)
  have s1: "vars_ok st1" "deref st1 (fresh st) = Some VNull" "\<And>x. put_elems (fresh st) x (cells st1) = put_elems a (?V x) (cells st)"
    using 1(2) by (simp_all add: cell_step_def)
  define st2 where "st2 = set_cell (fresh st) VEmpty st1"
  have c2: "cells st2 = put_elems a (?V VEmpty) (cells st)" using s1(3) by (simp add: st2_def set_cell_def)
  note l = assms(3) [unfolded deref_def] and d = vars_okD [OF scope_okD(1) [OF assms(1)]]
  have "vars_ok (st1\<lparr>cells := put_elems (fresh st) VEmpty (cells st1), fresh := fresh st1\<rparr>)"
    by (rule vars_ok_put [OF s1(1,2)]) simp_all
  then have d2: "distinct (labels_elems (cells st2))" using vars_okD by (fastforce simp: st2_def set_cell_def)
  have l2: "look_elems a (cells st2) = Some (?V VEmpty)" unfolding c2 by (rule look_put(2) [OF l d])
  have od: "od_delete ?j (es @ [(?k, fresh st, VEmpty)]) = od_delete ?j es @ [(?k, fresh st, VEmpty)]"
    using assms(5) by (simp add: od_delete_def)
  let ?w = "VArray t (od_delete ?j es @ [(?k, fresh st, VEmpty)]) ?m"
  have del: "del_elems t ?j (cells st2) = put_elems a ?w (cells st)"
    using del_inside(2) [OF l2 d2, of ?j] by (simp add: od c2)
  have sy: "symtabs st1 = symtabs st" using only_cells_same(1) [OF cell_step_only [OF 1(2)]] by simp
  have "t \<in> set (labels_elems (cells st))" using look_labels(2) [OF l] by simp
  then have "t \<notin> fst ` set (symtabs st2)" using scope_okD(1) [OF assms(1)] sy by (auto simp: vars_ok_def st2_def set_cell_def)
  moreover have "trackers st2 = Track_long t (int_of_long (sint w)) # trackers st" by (simp add: st2_def set_cell_def 1(3))
  ultimately have cl: "clean_unassigned_variable_top True st2 = st2\<lparr>cells := put_elems a ?w (cells st), trackers := trackers st\<rparr>"
    by (simp add: clean_delete tracker_table_def tracker_key_def table_delete_def del)
  have ptr: "assignment_variable_pointer F old (VString s) [Some (VLong w)] st =
      Some (\<lparr>pvalue = Some (fresh st), string_offset = - 1, array_write = True\<rparr>, st2)"
    using assms(2,3) 1(1) s1(2)
    by (simp add: assignment_variable_pointer_def multi_dimensional_array_def start_array_parsing_def check_array_ptr_def
        start_dimensions_parsing_def fetch_array_index_def end_array_parsing_def st2_def)
  have sf: "sym_find st2 u k = sym_find st u k" for u k
    using sy by (simp add: sym_find_def symtab_of_def st2_def set_cell_def)
  have "value_of (clean_unassigned_variable_top True st2) (active_table st) (name_key s) = ?w"
    unfolding cl value_of_def using look_put(2) [OF l d] by (simp add: sf assms(2))
  then show ?thesis using ptr by (simp add: isset_variable_def php3_isset_def)
qed

text \<open>\<open>isset($b[4294967303])\<close> removes \<open>$b[7]\<close>.\<close>

theorem isset_wide_index_witness:
  "\<exists>st'. isset_variable int_fp \<lparr>pvalue = None, string_offset = 0, array_write = True\<rparr> (VString ''b'') [Some (VLong 4294967303)] shared_array =
      Some (False, st') \<and>
    value_of st' 0 (name_key ''b'') = VArray 2 [(KIdx 4294967303, 4, VEmpty)] 4294967304"
proof -
  have act: "active_table shared_array = 0" "fresh shared_array = 4" by (simp_all add: shared_array_def)
  have a: "sym_find shared_array 0 (name_key ''b'') = Some 1" "deref shared_array 1 = Some (VArray 2 [(KIdx 7, 3, VLong 5)] 8)"
    by (simp_all add: sym_find_def symtab_of_def shared_array_def slot_addr_def deref_def)
  have "word_of_int (int_of_long (sint (4294967303 :: 64 word))) = (7 :: 64 word)" by (simp add: int_of_long_def)
  then show ?thesis
    using isset_wide_index [OF shared_array_ok, unfolded act, OF a, of 4294967303 int_fp "\<lparr>pvalue = None, string_offset = 0, array_write = True\<rparr>"]
    by (simp add: elem_find_def od_delete_def od_bump_def del: shared_array_names)
qed

end
