(* ===== verification/Var_Refs.thy ===== *)
theory Var_Refs
  imports Var_Props
begin

text \<open>References: global variables and parameters.\<close>

subsection \<open>Pointers in symbol tables\<close>

lemma sym_point_fields [simp]:
  "fresh (sym_point t k a st) = fresh st" "active_table (sym_point t k a st) = active_table st"
  "globals_table (sym_point t k a st) = globals_table st" "trackers (sym_point t k a st) = trackers st"
  "param_index (sym_point t k a st) = param_index st"
  by (auto simp: sym_point_def Let_def free_slot_def set_symtab_def split: option.splits binding.splits)

lemma sym_point_new:
  assumes "scope_ok st" "t \<in> fst ` set (symtabs st)" "sym_find st t k = None" "a \<in> top_cells (cells st)"
  shows "scope_ok (sym_point t k a st)" "sym_find (sym_point t k a st) u j = (if u = t \<and> j = k then Some a else sym_find st u j)"
    "deref (sym_point t k a st) b = deref st b" "map_of (names (symtab_of (sym_point t k a st) t)) k = Some (Ref a)"
    "cells (sym_point t k a st) = cells st"
    "value_of (sym_point t k a st) u j =
      (if u = t \<and> j = k then case deref st a of Some v \<Rightarrow> v | None \<Rightarrow> VUndef else value_of st u j)"
proof -
  have n: "map_of (names (symtab_of st t)) k = None" using assms(3) by (simp add: sym_find_def)
  then have p: "sym_point t k a st = set_symtab t \<lparr>names = names (symtab_of st t) @ [(k, Ref a)], next_free = od_bump k (next_free (symtab_of st t))\<rparr> st"
    by (simp add: sym_point_def Let_def free_slot_def) (simp add: od_store_def map_of_eq_None_iff)
  show f: "sym_find (sym_point t k a st) u j = (if u = t \<and> j = k then Some a else sym_find st u j)" for u j
    using n unfolding p
    by (auto simp: sym_find_def symtab_of_set [OF assms(2)] map_of_snoc slot_addr_def simp del: map_of_append split: option.splits)
  show d: "deref (sym_point t k a st) b = deref st b" for b by (simp add: p deref_def)
  show c: "cells (sym_point t k a st) = cells st" by (simp add: p)
  show "value_of (sym_point t k a st) u j =
      (if u = t \<and> j = k then case deref st a of Some v \<Rightarrow> v | None \<Rightarrow> VUndef else value_of st u j)"
    by (simp add: value_of_def f d split: option.splits)
  show "map_of (names (symtab_of (sym_point t k a st) t)) k = Some (Ref a)"
    using n by (simp add: p symtab_of_set [OF assms(2)] map_of_snoc del: map_of_append)
  have tabs: "map fst (symtabs (sym_point t k a st)) = map fst (symtabs st)" unfolding p by (rule symtabs_set)
  then have n: "fst ` set (symtabs (sym_point t k a st)) = fst ` set (symtabs st)" by (metis list.set_map)
  have "vars_ok (sym_point t k a st) = vars_ok st" unfolding vars_ok_def by (simp only: tabs c sym_point_fields)
  then show "scope_ok (sym_point t k a st)"
    using assms(1,4) unfolding scope_ok_def by (simp add: f c n)
qed

lemma sym_point_numbers: "fst ` set (symtabs (sym_point t k a st)) = fst ` set (symtabs st)"
  by (auto simp: sym_point_def Let_def free_slot_def split: option.splits binding.splits)

subsection \<open>Global variables\<close>

text \<open>C18: \<open>global\<close> in a function gives its variable the cell of the global one, which is made if it is missing,
  and changes no value; an assignment to the name in the function is one to the global variable, and to
  no variable that had another cell.\<close>

theorem global_variable:
  assumes "scope_ok st" "function_name st \<noteq> None" "globals_table st \<in> fst ` set (symtabs st)" "active_table st \<noteq> globals_table st"
    "string_of_val nm = Some s" "sym_find st (active_table st) (name_key s) = None"
  shows "\<exists>st1 a. cs_global_variable nm st = (SUCCESS, st1) \<and> scope_ok st1 \<and>
    sym_find st1 (active_table st) (name_key s) = Some a \<and> sym_find st1 (globals_table st) (name_key s) = Some a \<and>
    (\<forall>t k. value_of st1 t k =
      (if (t, k) = (active_table st, name_key s) then value_of st (globals_table st) (name_key s) else value_of st t k)) \<and>
    (\<exists>st2. assignment F None old nm [] x st1 = Some (pval_copy_constructor x, st2) \<and>
      bare (value_of st2 (globals_table st) (name_key s)) = bare x \<and>
      (\<forall>t k. sym_find st1 t k \<noteq> Some a \<longrightarrow> bare (value_of st2 t k) = bare (value_of st1 t k)))"
proof -
  let ?t = "active_table st" and ?g = "globals_table st" and ?k = "name_key s"
  obtain a st0 where 0: "(case sym_find st ?g ?k of Some a \<Rightarrow> (a, st) | None \<Rightarrow> sym_update ?g ?k VUndef st) = (a, st0)" "scope_ok st0"
    "sym_find st0 ?g ?k = Some a" "\<And>u j. (u, j) \<noteq> (?g, ?k) \<Longrightarrow> sym_find st0 u j = sym_find st u j"
    "\<And>u j. value_of st0 u j = value_of st u j" "active_table st0 = ?t" "?t \<in> fst ` set (symtabs st0)"
  proof (cases "sym_find st ?g ?k")
    case (Some a)
    then show ?thesis using that [of a st] assms(1) scope_okD(2) [OF assms(1)] by simp
  next
    case None
    obtain w st1 where n: "sym_update ?g ?k VUndef st = (fresh st, st1)" "bare w = bare VUndef" "scope_ok st1"
      "\<forall>u j. sym_find st1 u j = (if u = ?g \<and> j = ?k then Some (fresh st) else sym_find st u j)"
      "\<forall>u j. value_of st1 u j = (if u = ?g \<and> j = ?k then w else value_of st u j)"
      "st1 = (set_symtab ?g \<lparr>names = names (symtab_of st ?g) @ [(?k, Own (fresh st))],
          next_free = od_bump ?k (next_free (symtab_of st ?g))\<rparr> st)\<lparr>cells := cells st1, fresh := fresh st1\<rparr>"
      using sym_update_new [OF assms(1,3) None, of VUndef] by blast
    have w: "w = VUndef" using n(2) by (cases w) simp_all
    have "value_of st ?g ?k = VUndef" using None by (simp add: value_of_def)
    moreover have "active_table st1 = ?t" using arg_cong [OF n(6), of active_table] by simp
    ultimately show ?thesis using that [of "fresh st" st1] None n w scope_okD(2) [OF n(3)] by auto
  qed
  have none: "sym_find st0 ?t ?k = None" using 0(4) [of ?t ?k] assms(4,6) by simp
  let ?st = "sym_point ?t ?k a st0"
  note p = sym_point_new [OF 0(2,7) none scope_okD(3) [OF 0(2,3)]]
  have "cs_global_variable nm st = (SUCCESS, ?st)"
    using assms(2,5,6) 0(1) by (simp add: cs_global_variable_def Let_def)
  moreover have s: "sym_find ?st ?t ?k = Some a" "sym_find ?st ?g ?k = Some a" using p(2) 0(3) assms(4) by simp_all
  moreover have "value_of ?st t k = (if (t, k) = (?t, ?k) then value_of st ?g ?k else value_of st t k)" for t k
    using 0(3) p(6) [of t k] unfolding 0(5) [symmetric] by (auto simp: value_of_def split: option.splits)
  moreover obtain st2 where st2: "assignment F None old nm [] x ?st = Some (pval_copy_constructor x, st2)"
    "\<And>t k. bare (value_of st2 t k) = (if (t, k) = (active_table ?st, ?k) \<or>
        sym_find ?st t k \<noteq> None \<and> sym_find ?st t k = sym_find ?st (active_table ?st) ?k then bare x else bare (value_of ?st t k))"
    using assignment_effect [OF p(1) assms(5), of F "[]" "[]" x "bare x" old] by auto
  have act: "active_table ?st = ?t" using 0(6) by simp
  have "bare (value_of st2 ?g ?k) = bare x" using st2(2) [of ?g ?k] s act by simp
  moreover have "bare (value_of st2 t k) = bare (value_of ?st t k)" if "sym_find ?st t k \<noteq> Some a" for t k
  proof -
    have "(t, k) \<noteq> (?t, ?k)" using that s(1) by auto
    then show ?thesis using st2(2) [of t k] that s(1) act by auto
  qed
  ultimately show ?thesis using p(1) st2(1) by blast
qed

text \<open>The state of \<open>shared_array\<close> with the empty symbol table of a function.\<close>

definition with_function :: "int vars" where
  "with_function = shared_array\<lparr>symtabs := symtabs shared_array @ [(9, \<lparr>names = [], next_free = 0\<rparr>)], call_table := 9,
     function_name := Some ''f'', fresh := 10\<rparr>"

lemma with_function_ok: "scope_ok with_function" "scope_ok (with_function\<lparr>active_table := 9\<rparr>)"
proof -
  have "sym_find with_function t k = Some a \<Longrightarrow> a = 1" for t k a
    by (auto simp: with_function_def shared_array_def sym_find_def symtab_of_def slot_addr_def split: if_splits)
  moreover have "sym_find (with_function\<lparr>active_table := 9\<rparr>) t k = sym_find with_function t k" for t k
    by (simp add: sym_find_def symtab_of_def)
  ultimately show "scope_ok with_function" "scope_ok (with_function\<lparr>active_table := 9\<rparr>)"
    by (auto simp: scope_ok_def vars_ok_def with_function_def shared_array_def top_cells_def)
qed

text \<open>\<open>global $b; $b = 6\<close> in the function.\<close>

theorem global_variable_witness:
  "\<exists>st1 st2. cs_global_variable (VString ''b'') (with_function\<lparr>active_table := 9\<rparr>) = (SUCCESS, st1) \<and>
    assignment int_fp None \<lparr>pvalue = None, string_offset = 0, array_write = True\<rparr> (VString ''b'') [] (VLong 6) st1 = Some (VLong 6, st2) \<and>
    bare (value_of st2 0 (name_key ''b'')) = VLong 6"
proof -
  let ?st = "with_function\<lparr>active_table := 9\<rparr>"
  have g: "globals_table ?st = 0" "active_table ?st = 9" by (simp_all add: with_function_def shared_array_def)
  have h: "function_name ?st \<noteq> None" "globals_table ?st \<in> fst ` set (symtabs ?st)" "active_table ?st \<noteq> globals_table ?st"
    "string_of_val (VString ''b'') = Some ''b''"
    by (simp_all add: with_function_def shared_array_def)
  have "sym_find ?st (active_table ?st) (name_key ''b'') = None"
    by (simp add: with_function_def shared_array_def sym_find_def symtab_of_def)
  from global_variable [OF with_function_ok(2) h this, of int_fp "\<lparr>pvalue = None, string_offset = 0, array_write = True\<rparr>" "VLong 6"]
  show ?thesis unfolding g by auto
qed

subsection \<open>Parameters\<close>

lemma table_delete_ref:
  assumes "scope_ok st" "t \<in> fst ` set (symtabs st)" "map_of (names (symtab_of st t)) k = Some (Ref a)"
  shows "sym_find (table_delete t k st) u j = (if u = t \<and> j = k then None else sym_find st u j)"
    "value_of (table_delete t k st) u j = (if u = t \<and> j = k then VUndef else value_of st u j)"
    "scope_ok (table_delete t k st)"
proof -
  let ?y = "symtab_of st t"
  have p: "table_delete t k st = set_symtab t (?y\<lparr>names := od_delete k (names ?y)\<rparr>) st"
    using assms(2,3) by (simp add: table_delete_def free_slot_def Let_def)
  have m: "map_of (od_delete k xs) j = (if j = k then None else map_of xs j)" for xs :: "(hkey \<times> binding) list" and j
    by (induction xs) (auto simp: od_delete_def)
  show f: "sym_find (table_delete t k st) u j = (if u = t \<and> j = k then None else sym_find st u j)" for u j
    unfolding p by (simp add: sym_find_def symtab_of_set [OF assms(2)] m)
  have d: "deref (table_delete t k st) b = deref st b" for b by (simp add: p deref_def)
  show "value_of (table_delete t k st) u j = (if u = t \<and> j = k then VUndef else value_of st u j)"
    by (simp add: value_of_def f d split: option.splits)
  have tabs: "map fst (symtabs (table_delete t k st)) = map fst (symtabs st)" unfolding p by (rule symtabs_set)
  then have n: "fst ` set (symtabs (table_delete t k st)) = fst ` set (symtabs st)" by (metis list.set_map)
  have fl: "cells (table_delete t k st) = cells st" "fresh (table_delete t k st) = fresh st"
    "active_table (table_delete t k st) = active_table st" by (simp_all add: p)
  have "vars_ok (table_delete t k st) = vars_ok st" unfolding vars_ok_def by (simp only: tabs fl)
  then show "scope_ok (table_delete t k st)" using assms(1) unfolding scope_ok_def by (simp add: f fl n)
qed

lemma enter_fields [simp]:
  "sym_find (st\<lparr>active_table := c\<rparr>) t k = sym_find st t k" "deref (st\<lparr>active_table := c\<rparr>) a = deref st a"
  "symtab_of (st\<lparr>active_table := c\<rparr>) t = symtab_of st t" "symtab_of (st\<lparr>param_index := i\<rparr>) t = symtab_of st t"
  "scope_ok (st\<lparr>param_index := i\<rparr>) = scope_ok st"
  by (simp_all add: sym_find_def symtab_of_def deref_def scope_ok_def vars_ok_def)

lemma enter_values [simp]:
  "value_of (st\<lparr>active_table := c\<rparr>) t k = value_of st t k" "value_of (st\<lparr>param_index := i\<rparr>) t k = value_of st t k"
  by (simp_all add: value_of_def split: option.splits)

text \<open>The function starts to run: its table becomes the active one, and its parameters are numbered.\<close>

definition enter :: "nat \<Rightarrow> ulong \<Rightarrow> 'd vars \<Rightarrow> 'd vars" where
  "enter c i st = st\<lparr>active_table := c, param_index := i\<rparr>"

lemma enter_ok: "scope_ok st \<Longrightarrow> c \<in> fst ` set (symtabs st) \<Longrightarrow> scope_ok (enter c i st)"
  by (simp add: enter_def) (simp add: scope_ok_def vars_ok_def)

lemma copy_bare:
  fixes v :: "'d val" and es :: "'d elems"
  shows "bare (pval_copy_constructor v) = pval_copy_constructor (bare v)" "bare_elems (hash_copy es) = hash_copy (bare_elems es)"
  by (induction v and es rule: bare_bare_elems.induct) auto

lemma copy_copy:
  fixes v :: "'d val" and es :: "'d elems"
  shows "pval_copy_constructor (pval_copy_constructor v) = pval_copy_constructor v" "hash_copy (hash_copy es) = hash_copy es"
  by (induction v and es rule: bare_bare_elems.induct) auto

text \<open>C17: a variable passed by reference and the parameter of the function have one cell, and no value changes;
  passed by value the parameter has a cell of its own with a copy of the value.\<close>

theorem parameter_passing:
  assumes "scope_ok st" "sym_find st (active_table st) (name_key s) = Some a" "value_of st (active_table st) (name_key s) = v"
    "\<not> is_undef v" "call_table st = c" "c \<in> fst ` set (symtabs st)" "next_free (symtab_of st c) = i" "sym_find st c (KIdx i) = None"
    "sym_find st c (name_key y) = None" "name_key y \<noteq> KIdx i" "argument_type st = 0"
  defines "p \<equiv> \<lparr>pvalue = Some a, string_offset = - 1, array_write = False\<rparr>"
  shows "(\<exists>st1 st2. pass_parameter p True st = Some st1 \<and> get_function_parameter y d (enter c i st1) = Some st2 \<and> scope_ok st2 \<and>
      sym_find st2 c (name_key y) = Some a \<and> (\<forall>t k. value_of st2 t k = (if (t, k) = (c, name_key y) then v else value_of st t k))) \<and>
    (\<exists>st1 st2 b. pass_parameter p False st = Some st1 \<and> get_function_parameter y d (enter c i st1) = Some st2 \<and> scope_ok st2 \<and>
      sym_find st2 c (name_key y) = Some b \<and> bare (value_of st2 c (name_key y)) = bare (pval_copy_constructor v) \<and>
      (\<forall>t k. (t, k) \<noteq> (c, name_key y) \<longrightarrow> sym_find st2 t k \<noteq> Some b) \<and>
      (\<forall>t k. t \<noteq> c \<longrightarrow> value_of st2 t k = value_of st t k))"
proof (intro conjI)
  let ?x = "name_key y" and ?i = "KIdx i"
  have da: "deref st a = Some v" using scope_cell [OF assms(1,2)] assms(3) by auto
  note top = scope_okD(3) [OF assms(1,2)]
  note q = sym_point_new [OF assms(1,6,8) top]
  show "\<exists>st1 st2. pass_parameter p True st = Some st1 \<and> get_function_parameter y d (enter c i st1) = Some st2 \<and> scope_ok st2 \<and>
      sym_find st2 c ?x = Some a \<and> (\<forall>t k. value_of st2 t k = (if (t, k) = (c, ?x) then v else value_of st t k))"
  proof -
    let ?s1 = "sym_point c ?i a st"
    let ?s2 = "enter c i ?s1"
    have c1: "c \<in> fst ` set (symtabs ?s1)" using assms(6) by (simp add: sym_point_numbers)
    have pass: "pass_parameter p True st = Some ?s1"
      using assms(5,7,8) by (simp add: pass_parameter_def p_def sym_next_point_def Let_def)
    have s2: "scope_ok ?s2" "c \<in> fst ` set (symtabs ?s2)" "sym_find ?s2 c ?x = None" "a \<in> top_cells (cells ?s2)"
      using enter_ok [OF q(1) c1] c1 q(2,5) assms(9,10) top by (simp_all add: enter_def)
    note r = sym_point_new [OF s2]
    let ?s3 = "sym_point c ?x a ?s2"
    have nx: "map_of (names (symtab_of ?s3 c)) ?i = Some (Ref a)"
    proof -
      have "map_of (names (symtab_of ?s2 c)) ?x = None" using s2(3) by (simp add: sym_find_def)
      then have "?s3 = set_symtab c \<lparr>names = names (symtab_of ?s2 c) @ [(?x, Ref a)], next_free = od_bump ?x (next_free (symtab_of ?s2 c))\<rparr> ?s2"
        by (simp add: sym_point_def Let_def free_slot_def) (simp add: od_store_def map_of_eq_None_iff)
      then have "symtab_of ?s3 c = \<lparr>names = names (symtab_of ?s2 c) @ [(?x, Ref a)], next_free = od_bump ?x (next_free (symtab_of ?s2 c))\<rparr>"
        by (simp only: symtab_of_set [OF s2(2)] if_True refl)
      then show ?thesis using q(4) assms(10) by (simp add: map_of_snoc enter_def del: map_of_append)
    qed
    have c3: "c \<in> fst ` set (symtabs ?s3)" using s2(2) by (simp add: sym_point_numbers)
    note del = table_delete_ref [OF r(1) c3 nx]
    let ?s4 = "table_delete c ?i ?s3"
    have "map_of (names (symtab_of ?s2 c)) ?i = Some (Ref a)" using q(4) by (simp add: enter_def)
    then have get: "get_function_parameter y d ?s2 = Some (?s4\<lparr>param_index := param_index ?s4 + 1\<rparr>)"
      by (simp add: get_function_parameter_def Let_def) (simp add: enter_def)
    have "value_of ?s4 t k = (if (t, k) = (c, ?x) then v else value_of st t k)" for t k
    proof -
      have "value_of ?s3 t k = (if t = c \<and> k = ?x then v else value_of ?s2 t k)"
        using r(6) [of t k] da q(3) by (simp add: enter_def)
      moreover have "value_of ?s2 t k = (if t = c \<and> k = ?i then v else value_of st t k)"
        using q(6) [of t k] da by (simp add: enter_def)
      moreover have "value_of st c ?i = VUndef" using assms(8) by (simp add: value_of_def)
      ultimately show ?thesis using del(2) [of t k] assms(10) by auto
    qed
    moreover have "sym_find ?s4 c ?x = Some a" using del(1) r(2) assms(10) by simp
    ultimately show ?thesis using pass get del(3) by (intro exI [of _ ?s1] exI [of _ "?s4\<lparr>param_index := param_index ?s4 + 1\<rparr>"]) simp
  qed
  show "\<exists>st1 st2 b. pass_parameter p False st = Some st1 \<and> get_function_parameter y d (enter c i st1) = Some st2 \<and> scope_ok st2 \<and>
      sym_find st2 c ?x = Some b \<and> bare (value_of st2 c ?x) = bare (pval_copy_constructor v) \<and>
      (\<forall>t k. (t, k) \<noteq> (c, ?x) \<longrightarrow> sym_find st2 t k \<noteq> Some b) \<and> (\<forall>t k. t \<noteq> c \<longrightarrow> value_of st2 t k = value_of st t k)"
  proof -
    obtain w s1 where 1: "sym_update c ?i (pval_copy_constructor v) st = (fresh st, s1)" "bare w = bare (pval_copy_constructor v)" "scope_ok s1"
      "cells s1 = cells st @ [(?i, fresh st, w)]" "deref s1 (fresh st) = Some w"
      "\<forall>u j. sym_find s1 u j = (if u = c \<and> j = ?i then Some (fresh st) else sym_find st u j)"
      "\<forall>u j. value_of s1 u j = (if u = c \<and> j = ?i then w else value_of st u j)"
      "s1 = (set_symtab c \<lparr>names = names (symtab_of st c) @ [(?i, Own (fresh st))],
          next_free = od_bump ?i (next_free (symtab_of st c))\<rparr> st)\<lparr>cells := cells s1, fresh := fresh s1\<rparr>"
      using sym_update_new [OF assms(1,6,8), of "pval_copy_constructor v"] by blast
    have "symtabs s1 = symtabs (set_symtab c \<lparr>names = names (symtab_of st c) @ [(?i, Own (fresh st))], next_free = od_bump ?i (next_free (symtab_of st c))\<rparr> st)"
      using arg_cong [OF 1(8), of symtabs] by simp
    then have sy: "names (symtab_of s1 c) = names (symtab_of st c) @ [(?i, Own (fresh st))]" and c1: "c \<in> fst ` set (symtabs s1)"
      using symtab_of_set [OF assms(6)] assms(6) by (simp_all add: symtab_of_def)
    have pass: "pass_parameter p False st = Some s1"
      using assms(4,5,7,8,11) da 1(1)
      by (simp add: pass_parameter_def p_def read_pointer_value_def sym_next_insert_def Let_def)
    let ?s2 = "enter c i s1"
    have s2: "scope_ok ?s2" "c \<in> fst ` set (symtabs ?s2)" "sym_find ?s2 c ?x = None"
      using enter_ok [OF 1(3) c1] c1 1(6) assms(9,10) by (simp_all add: enter_def)
    have nx: "map_of (names (symtab_of ?s2 c)) ?i = Some (Own (fresh st))"
      using assms(8) sy by (simp add: enter_def map_of_snoc sym_find_def del: map_of_append)
    obtain w' s3 where 3: "sym_update c ?x (pval_copy_constructor w) ?s2 = (fresh ?s2, s3)" "bare w' = bare (pval_copy_constructor w)" "scope_ok s3"
      "\<forall>u j. sym_find s3 u j = (if u = c \<and> j = ?x then Some (fresh ?s2) else sym_find ?s2 u j)"
      "\<forall>u j. value_of s3 u j = (if u = c \<and> j = ?x then w' else value_of ?s2 u j)"
      using sym_update_new [OF s2, of "pval_copy_constructor w"] by blast
    have get: "get_function_parameter y d ?s2 = Some (s3\<lparr>param_index := param_index s3 + 1\<rparr>)"
      using nx 1(5) 3(1) by (simp add: get_function_parameter_def Let_def) (simp add: enter_def)
    have "bare w' = bare (pval_copy_constructor v)" using 1(2) 3(2) by (simp add: copy_bare copy_copy)
    moreover have "sym_find s3 t k \<noteq> Some (fresh ?s2)" if "(t, k) \<noteq> (c, ?x)" for t k
    proof
      assume "sym_find s3 t k = Some (fresh ?s2)"
      then have "sym_find ?s2 t k = Some (fresh ?s2)" using 3(4) that by (auto split: if_splits)
      then have "fresh ?s2 \<in> set (labels_elems (cells ?s2))"
        using scope_okD(3) [OF s2(1)] labels_entry by (fastforce simp: top_cells_def)
      then show False using vars_ok_fresh [OF scope_okD(1) [OF s2(1)]] by blast
    qed
    moreover have "value_of s3 t k = value_of st t k" if "t \<noteq> c" for t k using that 3(5) 1(7) by (simp add: enter_def)
    ultimately show ?thesis using pass get 3(3-5)
      by (intro exI [of _ s1] exI [of _ "s3\<lparr>param_index := param_index s3 + 1\<rparr>"] exI [of _ "fresh ?s2"]) simp
  qed
qed

text \<open>\<open>f($b)\<close> for a function with the parameter \<open>$x\<close>.\<close>

theorem parameter_passing_witness:
  "\<exists>st1 st2. pass_parameter \<lparr>pvalue = Some 1, string_offset = - 1, array_write = False\<rparr> True with_function = Some st1 \<and>
    get_function_parameter ''x'' None (enter 9 0 st1) = Some st2 \<and> sym_find st2 9 (name_key ''x'') = Some 1"
proof -
  have act: "active_table with_function = 0" by (simp add: with_function_def shared_array_def)
  have v: "sym_find with_function 0 (name_key ''b'') = Some 1" "value_of with_function 0 (name_key ''b'') = VArray 2 [(KIdx 7, 3, VLong 5)] 8"
    by (simp_all add: value_of_def sym_find_def symtab_of_def with_function_def shared_array_def slot_addr_def deref_def)
  have f: "\<not> is_undef (VArray 2 [(KIdx 7, 3, VLong 5 :: int val)] 8)" "call_table with_function = 9" "9 \<in> fst ` set (symtabs with_function)"
    "next_free (symtab_of with_function 9) = 0" "sym_find with_function 9 (KIdx 0) = None" "sym_find with_function 9 (name_key ''x'') = None"
    "name_key ''x'' \<noteq> KIdx 0" "argument_type with_function = 0"
    by (simp_all add: is_undef_def with_function_def shared_array_def symtab_of_def sym_find_def argument_type_def Let_def)
  from parameter_passing [OF with_function_ok(1), unfolded act, OF v f, of None]
  show ?thesis by blast
qed

end
