(* ===== verification/Control_Call.thy ===== *)
theory Control_Call
  imports Control_Props Var_Refs
begin

text \<open>
  Function calls and function declarations (control_structures_inline.h), in the order in which the
  grammar runs their actions.  Here the control structures and the variables meet: the variables of the
  interpreter are the \<open>store\<close> of the engine.

  The body of a function is parsed where it is declared, without executing it; a call saves the
  function state, seeks to the body, and goes back behind the call at its end.  The seeking is left out:
  the derivation tree says what is parsed.  Methods (a call with \<open>class_ptr\<close>) and the entry \<open>GLOBALS\<close> of the
  new symbol table are not modelled.
\<close>

subsection \<open>The state\<close>

text \<open>
  A parameter has its type (\<open>BYREF_NONE\<close> 0, \<open>BYREF_FORCE\<close> 1, \<open>BYREF_ALLOW\<close> 2), its name and its default.
  An entry of the function table that is no function stands for the type 0, too: a call that
  will not be executed.  The code of an internal function is a parameter: it gets the symbol table of
  its arguments.
\<close>

type_synonym 'd param = "nat \<times> string \<times> 'd val option"

record ('d, 'p) user_function =
  parameters :: "'d param list"
  body :: "'p stmt"
  arg_types :: "nat list"

datatype ('d, 'p) entry =
    User_function "('d, 'p) user_function"
  | Internal_function "nat \<Rightarrow> 'd vars \<Rightarrow> 'd pval \<times> 'd vars" "nat list"
  | No_function

text \<open>
  The parts of \<open>FunctionState\<close> are in the \<open>fstate\<close> of the engine, in the variables (\<open>vars\<close>), and here:
  the symbol table of the function that runs and the function of the call that is parsed.  The
  name of the function is in the first two.
\<close>

record ('d, 'p) saved_state =
  saved_fstate :: function_state
  saved_symbol_table :: nat
  saved_type :: "('d, 'p) entry"
  saved_name :: "string option"
  saved_call_table :: nat
  saved_types :: "nat list"
  saved_ok :: bool

record ('d, 'p) machine =
  eng :: "('d, 'd vars) engine"
  symbol_table :: nat
  function_type :: "('d, 'p) entry"
  function_state_stack :: "('d, 'p) saved_state list"
  function_table :: "(string \<times> ('d, 'p) entry) list"

definition save_state :: "('d, 'p) machine \<Rightarrow> ('d, 'p) saved_state" where
  "save_state m =
     (let s = store (eng m) in
      \<lparr>saved_fstate = fstate (eng m), saved_symbol_table = symbol_table m, saved_type = function_type m,
       saved_name = vars.function_name s, saved_call_table = call_table s, saved_types = call_types s,
       saved_ok = call_ok s\<rparr>)"

text \<open>The variables' part of a saved state comes back, and its symbol table is the active one.\<close>

definition restore_vars :: "('d, 'p) saved_state \<Rightarrow> 'd vars \<Rightarrow> 'd vars" where
  "restore_vars y s =
     s\<lparr>active_table := saved_symbol_table y, vars.function_name := saved_name y, call_table := saved_call_table y,
       call_types := saved_types y, call_ok := saved_ok y\<rparr>"

definition restore_state :: "('d, 'p) saved_state \<Rightarrow> ('d, 'p) machine \<Rightarrow> ('d, 'p) machine" where
  "restore_state y m =
     m\<lparr>eng := (eng m)\<lparr>fstate := saved_fstate y, store := restore_vars y (store (eng m))\<rparr>,
       symbol_table := saved_symbol_table y, function_type := saved_type y\<rparr>"

subsection \<open>Parameters\<close>

text \<open>
  \<open>get_function_parameter\<close> while the declaration is parsed: the types are collected in \<open>func_arg_types\<close>,
  whose first byte counts the parameters up to the last one that is not passed by value.
\<close>

definition declare_parameter :: "nat \<Rightarrow> 'd vars \<Rightarrow> 'd vars" where
  "declare_parameter type st =
     (let i = unat (param_index st); ts = call_types st; n = (if ts = [] then 0 else hd ts) in
      if type = 0 then st
      else st\<lparr>call_types := ((i + 1) mod 256) # take n (tl ts) @ replicate (i - n) 0 @ [type]\<rparr>)"

definition function_parameter :: "'d param \<Rightarrow> ('d, 'd vars) engine \<Rightarrow> ('d, 'd vars) engine option" where
  "function_parameter p g =
     (case p of (type, nm, d) \<Rightarrow>
        if Execute g then map_option (\<lambda>s. g\<lparr>store := s\<rparr>) (get_function_parameter nm d (store g))
        else (let s = declare_parameter type (store g) in Some (g\<lparr>store := s\<lparr>param_index := param_index s + 1\<rparr>\<rparr>)))"

fun parameters_from :: "'d param list \<Rightarrow> ('d, 'd vars) engine \<Rightarrow> ('d, 'd vars) engine option" where
  "parameters_from [] g = Some g"
| "parameters_from (p # ps) g = do { g1 \<leftarrow> function_parameter p g; parameters_from ps g1 }"

definition parameter_list :: "'d param list \<Rightarrow> ('d, 'd vars) engine \<Rightarrow> ('d, 'd vars) engine option" where
  "parameter_list ps g =
     (if ps = [] then Some g else parameters_from ps (g\<lparr>store := (store g)\<lparr>param_index := 0\<rparr>\<rparr>))"

subsection \<open>Calls\<close>

text \<open>The new symbol table, and what the variables know of the call whose arguments are parsed.\<close>

definition open_call :: "string \<Rightarrow> nat list \<Rightarrow> 'd vars \<Rightarrow> 'd vars" where
  "open_call nm types s =
     s\<lparr>symtabs := symtabs s @ [(fresh s, \<lparr>names = [], next_free = 0\<rparr>)], call_table := fresh s, fresh := fresh s + 1,
       vars.function_name := Some nm, call_types := types, call_ok := True\<rparr>"

definition entry_types :: "('d, 'p) entry \<Rightarrow> nat list" where
  "entry_types e = (case e of User_function d \<Rightarrow> arg_types d | Internal_function h ts \<Rightarrow> ts | No_function \<Rightarrow> [])"

text \<open>The result tells whether there is a call to execute (\<open>function_call_type\<close>).\<close>

definition cs_functioncall_pre_variable_passing ::
  "'d pval \<Rightarrow> ('d, 'p) machine \<Rightarrow> (bool \<times> ('d, 'p) machine) run" where
  "cs_functioncall_pre_variable_passing nm m =
     (if Execute (eng m) then
        (case nm of
           PString s \<Rightarrow>
             (let f = php3_str_tolower s (length s); g = eng m in
              case map_of (function_table m) f of
                None \<Rightarrow> Aborted
              | Some No_function \<Rightarrow> Aborted
              | Some e \<Rightarrow>
                  Ran (True, m\<lparr>
                    eng := g\<lparr>for_stack := - 1 # for_stack g,
                             fstate := (fstate g)\<lparr>function_state.function_name := Some f\<rparr>,
                             store := open_call f (entry_types e) (store g)\<rparr>,
                    function_type := e,
                    function_state_stack := save_state m # function_state_stack m\<rparr>))
         | _ \<Rightarrow> Aborted)
      else Ran (False, m))"

definition cs_functioncall_post_variable_passing :: "('d, 'p) machine \<Rightarrow> ('d, 'p) machine" where
  "cs_functioncall_post_variable_passing m =
     (let g = push_css (eng m); s = store g;
          g1 = g\<lparr>fstate := (fstate g)\<lparr>loop_nest_level := 0, loop_change_level := 0, loop_change_type := DO_NOTHING\<rparr>,
                 return_value := var_reset\<rparr>;
          e = (if call_ok s then function_type m else No_function);
          g2 = (case e of
                  User_function d \<Rightarrow> g1\<lparr>store := s\<lparr>active_table := call_table s\<rparr>\<rparr>
                | Internal_function h ts \<Rightarrow> (let (v, s1) = h (call_table s) s in g1\<lparr>return_value := v, store := s1\<rparr>)
                | No_function \<Rightarrow> g1)
      in m\<lparr>eng := g2, symbol_table := call_table s, function_type := e\<rparr>)"

text \<open>\<open>possible_function_call\<close>: the function at the offset that was sought.\<close>

definition possible_function_call ::
  "'d fp \<Rightarrow> ('d, 'p, 'd vars) lang \<Rightarrow> nat \<Rightarrow> ('d, 'p) machine \<Rightarrow> ('d, 'p) machine run" where
  "possible_function_call F G n m =
     (case function_type m of
        User_function d \<Rightarrow>
          then_run (or_abort (parameter_list (parameters d) (eng m))) (\<lambda>g.
          then_run (exec_stmt F G n (body d) g) (\<lambda>g1. Ran (m\<lparr>eng := g1\<rparr>)))
      | _ \<Rightarrow> Ran m)"

definition cs_functioncall_end :: "('d, 'p) machine \<Rightarrow> 'd pval \<times> ('d, 'p) machine" where
  "cs_functioncall_end m =
     (let g = eng m;
          result = (case function_type m of
                      User_function d \<Rightarrow> if returned (fstate g) then return_value g else var_reset
                    | _ \<Rightarrow> return_value g);
          g1 = g\<lparr>store := symtab_destroy (symbol_table m) (store g),
                 for_stack := tl (dropWhile (\<lambda>i. i \<noteq> - 1) (for_stack g))\<rparr>;
          m1 = restore_state (hd (function_state_stack m)) (m\<lparr>eng := g1\<rparr>)
      in (result, m1\<lparr>eng := pop_css (eng m1), function_state_stack := tl (function_state_stack m1)\<rparr>))"

text \<open>
  The call \<open>nm(args)\<close>.  An argument is an expression whose outermost operator is \<open>pass_parameter\<close> or
  \<open>pass_parameter_by_value\<close>.
\<close>

definition function_call ::
  "'d fp \<Rightarrow> ('d, 'p, 'd vars) lang \<Rightarrow> nat \<Rightarrow> 'd pval \<Rightarrow> 'p expr list \<Rightarrow> ('d, 'p) machine \<Rightarrow> ('d pval \<times> ('d, 'p) machine) run" where
  "function_call F G n nm args m =
     then_run (cs_functioncall_pre_variable_passing nm m) (\<lambda>(call, m1).
       let m2 = m1\<lparr>eng := snd (eval_exprs F G args (eng m1))\<rparr> in
       if call then
         then_run (possible_function_call F G n (cs_functioncall_post_variable_passing m2)) (\<lambda>m3.
           Ran (cs_functioncall_end m3))
       else Ran (var_reset, m2))"

subsection \<open>Declarations\<close>

definition start_function_decleration :: "('d, 'p) machine \<Rightarrow> ('d, 'p) machine" where
  "start_function_decleration m =
     (let g = set_flag DONT_EXECUTE (push_css (eng m)) in m\<lparr>eng := g\<lparr>store := (store g)\<lparr>call_types := []\<rparr>\<rparr>\<rparr>)"

definition end_function_decleration ::
  "string \<Rightarrow> 'd param list \<Rightarrow> 'p stmt \<Rightarrow> ('d, 'p) machine \<Rightarrow> ('d, 'p) machine run" where
  "end_function_decleration nm ps a m =
     (let g = pop_css (eng m); f = php3_str_tolower nm (length nm);
          m1 = m\<lparr>eng := g\<lparr>store := (store g)\<lparr>call_types := []\<rparr>\<rparr>\<rparr> in
      if Execute g then
        (if map_of (function_table m) f \<noteq> None then Aborted
         else Ran (m1\<lparr>function_table := function_table m @
           [(f, User_function \<lparr>parameters = ps, body = a, arg_types = call_types (store g)\<rparr>)]\<rparr>))
      else Ran m1)"

definition function_declaration ::
  "'d fp \<Rightarrow> ('d, 'p, 'd vars) lang \<Rightarrow> nat \<Rightarrow> string \<Rightarrow> 'd param list \<Rightarrow> 'p stmt \<Rightarrow> ('d, 'p) machine \<Rightarrow> ('d, 'p) machine run" where
  "function_declaration F G n nm ps a m =
     (let m1 = start_function_decleration m in
      then_run (or_abort (parameter_list ps (eng m1))) (\<lambda>g.
      then_run (exec_stmt F G n a g) (\<lambda>g1.
      end_function_decleration nm ps a (m1\<lparr>eng := g1\<rparr>))))"

end
