(* ===== verification/Control_Call_Props.thy ===== *)
theory Control_Call_Props
  imports Control_Call
begin

text \<open>
  What a call means: the arguments are evaluated, the parameters bound in a new symbol table, the body
  runs by the structured semantics, and the caller's state comes back.  The actions of the interpreter
  around a body implement this, whatever is on the stacks, so that calls may nest and recur.
\<close>

subsection \<open>The meaning of a call\<close>

definition result_of :: "'d outcome \<Rightarrow> 'd pval" where
  "result_of r = (case r of Ret v \<Rightarrow> v | _ \<Rightarrow> var_reset)"

text \<open>The parameters of a function take their arguments.\<close>

fun bind_from :: "'d param list \<Rightarrow> 'd vars \<Rightarrow> 'd vars option" where
  "bind_from [] s = Some s"
| "bind_from ((type, nm, d) # ps) s = do { s1 \<leftarrow> get_function_parameter nm d s; bind_from ps s1 }"

definition bind_parameters :: "'d param list \<Rightarrow> 'd vars \<Rightarrow> 'd vars option" where
  "bind_parameters ps s = (if ps = [] then Some s else bind_from ps (s\<lparr>param_index := 0\<rparr>))"

text \<open>After a call with the symbol table \<open>c\<close>: its variables are gone, the caller's scope is back.\<close>

definition close_call :: "'d vars \<Rightarrow> nat \<Rightarrow> 'd vars \<Rightarrow> 'd vars" where
  "close_call s c s1 =
     (symtab_destroy c s1)\<lparr>active_table := active_table s, vars.function_name := vars.function_name s,
       call_table := call_table s, call_types := call_types s, call_ok := call_ok s\<rparr>"

definition call_meaning ::
  "'d fp \<Rightarrow> ('d, 'p, 'd vars) lang \<Rightarrow> nat \<Rightarrow> string \<Rightarrow> ('d, 'p) entry \<Rightarrow> 'p expr list \<Rightarrow> 'd vars \<Rightarrow> ('d pval \<times> 'd vars) run" where
  "call_meaning F G n f e args s =
     (let s1 = snd (evs F G args (open_call f (entry_types e) s)); c = call_table s1 in
      if \<not> call_ok s1 then Ran (var_reset, close_call s c s1)
      else case e of
        User_function d \<Rightarrow>
          then_run (or_abort (bind_parameters (parameters d) (s1\<lparr>active_table := c\<rparr>))) (\<lambda>s2.
          then_run (run_stmt F G n 0 (body d) s2) (\<lambda>(r, s3). Ran (result_of r, close_call s c s3)))
      | Internal_function h ts \<Rightarrow> (let (v, s2) = h c s1 in Ran (v, close_call s c s2))
      | No_function \<Rightarrow> Aborted)"

text \<open>The caller, of which only the variables change, and what is read only after it is set again.\<close>

definition returns_to :: "('d, 'p) machine \<Rightarrow> ('d pval \<times> 'd vars) run \<Rightarrow> ('d pval \<times> ('d, 'p) machine) run \<Rightarrow> bool" where
  "returns_to m spec r \<longleftrightarrow>
     (case spec of
        Timeout \<Rightarrow> r = Timeout
      | Aborted \<Rightarrow> r = Aborted
      | Ran (v, s) \<Rightarrow> \<exists>rv lt sw. r = Ran (v, m\<lparr>eng := (eng m)\<lparr>store := s, return_value := rv, loop_tokens := lt, switched := sw\<rparr>\<rparr>))"

text \<open>The caller executes code, in a function or not, and its symbol table is the active one.\<close>

definition calls :: "('d, 'p) machine \<Rightarrow> bool" where
  "calls m \<longleftrightarrow> Execute (eng m) \<and> ExecuteFlag (eng m) = EXECUTE \<and> \<not> returned (fstate (eng m)) \<and>
     loop_change_type (fstate (eng m)) = DO_NOTHING \<and> sought (eng m) = None \<and>
     active_table (store (eng m)) = symbol_table m"

subsection \<open>An instance\<close>

text \<open>
  \<open>function id($x) { return $x; }\<close> and a call \<open>ID(5)\<close> at the top level: operator 0 passes 5, operator 1
  reads the variable, the others are constants.
\<close>

definition call_lang :: "(int, nat, int vars) lang" where
  "call_lang = \<lparr>psem = (\<lambda>p vs s.
       if p = 0 then (PLong 0, pass_parameter_by_value (VLong 5) s)
       else if p = 1 then (plain_val (value_of s (active_table s) (name_key ''x'')), s)
       else (PLong (of_nat p), s)),
     unset = (\<lambda>e g. PLong 0)\<rparr>"

definition id_function :: "(int, nat) user_function" where
  "id_function = \<lparr>parameters = [(0, ''x'', None)], body = Return (Some (App 1 [])), arg_types = []\<rparr>"

definition no_variables :: "int vars" where
  "no_variables = \<lparr>symtabs = [(0, \<lparr>names = [], next_free = 0\<rparr>)], cells = [], active_table = 0, globals_table = 0,
     function_name = None, statics = [], call_table = 0, call_types = [], call_ok = True, param_index = 0,
     trackers = [], array_ptr = None, array_ptr_write = False, fresh = 1, notices = []\<rparr>"

definition main_machine :: "(int, nat) machine" where
  "main_machine = \<lparr>
     eng = \<lparr>css = [EXECUTE], ExecuteFlag = EXECUTE, Execute = True,
       fstate = \<lparr>loop_nest_level = 1, loop_change_type = DO_NOTHING, loop_change_level = 0, returned = False,
         function_name = None\<rparr>,
       for_stack = [3], switch_stack = [], return_value = PLong 0, loop_tokens = (\<lambda>_. WHILE), switched = (\<lambda>_. True),
       sought = None, store = no_variables\<rparr>,
     symbol_table = 0, function_type = No_function, function_state_stack = [],
     function_table = [(''id'', User_function id_function)]\<rparr>"

lemma main_calls: "calls main_machine"
  by (simp add: calls_def main_machine_def no_variables_def)

subsection \<open>The actions around the body\<close>

lemma parameters_run:
  "Execute g \<Longrightarrow> parameters_from ps g = map_option (\<lambda>s. g\<lparr>store := s\<rparr>) (bind_from ps (store g))"
proof (induction ps arbitrary: g)
  case Nil
  then show ?case by simp
next
  case (Cons p ps)
  obtain type nm d where p: "p = (type, nm, d)" by (cases p) auto
  show ?case
    using Cons by (cases "get_function_parameter nm d (store g)") (simp_all add: p function_parameter_def)
qed

lemma parameter_list_run:
  "Execute g \<Longrightarrow> parameter_list ps g = map_option (\<lambda>s. g\<lparr>store := s\<rparr>) (bind_parameters ps (store g))"
  using parameters_run [of "g\<lparr>store := (store g)\<lparr>param_index := 0\<rparr>\<rparr>" ps]
  by (cases "bind_from ps ((store g)\<lparr>param_index := 0\<rparr>)") (auto simp: parameter_list_def bind_parameters_def)

text \<open>The state of the caller is what the end of the call makes of the state at the end of the body.\<close>

lemma call_end:
  assumes m: "calls m"
    and g: "css (eng m2) = EXECUTE # css (eng m)" "for_stack (eng m2) = - 1 # for_stack (eng m)"
      "switch_stack (eng m2) = switch_stack (eng m)" "sought (eng m2) = None"
    and s: "function_state_stack m2 = save_state m # function_state_stack m" "function_table m2 = function_table m"
  shows "\<exists>rv lt sw. snd (cs_functioncall_end m2) =
    m\<lparr>eng := (eng m)\<lparr>store := close_call (store (eng m)) (symbol_table m2) (store (eng m2)),
      return_value := rv, loop_tokens := lt, switched := sw\<rparr>\<rparr>"
proof (intro exI)
  show "snd (cs_functioncall_end m2) = m\<lparr>eng := (eng m)\<lparr>store := close_call (store (eng m)) (symbol_table m2) (store (eng m2)),
      return_value := return_value (eng m2), loop_tokens := loop_tokens (eng m2), switched := switched (eng m2)\<rparr>\<rparr>"
    using assms
    by (cases m; cases "eng m"; cases "eng m2"; cases m2)
      (auto simp: cs_functioncall_end_def Let_def restore_state_def save_state_def restore_vars_def close_call_def
        pop_css_def set_flag_def SHOULD_EXECUTE_def int_top_def calls_def)
qed

text \<open>The function is found, and its arguments are evaluated.\<close>

definition opened :: "('d, 'p) machine \<Rightarrow> string \<Rightarrow> ('d, 'p) entry \<Rightarrow> 'd vars \<Rightarrow> ('d, 'p) machine" where
  "opened m f e s =
     m\<lparr>eng := (eng m)\<lparr>for_stack := - 1 # for_stack (eng m), fstate := (fstate (eng m))\<lparr>function_state.function_name := Some f\<rparr>,
         store := s\<rparr>, function_type := e, function_state_stack := save_state m # function_state_stack m\<rparr>"

lemma call_opened:
  assumes "calls m" "map_of (function_table m) (php3_str_tolower nm (length nm)) = Some e" "e \<noteq> No_function"
  defines "f \<equiv> php3_str_tolower nm (length nm)"
  shows "function_call F G n (PString nm) args m =
    then_run (possible_function_call F G n (cs_functioncall_post_variable_passing
      (opened m f e (snd (evs F G args (open_call f (entry_types e) (store (eng m)))))))) (\<lambda>m3. Ran (cs_functioncall_end m3))"
proof -
  let ?s = "open_call f (entry_types e) (store (eng m))"
  have pre: "cs_functioncall_pre_variable_passing (PString nm) m = Ran (True, opened m f e ?s)"
    using assms by (cases e) (simp_all add: cs_functioncall_pre_variable_passing_def calls_def Let_def opened_def)
  have "running (eng (opened m f e ?s)) (loop_nest_level (fstate (eng m))) (store (eng (opened m f e ?s)))"
    using assms(1) by (simp add: running_def calls_def opened_def)
  from run_expr(2) [OF this, of F G args]
  have "(opened m f e ?s)\<lparr>eng := snd (eval_exprs F G args (eng (opened m f e ?s)))\<rparr> = opened m f e (snd (evs F G args ?s))"
    by (simp add: opened_def)
  then show ?thesis by (simp add: function_call_def pre Let_def)
qed

lemma opened_post:
  fixes m :: "('d, 'p) machine" and s :: "'d vars" and f :: string and e :: "('d, 'p) entry"
  assumes "calls m"
  defines "m2 \<equiv> cs_functioncall_post_variable_passing (opened m f e s)"
  shows "css (eng m2) = EXECUTE # css (eng m)" "for_stack (eng m2) = - 1 # for_stack (eng m)"
    "switch_stack (eng m2) = switch_stack (eng m)" "sought (eng m2) = None"
    "function_state_stack m2 = save_state m # function_state_stack m" "function_table m2 = function_table m"
    "symbol_table m2 = call_table s" "function_type m2 = (if call_ok s then e else No_function)"
    "\<not> returned (fstate (eng m2))"
    "call_ok s \<Longrightarrow> e = User_function d \<Longrightarrow> running (eng m2) 0 (s\<lparr>active_table := call_table s\<rparr>)"
    "call_ok s \<Longrightarrow> e = Internal_function h ts \<Longrightarrow> return_value (eng m2) = fst (h (call_table s) s) \<and> store (eng m2) = snd (h (call_table s) s)"
    "\<not> call_ok s \<Longrightarrow> return_value (eng m2) = var_reset \<and> store (eng m2) = s"
  using assms(1)
  by (auto simp: m2_def cs_functioncall_post_variable_passing_def opened_def Let_def push_css_def calls_def running_def
      split: entry.splits prod.splits)


lemma returns_Ran: "\<exists>rv lt sw. snd x = m\<lparr>eng := (eng m)\<lparr>store := s, return_value := rv, loop_tokens := lt, switched := sw\<rparr>\<rparr> \<Longrightarrow>
    fst x = v \<Longrightarrow> returns_to m (Ran (v, s)) (Ran x)"
  by (cases x) (auto simp: returns_to_def)

lemma call_result:
  "fst (cs_functioncall_end m) = (case function_type m of
     User_function d \<Rightarrow> if returned (fstate (eng m)) then return_value (eng m) else var_reset | _ \<Rightarrow> return_value (eng m))"
  by (simp add: cs_functioncall_end_def Let_def)

lemma user_body:
  fixes m :: "('d, 'p) machine" and s :: "'d vars"
  assumes m: "calls m" and s: "call_ok s" and wf: "wf_stmt (body d)"
  shows "returns_to m
    (then_run (or_abort (bind_parameters (parameters d) (s\<lparr>active_table := call_table s\<rparr>))) (\<lambda>s2.
      then_run (run_stmt F G n 0 (body d) s2) (\<lambda>(r, s3). Ran (result_of r, close_call (store (eng m)) (call_table s) s3))))
    (then_run (possible_function_call F G n (cs_functioncall_post_variable_passing (opened m f (User_function d) s)))
      (\<lambda>m3. Ran (cs_functioncall_end m3)))"
proof -
  define m2 where "m2 = cs_functioncall_post_variable_passing (opened m f (User_function d) s)"
  note post = opened_post [OF m, where f = f and e = "User_function d" and s = s, folded m2_def]
  have run: "running (eng m2) 0 (s\<lparr>active_table := call_table s\<rparr>)" using post(10) s by simp
  have pl: "parameter_list (parameters d) (eng m2) =
      map_option (\<lambda>s. (eng m2)\<lparr>store := s\<rparr>) (bind_parameters (parameters d) (s\<lparr>active_table := call_table s\<rparr>))"
    using parameter_list_run [of "eng m2"] run by (simp add: running_def)
  show ?thesis
  proof (cases "bind_parameters (parameters d) (s\<lparr>active_table := call_table s\<rparr>)")
    case None
    then show ?thesis using pl s post(8)
      by (simp add: m2_def [symmetric] possible_function_call_def or_abort_def returns_to_def)
  next
    case (Some s2)
    define g where "g = (eng m2)\<lparr>store := s2\<rparr>"
    have "running g 0 s2" unfolding g_def by (rule run_store [OF run])
    moreover have "not_running (for_offsets (body d)) g" using post(2) by (simp add: g_def not_running_def)
    ultimately have ag: "agrees (run_stmt F G n 0 (body d) s2) (exec_stmt F G n (body d) g) g"
      by (rule stmt_okD [OF program_ok(1) _ wf])
    have step: "then_run (possible_function_call F G n m2) (\<lambda>m3. Ran (cs_functioncall_end m3)) =
        then_run (exec_stmt F G n (body d) g) (\<lambda>g1. Ran (cs_functioncall_end (m2\<lparr>eng := g1\<rparr>)))"
      using pl Some s post(8) by (cases "exec_stmt F G n (body d) g") (simp_all add: possible_function_call_def or_abort_def g_def)
    show ?thesis
    proof (cases "run_stmt F G n 0 (body d) s2")
      case (Ran x)
      obtain r s3 where x: "x = (r, s3)" by force
      obtain g1 where g1: "exec_stmt F G n (body d) g = Ran g1" "ended r s3 g g1"
        using ag Ran by (auto simp: agrees_def x)
      have "level_ok 0 r" by (rule outcome_levels(1) [OF Ran [unfolded x]])
      then have v: "fst (cs_functioncall_end (m2\<lparr>eng := g1\<rparr>)) = result_of r"
        using g1(2) post(8) s by (cases r) (auto simp: call_result result_of_def ended_def shows_outcome_def)
      have "\<exists>rv lt sw. snd (cs_functioncall_end (m2\<lparr>eng := g1\<rparr>)) = m\<lparr>eng := (eng m)\<lparr>store :=
          close_call (store (eng m)) (symbol_table (m2\<lparr>eng := g1\<rparr>)) (store (eng (m2\<lparr>eng := g1\<rparr>))),
          return_value := rv, loop_tokens := lt, switched := sw\<rparr>\<rparr>"
        by (rule call_end [OF m]) (use g1(2) post in \<open>simp_all add: ended_def frame_def g_def\<close>)
      then show ?thesis unfolding m2_def [symmetric] step using Some Ran g1 v post(7)
        by (simp add: x or_abort_def returns_Ran ended_def)
    qed (use ag Some in \<open>simp_all add: m2_def [symmetric] step agrees_def or_abort_def returns_to_def\<close>)
  qed
qed

text \<open>C3: a call of a function acts on the caller as its meaning does on the variables: it runs out of fuel or
  aborts when the meaning does, and otherwise has its value, and nothing of the caller's state has
  changed but the variables (and what is set before it is read again): every stack, the flags, the loop
  levels and the function state are back, whatever the function did to them.  This is so in the middle of
  the caller's loops, and when the function calls itself.\<close>

theorem function_call_meaning:
  assumes "calls m" "map_of (function_table m) (php3_str_tolower nm (length nm)) = Some e" "e \<noteq> No_function"
    and wf: "\<And>d. e = User_function d \<Longrightarrow> wf_stmt (body d)"
  shows "returns_to m (call_meaning F G n (php3_str_tolower nm (length nm)) e args (store (eng m)))
    (function_call F G n (PString nm) args m)"
proof -
  define f where "f = php3_str_tolower nm (length nm)"
  define s where "s = snd (evs F G args (open_call f (entry_types e) (store (eng m))))"
  define m2 where "m2 = cs_functioncall_post_variable_passing (opened m f e s)"
  note fc = call_opened [OF assms(1-3), of F G n args, folded f_def, folded s_def]
  note post = opened_post [OF assms(1), where f = f and e = e and s = s, folded m2_def]
  note ends = call_end [OF assms(1) post(1-6)]
  note meaning = call_meaning_def [of F G n f e args "store (eng m)", folded s_def, unfolded Let_def, folded s_def]
  have idle: "possible_function_call F G n m2 = Ran m2" if "\<And>d. function_type m2 \<noteq> User_function d"
    using that by (simp add: possible_function_call_def split: entry.split)
  show ?thesis
  proof (cases "call_ok s")
    case False
    then have "possible_function_call F G n m2 = Ran m2" using idle post(8) by simp
    moreover have "fst (cs_functioncall_end m2) = var_reset" using False post(8,12) by (simp add: call_result)
    ultimately show ?thesis unfolding f_def [symmetric] fc m2_def [symmetric]
      using False ends post(7,12) by (simp add: meaning returns_Ran)
  next
    case True
    show ?thesis
    proof (cases e)
      case (User_function d)
      then show ?thesis unfolding f_def [symmetric] fc meaning
        using user_body [OF assms(1) True wf [OF User_function], of F G n f] True
        by simp
    next
      case (Internal_function h ts)
      then have "possible_function_call F G n m2 = Ran m2" using idle post(8) by simp
      moreover obtain v s2 where "h (call_table s) s = (v, s2)" by force
      moreover from this have "fst (cs_functioncall_end m2) = v"
        using True Internal_function post(8,11) by (simp add: call_result)
      ultimately show ?thesis unfolding f_def [symmetric] fc m2_def [symmetric] meaning
        using True Internal_function ends post(7,11) by (simp add: returns_Ran)
    qed (use assms(3) in simp)
  qed
qed


lemmas evaluate_vars =
  open_call_def pass_parameter_by_value_def argument_type_def argument_offset_def sym_next_insert_def sym_find_def
  symtab_of_def sym_update_def store_temp_def set_symtab_def set_cell_def od_bump_def Let_def
  bind_parameters_def get_function_parameter_def deref_def value_of_def close_call_def symtab_destroy_def free_slot_def

lemma id_meaning:
  "\<exists>s. call_meaning int_fp call_lang 0 ''id'' (User_function id_function) [App 0 []] no_variables = Ran (PLong 5, s) \<and>
     active_table s = 0 \<and> symtabs s = symtabs no_variables \<and> cells s = []"
  by (simp add: call_meaning_def call_lang_def id_function_def no_variables_def evaluate_vars entry_types_def slot_addr_def
    or_abort_def ev_opt_def result_of_def name_key_def)

theorem function_call_meaning_witness:
  "\<exists>m. function_call int_fp call_lang 0 (PString ''ID'') [App 0 []] main_machine = Ran (PLong 5, m) \<and>
     for_stack (eng m) = [3] \<and> loop_nest_level (fstate (eng m)) = 1 \<and> active_table (store (eng m)) = 0"
proof -
  have f: "php3_str_tolower ''ID'' (length ''ID'') = ''id''" by code_simp
  have "map_of (function_table main_machine) (php3_str_tolower ''ID'' (length ''ID'')) = Some (User_function id_function)"
    unfolding f by (simp add: main_machine_def)
  from function_call_meaning [OF main_calls this, of int_fp call_lang 0 "[App 0 []]", unfolded f]
  have "returns_to main_machine (call_meaning int_fp call_lang 0 ''id'' (User_function id_function) [App 0 []] no_variables)
      (function_call int_fp call_lang 0 (PString ''ID'') [App 0 []] main_machine)"
    by (simp add: id_function_def) (simp add: main_machine_def)
  moreover obtain s where "call_meaning int_fp call_lang 0 ''id'' (User_function id_function) [App 0 []] no_variables = Ran (PLong 5, s)"
    "active_table s = 0" using id_meaning by blast
  ultimately show ?thesis by (auto simp: returns_to_def main_machine_def)
qed

text \<open>A call in code that is not executed only evaluates its arguments, which changes nothing.\<close>

lemma call_skipped: "quiet (eng m) \<Longrightarrow> function_call F G n nm args m = Ran (var_reset, m)"
  using skip_expr(2) [of "eng m" F G args]
  by (auto simp: function_call_def cs_functioncall_pre_variable_passing_def Let_def)

subsection \<open>Declarations\<close>

text \<open>The types that the parsing of a parameter list collects.\<close>

fun declared_from :: "'d param list \<Rightarrow> 'd vars \<Rightarrow> 'd vars" where
  "declared_from [] s = s"
| "declared_from ((type, nm, d) # ps) s =
     (let s1 = declare_parameter type s in declared_from ps (s1\<lparr>param_index := param_index s1 + 1\<rparr>))"

lemma parameters_skipped:
  "\<not> Execute g \<Longrightarrow> parameters_from ps g = Some (g\<lparr>store := declared_from ps (store g)\<rparr>)"
proof (induction ps arbitrary: g)
  case (Cons p ps)
  obtain type nm d where p: "p = (type, nm, d)" by (cases p) auto
  show ?case using Cons.prems Cons.IH by (simp add: p function_parameter_def Let_def)
qed simp

text \<open>\<open>func_arg_types\<close> agrees with the types of the first \<open>k\<close> parameters.\<close>

definition types_ok :: "nat list \<Rightarrow> nat list \<Rightarrow> bool" where
  "types_ok ts tys \<longleftrightarrow>
     (ts = [] \<longrightarrow> (\<forall>y\<in>set tys. y = 0)) \<and>
     (ts \<noteq> [] \<longrightarrow> length ts = hd ts + 1 \<and> hd ts \<le> length tys \<and> tl ts = take (hd ts) tys \<and> (\<forall>y\<in>set (drop (hd ts) tys). y = 0))"

lemma declare_step:
  assumes "types_ok (call_types s) tys" "unat (param_index s) = length tys" "length tys < 255"
  shows "types_ok (call_types (declare_parameter type s)) (tys @ [type])"
proof (cases "type = 0")
  case True
  then show ?thesis using assms by (auto simp: declare_parameter_def Let_def types_ok_def)
next
  case False
  define n where "n = (if call_types s = [] then 0 else hd (call_types s))"
  have t: "n \<le> length tys" "take n (tl (call_types s)) = take n tys" "drop n tys = replicate (length tys - n) 0"
    using assms(1) by (auto simp: types_ok_def n_def intro!: replicate_eqI)
  have "take n tys @ replicate (length tys - n) 0 = tys" using append_take_drop_id [of n tys] t(3) by simp
  then have "take n (tl (call_types s)) @ replicate (length tys - n) 0 @ [type] = tys @ [type]" using t(2) by simp
  moreover have "(length tys + 1) mod 256 = length tys + 1" using assms(3) by simp
  ultimately have "call_types (declare_parameter type s) = (length tys + 1) # tys @ [type]"
    using False assms(2) by (simp add: declare_parameter_def Let_def n_def)
  then show ?thesis by (simp add: types_ok_def)
qed

lemma declared_types:
  "types_ok (call_types s) tys \<Longrightarrow> unat (param_index s) = length tys \<Longrightarrow> length tys + length ps \<le> 255 \<Longrightarrow>
   types_ok (call_types (declared_from ps s)) (tys @ map fst ps) \<and>
   declared_from ps s = s\<lparr>call_types := call_types (declared_from ps s), param_index := param_index (declared_from ps s)\<rparr>"
proof (induction ps arbitrary: s tys)
  case (Cons p ps)
  obtain type nm d where p: "p = (type, nm, d)" by (cases p) auto
  define s1 where "s1 = (declare_parameter type s)\<lparr>param_index := param_index s + 1\<rparr>"
  have i: "param_index (declare_parameter type s) = param_index s"
    "declare_parameter type s = s\<lparr>call_types := call_types (declare_parameter type s)\<rparr>"
    by (auto simp: declare_parameter_def Let_def)
  have "types_ok (call_types s1) (tys @ [type])" using declare_step [OF Cons.prems(1,2)] Cons.prems(3) by (simp add: s1_def)
  moreover have "unat (param_index s1) = length (tys @ [type])"
    using Cons.prems(2,3) by (simp add: s1_def unat_word_ariths)
  ultimately have IH: "types_ok (call_types (declared_from ps s1)) ((tys @ [type]) @ map fst ps) \<and>
      declared_from ps s1 = s1\<lparr>call_types := call_types (declared_from ps s1), param_index := param_index (declared_from ps s1)\<rparr>"
    using Cons.prems(3) by (intro Cons.IH) simp_all
  have "declared_from (p # ps) s = declared_from ps s1" by (simp add: p s1_def i(1) Let_def)
  moreover have "s1\<lparr>call_types := a, param_index := b\<rparr> = s\<lparr>call_types := a, param_index := b\<rparr>" for a b
    unfolding s1_def by (subst i(2)) simp
  ultimately show ?case using IH by (simp add: p)
qed simp


lemma argument_types:
  assumes "types_ok (call_types st) tys" "argument_offset st \<noteq> 0"
  shows "argument_type st = (if argument_offset st \<le> length tys then tys ! (argument_offset st - 1) else 0)"
proof -
  let ?ts = "call_types st" and ?k = "argument_offset st"
  have z: "tys ! (?k - 1) = 0" if "n < ?k" "?k \<le> length tys" "\<forall>y\<in>set (drop n tys). y = 0" for n
  proof -
    have "tys ! (?k - 1) \<in> set (drop n tys)"
      using that(1,2) assms(2) by (auto simp: in_set_conv_nth intro!: exI [of _ "?k - 1 - n"])
    then show ?thesis using that(3) by blast
  qed
  show ?thesis
  proof (cases "?ts = []")
    case True
    then show ?thesis using z [of 0] assms by (simp add: argument_type_def Let_def types_ok_def)
  next
    case False
    then obtain n r where nr: "?ts = n # r" by (cases ?ts) auto
    have "?ts ! ?k = tys ! (?k - 1)" if "?k \<le> hd ?ts"
      using that assms nr by (cases ?k) (simp_all add: types_ok_def)
    then show ?thesis using z [of "hd ?ts"] False assms by (auto simp: argument_type_def Let_def types_ok_def)
  qed
qed

lemma parameter_list_skipped:
  assumes "\<not> Execute g" "call_types (store g) = []" "length ps \<le> 255"
  shows "\<exists>ts i. parameter_list ps g = Some (g\<lparr>store := (store g)\<lparr>call_types := ts, param_index := i\<rparr>\<rparr>) \<and> types_ok ts (map fst ps)"
proof (cases "ps = []")
  case True
  have "g\<lparr>store := (store g)\<lparr>call_types := [], param_index := param_index (store g)\<rparr>\<rparr> = g" using assms(2) by simp
  then show ?thesis using True by (intro exI [of _ "[]"] exI [of _ "param_index (store g)"]) (simp add: parameter_list_def types_ok_def)
next
  case False
  let ?s = "(store g)\<lparr>param_index := 0\<rparr>"
  have "types_ok (call_types (declared_from ps ?s)) (map fst ps)"
    "declared_from ps ?s = ?s\<lparr>call_types := call_types (declared_from ps ?s), param_index := param_index (declared_from ps ?s)\<rparr>"
    using declared_types [of ?s "[]" ps] assms(2,3) by (auto simp: types_ok_def)
  then show ?thesis
    using parameters_skipped [of "g\<lparr>store := ?s\<rparr>" ps] assms(1) False
    by (intro exI [of _ "call_types (declared_from ps ?s)"] exI [of _ "param_index (declared_from ps ?s)"])
      (simp add: parameter_list_def)
qed

text \<open>C16: a function declaration executes nothing of the body and adds the function to the table, under its
  name in lower case, with the types of its parameters: an argument is passed as the parameter of its
  place is declared, and by value behind the last one.  A second declaration of a name aborts.\<close>

theorem function_declared:
  fixes nm :: string and m :: "('d, 'p) machine"
  assumes "calls m" "wf_stmt a" "not_running (for_offsets a) (eng m)" "length ps \<le> 255"
  defines "f \<equiv> php3_str_tolower nm (length nm)"
  shows "(map_of (function_table m) f \<noteq> None \<longrightarrow> function_declaration F G n nm ps a m = Aborted) \<and>
    (map_of (function_table m) f = None \<longrightarrow>
      (\<exists>ts i sw. function_declaration F G n nm ps a m =
          Ran (m\<lparr>eng := (eng m)\<lparr>store := (store (eng m))\<lparr>call_types := [], param_index := i\<rparr>, switched := sw\<rparr>,
            function_table := function_table m @ [(f, User_function \<lparr>parameters = ps, body = a, arg_types = ts\<rparr>)]\<rparr>) \<and>
        (\<forall>st :: 'd vars. call_types st = ts \<longrightarrow> argument_offset st \<noteq> 0 \<longrightarrow> argument_type st =
          (if argument_offset st \<le> length ps then fst (ps ! (argument_offset st - 1)) else 0))))"
proof -
  define m1 where "m1 = start_function_decleration m"
  have e: "\<not> Execute (eng m1)" "call_types (store (eng m1)) = []" "for_stack (eng m1) = for_stack (eng m)"
    using assms(1) by (simp_all add: m1_def start_function_decleration_def set_flag_def SHOULD_EXECUTE_def Let_def
        push_css_def EXECUTE_def DONT_EXECUTE_def)
  obtain ts i where p: "parameter_list ps (eng m1) = Some ((eng m1)\<lparr>store := (store (eng m1))\<lparr>call_types := ts, param_index := i\<rparr>\<rparr>)"
    and ts: "types_ok ts (map fst ps)"
    using parameter_list_skipped [OF e(1,2) assms(4)] by blast
  define g where "g = (eng m1)\<lparr>store := (store (eng m1))\<lparr>call_types := ts, param_index := i\<rparr>\<rparr>"
  have "quiet g" using assms(1)
    by (simp add: g_def m1_def start_function_decleration_def calls_def quiet_def flag_defs EXECUTE_def DONT_EXECUTE_def)
  moreover have "not_running (for_offsets a) g" using assms(3) not_running_cong [of g "eng m"] e(3) by (simp add: g_def)
  ultimately obtain sw where sw: "exec_stmt F G n a g = Ran (g\<lparr>switched := sw\<rparr>)"
    using skip_stmt(1) [OF assms(2)] by blast
  have run: "function_declaration F G n nm ps a m = end_function_decleration nm ps a (m1\<lparr>eng := g\<lparr>switched := sw\<rparr>\<rparr>)"
    by (simp add: function_declaration_def m1_def [symmetric] Let_def or_abort_def p g_def [symmetric] sw)
  have pop: "pop_css (g\<lparr>switched := sw\<rparr>) =
      (eng m)\<lparr>store := (store (eng m))\<lparr>call_types := ts, param_index := i\<rparr>, switched := sw\<rparr>"
    using assms(1) by (cases "eng m") (simp add: g_def m1_def start_function_decleration_def calls_def flag_defs)
  have ends: "end_function_decleration nm ps a (m1\<lparr>eng := g\<lparr>switched := sw\<rparr>\<rparr>) =
     (if map_of (function_table m) f \<noteq> None then Aborted
      else Ran (m\<lparr>eng := (eng m)\<lparr>store := (store (eng m))\<lparr>call_types := [], param_index := i\<rparr>, switched := sw\<rparr>,
            function_table := function_table m @ [(f, User_function \<lparr>parameters = ps, body = a, arg_types = ts\<rparr>)]\<rparr>))"
    using assms(1)
    using pop by (simp add: end_function_decleration_def f_def [symmetric] Let_def calls_def) (simp add: m1_def start_function_decleration_def)
  have types: "\<forall>st :: 'd vars. call_types st = ts \<longrightarrow> argument_offset st \<noteq> 0 \<longrightarrow> argument_type st =
          (if argument_offset st \<le> length ps then fst (ps ! (argument_offset st - 1)) else 0)"
  proof (intro allI impI)
    fix st :: "'d vars"
    assume st: "call_types st = ts" "argument_offset st \<noteq> 0"
    have "types_ok (call_types st) (map fst ps)" using ts st(1) by simp
    from argument_types [OF this st(2)] show "argument_type st =
          (if argument_offset st \<le> length ps then fst (ps ! (argument_offset st - 1)) else 0)"
      using st(2) by simp
  qed
  show ?thesis
  proof (cases "map_of (function_table m) f = None")
    case True
    then have d: "function_declaration F G n nm ps a m =
      Ran (m\<lparr>eng := (eng m)\<lparr>store := (store (eng m))\<lparr>call_types := [], param_index := i\<rparr>, switched := sw\<rparr>,
            function_table := function_table m @ [(f, User_function \<lparr>parameters = ps, body = a, arg_types = ts\<rparr>)]\<rparr>)"
      unfolding run ends by (simp only: if_False not_True_eq_False simp_thms)
    show ?thesis
      by (rule conjI, use True in simp, rule impI, rule exI [of _ ts], rule exI [of _ i], rule exI [of _ sw],
        rule conjI [OF d types])
  next
    case False
    have "function_declaration F G n nm ps a m = Aborted" unfolding run ends using False by simp
    then show ?thesis using False by simp
  qed
qed


text \<open>\<open>function Two($x, &$y) { return 7; }\<close>.\<close>

theorem function_declared_witness:
  "\<exists>m ts. function_declaration int_fp call_lang 0 ''Two'' [(0, ''x'', None), (1, ''y'', None)] (Return (Some (App 7 []))) main_machine
       = Ran m \<and>
     map_of (function_table m) ''two'' =
       Some (User_function \<lparr>parameters = [(0, ''x'', None), (1, ''y'', None)], body = Return (Some (App 7 [])), arg_types = ts\<rparr>) \<and>
     Execute (eng m)"
proof -
  let ?ps = "[(0, ''x'', None), (1, ''y'', None)] :: int param list" and ?a = "Return (Some (App 7 [])) :: nat stmt"
  have f: "php3_str_tolower ''Two'' (length ''Two'') = ''two''" by code_simp
  have h: "wf_stmt ?a" "not_running (for_offsets ?a) (eng main_machine)" "length ?ps \<le> 255" by (simp_all add: not_running_def)
  have "map_of (function_table main_machine) ''two'' = None" "Execute (eng main_machine)" by (simp_all add: main_machine_def)
  then show ?thesis using function_declared [OF main_calls h, where F = int_fp and G = call_lang and n = 0 and nm = "''Two''", unfolded f]
    by (auto simp: map_add_def)
qed

end
