(* ===== verification/Serial.thy ===== *)
theory Serial
  imports Value_Laws
begin

text \<open>
  Serializing values (functions/var.c).  The text is a C string in a block: it is followed by a NUL
  byte, and reading behind that byte is a bad access.  Arrays are the ordered lists of their entries;
  entries that were never given a value, which the code recognizes by a pointer and skips, and arrays
  that contain themselves are not in the model.
\<close>

subsection \<open>Writing\<close>

text \<open>\<open>STR_CAT\<close> appends to the buffer, which is the result here.  A string key is written to its first NUL byte.\<close>

definition key_pval :: "hkey \<Rightarrow> 'd pval" where
  "key_pval k = (case k of KIdx h \<Rightarrow> PLong h | KStr s \<Rightarrow> PString (c_str s))"

definition serialize_string :: "string \<Rightarrow> string" where
  "serialize_string s = ''s:'' @ dec_digits (length s) @ '':'' @ [CHR 0x22] @ s @ [CHR 0x22, CHR '';'']"

definition serialize_long :: "64 word \<Rightarrow> string" where
  "serialize_long l = ''i:'' @ print_ld l @ '';''"

definition serialize_key :: "hkey \<Rightarrow> string" where
  "serialize_key k = (case k of KIdx h \<Rightarrow> serialize_long h | KStr s \<Rightarrow> serialize_string (c_str s))"

fun php3api_var_serialize :: "'d fp \<Rightarrow> 'd pval \<Rightarrow> string"
and serialize_entries :: "'d fp \<Rightarrow> (hkey \<times> 'd pval) list \<Rightarrow> string" where
  "php3api_var_serialize F (PLong l) = serialize_long l"
| "php3api_var_serialize F (PDouble d) = ''d:'' @ d_print F d @ '';''"
| "php3api_var_serialize F (PString s) = serialize_string s"
| "php3api_var_serialize F (PArray (es, n)) =
     ''a:'' @ dec_digits (length es) @ '':{'' @ serialize_entries F es @ ''}''"
| "php3api_var_serialize F (PObject (es, n)) =
     ''o:'' @ dec_digits (length es) @ '':{'' @ serialize_entries F es @ ''}''"
| "php3api_var_serialize F v = ''i:0;''"
| "serialize_entries F [] = []"
| "serialize_entries F ((k, v) # es) = serialize_key k @ php3api_var_serialize F v @ serialize_entries F es"

subsection \<open>Dumping\<close>

text \<open>
  \<open>%*c\<close> pads a space to the width \<open>level\<close>, and the first character is not written.  Values that are no
  data are dumped as \<open>i:0\<close>.
\<close>

definition indent :: "nat \<Rightarrow> string" where
  "indent level = replicate (level - 1) (CHR '' '')"

definition newline :: string where
  "newline = [CHR 0x0A]"

definition dump_string :: "nat \<Rightarrow> string \<Rightarrow> string" where
  "dump_string level s =
     indent level @ ''string('' @ dec_digits (length s) @ '') '' @ [CHR 0x22] @ s @ [CHR 0x22] @ newline"

definition dump_key :: "nat \<Rightarrow> hkey \<Rightarrow> string" where
  "dump_key level k =
     (case k of KIdx h \<Rightarrow> indent level @ ''int('' @ print_ld h @ '')'' @ newline | KStr s \<Rightarrow> dump_string level (c_str s))"

fun php3api_var_dump :: "'d fp \<Rightarrow> nat \<Rightarrow> 'd pval \<Rightarrow> string"
and dump_entries :: "'d fp \<Rightarrow> nat \<Rightarrow> bool \<Rightarrow> (hkey \<times> 'd pval) list \<Rightarrow> string" where
  "php3api_var_dump F level (PLong l) = indent level @ ''int('' @ print_ld l @ '')'' @ newline"
| "php3api_var_dump F level (PDouble d) = indent level @ ''float('' @ d_print F d @ '')'' @ newline"
| "php3api_var_dump F level (PString s) = dump_string level s"
| "php3api_var_dump F level (PArray (es, n)) =
     indent level @ ''array('' @ dec_digits (length es) @ '') {'' @ newline @
     dump_entries F level False es @ indent level @ ''}'' @ newline"
| "php3api_var_dump F level (PObject (es, n)) =
     indent level @ ''object('' @ dec_digits (length es) @ '') {'' @ newline @
     dump_entries F level False es @ indent level @ ''}'' @ newline"
| "php3api_var_dump F level v = indent level @ ''i:0'' @ newline"
| "dump_entries F level again [] = []"
| "dump_entries F level again ((k, v) # es) =
     (if again then newline else []) @ dump_key (level + 2) k @ php3api_var_dump F (level + 2) v @
     dump_entries F level True es"

subsection \<open>Reading\<close>

text \<open>The byte at a position of the block, and the text from there as \<open>atol\<close> sees it.\<close>

definition rd :: "string \<Rightarrow> nat \<Rightarrow> char option" where
  "rd s p = (if p < length s then Some (s ! p) else if p = length s then Some NUL else None)"

definition atol :: "string \<Rightarrow> nat \<Rightarrow> int" where
  "atol s p = fst (strtol 10 (c_str (drop p s)))"

definition atoi :: "string \<Rightarrow> nat \<Rightarrow> int" where
  "atoi s p = int_of_long (atol s p)"

text \<open>\<open>while (**p && **p != c) (*p)++\<close>, from a position in the block.\<close>

definition skip_to :: "char \<Rightarrow> string \<Rightarrow> nat \<Rightarrow> nat" where
  "skip_to c s p = p + length (takeWhile (\<lambda>x. x \<noteq> NUL \<and> x \<noteq> c) (drop p s))"

text \<open>
  How reading ends: out of fuel, with a bad access, with the answer 0, or with the answer 1, a result
  and the position after it.
\<close>

datatype 'a parse = Starved | Bad_read | Failed | Got 'a nat

definition od_index_update :: "ulong \<Rightarrow> 'v \<Rightarrow> 'v odict \<Rightarrow> 'v odict" where
  "od_index_update h v = od_step (IndexUpdate h v) SUCCESS"

definition od_add :: "string \<Rightarrow> 'v \<Rightarrow> 'v odict \<Rightarrow> 'v odict" where
  "od_add k v a = (if ckey k \<in> fst ` set (fst a) then a else od_step (Add k v) SUCCESS a)"

text \<open>An entry whose key is neither a long nor a string is dropped.\<close>

definition add_entry :: "'d pval \<Rightarrow> 'd pval \<Rightarrow> 'd pval odict \<Rightarrow> 'd pval odict" where
  "add_entry key data ht =
     (case key of PLong h \<Rightarrow> od_index_update h data ht | PString k \<Rightarrow> od_add (k @ [NUL]) data ht | _ \<Rightarrow> ht)"

definition scan_number :: "(nat \<Rightarrow> 'd pval) \<Rightarrow> string \<Rightarrow> nat \<Rightarrow> 'd pval parse" where
  "scan_number val s p =
     (if rd s (p + 1) \<noteq> Some CHR '':'' then Failed
      else let q = skip_to CHR '';'' s p in
        if rd s q \<noteq> Some CHR '';'' then Failed else Got (val (p + 2)) (q + 1))"

text \<open>The block of the string gets \<open>i + 1\<close> bytes, of which \<open>i\<close> are copied and the last one is set to NUL.\<close>

definition scan_string :: "string \<Rightarrow> nat \<Rightarrow> 'd pval parse" where
  "scan_string s p0 =
     (if rd s (p0 + 1) \<noteq> Some CHR '':'' then Failed
      else let q = p0 + 2; p = skip_to CHR '':'' s q in
        if rd s p \<noteq> Some CHR '':'' then Failed
        else let i = atoi s q in
          if i < 0 \<or> int (length s) < int p + 3 + i then Failed
          else let n = nat i in
            if rd s (p + 1) = None \<or> rd s (p + 2 + n) = None \<or> rd s (p + 3 + n) = None then Bad_read
            else if rd s (p + 1) \<noteq> Some CHR 0x22 \<or> rd s (p + 2 + n) \<noteq> Some CHR 0x22 \<or> rd s (p + 3 + n) \<noteq> Some CHR '';''
            then Failed
            else Got (PString (take n (drop (p + 2) s))) (p + 2 + (n + 2)))"

text \<open>
  An array: nothing is checked before the two bytes behind the letter are skipped.  The number of
  entries only sizes the table and bounds the loop.
\<close>

function php3api_var_unserialize :: "'d fp \<Rightarrow> nat \<Rightarrow> string \<Rightarrow> nat \<Rightarrow> 'd pval parse"
and unserialize_elems :: "'d fp \<Rightarrow> nat \<Rightarrow> string \<Rightarrow> nat \<Rightarrow> int \<Rightarrow> 'd pval odict \<Rightarrow> 'd pval odict parse" where
  "php3api_var_unserialize F 0 s p = Starved"
| "php3api_var_unserialize F (Suc n) s p =
     (case rd s p of
        None \<Rightarrow> Bad_read
      | Some c \<Rightarrow>
        if c = CHR ''i'' then scan_number (\<lambda>q. PLong (word_of_int (atol s q))) s p
        else if c = CHR ''d'' then scan_number (\<lambda>q. PDouble (fst (d_strtod F (c_str (drop q s))))) s p
        else if c = CHR ''s'' then scan_string s p
        else if c = CHR ''a'' \<or> c = CHR ''o'' then
          (if rd s (p + 2) = None then Bad_read
           else let i = atoi s (p + 2); q = skip_to CHR '':'' s (p + 2) in
             if rd s q \<noteq> Some CHR '':'' \<or> rd s (q + 1) \<noteq> Some CHR ''{'' then Failed
             else (case unserialize_elems F n s (q + 2) i ([], 0) of
               Starved \<Rightarrow> Starved | Bad_read \<Rightarrow> Bad_read | Failed \<Rightarrow> Failed
             | Got ht r \<Rightarrow>
                 (case rd s r of None \<Rightarrow> Bad_read
                  | Some e \<Rightarrow> if e = CHR ''}'' then Got (if c = CHR ''a'' then PArray ht else PObject ht) (r + 1) else Failed)))
        else Failed)"
| "unserialize_elems F 0 s p i ht = Starved"
| "unserialize_elems F (Suc n) s p i ht =
     (case rd s p of
        None \<Rightarrow> Bad_read
      | Some c \<Rightarrow>
        if c \<noteq> NUL \<and> c \<noteq> CHR ''}'' \<and> 0 < i then
          (case php3api_var_unserialize F n s p of
             Starved \<Rightarrow> Starved | Bad_read \<Rightarrow> Bad_read | Failed \<Rightarrow> Failed
           | Got key p1 \<Rightarrow>
             (case php3api_var_unserialize F n s p1 of
                Starved \<Rightarrow> Starved | Bad_read \<Rightarrow> Bad_read | Failed \<Rightarrow> Failed
              | Got data p2 \<Rightarrow> unserialize_elems F n s p2 (i - 1) (add_entry key data ht)))
        else Got ht p)"
  by pat_completeness auto

termination
  by (relation "measure (\<lambda>x. case x of Inl (F, n, s, p) \<Rightarrow> n | Inr (F, n, s, p, i, ht) \<Rightarrow> n)") auto

text \<open>The script functions; the fuel is shown to be enough.\<close>

definition php3_serialize :: "'d fp \<Rightarrow> 'd pval \<Rightarrow> string" where
  "php3_serialize F v = php3api_var_serialize F v"

definition php3_unserialize :: "'d fp \<Rightarrow> 'd pval \<Rightarrow> 'd pval parse" where
  "php3_unserialize F buf =
     (case buf of
        PString s \<Rightarrow>
          (case php3api_var_unserialize F (length s + 4) s 0 of
             Failed \<Rightarrow> Got (PString []) 0 | r \<Rightarrow> r)
      | _ \<Rightarrow> Got (PString []) 0)"

end
