(* ===== verification/Serial_Props.thy ===== *)
theory Serial_Props
  imports Serial Value_Props
begin

text \<open>
  Reading back what was written gives the value, reading any text stays inside its block (but for one
  letter at its end) and always ends.
\<close>

subsection \<open>Positions\<close>

lemma rd_drop: "p \<le> length s \<Longrightarrow> rd s (p + k) = rd (drop p s) k"
  by (auto simp: rd_def)

lemma rd_Cons [simp]: "rd (c # s) 0 = Some c" "rd (c # s) (Suc k) = rd s k" "rd [] 0 = Some NUL"
  by (auto simp: rd_def)

lemma rd_app: "rd (a @ s) (length a + k) = rd s k"
  by (auto simp: rd_def nth_append)

lemma rd_numeral [simp]: "rd (c # s) (numeral n) = rd s (pred_numeral n)"
  by (simp add: numeral_eq_Suc)

lemma rd_None: "rd s p = None \<longleftrightarrow> length s < p"
  by (auto simp: rd_def)

lemma rd_Some: "rd s p = Some c \<Longrightarrow> p \<le> length s" "rd s p = Some c \<Longrightarrow> c \<noteq> NUL \<Longrightarrow> p < length s \<and> s ! p = c"
  by (auto simp: rd_def split: if_splits)

lemma drop_add: "drop (p + k) s = drop k (drop p s)"
  by (simp add: add.commute)

lemma atol_drop: "atol s (p + k) = atol (drop p s) k"
  by (simp add: atol_def add.commute)

lemma skip_drop: "skip_to c s (p + k) = p + skip_to c (drop p s) k"
  by (simp add: skip_to_def add.commute)

lemma skip_over: "drop k t = w @ c # r \<Longrightarrow> NUL \<notin> set w \<Longrightarrow> c \<notin> set w \<Longrightarrow> skip_to c t k = k + length w"
  by (auto simp: skip_to_def takeWhile_append)

lemma skip_bounds: "p \<le> length s \<Longrightarrow> p \<le> skip_to c s p" "p \<le> length s \<Longrightarrow> skip_to c s p \<le> length s"
  using length_takeWhile_le [of "\<lambda>x. x \<noteq> NUL \<and> x \<noteq> c" "drop p s"] by (auto simp: skip_to_def)

subsection \<open>Numbers\<close>

lemma strtol_stop:
  assumes "ds \<noteq> []" "\<forall>c\<in>set ds. is_digit_of 10 c" "\<not> is_digit_of 10 x"
  shows "fst (strtol 10 (ds @ x # r)) = min LONG_MAX (int (digits_value 10 ds))"
    and "fst (strtol 10 (CHR ''-'' # ds @ x # r)) = max LONG_MIN (- int (digits_value 10 ds))"
proof -
  obtain c cs where c: "ds = c # cs" using assms(1) by (cases ds) auto
  then have n: "\<not> isspace c" "c \<noteq> CHR ''-''" "c \<noteq> CHR ''+''" using digit_not_sign [of c] assms(2) by simp_all
  have t: "takeWhile (is_digit_of 10) (ds @ x # r) = ds" using assms(2,3) by (simp add: takeWhile_append2)
  have "fst (strtol 10 ((c # cs) @ x # r)) = min LONG_MAX (int (digits_value 10 ds))"
    using n t c by (simp add: strtol_def Let_def)
  then show "fst (strtol 10 (ds @ x # r)) = min LONG_MAX (int (digits_value 10 ds))" by (simp only: c)
  have "\<not> isspace (CHR ''-'')" by (simp add: isspace_def uchar_def)
  then show "fst (strtol 10 (CHR ''-'' # ds @ x # r)) = max LONG_MIN (- int (digits_value 10 ds))"
    using assms t by (simp add: strtol_def Let_def)
qed

lemma separators [simp]: "\<not> is_digit_of 10 CHR '':''" "\<not> is_digit_of 10 CHR '';''" "CHR '':'' \<noteq> NUL" "CHR '';'' \<noteq> NUL"
  "NUL \<noteq> CHR '':''" "NUL \<noteq> CHR '';''"
  by (simp_all add: is_digit_of_def digit_value_def isdigit_def uchar_def NUL_def)

lemma c_str_app: "NUL \<notin> set w \<Longrightarrow> c_str (w @ r) = w @ c_str r"
  by (induction w) (auto simp: c_str_def)

lemma c_str_stop: "NUL \<notin> set w \<Longrightarrow> c \<noteq> NUL \<Longrightarrow> c_str (w @ c # r) = w @ c # c_str r"
  by (simp add: c_str_app) (simp add: c_str_def)

lemma digits_clean: "NUL \<notin> set (dec_digits n)" "CHR '':'' \<notin> set (dec_digits n)" "CHR '';'' \<notin> set (dec_digits n)"
  using dec_digits_all [of n] digit_not_sign(4) separators(1,2) by (auto simp: NUL_def)

lemma atol_digits: "drop k t = dec_digits n @ CHR '':'' # r \<Longrightarrow> int n \<le> LONG_MAX \<Longrightarrow> atol t k = int n"
  by (simp add: atol_def c_str_stop digits_clean strtol_stop(1) [OF dec_digits_not_Nil dec_digits_all] digits_value_dec)

lemma atoi_digits: "drop k t = dec_digits n @ CHR '':'' # r \<Longrightarrow> n < 2147483648 \<Longrightarrow> atoi t k = int n"
  by (simp add: atoi_def atol_digits LONG_MAX_def int_of_long_def)

lemma print_clean: "NUL \<notin> set (print_ld w)" "CHR '';'' \<notin> set (print_ld w)"
  using print_no_nul [of w] digits_clean by (auto simp: print_ld_def)

lemma strtol_semicolon: "fst (strtol 10 (print_ld w @ CHR '';'' # r)) = sint w"
proof -
  note st = strtol_stop [OF dec_digits_not_Nil dec_digits_all separators(2)]
  show ?thesis
  proof (cases "sint w < 0")
    case True
    then show ?thesis using st(2) [of "nat (- sint w)"] sint_bounds(1) [of w] by (simp add: print_ld_def digits_value_dec)
  next
    case False
    then show ?thesis using st(1) [of "nat (sint w)"] sint_bounds(2) [of w] by (simp add: print_ld_def digits_value_dec)
  qed
qed

lemma atol_print: "drop k t = print_ld w @ CHR '';'' # r \<Longrightarrow> atol t k = sint w"
  by (simp add: atol_def c_str_stop print_clean strtol_semicolon)

subsection \<open>Atoms\<close>

declare php3api_var_unserialize.simps(2) [simp del] unserialize_elems.simps(2) [simp del]

lemma unserialize_letter:
  "rd s p = Some CHR ''i'' \<Longrightarrow> php3api_var_unserialize F (Suc n) s p = scan_number (\<lambda>q. PLong (word_of_int (atol s q))) s p"
  "rd s p = Some CHR ''d'' \<Longrightarrow> php3api_var_unserialize F (Suc n) s p =
     scan_number (\<lambda>q. PDouble (fst (d_strtod F (c_str (drop q s))))) s p"
  "rd s p = Some CHR ''s'' \<Longrightarrow> php3api_var_unserialize F (Suc n) s p = scan_string s p"
  by (simp_all add: php3api_var_unserialize.simps(2))

lemma scan_number_text:
  assumes p: "p \<le> length s" and t: "drop p s = x # CHR '':'' # w @ CHR '';'' # r"
    and c: "x \<noteq> NUL" "x \<noteq> CHR '';''" "NUL \<notin> set w" "CHR '';'' \<notin> set w"
  shows "scan_number val s p = Got (val (p + 2)) (p + (length w + 3))"
proof -
  have "skip_to CHR '';'' (drop p s) 0 = 0 + length (x # CHR '':'' # w)"
    by (rule skip_over [of _ _ _ _ r]) (use t c in simp_all)
  then have k: "skip_to CHR '';'' s p = p + (length w + 2)" using skip_drop [of "CHR '';''" s p 0] by simp
  have "rd s (p + (length w + 2)) = rd ((x # CHR '':'' # w) @ CHR '';'' # r) (length (x # CHR '':'' # w) + 0)"
    using rd_drop [OF p, of "length w + 2"] t by simp
  then have "rd s (p + (length w + 2)) = Some CHR '';''" unfolding rd_app by simp
  moreover have "rd s (p + 1) = Some CHR '':''" using rd_drop [OF p, of 1] t by simp
  ultimately show ?thesis by (simp add: scan_number_def k)
qed

lemma scan_string_text:
  assumes p: "p \<le> length s" and t: "drop p s = serialize_string u @ r" and u: "length u < 2147483648"
  shows "scan_string s p = Got (PString u) (p + length (serialize_string u))"
proof -
  define ds where "ds = dec_digits (length u)"
  define b where "b = ''s:'' @ ds"
  have t': "drop p s = b @ CHR '':'' # CHR 0x22 # u @ CHR 0x22 # CHR '';'' # r"
    using t by (simp add: serialize_string_def b_def ds_def)
  have lb: "length b = length ds + 2" by (simp add: b_def)
  have "skip_to CHR '':'' (drop p s) 2 = 2 + length ds"
    by (rule skip_over) (use t' in \<open>simp_all add: b_def ds_def digits_clean\<close>)
  then have q: "skip_to CHR '':'' s (p + 2) = p + length b" using skip_drop [of "CHR '':''" s p 2] lb by simp
  have "drop (p + 2) s = ds @ CHR '':'' # CHR 0x22 # u @ CHR 0x22 # CHR '';'' # r"
    unfolding drop_add t' by (simp add: b_def)
  then have i: "atoi s (p + 2) = int (length u)" unfolding ds_def by (rule atoi_digits [OF _ u])
  have at: "rd s (p + length b + k) = rd (CHR '':'' # CHR 0x22 # u @ CHR 0x22 # CHR '';'' # r) k" for k
    using rd_drop [OF p, of "length b + k"] t' by (simp add: add.assoc rd_app)
  have r2: "rd (u @ CHR 0x22 # CHR '';'' # r) (length u) = Some CHR 0x22"
    "rd (u @ CHR 0x22 # CHR '';'' # r) (Suc (length u)) = Some CHR '';''"
    using rd_app [of u "CHR 0x22 # CHR '';'' # r" 0] rd_app [of u "CHR 0x22 # CHR '';'' # r" 1] by simp_all
  have rds: "rd s (p + length b) = Some CHR '':''" "rd s (p + length b + 1) = Some CHR 0x22"
    "rd s (p + length b + 2 + length u) = Some CHR 0x22" "rd s (p + length b + 3 + length u) = Some CHR '';''"
    using at [of 0] at [of 1] at [of "2 + length u"] at [of "3 + length u"] r2
    by (simp_all add: numeral_eq_Suc add.assoc)
  have "length (drop p s) = length s - p" by simp
  then have len: "p + length b + length u + 4 + length r = length s" using t' p by simp
  have d: "drop (p + length b + 2) s = u @ CHR 0x22 # CHR '';'' # r"
  proof -
    have "drop (p + length b + 2) s = drop (length b + 2) (drop p s)" by (simp add: ac_simps)
    then show ?thesis by (simp add: t')
  qed
  have c: "rd s (p + 1) = Some CHR '':''" using rd_drop [OF p, of 1] t' by (simp add: b_def)
  show ?thesis unfolding scan_string_def Let_def q i
    using c rds len d by (simp add: serialize_string_def b_def ds_def)
qed

subsection \<open>Values that are read back\<close>

text \<open>
  What the text keeps of a value: a double becomes the one that its text, of \<open>precision\<close> digits, is read as,
  the next free index of an array is set by its keys, and values that are no data become 0.
\<close>

definition reread :: "'d fp \<Rightarrow> 'd \<Rightarrow> 'd" where
  "reread F d = fst (d_strtod F (d_print F d))"

fun kept :: "'d fp \<Rightarrow> 'd pval \<Rightarrow> 'd pval" and kept_entries :: "'d fp \<Rightarrow> (hkey \<times> 'd pval) list \<Rightarrow> (hkey \<times> 'd pval) list" where
  "kept F (PLong l) = PLong l"
| "kept F (PDouble d) = PDouble (reread F d)"
| "kept F (PString s) = PString s"
| "kept F (PArray (es, n)) = PArray (kept_entries F es, fold od_bump (map fst es) 0)"
| "kept F (PObject (es, n)) = PObject (kept_entries F es, fold od_bump (map fst es) 0)"
| "kept F v = PLong 0"
| "kept_entries F [] = []"
| "kept_entries F ((k, v) # es) = (k, kept F v) # kept_entries F es"

text \<open>What is known of \<open>%.*G\<close> and \<open>strtod\<close>: the text of a double has no NUL byte and no semicolon, at which
  \<open>strtod\<close> stops.\<close>

definition stops_at_end :: "'d fp \<Rightarrow> 'd \<Rightarrow> bool" where
  "stops_at_end F d \<longleftrightarrow> NUL \<notin> set (d_print F d) \<and> CHR '';'' \<notin> set (d_print F d) \<and>
     (\<forall>r. fst (d_strtod F (d_print F d @ CHR '';'' # r)) = reread F d)"

text \<open>Keys as scripts make them: a text without NUL bytes that is no number, with its NUL byte.\<close>

definition key_ok :: "hkey \<Rightarrow> bool" where
  "key_ok k = (case k of KIdx h \<Rightarrow> True
     | KStr s \<Rightarrow> s = c_str s @ [NUL] \<and> handle_numeric s = None \<and> length s < 2147483648)"

fun plain :: "'d fp \<Rightarrow> 'd pval \<Rightarrow> bool" and plain_entries :: "'d fp \<Rightarrow> (hkey \<times> 'd pval) list \<Rightarrow> bool" where
  "plain F (PDouble d) \<longleftrightarrow> stops_at_end F d"
| "plain F (PString s) \<longleftrightarrow> length s < 2147483648"
| "plain F (PArray (es, n)) \<longleftrightarrow> distinct (map fst es) \<and> length es < 2147483648 \<and> plain_entries F es"
| "plain F (PObject (es, n)) \<longleftrightarrow> distinct (map fst es) \<and> length es < 2147483648 \<and> plain_entries F es"
| "plain F v \<longleftrightarrow> True"
| "plain_entries F [] \<longleftrightarrow> True"
| "plain_entries F ((k, v) # es) \<longleftrightarrow> key_ok k \<and> plain F v \<and> plain_entries F es"

lemma kept_keys [simp]: "map fst (kept_entries F es) = map fst es"
  by (induction es) auto

lemma unserialize_long:
  assumes "p \<le> length s" "drop p s = serialize_long l @ r"
  shows "php3api_var_unserialize F (Suc n) s p = Got (PLong l) (p + length (serialize_long l))"
proof -
  have t: "drop p s = CHR ''i'' # CHR '':'' # print_ld l @ CHR '';'' # r" using assms(2) by (simp add: serialize_long_def)
  have c: "rd s p = Some CHR ''i''" using rd_drop [OF assms(1), of 0] t by simp
  have "drop (p + 2) s = print_ld l @ CHR '';'' # r" unfolding drop_add t by simp
  then have "atol s (p + 2) = sint l" by (rule atol_print)
  moreover have "CHR ''i'' \<noteq> NUL" by (simp add: NUL_def)
  ultimately show ?thesis
    using scan_number_text [OF assms(1) t _ _ print_clean, of "\<lambda>q. PLong (word_of_int (atol s q))"]
    unfolding unserialize_letter(1) [OF c] by (simp add: serialize_long_def numeral_3_eq_3)
qed

lemma unserialize_string:
  assumes "p \<le> length s" "drop p s = serialize_string u @ r" "length u < 2147483648"
  shows "php3api_var_unserialize F (Suc n) s p = Got (PString u) (p + length (serialize_string u))"
proof -
  have "rd s p = Some CHR ''s''" using rd_drop [OF assms(1), of 0] assms(2) by (simp add: serialize_string_def)
  then show ?thesis using scan_string_text [OF assms] by (simp add: unserialize_letter)
qed

lemma unserialize_key:
  assumes "p \<le> length s" "drop p s = serialize_key k @ r" "key_ok k"
  shows "php3api_var_unserialize F (Suc n) s p = Got (key_pval k) (p + length (serialize_key k))"
proof (cases k)
  case (KIdx h)
  then show ?thesis using unserialize_long [OF assms(1), of h r F n] assms(2) by (simp add: serialize_key_def key_pval_def)
next
  case (KStr t)
  have "length (c_str t) < 2147483648" using assms(3) KStr length_takeWhile_le [of _ t]
    by (auto simp: key_ok_def c_str_def intro: le_less_trans)
  then show ?thesis using unserialize_string [OF assms(1), of "c_str t" r F n] assms(2) KStr
    by (simp add: serialize_key_def key_pval_def)
qed

lemma add_key:
  assumes "key_ok k" "k \<notin> fst ` set (fst ht)"
  shows "add_entry (key_pval k) v ht = (fst ht @ [(k, v)], od_bump k (snd ht))"
proof (cases k)
  case (KIdx h)
  then show ?thesis using assms
    by (simp add: add_entry_def key_pval_def od_index_update_def od_step_def hop_key_def od_store_def Let_def)
next
  case (KStr t)
  have "ckey (c_str t @ [NUL]) = k" using assms(1) KStr by (auto simp: key_ok_def ckey_def)
  then show ?thesis using assms KStr
    by (simp add: add_entry_def key_pval_def od_add_def od_step_def hop_key_def od_store_def Let_def)
qed

lemma serialize_key_head: "\<exists>c w. serialize_key k = c # w \<and> c \<noteq> NUL \<and> c \<noteq> CHR ''}''"
  by (cases k) (simp_all add: serialize_key_def serialize_long_def serialize_string_def NUL_def)

lemma serialize_key_length: "3 \<le> length (serialize_key k)"
  by (cases k) (simp_all add: serialize_key_def serialize_long_def serialize_string_def)

subsection \<open>Round trip\<close>

text \<open>An array from its letter on, given that its entries are read back.\<close>

lemma unserialize_array:
  assumes p: "p \<le> length s" and l: "l = CHR ''a'' \<or> l = CHR ''o''" and n: "m < 2147483648"
    and t: "drop p s = l # CHR '':'' # dec_digits m @ CHR '':'' # CHR ''{'' # es @ CHR ''}'' # r"
    and els: "unserialize_elems F n s (p + (length (dec_digits m) + 4)) (int m) ([], 0) =
      Got ht (p + (length (dec_digits m) + 4 + length es))"
  shows "php3api_var_unserialize F (Suc n) s p =
    Got (if l = CHR ''a'' then PArray ht else PObject ht) (p + (length (dec_digits m) + 5 + length es))"
proof -
  define b where "b = l # CHR '':'' # dec_digits m"
  have at: "rd s (p + k) = rd (drop p s) k" for k by (rule rd_drop [OF p])
  have t': "drop p s = b @ CHR '':'' # CHR ''{'' # es @ CHR ''}'' # r" using t by (simp add: b_def)
  have c: "rd s p = Some l" using at [of 0] t by simp
  have r2: "rd s (p + 2) \<noteq> None" using t p by (auto simp: rd_None dest: arg_cong [of _ _ length])
  have d: "drop (p + 2) s = dec_digits m @ CHR '':'' # CHR ''{'' # es @ CHR ''}'' # r" unfolding drop_add t by simp
  have i: "atoi s (p + 2) = int m" by (rule atoi_digits [OF d n])
  have q: "skip_to CHR '':'' s (p + 2) = p + length b"
    using skip_over [OF d digits_clean(1,2)] by (simp add: b_def)
  have "rd s (p + (length b + k)) = rd (CHR '':'' # CHR ''{'' # es @ CHR ''}'' # r) k" for k
    unfolding at t' by (rule rd_app)
  note tail = this [of 0] this [of 1] this [of "Suc (Suc (length es))"]
  have e: "rd s (p + (length (dec_digits m) + 4 + length es)) = Some CHR ''}''"
    using tail(3) rd_app [of es "CHR ''}'' # r" 0] by (simp add: b_def numeral_eq_Suc)
  have els': "unserialize_elems F n s (p + length b + 2) (int m) ([], 0) =
      Got ht (p + (length (dec_digits m) + 4 + length es))"
    using els by (simp add: b_def numeral_eq_Suc)
  show ?thesis unfolding php3api_var_unserialize.simps(2) c i q Let_def
    using l r2 tail els' e by (auto simp: numeral_eq_Suc)
qed

lemma serialize_length: "1 \<le> length (php3api_var_serialize F v)"
  by (cases v) (auto simp: serialize_long_def serialize_string_def)

lemma read_array:
  assumes l: "l = CHR ''a'' \<or> l = CHR ''o''" and p: "p \<le> length s" and n: "length es < 2147483648" and d: "distinct (map fst es)"
    and t: "drop p s = l # CHR '':'' # dec_digits (length es) @ CHR '':'' # CHR ''{'' # w @ CHR ''}'' # r"
    and els: "\<And>q ht. q \<le> length s \<Longrightarrow> drop q s = w @ CHR ''}'' # r \<Longrightarrow> distinct (map fst (fst ht) @ map fst es) \<Longrightarrow>
      unserialize_elems F n s q (int (length es)) ht =
        Got (fst ht @ kept_entries F es, fold od_bump (map fst es) (snd ht)) (q + length w)"
  shows "php3api_var_unserialize F (Suc n) s p =
    Got ((if l = CHR ''a'' then PArray else PObject) (kept_entries F es, fold od_bump (map fst es) 0))
      (p + (length (dec_digits (length es)) + 5 + length w))"
proof -
  define q where "q = p + (length (dec_digits (length es)) + 4)"
  have "drop q s = w @ CHR ''}'' # r" unfolding q_def drop_add t by (simp add: numeral_eq_Suc)
  moreover have "q \<le> length s" using arg_cong [OF t, of length] p by (simp add: q_def)
  ultimately have "unserialize_elems F n s q (int (length es)) ([], 0) =
      Got (kept_entries F es, fold od_bump (map fst es) 0) (q + length w)"
    using els [of q "([], 0)"] d by simp
  then show ?thesis using unserialize_array [OF p l n t, where ht = "(kept_entries F es, fold od_bump (map fst es) 0)" and F = F]
    by (simp add: q_def add.assoc)
qed

lemma serialize_zero: "serialize_long 0 = ''i:0;''"
  by code_simp

lemma unserialize_zero:
  "0 < n \<Longrightarrow> p \<le> length s \<Longrightarrow> drop p s = CHR ''i'' # CHR '':'' # CHR ''0'' # CHR '';'' # r \<Longrightarrow>
   php3api_var_unserialize F n s p = Got (PLong 0) (Suc (Suc (Suc (Suc p))))"
  using unserialize_long [of p s 0 r F "n - 1"] by (simp add: serialize_zero)

lemma read_back:
  "plain F v \<Longrightarrow> length (php3api_var_serialize F v) \<le> n \<Longrightarrow> p \<le> length s \<Longrightarrow> drop p s = php3api_var_serialize F v @ r \<Longrightarrow>
   php3api_var_unserialize F n s p = Got (kept F v) (p + length (php3api_var_serialize F v))"
  "plain_entries F es \<Longrightarrow> length (serialize_entries F es) < n \<Longrightarrow> p \<le> length s \<Longrightarrow>
   drop p s = serialize_entries F es @ CHR ''}'' # r \<Longrightarrow> distinct (map fst (fst ht) @ map fst es) \<Longrightarrow>
   unserialize_elems F n s p (int (length es)) ht =
     Got (fst ht @ kept_entries F es, fold od_bump (map fst es) (snd ht)) (p + length (serialize_entries F es))"
proof (induction F v and F es arbitrary: n p r and n p r ht rule: php3api_var_serialize_serialize_entries.induct)
  case (1 F l)
  then show ?case using unserialize_long [of p s l r F "n - 1"] by (simp add: serialize_long_def)
next
  case (2 F d)
  have t: "drop p s = CHR ''d'' # CHR '':'' # d_print F d @ CHR '';'' # r" using 2(4) by simp
  have c: "rd s p = Some CHR ''d''" using rd_drop [OF 2(3), of 0] t by simp
  have b: "NUL \<notin> set (d_print F d)" "CHR '';'' \<notin> set (d_print F d)" using 2(1) by (simp_all add: stops_at_end_def)
  have "drop (p + 2) s = d_print F d @ CHR '';'' # r" unfolding drop_add t by simp
  then have v: "fst (d_strtod F (c_str (drop (p + 2) s))) = reread F d" using 2(1) b by (simp add: c_str_stop stops_at_end_def)
  obtain m where m: "n = Suc m" using 2(2) by (cases n) auto
  show ?case using scan_number_text [OF 2(3) t _ _ b, of "\<lambda>q. PDouble (fst (d_strtod F (c_str (drop q s))))"] v
    unfolding m unserialize_letter(2) [OF c] by (simp add: NUL_def numeral_3_eq_3)
next
  case (3 F u)
  then show ?case using unserialize_string [of p s u r F "n - 1"] by (simp add: serialize_string_def)
next
  case (4 F es k)
  obtain m where m: "n = Suc m" using 4(3) by (cases n) auto
  have pl: "plain_entries F es" "distinct (map fst es)" "length es < 2147483648" using 4(2) by simp_all
  have le: "length (serialize_entries F es) < m" using 4(3) m by simp
  have "drop p s = CHR ''a'' # CHR '':'' # dec_digits (length es) @ CHR '':'' # CHR ''{'' # serialize_entries F es @ CHR ''}'' # r"
    using 4(5) by simp
  from read_array [OF _ 4(4) pl(3,2) this 4(1) [OF pl(1) le]] show ?case unfolding m by (simp add: numeral_eq_Suc)
next
  case (5 F es k)
  obtain m where m: "n = Suc m" using 5(3) by (cases n) auto
  have pl: "plain_entries F es" "distinct (map fst es)" "length es < 2147483648" using 5(2) by simp_all
  have le: "length (serialize_entries F es) < m" using 5(3) m by simp
  have "drop p s = CHR ''o'' # CHR '':'' # dec_digits (length es) @ CHR '':'' # CHR ''{'' # serialize_entries F es @ CHR ''}'' # r"
    using 5(5) by simp
  from read_array [OF _ 5(4) pl(3,2) this 5(1) [OF pl(1) le]] show ?case unfolding m by (simp add: numeral_eq_Suc)
next
  case (8 F k v es)
  obtain m where m: "n = Suc m" using 8(4) by (cases n) auto
  define p1 where "p1 = p + length (serialize_key k)"
  define p2 where "p2 = p1 + length (php3api_var_serialize F v)"
  have t: "drop p s = serialize_key k @ php3api_var_serialize F v @ serialize_entries F es @ CHR ''}'' # r" using 8(6) by simp
  have len: "p2 + length (serialize_entries F es) + 1 + length r = length s"
    using arg_cong [OF t, of length] 8(5) by (simp add: p1_def p2_def)
  have d1: "drop p1 s = php3api_var_serialize F v @ serialize_entries F es @ CHR ''}'' # r"
    unfolding p1_def drop_add t by simp
  have d2: "drop p2 s = serialize_entries F es @ CHR ''}'' # r" unfolding p2_def drop_add d1 by simp
  obtain c w where c: "serialize_key k = c # w" "c \<noteq> NUL" "c \<noteq> CHR ''}''" using serialize_key_head by blast
  then have rc: "rd s p = Some c" using rd_drop [OF 8(5), of 0] t by simp
  obtain j where j: "m = Suc j" using 8(4) m serialize_key_length [of k] by (cases m) simp_all
  have k: "php3api_var_unserialize F m s p = Got (key_pval k) p1"
    using unserialize_key [OF 8(5) t] 8(3) by (simp add: j p1_def)
  have v: "php3api_var_unserialize F m s p1 = Got (kept F v) p2"
    using 8(1) [OF _ _ _ d1, of m] 8(3,4) len m serialize_key_length [of k] by (simp add: p2_def)
  have "k \<notin> fst ` set (fst ht)" using 8(7) by auto
  then have a: "add_entry (key_pval k) (kept F v) ht = (fst ht @ [(k, kept F v)], od_bump k (snd ht))"
    by (intro add_key) (use 8(3) in simp_all)
  have e: "unserialize_elems F m s p2 (int (length es)) (fst ht @ [(k, kept F v)], od_bump k (snd ht)) =
      Got ((fst ht @ [(k, kept F v)]) @ kept_entries F es, fold od_bump (map fst es) (od_bump k (snd ht)))
        (p2 + length (serialize_entries F es))"
    using 8(2) [OF _ _ _ d2, of m "(fst ht @ [(k, kept F v)], od_bump k (snd ht))"] 8(3,4,7) len m serialize_key_length [of k]
    by simp
  show ?case unfolding m unserialize_elems.simps(2) rc using c k v a e by (simp add: p1_def p2_def)
next
  case (7 F)
  obtain m where m: "n = Suc m" using 7(2) by (cases n) auto
  have "rd s p = Some CHR ''}''" using rd_drop [OF 7(3), of 0] 7(4) by simp
  then show ?case unfolding m unserialize_elems.simps(2) by simp
qed (simp_all add: unserialize_zero)

subsection \<open>Reading any text\<close>

lemma scan_number_bounds:
  assumes "rd s p = Some c" "c \<noteq> NUL"
  shows "scan_number val s p = Got v q \<Longrightarrow> p < q \<and> q \<le> length s" "scan_number val s p \<noteq> Bad_read" "scan_number val s p \<noteq> Starved"
proof -
  have p: "p \<le> length s" by (rule rd_Some(1) [OF assms(1)])
  show "p < q \<and> q \<le> length s" if g: "scan_number val s p = Got v q"
    using g skip_bounds(1) [OF p, of "CHR '';''"] rd_Some(2) [of s "skip_to CHR '';'' s p" "CHR '';''"]
    by (auto simp: scan_number_def Let_def split: if_splits)
qed (auto simp: scan_number_def Let_def)

lemma scan_string_bounds:
  assumes "rd s p = Some c" "c \<noteq> NUL"
  shows "scan_string s p = Got v q \<Longrightarrow> p < q \<and> q \<le> length s" "scan_string s p \<noteq> Bad_read" "scan_string s p \<noteq> Starved"
proof -
  define k where "k = skip_to CHR '':'' s (p + 2)"
  have pk: "p + 2 \<le> k \<and> k \<le> length s" if "rd s (p + 1) = Some CHR '':''"
    using rd_Some(2) [OF that] skip_bounds [of "p + 2" s "CHR '':''"] by (simp add: k_def)
  show "p < q \<and> q \<le> length s" if "scan_string s p = Got v q"
    using that pk rd_Some(2) [of s "k + 3 + nat (atoi s (p + 2))" "CHR '';''"]
    unfolding scan_string_def Let_def k_def [symmetric] by (auto split: if_splits)
  show "scan_string s p \<noteq> Bad_read"
    using pk unfolding scan_string_def Let_def k_def [symmetric] by (auto simp: rd_None)
  show "scan_string s p \<noteq> Starved" by (auto simp: scan_string_def Let_def)
qed

lemma letters_not_NUL: "CHR ''i'' \<noteq> NUL" "CHR ''d'' \<noteq> NUL" "CHR ''s'' \<noteq> NUL" "CHR ''a'' \<noteq> NUL" "CHR ''o'' \<noteq> NUL"
  "CHR ''}'' \<noteq> NUL" "CHR ''{'' \<noteq> NUL"
  by (simp_all add: NUL_def)

lemma unserialize_atom:
  assumes c: "rd s p = Some c" "\<not> (c = CHR ''a'' \<or> c = CHR ''o'')"
  shows "php3api_var_unserialize F (Suc n) s p = Got v q \<Longrightarrow> p < q \<and> q \<le> length s"
    "php3api_var_unserialize F (Suc n) s p \<noteq> Bad_read" "php3api_var_unserialize F (Suc n) s p \<noteq> Starved"
proof -
  define r where "r = php3api_var_unserialize F (Suc n) s p"
  have "(\<forall>v q. r = Got v q \<longrightarrow> p < q \<and> q \<le> length s) \<and> r \<noteq> Bad_read \<and> r \<noteq> Starved"
  proof -
    consider "c = CHR ''i''" | "c = CHR ''d''" | "c = CHR ''s''" | "c \<noteq> CHR ''i'' \<and> c \<noteq> CHR ''d'' \<and> c \<noteq> CHR ''s''" by blast
    then show ?thesis
    proof cases
      case 1
      show ?thesis unfolding r_def unserialize_letter(1) [OF c(1) [unfolded 1]]
        by (simp add: scan_number_bounds [OF c(1)] letters_not_NUL 1)
    next
      case 2
      show ?thesis unfolding r_def unserialize_letter(2) [OF c(1) [unfolded 2]]
        by (simp add: scan_number_bounds [OF c(1)] letters_not_NUL 2)
    next
      case 3
      show ?thesis unfolding r_def unserialize_letter(3) [OF c(1) [unfolded 3]]
        by (simp add: scan_string_bounds [OF c(1)] letters_not_NUL 3)
    next
      case 4
      then show ?thesis using c by (simp add: r_def php3api_var_unserialize.simps(2))
    qed
  qed
  then show "php3api_var_unserialize F (Suc n) s p = Got v q \<Longrightarrow> p < q \<and> q \<le> length s"
    "php3api_var_unserialize F (Suc n) s p \<noteq> Bad_read" "php3api_var_unserialize F (Suc n) s p \<noteq> Starved"
    by (simp_all add: r_def)
qed

text \<open>After the header of an array: its entries start behind the letter and inside the text.\<close>

lemma array_header:
  assumes "rd s p = Some c" "rd s (p + 2) \<noteq> None" "rd s (skip_to CHR '':'' s (p + 2)) = Some CHR '':''"
    "rd s (skip_to CHR '':'' s (p + 2) + 1) = Some CHR ''{''"
  shows "p + 4 \<le> skip_to CHR '':'' s (p + 2) + 2" "skip_to CHR '':'' s (p + 2) + 2 \<le> length s"
proof -
  have "p + 2 \<le> length s" using assms(2) by (simp add: rd_None not_less)
  then show "p + 4 \<le> skip_to CHR '':'' s (p + 2) + 2" using skip_bounds(1) [of "p + 2" s "CHR '':''"] by simp
  show "skip_to CHR '':'' s (p + 2) + 2 \<le> length s" using rd_Some(2) [OF assms(4)] letters_not_NUL by simp
qed

text \<open>The end of an array, after its entries.\<close>

definition close_array :: "char \<Rightarrow> string \<Rightarrow> 'd pval odict parse \<Rightarrow> 'd pval parse" where
  "close_array c s x =
     (case x of
        Starved \<Rightarrow> Starved | Bad_read \<Rightarrow> Bad_read | Failed \<Rightarrow> Failed
      | Got ht r \<Rightarrow>
          (case rd s r of None \<Rightarrow> Bad_read
           | Some e \<Rightarrow> if e = CHR ''}'' then Got (if c = CHR ''a'' then PArray ht else PObject ht) (r + 1) else Failed))"

lemma close_array_bad:
  "close_array c s x = Bad_read \<longleftrightarrow> x = Bad_read \<or> (\<exists>ht r. x = Got ht r \<and> rd s r = None)"
  "close_array c s x = Starved \<longleftrightarrow> x = Starved"
  by (auto simp: close_array_def split: parse.splits option.splits)

lemma unserialize_array_letter:
  assumes "rd s p = Some c" "c = CHR ''a'' \<or> c = CHR ''o''"
  shows "php3api_var_unserialize F (Suc n) s p =
    (if rd s (p + 2) = None then Bad_read
     else let q = skip_to CHR '':'' s (p + 2) in
       if rd s q \<noteq> Some CHR '':'' \<or> rd s (q + 1) \<noteq> Some CHR ''{'' then Failed
       else close_array c s (unserialize_elems F n s (q + 2) (atoi s (p + 2)) ([], 0)))"
  using assms by (auto simp: php3api_var_unserialize.simps(2) close_array_def Let_def)

lemma unserialize_positions:
  "php3api_var_unserialize F n s p = Got v q \<Longrightarrow> p < q \<and> q \<le> length s"
  "unserialize_elems F n s p i ht = Got r q \<Longrightarrow> p \<le> q \<and> q \<le> length s"
proof (induction F n s p and F n s p i ht arbitrary: v q and r q rule: php3api_var_unserialize_unserialize_elems.induct)
  case (2 F n s p)
  obtain c where c: "rd s p = Some c" using 2(2) by (cases "rd s p") (simp_all add: php3api_var_unserialize.simps(2))
  show ?case
  proof (cases "c = CHR ''a'' \<or> c = CHR ''o''")
    case False
    show ?thesis by (rule unserialize_atom(1) [OF c False 2(2)])
  next
    case 4: True
    let ?q = "skip_to CHR '':'' s (p + 2)"
    have h: "rd s (p + 2) \<noteq> None" "rd s ?q = Some CHR '':''" "rd s (?q + 1) = Some CHR ''{''"
      using 2(2) c 4 by (auto simp: php3api_var_unserialize.simps(2) Let_def split: if_splits)
    obtain ht r where e: "unserialize_elems F n s (?q + 2) (atoi s (p + 2)) ([], 0) = Got ht r" "rd s r = Some CHR ''}''" "q = r + 1"
      using 2(2) c 4 h by (auto simp: php3api_var_unserialize.simps(2) Let_def split: parse.splits option.splits if_splits)
    have "?q + 2 \<le> r" using 2(1) [OF c _ _ _ 4 h(1) refl refl _ e(1)] 4 h by auto
    moreover have "r < length s" using rd_Some(2) [OF e(2)] letters_not_NUL by simp
    ultimately show ?thesis using array_header(1) [OF c h] e(3) by simp
  qed
next
  case (4 F n s p i ht)
  obtain c where c: "rd s p = Some c" using 4(4) by (cases "rd s p") (simp_all add: unserialize_elems.simps(2))
  show ?case
  proof (cases "c \<noteq> NUL \<and> c \<noteq> CHR ''}'' \<and> 0 < i")
    case True
    then obtain k p1 d p2 where g: "php3api_var_unserialize F n s p = Got k p1" "php3api_var_unserialize F n s p1 = Got d p2"
      "unserialize_elems F n s p2 (i - 1) (add_entry k d ht) = Got r q"
      using 4(4) c by (auto simp: unserialize_elems.simps(2) split: parse.splits)
    show ?thesis using 4(1) [OF c True g(1)] 4(2) [OF c True g(1,2)] 4(3) [OF c True g(1,2,3)] by simp
  next
    case False
    then show ?thesis using 4(4) c rd_Some(1) [OF c] by (auto simp: unserialize_elems.simps(2))
  qed
qed simp_all

text \<open>The letter of an array as the last byte is the only thing that makes it read behind the text.\<close>

definition array_letter_last :: "string \<Rightarrow> bool" where
  "array_letter_last s \<longleftrightarrow> s \<noteq> [] \<and> (last s = CHR ''a'' \<or> last s = CHR ''o'')"

lemma array_letter_inside:
  assumes "\<not> array_letter_last s" "rd s p = Some c" "c = CHR ''a'' \<or> c = CHR ''o''"
  shows "rd s (p + 2) \<noteq> None"
proof -
  have p: "p < length s" "s ! p = c" using rd_Some(2) [OF assms(2)] assms(3) letters_not_NUL by auto
  have "s \<noteq> []" using p by auto
  then have "p \<noteq> length s - 1" using assms(1,3) p last_conv_nth [of s] by (auto simp: array_letter_last_def)
  then show ?thesis using p by (simp add: rd_None)
qed

lemma unserialize_inside:
  "\<not> array_letter_last s \<Longrightarrow> p \<le> length s \<Longrightarrow> php3api_var_unserialize F n s p \<noteq> Bad_read"
  "\<not> array_letter_last s \<Longrightarrow> p \<le> length s \<Longrightarrow> unserialize_elems F n s p i ht \<noteq> Bad_read"
proof (induction F n s p and F n s p i ht rule: php3api_var_unserialize_unserialize_elems.induct)
  case (2 F n s p)
  obtain c where c: "rd s p = Some c" using 2(3) by (cases "rd s p") (auto simp: rd_None)
  show ?case
  proof (cases "c = CHR ''a'' \<or> c = CHR ''o''")
    case True
    note in2 = array_letter_inside [OF 2(2) c True]
    let ?q = "skip_to CHR '':'' s (p + 2)"
    have "unserialize_elems F n s (?q + 2) (atoi s (p + 2)) ([], 0) \<noteq> Bad_read"
      if h: "rd s ?q = Some CHR '':''" "rd s (?q + 1) = Some CHR ''{''"
      by (rule 2(1) [OF c _ _ _ True in2 refl refl _ 2(2) array_header(2) [OF c in2 h]]) (use True h in auto)
    moreover have "rd s r \<noteq> None" if "unserialize_elems F n s (?q + 2) (atoi s (p + 2)) ([], 0) = Got ht r" for ht r
      using unserialize_positions(2) [OF that] by (simp add: rd_None)
    ultimately show ?thesis unfolding unserialize_array_letter [OF c True] Let_def
      using in2 by (auto simp: close_array_bad)
  next
    case False
    show ?thesis by (rule unserialize_atom(2) [OF c False])
  qed
next
  case (4 F n s p i ht)
  obtain c where c: "rd s p = Some c" using 4(5) by (cases "rd s p") (auto simp: rd_None)
  show ?case
  proof (cases "c \<noteq> NUL \<and> c \<noteq> CHR ''}'' \<and> 0 < i")
    case True
    have k: "php3api_var_unserialize F n s p \<noteq> Bad_read" by (rule 4(1) [OF c True 4(4,5)])
    have d: "php3api_var_unserialize F n s p1 \<noteq> Bad_read" if "php3api_var_unserialize F n s p = Got k p1" for k p1
      using 4(2) [OF c True that 4(4)] unserialize_positions(1) [OF that] by simp
    have e: "unserialize_elems F n s p2 (i - 1) (add_entry k d ht) \<noteq> Bad_read"
      if "php3api_var_unserialize F n s p = Got k p1" "php3api_var_unserialize F n s p1 = Got d p2" for k p1 d p2
      using 4(3) [OF c True that 4(4)] unserialize_positions(1) [OF that(2)] by simp
    show ?thesis using True c k d e by (auto simp: unserialize_elems.simps(2) split: parse.splits)
  next
    case False
    then show ?thesis using c by (auto simp: unserialize_elems.simps(2))
  qed
qed simp_all

lemma unserialize_fed:
  "length s - p < n \<Longrightarrow> php3api_var_unserialize F n s p \<noteq> Starved"
  "Suc (length s - p) < n \<Longrightarrow> unserialize_elems F n s p i ht \<noteq> Starved"
proof (induction F n s p and F n s p i ht rule: php3api_var_unserialize_unserialize_elems.induct)
  case (2 F n s p)
  show ?case
  proof (cases "rd s p")
    case None
    then show ?thesis by (simp add: php3api_var_unserialize.simps(2))
  next
    case c: (Some c)
    show ?thesis
    proof (cases "c = CHR ''a'' \<or> c = CHR ''o''")
      case True
      let ?q = "skip_to CHR '':'' s (p + 2)"
      have "unserialize_elems F n s (?q + 2) (atoi s (p + 2)) ([], 0) \<noteq> Starved"
        if h: "rd s (p + 2) \<noteq> None" "rd s ?q = Some CHR '':''" "rd s (?q + 1) = Some CHR ''{''"
      proof (rule 2(1) [OF c _ _ _ True h(1) refl refl])
        show "Suc (length s - (?q + 2)) < n" using array_header [OF c h] 2(2) by linarith
      qed (use True h in auto)
      then show ?thesis unfolding unserialize_array_letter [OF c True] Let_def by (auto simp: close_array_bad)
    next
      case False
      show ?thesis by (rule unserialize_atom(3) [OF c False])
    qed
  qed
next
  case (4 F n s p i ht)
  show ?case
  proof (cases "rd s p")
    case None
    then show ?thesis by (simp add: unserialize_elems.simps(2))
  next
    case c: (Some c)
    show ?thesis
    proof (cases "c \<noteq> NUL \<and> c \<noteq> CHR ''}'' \<and> 0 < i")
      case True
      have k: "php3api_var_unserialize F n s p \<noteq> Starved" by (rule 4(1) [OF c True]) (use 4(4) in simp)
      have d: "php3api_var_unserialize F n s p1 \<noteq> Starved" if "php3api_var_unserialize F n s p = Got k p1" for k p1
        by (rule 4(2) [OF c True that]) (use 4(4) unserialize_positions(1) [OF that] in linarith)
      have e: "unserialize_elems F n s p2 (i - 1) (add_entry k d ht) \<noteq> Starved"
        if g: "php3api_var_unserialize F n s p = Got k p1" "php3api_var_unserialize F n s p1 = Got d p2" for k p1 d p2
        by (rule 4(3) [OF c True g])
          (use 4(4) unserialize_positions(1) [OF g(1)] unserialize_positions(1) [OF g(2)] in linarith)
      show ?thesis using True c k d e by (auto simp: unserialize_elems.simps(2) split: parse.splits)
    next
      case False
      then show ?thesis using c by (auto simp: unserialize_elems.simps(2))
    qed
  qed
qed simp_all

subsection \<open>The script functions\<close>


text \<open>Doubles that are printed with a digit less than they have.\<close>

definition short_fp :: "int fp" where
  "short_fp = int_fp\<lparr>d_print := (\<lambda>d. print_ld (word_of_int (d div 10 * 10)))\<rparr>"

lemma short_fp_double: "d_print short_fp 1237 = ''1230''" "stops_at_end short_fp 1237" "reread short_fp 1237 = 1230"
proof -
  have p: "print_ld 1230 = ''1230''" by code_simp
  then show d: "d_print short_fp 1237 = ''1230''" by (simp add: short_fp_def)
  have r: "round53 1230 = 1230" by code_simp
  show "reread short_fp 1237 = 1230"
    unfolding reread_def d using strtol_print [of 1230] r by (simp add: short_fp_def int_fp_def p)
  moreover have "fst (d_strtod short_fp (''1230'' @ CHR '';'' # u)) = 1230" for u
    using strtol_semicolon [of 1230 u] r unfolding p by (simp add: short_fp_def int_fp_def case_prod_beta)
  ultimately show "stops_at_end short_fp 1237" by (simp add: stops_at_end_def d NUL_def)
qed


text \<open>C29: unserializing any text ends, and reads inside the text and its NUL byte, with the exception of
  texts whose last byte is the letter of an array or object: these make it read behind the block, as the
  text \<open>a\<close> does.\<close>

theorem unserialize_bounds:
  "php3_unserialize F v \<noteq> Starved \<and>
   (php3_unserialize F (PString s) = Bad_read \<longrightarrow> array_letter_last s) \<and>
   php3_unserialize F (PString ''a'') = Bad_read"
proof -
  have f: "php3_unserialize F (PString t) \<noteq> Starved" for t
    using unserialize_fed(1) [of t 0 "length t + 4" F] by (auto simp: php3_unserialize_def split: parse.splits)
  have "php3_unserialize F v \<noteq> Starved"
  proof (cases v)
    case (PString t)
    then show ?thesis using f by simp
  qed (simp_all add: php3_unserialize_def)
  moreover have "array_letter_last s" if "php3_unserialize F (PString s) = Bad_read"
    using that unserialize_inside(1) [of s 0 F "length s + 4"]
    by (auto simp: php3_unserialize_def split: parse.splits)
  moreover have "php3_unserialize F (PString ''a'') = Bad_read"
    by (simp add: php3_unserialize_def php3api_var_unserialize.simps(2) rd_def numeral_eq_Suc)
  ultimately show ?thesis by blast
qed

theorem unserialize_bounds_witness: "php3_unserialize int_fp (PString ''i:5'') \<noteq> Bad_read"
  using unserialize_bounds [of int_fp PNull "''i:5''"] by (auto simp: array_letter_last_def)

end
