(* ===== verification/Levenshtein.thy ===== *)
theory Levenshtein
  imports Codec
begin

text \<open>
  The edit distance of functions/levenshtein.c, and the distance it is meant to be.  The arguments are C
  strings: texts without NUL bytes, followed by one.  \<open>None\<close> is an access outside a string or outside
  the array \<open>r\<close>, whose elements are signed characters.
\<close>

subsection \<open>The program\<close>

definition zget :: "string \<Rightarrow> nat \<Rightarrow> char" where
  "zget s i = (if i < length s then s ! i else NUL)"

definition to_schar :: "int \<Rightarrow> int" where
  "to_schar n = (n + 128) mod 256 - 128"

text \<open>The equal start sequence, and the loop from the ends, which also compares the NUL bytes.\<close>

fun skip_equal :: "string \<Rightarrow> string \<Rightarrow> nat" where
  "skip_equal (c # x) (d # y) = (if c = d then Suc (skip_equal x y) else 0)"
| "skip_equal _ _ = 0"

fun tail_loop :: "string \<Rightarrow> string \<Rightarrow> nat \<Rightarrow> nat \<Rightarrow> (nat \<times> nat) option" where
  "tail_loop x y (Suc i) (Suc j) = (if zget x i = zget y j then tail_loop x y i j else Some (i, j))"
| "tail_loop x y _ _ = None"

text \<open>The two rows share the array: one on the even, one on the odd places.\<close>

fun fill_row :: "int list \<Rightarrow> nat \<Rightarrow> int \<Rightarrow> nat \<Rightarrow> (int list \<times> int) option" where
  "fill_row r p n 0 = Some (r, n)"
| "fill_row r p n (Suc k) = do { r' \<leftarrow> arr_set r p (to_schar n); fill_row r' (p + 2) (n + 1) k }"

fun lev_cols :: "string \<Rightarrow> char \<Rightarrow> int list \<Rightarrow> nat \<Rightarrow> nat \<Rightarrow> int \<Rightarrow> nat \<Rightarrow> nat \<Rightarrow> (int list \<times> int) option" where
  "lev_cols s1 c r p1 p2 n i 0 = Some (r, n)"
| "lev_cols s1 c r p1 p2 n i (Suc k) = do {
     d \<leftarrow> arr_get r p1;
     let n1 = (if d < n then d + (if zget s1 i \<noteq> c then 1 else 0) else n);
     u \<leftarrow> arr_get r (p1 + 2);
     let n2 = (if u < n1 then u + 1 else n1);
     r' \<leftarrow> arr_set r p2 (to_schar n2);
     lev_cols s1 c r' (p1 + 2) (p2 + 2) (n2 + 1) (i + 1) k }"

fun lev_rows :: "string \<Rightarrow> string \<Rightarrow> int list \<Rightarrow> int \<Rightarrow> nat \<Rightarrow> nat \<Rightarrow> nat \<Rightarrow> int option" where
  "lev_rows s1 s2 r n l1 j 0 = Some n"
| "lev_rows s1 s2 r n l1 j (Suc k) = do {
     let p1 = (if odd j then 0 else 1);
     let p2 = (if odd j then 1 else 0);
     d \<leftarrow> arr_get r p1;
     r1 \<leftarrow> arr_set r p2 (to_schar (d + 1));
     (r2, n2) \<leftarrow> lev_cols s1 (zget s2 j) r1 p1 (p2 + 2) (d + 1) 1 (l1 - 1);
     lev_rows s1 s2 r2 n2 l1 (j + 1) k }"

definition lev_table :: "int list \<Rightarrow> string \<Rightarrow> string \<Rightarrow> int \<Rightarrow> int \<Rightarrow> int option" where
  "lev_table r s1 s2 l1 l2 = do {
     (r1, n) \<leftarrow> fill_row r 0 (if zget s1 0 \<noteq> zget s2 0 then 1 else 0) (nat l1);
     n2 \<leftarrow> lev_rows s1 s2 r1 n (nat l1) 1 (nat (l2 - 1));
     Some (n2 - 1) }"

definition calc_levdist :: "int list \<Rightarrow> string \<Rightarrow> string \<Rightarrow> int option" where
  "calc_levdist r x y =
     (let k = skip_equal x y in
      if zget x k = NUL then Some (int (length y) - int k)
      else if zget y k = NUL then Some (int (length x) - int k)
      else do {
        (i, j) \<leftarrow> tail_loop x y (length x + 1) (length y + 1);
        let l1 = int i - int k + 1;
        let l2 = int j - int k + 1;
        if 255 \<le> \<bar>l1 - l2\<bar> then Some (- 1)
        else if l1 < l2 then lev_table r (drop k y) (drop k x) l2 l1
        else lev_table r (drop k x) (drop k y) l1 l2 })"

subsection \<open>The edit distance\<close>

text \<open>The least number of insertions, deletions and replacements.\<close>

fun lev :: "'a list \<Rightarrow> 'a list \<Rightarrow> nat" where
  "lev [] ys = length ys"
| "lev xs [] = length xs"
| "lev (x # xs) (y # ys) =
     min (min (lev xs (y # ys) + 1) (lev (x # xs) ys + 1)) (lev xs ys + (if x = y then 0 else 1))"

lemma lev_Nil [simp]: "lev xs [] = length xs"
  by (cases xs) simp_all

text \<open>Edit scripts and their costs; the distance is the least cost.\<close>

inductive script :: "'a list \<Rightarrow> 'a list \<Rightarrow> nat \<Rightarrow> bool" where
  empty: "script [] [] 0"
| delete: "script xs ys n \<Longrightarrow> script (x # xs) ys (Suc n)"
| insert: "script xs ys n \<Longrightarrow> script xs (y # ys) (Suc n)"
| replace: "script xs ys n \<Longrightarrow> script (x # xs) (y # ys) (if x = y then n else Suc n)"

lemma script_delete_all: "script xs [] (length xs)"
  by (induction xs) (auto intro: script.intros)

lemma script_insert_all: "script [] ys (length ys)"
  by (induction ys) (auto intro: script.intros)

lemma script_lev: "script xs ys (lev xs ys)"
proof (induction xs ys rule: lev.induct)
  case (3 x xs y ys)
  have d: "script (x # xs) (y # ys) (lev xs (y # ys) + 1)" using script.delete [OF 3(1)] by simp
  have i: "script (x # xs) (y # ys) (lev (x # xs) ys + 1)" using script.insert [OF 3(2)] by simp
  have r: "script (x # xs) (y # ys) (lev xs ys + (if x = y then 0 else 1))" using script.replace [OF 3(3), of x y] by (cases "x = y") simp_all
  show ?case unfolding lev.simps min_def using d i r by (auto split: if_splits)
next
  case (2 x xs)
  then show ?case using script_delete_all [of "x # xs"] by simp
qed (simp add: script_insert_all)

lemma lev_delete: "lev (x # xs) ys \<le> lev xs ys + 1"
  by (cases ys) auto

lemma lev_insert: "lev xs (y # ys) \<le> lev xs ys + 1"
  by (cases xs) auto

lemma lev_least: "script xs ys n \<Longrightarrow> lev xs ys \<le> n"
proof (induction rule: script.induct)
  case (delete xs ys n x)
  then show ?case using lev_delete [of x xs ys] by simp
next
  case (insert xs ys n y)
  then show ?case using lev_insert [of xs y ys] by simp
next
  case (replace xs ys n x y)
  then show ?case by auto
qed simp

lemma script_append: "script xs ys n \<Longrightarrow> script us vs m \<Longrightarrow> script (xs @ us) (ys @ vs) (n + m)"
proof (induction rule: script.induct)
  case (replace xs ys n x y)
  then show ?case using script.replace [of "xs @ us" "ys @ vs" "n + m" x y] by (auto split: if_splits)
qed (auto intro: script.intros)

lemma script_rev: "script xs ys n \<Longrightarrow> script (rev xs) (rev ys) n"
proof (induction rule: script.induct)
  case (delete xs ys n x)
  then show ?case using script_append [OF delete(2) script.delete [OF script.empty, of x]] by simp
next
  case (insert xs ys n y)
  then show ?case using script_append [OF insert(2) script.insert [OF script.empty, of y]] by simp
next
  case (replace xs ys n x y)
  then show ?case using script_append [OF replace(2) script.replace [OF script.empty, of x y]] by (auto split: if_splits)
qed (simp add: script.empty)

lemma lev_rev: "lev (rev xs) (rev ys) = lev xs ys"
proof (rule antisym)
  show "lev (rev xs) (rev ys) \<le> lev xs ys" by (rule lev_least [OF script_rev [OF script_lev]])
  show "lev xs ys \<le> lev (rev xs) (rev ys)" using lev_least [OF script_rev [OF script_lev [of "rev xs" "rev ys"]]] by simp
qed

lemma script_sym: "script xs ys n \<Longrightarrow> script ys xs n"
proof (induction rule: script.induct)
  case (replace xs ys n x y)
  then show ?case using script.replace [of ys xs n y x] by (auto split: if_splits)
qed (auto intro: script.intros)

lemma lev_sym: "lev xs ys = lev ys xs"
  by (rule antisym; rule lev_least [OF script_sym [OF script_lev]])

text \<open>Deleting an element changes the distance by at most one.\<close>

lemma lev_tl: "lev xs ys \<le> lev (x # xs) ys + 1"
proof (induction ys)
  case (Cons y ys)
  have "lev xs (y # ys) \<le> lev xs ys + 1" by (rule lev_insert)
  then show ?case using Cons by auto
qed simp

lemma lev_Cons [simp]: "lev (x # xs) (x # ys) = lev xs ys"
  using lev_tl [of xs ys x] lev_tl [of ys xs x] by (simp add: lev_sym [of ys xs] lev_sym [of "x # ys" xs] min_def)

lemma lev_prefix: "lev (ps @ xs) (ps @ ys) = lev xs ys"
  by (induction ps) (simp_all del: lev.simps(3))

lemma lev_suffix: "lev (xs @ ps) (ys @ ps) = lev xs ys"
  using lev_rev [of "xs @ ps" "ys @ ps"] lev_prefix [of "rev ps" "rev xs" "rev ys"] lev_rev [of xs ys] by simp

lemma lev_max: "lev xs ys \<le> max (length xs) (length ys)"
  by (induction xs ys rule: lev.induct) auto

subsection \<open>The table\<close>

text \<open>The entry the code keeps for column \<open>i\<close> and row \<open>j\<close>: the first characters are replaced.\<close>

definition entry :: "string \<Rightarrow> string \<Rightarrow> nat \<Rightarrow> nat \<Rightarrow> int" where
  "entry u w i j = 1 + int (lev (rev (take i u)) (rev (take j w)))"

lemma entry_edges: "i \<le> length u \<Longrightarrow> entry u w i 0 = 1 + int i" "j \<le> length w \<Longrightarrow> entry u w 0 j = 1 + int j"
  by (simp_all add: entry_def)

lemma entry_step:
  assumes "i < length u" "j < length w"
  shows "entry u w (Suc i) (Suc j) =
    min (min (entry u w i (Suc j) + 1) (entry u w (Suc i) j + 1)) (entry u w i j + (if u ! i = w ! j then 0 else 1))"
  using assms by (simp add: entry_def take_Suc_conv_app_nth min_def)

lemma entry_bound: "i \<le> m \<Longrightarrow> j \<le> m \<Longrightarrow> entry u w i j \<le> 1 + int m" "0 \<le> entry u w i j"
  using lev_max [of "rev (take i u)" "rev (take j w)"] by (simp_all add: entry_def)

lemma to_schar_small: "0 \<le> n \<Longrightarrow> n \<le> 127 \<Longrightarrow> to_schar n = n"
  by (simp add: to_schar_def)

text \<open>\<open>row_at\<close>: the places of parity \<open>q\<close> hold the columns of \<open>f\<close> from \<open>a\<close> to \<open>b\<close>.\<close>

definition row_at :: "int list \<Rightarrow> nat \<Rightarrow> (nat \<Rightarrow> int) \<Rightarrow> nat \<Rightarrow> bool" where
  "row_at r q f b \<longleftrightarrow> (\<forall>i<b. r ! (2 * i + q) = f i)"

lemma fill_row_ok:
  assumes "p = 2 * i" "2 * (i + k) \<le> length r" "0 \<le> n" "n + int k \<le> 128" "row_at r 0 f i" "\<And>j. j < k \<Longrightarrow> f (i + j) = n + int j"
  shows "\<exists>r'. fill_row r p n k = Some (r', n + int k) \<and> length r' = length r \<and> row_at r' 0 f (i + k)"
  using assms
proof (induction k arbitrary: r p n i)
  case (Suc k)
  define r1 where "r1 = r[p := n]"
  have s: "to_schar n = n" using Suc.prems(3,4) by (intro to_schar_small) simp_all
  have f: "f i = n" using Suc.prems(6) [of 0] by simp
  have "row_at r1 0 f (Suc i)" unfolding row_at_def
  proof (intro allI impI)
    fix l
    assume "l < Suc i"
    then show "r1 ! (2 * l + 0) = f l"
      using Suc.prems(1,2,5) f by (cases "l = i") (simp_all add: r1_def row_at_def)
  qed
  moreover have "f (Suc i + j) = (n + 1) + int j" if "j < k" for j using Suc.prems(6) [of "Suc j"] that by simp
  ultimately have "\<exists>r'. fill_row r1 (p + 2) (n + 1) k = Some (r', (n + 1) + int k) \<and> length r' = length r1 \<and> row_at r' 0 f (Suc i + k)"
    using Suc.prems(1-4) by (intro Suc.IH) (simp_all add: r1_def)
  then show ?case using Suc.prems(1,2) s by (auto simp: r1_def arr_set_def)
qed simp

lemma lev_cols_step:
  assumes "arr_get r p1 = Some d" "arr_get r (p1 + 2) = Some u" "n1 = (if d < n then d + (if zget s1 i \<noteq> c then 1 else 0) else n)"
    "n2 = (if u < n1 then u + 1 else n1)" "arr_set r p2 (to_schar n2) = Some r'"
  shows "lev_cols s1 c r p1 p2 n i (Suc k) = lev_cols s1 c r' (p1 + 2) (p2 + 2) (n2 + 1) (i + 1) k"
  by (subst lev_cols.simps(2)) (use assms in \<open>simp only: Let_def bind.bind_lunit option.simps\<close>)

text \<open>
  The loop over the columns of a row.  On entry the next place of the old row holds its entry, the old
  row is untouched, and \<open>n\<close> is the cost of a deletion, or one less where replacing is cheaper anyway.
\<close>

lemma lev_cols_ok:
  assumes "i + k \<le> length u + 1" "0 < i" "j < length w" "\<And>h. h < length u \<Longrightarrow> zget s1 (Suc h) = u ! h"
    and "c = w ! j" "q1 + q2 = 1" "2 * (length u + 1) \<le> length r" "length u \<le> 126" "length w \<le> 126"
    and "row_at r q1 (\<lambda>i. entry u w i j) (length u + 1)" "row_at r q2 (\<lambda>i. entry u w i (Suc j)) i"
    and "n = entry u w (i - 1) (Suc j) + 1 \<or> n = entry u w (i - 1) (Suc j) \<and> entry u w (i - 1) j < n"
  shows "\<exists>r' n'. lev_cols s1 c r (2 * (i - 1) + q1) (2 * i + q2) n i k = Some (r', n') \<and> length r' = length r \<and>
    row_at r' q2 (\<lambda>i. entry u w i (Suc j)) (i + k) \<and> (0 < k \<longrightarrow> n' = entry u w (i + k - 1) (Suc j) + 1)"
  using assms
proof (induction k arbitrary: r n i)
  case (Suc k)
  obtain h where h: "i = Suc h" using Suc.prems(2) by (cases i) simp_all
  have hu: "h < length u" using Suc.prems(1) h by simp
  have q: "q1 = 0 \<and> q2 = 1 \<or> q1 = 1 \<and> q2 = 0" using Suc.prems(6) by auto
  have old: "r ! (2 * h + q1) = entry u w h j" "r ! (2 * Suc h + q1) = entry u w (Suc h) j"
    using Suc.prems(10) hu unfolding row_at_def by (metis less_Suc_eq Suc_eq_plus1 Suc_mono)+
  have z: "zget s1 i = u ! h" using Suc.prems(4) [OF hu] h by simp
  define d where "d = entry u w h j"
  define e where "e = entry u w (Suc h) (Suc j)"
  define n1 where "n1 = (if d < n then d + (if zget s1 i \<noteq> c then 1 else 0) else n)"
  define n2 where "n2 = (if entry u w (Suc h) j < n1 then entry u w (Suc h) j + 1 else n1)"
  have "e = min (min (entry u w h (Suc j) + 1) (entry u w (Suc h) j + 1)) (d + (if u ! h = w ! j then 0 else 1))"
    unfolding e_def d_def by (rule entry_step [OF hu Suc.prems(3)])
  moreover have "n1 = min (entry u w h (Suc j) + 1) (d + (if u ! h = w ! j then 0 else 1))"
    using Suc.prems(12) h z Suc.prems(5) by (auto simp: n1_def d_def)
  ultimately have n2: "n2 = e" by (auto simp: n2_def)
  have s: "to_schar e = e"
    using entry_bound(1) [of "Suc h" 126 "Suc j" u w] entry_bound(2) [of u w "Suc h" "Suc j"] hu Suc.prems(3,8,9)
    by (intro to_schar_small) (simp_all add: e_def)
  define r1 where "r1 = r[2 * i + q2 := e]"
  have len: "2 * i + q2 < length r" "2 * h + q1 < length r" "2 * h + q1 + 2 < length r" using Suc.prems(7) hu h q by auto
  have r1: "row_at r1 q1 (\<lambda>i. entry u w i j) (length u + 1)" "row_at r1 q2 (\<lambda>i. entry u w i (Suc j)) (Suc i)"
  proof -
    have "2 * i + q2 \<noteq> 2 * l + q1" for l using q by presburger
    then have "r1 ! (2 * l + q1) = r ! (2 * l + q1)" for l unfolding r1_def by (rule nth_list_update_neq)
    then show "row_at r1 q1 (\<lambda>i. entry u w i j) (length u + 1)" using Suc.prems(10) by (simp add: row_at_def)
    show "row_at r1 q2 (\<lambda>i. entry u w i (Suc j)) (Suc i)" unfolding row_at_def
    proof (intro allI impI)
      fix l
      assume "l < Suc i"
      then show "r1 ! (2 * l + q2) = entry u w l (Suc j)"
        using Suc.prems(11) len(1) h by (cases "l = i") (simp_all add: r1_def row_at_def e_def)
    qed
  qed
  have "\<exists>r' n'. lev_cols s1 c r1 (2 * (Suc i - 1) + q1) (2 * Suc i + q2) (e + 1) (Suc i) k = Some (r', n') \<and> length r' = length r1 \<and>
    row_at r' q2 (\<lambda>i. entry u w i (Suc j)) (Suc i + k) \<and> (0 < k \<longrightarrow> n' = entry u w (Suc i + k - 1) (Suc j) + 1)"
    by (rule Suc.IH) (use Suc.prems r1 h in \<open>simp_all add: r1_def e_def\<close>)
  then obtain r' n' where g: "lev_cols s1 c r1 (2 * h + q1 + 2) (2 * i + q2 + 2) (e + 1) (Suc i) k = Some (r', n')"
    "length r' = length r" "row_at r' q2 (\<lambda>i. entry u w i (Suc j)) (i + Suc k)"
    "0 < k \<longrightarrow> n' = entry u w (i + Suc k - 1) (Suc j) + 1" by (auto simp: h r1_def)
  have "lev_cols s1 c r (2 * (i - 1) + q1) (2 * i + q2) n i (Suc k) = Some (r', n')"
  proof (subst lev_cols_step)
    show "arr_get r (2 * (i - 1) + q1) = Some d" using len old by (simp add: arr_get_def h d_def)
    show "arr_get r (2 * (i - 1) + q1 + 2) = Some (entry u w (Suc h) j)" using len old by (simp add: arr_get_def h)
    show "arr_set r (2 * i + q2) (to_schar n2) = Some r1" using len n2 s by (simp add: arr_set_def r1_def)
    show "lev_cols s1 c r1 (2 * (i - 1) + q1 + 2) (2 * i + q2 + 2) (n2 + 1) (i + 1) k = Some (r', n')" using g(1) n2 h by simp
  qed (rule n1_def n2_def)+
  then show ?case using g by (cases k) (auto simp: h e_def)
qed simp

text \<open>The loop over the rows; a row and its successor lie on places of different parity.\<close>

lemma lev_rows_ok:
  assumes "j + k \<le> length w" "0 < k \<Longrightarrow> u \<noteq> []" "\<And>h. h < length u \<Longrightarrow> zget s1 (Suc h) = u ! h"
    "\<And>h. h < length w \<Longrightarrow> zget s2 (Suc h) = w ! h" "2 * (length u + 1) \<le> length r" "length u \<le> 126" "length w \<le> 126"
    "row_at r (j mod 2) (\<lambda>i. entry u w i j) (length u + 1)" "n = entry u w (length u) j + 1"
  shows "lev_rows s1 s2 r n (Suc (length u)) (Suc j) k = Some (entry u w (length u) (j + k) + 1)"
  using assms
proof (induction k arbitrary: r n j)
  case (Suc k)
  have jw: "j < length w" and u0: "0 < length u" using Suc.prems(1,2) by simp_all
  define q1 where "q1 = j mod 2"
  define q2 where "q2 = Suc j mod 2"
  have q: "q1 + q2 = 1" "(if odd (Suc j) then 0 else 1) = q1" "(if odd (Suc j) then 1 else 0) = q2"
    unfolding q1_def q2_def by presburger+
  define d where "d = entry u w 0 j"
  have d: "r ! q1 = d" using Suc.prems(8) unfolding row_at_def q1_def d_def by (metis add_0 mult_0_right zero_less_Suc Suc_eq_plus1)
  have d1: "entry u w 0 (Suc j) = d + 1" using jw by (simp add: d_def entry_edges)
  have s: "to_schar (d + 1) = d + 1"
    using entry_bound(1) [of 0 126 "Suc j" u w] entry_bound(2) [of u w 0 "Suc j"] jw Suc.prems(7) d1
    by (intro to_schar_small) simp_all
  define r1 where "r1 = r[q2 := d + 1]"
  have len: "q1 < length r" "q2 < length r" using Suc.prems(5) q(1) by auto
  have "q2 \<noteq> 2 * l + q1" for l using q(1) by presburger
  then have "r1 ! (2 * l + q1) = r ! (2 * l + q1)" for l unfolding r1_def by (rule nth_list_update_neq)
  then have r1: "row_at r1 q1 (\<lambda>i. entry u w i j) (length u + 1)" "row_at r1 q2 (\<lambda>i. entry u w i (Suc j)) 1"
    using Suc.prems(8) len(2) d1 by (simp_all add: row_at_def q1_def r1_def)
  have "\<exists>r' n'. lev_cols s1 (zget s2 (Suc j)) r1 (2 * (1 - 1) + q1) (2 * 1 + q2) (d + 1) 1 (length u) = Some (r', n') \<and>
    length r' = length r1 \<and> row_at r' q2 (\<lambda>i. entry u w i (Suc j)) (1 + length u) \<and>
    (0 < length u \<longrightarrow> n' = entry u w (1 + length u - 1) (Suc j) + 1)"
    by (rule lev_cols_ok) (use Suc.prems(3-7) q r1 jw d1 in \<open>simp_all add: r1_def d_def\<close>)
  then obtain r' n' where g: "lev_cols s1 (zget s2 (Suc j)) r1 q1 (q2 + 2) (d + 1) 1 (length u) = Some (r', n')"
    "length r' = length r" "row_at r' q2 (\<lambda>i. entry u w i (Suc j)) (length u + 1)" "n' = entry u w (length u) (Suc j) + 1"
    using u0 by (auto simp: r1_def add.commute)
  have "lev_rows s1 s2 r' n' (Suc (length u)) (Suc (Suc j)) k = Some (entry u w (length u) (Suc j + k) + 1)"
    by (rule Suc.IH) (use Suc.prems g in \<open>simp_all add: q2_def\<close>)
  moreover have "arr_get r q1 = Some d" "arr_set r q2 (to_schar (d + 1)) = Some r1"
    using len d s by (simp_all add: arr_get_def arr_set_def r1_def)
  ultimately show ?case using g(1) q(2,3) by (simp add: Let_def)
qed simp

lemma lev_table_ok:
  assumes "zget s1 0 \<noteq> zget s2 0" "\<And>h. h < length u \<Longrightarrow> zget s1 (Suc h) = u ! h"
    "\<And>h. h < length w \<Longrightarrow> zget s2 (Suc h) = w ! h" "length w \<le> length u" "length u \<le> 126" "length r = 512"
  shows "lev_table r s1 s2 (int (length u) + 1) (int (length w) + 1) = Some (1 + int (lev u w))"
proof -
  have "\<exists>r'. fill_row r 0 1 (Suc (length u)) = Some (r', 1 + int (Suc (length u))) \<and> length r' = length r \<and>
    row_at r' 0 (\<lambda>i. entry u w i 0) (0 + Suc (length u))"
    by (rule fill_row_ok) (use assms(5,6) in \<open>simp_all add: row_at_def entry_def\<close>)
  then obtain r' where r: "fill_row r 0 1 (Suc (length u)) = Some (r', int (length u) + 2)" "length r' = 512"
    "row_at r' 0 (\<lambda>i. entry u w i 0) (length u + 1)" using assms(6) by (auto simp del: fill_row.simps simp: algebra_simps)
  have "lev_rows s1 s2 r' (int (length u) + 2) (Suc (length u)) (Suc 0) (length w) = Some (entry u w (length u) (0 + length w) + 1)"
    by (rule lev_rows_ok) (use assms r in \<open>auto simp: entry_edges\<close>)
  moreover have "nat (int (length u) + 1) = Suc (length u)" by simp
  ultimately show ?thesis using assms(1) r(1) by (simp add: lev_table_def entry_def lev_rev del: fill_row.simps)
qed

subsection \<open>The ends\<close>

lemma skip_equal_append: "c \<noteq> d \<Longrightarrow> skip_equal (ps @ c # x) (ps @ d # y) = length ps"
  by (induction ps) simp_all

lemma skip_equal_prefix: "skip_equal x (x @ y) = length x"
  by (induction x) (cases y, simp_all)

lemma tail_loop_end:
  assumes "c \<noteq> d" "k \<le> length s + 1"
  shows "tail_loop (a @ c # s) (b @ d # s) (length a + 1 + k) (length b + 1 + k) = Some (length a, length b)"
  using assms(2)
proof (induction k)
  case 0
  then show ?case using assms(1) by (simp add: zget_def)
next
  case (Suc k)
  then show ?case by (simp add: zget_def nth_append)
qed

lemma zget_drop: "zget (drop k x) i = zget x (k + i)"
  by (auto simp: zget_def)

text \<open>The distance with the first characters kept apart is never smaller, and at most one too large.\<close>

lemma lev_heads: "lev (c # u) (d # w) \<le> 1 + lev u w" "lev u w \<le> lev (c # u) (d # w)"
proof -
  show "lev (c # u) (d # w) \<le> 1 + lev u w" by (simp add: min_def)
  have "lev u w \<le> lev u (d # w) + 1" using lev_tl [of w u d] by (simp add: lev_sym [of u "d # w"] lev_sym [of u w])
  then show "lev u w \<le> lev (c # u) (d # w)" using lev_tl [of u w c] by simp
qed

lemma lev_middle: "lev (p @ a @ s) (p @ b @ s) = lev a b"
  by (simp add: lev_prefix lev_suffix del: append_assoc)

text \<open>The two remainders \<open>c # u\<close> and \<open>d # w\<close> differ in their first and in their last characters.\<close>

lemma tail_loop_remainders:
  assumes "last (c # u) \<noteq> last (d # w)"
  shows "tail_loop (p @ c # u @ s) (p @ d # w @ s) (length (p @ c # u @ s) + 1) (length (p @ d # w @ s) + 1) =
    Some (length p + length u, length p + length w)"
proof -
  obtain a e where a: "c # u = a @ [e]" by (metis list.distinct(1) rev_exhaust)
  obtain b f where b: "d # w = b @ [f]" by (metis list.distinct(1) rev_exhaust)
  have l: "length a = length u" "length b = length w"
    using arg_cong [OF a, of length] arg_cong [OF b, of length] by simp_all
  have x: "p @ c # u @ s = (p @ a) @ e # s" "p @ d # w @ s = (p @ b) @ f # s"
    using arg_cong [OF a, of "\<lambda>z. p @ z @ s"] arg_cong [OF b, of "\<lambda>z. p @ z @ s"] by simp_all
  have "e \<noteq> f" using assms by (simp add: a b)
  then show ?thesis using tail_loop_end [of e f "length s + 1" s "p @ a" "p @ b"] by (simp add: x l add.assoc)
qed

lemma calc_levdist_remainders:
  assumes "c \<noteq> d" "last (c # u) \<noteq> last (d # w)" "NUL \<notin> {c, d}" "length u \<le> 126" "length w \<le> 126" "length r = 512"
  shows "calc_levdist r (p @ c # u @ s) (p @ d # w @ s) = Some (1 + int (lev u w))"
proof -
  let ?x = "c # u @ s" and ?y = "d # w @ s"
  have z: "zget (p @ ?x) (length p) = c" "zget (p @ ?y) (length p) = d" by (simp_all add: zget_def)
  have 1: "lev_table r ?x ?y (int (length u) + 1) (int (length w) + 1) = Some (1 + int (lev u w))" if "length w \<le> length u"
    by (rule lev_table_ok) (use assms that in \<open>auto simp: zget_def nth_append\<close>)
  have 2: "lev_table r ?y ?x (int (length w) + 1) (int (length u) + 1) = Some (1 + int (lev w u))" if "length u \<le> length w"
    by (rule lev_table_ok) (use assms that in \<open>auto simp: zget_def nth_append\<close>)
  show ?thesis
    using 1 2 z assms(1,3-5) tail_loop_remainders [OF assms(2), of p s] skip_equal_append [OF assms(1), of p "u @ s" "w @ s"]
    by (auto simp: calc_levdist_def Let_def lev_sym [of w u])
qed

lemma calc_levdist_prefix:
  assumes "NUL \<notin> set (x @ y)"
  shows "calc_levdist r x (x @ y) = Some (int (lev x (x @ y)))" "calc_levdist r (x @ y) x = Some (int (lev (x @ y) x))"
proof -
  have l: "lev x (x @ y) = length y" "lev (x @ y) x = length y" using lev_prefix [of x "[]" y] lev_prefix [of x y "[]"] by simp_all
  have "skip_equal (x @ y) x = length x" by (induction x) (cases y, simp_all)
  moreover have "y ! 0 \<noteq> NUL" if "y \<noteq> []" using assms that by (cases y) auto
  ultimately show "calc_levdist r x (x @ y) = Some (int (lev x (x @ y)))" "calc_levdist r (x @ y) x = Some (int (lev (x @ y) x))"
    using l by (auto simp: calc_levdist_def Let_def skip_equal_prefix zget_def nth_append)
qed

lemma tail_loop_same: "tail_loop (x @ s) (y @ s) (length x + Suc (length s)) (length y + Suc (length s)) =
    tail_loop (x @ s) (y @ s) (length x) (length y)"
proof -
  have "k \<le> Suc (length s) \<Longrightarrow> tail_loop (x @ s) (y @ s) (length x + k) (length y + k) = tail_loop (x @ s) (y @ s) (length x) (length y)" for k
    by (induction k) (simp_all add: zget_def nth_append)
  then show ?thesis by blast
qed

subsection \<open>Properties\<close>

text \<open>C30: levenshtein() of two texts one of which starts the other is their edit distance, and so is the
  least cost of a script of insertions, deletions and replacements.  Of two texts which differ first at
  \<open>c\<close> and \<open>d\<close> and last at characters behind or at those, 127 characters of each at most, it is one more
  than the distance of the remainders without \<open>c\<close> and \<open>d\<close>; that is the edit distance or one more: the
  first row of the table takes the two characters for replaced.  No element outside the array is used,
  and none overflows.\<close>

theorem levenshtein_close:
  assumes "NUL \<notin> set (p @ c # u @ s) \<union> set (p @ d # w @ s)" "c \<noteq> d" "last (c # u) \<noteq> last (d # w)"
    "length u \<le> 126" "length w \<le> 126" "length r = 512"
  defines "x \<equiv> p @ c # u @ s" and "y \<equiv> p @ d # w @ s"
  shows "calc_levdist r x (x @ y) = Some (int (lev x (x @ y))) \<and> script x y (lev x y) \<and> (\<forall>n. script x y n \<longrightarrow> lev x y \<le> n) \<and>
    calc_levdist r x y = Some (1 + int (lev u w)) \<and> 1 + lev u w \<in> {lev x y, lev x y + 1}"
proof -
  have "lev x y = lev (c # u) (d # w)" using lev_middle [of p "c # u" "s" "d # w"] by (simp add: x_def y_def del: lev.simps)
  then have "1 + lev u w \<in> {lev x y, lev x y + 1}" using lev_heads [where c = c and u = u and d = d and w = w] by (auto simp del: lev.simps)
  moreover have "calc_levdist r x y = Some (1 + int (lev u w))"
    unfolding x_def y_def by (rule calc_levdist_remainders) (use assms(1-6) in auto)
  moreover have "calc_levdist r x (x @ y) = Some (int (lev x (x @ y)))"
    by (rule calc_levdist_prefix) (use assms(1) in \<open>simp add: x_def y_def\<close>)
  ultimately show ?thesis using script_lev [of x y] lev_least [of x y] by (intro conjI) simp_all
qed

text \<open>At \<open>xab\<close> and \<open>aby\<close> the answer is 3, where two steps are enough.\<close>

theorem levenshtein_close_witness:
  "calc_levdist (replicate 512 0) ''xab'' ''aby'' = Some 3 \<and> lev ''xab'' ''aby'' = 2"
  using levenshtein_close [of "[]" "CHR ''x''" "''ab''" "[]" "CHR ''a''" "''by''" "replicate 512 0"] by (simp add: NUL_def)

text \<open>A doubled character.  The texts \<open>q @ [c, c] @ s\<close> and \<open>q @ [c] @ s\<close> are one deletion apart, but the
  search for the equal end runs over the equal start: the answer is 0, as for equal texts, and with
  nothing before the doubled character the byte before the second text is read.\<close>

theorem levenshtein_doubled:
  assumes "NUL \<notin> set (q @ c # s)" "s \<noteq> []" "hd s \<noteq> c" "q \<noteq> [] \<Longrightarrow> last q \<noteq> c"
  shows "lev (q @ c # c # s) (q @ c # s) = 1 \<and> calc_levdist r (q @ c # s) (q @ c # s) = Some 0 \<and>
    calc_levdist r (q @ c # c # s) (q @ c # s) = (if q = [] then None else Some 0)"
proof -
  obtain e s' where s: "s = e # s'" using assms(2) by (cases s) simp_all
  have lev: "lev (q @ c # c # s) (q @ c # s) = 1"
    using lev_middle [of "q @ [c]" "[c]" s "[]"] by simp
  have k: "skip_equal (q @ c # c # s) (q @ c # s) = Suc (length q)"
    using skip_equal_append [of c e "q @ [c]" s s'] assms(3) by (simp add: s)
  have t: "tail_loop (q @ c # c # s) (q @ c # s) (length (q @ c # c # s) + 1) (length (q @ c # s) + 1) =
      tail_loop (q @ c # c # s) (q @ c # s) (Suc (length q)) (length q)"
    using tail_loop_same [of "q @ [c]" "c # s" q] tail_loop_same [of "q @ [c, c]" s "q @ [c]"] by (simp add: zget_def nth_append)
  have "calc_levdist r (q @ c # c # s) (q @ c # s) = (if q = [] then None else Some 0)"
  proof (cases q rule: rev_cases)
    case Nil
    then show ?thesis using k t assms(1) by (auto simp: calc_levdist_def Let_def zget_def s)
  next
    case (snoc q' f)
    then have "tail_loop (q @ c # c # s) (q @ c # s) (Suc (length q)) (length q) = Some (Suc (length q'), length q')"
      using assms(4) by (simp add: zget_def nth_append)
    moreover have "e \<noteq> NUL" "c \<noteq> NUL" using assms(1) s by auto
    ultimately show ?thesis using k t assms(3) snoc
      by (simp add: calc_levdist_def Let_def zget_drop lev_table_def) (simp add: zget_def nth_append s)
  qed
  moreover have "lev (q @ c # s) (q @ c # s) = 0" using lev_prefix [of "q @ c # s" "[]" "[]"] by simp
  ultimately show ?thesis using lev calc_levdist_prefix(1) [of "q @ c # s" "[]" r] assms(1) by simp
qed

theorem levenshtein_doubled_witness:
  "calc_levdist [] ''zaab'' ''zab'' = Some 0 \<and> calc_levdist [] ''aab'' ''ab'' = None"
  using levenshtein_doubled [of "''z''" "CHR ''a''" "''b''" "[]"] levenshtein_doubled [of "[]" "CHR ''a''" "''b''" "[]"] by (simp add: NUL_def)

end
