(* ===== verification/Var_Strings.thy ===== *)
theory Var_Strings
  imports Var_Refs
begin

text \<open>Characters of strings.\<close>

lemma string_pointer:
  assumes "scope_ok st" "sym_find st (active_table st) (name_key s) = Some a" "deref st a = Some (VString t)"
    "0 \<le> sint w" "sint w < int (length t)"
  shows "assignment_variable_pointer F old (VString s) [Some (VLong w)] st =
    Some (\<lparr>pvalue = Some a, string_offset = sint w, array_write = False\<rparr>, st\<lparr>array_ptr := Some a, array_ptr_write := False\<rparr>)"
  using assms
  by (simp add: assignment_variable_pointer_def multi_dimensional_array_def start_array_parsing_def check_array_ptr_def
      start_dimensions_parsing_def fetch_array_index_def fetch_string_offset_def end_array_parsing_def convert_to_long_def)

lemma plain_assignment:
  assumes "sym_find st (active_table st) (name_key s) = Some a" "deref st a = Some v"
  shows "assignment F None old (VString s) [] (VString u) st =
    Some (pval_copy_constructor (VString u), st\<lparr>cells := put_elems a (VString u) (cells st)\<rparr>)"
  using assms
  by (simp add: assignment_def assignment_variable_pointer_def get_regular_variable_pointer_def assign_to_variable_def
      store_temp_def set_cell_def Let_def)

lemma assign_offset_string:
  assumes "deref st a = Some (VString t)" "i < int (length t)" "0 \<le> i"
  shows "assign_to_variable F None \<lparr>pvalue = Some a, string_offset = i, array_write = False\<rparr> (VString (c # cs)) st =
    Some (VString (c # cs), st\<lparr>cells := put_elems a (VString (t[nat i := c])) (cells st)\<rparr>)"
  using assms by (simp add: assign_to_variable_def assign_offset_def Let_def set_cell_def)

text \<open>The two halves of the property below.\<close>

lemma string_offset_parts:
  assumes "scope_ok st" "sym_find st (active_table st) (name_key s) = Some a" "value_of st (active_table st) (name_key s) = VString t"
    "0 \<le> sint w" "sint w < int (length t)"
  shows "\<exists>st'. assignment F None old (VString s) [Some (VLong w)] (VString (c # cs)) st = Some (VString (c # cs), st') \<and> scope_ok st' \<and>
      (\<forall>r k. value_of st' r k = (if sym_find st r k = Some a then VString (t[nat (sint w) := c]) else value_of st r k))"
    and "u \<noteq> [] \<Longrightarrow> int (length u) \<le> sint w \<Longrightarrow>
      do { (p, st1) \<leftarrow> assignment_variable_pointer F old (VString s) [Some (VLong w)] st;
           (x, st2) \<leftarrow> assignment F None old (VString s) [] (VString u) st1;
           assign_to_variable F None p x st2 } = None"
proof -
  let ?st = "st\<lparr>array_ptr := Some a, array_ptr_write := False\<rparr>"
  have d: "deref st a = Some (VString t)" using scope_cell [OF assms(1,2)] assms(3) by auto
  note l = d [unfolded deref_def] and dl = vars_okD [OF scope_okD(1) [OF assms(1)]]
  note p = string_pointer [OF assms(1,2) d assms(4,5), of F old]
  let ?x = "VString (t[nat (sint w) := c])"
  let ?st' = "?st\<lparr>cells := put_elems a ?x (cells st)\<rparr>"
  have "vars_ok (st\<lparr>cells := put_elems a ?x (cells st), fresh := fresh st\<rparr>)"
    by (rule vars_ok_put [OF scope_okD(1) [OF assms(1)] d]) simp_all
  then have ok: "vars_ok ?st'" by (simp add: vars_ok_def)
  have da: "deref ?st' a = Some ?x" using look_put(2) [OF l dl] by simp
  note w = scope_write [OF assms(1) scope_okD(3) [OF assms(1,2)], of ?st' ?x, simplified, OF ok [simplified] da [simplified]]
  have "assignment F None old (VString s) [Some (VLong w)] (VString (c # cs)) st = Some (VString (c # cs), ?st')"
    using p assign_offset_string [of ?st a t "sint w" F c cs] d assms(4,5) by (simp add: assignment_def)
  then show "\<exists>st'. assignment F None old (VString s) [Some (VLong w)] (VString (c # cs)) st = Some (VString (c # cs), st') \<and> scope_ok st' \<and>
      (\<forall>r k. value_of st' r k = (if sym_find st r k = Some a then ?x else value_of st r k))"
    using w by (intro exI [of _ ?st']) simp
  assume u: "u \<noteq> []" "int (length u) \<le> sint w"
  have "deref (?st\<lparr>cells := put_elems a (VString u) (cells st)\<rparr>) a = Some (VString u)" using look_put(2) [OF l dl] by simp
  then show "do { (p, st1) \<leftarrow> assignment_variable_pointer F old (VString s) [Some (VLong w)] st;
           (x, st2) \<leftarrow> assignment F None old (VString s) [] (VString u) st1;
           assign_to_variable F None p x st2 } = None"
    using p plain_assignment [of ?st s a "VString t" F old u] assms(2) d u
    by (cases u) (simp_all add: assign_to_variable_def assign_offset_def Let_def)
qed

text \<open>C20: an assignment to a character of a string, at an offset inside it, replaces that character and nothing
  else.  But the offset is checked when the index is parsed, before the right side is evaluated: where
  that makes the string shorter, the character is written outside it.\<close>

theorem string_offset_assignment:
  assumes "scope_ok st" "sym_find st (active_table st) (name_key s) = Some a" "value_of st (active_table st) (name_key s) = VString t"
    "0 \<le> sint w" "sint w < int (length t)"
  shows "(\<exists>st'. assignment F None old (VString s) [Some (VLong w)] (VString (c # cs)) st = Some (VString (c # cs), st') \<and> scope_ok st' \<and>
      (\<forall>r k. value_of st' r k = (if sym_find st r k = Some a then VString (t[nat (sint w) := c]) else value_of st r k))) \<and>
    (\<forall>u. u \<noteq> [] \<and> int (length u) \<le> sint w \<longrightarrow>
      do { (p, st1) \<leftarrow> assignment_variable_pointer F old (VString s) [Some (VLong w)] st;
           (x, st2) \<leftarrow> assignment F None old (VString s) [] (VString u) st1;
           assign_to_variable F None p x st2 } = None)"
  using string_offset_parts [OF assms] by blast

definition one_string :: "int vars" where
  "one_string = shared_array\<lparr>cells := [(name_key ''a'', 1, VString ''abc'')]\<rparr>"

lemma one_string_ok: "scope_ok one_string"
proof -
  have "sym_find one_string t k = Some a \<Longrightarrow> a = 1" for t k a
    by (auto simp: one_string_def shared_array_def sym_find_def symtab_of_def slot_addr_def split: if_splits)
  then show ?thesis by (auto simp: scope_ok_def vars_ok_def one_string_def shared_array_def top_cells_def)
qed

text \<open>\<open>$b[2] = 'z'\<close> makes \<open>$a\<close> the string \<open>abz\<close>, and \<open>$b[2] = $b = 'z'\<close> writes behind the string \<open>z\<close>.\<close>

theorem string_offset_assignment_witness:
  "(\<exists>st'. assignment int_fp None \<lparr>pvalue = None, string_offset = 0, array_write = True\<rparr> (VString ''b'') [Some (VLong 2)] (VString ''z'')
      one_string = Some (VString ''z'', st') \<and> value_of st' 0 (name_key ''a'') = VString ''abz'') \<and>
   do { (p, st1) \<leftarrow> assignment_variable_pointer int_fp \<lparr>pvalue = None, string_offset = 0, array_write = True\<rparr> (VString ''b'') [Some (VLong 2)] one_string;
        (x, st2) \<leftarrow> assignment int_fp None \<lparr>pvalue = None, string_offset = 0, array_write = True\<rparr> (VString ''b'') [] (VString ''z'') st1;
        assign_to_variable int_fp None p x st2 } = None"
proof -
  have act: "active_table one_string = 0" by (simp add: one_string_def shared_array_def)
  have v: "sym_find one_string 0 (name_key ''b'') = Some 1" "value_of one_string 0 (name_key ''b'') = VString ''abc''"
    "sym_find one_string 0 (name_key ''a'') = Some 1"
    by (simp_all add: value_of_def sym_find_def symtab_of_def one_string_def shared_array_def slot_addr_def deref_def)
  have w: "0 \<le> sint (2 :: 64 word)" "sint (2 :: 64 word) < int (length ''abc'')" by simp_all
  note t = string_offset_assignment [OF one_string_ok, unfolded act, OF v(1,2) w, of int_fp "\<lparr>pvalue = None, string_offset = 0, array_write = True\<rparr>" "CHR ''z''" "[]"]
  have "\<exists>st'. assignment int_fp None \<lparr>pvalue = None, string_offset = 0, array_write = True\<rparr> (VString ''b'') [Some (VLong 2)] (VString ''z'')
      one_string = Some (VString ''z'', st') \<and> value_of st' 0 (name_key ''a'') = VString ''abz''"
    using t [THEN conjunct1] v(3) by auto
  moreover have "do { (p, st1) \<leftarrow> assignment_variable_pointer int_fp \<lparr>pvalue = None, string_offset = 0, array_write = True\<rparr> (VString ''b'') [Some (VLong 2)] one_string;
        (x, st2) \<leftarrow> assignment int_fp None \<lparr>pvalue = None, string_offset = 0, array_write = True\<rparr> (VString ''b'') [] (VString ''z'') st1;
        assign_to_variable int_fp None p x st2 } = None"
    using t [THEN conjunct2, rule_format, of "''z''"] by simp
  ultimately show ?thesis by blast
qed

end
