(* ===== verification/Calendar.thy ===== *)
theory Calendar
  imports PHP_Prelude
begin

text \<open>
  The calendars of dl/calendar: conversion between dates and serial day numbers (gregor.c, julian.c,
  french.c), the day of the week (dow.c) and the date of Easter (easter.c).

  The variables of type \<open>int\<close> take the values of \<open>long\<close> expressions by \<open>int_of_long\<close>, and products of
  \<open>int\<close>s wrap.  Arithmetic on \<open>long\<close> is exact: the first product overflows for day numbers from 2^61 on,
  which C leaves undefined.  Division is the one of C, \<open>sdiv\<close> and \<open>smod\<close>.
\<close>

subsection \<open>The Gregorian calendar\<close>

type_synonym date = "int \<times> int \<times> int"

text \<open>The month and the day from the day of a year that starts in March, and the numbering of the years.\<close>

definition month_and_day :: "int \<Rightarrow> int \<times> int" where
  "month_and_day dayOfYear =
     (let temp = dayOfYear * 5 - 3
      in (int_of_long (temp sdiv 153), int_of_long ((temp smod 153) sdiv 5 + 1)))"

definition civil_date :: "int \<Rightarrow> int \<Rightarrow> int \<Rightarrow> date" where
  "civil_date year month day =
     (let (year, month) = (if month < 10 then (year, month + 3) else (int_of_long (year + 1), month - 9));
          year = int_of_long (year - 4800);
          year = (if year \<le> 0 then int_of_long (year - 1) else year)
      in (year, month, day))"

definition SdnToGregorian :: "int \<Rightarrow> date" where
  "SdnToGregorian sdn =
     (if sdn \<le> 0 then (0, 0, 0)
      else
        let temp = (sdn + 32045) * 4 - 1;
            century = int_of_long (temp sdiv 146097);
            temp = ((temp smod 146097) sdiv 4) * 4 + 3;
            year = int_of_long (int_of_long (century * 100) + temp sdiv 1461);
            dayOfYear = int_of_long ((temp smod 1461) sdiv 4 + 1);
            (month, day) = month_and_day dayOfYear
        in civil_date year month day)"

text \<open>The year counted from 4801 B.C. and the month counted from March.\<close>

definition adjusted :: "int \<Rightarrow> int \<Rightarrow> int \<times> int" where
  "adjusted inputYear inputMonth =
     (let year = (if inputYear < 0 then inputYear + 4801 else int_of_long (inputYear + 4800))
      in if inputMonth > 2 then (year, inputMonth - 3) else (int_of_long (year - 1), inputMonth + 9))"

definition GregorianToSdn :: "int \<Rightarrow> int \<Rightarrow> int \<Rightarrow> int" where
  "GregorianToSdn inputYear inputMonth inputDay =
     (if inputYear = 0 \<or> inputYear < - 4714 \<or> inputMonth \<le> 0 \<or> inputMonth > 12 \<or> inputDay \<le> 0 \<or> inputDay > 31 then 0
      else if inputYear = - 4714 \<and> inputMonth < 11 then 0
      else if inputYear = - 4714 \<and> inputMonth = 11 \<and> inputDay < 25 then 0
      else
        let (year, month) = adjusted inputYear inputMonth
        in int_of_long
             (int_of_long (year sdiv 100 * 146097) sdiv 4 + int_of_long (year smod 100 * 1461) sdiv 4
              + (month * 153 + 2) sdiv 5 + inputDay - 32045))"

subsection \<open>The Julian calendar\<close>

definition SdnToJulian :: "int \<Rightarrow> date" where
  "SdnToJulian sdn =
     (if sdn \<le> 0 then (0, 0, 0)
      else
        let temp = (sdn + 32083) * 4 - 1;
            year = int_of_long (temp sdiv 1461);
            dayOfYear = int_of_long ((temp smod 1461) sdiv 4 + 1);
            (month, day) = month_and_day dayOfYear
        in civil_date year month day)"

definition JulianToSdn :: "int \<Rightarrow> int \<Rightarrow> int \<Rightarrow> int" where
  "JulianToSdn inputYear inputMonth inputDay =
     (if inputYear = 0 \<or> inputYear < - 4713 \<or> inputMonth \<le> 0 \<or> inputMonth > 12 \<or> inputDay \<le> 0 \<or> inputDay > 31 then 0
      else if inputYear = - 4713 \<and> inputMonth = 1 \<and> inputDay = 1 then 0
      else
        let (year, month) = adjusted inputYear inputMonth
        in int_of_long (int_of_long (year * 1461) sdiv 4 + (month * 153 + 2) sdiv 5 + inputDay - 32083))"

subsection \<open>The French republican calendar\<close>

definition SdnToFrench :: "int \<Rightarrow> date" where
  "SdnToFrench sdn =
     (if sdn < 2375840 \<or> sdn > 2380952 then (0, 0, 0)
      else
        let temp = (sdn - 2375474) * 4 - 1;
            dayOfYear = int_of_long ((temp smod 1461) sdiv 4)
        in (int_of_long (temp sdiv 1461), dayOfYear sdiv 30 + 1, dayOfYear smod 30 + 1))"

definition FrenchToSdn :: "int \<Rightarrow> int \<Rightarrow> int \<Rightarrow> int" where
  "FrenchToSdn year month day =
     (if year < 1 \<or> year > 14 \<or> month < 1 \<or> month > 13 \<or> day < 1 \<or> day > 30 then 0
      else (year * 1461) sdiv 4 + (month - 1) * 30 + day + 2375474)"

subsection \<open>Days of the week and Easter\<close>

definition DayOfWeek :: "int \<Rightarrow> int" where
  "DayOfWeek sdn = (let dow = int_of_long ((sdn + 1) smod 7) in if dow \<ge> 0 then dow else dow + 7)"

text \<open>\<open>_cal_easter\<close>: Easter in days after March 21st.\<close>

definition non_negative :: "int \<Rightarrow> int \<Rightarrow> int" where
  "non_negative n r = (if r < 0 then r + n else r)"

definition easter_days :: "int \<Rightarrow> int" where
  "easter_days year =
     (let golden = year smod 19 + 1;
          dom = (if year \<le> 1752 then non_negative 7 (int_of_long (year + year sdiv 4 + 5) smod 7)
                 else non_negative 7 (int_of_long (year + year sdiv 4 - year sdiv 100 + year sdiv 400) smod 7));
          solar = (year - 1600) sdiv 100 - (year - 1600) sdiv 400;
          lunar = (((year - 1400) sdiv 100) * 8) sdiv 25;
          pfm = (if year \<le> 1752 then non_negative 30 ((3 - 11 * golden - 7) smod 30)
                 else non_negative 30 ((3 - 11 * golden + solar - lunar) smod 30));
          pfm = (if pfm = 29 \<or> pfm = 28 \<and> golden > 11 then pfm - 1 else pfm);
          tmp = non_negative 7 ((4 - pfm - dom) smod 7)
      in pfm + tmp + 1)"

end
