(* ===== verification/Jewish.thy ===== *)
theory Jewish
  imports Calendar
begin

text \<open>
  The Jewish calendar (dl/calendar/jewish.c).  A year starts on the day of a new moon (molad), given as
  a day and its halakim (1080 to the hour), unless one of four rules delays it.  \<open>int\<close> and \<open>long\<close> are as in
  \<open>Calendar\<close>; the unsigned arithmetic of \<open>MoladOfMetonicCycle\<close> is on 64 bits.  \<open>year + 1\<close> is exact for all
  years but the last \<open>int\<close>.
\<close>

subsection \<open>New moons\<close>

definition HALAKIM_PER_DAY :: int where "HALAKIM_PER_DAY = 25920"
definition HALAKIM_PER_LUNAR_CYCLE :: int where "HALAKIM_PER_LUNAR_CYCLE = 765433"
definition HALAKIM_PER_METONIC_CYCLE :: int where "HALAKIM_PER_METONIC_CYCLE = 179876755"
definition NEW_MOON_OF_CREATION :: int where "NEW_MOON_OF_CREATION = 31524"

definition monthsPerYear :: "int list" where
  "monthsPerYear = [12, 12, 13, 12, 12, 13, 12, 13, 12, 12, 13, 12, 12, 13, 12, 12, 13, 12, 13]"

definition yearOffset :: "int list" where
  "yearOffset = [0, 12, 24, 37, 49, 61, 74, 86, 99, 111, 123, 136, 148, 160, 173, 185, 197, 210, 222]"

text \<open>Days of the week count from Sunday (0); noon is 18 hours after the start of a day.\<close>

definition Tishri1 :: "nat \<Rightarrow> int \<Rightarrow> int \<Rightarrow> int" where
  "Tishri1 metonicYear moladDay moladHalakim =
     (let tishri1 = moladDay;
          dow = int_of_long (tishri1 smod 7);
          leapYear = metonicYear \<in> {2, 5, 7, 10, 13, 16, 18};
          lastWasLeapYear = metonicYear \<in> {3, 6, 8, 11, 14, 17, 0};
          (tishri1, dow) =
            (if moladHalakim \<ge> 19440 \<or> \<not> leapYear \<and> dow = 2 \<and> moladHalakim \<ge> 9924 \<or>
                lastWasLeapYear \<and> dow = 1 \<and> moladHalakim \<ge> 16789
             then (tishri1 + 1, if dow + 1 = 7 then 0 else dow + 1) else (tishri1, dow))
      in if dow = 3 \<or> dow = 5 \<or> dow = 0 then tishri1 + 1 else tishri1)"

text \<open>The products with \<open>metonicCycle\<close> are products of \<open>int\<close>s.\<close>

definition MoladOfMetonicCycle :: "int \<Rightarrow> int \<times> int" where
  "MoladOfMetonicCycle metonicCycle =
     (let r1 = (word_of_int NEW_MOON_OF_CREATION :: ulong);
          r1 = r1 + word_of_int (int_of_long (metonicCycle * (HALAKIM_PER_METONIC_CYCLE AND 0xFFFF)));
          r2 = drop_bit 16 r1;
          r2 = r2 + word_of_int (int_of_long (metonicCycle * (drop_bit 16 HALAKIM_PER_METONIC_CYCLE AND 0xFFFF)));
          d2 = r2 div 25920;
          r2 = r2 - d2 * 25920;
          r1 = push_bit 16 r2 OR (r1 AND 0xFFFF);
          d1 = r1 div 25920;
          r1 = r1 - d1 * 25920
      in (sint (push_bit 16 d2 OR d1), sint r1))"

text \<open>So many months later.\<close>

definition add_halakim :: "int \<Rightarrow> int \<times> int \<Rightarrow> int \<times> int" where
  "add_halakim n =
     (\<lambda>(moladDay, moladHalakim).
        let h = moladHalakim + n in (moladDay + h sdiv HALAKIM_PER_DAY, h smod HALAKIM_PER_DAY))"

text \<open>The two loops of \<open>FindTishriMolad\<close>.\<close>

partial_function (option) find_cycle :: "int \<Rightarrow> int \<Rightarrow> int \<times> int \<Rightarrow> (int \<times> int \<times> int) option" where
  "find_cycle inputDay metonicCycle molad =
     (if fst molad < inputDay - 6940 + 310
      then find_cycle inputDay (int_of_long (metonicCycle + 1)) (add_halakim HALAKIM_PER_METONIC_CYCLE molad)
      else Some (metonicCycle, molad))"

declare find_cycle.simps [code]

function find_year :: "int \<Rightarrow> nat \<Rightarrow> int \<times> int \<Rightarrow> nat \<times> int \<times> int" where
  "find_year inputDay metonicYear molad =
     (if metonicYear < 18 \<and> \<not> fst molad > inputDay - 74
      then find_year inputDay (metonicYear + 1) (add_halakim (HALAKIM_PER_LUNAR_CYCLE * monthsPerYear ! metonicYear) molad)
      else (metonicYear, molad))"
  by pat_completeness auto
termination by (relation "measure (\<lambda>(inputDay, metonicYear, molad). 18 - metonicYear)") auto

declare find_year.simps [simp del]

definition FindTishriMolad :: "int \<Rightarrow> (int \<times> nat \<times> int \<times> int) option" where
  "FindTishriMolad inputDay =
     (let metonicCycle = int_of_long ((inputDay + 310) sdiv 6940) in do {
      (metonicCycle, molad) \<leftarrow> find_cycle inputDay metonicCycle (MoladOfMetonicCycle metonicCycle);
      Some (metonicCycle, find_year inputDay 0 molad) })"

definition FindStartOfYear :: "int \<Rightarrow> int \<times> nat \<times> (int \<times> int) \<times> int" where
  "FindStartOfYear year =
     (let metonicCycle = (year - 1) sdiv 19;
          metonicYear = nat ((year - 1) smod 19);
          molad = add_halakim (HALAKIM_PER_LUNAR_CYCLE * yearOffset ! metonicYear) (MoladOfMetonicCycle metonicCycle)
      in (metonicCycle, metonicYear, molad, int_of_long (Tishri1 metonicYear (fst molad) (snd molad))))"

subsection \<open>Conversions\<close>

text \<open>Heshvan (2) and Kislev (3), whose lengths depend on the length of the year.\<close>

definition heshvan_kislev :: "int \<Rightarrow> int \<Rightarrow> int \<Rightarrow> int \<Rightarrow> date" where
  "heshvan_kislev year inputDay tishri1 tishri1After =
     (let yearLength = tishri1After - tishri1;
          day = inputDay - tishri1 - 29
      in if yearLength = 355 \<or> yearLength = 385
         then if day \<le> 30 then (year, 2, int_of_long day) else (year, 3, int_of_long (day - 30))
         else if day \<le> 29 then (year, 2, int_of_long day) else (year, 3, int_of_long (day - 29)))"

definition SdnToJewish :: "int \<Rightarrow> date option" where
  "SdnToJewish sdn =
     (if sdn \<le> 347997 then Some (0, 0, 0)
      else
        let inputDay = sdn - 347997 in do {
        (metonicCycle, metonicYear, day, halakim) \<leftarrow> FindTishriMolad inputDay;
        let tishri1 = int_of_long (Tishri1 metonicYear day halakim) in
        if inputDay \<ge> tishri1 then
          let year = int_of_long (metonicCycle * 19 + int metonicYear + 1) in
          if inputDay < tishri1 + 30 then Some (year, 1, inputDay - tishri1 + 1)
          else if inputDay < tishri1 + 59 then Some (year, 2, inputDay - tishri1 - 29)
          else
            let (day, halakim) = add_halakim (HALAKIM_PER_LUNAR_CYCLE * monthsPerYear ! metonicYear) (day, halakim)
            in Some (heshvan_kislev year inputDay tishri1 (int_of_long (Tishri1 ((metonicYear + 1) mod 19) day halakim)))
        else
          let year = int_of_long (metonicCycle * 19 + int metonicYear) in
          if inputDay \<ge> tishri1 - 177 then
            Some (if inputDay > tishri1 - 30 then (year, 13, inputDay - tishri1 + 30)
                  else if inputDay > tishri1 - 60 then (year, 12, inputDay - tishri1 + 60)
                  else if inputDay > tishri1 - 89 then (year, 11, inputDay - tishri1 + 89)
                  else if inputDay > tishri1 - 119 then (year, 10, inputDay - tishri1 + 119)
                  else if inputDay > tishri1 - 148 then (year, 9, inputDay - tishri1 + 148)
                  else (year, 8, inputDay - tishri1 + 178))
          else
            let leap = monthsPerYear ! nat ((year - 1) smod 19) = 13;
                d = int_of_long (inputDay - tishri1 + 207)
            in if leap \<and> d > 0 then Some (year, 7, d)
               else
                 let d = (if leap then d + 30 else d) in
                 if d > 0 then Some (year, 6, d)
                 else if d + 30 > 0 then Some (year, 5, d + 30)
                 else if d + 30 + 29 > 0 then Some (year, 4, d + 30 + 29)
                 else do {
                   (_, metonicYear, day, halakim) \<leftarrow> FindTishriMolad (day - 365);
                   Some (heshvan_kislev year inputDay (int_of_long (Tishri1 metonicYear day halakim)) tishri1) } })"

definition JewishToSdn :: "int \<Rightarrow> int \<Rightarrow> int \<Rightarrow> int" where
  "JewishToSdn year month day =
     (if year \<le> 0 \<or> day \<le> 0 \<or> day > 30 \<or> month < 1 \<or> month > 13 then 0
      else if month \<le> 2 then
        let (_, _, _, tishri1) = FindStartOfYear year
        in 347997 + (if month = 1 then tishri1 + day - 1 else tishri1 + day + 29)
      else if month = 3 then
        let (_, metonicYear, molad, tishri1) = FindStartOfYear year;
            (moladDay, moladHalakim) = add_halakim (HALAKIM_PER_LUNAR_CYCLE * monthsPerYear ! metonicYear) molad;
            tishri1After = int_of_long (Tishri1 ((metonicYear + 1) mod 19) moladDay moladHalakim);
            yearLength = tishri1After - tishri1
        in 347997 + (if yearLength = 355 \<or> yearLength = 385 then tishri1 + day + 59 else tishri1 + day + 58)
      else
        let (_, _, _, tishri1After) = FindStartOfYear (year + 1);
            lengthOfAdarIAndII = (if monthsPerYear ! nat ((year - 1) smod 19) = 12 then 29 else 59)
        in 347997 +
           (if month = 4 then tishri1After + day - lengthOfAdarIAndII - 237
            else if month = 5 then tishri1After + day - lengthOfAdarIAndII - 208
            else if month = 6 then tishri1After + day - lengthOfAdarIAndII - 178
            else if month = 7 then tishri1After + day - 207
            else if month = 8 then tishri1After + day - 178
            else if month = 9 then tishri1After + day - 148
            else if month = 10 then tishri1After + day - 119
            else if month = 11 then tishri1After + day - 89
            else if month = 12 then tishri1After + day - 60
            else tishri1After + day - 30))"

end
