(* ===== verification/Calendar_Props.thy ===== *)
theory Calendar_Props
  imports Calendar
begin

text \<open>
  The conversions agree with counting days: the dates of consecutive day numbers are consecutive dates
  of the calendar.  The locale \<open>day_count\<close> is what the conversions of one calendar have to satisfy.
\<close>

subsection \<open>Counting days\<close>

locale day_count =
  fixes of_day :: "int \<Rightarrow> 'd" and to_day :: "'d \<Rightarrow> int" and succ :: "'d \<Rightarrow> 'd" and valid :: "'d \<Rightarrow> bool"
    and first :: 'd and first_day last_day :: int
  assumes starts: "valid first" "to_day first = first_day" "first_day \<le> last_day"
    and steps: "valid d \<Longrightarrow> to_day d \<noteq> last_day \<Longrightarrow> valid (succ d) \<and> to_day (succ d) = to_day d + 1"
    and returns: "valid d \<Longrightarrow> of_day (to_day d) = d"
begin

lemma counts: "first_day + int n \<le> last_day \<Longrightarrow> valid ((succ ^^ n) first) \<and> to_day ((succ ^^ n) first) = first_day + int n"
  using starts steps by (induction n) auto

lemma day_numbers:
  assumes "first_day \<le> n" "n \<le> last_day"
  shows "of_day n = (succ ^^ nat (n - first_day)) first" "valid (of_day n)" "to_day (of_day n) = n"
  using counts [of "nat (n - first_day)"] assms returns [of "(succ ^^ nat (n - first_day)) first"] by simp_all

end

subsection \<open>Civil calendars\<close>

text \<open>There is no year 0: the year before 1 is -1, which is a leap year.\<close>

definition astronomical :: "int \<Rightarrow> int" where
  "astronomical y = (if y < 0 then y + 1 else y)"

definition gregorian_leap :: "int \<Rightarrow> bool" where
  "gregorian_leap y = (let a = astronomical y in a mod 4 = 0 \<and> (a mod 100 = 0 \<longrightarrow> a mod 400 = 0))"

definition julian_leap :: "int \<Rightarrow> bool" where
  "julian_leap y = (astronomical y mod 4 = 0)"

definition month_length :: "bool \<Rightarrow> int \<Rightarrow> int" where
  "month_length leap m = (if m = 2 then if leap then 29 else 28 else if m \<in> {4, 6, 9, 11} then 30 else 31)"

definition next_date :: "(int \<Rightarrow> bool) \<Rightarrow> date \<Rightarrow> date" where
  "next_date leap =
     (\<lambda>(y, m, d).
        if d < month_length (leap y) m then (y, m, d + 1)
        else if m < 12 then (y, m + 1, 1)
        else (if y = - 1 then 1 else y + 1, 1, 1))"

definition civil :: "(int \<Rightarrow> bool) \<Rightarrow> date \<Rightarrow> bool" where
  "civil leap = (\<lambda>(y, m, d). y \<noteq> 0 \<and> 1 \<le> m \<and> m \<le> 12 \<and> 1 \<le> d \<and> d \<le> month_length (leap y) m)"

text \<open>From November 25th, 4714 B.C. and January 2nd, 4713 B.C. on, as long as no \<open>int\<close> overflows.\<close>

definition gregorian_date :: "date \<Rightarrow> bool" where
  "gregorian_date = (\<lambda>(y, m, d). civil gregorian_leap (y, m, d) \<and> y \<le> 1465199 \<and>
     (- 4714 < y \<or> y = - 4714 \<and> (11 < m \<or> m = 11 \<and> 25 \<le> d)))"

definition julian_date :: "date \<Rightarrow> bool" where
  "julian_date = (\<lambda>(y, m, d). civil julian_leap (y, m, d) \<and> y \<le> 1465072 \<and>
     (- 4713 < y \<or> y = - 4713 \<and> (1 < m \<or> 2 \<le> d)))"

subsection \<open>Months and years\<close>

lemma quotient: "n = q * b + r \<Longrightarrow> 0 \<le> r \<Longrightarrow> r < b \<Longrightarrow> n div b = q \<and> n mod b = (r :: int)"
  by (simp add: div_mult_self3)

text \<open>The year \<open>Y\<close> counted from 4801 B.C. that starts in March, its month \<open>M\<close>, and the day of the year.\<close>

definition day_of_year :: "int \<Rightarrow> int \<Rightarrow> int" where
  "day_of_year M d = (M * 153 + 2) div 5 + d"

lemma month_cases:
  "0 \<le> M \<Longrightarrow> M \<le> 11 \<Longrightarrow>
   M = 0 \<or> M = 1 \<or> M = 2 \<or> M = 3 \<or> M = 4 \<or> M = 5 \<or> M = 6 \<or> M = 7 \<or> M = 8 \<or> M = 9 \<or> M = 10 \<or> M = (11 :: int)"
  by presburger

text \<open>The lengths of the months from March on.\<close>

definition march_length :: "int \<Rightarrow> int" where
  "march_length M = (if M = 11 then 29 else if M \<in> {1, 3, 6, 8} then 30 else 31)"

lemma month_and_day:
  assumes "0 \<le> M" "M \<le> 11" "1 \<le> d" "d \<le> march_length M"
  shows "month_and_day (day_of_year M d) = (M, d)" "1 \<le> day_of_year M d" "day_of_year M d \<le> 366"
    "day_of_year M d = 366 \<Longrightarrow> M = 11 \<and> d = 29"
proof -
  let ?n = "day_of_year M d"
  have b: "1 \<le> ?n \<and> ?n \<le> 366 \<and> (?n = 366 \<longrightarrow> M = 11 \<and> d = 29) \<and>
      0 \<le> ?n * 5 - 3 - M * 153 \<and> ?n * 5 - 3 - M * 153 < 153 \<and> (?n * 5 - 3 - M * 153) div 5 = d - 1"
    using month_cases [OF assms(1,2)] assms(3,4) unfolding march_length_def day_of_year_def
    by (elim disjE) simp_all
  then show "1 \<le> ?n" "?n \<le> 366" "?n = 366 \<Longrightarrow> M = 11 \<and> d = 29" by simp_all
  have "(?n * 5 - 3) div 153 = M \<and> (?n * 5 - 3) mod 153 = ?n * 5 - 3 - M * 153" using b by (intro quotient) simp_all
  then show "month_and_day ?n = (M, d)"
    using b assms by (simp add: month_and_day_def Let_def sdiv_pos int_exact march_length_def split: if_splits)
qed

lemma four_years:
  assumes "1 \<le> n" "n \<le> 366" "n = 366 \<Longrightarrow> y mod 4 = (3 :: int)"
  shows "((y * 1461 div 4 + n) * 4 - 1) div 1461 = y" "((y * 1461 div 4 + n) * 4 - 1) mod 1461 div 4 + 1 = n"
proof -
  have "4 * (y * 1461 div 4) = y * 1461 - y * 1461 mod 4" by (simp add: minus_mod_eq_mult_div)
  moreover have "y * 1461 mod 4 = y mod 4" using mod_mult_right_eq [of y 1461 4] by simp
  ultimately have e: "(y * 1461 div 4 + n) * 4 - 1 = y * 1461 + (4 * n - 1 - y mod 4)" by simp
  have m: "0 \<le> y mod 4" "y mod 4 \<le> 3" by simp_all
  have "4 * n - 1 - y mod 4 < 1461" using assms m by (cases "n = 366") simp_all
  then have q: "((y * 1461 div 4 + n) * 4 - 1) div 1461 = y \<and> ((y * 1461 div 4 + n) * 4 - 1) mod 1461 = 4 * n - 1 - y mod 4"
    using e assms(1) m by (intro quotient) simp_all
  then show "((y * 1461 div 4 + n) * 4 - 1) div 1461 = y" by simp
  have "(4 * n - 1 - y mod 4) div 4 = n - 1" using m by presburger
  then show "((y * 1461 div 4 + n) * 4 - 1) mod 1461 div 4 + 1 = n" using q by simp
qed

lemma four_centuries:
  assumes "0 \<le> y" "y \<le> 99" "1 \<le> n" "n \<le> 366" "n = 366 \<Longrightarrow> y mod 4 = (3 :: int) \<and> (y = 99 \<longrightarrow> c mod 4 = 3)"
  defines "k \<equiv> y * 1461 div 4 + n"
  shows "((c * 146097 div 4 + k) * 4 - 1) div 146097 = c" "((c * 146097 div 4 + k) * 4 - 1) mod 146097 div 4 * 4 + 3 = k * 4 - 1"
proof -
  have "4 * (c * 146097 div 4) = c * 146097 - c * 146097 mod 4" by (simp add: minus_mod_eq_mult_div)
  moreover have "c * 146097 mod 4 = c mod 4" using mod_mult_right_eq [of c 146097 4] by simp
  ultimately have e: "(c * 146097 div 4 + k) * 4 - 1 = c * 146097 + (4 * k - 1 - c mod 4)" by simp
  have m: "0 \<le> c mod 4" "c mod 4 \<le> 3" by simp_all
  have k: "1 \<le> k" "k \<le> 36525" "k = 36525 \<Longrightarrow> c mod 4 = 3"
  proof -
    have y: "y * 1461 div 4 \<le> 36159" "0 \<le> y * 1461 div 4" "y \<noteq> 99 \<Longrightarrow> y * 1461 div 4 \<le> 35794" using assms(1,2) by auto
    then show "1 \<le> k" "k \<le> 36525" using assms(3,4) unfolding k_def by linarith+
    assume "k = 36525"
    then have "n = 366" "y = 99" using y assms(4) unfolding k_def by linarith+
    then show "c mod 4 = 3" using assms(5) by simp
  qed
  then have "4 * k - 1 - c mod 4 < 146097" using m by (cases "k = 36525") simp_all
  then have q: "((c * 146097 div 4 + k) * 4 - 1) div 146097 = c \<and> ((c * 146097 div 4 + k) * 4 - 1) mod 146097 = 4 * k - 1 - c mod 4"
    using e k(1) m by (intro quotient) simp_all
  then show "((c * 146097 div 4 + k) * 4 - 1) div 146097 = c" by simp
  have "(4 * k - 1 - c mod 4) div 4 = k - 1" using m by presburger
  then show "((c * 146097 div 4 + k) * 4 - 1) mod 146097 div 4 * 4 + 3 = k * 4 - 1" using q by simp
qed

text \<open>The year and month of a date, counted from March 4801 B.C.\<close>

lemma adjusted_date:
  assumes "civil leap (y, m, d)" "- 4800 \<le> y" "y \<le> 1465199" "adjusted y m = (Y, M)"
  shows "0 \<le> M" "M \<le> 11" "1 \<le> d" "d \<le> march_length M" "0 \<le> Y" "Y \<le> 1469999" "civil_date Y M d = (y, m, d)"
    "M = 11 \<and> d = 29 \<Longrightarrow> leap y \<and> astronomical y = Y - 4799"
    "astronomical y = (if M < 10 then Y - 4800 else Y - 4799)" "M = (if 2 < m then m - 3 else m + 9)"
proof -
  have YM: "Y = (if 2 < m then astronomical y + 4800 else astronomical y + 4799)" "M = (if 2 < m then m - 3 else m + 9)"
    using assms(2-4) by (auto simp: adjusted_def astronomical_def Let_def int_exact split: if_splits)
  have c: "y \<noteq> 0" "1 \<le> m" "m \<le> 12" "1 \<le> d" "d \<le> month_length (leap y) m" using assms(1) by (simp_all add: civil_def)
  have l: "d \<le> march_length M \<and> (M = 11 \<and> d = 29 \<longrightarrow> leap y)"
    using c YM(2) by (auto simp: march_length_def month_length_def split: if_splits)
  show "0 \<le> M" "M \<le> 11" "1 \<le> d" "d \<le> march_length M" using c YM l by simp_all
  show "0 \<le> Y" "Y \<le> 1469999" using YM assms(2,3) c(1) by (auto simp: astronomical_def)
  show "astronomical y = (if M < 10 then Y - 4800 else Y - 4799)" "M = (if 2 < m then m - 3 else m + 9)"
    using YM c by auto
  then show "M = 11 \<and> d = 29 \<Longrightarrow> leap y \<and> astronomical y = Y - 4799" using l by simp
  show "civil_date Y M d = (y, m, d)"
    using YM c assms(2,3) by (auto simp: civil_date_def astronomical_def Let_def int_exact)
qed

text \<open>The days before the year \<open>Y\<close>.\<close>

definition gregorian_days_before :: "int \<Rightarrow> int" where
  "gregorian_days_before Y = Y div 100 * 146097 div 4 + Y mod 100 * 1461 div 4"

definition julian_days_before :: "int \<Rightarrow> int" where
  "julian_days_before Y = Y * 1461 div 4"

lemma quarter:
  fixes y b :: int
  shows "(y + 1) * (4 * b + 1) div 4 = y * (4 * b + 1) div 4 + b + (if (y + 1) mod 4 = 0 then 1 else 0)"
proof -
  define q s where "q = y div 4" and "s = y mod 4"
  have y: "y = 4 * q + s" "0 \<le> s" "s < 4" by (simp_all add: q_def s_def)
  have m: "(4 * q + t) * (4 * b + 1) div 4 = q * (4 * b + 1) + t * b + t div 4" for t
  proof -
    have "(4 * q + t) * (4 * b + 1) = t + 4 * (q * (4 * b + 1) + t * b)" by (simp add: algebra_simps)
    then show ?thesis by simp
  qed
  have "(y + 1) mod 4 = (s + 1) mod 4" using mod_mult_self2 [of "s + 1" 4 q] y(1) by (simp add: algebra_simps)
  moreover have "s = 0 \<or> s = 1 \<or> s = 2 \<or> s = 3" using y by presburger
  ultimately have d: "(s + 1) div 4 = s div 4 + (if (y + 1) mod 4 = 0 then 1 else 0)" by auto
  have "(y + 1) * (4 * b + 1) div 4 = q * (4 * b + 1) + (s + 1) * b + (s + 1) div 4"
    using m [of "s + 1"] y(1) by (simp only: add.assoc)
  moreover have "y * (4 * b + 1) div 4 = q * (4 * b + 1) + s * b + s div 4" using m [of s] y(1) by (simp only:)
  moreover have "(s + 1) * b = s * b + b" by (simp add: distrib_right)
  ultimately show ?thesis unfolding d by (simp only: add_ac)
qed

lemma julian_year: "julian_days_before (Y + 1) = julian_days_before Y + (if (Y + 1) mod 4 = 0 then 366 else 365)"
  using quarter [of Y 365] by (simp add: julian_days_before_def)

lemma gregorian_year:
  "gregorian_days_before (Y + 1) =
   gregorian_days_before Y + (if (Y + 1) mod 4 = 0 \<and> ((Y + 1) mod 100 = 0 \<longrightarrow> (Y + 1) mod 400 = 0) then 366 else 365)"
proof -
  define c r where "c = Y div 100" and "r = Y mod 100"
  have Y: "Y = 100 * c + r" "0 \<le> r" "r < 100" by (simp_all add: c_def r_def)
  show ?thesis
  proof (cases "r = 99")
    case False
    then have d: "(Y + 1) div 100 = c \<and> (Y + 1) mod 100 = r + 1" using Y by (intro quotient) simp_all
    have "(Y + 1) mod 4 = (r + 1) mod 4" using mod_mult_self2 [of "r + 1" 4 "25 * c"] Y(1) by (simp add: algebra_simps)
    then show ?thesis using julian_year [of r] d Y(2) unfolding gregorian_days_before_def julian_days_before_def
      by (simp add: c_def [symmetric] r_def [symmetric] add.commute)
  next
    case True
    then have d: "(Y + 1) div 100 = c + 1 \<and> (Y + 1) mod 100 = 0" using Y by (intro quotient) simp_all
    have years: "Y + 1 = 4 * (25 * (c + 1))" "Y + 1 = 100 * (c + 1)" using Y(1) True by simp_all
    have "(Y + 1) mod 4 = 0" "(Y + 1) mod 400 = 0 \<longleftrightarrow> (c + 1) mod 4 = 0" using mod_mult_mult1 [of 100 "c + 1" 4] unfolding years(2) by (simp_all add: mod_eq_0_iff_dvd)
    moreover have "(c + 1) * 146097 div 4 = c * 146097 div 4 + 36524 + (if (c + 1) mod 4 = 0 then 1 else 0)"
      using quarter [of c 36524] by simp
    ultimately show ?thesis using d True unfolding gregorian_days_before_def
      by (simp add: c_def [symmetric] r_def [symmetric])
  qed
qed

subsection \<open>The Gregorian calendar\<close>

lemma gregorian_bounds:
  assumes "gregorian_date (y, m, d)" "adjusted y m = (Y, M)"
  shows "32046 \<le> gregorian_days_before Y + day_of_year M d" "gregorian_days_before Y + day_of_year M d < 600000000"
    "- 4714 \<le> y" "y \<le> 1465199"
proof -
  have c: "civil gregorian_leap (y, m, d)" "y \<le> 1465199" "- 4714 < y \<or> y = - 4714 \<and> (11 < m \<or> m = 11 \<and> 25 \<le> d)"
    using assms(1) by (simp_all add: gregorian_date_def)
  then show y: "- 4714 \<le> y" "y \<le> 1465199" by auto
  note a = adjusted_date [OF c(1) _ c(2) assms(2)]
  have M: "0 \<le> M" "M \<le> 11" "1 \<le> d" "d \<le> march_length M" and Y: "0 \<le> Y" "Y \<le> 1469999" using a(1-6) y by simp_all
  note md = month_and_day(2,3) [OF M]
  have "87 \<le> Y" "Y = 87 \<Longrightarrow> M < 10 \<Longrightarrow> y = - 4714" using a(9,10) c y by (auto simp: astronomical_def civil_def split: if_splits)
  moreover have "270 \<le> day_of_year M d" if "Y = 87"
  proof (cases "M < 10")
    case True
    then have "y = - 4714" using that calculation(2) by simp
    then have "m = 11 \<and> 25 \<le> d \<or> m = 12" using c(1,3) by (auto simp: civil_def)
    then show ?thesis using a(10) M(3) y by (auto simp: day_of_year_def)
  next
    case False
    then show ?thesis using M(3) by (simp add: day_of_year_def)
  qed
  moreover have "gregorian_days_before 87 = 31776" by (simp add: gregorian_days_before_def)
  moreover have "32142 \<le> gregorian_days_before Y" if "88 \<le> Y"
  proof (cases "Y < 100")
    case True
    then show ?thesis using that by (simp add: gregorian_days_before_def)
  next
    case False
    then have "1 * 146097 div 4 \<le> Y div 100 * 146097 div 4" by (intro zdiv_mono1 mult_right_mono) simp_all
    moreover have "0 \<le> Y mod 100 * 1461 div 4" by simp
    ultimately show ?thesis by (simp add: gregorian_days_before_def)
  qed
  ultimately show "32046 \<le> gregorian_days_before Y + day_of_year M d" using md by (cases "Y = 87") simp_all
  have "Y div 100 * 146097 div 4 \<le> 14699 * 146097 div 4" using Y by (intro zdiv_mono1 mult_right_mono) simp_all
  moreover have "Y mod 100 * 1461 div 4 \<le> 99 * 1461 div 4"
    using pos_mod_bound [of 100 Y] by (intro zdiv_mono1 mult_right_mono) simp_all
  ultimately show "gregorian_days_before Y + day_of_year M d < 600000000" using md by (simp add: gregorian_days_before_def)
qed

lemma gregorian_to_day:
  assumes "gregorian_date (y, m, d)" "adjusted y m = (Y, M)"
  shows "GregorianToSdn y m d = gregorian_days_before Y + day_of_year M d - 32045"
proof -
  note b = gregorian_bounds [OF assms]
  have c: "civil gregorian_leap (y, m, d)" using assms(1) by (simp add: gregorian_date_def)
  note a = adjusted_date(1-6) [OF c _ b(4) assms(2)]
  have Y: "0 \<le> Y" "Y \<le> 1469999" "0 \<le> M" using a b(3) by simp_all
  have "0 \<le> Y div 100 * 146097" "Y div 100 * 146097 \<le> 14699 * 146097" using Y by simp_all
  moreover have "0 \<le> Y mod 100 * 1461" "Y mod 100 * 1461 < 100 * 1461" by simp_all
  ultimately have e: "int_of_long (Y div 100 * 146097) = Y div 100 * 146097" "int_of_long (Y mod 100 * 1461) = Y mod 100 * 1461"
    by (simp_all add: int_exact)
  have "y \<noteq> 0 \<and> 1 \<le> m \<and> m \<le> 12 \<and> 1 \<le> d \<and> d \<le> 31"
    using c by (auto simp: civil_def month_length_def split: if_splits)
  then have g: "\<not> (y = 0 \<or> y < - 4714 \<or> m \<le> 0 \<or> m > 12 \<or> d \<le> 0 \<or> d > 31)"
    "\<not> (y = - 4714 \<and> m < 11)" "\<not> (y = - 4714 \<and> m = 11 \<and> d < 25)"
    using assms(1) b(3) by (auto simp: gregorian_date_def)
  have n: "int_of_long (gregorian_days_before Y + day_of_year M d - 32045) = gregorian_days_before Y + day_of_year M d - 32045"
    using b by (intro int_exact) simp_all
  have q: "Y sdiv 100 = Y div 100" "Y smod 100 = Y mod 100" "Y div 100 * 146097 sdiv 4 = Y div 100 * 146097 div 4"
    "Y mod 100 * 1461 sdiv 4 = Y mod 100 * 1461 div 4" "(M * 153 + 2) sdiv 5 = (M * 153 + 2) div 5"
    by (rule sdiv_pos; use Y in simp)+
  show ?thesis
    unfolding GregorianToSdn_def using g n assms(2)
    by (simp only: if_False Let_def split e q gregorian_days_before_def day_of_year_def add.assoc add_diff_eq)
qed

lemma mod_hundreds: "100 * x mod 400 = 100 * (x mod (4 :: int))"
  using mod_mult_mult1 [of 100 x 4] by simp

lemma gregorian_back:
  assumes "gregorian_date (y, m, d)"
  shows "SdnToGregorian (GregorianToSdn y m d) = (y, m, d)"
proof -
  obtain Y M where YM: "adjusted y m = (Y, M)" by force
  note b = gregorian_bounds [OF assms YM]
  have c: "civil gregorian_leap (y, m, d)" using assms by (simp add: gregorian_date_def)
  note a = adjusted_date [OF c _ b(4) YM]
  have M: "0 \<le> M" "M \<le> 11" "1 \<le> d" "d \<le> march_length M" and Y: "0 \<le> Y" "Y \<le> 1469999" using a(1-6) b(3) by simp_all
  define n where "n = day_of_year M d"
  note md = month_and_day [OF M, folded n_def]
  define k where "k = Y mod 100 * 1461 div 4 + n"
  have leap: "Y mod 100 mod 4 = 3 \<and> (Y mod 100 = 99 \<longrightarrow> Y div 100 mod 4 = 3)" if "n = 366"
  proof -
    have "gregorian_leap y" "astronomical y = Y - 4799" using a(8) b(3) md(4) that by simp_all
    then have l: "(Y - 4799) mod 4 = 0" "(Y - 4799) mod 100 = 0 \<longrightarrow> (Y - 4799) mod 400 = 0"
      by (simp_all add: gregorian_leap_def Let_def)
    have "Y mod 100 mod 4 = Y mod 4" by (simp add: mod_mod_cancel)
    moreover have "Y mod 4 = 3" using l(1) by presburger
    moreover have "Y div 100 mod 4 = 3" if h: "Y mod 100 = 99"
    proof -
      define z where "z = Y div 100 - 47"
      have e: "Y - 4799 = 100 * z" using h minus_mod_eq_mult_div [of Y 100] by (simp add: z_def right_diff_distrib)
      have "100 * z mod 400 = 0" by (rule mp [OF l(2) [unfolded e] mod_mult_self1_is_0])
      then have "z mod 4 = 0" unfolding mod_hundreds by simp
      then have "(z + 47) mod 4 = 3" using mod_add_eq [of z 4 47] by simp
      then show ?thesis by (simp add: z_def)
    qed
    ultimately show ?thesis by simp
  qed
  have r: "0 \<le> Y mod 100" "Y mod 100 \<le> 99" using pos_mod_bound [of 100 Y] by simp_all
  note cen = four_centuries [OF r md(2,3) leap, folded k_def]
  note yr = four_years [OF md(2,3), of "Y mod 100", folded k_def]
  have N: "gregorian_days_before Y + n = Y div 100 * 146097 div 4 + k" by (simp add: gregorian_days_before_def k_def)
  have sdn: "GregorianToSdn y m d = Y div 100 * 146097 div 4 + k - 32045" "0 < GregorianToSdn y m d"
    using gregorian_to_day [OF assms YM] N b(1) by (simp_all add: n_def)
  have t: "(GregorianToSdn y m d + 32045) * 4 - 1 = (Y div 100 * 146097 div 4 + k) * 4 - 1" using sdn(1) by simp
  have "0 \<le> Y mod 100 * 1461 div 4" by simp
  then have "1 \<le> k" using md(2) unfolding k_def by linarith
  then have p: "0 \<le> (Y div 100 * 146097 div 4 + k) * 4 - 1" "0 \<le> k * 4 - 1" "0 \<le> (k * 4 - 1) mod 1461"
    "0 \<le> ((Y div 100 * 146097 div 4 + k) * 4 - 1) mod 146097"
    using b(1) N by (simp_all add: n_def)
  have q: "((Y div 100 * 146097 div 4 + k) * 4 - 1) sdiv 146097 = Y div 100"
    "((Y div 100 * 146097 div 4 + k) * 4 - 1) smod 146097 sdiv 4 * 4 + 3 = k * 4 - 1"
    "(k * 4 - 1) sdiv 1461 = Y mod 100" "(k * 4 - 1) smod 1461 sdiv 4 + 1 = n"
    using p cen yr leap by (simp_all only: sdiv_pos zero_less_numeral)
  have e: "int_of_long (Y div 100) = Y div 100" "int_of_long (Y div 100 * 100) = Y div 100 * 100"
    "int_of_long (Y div 100 * 100 + Y mod 100) = Y" "int_of_long n = n"
    using Y md(2,3) by (simp_all add: int_exact)
  have "\<not> GregorianToSdn y m d \<le> 0" using sdn(2) by simp
  then show ?thesis
    unfolding SdnToGregorian_def t using a(7) b(3) by (simp only: if_False Let_def q e md(1) split)
qed

text \<open>The day after a date, counted in years and months that start in March.\<close>

lemma next_civil:
  assumes "civil leap (y, m, d)" "- 4800 \<le> y" "y < 1465199 \<or> y = 1465199 \<and> (m, d) \<noteq> (12, 31)" "adjusted y m = (Y, M)"
    "next_date leap (y, m, d) = (y', m', d')" "adjusted y' m' = (Y', M')"
  shows "civil leap (y', m', d')" "y \<le> y'" "y' \<le> 1465199"
    "Y' = Y \<and> day_of_year M' d' = day_of_year M d + 1 \<or>
     Y' = Y + 1 \<and> astronomical y = Y - 4799 \<and> day_of_year M' d' = 1 \<and> day_of_year M d = (if leap y then 366 else 365)"
proof -
  have c: "y \<noteq> 0" "1 \<le> m" "m \<le> 12" "1 \<le> d" "d \<le> month_length (leap y) m" using assms(1) by (simp_all add: civil_def)
  show n: "civil leap (y', m', d')" "y \<le> y'" "y' \<le> 1465199"
    using c assms(2,3,5) by (auto simp: civil_def next_date_def month_length_def split: if_splits)
  note a = adjusted_date(9,10) [OF assms(1,2) _ assms(4)]
  note a' = adjusted_date(9,10) [OF n(1) _ n(3) assms(6)]
  have M: "0 \<le> M" "M \<le> 11" using a c assms(3) by (auto split: if_splits)
  show "Y' = Y \<and> day_of_year M' d' = day_of_year M d + 1 \<or>
     Y' = Y + 1 \<and> astronomical y = Y - 4799 \<and> day_of_year M' d' = 1 \<and> day_of_year M d = (if leap y then 366 else 365)"
  proof (cases "d < month_length (leap y) m")
    case True
    then have "y' = y" "m' = m" "d' = d + 1" using assms(5) by (simp_all add: next_date_def)
    then show ?thesis using assms(4,6) by (simp add: day_of_year_def)
  next
    case False
    then have d: "d = month_length (leap y) m" "d' = 1" using c assms(5) by (auto simp: next_date_def split: if_splits)
    have "Y' = (if M = 11 then Y + 1 else Y) \<and> M' = (if M = 11 then 0 else M + 1)"
      using False a a' n(2) c assms(2,3,5) by (auto simp: next_date_def astronomical_def split: if_splits)
    then show ?thesis
      using month_cases [OF M] d a c assms(2,3) unfolding day_of_year_def month_length_def
      by (elim disjE) (auto simp: split: if_splits)
  qed
qed

lemma gregorian_next:
  assumes "gregorian_date (y, m, d)" "(y, m, d) \<noteq> (1465199, 12, 31)" "next_date gregorian_leap (y, m, d) = (y', m', d')"
  shows "gregorian_date (y', m', d')" "GregorianToSdn y' m' d' = GregorianToSdn y m d + 1"
proof -
  obtain Y M Y' M' where YM: "adjusted y m = (Y, M)" "adjusted y' m' = (Y', M')" by force
  note b = gregorian_bounds(3,4) [OF assms(1) YM(1)]
  have c: "civil gregorian_leap (y, m, d)" using assms(1) by (simp add: gregorian_date_def)
  have "- 4800 \<le> y" "y < 1465199 \<or> y = 1465199 \<and> (m, d) \<noteq> (12, 31)" using b assms(2) by auto
  note n = next_civil [OF c this YM(1) assms(3) YM(2)]
  have "- 4714 < y' \<or> y' = - 4714 \<and> (11 < m' \<or> m' = 11 \<and> 25 \<le> d')"
    using assms(1,3) n(2) by (auto simp: gregorian_date_def next_date_def split: if_splits)
  then show g: "gregorian_date (y', m', d')" using n(1,3) by (simp add: gregorian_date_def)
  note t = gregorian_to_day [OF assms(1) YM(1)] gregorian_to_day [OF g YM(2)]
  from n(4) show "GregorianToSdn y' m' d' = GregorianToSdn y m d + 1"
  proof (elim disjE conjE)
    assume h: "Y' = Y + 1" "astronomical y = Y - 4799" "day_of_year M' d' = 1"
      "day_of_year M d = (if gregorian_leap y then 366 else 365)"
    have "(Y - 4799) mod 4 = (Y + 1) mod 4" "(Y - 4799) mod 100 = (Y + 1) mod 100" "(Y - 4799) mod 400 = (Y + 1) mod 400"
      using mod_mult_self2 [of "Y - 4799" 4 1200] mod_mult_self2 [of "Y - 4799" 100 48] mod_mult_self2 [of "Y - 4799" 400 12]
      by (simp_all add: add.commute)
    then have "gregorian_leap y \<longleftrightarrow> (Y + 1) mod 4 = 0 \<and> ((Y + 1) mod 100 = 0 \<longrightarrow> (Y + 1) mod 400 = 0)"
      unfolding gregorian_leap_def h(2) Let_def by simp
    then show ?thesis using t h gregorian_year [of Y] by auto
  qed (use t in simp)
qed

interpretation gregorian: day_count SdnToGregorian "\<lambda>(y, m, d). GregorianToSdn y m d" "next_date gregorian_leap" gregorian_date
  "(- 4714, 11, 25)" 1 536874370
proof unfold_locales
  show "gregorian_date (- 4714, 11, 25)" by (simp add: gregorian_date_def civil_def month_length_def)
  show "(case (- 4714, 11, 25) of (y, m, d) \<Rightarrow> GregorianToSdn y m d) = 1" by (simp, code_simp)
  fix x :: date
  assume v: "gregorian_date x"
  obtain y m d where x: "x = (y, m, d)" by (cases x) auto
  show "SdnToGregorian (case x of (y, m, d) \<Rightarrow> GregorianToSdn y m d) = x" using gregorian_back v x by simp
  assume l: "(case x of (y, m, d) \<Rightarrow> GregorianToSdn y m d) \<noteq> 536874370"
  have "GregorianToSdn 1465199 12 31 = 536874370" by code_simp
  then have "(y, m, d) \<noteq> (1465199, 12, 31)" using l x by auto
  then show "gregorian_date (next_date gregorian_leap x) \<and>
      (case next_date gregorian_leap x of (y, m, d) \<Rightarrow> GregorianToSdn y m d) = (case x of (y, m, d) \<Rightarrow> GregorianToSdn y m d) + 1"
    using gregorian_next [of y m d] v x by (cases "next_date gregorian_leap x") auto
qed simp

subsection \<open>The Julian calendar\<close>

lemma julian_bounds:
  assumes "julian_date (y, m, d)" "adjusted y m = (Y, M)"
  shows "32084 \<le> julian_days_before Y + day_of_year M d" "julian_days_before Y + day_of_year M d < 600000000"
    "- 4713 \<le> y" "y \<le> 1465072" "Y \<le> 1469872"
proof -
  have c: "civil julian_leap (y, m, d)" "y \<le> 1465072" "- 4713 < y \<or> y = - 4713 \<and> (1 < m \<or> 2 \<le> d)"
    using assms(1) by (simp_all add: julian_date_def)
  then show y: "- 4713 \<le> y" "y \<le> 1465072" by auto
  note a = adjusted_date [OF c(1) _ _ assms(2)]
  have M: "0 \<le> M" "M \<le> 11" "1 \<le> d" "d \<le> march_length M" using a(1-4) y by simp_all
  note md = month_and_day(2,3) [OF M]
  have "87 \<le> Y" "Y = 87 \<Longrightarrow> M = 10 \<and> 2 \<le> d \<or> M = 11" and Y: "Y \<le> 1469872"
    using a(9,10) c y M(2) by (auto simp: astronomical_def civil_def split: if_splits)
  moreover have "308 \<le> day_of_year M d" if "Y = 87"
    using calculation(2) that M(3) by (auto simp: day_of_year_def)
  moreover have "julian_days_before 87 = 31776" by (simp add: julian_days_before_def)
  moreover have "32142 \<le> julian_days_before Y" if "88 \<le> Y" using that by (simp add: julian_days_before_def)
  ultimately show "32084 \<le> julian_days_before Y + day_of_year M d" using md by (cases "Y = 87") simp_all
  show "Y \<le> 1469872" by (rule Y)
  have "Y * 1461 div 4 \<le> 1469872 * 1461 div 4" using Y by (intro zdiv_mono1 mult_right_mono) simp_all
  then show "julian_days_before Y + day_of_year M d < 600000000" using md by (simp add: julian_days_before_def)
qed

lemma julian_to_day:
  assumes "julian_date (y, m, d)" "adjusted y m = (Y, M)"
  shows "JulianToSdn y m d = julian_days_before Y + day_of_year M d - 32083"
proof -
  note b = julian_bounds [OF assms]
  have c: "civil julian_leap (y, m, d)" using assms(1) by (simp add: julian_date_def)
  note a = adjusted_date(1-6) [OF c _ _ assms(2)]
  have Y: "0 \<le> Y" "0 \<le> M" using a b(3,4) by simp_all
  have e: "int_of_long (Y * 1461) = Y * 1461" using Y b(5) by (intro int_exact) simp_all
  have "y \<noteq> 0 \<and> 1 \<le> m \<and> m \<le> 12 \<and> 1 \<le> d \<and> d \<le> 31"
    using c by (auto simp: civil_def month_length_def split: if_splits)
  then have g: "\<not> (y = 0 \<or> y < - 4713 \<or> m \<le> 0 \<or> m > 12 \<or> d \<le> 0 \<or> d > 31)" "\<not> (y = - 4713 \<and> m = 1 \<and> d = 1)"
    using assms(1) b(3) by (auto simp: julian_date_def)
  have n: "int_of_long (julian_days_before Y + day_of_year M d - 32083) = julian_days_before Y + day_of_year M d - 32083"
    using b by (intro int_exact) simp_all
  have q: "Y * 1461 sdiv 4 = Y * 1461 div 4" "(M * 153 + 2) sdiv 5 = (M * 153 + 2) div 5"
    by (rule sdiv_pos; use Y in simp)+
  show ?thesis
    unfolding JulianToSdn_def using g n assms(2)
    by (simp only: if_False Let_def split e q julian_days_before_def day_of_year_def add.assoc add_diff_eq)
qed

lemma julian_back:
  assumes "julian_date (y, m, d)"
  shows "SdnToJulian (JulianToSdn y m d) = (y, m, d)"
proof -
  obtain Y M where YM: "adjusted y m = (Y, M)" by force
  note b = julian_bounds [OF assms YM]
  have c: "civil julian_leap (y, m, d)" using assms by (simp add: julian_date_def)
  note a = adjusted_date [OF c _ _ YM]
  have M: "0 \<le> M" "M \<le> 11" "1 \<le> d" "d \<le> march_length M" and Y: "0 \<le> Y" using a(1-5) b(3,4) by simp_all
  define n where "n = day_of_year M d"
  note md = month_and_day [OF M, folded n_def]
  have leap: "Y mod 4 = 3" if "n = 366"
  proof -
    have "julian_leap y" "astronomical y = Y - 4799" using a(8) b(3,4) md(4) that by simp_all
    then have "(Y - 4799) mod 4 = 0" by (simp add: julian_leap_def)
    then show ?thesis by presburger
  qed
  note yr = four_years [OF md(2,3) leap]
  have sdn: "JulianToSdn y m d = Y * 1461 div 4 + n - 32083" "0 < JulianToSdn y m d"
    using julian_to_day [OF assms YM] b(1) by (simp_all add: n_def julian_days_before_def)
  have t: "(JulianToSdn y m d + 32083) * 4 - 1 = (Y * 1461 div 4 + n) * 4 - 1" using sdn(1) by simp
  have "0 \<le> Y * 1461 div 4" using Y by simp
  then have p: "0 \<le> (Y * 1461 div 4 + n) * 4 - 1" "0 \<le> ((Y * 1461 div 4 + n) * 4 - 1) mod 1461" using md(2) by simp_all
  have q: "((Y * 1461 div 4 + n) * 4 - 1) sdiv 1461 = Y" "((Y * 1461 div 4 + n) * 4 - 1) smod 1461 sdiv 4 + 1 = n"
    using p yr leap by (simp_all only: sdiv_pos zero_less_numeral)
  have e: "int_of_long Y = Y" "int_of_long n = n" using Y b(5) md(2,3) by (simp_all add: int_exact)
  have "\<not> JulianToSdn y m d \<le> 0" using sdn(2) by simp
  then show ?thesis
    unfolding SdnToJulian_def t using a(7) b(3,4) by (simp only: if_False Let_def q e md(1) split)
qed

lemma julian_next:
  assumes "julian_date (y, m, d)" "(y, m, d) \<noteq> (1465072, 12, 31)" "next_date julian_leap (y, m, d) = (y', m', d')"
  shows "julian_date (y', m', d')" "JulianToSdn y' m' d' = JulianToSdn y m d + 1"
proof -
  obtain Y M Y' M' where YM: "adjusted y m = (Y, M)" "adjusted y' m' = (Y', M')" by force
  note b = julian_bounds(3,4) [OF assms(1) YM(1)]
  have c: "civil julian_leap (y, m, d)" using assms(1) by (simp add: julian_date_def)
  have "- 4800 \<le> y" "y < 1465199 \<or> y = 1465199 \<and> (m, d) \<noteq> (12, 31)" using b assms(2) by auto
  note n = next_civil [OF c this YM(1) assms(3) YM(2)]
  have "- 4713 < y' \<or> y' = - 4713 \<and> (1 < m' \<or> 2 \<le> d')" "y' \<le> 1465072"
    using assms n(2) c b by (auto simp: julian_date_def next_date_def civil_def month_length_def split: if_splits)
  then show g: "julian_date (y', m', d')" using n(1) by (simp add: julian_date_def)
  note t = julian_to_day [OF assms(1) YM(1)] julian_to_day [OF g YM(2)]
  from n(4) show "JulianToSdn y' m' d' = JulianToSdn y m d + 1"
  proof (elim disjE conjE)
    assume h: "Y' = Y + 1" "astronomical y = Y - 4799" "day_of_year M' d' = 1"
      "day_of_year M d = (if julian_leap y then 366 else 365)"
    have "(Y - 4799) mod 4 = (Y + 1) mod 4" using mod_mult_self2 [of "Y - 4799" 4 1200] by (simp add: add.commute)
    then have "julian_leap y \<longleftrightarrow> (Y + 1) mod 4 = 0" unfolding julian_leap_def h(2) by simp
    then show ?thesis using t h julian_year [of Y] by auto
  qed (use t in simp)
qed

interpretation julian: day_count SdnToJulian "\<lambda>(y, m, d). JulianToSdn y m d" "next_date julian_leap" julian_date
  "(- 4713, 1, 2)" 1 536838971
proof unfold_locales
  show "julian_date (- 4713, 1, 2)" by (simp add: julian_date_def civil_def month_length_def)
  show "(case (- 4713, 1, 2) of (y, m, d) \<Rightarrow> JulianToSdn y m d) = 1" by (simp, code_simp)
  fix x :: date
  assume v: "julian_date x"
  obtain y m d where x: "x = (y, m, d)" by (cases x) auto
  show "SdnToJulian (case x of (y, m, d) \<Rightarrow> JulianToSdn y m d) = x" using julian_back v x by simp
  assume l: "(case x of (y, m, d) \<Rightarrow> JulianToSdn y m d) \<noteq> 536838971"
  have "JulianToSdn 1465072 12 31 = 536838971" by code_simp
  then have "(y, m, d) \<noteq> (1465072, 12, 31)" using l x by auto
  then show "julian_date (next_date julian_leap x) \<and>
      (case next_date julian_leap x of (y, m, d) \<Rightarrow> JulianToSdn y m d) = (case x of (y, m, d) \<Rightarrow> JulianToSdn y m d) + 1"
    using julian_next [of y m d] v x by (cases "next_date julian_leap x") auto
qed simp

subsection \<open>The French republican calendar\<close>

text \<open>Twelve months of 30 days and five days, six in the years 3, 7 and 11.\<close>

definition french_length :: "int \<Rightarrow> int \<Rightarrow> int" where
  "french_length y m = (if m < 13 then 30 else if y mod 4 = 3 then 6 else 5)"

definition next_french :: "date \<Rightarrow> date" where
  "next_french =
     (\<lambda>(y, m, d). if d < french_length y m then (y, m, d + 1) else if m < 13 then (y, m + 1, 1) else (y + 1, 1, 1))"

definition french_date :: "date \<Rightarrow> bool" where
  "french_date = (\<lambda>(y, m, d). 1 \<le> y \<and> y \<le> 14 \<and> 1 \<le> m \<and> m \<le> 13 \<and> 1 \<le> d \<and> d \<le> french_length y m)"

lemma french_to_day:
  "french_date (y, m, d) \<Longrightarrow> FrenchToSdn y m d = y * 1461 div 4 + ((m - 1) * 30 + d) + 2375474"
  by (auto simp: french_date_def FrenchToSdn_def french_length_def sdiv_pos split: if_splits)

lemma french_back:
  assumes "french_date (y, m, d)"
  shows "SdnToFrench (FrenchToSdn y m d) = (y, m, d)"
proof -
  define n where "n = (m - 1) * 30 + d"
  have f: "1 \<le> y" "y \<le> 14" "1 \<le> m" "m \<le> 13" "1 \<le> d" "d \<le> french_length y m" using assms by (simp_all add: french_date_def)
  have "n \<le> 366 \<and> (n = 366 \<longrightarrow> y mod 4 = 3) \<and> d \<le> 30"
  proof (cases "m < 13")
    case True
    then have "n \<le> 360" "d \<le> 30" using f(3-6) unfolding n_def by (simp_all add: french_length_def)
    then show ?thesis by simp
  next
    case False
    then have "m = 13" using f(4) by simp
    then show ?thesis using f(5,6) by (simp add: n_def french_length_def split: if_splits)
  qed
  moreover have "1 \<le> n" using f(3,5) unfolding n_def by simp
  ultimately have n: "1 \<le> n" "n - 1 = (m - 1) * 30 + (d - 1)" "0 \<le> d - 1" "d - 1 < 30" "n \<le> 366 \<and> (n = 366 \<longrightarrow> y mod 4 = 3)"
    using f(5) by (simp_all add: n_def)
  have n': "n \<le> 366" "n = 366 \<Longrightarrow> y mod 4 = 3" "y = 14 \<Longrightarrow> n \<le> 365" using n(5) by auto
  have yr: "((y * 1461 div 4 + n) * 4 - 1) div 1461 = y" "((y * 1461 div 4 + n) * 4 - 1) mod 1461 div 4 + 1 = n"
    by (rule four_years [OF n(1) n'(1)], erule n'(2))+
  have sdn: "FrenchToSdn y m d = y * 1461 div 4 + n + 2375474" using french_to_day [OF assms] by (simp add: n_def)
  have t: "(FrenchToSdn y m d - 2375474) * 4 - 1 = (y * 1461 div 4 + n) * 4 - 1" using sdn by simp
  have "1 * 1461 div 4 \<le> y * 1461 div 4" "y * 1461 div 4 \<le> 14 * 1461 div 4"
    using f(1,2) by (intro zdiv_mono1 mult_right_mono; simp)+
  then have k: "365 \<le> y * 1461 div 4" "y * 1461 div 4 \<le> 5113" by simp_all
  moreover have "y * 1461 div 4 \<le> 13 * 1461 div 4" if "y \<noteq> 14" using f(2) that by (intro zdiv_mono1 mult_right_mono) simp_all
  ultimately have "\<not> (FrenchToSdn y m d < 2375840 \<or> FrenchToSdn y m d > 2380952)" using n(1) n'(1,3) sdn by (cases "y = 14") simp_all
  moreover have p: "0 \<le> (y * 1461 div 4 + n) * 4 - 1" "0 \<le> ((y * 1461 div 4 + n) * 4 - 1) mod 1461" using k(1) n(1) by simp_all
  have q: "((y * 1461 div 4 + n) * 4 - 1) sdiv 1461 = y" "((y * 1461 div 4 + n) * 4 - 1) smod 1461 sdiv 4 = n - 1"
    using p yr by (simp_all only: sdiv_pos zero_less_numeral)
  have "int_of_long y = y" "int_of_long (n - 1) = n - 1" using f(1,2) n(1) n'(1) by (simp_all add: int_exact)
  moreover have "(n - 1) div 30 = m - 1 \<and> (n - 1) mod 30 = d - 1" using n(2-4) by (intro quotient) simp_all
  moreover have "(n - 1) sdiv 30 = (n - 1) div 30" "(n - 1) smod 30 = (n - 1) mod 30" using n(1) by (simp_all add: sdiv_pos)
  ultimately show ?thesis unfolding SdnToFrench_def t Let_def q by simp
qed

lemma french_next:
  assumes "french_date (y, m, d)" "(y, m, d) \<noteq> (14, 13, 5)" "next_french (y, m, d) = (y', m', d')"
  shows "french_date (y', m', d')" "FrenchToSdn y' m' d' = FrenchToSdn y m d + 1"
proof -
  show f: "french_date (y', m', d')" using assms by (auto simp: french_date_def next_french_def french_length_def split: if_splits)
  have "(y + 1) * 1461 div 4 = y * 1461 div 4 + (if y mod 4 = 3 then 366 else 365)"
  proof -
    have "(y + 1) mod 4 = 0 \<longleftrightarrow> y mod 4 = 3" by presburger
    then show ?thesis using quarter [of y 365] by simp
  qed
  then show "FrenchToSdn y' m' d' = FrenchToSdn y m d + 1"
    using assms french_to_day [OF assms(1)] french_to_day [OF f]
    by (auto simp: french_date_def next_french_def french_length_def split: if_splits)
qed

interpretation french: day_count SdnToFrench "\<lambda>(y, m, d). FrenchToSdn y m d" next_french french_date "(1, 1, 1)" 2375840 2380952
proof unfold_locales
  show "french_date (1, 1, 1)" by (simp add: french_date_def french_length_def)
  show "(case (1, 1, 1) of (y, m, d) \<Rightarrow> FrenchToSdn y m d) = 2375840" by (simp, code_simp)
  fix x :: date
  assume v: "french_date x"
  obtain y m d where x: "x = (y, m, d)" by (cases x) auto
  show "SdnToFrench (case x of (y, m, d) \<Rightarrow> FrenchToSdn y m d) = x" using french_back v x by simp
  assume l: "(case x of (y, m, d) \<Rightarrow> FrenchToSdn y m d) \<noteq> 2380952"
  have "FrenchToSdn 14 13 5 = 2380952" by code_simp
  then have "(y, m, d) \<noteq> (14, 13, 5)" using l x by auto
  then show "french_date (next_french x) \<and>
      (case next_french x of (y, m, d) \<Rightarrow> FrenchToSdn y m d) = (case x of (y, m, d) \<Rightarrow> FrenchToSdn y m d) + 1"
    using french_next [of y m d] v x by (cases "next_french x") auto
qed simp

subsection \<open>Days of the week\<close>

lemma non_negative: "0 < n \<Longrightarrow> non_negative n (x smod n) = x mod n"
proof (cases "0 \<le> x")
  case True
  then show "0 < n \<Longrightarrow> non_negative n (x smod n) = x mod n"
    using pos_mod_sign [of n x] by (simp add: non_negative_def sdiv_pos not_less)
next
  case False
  assume n: "0 < n"
  have "x smod n = - ((- x) mod n)" using False n
    by (simp add: signed_divide_int_def signed_modulo_int_def minus_div_mult_eq_mod [symmetric])
  moreover have "x mod n = (if (- x) mod n = 0 then 0 else n - (- x) mod n)" using zmod_zminus1_eq_if [of "- x" n] by simp
  moreover have "0 \<le> (- x) mod n" "(- x) mod n < n" using n by simp_all
  ultimately show ?thesis by (auto simp: non_negative_def)
qed

lemma day_of_week: "DayOfWeek n = (n + 1) mod 7"
proof -
  have "- 7 < (n + 1) smod 7 \<and> (n + 1) smod 7 < 7"
  proof (cases "0 \<le> n + 1")
    case False
    then have "(n + 1) smod 7 = - ((- (n + 1)) mod 7)"
      by (simp add: signed_divide_int_def signed_modulo_int_def minus_div_mult_eq_mod [symmetric])
    then show ?thesis using pos_mod_bound [of 7 "- (n + 1)"] pos_mod_sign [of 7 "- (n + 1)"] by linarith
  qed (simp add: sdiv_pos)
  then have "int_of_long ((n + 1) smod 7) = (n + 1) smod 7" by (intro int_exact) simp_all
  then show ?thesis using non_negative [of 7 "n + 1"] by (simp add: DayOfWeek_def non_negative_def Let_def not_le split: if_splits)
qed

end
