(* ===== verification/Jewish_Years.thy ===== *)
theory Jewish_Years
  imports Jewish Calendar_Props
begin

text \<open>
  The Jewish calendar by its rules: new moons by exact arithmetic, the first days of the years, the lengths
  of the months; and that the conversions of jewish.c, which avoid most of it, count its days.
\<close>

subsection \<open>The arithmetic on 16-bit parts\<close>

lemma uint_parts:
  fixes h l :: ulong
  assumes "uint l < 65536" "uint h < 140737488355328"
  shows "uint (push_bit 16 h OR l) = uint h * 65536 + uint l"
proof -
  have "\<not> bit l n" if "16 \<le> n" for n
  proof -
    have "l = take_bit 16 l" using assms(1) by (simp add: word_uint_eq_iff take_bit_eq_mod uint_mod_distrib)
    then show ?thesis using that bit_take_bit_iff [of 16 l n] by auto
  qed
  then have "push_bit 16 h OR l = push_bit 16 h + l"
    by (intro disjunctive_add [symmetric]) (auto simp: bit_push_bit_iff not_le)
  moreover have p: "uint (push_bit 16 h) = uint h * 65536"
    using assms(2) by (simp add: push_bit_eq_mult uint_word_ariths)
  ultimately show ?thesis using assms by (simp add: uint_plus_if_size word_size)
qed

lemma uint_low: "uint (w AND 0xFFFF :: ulong) = uint w mod 65536"
proof -
  have "w AND 0xFFFF = take_bit 16 w" by (simp add: take_bit_eq_mask mask_eq_exp_minus_1)
  then show ?thesis by (simp add: take_bit_eq_mod uint_mod_distrib)
qed

lemma uint_high: "uint (drop_bit 16 w :: ulong) = uint w div 65536"
  by (simp add: drop_bit_eq_div uint_div_distrib)

lemma uint_const: "0 \<le> i \<Longrightarrow> i < 18446744073709551616 \<Longrightarrow> uint (word_of_int i :: ulong) = i"
  by (simp add: unsigned_of_int take_bit_eq_mod)

lemma uint_remainder: "uint (w - w div 25920 * 25920 :: ulong) = uint w mod 25920"
proof -
  have "w - w div 25920 * 25920 = w mod 25920" by (simp add: minus_div_mult_eq_mod)
  then show ?thesis by (simp add: uint_mod_distrib)
qed

lemma sint_small: "uint w < 9223372036854775808 \<Longrightarrow> sint (w :: ulong) = uint w"
proof -
  assume "uint w < 9223372036854775808"
  moreover have "- 9223372036854775808 \<le> uint w" by (rule order_trans [of _ 0]) simp_all
  ultimately show "sint w = uint w" by (simp add: sint_uint signed_take_bit_int_eq_self_iff)
qed

lemma uint_sum: "uint v + uint w < 18446744073709551616 \<Longrightarrow> uint (v + w :: ulong) = uint v + uint w"
  by (simp add: uint_plus_if_size word_size)

subsection \<open>New moons\<close>

text \<open>The new moon that starts a year \<open>m\<close> months after the first one.\<close>

definition molad :: "int \<Rightarrow> int \<times> int" where
  "molad m = (let h = NEW_MOON_OF_CREATION + m * HALAKIM_PER_LUNAR_CYCLE in (h div HALAKIM_PER_DAY, h mod HALAKIM_PER_DAY))"

lemmas halakim_defs = HALAKIM_PER_DAY_def HALAKIM_PER_LUNAR_CYCLE_def HALAKIM_PER_METONIC_CYCLE_def NEW_MOON_OF_CREATION_def

lemma cycle_molad:
  assumes "0 \<le> c" "c < 46714"
  shows "MoladOfMetonicCycle c = molad (235 * c)"
proof -
  define r1 :: ulong where "r1 = word_of_int 31524 + word_of_int (c * 45971)"
  define r2 :: ulong where "r2 = drop_bit 16 r1 + word_of_int (c * 2744)"
  define s1 :: ulong where "s1 = push_bit 16 (r2 - r2 div 25920 * 25920) OR (r1 AND 0xFFFF)"
  have m: "int_of_long (c * (HALAKIM_PER_METONIC_CYCLE AND 65535)) = c * 45971"
    "int_of_long (c * (drop_bit 16 HALAKIM_PER_METONIC_CYCLE AND 65535)) = c * 2744"
    using assms by (simp_all add: halakim_defs int_exact drop_bit_eq_div)
  have M: "MoladOfMetonicCycle c = (sint (push_bit 16 (r2 div 25920) OR s1 div 25920), sint (s1 - s1 div 25920 * 25920))"
    unfolding MoladOfMetonicCycle_def Let_def NEW_MOON_OF_CREATION_def m r1_def [symmetric] r2_def [symmetric] s1_def [symmetric] ..
  define a b where "a = 31524 + c * 45971" and "b = a div 65536 + c * 2744"
  have ab: "0 \<le> a" "a < 2147483648" "0 \<le> b" "b < 2147483648" using assms by (simp_all add: a_def b_def)
  have k: "uint (word_of_int (c * 45971) :: ulong) = c * 45971" "uint (word_of_int (c * 2744) :: ulong) = c * 2744"
    by (rule uint_const; use assms in simp)+
  note k = k [simplified]
  have 1: "uint r1 = a"
    using assms unfolding r1_def a_def by (subst uint_sum) (simp_all add: k uint_const)
  have 2: "uint r2 = b"
    using ab assms unfolding r2_def b_def by (subst uint_sum) (simp_all add: k uint_high 1)
  have 3: "uint s1 = b mod 25920 * 65536 + a mod 65536"
    unfolding s1_def by (subst uint_parts) (simp_all add: uint_low uint_remainder 1 2)
  define t where "t = b mod 25920 * 65536 + a mod 65536"
  have t: "0 \<le> t" "t div 25920 < 65536" by (simp_all add: t_def)
  have q: "uint (r2 div 25920) = b div 25920" "uint (s1 div 25920) = t div 25920" by (simp_all add: uint_div_distrib 2 3 t_def)
  have d: "uint (push_bit 16 (r2 div 25920) OR s1 div 25920) = b div 25920 * 65536 + t div 25920"
    using uint_parts [of "s1 div 25920" "r2 div 25920"] t ab(4) by (simp add: q)
  have "b div 25920 * 65536 + t div 25920 < 9223372036854775808" using t ab by simp
  then have "MoladOfMetonicCycle c = (b div 25920 * 65536 + t div 25920, t mod 25920)"
    unfolding M by (simp add: sint_small d uint_remainder 3 t_def)
  moreover have "NEW_MOON_OF_CREATION + 235 * c * HALAKIM_PER_LUNAR_CYCLE = t + 25920 * (b div 25920 * 65536)"
    using mult_div_mod_eq [of 25920 b] mult_div_mod_eq [of 65536 a] a_def b_def
    unfolding t_def halakim_defs by linarith
  moreover have "(t + 25920 * (b div 25920 * 65536)) div 25920 = b div 25920 * 65536 + t div 25920"
    "(t + 25920 * (b div 25920 * 65536)) mod 25920 = t mod 25920"
    by (simp_all only: div_mult_self2 mod_mult_self2 zero_neq_numeral)
  ultimately show ?thesis by (simp only: molad_def HALAKIM_PER_DAY_def Let_def)
qed

lemma add_molad: "0 \<le> m \<Longrightarrow> 0 \<le> k \<Longrightarrow> add_halakim (HALAKIM_PER_LUNAR_CYCLE * k) (molad m) = molad (m + k)"
proof -
  assume "0 \<le> m" "0 \<le> k"
  define h j where "h = NEW_MOON_OF_CREATION + m * HALAKIM_PER_LUNAR_CYCLE" and "j = HALAKIM_PER_LUNAR_CYCLE * k"
  have "0 \<le> j" using \<open>0 \<le> k\<close> by (simp add: j_def HALAKIM_PER_LUNAR_CYCLE_def)
  then have "0 \<le> h mod 25920 + j" by simp
  moreover have "(h + j) div 25920 = h div 25920 + (h mod 25920 + j) div 25920"
    using div_mult_self1 [of 25920 "h mod 25920 + j" "h div 25920"] by (simp add: add.assoc)
  moreover have "(h + j) mod 25920 = (h mod 25920 + j) mod 25920" by (simp add: mod_simps)
  moreover have "NEW_MOON_OF_CREATION + (m + k) * HALAKIM_PER_LUNAR_CYCLE = h + j" by (simp add: h_def j_def algebra_simps)
  ultimately show ?thesis
    by (simp add: molad_def add_halakim_def Let_def HALAKIM_PER_DAY_def sdiv_pos flip: h_def j_def)
qed

subsection \<open>The first days of the years\<close>

text \<open>Seven of 19 years are leap years, with 13 months.\<close>

definition year_index :: "int \<Rightarrow> nat" where
  "year_index y = nat ((y - 1) mod 19)"

definition month_count :: "int \<Rightarrow> int" where
  "month_count y = 235 * ((y - 1) div 19) + yearOffset ! year_index y"

definition jewish_leap :: "int \<Rightarrow> bool" where
  "jewish_leap y \<longleftrightarrow> monthsPerYear ! year_index y = 13"

definition new_moon :: "int \<Rightarrow> int \<times> int" where
  "new_moon y = molad (month_count y)"

definition new_year :: "int \<Rightarrow> int" where
  "new_year y = Tishri1 (year_index y) (fst (new_moon y)) (snd (new_moon y))"

definition leap_index :: "nat \<Rightarrow> bool" where
  "leap_index r \<longleftrightarrow> r \<in> {2, 5, 7, 10, 13, 16, 18}"

definition after_leap :: "nat \<Rightarrow> bool" where
  "after_leap r \<longleftrightarrow> r \<in> {3, 6, 8, 11, 14, 17, 0}"

lemma indices: "(\<And>r. r \<in> set [0..<19] \<Longrightarrow> P r) \<Longrightarrow> P (year_index y)"
proof -
  have "(y - 1) mod 19 < 19" "0 \<le> (y - 1) mod 19" by simp_all
  then have "year_index y < 19" by (simp add: year_index_def nat_less_iff)
  then show "(\<And>r. r \<in> set [0..<19] \<Longrightarrow> P r) \<Longrightarrow> P (year_index y)" by simp
qed

lemma index_table:
  "\<forall>r\<in>set [0..<19]. monthsPerYear ! r = (if leap_index r then 13 else 12) \<and>
     yearOffset ! r + monthsPerYear ! r = (if r = 18 then 235 else yearOffset ! (r + 1)) \<and>
     0 \<le> yearOffset ! r \<and> yearOffset ! r \<le> 222 \<and>
     (after_leap ((r + 1) mod 19) \<longleftrightarrow> leap_index r) \<and> (leap_index r \<longrightarrow> \<not> leap_index ((r + 1) mod 19)) \<and>
     (after_leap r \<longrightarrow> \<not> leap_index r)"
  by code_simp

lemma index_facts:
  "jewish_leap y \<longleftrightarrow> leap_index (year_index y)" "monthsPerYear ! year_index y = (if jewish_leap y then 13 else 12)"
  "yearOffset ! year_index y + monthsPerYear ! year_index y = (if year_index y = 18 then 235 else yearOffset ! (year_index y + 1))"
  "0 \<le> yearOffset ! year_index y" "yearOffset ! year_index y \<le> 222"
  "after_leap ((year_index y + 1) mod 19) \<longleftrightarrow> jewish_leap y"
  "jewish_leap y \<Longrightarrow> \<not> leap_index ((year_index y + 1) mod 19)" "after_leap (year_index y) \<Longrightarrow> \<not> jewish_leap y"
proof -
  have "year_index y \<in> set [0..<19]" by (rule indices [where P = "\<lambda>r. r \<in> set [0..<19]"])
  note t = bspec [OF index_table this]
  then show l: "jewish_leap y \<longleftrightarrow> leap_index (year_index y)" by (simp add: jewish_leap_def)
  show "monthsPerYear ! year_index y = (if jewish_leap y then 13 else 12)"
    "yearOffset ! year_index y + monthsPerYear ! year_index y = (if year_index y = 18 then 235 else yearOffset ! (year_index y + 1))"
    "0 \<le> yearOffset ! year_index y" "yearOffset ! year_index y \<le> 222"
    "after_leap ((year_index y + 1) mod 19) \<longleftrightarrow> jewish_leap y"
    "jewish_leap y \<Longrightarrow> \<not> leap_index ((year_index y + 1) mod 19)" "after_leap (year_index y) \<Longrightarrow> \<not> jewish_leap y"
    using t unfolding l by blast+
qed

lemma next_index:
  "year_index (y + 1) = (year_index y + 1) mod 19 \<and> y div 19 = (y - 1) div 19 + (if year_index y = 18 then 1 else 0)"
proof -
  define r where "r = (y - 1) mod 19"
  have r: "0 \<le> r" "r < 19" "y = (y - 1) div 19 * 19 + r + 1" "year_index y = nat r" by (simp_all add: r_def year_index_def)
  show ?thesis
  proof (cases "r = 18")
    case True
    then have "y div 19 = (y - 1) div 19 + 1 \<and> y mod 19 = 0" using r(3) by (intro quotient) simp_all
    then show ?thesis using True r(4) by (simp add: year_index_def)
  next
    case False
    then have "y div 19 = (y - 1) div 19 \<and> y mod 19 = r + 1" using r(1-3) by (intro quotient) simp_all
    moreover have "nat (r + 1) = nat r + 1" "nat r \<noteq> 18" "nat r < 18" using False r(1,2) by auto
    ultimately show ?thesis using r(4) by (simp add: year_index_def)
  qed
qed

lemma next_months: "month_count (y + 1) = month_count y + (if jewish_leap y then 13 else 12)"
proof (cases "year_index y = 18")
  case True
  then have "year_index (y + 1) = 0" by (simp add: next_index)
  then show ?thesis using index_facts(2,3) [of y] next_index [of y] True by (simp add: month_count_def yearOffset_def)
next
  case False
  have "year_index y < 19" by (rule indices) simp
  then have "year_index (y + 1) = year_index y + 1" using False by (simp add: next_index)
  then show ?thesis using index_facts(2,3) [of y] next_index [of y] False by (simp add: month_count_def)
qed

lemma month_count_nonneg: "1 \<le> y \<Longrightarrow> 0 \<le> month_count y"
  using index_facts(4) [of y] by (simp add: month_count_def)

subsection \<open>The lengths of the years\<close>

definition delay :: "bool \<Rightarrow> bool \<Rightarrow> int \<Rightarrow> int \<Rightarrow> int" where
  "delay leap after w h =
     (if h \<ge> 19440 \<or> \<not> leap \<and> w = 2 \<and> h \<ge> 9924 \<or> after \<and> w = 1 \<and> h \<ge> 16789
      then if w = 2 \<or> w = 4 \<or> w = 6 then 2 else 1
      else if w = 3 \<or> w = 5 \<or> w = 0 then 1 else 0)"

lemma delay_range: "0 \<le> delay l a w h" "delay l a w h \<le> 2"
  by (simp_all add: delay_def)

lemma tishri1:
  assumes "0 \<le> d"
  shows "Tishri1 r d h = d + delay (leap_index r) (after_leap r) (d mod 7) h"
proof -
  have w: "d mod 7 < 7" "0 \<le> d mod 7" by simp_all
  have "int_of_long (d smod 7) = d mod 7" using assms w by (simp add: sdiv_pos int_exact)
  then show ?thesis using w unfolding Tishri1_def Let_def delay_def leap_index_def [symmetric] after_leap_def [symmetric]
    by (auto simp del: pos_mod_bound pos_mod_sign)
qed

lemma weekdays: "(w :: int) mod 7 = 0 \<or> w mod 7 = 1 \<or> w mod 7 = 2 \<or> w mod 7 = 3 \<or> w mod 7 = 4 \<or> w mod 7 = 5 \<or> w mod 7 = 6"
proof -
  have "w mod 7 < 7" "0 \<le> w mod 7" by simp_all
  then show ?thesis by linarith
qed

lemma common_delay:
  assumes "c = 0 \<and> h + 9516 < 25920 \<or> c = 1 \<and> h + 9516 \<ge> 25920" "0 \<le> h" "h < 25920"
  shows "- 1 \<le> c + delay l False ((w + (4 + c)) mod 7) (h + 9516 - 25920 * c) - delay False a (w mod 7) h"
    "c + delay l False ((w + (4 + c)) mod 7) (h + 9516 - 25920 * c) - delay False a (w mod 7) h \<le> 1"
proof -
  have m: "(w + (4 + c)) mod 7 = (w mod 7 + (4 + c)) mod 7" by (simp add: mod_simps)
  show "- 1 \<le> c + delay l False ((w + (4 + c)) mod 7) (h + 9516 - 25920 * c) - delay False a (w mod 7) h"
    using assms weekdays [of w] unfolding m by (elim disjE conjE) (simp_all add: delay_def)
  show "c + delay l False ((w + (4 + c)) mod 7) (h + 9516 - 25920 * c) - delay False a (w mod 7) h \<le> 1"
    using assms weekdays [of w] unfolding m by (elim disjE conjE) (simp_all add: delay_def)
qed

lemma leap_delay:
  assumes "c = 0 \<and> h + 23269 < 25920 \<or> c = 1 \<and> h + 23269 \<ge> 25920" "0 \<le> h" "h < 25920"
  shows "0 \<le> c + delay False True ((w + (5 + c)) mod 7) (h + 23269 - 25920 * c) - delay True False (w mod 7) h"
    "c + delay False True ((w + (5 + c)) mod 7) (h + 23269 - 25920 * c) - delay True False (w mod 7) h \<le> 2"
proof -
  have m: "(w + (5 + c)) mod 7 = (w mod 7 + (5 + c)) mod 7" by (simp add: mod_simps)
  show "0 \<le> c + delay False True ((w + (5 + c)) mod 7) (h + 23269 - 25920 * c) - delay True False (w mod 7) h"
    using assms weekdays [of w] unfolding m by (elim disjE conjE) (simp_all add: delay_def)
  show "c + delay False True ((w + (5 + c)) mod 7) (h + 23269 - 25920 * c) - delay True False (w mod 7) h \<le> 2"
    using assms weekdays [of w] unfolding m by (elim disjE conjE) (simp_all add: delay_def)
qed

text \<open>From one new moon to that of the next year.\<close>

lemma molad_nonneg: "0 \<le> m \<Longrightarrow> 1 \<le> fst (molad m)"
proof -
  assume "0 \<le> m"
  then have "25920 \<le> NEW_MOON_OF_CREATION + m * HALAKIM_PER_LUNAR_CYCLE" by (simp add: halakim_defs)
  then show ?thesis using zdiv_mono1 [of 25920 "NEW_MOON_OF_CREATION + m * HALAKIM_PER_LUNAR_CYCLE" 25920]
    by (simp add: molad_def Let_def HALAKIM_PER_DAY_def)
qed

lemma molad_time: "0 \<le> snd (molad m)" "snd (molad m) < 25920"
  by (simp_all add: molad_def Let_def HALAKIM_PER_DAY_def)

lemma later_molad:
  assumes "0 \<le> m" "0 \<le> k" "k * 765433 = d * 25920 + h" "0 \<le> h" "h < 25920"
  obtains c where "c = 0 \<and> snd (molad m) + h < 25920 \<or> c = 1 \<and> snd (molad m) + h \<ge> 25920"
    "molad (m + k) = (fst (molad m) + d + c, snd (molad m) + h - 25920 * c)"
proof -
  let ?s = "snd (molad m)"
  define c :: int where "c = (if ?s + h < 25920 then 0 else 1)"
  have r: "0 \<le> ?s + h - 25920 * c" "?s + h - 25920 * c < 25920" using molad_time [of m] assms(4,5) by (simp_all add: c_def)
  have "?s + k * 765433 = (d + c) * 25920 + (?s + h - 25920 * c)" using assms(3) by simp
  then have "(?s + k * 765433) div 25920 = d + c \<and> (?s + k * 765433) mod 25920 = ?s + h - 25920 * c"
    using r by (rule quotient)
  moreover have "0 \<le> ?s + k * 765433" using molad_time(1) [of m] assms(2) by simp
  ultimately have "molad (m + k) = (fst (molad m) + d + c, ?s + h - 25920 * c)"
    using add_molad [OF assms(1,2)] unfolding add_halakim_def halakim_defs
    by (cases "molad m") (simp add: Let_def sdiv_pos mult.commute eq_commute [of _ "molad _"] add.assoc)
  then show thesis by (rule that [rotated]) (simp add: c_def)
qed

lemma year_length:
  assumes "1 \<le> y"
  shows "if jewish_leap y then new_year (y + 1) - new_year y \<in> {383, 384, 385} else new_year (y + 1) - new_year y \<in> {353, 354, 355}"
    "fst (new_moon (y + 1)) - fst (new_moon y) \<ge> 354" "fst (new_moon (y + 1)) - fst (new_moon y) \<le> 384"
proof -
  define d h where "d = fst (new_moon y)" and "h = snd (new_moon y)"
  have m: "0 \<le> month_count y" by (rule month_count_nonneg [OF assms])
  have d: "1 \<le> d" "0 \<le> h" "h < 25920" using molad_nonneg [OF m] molad_time by (simp_all add: d_def h_def new_moon_def)
  have T: "new_year y = d + delay (jewish_leap y) (after_leap (year_index y)) (d mod 7) h"
    using d tishri1 by (simp add: new_year_def index_facts(1) flip: d_def h_def)
  have n: "leap_index (year_index (y + 1)) \<longleftrightarrow> jewish_leap (y + 1)" "after_leap (year_index (y + 1)) \<longleftrightarrow> jewish_leap y"
    using index_facts(1) [of "y + 1"] index_facts(6) [of y] next_index [of y] by simp_all
  show "if jewish_leap y then new_year (y + 1) - new_year y \<in> {383, 384, 385} else new_year (y + 1) - new_year y \<in> {353, 354, 355}"
    "fst (new_moon (y + 1)) - fst (new_moon y) \<ge> 354" "fst (new_moon (y + 1)) - fst (new_moon y) \<le> 384"
  proof (atomize (full), cases "jewish_leap y")
    case True
    then have f: "\<not> jewish_leap (y + 1)" "\<not> after_leap (year_index y)"
      using index_facts(1) [of "y + 1"] index_facts(7,8) [of y] next_index [of y] by auto
    obtain c where c: "c = 0 \<and> h + 23269 < 25920 \<or> c = 1 \<and> h + 23269 \<ge> 25920" "new_moon (y + 1) = (d + 383 + c, h + 23269 - 25920 * c)"
      using later_molad [OF m, of 13 383 23269] next_months [of y] True by (auto simp: d_def h_def new_moon_def)
    have "(d + 383 + c) mod 7 = (d + (5 + c)) mod 7" using mod_mult_self2 [of "d + (5 + c)" 7 54] by (simp add: algebra_simps)
    moreover have "0 \<le> d + 383 + c" using c(1) d(1) by auto
    ultimately have "new_year (y + 1) = d + 383 + c + delay False True ((d + (5 + c)) mod 7) (h + 23269 - 25920 * c)"
      using n f(1) True by (simp add: new_year_def c(2) tishri1)
    then have "383 \<le> new_year (y + 1) - new_year y" "new_year (y + 1) - new_year y \<le> 385"
      using leap_delay [OF c(1) d(2,3), of d] T True f(2) by simp_all
    moreover have "fst (new_moon (y + 1)) - fst (new_moon y) = 383 + c" using c(2) by (simp add: d_def)
    ultimately show "(if jewish_leap y then new_year (y + 1) - new_year y \<in> {383, 384, 385} else new_year (y + 1) - new_year y \<in> {353, 354, 355})
      \<and> fst (new_moon (y + 1)) - fst (new_moon y) \<ge> 354 \<and> fst (new_moon (y + 1)) - fst (new_moon y) \<le> 384"
      using True c(1) by auto
  next
    case False
    obtain c where c: "c = 0 \<and> h + 9516 < 25920 \<or> c = 1 \<and> h + 9516 \<ge> 25920" "new_moon (y + 1) = (d + 354 + c, h + 9516 - 25920 * c)"
      using later_molad [OF m, of 12 354 9516] next_months [of y] False by (auto simp: d_def h_def new_moon_def)
    have "(d + 354 + c) mod 7 = (d + (4 + c)) mod 7" using mod_mult_self2 [of "d + (4 + c)" 7 50] by (simp add: algebra_simps)
    moreover have "0 \<le> d + 354 + c" using c(1) d(1) by auto
    ultimately have "new_year (y + 1) = d + 354 + c + delay (jewish_leap (y + 1)) False ((d + (4 + c)) mod 7) (h + 9516 - 25920 * c)"
      using n False by (simp add: new_year_def c(2) tishri1)
    then have "353 \<le> new_year (y + 1) - new_year y" "new_year (y + 1) - new_year y \<le> 355"
      using common_delay [OF c(1) d(2,3), of "jewish_leap (y + 1)" d "after_leap (year_index y)"] T False by simp_all
    moreover have "fst (new_moon (y + 1)) - fst (new_moon y) = 354 + c" using c(2) by (simp add: d_def)
    ultimately show "(if jewish_leap y then new_year (y + 1) - new_year y \<in> {383, 384, 385} else new_year (y + 1) - new_year y \<in> {353, 354, 355})
      \<and> fst (new_moon (y + 1)) - fst (new_moon y) \<ge> 354 \<and> fst (new_moon (y + 1)) - fst (new_moon y) \<le> 384"
      using False c(1) by auto
  qed
qed

end
