(* ===== verification/Jewish_Search.thy ===== *)
theory Jewish_Search
  imports Jewish_Years
begin

text \<open>The new year that \<open>FindTishriMolad\<close> finds: the estimate of the cycle is never over, the loops end.\<close>

subsection \<open>The search for a new year\<close>

lemma cycle_days:
  assumes "0 \<le> c"
  shows "6939 * c \<le> fst (molad (235 * c))" "fst (molad (235 * c)) \<le> 6940 * c + 1"
proof -
  have "25920 * ((31524 + c * 179876755) div 25920) + (31524 + c * 179876755) mod 25920 = 31524 + c * 179876755"
    by (rule mult_div_mod_eq)
  moreover have "fst (molad (235 * c)) = (31524 + c * 179876755) div 25920" by (simp add: molad_def Let_def halakim_defs)
  moreover have "0 \<le> (31524 + c * 179876755) mod 25920" "(31524 + c * 179876755) mod 25920 < 25920" by simp_all
  ultimately show "6939 * c \<le> fst (molad (235 * c))" "fst (molad (235 * c)) \<le> 6940 * c + 1" using assms by linarith+
qed

lemma next_cycle:
  assumes "0 \<le> c"
  shows "add_halakim HALAKIM_PER_METONIC_CYCLE (molad (235 * c)) = molad (235 * (c + 1))"
    "fst (molad (235 * c)) + 6939 \<le> fst (molad (235 * (c + 1)))" "fst (molad (235 * (c + 1))) \<le> fst (molad (235 * c)) + 6940"
proof -
  have e: "235 * (c + 1) = 235 * c + 235" by simp
  show "add_halakim HALAKIM_PER_METONIC_CYCLE (molad (235 * c)) = molad (235 * (c + 1))"
    using add_molad [of "235 * c" 235] assms unfolding e by (simp add: halakim_defs)
  obtain d where d: "d = 0 \<or> d = 1" "molad (235 * (c + 1)) = (fst (molad (235 * c)) + 6939 + d, snd (molad (235 * c)) + 17875 - 25920 * d)"
    unfolding e using later_molad [of "235 * c" 235 6939 17875] assms by auto
  show "fst (molad (235 * c)) + 6939 \<le> fst (molad (235 * (c + 1)))" "fst (molad (235 * (c + 1))) \<le> fst (molad (235 * c)) + 6940"
    using d(1) unfolding d(2) by auto
qed

lemma find_cycle_returns:
  assumes "0 \<le> c" "fst (molad (235 * c)) \<le> i + 311" "i \<le> 324000000"
  shows "\<exists>c'. find_cycle i c (molad (235 * c)) = Some (c', molad (235 * c')) \<and> 0 \<le> c' \<and>
    i - 6630 \<le> fst (molad (235 * c')) \<and> fst (molad (235 * c')) \<le> i + 311"
  using assms
proof (induction "nat (i - fst (molad (235 * c)))" arbitrary: c rule: less_induct)
  case less
  show ?case
  proof (cases "fst (molad (235 * c)) < i - 6940 + 310")
    case True
    have "6939 * c < 324000000" using cycle_days(1) [OF less.prems(1)] less.prems(3) True by linarith
    then have "int_of_long (c + 1) = c + 1" using less.prems(1) by (intro int_exact) linarith+
    then have "find_cycle i c (molad (235 * c)) = find_cycle i (c + 1) (molad (235 * (c + 1)))"
      using True by (subst find_cycle.simps) (simp only: if_True next_cycle(1) [OF less.prems(1)])
    moreover have "nat (i - fst (molad (235 * (c + 1)))) < nat (i - fst (molad (235 * c)))"
      using next_cycle(2) [OF less.prems(1)] True by linarith
    moreover have "fst (molad (235 * (c + 1))) \<le> i + 311" using next_cycle(3) [OF less.prems(1)] True by linarith
    ultimately show ?thesis using less.hyps [of "c + 1"] less.prems by simp
  next
    case False
    then have "find_cycle i c (molad (235 * c)) = Some (c, molad (235 * c))" by (subst find_cycle.simps) (simp only: if_False)
    then show ?thesis using False less.prems by auto
  qed
qed

lemma cycle_year:
  assumes "0 \<le> c" "r \<le> 18"
  shows "year_index (19 * c + int r + 1) = r" "(19 * c + int r + 1 - 1) div 19 = c"
proof -
  have "(19 * c + int r + 1 - 1) div 19 = c \<and> (19 * c + int r + 1 - 1) mod 19 = int r" using assms(2) by (intro quotient) simp_all
  then show "year_index (19 * c + int r + 1) = r" "(19 * c + int r + 1 - 1) div 19 = c" by (simp_all add: year_index_def)
qed

lemma next_new_moon: "1 \<le> y \<Longrightarrow> add_halakim (HALAKIM_PER_LUNAR_CYCLE * monthsPerYear ! year_index y) (new_moon y) = new_moon (y + 1)"
  using add_molad [OF month_count_nonneg, of y "monthsPerYear ! year_index y"] by (simp add: new_moon_def next_months index_facts(2))

lemma find_year_returns:
  assumes "0 \<le> c" "r \<le> 18"
  shows "\<exists>r'. find_year i r (new_moon (19 * c + int r + 1)) = (r', new_moon (19 * c + int r' + 1)) \<and> r \<le> r' \<and> r' \<le> 18 \<and>
    (i - 74 < fst (new_moon (19 * c + int r' + 1)) \<or> r' = 18) \<and> (r' = r \<or> fst (new_moon (19 * c + int r')) \<le> i - 74)"
  using assms(2)
proof (induction "18 - r" arbitrary: r)
  case 0
  then have "find_year i r (new_moon (19 * c + int r + 1)) = (r, new_moon (19 * c + int r + 1))"
    by (subst find_year.simps) simp
  then show ?case using 0 by auto
next
  case (Suc n)
  show ?case
  proof (cases "fst (new_moon (19 * c + int r + 1)) > i - 74")
    case True
    then have "find_year i r (new_moon (19 * c + int r + 1)) = (r, new_moon (19 * c + int r + 1))"
      by (subst find_year.simps) simp
    then show ?thesis using True Suc.prems by auto
  next
    case False
    have r: "r < 18" using Suc.hyps(2) by simp
    have "add_halakim (HALAKIM_PER_LUNAR_CYCLE * monthsPerYear ! r) (new_moon (19 * c + int r + 1)) = new_moon (19 * c + int (r + 1) + 1)"
      using next_new_moon [of "19 * c + int r + 1"] cycle_year(1) [OF assms(1) Suc.prems] assms(1) by (simp add: add.commute add.left_commute)
    then have e: "find_year i r (new_moon (19 * c + int r + 1)) = find_year i (r + 1) (new_moon (19 * c + int (r + 1) + 1))"
      using False r by (subst find_year.simps) simp
    have "n = 18 - (r + 1)" "r + 1 \<le> 18" using Suc.hyps(2) by simp_all
    then obtain r' where "find_year i (r + 1) (new_moon (19 * c + int (r + 1) + 1)) = (r', new_moon (19 * c + int r' + 1))"
      "r + 1 \<le> r'" "r' \<le> 18" "i - 74 < fst (new_moon (19 * c + int r' + 1)) \<or> r' = 18"
      "r' = r + 1 \<or> fst (new_moon (19 * c + int r')) \<le> i - 74" using Suc.hyps(1) [of "r + 1"] by blast
    then show ?thesis unfolding e using False by (auto simp: ac_simps)
  qed
qed

text \<open>The new moon found is at most 75 days before the day and 311 days after it.\<close>

lemma found:
  assumes "- 310 \<le> i" "i \<le> 324000000"
  obtains y where "1 \<le> y" "FindTishriMolad i = Some ((y - 1) div 19, year_index y, new_moon y)"
    "i - 75 \<le> fst (new_moon y)" "fst (new_moon y) \<le> i + 311"
proof -
  define c where "c = (i + 310) div 6940"
  have c: "0 \<le> c" "c < 46714" "6940 * c \<le> i + 310" using assms by (simp_all add: c_def)
  have c': "int_of_long ((i + 310) sdiv 6940) = c" using assms(1) c by (simp add: sdiv_pos int_exact flip: c_def)
  have "fst (molad (235 * c)) \<le> i + 311" using cycle_days(2) [OF c(1)] c(3) by linarith
  from find_cycle_returns [OF c(1) this assms(2)] obtain k where k: "find_cycle i c (molad (235 * c)) = Some (k, molad (235 * k))"
    "0 \<le> k" "i - 6630 \<le> fst (molad (235 * k))" "fst (molad (235 * k)) \<le> i + 311" by blast
  have start: "new_moon (19 * k + int 0 + 1) = molad (235 * k)"
    using cycle_year [OF k(2), of 0] by (simp add: new_moon_def month_count_def yearOffset_def)
  from find_year_returns [OF k(2), of 0 i] obtain r where r: "find_year i 0 (molad (235 * k)) = (r, new_moon (19 * k + int r + 1))"
    "r \<le> 18" "i - 74 < fst (new_moon (19 * k + int r + 1)) \<or> r = 18" "r = 0 \<or> fst (new_moon (19 * k + int r)) \<le> i - 74"
    unfolding start by auto
  define y where "y = 19 * k + int r + 1"
  have y: "1 \<le> y" "year_index y = r" "(y - 1) div 19 = k" using cycle_year [OF k(2) r(2)] k(2) by (simp_all add: y_def)
  have F: "FindTishriMolad i = Some ((y - 1) div 19, year_index y, new_moon y)"
    using cycle_molad [OF c(1,2)] k(1) r(1) y by (simp add: FindTishriMolad_def Let_def c' flip: y_def)
  moreover have "fst (new_moon y) \<le> i + 311"
  proof (cases "r = 0")
    case True
    then show ?thesis using k(4) start by (simp add: y_def)
  next
    case False
    then have "fst (new_moon (y - 1)) \<le> i - 74" using r(4) by (simp add: y_def)
    moreover have "1 \<le> y - 1" using False k(2) by (simp add: y_def)
    ultimately show ?thesis using year_length(3) [of "y - 1"] by simp
  qed
  moreover have "i - 75 \<le> fst (new_moon y)"
  proof (cases "i - 74 < fst (new_moon y)")
    case False
    then have "month_count y = 235 * k + 222" using r(3) y by (simp add: month_count_def yearOffset_def y_def)
    then have "fst (new_moon y) \<ge> fst (molad (235 * k)) + 6555"
      using later_molad [of "235 * k" 222 6555 20526] k(2) by (fastforce simp: new_moon_def)
    then show ?thesis using k(3) by linarith
  qed simp
  ultimately show thesis using y(1) that by blast
qed

text \<open>The years that a search for a day of the year \<open>y\<close> may find.\<close>

lemma new_year_moon:
  assumes "1 \<le> y"
  shows "fst (new_moon y) \<le> new_year y" "new_year y \<le> fst (new_moon y) + 2" "1 \<le> new_year y"
proof -
  have "1 \<le> fst (new_moon y)" using molad_nonneg [OF month_count_nonneg [OF assms]] by (simp add: new_moon_def)
  then show "fst (new_moon y) \<le> new_year y" "new_year y \<le> fst (new_moon y) + 2" "1 \<le> new_year y"
    using delay_range by (simp_all add: new_year_def tishri1 add_increasing2)
qed

lemma moons_apart: "1 \<le> y \<Longrightarrow> fst (new_moon y) + 354 * int n \<le> fst (new_moon (y + int n))"
proof (induction n)
  case (Suc n)
  then show ?case using year_length(2) [of "y + int n"] by (simp add: add.commute add.left_commute)
qed simp

lemma moons_between:
  assumes "1 \<le> y" "1 \<le> z" "fst (new_moon y) < fst (new_moon z) + 354 * (k + 1)" "0 \<le> k"
  shows "y \<le> z + k"
proof (rule ccontr)
  assume "\<not> y \<le> z + k"
  then have "354 * (k + 1) \<le> 354 * int (nat (y - z))" "y = z + int (nat (y - z))" using assms(4) by auto
  then show False using moons_apart [OF assms(2), of "nat (y - z)"] assms(3) by simp
qed

lemma found_year:
  assumes "1 \<le> y" "new_year y \<le> i" "i < new_year (y + 1)" "i \<le> 324000000"
  obtains z where "z = y \<and> i \<le> new_year y + 75 \<or> z = y + 1 \<and> new_year (y + 1) - i \<le> 313"
    "FindTishriMolad i = Some ((z - 1) div 19, year_index z, new_moon z)"
proof -
  have i: "- 310 \<le> i" using new_year_moon(3) [OF assms(1)] assms(2) by simp
  obtain z where z: "1 \<le> z" "FindTishriMolad i = Some ((z - 1) div 19, year_index z, new_moon z)"
    "i - 75 \<le> fst (new_moon z)" "fst (new_moon z) \<le> i + 311" using found [OF i assms(4)] by blast
  have m: "fst (new_moon y) \<le> new_year y" "new_year (y + 1) \<le> fst (new_moon (y + 1)) + 2"
    using new_year_moon [of y] new_year_moon [of "y + 1"] assms(1) by simp_all
  have "z \<le> y + 1" using moons_between [of z "y + 1" 0] z(1,4) assms(1,3) m(2) by simp
  moreover have "y \<le> z" using moons_between [of y z 0] z(1,3) assms(1,2) m(1) by simp
  ultimately consider "z = y" | "z = y + 1" by linarith
  then show thesis
  proof cases
    case 1
    then have "i \<le> new_year y + 75" using z(3) m(1) by simp
    then show ?thesis using that z(2) 1 by blast
  next
    case 2
    then have "new_year (y + 1) - i \<le> 313" using z(4) m(2) by simp
    then show ?thesis using that z(2) 2 by blast
  qed
qed

lemma found_before:
  assumes "1 \<le> y" "fst (new_moon (y + 1)) \<le> 324000000"
  shows "FindTishriMolad (fst (new_moon (y + 1)) - 365) = Some ((y - 1) div 19, year_index y, new_moon y)"
proof -
  have "1 \<le> fst (new_moon y)" using molad_nonneg [OF month_count_nonneg [OF assms(1)]] by (simp add: new_moon_def)
  then have "- 310 \<le> fst (new_moon (y + 1)) - 365" using year_length(2) [OF assms(1)] by simp
  then obtain z where z: "1 \<le> z" "FindTishriMolad (fst (new_moon (y + 1)) - 365) = Some ((z - 1) div 19, year_index z, new_moon z)"
    "fst (new_moon (y + 1)) - 365 - 75 \<le> fst (new_moon z)" "fst (new_moon z) \<le> fst (new_moon (y + 1)) - 365 + 311"
    using found [of "fst (new_moon (y + 1)) - 365"] assms(2) by auto
  have "y + 1 \<le> z + 1" using moons_between [of "y + 1" z 1] z(1,3) assms(1) by simp
  moreover have "z \<le> y"
  proof (rule ccontr)
    assume "\<not> z \<le> y"
    then obtain n where "z = y + 1 + int n" using zle_iff_zadd [of "y + 1" z] by auto
    then show False using moons_apart [of "y + 1" n] assms(1) z(4) by simp
  qed
  ultimately show ?thesis using z(2) by simp
qed

end
