(* ===== verification/Jewish_Props.thy ===== *)
theory Jewish_Props
  imports Jewish_Search
begin

text \<open>The dates of the Jewish calendar, and that the conversions count its days.\<close>

subsection \<open>Dates\<close>

text \<open>The length of a year decides on the lengths of Heshvan and Kislev; a leap year has both months of Adar.\<close>

definition jewish_length :: "int \<Rightarrow> int \<Rightarrow> int" where
  "jewish_length y m =
     (let l = new_year (y + 1) - new_year y
      in if m = 2 then if l = 355 \<or> l = 385 then 30 else 29
         else if m = 3 then if l = 353 \<or> l = 383 then 29 else 30
         else if m = 6 then if jewish_leap y then 30 else 29
         else if m = 4 \<or> m = 7 \<or> m = 9 \<or> m = 11 \<or> m = 13 then 29 else 30)"

definition next_jewish :: "date \<Rightarrow> date" where
  "next_jewish =
     (\<lambda>(y, m, d). if d < jewish_length y m then (y, m, d + 1)
        else if m = 13 then (y + 1, 1, 1)
        else if m = 6 \<and> \<not> jewish_leap y then (y, 8, 1) else (y, m + 1, 1))"

definition jewish_date :: "date \<Rightarrow> bool" where
  "jewish_date = (\<lambda>(y, m, d). 1 \<le> y \<and> y \<le> 887000 \<and> 1 \<le> m \<and> m \<le> 13 \<and> (m = 7 \<longrightarrow> jewish_leap y) \<and> 1 \<le> d \<and> d \<le> jewish_length y m)"

lemma moon_bound:
  assumes "1 \<le> y" "y \<le> 887001"
  shows "fst (new_moon y) \<le> 323993901" "new_year y \<le> 323993903" "1 \<le> new_year y"
proof -
  define c where "c = (y - 1) div 19"
  have c: "0 \<le> c" "c \<le> 46684" using assms by (simp_all add: c_def)
  have "31524 + month_count y * 765433 \<le> 31524 + 235 * (c + 1) * 765433"
    using index_facts(5) [of y] by (simp add: month_count_def flip: c_def)
  then have "fst (new_moon y) \<le> fst (molad (235 * (c + 1)))"
    by (simp add: new_moon_def molad_def Let_def halakim_defs zdiv_mono1)
  then show "fst (new_moon y) \<le> 323993901" using cycle_days(2) [of "c + 1"] c by simp
  then show "new_year y \<le> 323993903" "1 \<le> new_year y" using new_year_moon [OF assms(1)] by simp_all
qed

lemma year_start:
  assumes "1 \<le> y" "y \<le> 887001"
  shows "FindStartOfYear y = ((y - 1) div 19, year_index y, new_moon y, new_year y)"
proof -
  have c: "0 \<le> (y - 1) div 19" "(y - 1) div 19 < 46714" using assms by simp_all
  have d: "(y - 1) sdiv 19 = (y - 1) div 19" "nat ((y - 1) smod 19) = year_index y" using assms by (simp_all add: sdiv_pos year_index_def)
  have "add_halakim (HALAKIM_PER_LUNAR_CYCLE * yearOffset ! year_index y) (MoladOfMetonicCycle ((y - 1) div 19)) = new_moon y"
    using cycle_molad [OF c] add_molad [of "235 * ((y - 1) div 19)"] index_facts(4) [of y] c(1)
    by (simp add: new_moon_def month_count_def)
  moreover have "int_of_long (new_year y) = new_year y" using moon_bound [OF assms] by (simp add: int_exact)
  ultimately show ?thesis by (simp add: FindStartOfYear_def Let_def d new_year_def)
qed

lemma next_start:
  assumes "1 \<le> y" "y \<le> 887000" "new_moon (y + 1) = (d, h)"
  shows "Tishri1 (Suc (year_index y) mod 19) d h = new_year (y + 1)" "int_of_long (new_year (y + 1)) = new_year (y + 1)"
  using moon_bound [of "y + 1"] assms next_index [of y] by (simp_all add: new_year_def int_exact)

text \<open>The day of a date: from the start of the year up to Kislev, and from its end after Kislev.\<close>

definition before_end :: "bool \<Rightarrow> int \<Rightarrow> int" where
  "before_end leap m =
     (if m = 4 then if leap then 296 else 266 else if m = 5 then if leap then 267 else 237
      else if m = 6 then if leap then 237 else 207 else if m = 7 then 207 else if m = 8 then 178
      else if m = 9 then 148 else if m = 10 then 119 else if m = 11 then 89 else if m = 12 then 60 else 30)"

lemma jewish_months: "1 \<le> m \<Longrightarrow> m \<le> 13 \<Longrightarrow>
   m = 1 \<or> m = 2 \<or> m = 3 \<or> m = 4 \<or> m = 5 \<or> m = 6 \<or> m = 7 \<or> m = 8 \<or> m = 9 \<or> m = 10 \<or> m = 11 \<or> m = 12 \<or> m = (13 :: int)"
  by presburger

lemma jewish_to_day:
  assumes "jewish_date (y, m, d)"
  shows "JewishToSdn y m d = 347997 +
    (if m = 1 then new_year y + d - 1 else if m = 2 then new_year y + d + 29
     else if m = 3 then new_year y + d + 29 + jewish_length y 2
     else new_year (y + 1) + d - before_end (jewish_leap y) m)"
proof -
  have y: "1 \<le> y" "y \<le> 887000" "1 \<le> m" "m \<le> 13" "1 \<le> d" "d \<le> 30"
    using assms by (auto simp: jewish_date_def jewish_length_def Let_def split: if_splits)
  obtain D H where m': "new_moon (y + 1) = (D, H)" by fastforce
  have s: "FindStartOfYear y = ((y - 1) div 19, year_index y, new_moon y, new_year y)"
    "FindStartOfYear (y + 1) = (y div 19, year_index (y + 1), new_moon (y + 1), new_year (y + 1))"
    using year_start [of y] year_start [of "y + 1"] y by simp_all
  have l: "monthsPerYear ! nat ((y - 1) smod 19) = (if jewish_leap y then 13 else 12)"
    using y index_facts(2) [of y] by (simp add: sdiv_pos year_index_def)
  show ?thesis
    using jewish_months [OF y(3,4)] y(1,2,5,6)
    by (elim disjE)
      (simp_all add: JewishToSdn_def s l next_new_moon m' next_start [OF y(1,2) m'] Let_def jewish_length_def before_end_def)
qed

lemma jewish_next:
  assumes "jewish_date (y, m, d)" "(y, m, d) \<noteq> (887000, 13, 29)" "next_jewish (y, m, d) = (y', m', d')"
  shows "jewish_date (y', m', d')" "JewishToSdn y' m' d' = JewishToSdn y m d + 1"
proof -
  have y: "1 \<le> y" "y \<le> 887000" "1 \<le> m" "m \<le> 13" "m = 7 \<longrightarrow> jewish_leap y" "1 \<le> d" "d \<le> jewish_length y m"
    using assms(1) by (simp_all add: jewish_date_def)
  have l: "1 \<le> jewish_length a b" for a b by (simp add: jewish_length_def Let_def)
  have "m = 13 \<and> \<not> d < jewish_length y m \<Longrightarrow> y \<noteq> 887000" using assms(2) y(7) by (auto simp: jewish_length_def)
  then show j: "jewish_date (y', m', d')" using assms(3) y l by (auto simp: jewish_date_def next_jewish_def split: if_splits)
  note t = jewish_to_day [OF assms(1)] jewish_to_day [OF j]
  show "JewishToSdn y' m' d' = JewishToSdn y m d + 1"
  proof (cases "d < jewish_length y m")
    case True
    then show ?thesis using assms(3) unfolding t by (auto simp: next_jewish_def)
  next
    case False
    then have d: "d = jewish_length y m" using y(7) by simp
    show ?thesis using year_length(1) [OF y(1)] jewish_months [OF y(3,4)] y(5) assms(3) d unfolding t
      by (elim disjE) (auto simp: next_jewish_def jewish_length_def before_end_def Let_def split: if_splits)
  qed
qed

text \<open>The days of a year.\<close>

lemma within_year:
  assumes "jewish_date (y, m, d)" "i = JewishToSdn y m d - 347997"
  shows "new_year y \<le> i" "i < new_year (y + 1)" "m \<noteq> 1 \<or> i < new_year y + 30" "m \<le> 3 \<or> new_year y + 76 \<le> i"
    "m \<noteq> 1 \<or> 313 < new_year (y + 1) - i"
proof -
  have y: "1 \<le> y" "y \<le> 887000" "1 \<le> m" "m \<le> 13" "m = 7 \<longrightarrow> jewish_leap y" "1 \<le> d" "d \<le> jewish_length y m"
    using assms(1) by (simp_all add: jewish_date_def)
  have i: "i = (if m = 1 then new_year y + d - 1 else if m = 2 then new_year y + d + 29
     else if m = 3 then new_year y + d + 29 + jewish_length y 2 else new_year (y + 1) + d - before_end (jewish_leap y) m)"
    using assms(2) jewish_to_day [OF assms(1)] by simp
  have "new_year y \<le> i \<and> i < new_year (y + 1) \<and> (m \<noteq> 1 \<or> i < new_year y + 30) \<and> (m \<le> 3 \<or> new_year y + 76 \<le> i) \<and>
    (m \<noteq> 1 \<or> 313 < new_year (y + 1) - i)"
    using year_length(1) [OF y(1)] y(5-7) jewish_months [OF y(3,4)] unfolding i
    by (elim disjE) (auto simp: jewish_length_def before_end_def Let_def split: if_splits)
  then show "new_year y \<le> i" "i < new_year (y + 1)" "m \<noteq> 1 \<or> i < new_year y + 30" "m \<le> 3 \<or> new_year y + 76 \<le> i"
    "m \<noteq> 1 \<or> 313 < new_year (y + 1) - i" by blast+
qed

lemma heshvan_or_kislev:
  assumes "m = 2 \<and> i = new_year y + d + 29 \<or> m = 3 \<and> i = new_year y + d + 29 + jewish_length y 2" "1 \<le> d" "d \<le> jewish_length y m"
  shows "heshvan_kislev y i (new_year y) (new_year (y + 1)) = (y, m, d)"
proof -
  have "d \<le> 30" using assms(3) by (auto simp: jewish_length_def Let_def split: if_splits)
  then have "int_of_long d = d" using assms(2) by (simp add: int_exact)
  then show ?thesis using assms by (auto simp: heshvan_kislev_def jewish_length_def Let_def)
qed

lemma jewish_back:
  assumes "jewish_date (y, m, d)"
  shows "SdnToJewish (JewishToSdn y m d) = Some (y, m, d)"
proof -
  have y: "1 \<le> y" "y \<le> 887000" "1 \<le> m" "m \<le> 13" "m = 7 \<longrightarrow> jewish_leap y" "1 \<le> d" "d \<le> jewish_length y m"
    using assms by (simp_all add: jewish_date_def)
  define i where "i = JewishToSdn y m d - 347997"
  note w = within_year [OF assms i_def]
  have i: "i = (if m = 1 then new_year y + d - 1 else if m = 2 then new_year y + d + 29
     else if m = 3 then new_year y + d + 29 + jewish_length y 2 else new_year (y + 1) + d - before_end (jewish_leap y) m)"
    using jewish_to_day [OF assms] by (simp add: i_def)
  have T: "1 \<le> new_year y" "int_of_long (new_year y) = new_year y" "int_of_long (new_year (y + 1)) = new_year (y + 1)"
    "fst (new_moon (y + 1)) \<le> 324000000" "new_year (y + 1) \<le> 324000000"
    using moon_bound [of y] moon_bound [of "y + 1"] y(1,2) by (simp_all add: int_exact)
  have sdn: "JewishToSdn y m d = i + 347997" "0 < i" using w(1) T(1) by (simp_all add: i_def)
  obtain D H D' H' where n: "new_moon y = (D, H)" "new_moon (y + 1) = (D', H')" by fastforce
  have Ti: "Tishri1 (year_index y) D H = new_year y" "Tishri1 (year_index (y + 1)) D' H' = new_year (y + 1)"
    "Tishri1 (Suc (year_index y) mod 19) D' H' = new_year (y + 1)"
    "add_halakim (HALAKIM_PER_LUNAR_CYCLE * monthsPerYear ! year_index y) (D, H) = (D', H')"
    using n next_start(1) [OF y(1,2) n(2)] next_new_moon [OF y(1)] by (simp_all add: new_year_def)
  have c: "(y - 1) div 19 * 19 + int (year_index y) + 1 = y" "y div 19 * 19 + int (year_index (y + 1)) = y" "int_of_long y = y"
    "int_of_long (y div 19 * 19 + int (year_index (y + 1))) = y"
    using y(1,2) by (simp_all add: year_index_def int_exact)
  obtain z where z: "z = y \<and> i \<le> new_year y + 75 \<or> z = y + 1 \<and> new_year (y + 1) - i \<le> 313"
    "FindTishriMolad i = Some ((z - 1) div 19, year_index z, new_moon z)"
    using found_year [OF y(1) w(1,2)] w(2) T(5) by auto
  from z(1) show ?thesis
  proof (elim disjE conjE)
    assume "z = y" "i \<le> new_year y + 75"
    then have S: "SdnToJewish (JewishToSdn y m d) =
      (if i < new_year y + 30 then Some (y, 1, i - new_year y + 1)
       else if i < new_year y + 59 then Some (y, 2, i - new_year y - 29)
       else Some (heshvan_kislev y i (new_year y) (new_year (y + 1))))"
      using sdn(2) w(1) z(2) n(1) unfolding SdnToJewish_def sdn(1) Let_def by (simp add: Ti T c)
    have "m = 1 \<or> m = 2 \<or> m = 3" using w(4) y(3) \<open>i \<le> new_year y + 75\<close> by linarith
    then show ?thesis
      using heshvan_or_kislev [of m i y d] y(6,7) i unfolding S by (elim disjE) (auto simp: jewish_length_def Let_def split: if_splits)
  next
    assume "z = y + 1" "new_year (y + 1) - i \<le> 313"
    have l: "monthsPerYear ! nat ((y - 1) smod 19) = (if jewish_leap y then 13 else 12)"
      using y index_facts(2) [of y] by (simp add: sdiv_pos year_index_def)
    define t where "t = new_year (y + 1)"
    have S: "SdnToJewish (JewishToSdn y m d) =
      (if i \<ge> t - 177 then
            Some (if i > t - 30 then (y, 13, i - t + 30)
                  else if i > t - 60 then (y, 12, i - t + 60)
                  else if i > t - 89 then (y, 11, i - t + 89)
                  else if i > t - 119 then (y, 10, i - t + 119)
                  else if i > t - 148 then (y, 9, i - t + 148)
                  else (y, 8, i - t + 178))
       else
         let d = i - t + 207 in
         if jewish_leap y \<and> d > 0 then Some (y, 7, d)
         else
           let d = (if jewish_leap y then d + 30 else d) in
           if d > 0 then Some (y, 6, d)
           else if d + 30 > 0 then Some (y, 5, d + 30)
           else if d + 30 + 29 > 0 then Some (y, 4, d + 30 + 29)
           else Some (heshvan_kislev y i (new_year y) t))"
    proof -
      have b: "int_of_long (i - t + 207) = i - t + 207" using w(2) \<open>new_year (y + 1) - i \<le> 313\<close> by (intro int_exact) (simp_all add: t_def)
      have r: "FindTishriMolad (D' - 365) = Some ((y - 1) div 19, year_index y, D, H)"
        using found_before [OF y(1) T(4)] n by simp
      have "\<not> t \<le> i" using w(2) by (simp add: t_def)
      then show ?thesis
        using sdn(2) z(2) n r b l unfolding SdnToJewish_def sdn(1) \<open>z = y + 1\<close> t_def Let_def by (simp add: Ti T c)
    qed
    have "m \<noteq> 1" using w(5) \<open>new_year (y + 1) - i \<le> 313\<close> by linarith
    then consider "m = 2 \<or> m = 3" | "3 < m" using y(3) by linarith
    then show ?thesis
    proof cases
      case 1
      then have h: "heshvan_kislev y i (new_year y) t = (y, m, d)" using heshvan_or_kislev [of m i y d] y(6,7) i by (auto simp: t_def)
      have "i - t + (if jewish_leap y then 296 else 266) \<le> 0"
        using 1 y(6,7) i year_length(1) [OF y(1)] by (auto simp: jewish_length_def Let_def t_def split: if_splits)
      then show ?thesis unfolding S Let_def h by (auto split: if_splits)
    next
      case 2
      then have i': "i = t + d - before_end (jewish_leap y) m" using i by (simp add: t_def)
      show ?thesis
        using jewish_months [OF y(3,4)] 2 y(5-7) unfolding S i'
        by (elim disjE) (auto simp: before_end_def jewish_length_def Let_def split: if_splits)
    qed
  qed
qed

definition day_of_jewish :: "date \<Rightarrow> int" where
  "day_of_jewish = (\<lambda>(y, m, d). JewishToSdn y m d)"

interpretation jewish: day_count "\<lambda>n. the (SdnToJewish n)" day_of_jewish next_jewish jewish_date "(1, 1, 1)" 347998 324321916
proof unfold_locales
  show "jewish_date (1, 1, 1)" by (simp add: jewish_date_def jewish_length_def Let_def)
  show "day_of_jewish (1, 1, 1) = 347998" by code_simp
  fix x :: date
  assume v: "jewish_date x"
  obtain y m d where x: "x = (y, m, d)" by (cases x) auto
  show "the (SdnToJewish (day_of_jewish x)) = x" using jewish_back v x by (simp add: day_of_jewish_def)
  assume l: "day_of_jewish x \<noteq> 324321916"
  have "day_of_jewish (887000, 13, 29) = 324321916" by code_simp
  then have "(y, m, d) \<noteq> (887000, 13, 29)" using l x by auto
  then show "jewish_date (next_jewish x) \<and> day_of_jewish (next_jewish x) = day_of_jewish x + 1"
    using jewish_next [of y m d] v x by (cases "next_jewish x") (auto simp: day_of_jewish_def)
qed simp

lemma jewish_day:
  assumes "347998 \<le> n" "n \<le> 324321916"
  shows "SdnToJewish n = Some ((next_jewish ^^ nat (n - 347998)) (1, 1, 1))"
    "jewish_date ((next_jewish ^^ nat (n - 347998)) (1, 1, 1))"
proof -
  obtain y m d where x: "the (SdnToJewish n) = (y, m, d)" by (cases "the (SdnToJewish n)") auto
  note j = jewish.day_numbers [OF assms, unfolded x]
  have "JewishToSdn y m d = n" using j(3) by (simp add: day_of_jewish_def)
  then show "SdnToJewish n = Some ((next_jewish ^^ nat (n - 347998)) (1, 1, 1))" using jewish_back [OF j(2)] j(1) by simp
  show "jewish_date ((next_jewish ^^ nat (n - 347998)) (1, 1, 1))" using j(1,2) by simp
qed

subsection \<open>The years by the rules of the calendar\<close>

text \<open>
  Seven of 19 years are leap years.  The new moon of a year is \<open>(235 y - 234) div 19\<close> months of 765433 halakim
  after the first one; the year starts on its day, unless one of the four rules delays it.
\<close>

definition rule_leap :: "int \<Rightarrow> bool" where
  "rule_leap y \<longleftrightarrow> (7 * y + 1) mod 19 < 7"

definition rule_new_year :: "int \<Rightarrow> int" where
  "rule_new_year y =
     (let moon = 31524 + 765433 * ((235 * y - 234) div 19); day = moon div 25920
      in day + delay (rule_leap y) (rule_leap (y - 1)) (day mod 7) (moon mod 25920))"

lemma rule_table:
  "\<forall>r\<in>set [0..<19]. yearOffset ! r = (235 * int r + 1) div 19 \<and>
     (leap_index r \<longleftrightarrow> (7 * int r + 8) mod 19 < 7) \<and> (after_leap r \<longleftrightarrow> (7 * int r + 1) mod 19 < 7)"
  by code_simp

lemma rule_facts:
  "jewish_leap y \<longleftrightarrow> rule_leap y" "after_leap (year_index y) \<longleftrightarrow> rule_leap (y - 1)" "month_count y = (235 * y - 234) div 19"
proof -
  define c where "c = (y - 1) div 19"
  define r where "r = int (year_index y)"
  have "y - 1 = 19 * c + r" by (simp add: c_def r_def year_index_def)
  then have y: "y = 19 * c + r + 1" by simp
  have "year_index y \<in> set [0..<19]" by (rule indices [where P = "\<lambda>r. r \<in> set [0..<19]"])
  note t = bspec [OF rule_table this, folded r_def]
  have "7 * y + 1 = 7 * r + 8 + 19 * (7 * c)" "7 * (y - 1) + 1 = 7 * r + 1 + 19 * (7 * c)"
    "235 * y - 234 = 235 * r + 1 + 19 * (235 * c)" unfolding y by simp_all
  then have m: "(7 * y + 1) mod 19 = (7 * r + 8) mod 19" "(7 * (y - 1) + 1) mod 19 = (7 * r + 1) mod 19"
    "(235 * y - 234) div 19 = 235 * c + (235 * r + 1) div 19" by (simp_all only: mod_mult_self2 div_mult_self2 zero_neq_numeral)
  show "jewish_leap y \<longleftrightarrow> rule_leap y" "after_leap (year_index y) \<longleftrightarrow> rule_leap (y - 1)"
    unfolding rule_leap_def index_facts(1) m using t by simp_all
  show "month_count y = (235 * y - 234) div 19" unfolding m month_count_def c_def [symmetric] using t by simp
qed

lemma new_year_by_rules:
  assumes "1 \<le> y"
  shows "new_year y = rule_new_year y" "new_year y mod 7 \<notin> {0, 3, 5}"
proof -
  have "0 \<le> fst (new_moon y)" using molad_nonneg [OF month_count_nonneg [OF assms]] by (simp add: new_moon_def)
  then have n: "new_year y = fst (new_moon y) + delay (rule_leap y) (rule_leap (y - 1)) (fst (new_moon y) mod 7) (snd (new_moon y))"
    by (simp add: new_year_def tishri1 rule_facts(2) index_facts(1) [symmetric] rule_facts(1))
  moreover have "new_moon y = (let moon = 31524 + 765433 * ((235 * y - 234) div 19) in (moon div 25920, moon mod 25920))"
    by (simp add: new_moon_def molad_def rule_facts(3) halakim_defs mult.commute)
  ultimately show "new_year y = rule_new_year y" by (simp add: rule_new_year_def Let_def)
  have w: "(w + delay l a (w mod 7) h) mod 7 \<notin> {0, 3, 5}" for w l a h
  proof -
    have "(w + delay l a (w mod 7) h) mod 7 = (w mod 7 + delay l a (w mod 7) h) mod 7" by (simp add: mod_simps)
    then show ?thesis using weekdays [of w] by (elim disjE) (simp_all add: delay_def)
  qed
  show "new_year y mod 7 \<notin> {0, 3, 5}" unfolding n by (rule w)
qed



end
