(* ===== verification/Calendar_Text.thy ===== *)
theory Calendar_Text
  imports Jewish Operators
begin

text \<open>
  The script functions of the calendar (dl/calendar/calendar.c, easter.c).  A date is printed into a block
  of ten bytes on the stack: a text that does not fit with its NUL is undefined behaviour, \<open>None\<close>, as is an
  entry outside a table of names.
\<close>

subsection \<open>Names\<close>

definition DayNameShort :: "string list" where
  "DayNameShort = [''Sun'', ''Mon'', ''Tue'', ''Wed'', ''Thu'', ''Fri'', ''Sat'']"

definition DayNameLong :: "string list" where
  "DayNameLong = [''Sunday'', ''Monday'', ''Tuesday'', ''Wednesday'', ''Thursday'', ''Friday'', ''Saturday'']"

definition MonthNameShort :: "string list" where
  "MonthNameShort = ['''', ''Jan'', ''Feb'', ''Mar'', ''Apr'', ''May'', ''Jun'', ''Jul'', ''Aug'', ''Sep'', ''Oct'', ''Nov'', ''Dec'']"

definition MonthNameLong :: "string list" where
  "MonthNameLong = ['''', ''January'', ''February'', ''March'', ''April'', ''May'', ''June'', ''July'', ''August'', ''September'',
     ''October'', ''November'', ''December'']"

definition JewishMonthName :: "string list" where
  "JewishMonthName = ['''', ''Tishri'', ''Heshvan'', ''Kislev'', ''Tevet'', ''Shevat'', ''AdarI'', ''AdarII'', ''Nisan'', ''Iyyar'',
     ''Sivan'', ''Tammuz'', ''Av'', ''Elul'']"

definition FrenchMonthName :: "string list" where
  "FrenchMonthName = ['''', ''Vendemiaire'', ''Brumaire'', ''Frimaire'', ''Nivose'', ''Pluviose'', ''Ventose'', ''Germinal'',
     ''Floreal'', ''Prairial'', ''Messidor'', ''Thermidor'', ''Fructidor'', ''Extra'']"

definition name_at :: "string list \<Rightarrow> int \<Rightarrow> 'd pval option" where
  "name_at names i = (if 0 \<le> i \<and> nat i < length names then Some (PString (names ! nat i)) else None)"

subsection \<open>Texts of dates\<close>

definition print_int :: "int \<Rightarrow> string" where
  "print_int n = (if n < 0 then CHR ''-'' # dec_digits (nat (- n)) else dec_digits (nat n))"

definition date_chars :: "date \<Rightarrow> string" where
  "date_chars = (\<lambda>(year, month, day). print_int month @ ''/'' @ print_int day @ ''/'' @ print_int year)"

definition date_text :: "date \<Rightarrow> 'd pval option" where
  "date_text d = (if length (date_chars d) + 1 \<le> 10 then Some (PString (date_chars d)) else None)"

definition long_arg :: "'d fp \<Rightarrow> 'd pval \<Rightarrow> int" where
  "long_arg F v = sint (lval (convert_to_long F v))"

definition cal_jdtogreg :: "'d fp \<Rightarrow> 'd pval \<Rightarrow> 'd pval option" where
  "cal_jdtogreg F julday = date_text (SdnToGregorian (long_arg F julday))"

definition cal_jdtojul :: "'d fp \<Rightarrow> 'd pval \<Rightarrow> 'd pval option" where
  "cal_jdtojul F julday = date_text (SdnToJulian (long_arg F julday))"

definition cal_jdtojewish :: "'d fp \<Rightarrow> 'd pval \<Rightarrow> 'd pval option" where
  "cal_jdtojewish F julday = do { d \<leftarrow> SdnToJewish (long_arg F julday); date_text d }"

definition cal_jdtofrench :: "'d fp \<Rightarrow> 'd pval \<Rightarrow> 'd pval option" where
  "cal_jdtofrench F julday = date_text (SdnToFrench (long_arg F julday))"

text \<open>The other direction; the parameters of the conversions and \<open>jdate\<close> are \<open>int\<close>s.\<close>

definition days_of :: "(int \<Rightarrow> int \<Rightarrow> int \<Rightarrow> int) \<Rightarrow> 'd fp \<Rightarrow> 'd pval \<Rightarrow> 'd pval \<Rightarrow> 'd pval \<Rightarrow> 'd pval" where
  "days_of to_sdn F month day year =
     PLong (word_of_int (int_of_long
       (to_sdn (int_of_long (long_arg F year)) (int_of_long (long_arg F month)) (int_of_long (long_arg F day)))))"

definition cal_gregtojd :: "'d fp \<Rightarrow> 'd pval \<Rightarrow> 'd pval \<Rightarrow> 'd pval \<Rightarrow> 'd pval" where
  "cal_gregtojd = days_of GregorianToSdn"

definition cal_jultojd :: "'d fp \<Rightarrow> 'd pval \<Rightarrow> 'd pval \<Rightarrow> 'd pval \<Rightarrow> 'd pval" where
  "cal_jultojd = days_of JulianToSdn"

definition cal_jewishtojd :: "'d fp \<Rightarrow> 'd pval \<Rightarrow> 'd pval \<Rightarrow> 'd pval \<Rightarrow> 'd pval" where
  "cal_jewishtojd = days_of JewishToSdn"

definition cal_frenchtojd :: "'d fp \<Rightarrow> 'd pval \<Rightarrow> 'd pval \<Rightarrow> 'd pval \<Rightarrow> 'd pval" where
  "cal_frenchtojd = days_of FrenchToSdn"

subsection \<open>Names of days and months\<close>

definition cal_jddayofweek :: "'d fp \<Rightarrow> 'd pval \<Rightarrow> 'd pval \<Rightarrow> 'd pval option" where
  "cal_jddayofweek F julday mode =
     (let day = DayOfWeek (long_arg F julday); m = long_arg F mode in do {
      daynamel \<leftarrow> name_at DayNameLong day;
      daynames \<leftarrow> name_at DayNameShort day;
      Some (if m = 1 then daynamel else if m = 2 then daynames else PLong (word_of_int day)) })"

definition cal_monthname :: "'d fp \<Rightarrow> 'd pval \<Rightarrow> 'd pval \<Rightarrow> 'd pval option" where
  "cal_monthname F julday mode =
     (let n = long_arg F julday; m = long_arg F mode; month = (\<lambda>(_, month, _). month)
      in if m = 1 then name_at MonthNameLong (month (SdnToGregorian n))
         else if m = 2 then name_at MonthNameShort (month (SdnToJulian n))
         else if m = 3 then name_at MonthNameLong (month (SdnToJulian n))
         else if m = 4 then do { d \<leftarrow> SdnToJewish n; name_at JewishMonthName (month d) }
         else if m = 5 then name_at FrenchMonthName (month (SdnToFrench n))
         else name_at MonthNameShort (month (SdnToGregorian n)))"

subsection \<open>Easter\<close>

text \<open>
  \<open>easter_date\<close> (\<open>gm\<close>) gives the time stamp of the month, from 0, and day of the month; \<open>mktime\<close> and the
  present year are parameters.
\<close>

definition easter_tm :: "int \<Rightarrow> int \<times> int" where
  "easter_tm easter = (if easter < 11 then (2, easter + 21) else (3, easter - 10))"

definition cal_easter :: "(int \<Rightarrow> int \<times> int \<Rightarrow> int) \<Rightarrow> int \<Rightarrow> 'd fp \<Rightarrow> bool \<Rightarrow> 'd pval option \<Rightarrow> 'd pval" where
  "cal_easter mktime present F gm year_arg =
     (let year = (case year_arg of None \<Rightarrow> present | Some v \<Rightarrow> int_of_long (long_arg F v))
      in if gm \<and> (year < 1970 \<or> year > 2037) then var_reset
         else if gm then PLong (word_of_int (mktime (year - 1900) (easter_tm (easter_days year))))
         else PLong (word_of_int (easter_days year)))"

end
