(* ===== verification/Easter.thy ===== *)
theory Easter
  imports Calendar_Props Calendar_Text
begin

text \<open>The date of Easter: the rules of Meeus and Butcher, and that it is a Sunday.\<close>

subsection \<open>The days before a year\<close>

lemma gregorian_days: "gregorian_days_before Y = 365 * Y + Y div 4 - Y div 100 + Y div 400"
proof -
  define c r where "c = Y div 100" and "r = Y mod 100"
  have Y: "Y = 100 * c + r" by (simp add: c_def r_def)
  have "c * 146097 = c + 4 * (36524 * c)" "r * 1461 = r + 4 * (365 * r)" by simp_all
  then have "c * 146097 div 4 = 36524 * c + c div 4" "r * 1461 div 4 = 365 * r + r div 4" by (simp_all only: div_mult_self2 zero_neq_numeral)
  moreover have "Y = r + 4 * (25 * c)" using Y by simp
  then have "Y div 4 = 25 * c + r div 4" by (simp only: div_mult_self2 zero_neq_numeral)
  moreover have "Y div 400 = c div 4" using zdiv_zmult2_eq [of 4 Y 100] by (simp add: c_def)
  ultimately show ?thesis unfolding gregorian_days_before_def c_def [symmetric] r_def [symmetric] using Y by simp
qed

lemma julian_days: "julian_days_before Y = 365 * Y + Y div 4"
proof -
  have "Y * 1461 = Y + 4 * (365 * Y)" by simp
  then have "Y * 1461 div 4 = 365 * Y + Y div 4" by (simp only: div_mult_self2 zero_neq_numeral)
  then show ?thesis by (simp add: julian_days_before_def)
qed

lemma spring: "1 \<le> y \<Longrightarrow> y \<le> 1465199 \<Longrightarrow> GregorianToSdn y 3 21 = gregorian_days_before (y + 4800) - 32024"
  "1 \<le> y \<Longrightarrow> y \<le> 1465072 \<Longrightarrow> JulianToSdn y 3 21 = julian_days_before (y + 4800) - 32062"
  using gregorian_to_day [of y 3 21 "y + 4800" 0] julian_to_day [of y 3 21 "y + 4800" 0]
  by (simp_all add: gregorian_date_def julian_date_def civil_def month_length_def adjusted_def int_exact day_of_year_def)

subsection \<open>Easter\<close>

text \<open>The Paschal full moon in days after March 21st, and the Sunday after it.\<close>

definition sunday_after :: "int \<Rightarrow> int \<Rightarrow> int" where
  "sunday_after p n = p + (4 - p - n mod 7) mod 7 + 1"

text \<open>The full moon as the code corrects it: of the days 28 and 29 the earlier one, in the second half of the
  cycle of 19 years the 27th.\<close>

definition corrected :: "int \<Rightarrow> int \<Rightarrow> int" where
  "corrected a h = (if h = 29 \<or> h = 28 \<and> 11 \<le> a then h - 1 else h)"

lemma corrected: "0 \<le> h \<Longrightarrow> h < 30 \<Longrightarrow> 0 \<le> corrected a h \<and> corrected a h \<le> 28"
  by (auto simp: corrected_def)

lemma easter_cases:
  assumes "1 \<le> y" "y \<le> 1465199"
  shows "easter_days y =
    (if y \<le> 1752 then sunday_after (corrected (y mod 19) ((19 * (y mod 19) + 15) mod 30)) (y + y div 4 + 5)
     else sunday_after (corrected (y mod 19)
        ((19 * (y mod 19) + y div 100 - y div 400 - (8 * (y div 100) + 13) div 25 + 15) mod 30))
      (y + y div 4 - y div 100 + y div 400))"
proof -
  have d: "y sdiv 4 = y div 4" "y sdiv 100 = y div 100" "y sdiv 400 = y div 400" "y smod 19 = y mod 19"
    using assms(1) by (simp_all add: sdiv_pos)
  have b: "0 \<le> y div 4" "y div 4 \<le> y" "0 \<le> y div 100" "y div 100 \<le> y" "0 \<le> y div 400" "y div 400 \<le> y" using assms(1) by simp_all
  have f: "int_of_long (y + y div 4 + 5) = y + y div 4 + 5"
    "int_of_long (y + y div 4 - y div 100 + y div 400) = y + y div 4 - y div 100 + y div 400"
    using b assms by (auto intro!: int_exact)
  have g: "(11 \<le> a) = (11 < a + (1 :: int))" for a by auto
  show ?thesis
  proof (cases "y \<le> 1752")
    case True
    have "3 - 11 * (y mod 19 + 1) - 7 = 19 * (y mod 19) + 15 + 30 * (- (y mod 19) - 1)" by simp
    then have h: "(3 - 11 * (y mod 19 + 1) - 7) mod 30 = (19 * (y mod 19) + 15) mod 30" by (simp only: mod_mult_self2)
    show ?thesis using True unfolding easter_days_def Let_def d f
      by (simp only: if_True non_negative zero_less_numeral h corrected_def sunday_after_def g)
  next
    case False
    have "y - 1600 = y + - 4 * 400" "y - 1600 = y + - 16 * 100" "y - 1400 = y + - 14 * 100" by simp_all
    then have s: "(y - 1600) div 400 = y div 400 - 4" "(y - 1600) div 100 = y div 100 - 16" "(y - 1400) div 100 = y div 100 - 14"
      by (simp_all only: div_mult_self1)
    have "17 \<le> y div 100" using False by simp
    moreover have "(y div 100 - 14) * 8 = (8 * (y div 100) + 13) + 25 * - 5" by simp
    then have "(y div 100 - 14) * 8 div 25 = (8 * (y div 100) + 13) div 25 - 5" by (simp only: div_mult_self2)
    ultimately have l: "((y - 1400) sdiv 100 * 8) sdiv 25 = (8 * (y div 100) + 13) div 25 - 5" "(y - 1600) sdiv 100 = y div 100 - 16"
      "(y - 1600) sdiv 400 = y div 400 - 4" using False s by (simp_all add: sdiv_pos)
    have "3 - 11 * (y mod 19 + 1) + (y div 100 - 16 - (y div 400 - 4)) - ((8 * (y div 100) + 13) div 25 - 5)
      = 19 * (y mod 19) + y div 100 - y div 400 - (8 * (y div 100) + 13) div 25 + 15 + 30 * (- (y mod 19) - 1)" by simp
    then have h: "(3 - 11 * (y mod 19 + 1) + (y div 100 - 16 - (y div 400 - 4)) - ((8 * (y div 100) + 13) div 25 - 5)) mod 30
      = (19 * (y mod 19) + y div 100 - y div 400 - (8 * (y div 100) + 13) div 25 + 15) mod 30" by (simp only: mod_mult_self2)
    show ?thesis using False unfolding easter_days_def Let_def d f l
      by (simp only: if_False non_negative zero_less_numeral h corrected_def sunday_after_def g)
  qed
qed

lemma sunday_after: "0 \<le> p \<Longrightarrow> p \<le> 28 \<Longrightarrow> 1 \<le> sunday_after p n \<and> sunday_after p n \<le> 35"
  using pos_mod_sign [of 7 "4 - p - n mod 7"] pos_mod_bound [of 7 "4 - p - n mod 7"] by (simp add: sunday_after_def)

lemma sunday: "DayOfWeek (365 * y + z + (7 * k + c + 1) + sunday_after p (y + z + c)) = 0"
proof -
  let ?a = "365 * y + z + (7 * k + c + 1) + p + 2"
  have "(?a + (4 - p - (y + z + c) mod 7) mod 7) mod 7 = (?a + (4 - p - (y + z + c))) mod 7" by (simp only: mod_simps)
  also have "?a + (4 - p - (y + z + c)) = 7 * (52 * y + k + 1)" by simp
  finally have m: "(?a + (4 - p - (y + z + c) mod 7) mod 7) mod 7 = 0" by simp
  have e: "365 * y + z + (7 * k + c + 1) + sunday_after p (y + z + c) + 1 = ?a + (4 - p - (y + z + c) mod 7) mod 7"
    by (simp add: sunday_after_def)
  show ?thesis unfolding day_of_week e by (rule m)
qed

text \<open>
  The rules of Easter as the astronomers state them, as days after March 21st: Meeus' for the Julian calendar,
  and Butcher's for the Gregorian one, where \<open>m\<close> corrects the late full moons.
\<close>

definition meeus_julian :: "int \<Rightarrow> int" where
  "meeus_julian y =
     (let a = y mod 4; b = y mod 7; c = y mod 19;
          d = (19 * c + 15) mod 30;
          e = (2 * a + 4 * b - d + 34) mod 7
      in d + e + 1)"

definition butcher :: "int \<Rightarrow> int" where
  "butcher y =
     (let a = y mod 19; b = y div 100; c = y mod 100; d = b div 4; e = b mod 4; f = (b + 8) div 25;
          g = (b - f + 1) div 3;
          h = (19 * a + b - d - g + 15) mod 30;
          i = c div 4; k = c mod 4;
          l = (32 + 2 * e + 2 * i - h - k) mod 7;
          m = (a + 11 * h + 22 * l) div 451
      in h + l - 7 * m + 1)"

lemma julian_moon: "corrected (y mod 19) ((19 * (y mod 19) + 15) mod 30) = (19 * (y mod 19) + 15) mod (30 :: int)"
proof -
  have "\<forall>a \<in> set [0..18]. corrected a ((19 * a + 15) mod 30) = (19 * a + 15) mod (30 :: int)" by code_simp
  moreover have "0 \<le> y mod 19" "y mod 19 \<le> 18" using pos_mod_bound [of 19 y] by simp_all
  ultimately show ?thesis by simp
qed

lemma easter_julian: "sunday_after (corrected (y mod 19) ((19 * (y mod 19) + 15) mod 30)) (y + y div 4 + 5) = meeus_julian y"
proof -
  define d where "d = (19 * (y mod 19) + 15) mod 30"
  have e: "2 * (y mod 4) + 4 * (y mod 7) = 6 * y - 8 * (y div 4) - 28 * (y div 7)" by (simp add: minus_div_mult_eq_mod [symmetric])
  have "(2 * (y mod 4) + 4 * (y mod 7) - d + 34) mod 7 = ((4 - d - (y + y div 4 + 5)) + 7 * (y - y div 4 - 4 * (y div 7) + 5)) mod 7"
    unfolding e by (rule arg_cong [where f = "\<lambda>x. x mod 7"]) simp
  also have "((4 - d - (y + y div 4 + 5)) + 7 * (y - y div 4 - 4 * (y div 7) + 5)) mod 7 = (4 - d - (y + y div 4 + 5)) mod 7"
    by (rule mod_mult_self2)
  also have "\<dots> = (4 - d - (y + y div 4 + 5) mod 7) mod 7" by (simp only: mod_simps)
  finally have "(2 * (y mod 4) + 4 * (y mod 7) - d + 34) mod 7 = (4 - d - (y + y div 4 + 5) mod 7) mod 7" .
  moreover have "corrected (y mod 19) d = d" using julian_moon by (simp add: d_def)
  ultimately show ?thesis unfolding meeus_julian_def Let_def d_def [symmetric] by (simp only: sunday_after_def)
qed

lemma late_moon:
  fixes a h n :: int
  assumes "0 \<le> h" "h < 30" "0 \<le> a" "a \<le> 18"
  defines "l \<equiv> (4 - h - n mod 7) mod 7"
  shows "sunday_after (corrected a h) n = h + l - 7 * ((a + 11 * h + 22 * l) div 451) + 1"
proof -
  have l: "0 \<le> l" "l \<le> 6" using pos_mod_bound [of 7 "4 - h - n mod 7"] by (simp_all add: l_def)
  have "(4 - (h - 1) - n mod 7) mod 7 = (l + 1) mod 7" unfolding l_def by (simp add: mod_simps algebra_simps)
  then have s: "(4 - (h - 1) - n mod 7) mod 7 = (if l = 6 then 0 else l + 1)" using l by (auto simp: le_less)
  have m: "(a + 11 * h + 22 * l) div 451 = (if l = 6 \<and> (h = 29 \<or> h = 28 \<and> 11 \<le> a) then 1 else 0)"
  proof (cases "l = 6 \<and> (h = 29 \<or> h = 28 \<and> 11 \<le> a)")
    case True
    have "a + 11 * h + 22 * l = a + 11 * h - 319 + 451 * 1" using True by simp
    moreover have "(a + 11 * h - 319 + 451 * 1) div 451 = 1 + (a + 11 * h - 319) div 451" by (simp only: div_mult_self2 zero_neq_numeral)
    moreover have "(a + 11 * h - 319) div 451 = 0" using True assms(3,4) by (intro div_pos_pos_trivial) auto
    ultimately show ?thesis using True by simp
  next
    case False
    have "h \<le> 29" using assms(2) by simp
    moreover have "l \<le> 5 \<or> h \<le> 27 \<or> h = 28 \<and> a \<le> 10" using False l \<open>h \<le> 29\<close> by auto
    ultimately have "a + 11 * h + 22 * l < 451" using l(2) assms(4) by (elim disjE conjE) linarith+
    then have "(a + 11 * h + 22 * l) div 451 = 0" using l(1) assms(1,3) by (intro div_pos_pos_trivial) linarith+
    then show ?thesis using False by simp
  qed
  have "sunday_after h n = h + l + 1" by (simp only: sunday_after_def l_def)
  moreover have "sunday_after (h - 1) n = h - 1 + (if l = 6 then 0 else l + 1) + 1" by (simp only: sunday_after_def s)
  ultimately show ?thesis unfolding m by (simp add: corrected_def)
qed

lemma lunar: "(8 * b + 13) div 25 = (b - (b + 8) div 25 + 1) div (3 :: int)"
proof -
  define q r where "q = b div 25" and "r = b mod 25"
  have b: "b = 25 * q + r" by (simp add: q_def r_def)
  have "\<forall>r \<in> set [0..24]. (8 * r + 13) div 25 = (r - (r + 8) div 25 + 1) div (3 :: int)" by code_simp
  moreover have "0 \<le> r" "r \<le> 24" using pos_mod_bound [of 25 b] by (simp_all add: r_def)
  ultimately have "(8 * r + 13) div 25 = (r - (r + 8) div 25 + 1) div 3" by simp
  moreover have "8 * b + 13 = 8 * r + 13 + 25 * (8 * q)" "b + 8 = r + 8 + 25 * q" using b by simp_all
  then have e: "(8 * b + 13) div 25 = 8 * q + (8 * r + 13) div 25" "(b + 8) div 25 = q + (r + 8) div 25"
    by (simp_all only: div_mult_self2 zero_neq_numeral)
  moreover have "b - (b + 8) div 25 + 1 = r - (r + 8) div 25 + 1 + 3 * (8 * q)" unfolding e using b by simp
  then have "(b - (b + 8) div 25 + 1) div 3 = 8 * q + (r - (r + 8) div 25 + 1) div 3" by (simp only: div_mult_self2 zero_neq_numeral)
  ultimately show ?thesis by simp
qed

lemma weeks: "b = 4 * B + E \<Longrightarrow> c = 4 * I + K \<Longrightarrow>
  124 * b + c + I + B = 5 * E + 5 * I + K + 7 * (71 * B + 17 * (E :: int))"
  by simp

lemma easter_gregorian:
  "sunday_after (corrected (y mod 19) ((19 * (y mod 19) + y div 100 - y div 400 - (8 * (y div 100) + 13) div 25 + 15) mod 30))
     (y + y div 4 - y div 100 + y div 400) = butcher y"
proof -
  define b c where "b = y div 100" and "c = y mod 100"
  define h where "h = (19 * (y mod 19) + b - y div 400 - (8 * b + 13) div 25 + 15) mod 30"
  have y: "y = c + 4 * (25 * b)" by (simp add: b_def c_def)
  then have d: "y div 4 = 25 * b + c div 4" by (simp only: div_mult_self2 zero_neq_numeral)
  have d4: "y div 400 = b div 4" using zdiv_zmult2_eq [of 4 y 100] by (simp add: b_def)
  have "y + y div 4 - b + y div 400 = 124 * b + c + c div 4 + b div 4" unfolding d d4 using y by simp
  also have "\<dots> = 5 * (b mod 4) + 5 * (c div 4) + c mod 4 + 7 * (71 * (b div 4) + 17 * (b mod 4))"
    by (rule weeks) simp_all
  finally have n: "4 - h - (y + y div 4 - b + y div 400) =
    32 + 2 * (b mod 4) + 2 * (c div 4) - h - c mod 4 + 7 * (- 4 - (b mod 4) - (c div 4) - (71 * (b div 4) + 17 * (b mod 4)))" by simp
  have l: "(4 - h - (y + y div 4 - b + y div 400) mod 7) mod 7 = (32 + 2 * (b mod 4) + 2 * (c div 4) - h - c mod 4) mod 7"
    unfolding mod_diff_right_eq n by (rule mod_mult_self2)
  have "0 \<le> h" "h < 30" "0 \<le> y mod 19" "y mod 19 \<le> 18" using pos_mod_bound [of 19 y] by (simp_all add: h_def)
  from late_moon [OF this, of "y + y div 4 - b + y div 400"]
  have "sunday_after (corrected (y mod 19) h) (y + y div 4 - b + y div 400) =
    h + (32 + 2 * (b mod 4) + 2 * (c div 4) - h - c mod 4) mod 7
      - 7 * ((y mod 19 + 11 * h + 22 * ((32 + 2 * (b mod 4) + 2 * (c div 4) - h - c mod 4) mod 7)) div 451) + 1" unfolding l .
  moreover have H: "(19 * (y mod 19) + b - b div 4 - (b - (b + 8) div 25 + 1) div 3 + 15) mod 30 = h"
    by (simp only: h_def d4 lunar)
  ultimately show ?thesis
    unfolding butcher_def Let_def b_def [symmetric] c_def [symmetric] H h_def [symmetric] by (simp only:)
qed

text \<open>The month and day of the month that \<open>easter_date\<close> turns into a time stamp.\<close>

lemma spring_day:
  assumes "1 \<le> y" "y \<le> 1465199" "1 \<le> e" "e \<le> 35" "easter_tm e = (mon, mday)"
  shows "GregorianToSdn y (mon + 1) mday = GregorianToSdn y 3 21 + e"
proof -
  have "adjusted y 3 = (y + 4800, 0)" "adjusted y 4 = (y + 4800, 1)" using assms(1,2) by (simp_all add: adjusted_def int_exact)
  moreover have "gregorian_date (y, 3, 21)" "e < 11 \<Longrightarrow> gregorian_date (y, 3, e + 21)" "\<not> e < 11 \<Longrightarrow> gregorian_date (y, 4, e - 10)"
    using assms(1-4) by (simp_all add: gregorian_date_def civil_def month_length_def)
  ultimately show ?thesis
    using assms(5) gregorian_to_day [of y 3 21] gregorian_to_day [of y 3 "e + 21"] gregorian_to_day [of y 4 "e - 10"]
    by (cases "e < 11") (auto simp: easter_tm_def day_of_year_def)
qed

text \<open>C33: the days after March 21st agree with Meeus' rule for the Julian calendar up to 1752 and with Butcher's
  for the Gregorian calendar from then on, for the years from 1 to 1465199, where no \<open>int\<close> overflows.  Easter is
  a Sunday, between one and 35 days after March 21st of that calendar, and the month and day of which
  \<open>easter_date\<close> makes a time stamp are that many days after March 21st.\<close>

theorem easter_is_sunday:
  assumes "1 \<le> y" "y \<le> 1465199"
  shows "easter_days y = (if y \<le> 1752 then meeus_julian y else butcher y) \<and> 1 \<le> easter_days y \<and> easter_days y \<le> 35 \<and>
    DayOfWeek ((if y \<le> 1752 then JulianToSdn y 3 21 else GregorianToSdn y 3 21) + easter_days y) = 0 \<and>
    (\<lambda>(mon, mday). GregorianToSdn y (mon + 1) mday) (easter_tm (easter_days y)) = GregorianToSdn y 3 21 + easter_days y"
proof -
  define h where "h = (if y \<le> 1752 then (19 * (y mod 19) + 15) mod 30
    else (19 * (y mod 19) + y div 100 - y div 400 - (8 * (y div 100) + 13) div 25 + 15) mod 30)"
  define p where "p = corrected (y mod 19) h"
  have "0 \<le> h" "h < 30" by (simp_all add: h_def)
  from corrected [OF this] have p: "0 \<le> p" "p \<le> 28" by (simp_all add: p_def)
  have p3: "easter_days y = sunday_after p (if y \<le> 1752 then y + y div 4 + 5 else y + y div 4 - y div 100 + y div 400)"
    using easter_cases [OF assms] by (simp add: p_def h_def)
  have r: "easter_days y = (if y \<le> 1752 then meeus_julian y else butcher y)"
    unfolding easter_cases [OF assms] easter_julian easter_gregorian by (rule refl)
  have b: "1 \<le> easter_days y \<and> easter_days y \<le> 35" using sunday_after [OF p(1,2)] p3 by simp
  then have t: "(\<lambda>(mon, mday). GregorianToSdn y (mon + 1) mday) (easter_tm (easter_days y)) = GregorianToSdn y 3 21 + easter_days y"
    using spring_day [OF assms, of "easter_days y"] by (cases "easter_tm (easter_days y)") simp
  have d: "(y + 4800) div 4 = y div 4 + 1200" "(y + 4800) div 100 = y div 100 + 48" "(y + 4800) div 400 = y div 400 + 12"
    using div_mult_self2 [of 4 y 1200] div_mult_self2 [of 100 y 48] div_mult_self2 [of 400 y 12] by simp_all
  show ?thesis
  proof (cases "y \<le> 1752")
    case True
    have "JulianToSdn y 3 21 = 365 * y + y div 4 + (7 * 245876 + 5 + 1)" using spring(2) [of y] assms(1) True
      by (simp add: julian_days d)
    moreover have "easter_days y = sunday_after p (y + y div 4 + 5)" using p3 True by simp
    ultimately show ?thesis using True b r t sunday [of y "y div 4" 245876 5 p] by (simp only: if_True simp_thms)
  next
    case False
    have "GregorianToSdn y 3 21 = 365 * y + (y div 4 - y div 100 + y div 400) + (7 * 245877 + 0 + 1)" using spring(1) [of y] assms
      by (simp add: gregorian_days d)
    moreover have "y + (y div 4 - y div 100 + y div 400) + 0 = y + y div 4 - y div 100 + y div 400" by simp
    then have "easter_days y = sunday_after p (y + (y div 4 - y div 100 + y div 400) + 0)" using p3 False by (simp only: if_False)
    ultimately show ?thesis using False b r t sunday [of y "y div 4 - y div 100 + y div 400" 245877 0 p]
      by (simp only: if_False simp_thms)
  qed
qed

theorem easter_is_sunday_witness:
  "DayOfWeek (GregorianToSdn 2000 3 21 + 33) = 0 \<and> easter_days 2000 = 33"
proof -
  have e: "easter_days 2000 = 33" by code_simp
  show ?thesis using easter_is_sunday [of 2000] unfolding e by simp
qed

end
