(* ===== verification/Calendar_Text_Props.thy ===== *)
theory Calendar_Text_Props
  imports Calendar_Text Jewish_Props Easter Value_Laws
begin

text \<open>The script functions: which dates fit into their block, and that the names are inside their tables.\<close>

subsection \<open>Names\<close>

lemma month_range:
  assumes "n \<le> 324321916"
  shows "fst (snd (SdnToGregorian n)) \<in> {0..12}" "fst (snd (SdnToJulian n)) \<in> {0..12}" "fst (snd (SdnToFrench n)) \<in> {0..13}"
    "\<exists>d. SdnToJewish n = Some d \<and> fst (snd d) \<in> {0..13}"
proof -
  show "fst (snd (SdnToGregorian n)) \<in> {0..12}"
  proof (cases "1 \<le> n")
    case True
    then show ?thesis using gregorian.day_numbers(2) [of n] assms by (auto simp: gregorian_date_def civil_def)
  qed (simp add: SdnToGregorian_def)
  show "fst (snd (SdnToJulian n)) \<in> {0..12}"
  proof (cases "1 \<le> n")
    case True
    then show ?thesis using julian.day_numbers(2) [of n] assms by (auto simp: julian_date_def civil_def)
  qed (simp add: SdnToJulian_def)
  show "fst (snd (SdnToFrench n)) \<in> {0..13}"
  proof (cases "2375840 \<le> n \<and> n \<le> 2380952")
    case True
    then show ?thesis using french.day_numbers(2) [of n] by (auto simp: french_date_def)
  qed (auto simp: SdnToFrench_def)
  show "\<exists>d. SdnToJewish n = Some d \<and> fst (snd d) \<in> {0..13}"
  proof (cases "347998 \<le> n")
    case True
    then show ?thesis using jewish_day [of n] assms by (auto simp: jewish_date_def)
  qed (simp add: SdnToJewish_def)
qed

lemma name_at: "i \<in> {0..int k} \<Longrightarrow> length names = Suc k \<Longrightarrow> name_at names i = Some (PString (names ! nat i))"
  by (auto simp: name_at_def)

lemma names_in_tables:
  assumes "long_arg F v \<le> 324321916"
  shows "\<exists>r. cal_monthname F v mode = Some r" "\<exists>r. cal_jddayofweek F v mode = Some r"
proof -
  note m = month_range [OF assms]
  obtain d where d: "SdnToJewish (long_arg F v) = Some d" "fst (snd d) \<in> {0..13}" using m(4) by blast
  show "\<exists>r. cal_monthname F v mode = Some r"
    using m(1-3) d unfolding cal_monthname_def Let_def
    by (auto simp: name_at_def MonthNameLong_def MonthNameShort_def JewishMonthName_def FrenchMonthName_def split: prod.splits)
  have "0 \<le> DayOfWeek (long_arg F v)" "DayOfWeek (long_arg F v) < 7" by (simp_all add: day_of_week)
  then show "\<exists>r. cal_jddayofweek F v mode = Some r"
    by (auto simp: cal_jddayofweek_def Let_def name_at_def DayNameLong_def DayNameShort_def)
qed

subsection \<open>Texts\<close>

lemma long_arg: "LONG_MIN \<le> n \<Longrightarrow> n \<le> LONG_MAX \<Longrightarrow> long_arg F (PLong (word_of_int n)) = n"
  by (simp add: long_arg_def convert_to_long_def lval_def sint_of_long)

lemma length_print: "0 < k \<Longrightarrow> 0 \<le> n \<Longrightarrow> length (print_int n) \<le> k \<longleftrightarrow> n < 10 ^ k"
  using length_dec_digits [of k "nat n"] by (simp add: print_int_def nat_less_iff)

lemma date_length:
  assumes "1000 \<le> y" "y \<le> 9999" "1 \<le> m" "m \<le> 12" "1 \<le> d" "d \<le> 31"
  shows "length (date_chars (y, m, d)) \<le> 9 \<longleftrightarrow> m < 10 \<or> d < 10"
proof -
  have l: "length (print_int n) = (if n < 10 then 1 else 2)" if "1 \<le> n" "n \<le> 31" for n
  proof -
    have "print_int n \<noteq> []" using that by (simp add: print_int_def)
    then have "0 < length (print_int n)" by simp
    then show ?thesis using that length_print [of 1 n] length_print [of 2 n] by (simp; linarith)
  qed
  have "length (print_int y) = 4" using assms length_print [of 3 y] length_print [of 4 y] by simp
  then show ?thesis using assms l [of m] l [of d] by (simp add: date_chars_def)
qed

lemma gregorian_int:
  assumes "gregorian_date (y, m, d)"
  shows "cal_gregtojd F (PLong (word_of_int m)) (PLong (word_of_int d)) (PLong (word_of_int y)) = PLong (word_of_int (GregorianToSdn y m d))"
    "cal_jdtogreg F (PLong (word_of_int (GregorianToSdn y m d))) = date_text (y, m, d)"
proof -
  have r: "- 4714 \<le> y" "y \<le> 1465199" "1 \<le> m" "m \<le> 12" "1 \<le> d" "d \<le> 31"
    using assms by (auto simp: gregorian_date_def civil_def month_length_def split: if_splits)
  have g: "- 2147483648 \<le> GregorianToSdn y m d" "GregorianToSdn y m d < 2147483648"
    using int_of_long_range by (simp_all add: GregorianToSdn_def Let_def split: prod.split)
  show "cal_gregtojd F (PLong (word_of_int m)) (PLong (word_of_int d)) (PLong (word_of_int y)) = PLong (word_of_int (GregorianToSdn y m d))"
    using r g by (simp add: cal_gregtojd_def days_of_def long_arg LONG_MIN_def LONG_MAX_def int_exact)
  show "cal_jdtogreg F (PLong (word_of_int (GregorianToSdn y m d))) = date_text (y, m, d)"
    using g gregorian_back [OF assms] by (simp add: cal_jdtogreg_def long_arg LONG_MIN_def LONG_MAX_def)
qed

text \<open>C40: the text of the day number of a Gregorian date, up to the year 1465199, is the date, unless it does not
  fit into the ten bytes on the stack: of the years from 1000 to 9999 exactly the dates of October, November and
  December from the 10th on overrun them.\<close>

theorem date_text_overrun:
  fixes F :: "'d fp" and y m d :: int
  assumes "gregorian_date (y, m, d)"
  defines "n \<equiv> cal_gregtojd F (PLong (word_of_int m)) (PLong (word_of_int d)) (PLong (word_of_int y))"
  shows "(cal_jdtogreg F n = None \<or> cal_jdtogreg F n = Some (PString (print_int m @ ''/'' @ print_int d @ ''/'' @ print_int y))) \<and>
    (1000 \<le> y \<and> y \<le> 9999 \<longrightarrow> (cal_jdtogreg F n = None \<longleftrightarrow> 10 \<le> m \<and> 10 \<le> d))"
proof -
  have n: "cal_jdtogreg F n = date_text (y, m, d)" unfolding n_def gregorian_int(1) [OF assms(1)] by (rule gregorian_int(2) [OF assms(1)])
  have "1 \<le> m" "m \<le> 12" "1 \<le> d" "d \<le> 31"
    using assms(1) by (auto simp: gregorian_date_def civil_def month_length_def split: if_splits)
  then have "1000 \<le> y \<and> y \<le> 9999 \<longrightarrow> (length (date_chars (y, m, d)) + 1 \<le> 10 \<longleftrightarrow> m < 10 \<or> d < 10)"
    using date_length [of y m d] by simp
  then show ?thesis unfolding n date_text_def by (auto simp: date_chars_def)
qed

theorem date_text_overrun_witness:
  "\<forall>F :: int fp. cal_jdtogreg F (cal_gregtojd F (PLong (word_of_int 12)) (PLong (word_of_int 25)) (PLong (word_of_int 1999))) = None"
proof
  fix F :: "int fp"
  have "gregorian_date (1999, 12, 25)" by (simp add: gregorian_date_def civil_def month_length_def)
  then show "cal_jdtogreg F (cal_gregtojd F (PLong (word_of_int 12)) (PLong (word_of_int 25)) (PLong (word_of_int 1999))) = None"
    using date_text_overrun [of 1999 12 25 F] by simp
qed

text \<open>C32: the dates of consecutive day numbers are consecutive dates, by the lengths of the months and the rule of
  leap years of each calendar, and the day of a date and the date of a day are inverse to each other: in the
  Gregorian calendar from November 25th, 4714 B.C., day 1, to the end of the year 1465199, day 536874370; in the
  Julian calendar from January 2nd, 4713 B.C., to the end of the year 1465072, day 536838971, where \<open>int\<close>s
  overflow soon after; and in the French one for the years 1 to 14.  There is no year 0.\<close>

theorem calendars_count_days:
  fixes n :: int
  shows "(1 \<le> n \<and> n \<le> 536874370 \<longrightarrow>
      SdnToGregorian n = (next_date gregorian_leap ^^ nat (n - 1)) (- 4714, 11, 25) \<and>
      (\<lambda>(y, m, d). GregorianToSdn y m d) (SdnToGregorian n) = n) \<and>
    (1 \<le> n \<and> n \<le> 536838971 \<longrightarrow>
      SdnToJulian n = (next_date julian_leap ^^ nat (n - 1)) (- 4713, 1, 2) \<and>
      (\<lambda>(y, m, d). JulianToSdn y m d) (SdnToJulian n) = n) \<and>
    (2375840 \<le> n \<and> n \<le> 2380952 \<longrightarrow>
      SdnToFrench n = (next_french ^^ nat (n - 2375840)) (1, 1, 1) \<and>
      (\<lambda>(y, m, d). FrenchToSdn y m d) (SdnToFrench n) = n) \<and>
    (\<forall>y m d. (gregorian_date (y, m, d) \<longrightarrow> SdnToGregorian (GregorianToSdn y m d) = (y, m, d)) \<and>
      (julian_date (y, m, d) \<longrightarrow> SdnToJulian (JulianToSdn y m d) = (y, m, d)) \<and>
      (french_date (y, m, d) \<longrightarrow> SdnToFrench (FrenchToSdn y m d) = (y, m, d)))"
proof (intro conjI allI impI)
  assume "1 \<le> n \<and> n \<le> 536874370"
  then have h: "1 \<le> n" "n \<le> 536874370" by blast+
  show "SdnToGregorian n = (next_date gregorian_leap ^^ nat (n - 1)) (- 4714, 11, 25)"
    "(\<lambda>(y, m, d). GregorianToSdn y m d) (SdnToGregorian n) = n" by (rule gregorian.day_numbers [OF h])+
next
  assume "1 \<le> n \<and> n \<le> 536838971"
  then have h: "1 \<le> n" "n \<le> 536838971" by blast+
  show "SdnToJulian n = (next_date julian_leap ^^ nat (n - 1)) (- 4713, 1, 2)"
    "(\<lambda>(y, m, d). JulianToSdn y m d) (SdnToJulian n) = n" by (rule julian.day_numbers [OF h])+
next
  assume "2375840 \<le> n \<and> n \<le> 2380952"
  then have h: "2375840 \<le> n" "n \<le> 2380952" by blast+
  show "SdnToFrench n = (next_french ^^ nat (n - 2375840)) (1, 1, 1)"
    "(\<lambda>(y, m, d). FrenchToSdn y m d) (SdnToFrench n) = n" by (rule french.day_numbers [OF h])+
qed (rule gregorian_back julian_back french_back, assumption)+

theorem calendars_count_days_witness:
  "(\<lambda>(y, m, d). GregorianToSdn y m d) (SdnToGregorian 2378000) = 2378000 \<and> (\<lambda>(y, m, d). FrenchToSdn y m d) (SdnToFrench 2378000) = 2378000"
  using conjunct1 [OF calendars_count_days [of 2378000]] conjunct1 [OF conjunct2 [OF conjunct2 [OF calendars_count_days [of 2378000]]]]
  by (auto dest: mp)

end
