(* ===== verification/Spec2Isabelle.thy ===== *)
theory Spec2Isabelle
  imports Hash_Props Memory_Props String_Props Control_Call_Props Serial_Props Levenshtein Var_Strings Jewish_Props Calendar_Text_Props
begin

text \<open>
  \<^bold>\<open>The core of PHP 3, and what makes it correct.\<close>

  \<^bold>\<open>The program.\<close>  PHP 3 is an interpreter for a scripting language.  Its core is layered: a memory manager
  (alloc.c) below everything; a hash table that keeps insertion order (php3_hash.c) for symbol tables,
  arrays, resource lists and constants; a stack (stack.c); a cache of the tokens the scanner gave
  (token_cache.c), which makes it possible to execute a loop while parsing; the values with their
  conversions and operators (operators.c); the handlers that the grammar calls to steer execution
  (control_structures_inline.h); the library of functions a script can call (functions/);
  and extensions, of which the calendar (dl/calendar/) is modelled.

  \<^bold>\<open>Theories and the code they model.\<close>

  \<^item> \<open>PHP_Prelude\<close>, \<open>Codec\<close>: the collections of hints, C types (\<open>ulong\<close>, \<open>int_of_long\<close>), bytes, C strings,
    and the error handling of partial C code (\<open>option\<close>).
  \<^item> \<open>Hash_Model\<close> (buckets and tables on an explicit heap of cells), \<open>Hash_Ops\<close> (every operation of
    php3_hash.c), \<open>Hash_Inv\<close>, \<open>Hash_Link\<close>, \<open>Hash_Store\<close>, \<open>Hash_Insert\<close>, \<open>Hash_Update\<close>, \<open>Hash_Remove\<close>,
    \<open>Hash_Delete\<close>, \<open>Hash_Walk\<close> (the invariant of the links and that each operation keeps it), \<open>Hash_Spec\<close>
    (the ordered dictionary a table stands for) and \<open>Hash_Table\<close> (the interface \<open>table\<close> as a locale).
    A \<open>Bucket\<close> is a record at an address, \<open>None\<close> is a bad access.
  \<^item> \<open>List_Res\<close>: list.c, resources by number over a hash table.
  \<^item> \<open>Alloc\<close>, \<open>Alloc_Inv\<close>: alloc.c as compiled without DEBUG and MEMORY_LIMIT, its caches of freed blocks
    and its list of live blocks; \<open>Stack\<close>: stack.c over it.
  \<^item> \<open>Token_Cache\<close>, \<open>Token_Cache_Inv\<close>: token_cache.c; the scanner is a parameter.
  \<^item> \<open>Base64\<close>, \<open>Url\<close>, \<open>Str_Search\<close>, \<open>Str_Edit\<close>, \<open>Str_Laws\<close>: functions/base64.c, url.c and string.c.
  \<^item> \<open>Values\<close>, \<open>Operators\<close>, \<open>Compare\<close>, \<open>Value_Laws\<close>: the type \<open>pval\<close> of php.h and operators.c.  A value is a
    tree; floating point is the parameter \<open>fp\<close>.
  \<^item> \<open>Control\<close>: the handlers of control_structures_inline.h on the record \<open>engine\<close>, one definition each;
    \<open>Control_Exec\<close>: the order in which the grammar (language-parser.y) runs them for a program, given as
    the derivation tree of its tokens; \<open>Control_Spec\<close>: the structured semantics of the same programs;
    \<open>Control_Skip\<close>, \<open>Control_Skip2\<close>: parsing without executing; \<open>Control_Sim\<close>, \<open>Control_Sim2\<close>, \<open>Control_Sim3\<close>,
    \<open>Control_For\<close>, \<open>Control_If\<close>, \<open>Control_Switch\<close>: the simulation, construct by construct;
    \<open>Control_Call\<close>, \<open>Control_Call_Props\<close>: calls and declarations of functions, where the \<open>store\<close> of the engine is
    the \<open>vars\<close> of \<open>Variables\<close>.
  \<^item> \<open>Variables\<close>: cells with addresses and symbol tables; \<open>Var_Ops\<close>, \<open>Var_Calls\<close>: the handlers of variables.c and
    control_structures_inline.h that make, read, assign, probe, pass and share variables and array elements;
    \<open>Var_Laws\<close> (reading and writing cells), \<open>Var_Store\<close> (dimensions as paths in nested maps), \<open>Var_Scope\<close> (names
    and their cells), \<open>Var_Probe\<close> (entries made and taken out again; the locale \<open>prober\<close>), \<open>Var_Props\<close>, \<open>Var_Refs\<close>,
    \<open>Var_Strings\<close> (the properties).
  \<^item> \<open>Serial\<close>: serialize, unserialize and var_dump (functions/var.c); \<open>Levenshtein\<close>: the edit distance of
    functions/levenshtein.c with its table, the distance by edit scripts, and their comparison.
  \<^item> \<open>Calendar\<close> (gregor.c, julian.c, french.c, dow.c and easter.c of dl/calendar), \<open>Jewish\<close> (jewish.c),
    \<open>Calendar_Text\<close> (calendar.c, the script functions); \<open>Calendar_Props\<close> (the locale \<open>day_count\<close>, what it means to
    count days, and its interpretations), \<open>Jewish_Years\<close> (new moons, the lengths of the years), \<open>Jewish_Search\<close>
    (the loops that find the year of a day), \<open>Jewish_Props\<close>, \<open>Easter\<close>, \<open>Calendar_Text_Props\<close> (the properties).
  \<^item> \<open>Hash_Props\<close>, \<open>Memory_Props\<close>, \<open>String_Props\<close>, \<open>Value_Props\<close>, \<open>Control_Props\<close>, \<open>Serial_Props\<close>: the properties.

  \<^bold>\<open>What is shown.\<close>  The hash table refines an ordered dictionary under sequences of operations (which
  ones: \<open>hops_ok\<close>), with the status that the dictionary and the memory determine; its
  traversal visits the entries in order and its destruction frees each cell once.  The memory manager is
  safe in every reachable state, blocks are separate and their contents kept; the stack is last in, first
  out.  The token cache replays tokens after a seek and exchanges the parts of a \<open>for\<close> loop.  Encoders and
  decoders are inverse and stay in their blocks up to the lengths where the \<open>int\<close> that sizes the block
  overflows (536870909 bytes for base64, 715827882 for rawurlencode, results of 2147483646 for str_replace); a
  serialized value is read back, its doubles with the precision of their text.  Longs are printed, parsed and
  compared with the exact conditions under which blocks are too short and differences overflow.  The flags, stacks and
  seeks of the control structures implement structured control flow: the interpreter ends with the
  outcome of the semantics, never executes skipped code, keeps its stacks balanced, and ends whenever
  the semantics ends.  A call acts on the caller as the meaning of the function on the variables, and
  gives every stack and flag back, so that calls nest and recur.

  Variables with dimensions are paths in nested maps: an assignment through the pointers of the parser
  is an update at the path that exactly the names with the same cell see, probing restores the tables,
  and references share cells where copies do not.

  The calendars count days: consecutive day numbers are consecutive dates, and the conversions are inverse.
  The years of the Jewish calendar are those of its rules, Easter is the Sunday of the rules of Meeus and
  Butcher, and exactly the texts of dates that do not fit their ten bytes overrun them.

  \<^bold>\<open>Bounds and fuel.\<close>  \<open>long\<close> and pointers have 64 bits, \<open>int\<close> has 32 (LP64).  The loops over the chains of
  a hash table and over the list of blocks run on fuel that the invariants prove enough; a string loop
  runs on its length.  \<open>exec_stmt\<close> and \<open>run_stmt\<close> count with \<open>n\<close> how often a loop goes back on each level
  of nesting; the result does not depend on \<open>n\<close> once it is not \<open>Timeout\<close> (\<open>fuel_irrelevant\<close>), and
  \<open>while_terminates\<close> says for a \<open>while\<close> loop how much is enough.  The calendars are exact up to
  the years 1465199 (Gregorian, Easter), 1465072 (Julian) and 887000 (Jewish), where \<open>int\<close>s overflow soon after; the
  loop that finds the 19-year cycle of a day is a partial function shown to end on these days.

  \<^bold>\<open>Parameters.\<close>  The results of \<open>malloc\<close>, the scanner, the destructors of hash tables and resources, the
  arithmetic of doubles (\<open>fp\<close>), \<open>mktime\<close> and the present year, and the meaning of the expressions that do not steer execution (\<open>lang\<close>).

  \<^bold>\<open>Not modelled.\<close>  The tables generated by flex and bison; regular expressions and other vendored
  libraries; the bindings to databases and network services, which only call other libraries; the
  server interface, the debugger and file input and output; formatted output of doubles; and, of the
  control structures, methods, classes, \<open>require\<close> and string interpolation.
\<close>

end
